(* ===== verification/Prelude.thy ===== *)
theory Prelude
  imports Main "HOL-Library.Word"
begin

text \<open>
  Shared vocabulary of the development: the machine types the C++ sources use, the outcome type
  of the fallible parsers, byte strings as lists of 8-bit words, and the big- and little-endian
  views of a number as bytes.  The lemmas here are the ones several components share; the ones
  that only rewrite are declared \<open>simp\<close>, the others are collected in \<open>endian_simps\<close> and
  \<open>word_nat_simps\<close>.
\<close>

named_theorems endian_simps \<open>conversion between numbers and their byte strings\<close>
named_theorems word_nat_simps \<open>moving between machine words and natural numbers\<close>

section \<open>Machine types\<close>

type_synonym u8 = "8 word"
type_synonym u16 = "16 word"
type_synonym u32 = "32 word"
type_synonym u64 = "64 word"
type_synonym u128 = "128 word"
type_synonym u256 = "256 word"
type_synonym u512 = "512 word"

text \<open>
  \<open>Bytes\<close> and \<open>ByteView\<close> of common/base.hpp are strings of bytes.  The fixed-size byte arrays
  \<open>evmc::address\<close> (20 bytes) and \<open>evmc::bytes32\<close> (32 bytes) are read as the big-endian numbers
  they spell: equality of the arrays is equality of the numbers, their lexicographic order is the
  numeric order, \<open>is_zero\<close> is equality with 0, and \<open>full_view\<close> (common/util.hpp) gives back
  the bytes.
\<close>

type_synonym bytes = "u8 list"
type_synonym address = "160 word"
type_synonym bytes32 = "256 word"

section \<open>Outcomes of parsers\<close>

text \<open>
  \<open>DecodingResult\<close> of rlp/decode.hpp.  A decoder that returns \<open>kOk\<close> is \<open>Ok\<close> with what it
  produced, one that returns another code is \<open>Err\<close> with it.  \<open>Stuck\<close> is reserved for the
  executions to which C++ gives no meaning: a read or a copy outside the buffer.
\<close>

datatype decoding_result =
    kOverflow
  | kLeadingZero
  | kInputTooShort
  | kNonCanonicalSingleByte
  | kNonCanonicalSize
  | kUnexpectedLength
  | kUnexpectedString
  | kUnexpectedList
  | kListLengthMismatch
  | kUnsupportedEip2718Type

datatype 'a res = Ok 'a | Err decoding_result | Stuck

text \<open>The early return \<open>if (err != kOk) return err;\<close> after every call of a decoder.\<close>

fun rbind :: "'a res \<Rightarrow> ('a \<Rightarrow> 'b res) \<Rightarrow> 'b res" where
  "rbind (Ok x) f = f x"
| "rbind (Err e) f = Err e"
| "rbind Stuck f = Stuck"

lemma rbind_Ok_iff: "rbind m f = Ok y \<longleftrightarrow> (\<exists>x. m = Ok x \<and> f x = Ok y)"
  by (cases m) auto

lemma rbind_OkE [elim]:
  assumes "rbind m f = Ok y"
  obtains x where "m = Ok x" and "f x = Ok y"
  using assms by (auto simp: rbind_Ok_iff)

lemma rbind_cong [fundef_cong]:
  "m = m' \<Longrightarrow> (\<And>x. m' = Ok x \<Longrightarrow> f x = f' x) \<Longrightarrow> rbind m f = rbind m' f'"
  by (cases m') auto

section \<open>Numbers and their bytes\<close>

text \<open>
  \<open>be_store k n\<close> are the \<open>k\<close> low-order bytes of \<open>n\<close>, most significant first, and \<open>be_load\<close>
  reads such a string; \<open>le_store\<close> and \<open>le_load\<close> are the little-endian counterparts, which is
  how the amd64 targets of the sources lay an integer out in memory.  \<open>be_min\<close> is the
  big-endian string without leading zero bytes.
\<close>

fun be_store :: "nat \<Rightarrow> nat \<Rightarrow> bytes" where
  "be_store 0 n = []"
| "be_store (Suc k) n = be_store k (n div 256) @ [word_of_nat n]"

fun le_store :: "nat \<Rightarrow> nat \<Rightarrow> bytes" where
  "le_store 0 n = []"
| "le_store (Suc k) n = word_of_nat n # le_store k (n div 256)"

fun le_load :: "bytes \<Rightarrow> nat" where
  "le_load [] = 0"
| "le_load (b # bs) = unat b + 256 * le_load bs"

definition be_load :: "bytes \<Rightarrow> nat" where
  "be_load bs = le_load (rev bs)"

fun be_min :: "nat \<Rightarrow> bytes" where
  "be_min n = (if n = 0 then [] else be_min (n div 256) @ [word_of_nat n])"

declare be_min.simps [simp del]

lemma length_be_store [simp]: "length (be_store k n) = k"
  by (induction k arbitrary: n) auto

lemma length_le_store [simp]: "length (le_store k n) = k"
  by (induction k arbitrary: n) auto

lemma be_store_eq_rev_le [endian_simps]: "be_store k n = rev (le_store k n)"
  by (induction k arbitrary: n) auto

lemma unat_byte_of_nat: "unat (word_of_nat n :: u8) = n mod 256"
  by (simp add: unat_of_nat)

lemma le_load_store: "le_load (le_store k n) = n mod 256 ^ k"
proof (induction k arbitrary: n)
  case 0
  show ?case by simp
next
  case (Suc k)
  have "le_load (le_store (Suc k) n) = n mod 256 + 256 * (n div 256 mod 256 ^ k)"
    by (simp add: Suc.IH unat_byte_of_nat)
  also have "\<dots> = n mod 256 ^ Suc k"
    by (simp add: mod_mult2_eq)
  finally show ?case .
qed

lemma be_load_store [endian_simps]: "be_load (be_store k n) = n mod 256 ^ k"
  by (simp add: be_load_def be_store_eq_rev_le le_load_store)

lemma le_load_less: "le_load bs < 256 ^ length bs"
proof (induction bs)
  case Nil
  show ?case by simp
next
  case (Cons b bs)
  have "unat b < 256"
    using unsigned_less [of b, where ?'a = nat] by simp
  with Cons.IH show ?case by simp
qed

lemma be_load_less: "be_load bs < 256 ^ length bs"
  using le_load_less [of "rev bs"] by (simp add: be_load_def)

lemma le_store_load: "le_store (length bs) (le_load bs) = bs"
proof (induction bs)
  case Nil
  show ?case by simp
next
  case (Cons b bs)
  have b: "unat b < 256"
    using unsigned_less [of b, where ?'a = nat] by simp
  have "word_of_nat (unat b + 256 * le_load bs) = b"
  proof (rule unsigned_word_eqI)
    show "unat (word_of_nat (unat b + 256 * le_load bs) :: u8) = unat b"
      using b by (subst unat_byte_of_nat) simp
  qed
  moreover have "(unat b + 256 * le_load bs) div 256 = le_load bs"
    using b by simp
  ultimately show ?case by (simp add: Cons.IH)
qed

lemma be_store_load [endian_simps]: "be_store (length bs) (be_load bs) = bs"
  using le_store_load [of "rev bs"] by (simp add: be_load_def be_store_eq_rev_le)

lemma be_load_Nil [simp]: "be_load [] = 0"
  by (simp add: be_load_def)

lemma le_load_append: "le_load (xs @ ys) = le_load xs + 256 ^ length xs * le_load ys"
  by (induction xs) (auto simp: algebra_simps)

lemma be_load_append: "be_load (xs @ ys) = be_load xs * 256 ^ length ys + be_load ys"
  by (simp add: be_load_def le_load_append)

lemma be_load_snoc [simp]: "be_load (bs @ [b]) = 256 * be_load bs + unat b"
  by (simp add: be_load_def)

lemma be_load_Cons: "be_load (b # bs) = unat b * 256 ^ length bs + be_load bs"
  by (simp add: be_load_def le_load_append)

lemma be_load_zeros [simp]: "be_load (replicate k 0 @ bs) = be_load bs"
  by (induction k) (simp_all add: be_load_Cons)

lemma be_load_bound: "length bs \<le> k \<Longrightarrow> be_load bs < 256 ^ k"
  by (rule less_le_trans [OF be_load_less]) (simp add: power_increasing)

text \<open>The minimal big-endian string is the unique one without a leading zero byte.\<close>

lemma be_min_0 [simp]: "be_min 0 = []"
  by (simp add: be_min.simps)

lemma be_min_eq_Nil_iff [simp]: "be_min n = [] \<longleftrightarrow> n = 0"
  by (subst be_min.simps) simp

lemma be_load_be_min [endian_simps]: "be_load (be_min n) = n"
proof (induction n rule: be_min.induct)
  case (1 n)
  then show ?case
    by (cases "n = 0") (simp_all add: be_min.simps [of n] unat_byte_of_nat)
qed

lemma hd_be_min: "n \<noteq> 0 \<Longrightarrow> hd (be_min n) \<noteq> 0"
proof (induction n rule: be_min.induct)
  case (1 n)
  show ?case
  proof (cases "n div 256 = 0")
    case True
    then have "n < 256" by simp
    then have "unat (word_of_nat n :: u8) = n" by (simp add: unat_byte_of_nat)
    with "1.prems" have "(word_of_nat n :: u8) \<noteq> 0" by (metis unsigned_0)
    with True "1.prems" show ?thesis by (simp add: be_min.simps [of n])
  next
    case False
    with 1 have "hd (be_min (n div 256)) \<noteq> 0" by simp
    with False "1.prems" show ?thesis by (simp add: be_min.simps [of n])
  qed
qed

lemma be_min_be_load: "bs = [] \<or> hd bs \<noteq> 0 \<Longrightarrow> be_min (be_load bs) = bs"
proof (induction bs rule: rev_induct)
  case Nil
  show ?case by simp
next
  case (snoc b bs)
  have b: "unat b < 256"
    using unsigned_less [of b, where ?'a = nat] by simp
  have IH: "be_min (be_load bs) = bs"
    using snoc by (cases bs) auto
  have "be_load bs \<noteq> 0 \<or> unat b \<noteq> 0"
  proof (cases bs)
    case Nil
    with snoc.prems have "b \<noteq> 0" by simp
    then show ?thesis by (metis unsigned_0 unsigned_word_eqI)
  next
    case (Cons c cs)
    with IH show ?thesis by (metis be_min_0 list.distinct(1))
  qed
  moreover have "(word_of_nat (256 * be_load bs + unat b) :: u8) = b"
    using b by (intro unsigned_word_eqI) (subst unat_byte_of_nat, simp)
  moreover have "(256 * be_load bs + unat b) div 256 = be_load bs"
    using b by simp
  ultimately show ?case
    by (subst be_load_snoc, subst be_min.simps) (auto simp: IH)
qed

section \<open>Bit lengths\<close>

text \<open>\<open>intx::clz\<close> counts the leading zero bits of an integer of a fixed width.\<close>

fun bit_len :: "nat \<Rightarrow> nat" where
  "bit_len n = (if n = 0 then 0 else Suc (bit_len (n div 2)))"

declare bit_len.simps [simp del]

definition clz :: "'a::len word \<Rightarrow> nat" where
  "clz w = LENGTH('a) - bit_len (unat w)"

lemma bit_len_0 [simp]: "bit_len 0 = 0"
  by (simp add: bit_len.simps)

lemma bit_len_eq_0_iff [simp]: "bit_len n = 0 \<longleftrightarrow> n = 0"
  by (subst bit_len.simps) simp

lemma bit_len_div2: "bit_len (n div 2) = bit_len n - 1"
  by (cases "n = 0") (simp_all add: bit_len.simps [of n])

lemma bit_len_div_power: "bit_len (n div 2 ^ k) = bit_len n - k"
proof (induction k)
  case 0
  show ?case by simp
next
  case (Suc k)
  have "n div 2 ^ Suc k = n div 2 ^ k div 2"
    by (simp only: power_Suc2 div_mult2_eq)
  with Suc.IH show ?case by (simp add: bit_len_div2)
qed

lemma bit_len_le_iff: "bit_len n \<le> k \<longleftrightarrow> n < 2 ^ k"
proof -
  have "bit_len n \<le> k \<longleftrightarrow> n div 2 ^ k = 0"
    using bit_len_div_power [of n k] by (metis bit_len_eq_0_iff diff_is_0_eq)
  also have "\<dots> \<longleftrightarrow> n < 2 ^ k"
    by (simp add: div_eq_0_iff)
  finally show ?thesis .
qed

lemma bytes_of_bits_rec: "0 < b \<Longrightarrow> (b + 7) div 8 = Suc ((b - 8 + 7) div 8)" for b :: nat
proof (cases "b \<le> 8")
  case True
  moreover assume "0 < b"
  ultimately show ?thesis by (auto intro!: div_nat_eqI)
next
  case False
  then obtain c where "b = c + 8" by (metis add.commute le_add_diff_inverse nat_le_linear)
  then show ?thesis by simp
qed

lemma length_be_min: "length (be_min n) = (bit_len n + 7) div 8"
proof (induction n rule: be_min.induct)
  case (1 n)
  show ?case
  proof (cases "n = 0")
    case True
    then show ?thesis by simp
  next
    case False
    then have "0 < bit_len n" by (metis bit_len_eq_0_iff neq0_conv)
    moreover have "bit_len (n div 256) = bit_len n - 8"
      using bit_len_div_power [of n 8] by simp
    ultimately show ?thesis
      using 1 False by (simp add: be_min.simps [of n] bytes_of_bits_rec)
  qed
qed

lemma length_be_min_le_iff: "length (be_min n) \<le> k \<longleftrightarrow> n < 256 ^ k"
proof -
  have "length (be_min n) \<le> k \<longleftrightarrow> bit_len n \<le> 8 * k"
    by (auto simp: length_be_min)
  also have "\<dots> \<longleftrightarrow> n < 256 ^ k"
    by (simp add: bit_len_le_iff power_mult)
  finally show ?thesis .
qed

text \<open>
  Dropping \<open>clz / 8\<close> bytes from the full-width big-endian string leaves the minimal string:
  the computation both overloads of \<open>rlp::big_endian\<close> perform.
\<close>

lemma be_store_split: "be_store (j + k) n = be_store j (n div 256 ^ k) @ be_store k n"
  by (induction k arbitrary: n) (auto simp: div_mult2_eq)

lemma be_store_length_be_min: "be_store (length (be_min n)) n = be_min n"
  using be_store_load [of "be_min n"] by (simp add: be_load_be_min)

lemma drop_clz_be_store:
  fixes w :: "'a::len word"
  assumes "LENGTH('a) = 8 * k"
  shows "drop (clz w div 8) (be_store k (unat w)) = be_min (unat w)"
proof -
  have "unat w < 2 ^ LENGTH('a)" by (rule unsigned_less)
  then have bl: "bit_len (unat w) \<le> 8 * k"
    by (simp add: bit_len_le_iff assms)
  define j m where "j = clz w div 8" and "m = length (be_min (unat w))"
  have "(8 * k - b) div 8 + (b + 7) div 8 = k" if "b \<le> 8 * k" for b
    using that by linarith
  with bl have k: "k = j + m"
    by (simp add: j_def m_def clz_def assms length_be_min)
  have "drop j (be_store k (unat w)) = be_store m (unat w)"
    unfolding k be_store_split by simp
  then show ?thesis by (simp add: j_def m_def be_store_length_be_min)
qed

text \<open>Byte-order reversal of a 64-bit integer, \<open>intx::bswap\<close>.\<close>

definition bswap :: "nat \<Rightarrow> 'a::len word \<Rightarrow> 'a word" where
  "bswap k w = word_of_nat (le_load (rev (le_store k (unat w))))"

lemma unat_bswap:
  fixes w :: "'a::len word"
  assumes "LENGTH('a) = 8 * k"
  shows "unat (bswap k w) = le_load (be_store k (unat w))"
proof -
  have "le_load (be_store k (unat w)) < 256 ^ k"
    using le_load_less [of "be_store k (unat w)"] by simp
  then show ?thesis
    by (simp add: bswap_def be_store_eq_rev_le unat_of_nat assms power_mult)
qed

lemma le_store_bswap:
  fixes w :: "'a::len word"
  assumes "LENGTH('a) = 8 * k"
  shows "le_store k (unat (bswap k w)) = be_store k (unat w)"
  using le_store_load [of "be_store k (unat w)"] by (simp add: unat_bswap [OF assms])

lemma bswap_le_load:
  assumes "LENGTH('a) = 8 * k" and "length bs = k"
  shows "bswap k (word_of_nat (le_load bs) :: 'a::len word) = word_of_nat (be_load bs)"
proof -
  have "le_load bs < 256 ^ k"
    using le_load_less [of bs] assms(2) by simp
  then have "unat (word_of_nat (le_load bs) :: 'a word) = le_load bs"
    by (simp add: unat_of_nat assms(1) power_mult)
  then show ?thesis
    using le_store_load [of bs] assms(2) by (simp add: bswap_def be_load_def)
qed

section \<open>Containers\<close>

text \<open>The reference that \<open>map[key]\<close> gives, with the default value of the type, and \<open>std::vector::resize\<close>.\<close>

definition ensure :: "'v \<Rightarrow> 'v option \<Rightarrow> 'v" where
  "ensure d x = (case x of Some v \<Rightarrow> v | None \<Rightarrow> d)"

definition resize :: "nat \<Rightarrow> 'a \<Rightarrow> 'a list \<Rightarrow> 'a list" where
  "resize n d xs = (if length xs < n then xs @ replicate (n - length xs) d else take n xs)"

section \<open>Successors and predecessors of 64-bit numbers\<close>

lemma unat_inj: "unat m = unat n \<longleftrightarrow> m = n" for m n :: "'a::len word"
  by (simp add: word_unat_eq_iff)

lemma unat_zero: "unat n = 0 \<longleftrightarrow> n = 0" for n :: "'a::len word"
  using unat_inj [of n 0] by simp

lemma unat_sub_one: "(n :: u64) \<noteq> 0 \<Longrightarrow> unat (n - 1) = unat n - 1"
  by (simp add: unat_minus_one)

lemma unat_pred: "(a :: u64) < n \<Longrightarrow> unat (n - 1) < unat n"
proof -
  assume "a < n"
  then have "n \<noteq> 0" by auto
  then show "unat (n - 1) < unat n" using unat_gt_0 [of n] by (simp add: unat_minus_one)
qed

lemma word_minus_one_less: "(n :: u64) \<noteq> 0 \<Longrightarrow> n - 1 < n"
  using unat_pred [of 0 n] by (simp add: word_less_nat_alt unat_gt_0)

lemma unat_add_one:
  assumes "(n :: u64) \<noteq> - 1"
  shows "unat (n + 1) = unat n + 1" "n + 1 \<noteq> 0"
proof -
  have "unat n \<noteq> unat (- 1 :: u64)" using assms unat_inj [of n "- 1"] by blast
  moreover have "unat (- 1 :: u64) = 2 ^ 64 - 1" by (simp add: unsigned_minus_1_eq_mask mask_eq_exp_minus_1)
  ultimately have "unat n \<noteq> 2 ^ 64 - 1" by simp
  then have "unat n + 1 < 2 ^ 64" using unsigned_less [of n, where ?'a = nat] by simp
  then show eq: "unat (n + 1) = unat n + 1" by (simp add: unat_word_ariths)
  then show "n + 1 \<noteq> 0" by (metis unat_0 add_eq_0_iff_both_eq_0 one_neq_zero)
qed

end
