(* ===== verification/Rlp.thy ===== *)
theory Rlp
  imports Prelude
begin

text \<open>
  Recursive Length Prefix encoding: core/silkworm/rlp/encode.hpp, encode.cpp, decode.hpp and
  decode.cpp.

  The C++ encoders append to a buffer \<open>to\<close>; each definition here is the string appended.  The
  C++ decoders advance the view \<open>from\<close>; each definition here maps the view to the decoded value
  and the view left over.  Sizes of objects in memory are \<open>size_t\<close> and \<open>uint64_t\<close> values: the
  functions called \<open>length\<close> in the sources return 64-bit words here, with their wrap-around.

  The two locales state what the rest of the program relies on: \<open>rlp_codec\<close> (the announced
  length is the encoded length, decoding inverts encoding, decoding makes progress) and
  \<open>rlp_canonical\<close> (a decoder accepts nothing but encodings).  Both are closed under the vector
  templates, and they are interpreted for every primitive of the source here and for every
  structure in the theories of the structures.
\<close>

section \<open>Headers and integers\<close>

record rlp_header =
  is_list :: bool
  payload_length :: u64

definition kEmptyStringCode :: u8 where
  "kEmptyStringCode = 0x80"

definition kEmptyListCode :: u8 where
  "kEmptyListCode = 0xC0"

definition big_endian_uint64 :: "u64 \<Rightarrow> bytes" where
  "big_endian_uint64 n =
     (let buf = bswap 8 n; p = le_store 8 (unat buf); zero_bytes = clz n div 8
      in drop zero_bytes p)"

definition big_endian_uint256 :: "u256 \<Rightarrow> bytes" where
  "big_endian_uint256 n =
     (let buf = be_store 32 (unat n); zero_bytes = clz n div 8
      in drop zero_bytes buf)"

definition encode_header :: "rlp_header \<Rightarrow> bytes" where
  "encode_header h =
     (if payload_length h < 56 then
        let code = (if is_list h then kEmptyListCode else kEmptyStringCode)
        in [code + ucast (payload_length h)]
      else
        let len_be = big_endian_uint64 (payload_length h);
            code = (if is_list h then 0xF7 else 0xB7)
        in [code + word_of_nat (length len_be)] @ len_be)"

definition length_of_length :: "u64 \<Rightarrow> u64" where
  "length_of_length n =
     (if n < 56 then 1 else 1 + 8 - word_of_nat (clz n div 8))"

section \<open>Encoders\<close>

definition full_view_bytes32 :: "bytes32 \<Rightarrow> bytes" where
  "full_view_bytes32 h = be_store 32 (unat h)"

definition full_view_address :: "address \<Rightarrow> bytes" where
  "full_view_address a = be_store 20 (unat a)"

definition encode_bytes32 :: "bytes32 \<Rightarrow> bytes" where
  "encode_bytes32 h = [kEmptyStringCode + 32] @ full_view_bytes32 h"

definition length_bytes32 :: "bytes32 \<Rightarrow> u64" where
  "length_bytes32 h = 32 + 1"

definition encode_bytes :: "bytes \<Rightarrow> bytes" where
  "encode_bytes s =
     (if length s \<noteq> 1 \<or> s ! 0 \<ge> kEmptyStringCode
      then encode_header \<lparr>is_list = False, payload_length = word_of_nat (length s)\<rparr>
      else []) @ s"

definition length_bytes :: "bytes \<Rightarrow> u64" where
  "length_bytes s =
     (let len = word_of_nat (length s)
      in if length s \<noteq> 1 \<or> s ! 0 \<ge> kEmptyStringCode
         then len + length_of_length (word_of_nat (length s)) else len)"

definition encode_uint64 :: "u64 \<Rightarrow> bytes" where
  "encode_uint64 n =
     (if n = 0 then [kEmptyStringCode]
      else if n < ucast kEmptyStringCode then [ucast n]
      else let be = big_endian_uint64 n
           in [kEmptyStringCode + word_of_nat (length be)] @ be)"

definition length_uint64 :: "u64 \<Rightarrow> u64" where
  "length_uint64 n =
     (if n < ucast kEmptyStringCode then 1 else 1 + 8 - word_of_nat (clz n div 8))"

definition encode_uint256 :: "u256 \<Rightarrow> bytes" where
  "encode_uint256 n =
     (if n = 0 then [kEmptyStringCode]
      else if n < ucast kEmptyStringCode then [ucast n]
      else let be = big_endian_uint256 n
           in [kEmptyStringCode + word_of_nat (length be)] @ be)"

definition length_uint256 :: "u256 \<Rightarrow> u64" where
  "length_uint256 n =
     (if n < ucast kEmptyStringCode then 1 else 1 + 32 - word_of_nat (clz n div 8))"

text \<open>
  The template for byte arrays of a size \<open>N\<close> fixed at compile time, with \<open>N\<close> at most 55, and
  its instance for addresses.  A \<open>bool\<close> argument converts to the \<open>uint64_t\<close> overload.
\<close>

definition encode_span :: "nat \<Rightarrow> bytes \<Rightarrow> bytes" where
  "encode_span n bs = [kEmptyStringCode + word_of_nat n] @ bs"

definition encode_address :: "address \<Rightarrow> bytes" where
  "encode_address a = encode_span 20 (full_view_address a)"

definition encode_bool :: "bool \<Rightarrow> bytes" where
  "encode_bool b = encode_uint64 (of_bool b)"

definition length_bool :: "bool \<Rightarrow> u64" where
  "length_bool b = length_uint64 (of_bool b)"

text \<open>The vector templates, over the element's own \<open>length\<close> and \<open>encode\<close>.\<close>

definition payload_vector :: "('a \<Rightarrow> u64) \<Rightarrow> 'a list \<Rightarrow> u64" where
  "payload_vector len v = foldl (\<lambda>n x. n + len x) 0 v"

definition length_vector :: "('a \<Rightarrow> u64) \<Rightarrow> 'a list \<Rightarrow> u64" where
  "length_vector len v =
     length_of_length (payload_vector len v) + payload_vector len v"

definition encode_vector :: "('a \<Rightarrow> u64) \<Rightarrow> ('a \<Rightarrow> bytes) \<Rightarrow> 'a list \<Rightarrow> bytes" where
  "encode_vector len enc v =
     encode_header \<lparr>is_list = True, payload_length = payload_vector len v\<rparr> @ concat (map enc v)"

section \<open>Decoders\<close>

text \<open>
  \<open>read_uint64\<close> copies the bytes to the high end of a zeroed little-endian buffer and swaps the
  byte order; \<open>read_uint256\<close> does the same with 32 bytes.
\<close>

definition read_uint64 :: "bytes \<Rightarrow> bool \<Rightarrow> u64 res" where
  "read_uint64 be allow_leading_zeros =
     (if length be > 8 then Err kOverflow
      else if be = [] then Ok 0
      else if be ! 0 = 0 \<and> \<not> allow_leading_zeros then Err kLeadingZero
      else let buf = replicate (8 - length be) 0 @ be
           in Ok (bswap 8 (word_of_nat (le_load buf))))"

definition read_uint256 :: "bytes \<Rightarrow> bool \<Rightarrow> u256 res" where
  "read_uint256 be allow_leading_zeros =
     (if length be > 32 then Err kOverflow
      else if be = [] then Ok 0
      else if be ! 0 = 0 \<and> \<not> allow_leading_zeros then Err kLeadingZero
      else let buf = replicate (32 - length be) 0 @ be
           in Ok (bswap 32 (word_of_nat (le_load buf))))"

text \<open>The two long-form branches of \<open>decode_header\<close>, which differ in the list flag only.\<close>

definition decode_long_header :: "bool \<Rightarrow> nat \<Rightarrow> bytes \<Rightarrow> (rlp_header \<times> bytes) res" where
  "decode_long_header l len_of_len from =
     (if length from < len_of_len then Err kInputTooShort
      else rbind (read_uint64 (take len_of_len from) False) (\<lambda>len.
        if len < 56 then Err kNonCanonicalSize
        else Ok (\<lparr>is_list = l, payload_length = len\<rparr>, drop len_of_len from)))"

definition decode_header :: "bytes \<Rightarrow> (rlp_header \<times> bytes) res" where
  "decode_header from =
     (case from of
        [] \<Rightarrow> Err kInputTooShort
      | b # rest \<Rightarrow>
          rbind
            (if b < 0x80 then Ok (\<lparr>is_list = False, payload_length = 1\<rparr>, from)
             else if b < 0xB8 then
               let h = \<lparr>is_list = False, payload_length = ucast (b - 0x80)\<rparr>
               in if payload_length h = 1 then
                    (case rest of
                       [] \<Rightarrow> Err kInputTooShort
                     | c # _ \<Rightarrow> if c < 0x80 then Err kNonCanonicalSingleByte else Ok (h, rest))
                  else Ok (h, rest)
             else if b < 0xC0 then decode_long_header False (unat (b - 0xB7)) rest
             else if b < 0xF8 then
               Ok (\<lparr>is_list = True, payload_length = ucast (b - 0xC0)\<rparr>, rest)
             else decode_long_header True (unat (b - 0xF7)) rest)
            (\<lambda>(h, from). if length from < unat (payload_length h) then Err kInputTooShort
                         else Ok (h, from)))"

definition decode_span :: "nat \<Rightarrow> bytes \<Rightarrow> (bytes \<times> bytes) res" where
  "decode_span n from =
     rbind (decode_header from) (\<lambda>(h, from).
       if is_list h then Err kUnexpectedList
       else if payload_length h \<noteq> word_of_nat n then Err kUnexpectedLength
       else Ok (take n from, drop n from))"

definition decode_bytes32 :: "bytes \<Rightarrow> (bytes32 \<times> bytes) res" where
  "decode_bytes32 from =
     rbind (decode_span 32 from) (\<lambda>(bs, from). Ok (word_of_nat (be_load bs), from))"

definition decode_address :: "bytes \<Rightarrow> (address \<times> bytes) res" where
  "decode_address from =
     rbind (decode_span 20 from) (\<lambda>(bs, from). Ok (word_of_nat (be_load bs), from))"

definition decode_bytes :: "bytes \<Rightarrow> (bytes \<times> bytes) res" where
  "decode_bytes from =
     rbind (decode_header from) (\<lambda>(h, from).
       if is_list h then Err kUnexpectedList
       else let n = unat (payload_length h) in Ok (take n from, drop n from))"

definition decode_uint64 :: "bytes \<Rightarrow> (u64 \<times> bytes) res" where
  "decode_uint64 from =
     rbind (decode_header from) (\<lambda>(h, from).
       if is_list h then Err kUnexpectedList
       else let n = unat (payload_length h)
            in rbind (read_uint64 (take n from) False) (\<lambda>x. Ok (x, drop n from)))"

definition decode_uint256 :: "bytes \<Rightarrow> (u256 \<times> bytes) res" where
  "decode_uint256 from =
     rbind (decode_header from) (\<lambda>(h, from).
       if is_list h then Err kUnexpectedList
       else let n = unat (payload_length h)
            in rbind (read_uint256 (take n from) False) (\<lambda>x. Ok (x, drop n from)))"

definition decode_bool :: "bytes \<Rightarrow> (bool \<times> bytes) res" where
  "decode_bool from =
     rbind (decode_uint64 from) (\<lambda>(i, from).
       if i > 1 then Err kOverflow else Ok (i \<noteq> 0, from))"

text \<open>
  The element loop of \<open>decode_vector\<close>.  It ends because every decoder of the program consumes
  at least one byte when it succeeds (the law \<open>dec_progress\<close> below); a decoder that did not
  would loop for ever, which is \<open>Stuck\<close>.
\<close>

function decode_items :: "(bytes \<Rightarrow> ('a \<times> bytes) res) \<Rightarrow> bytes \<Rightarrow> 'a list res" where
  "decode_items dec payload_view =
     (if payload_view = [] then Ok []
      else rbind (dec payload_view) (\<lambda>(x, view').
        if length view' < length payload_view
        then rbind (decode_items dec view') (\<lambda>xs. Ok (x # xs))
        else Stuck))"
  by pat_completeness auto
termination
  by (relation "measure (\<lambda>(dec, view). length view)") auto

declare decode_items.simps [simp del]

definition decode_vector :: "(bytes \<Rightarrow> ('a \<times> bytes) res) \<Rightarrow> bytes \<Rightarrow> ('a list \<times> bytes) res" where
  "decode_vector dec from =
     rbind (decode_header from) (\<lambda>(h, from).
       if \<not> is_list h then Err kUnexpectedString
       else let n = unat (payload_length h)
            in rbind (decode_items dec (take n from)) (\<lambda>xs. Ok (xs, drop n from)))"

section \<open>Integers: minimal big-endian strings\<close>

lemma big_endian_uint64_eq [endian_simps]: "big_endian_uint64 n = be_min (unat n)"
  by (simp add: big_endian_uint64_def Let_def le_store_bswap drop_clz_be_store)

lemma big_endian_uint256_eq [endian_simps]: "big_endian_uint256 n = be_min (unat n)"
  by (simp add: big_endian_uint256_def Let_def drop_clz_be_store)

lemma be_min_iff: "be = be_min n \<longleftrightarrow> be_load be = n \<and> (be = [] \<or> be ! 0 \<noteq> 0)"
proof
  assume "be = be_min n"
  then show "be_load be = n \<and> (be = [] \<or> be ! 0 \<noteq> 0)"
    using hd_be_min [of n] by (cases "n = 0") (auto simp: be_load_be_min hd_conv_nth)
next
  assume "be_load be = n \<and> (be = [] \<or> be ! 0 \<noteq> 0)"
  then show "be = be_min n"
    using be_min_be_load [of be] by (cases be) auto
qed

lemma length_be_min_word:
  fixes w :: "'a::len word"
  assumes "LENGTH('a) = 8 * k"
  shows "length (be_min (unat w)) \<le> k"
  using unsigned_less [of w, where ?'a = nat] assms by (simp add: length_be_min_le_iff power_mult)

lemma unat_word_of_be_load:
  assumes "LENGTH('a::len) = 8 * k" and "length be \<le> k"
  shows "unat (word_of_nat (be_load be) :: 'a word) = be_load be"
  using be_load_bound [OF assms(2)] by (simp add: unat_of_nat assms(1) power_mult)

lemma bswap_padded:
  assumes "LENGTH('a::len) = 8 * k" and "length be \<le> k"
  shows "bswap k (word_of_nat (le_load (replicate (k - length be) 0 @ be)) :: 'a word) =
    word_of_nat (be_load be)"
  using assms by (subst bswap_le_load) simp_all

text \<open>A reader accepts exactly the minimal string of the number it returns.\<close>

lemma read_uint64_Ok_iff: "read_uint64 be False = Ok n \<longleftrightarrow> be = be_min (unat n)"
proof (cases "length be \<le> 8")
  case True
  then have "unat (word_of_nat (be_load be) :: u64) = be_load be"
    by (simp add: unat_word_of_be_load)
  with True show ?thesis
    by (auto simp: read_uint64_def be_min_iff bswap_padded Let_def unat_eq_zero)
next
  case False
  with length_be_min_word [of 8 n] show ?thesis
    by (auto simp: read_uint64_def)
qed

lemma read_uint256_Ok_iff: "read_uint256 be False = Ok n \<longleftrightarrow> be = be_min (unat n)"
proof (cases "length be \<le> 32")
  case True
  then have "unat (word_of_nat (be_load be) :: u256) = be_load be"
    by (simp add: unat_word_of_be_load)
  with True show ?thesis
    by (auto simp: read_uint256_def be_min_iff bswap_padded Let_def unat_eq_zero)
next
  case False
  with length_be_min_word [of 32 n] show ?thesis
    by (auto simp: read_uint256_def)
qed

section \<open>Headers\<close>

lemma unat_byte_less: "unat (b :: u8) < 256"
  using unsigned_less [of b, where ?'a = nat] by simp

lemma unat_byte_plus: "unat a + unat b < 256 \<Longrightarrow> unat (a + b :: u8) = unat a + unat b"
  by (simp add: unat_word_ariths)

lemma unat_byte_minus: "unat b \<le> unat a \<Longrightarrow> unat (a - b :: u8) = unat a - unat b"
  by (simp add: unat_sub word_le_nat_alt)

lemma unat_ucast_byte: "unat (ucast (b :: u8) :: u64) = unat b"
  using unat_byte_less [of b] by (simp add: unsigned_ucast_eq take_bit_nat_eq_self_iff)

lemma unat_ucast_small: "unat (n :: u64) < 256 \<Longrightarrow> unat (ucast n :: u8) = unat n"
  by (simp add: unsigned_ucast_eq take_bit_nat_eq_self_iff)

lemma take_eq_iff_append:
  "k \<le> length xs \<Longrightarrow> take k xs = ys \<and> drop k xs = zs \<longleftrightarrow> k = length ys \<and> xs = ys @ zs"
  by auto

lemma decode_long_header_Ok_iff:
  "decode_long_header l k from = Ok (h, rest) \<longleftrightarrow>
    is_list h = l \<and> 56 \<le> payload_length h \<and> k = length (be_min (unat (payload_length h))) \<and>
    from = be_min (unat (payload_length h)) @ rest"
proof (cases "k \<le> length from")
  case True
  have "decode_long_header l k from = Ok (h, rest) \<longleftrightarrow>
    is_list h = l \<and> 56 \<le> payload_length h \<and>
    take k from = be_min (unat (payload_length h)) \<and> drop k from = rest"
    using True
    by (cases h) (auto simp: decode_long_header_def rbind_Ok_iff read_uint64_Ok_iff not_less)
  with take_eq_iff_append [OF True] show ?thesis by metis
next
  case False
  then show ?thesis by (auto simp: decode_long_header_def)
qed

text \<open>
  What stands before a payload: nothing for a single byte below 0x80, the encoded header
  otherwise.
\<close>

definition header_prefix :: "rlp_header \<Rightarrow> bytes \<Rightarrow> bytes" where
  "header_prefix h rest =
     (if \<not> is_list h \<and> payload_length h = 1 \<and> rest \<noteq> [] \<and> hd rest < 0x80 then []
      else encode_header h)"

lemma encode_header_short:
  "payload_length h < 56 \<Longrightarrow>
    encode_header h = [(if is_list h then 0xC0 else 0x80) + ucast (payload_length h)]"
  by (simp add: encode_header_def kEmptyListCode_def kEmptyStringCode_def)

lemma encode_header_long:
  "56 \<le> payload_length h \<Longrightarrow>
    encode_header h = ((if is_list h then 0xF7 else 0xB7) +
      word_of_nat (length (be_min (unat (payload_length h))))) # be_min (unat (payload_length h))"
  by (simp add: encode_header_def big_endian_uint64_eq Let_def leD)

lemma long_length_bounds:
  assumes "56 \<le> (n :: u64)"
  shows "1 \<le> length (be_min (unat n))" and "length (be_min (unat n)) \<le> 8"
proof -
  have "unat n \<noteq> 0" using assms by (auto simp: word_le_nat_alt)
  then show "1 \<le> length (be_min (unat n))" by (simp add: Suc_le_eq)
  show "length (be_min (unat n)) \<le> 8" by (rule length_be_min_word) simp
qed

lemma unat_code_short:
  assumes "(n :: u64) < 56" and "unat c \<le> 0xC0"
  shows "unat (c + ucast n :: u8) = unat c + unat n" and "ucast (c + ucast n - c :: u8) = n"
proof -
  have n: "unat n < 56" using assms(1) by (simp add: word_less_nat_alt)
  then have u: "unat (ucast n :: u8) = unat n" by (simp add: unat_ucast_small)
  with n assms(2) show "unat (c + ucast n :: u8) = unat c + unat n"
    by (simp add: unat_byte_plus)
  show "ucast (c + ucast n - c :: u8) = n"
    using u by (simp add: word_unat_eq_iff unat_ucast_byte)
qed

lemma unat_code_long:
  assumes "k \<le> 8" and "unat c \<le> 0xF7"
  shows "unat (c + word_of_nat k :: u8) = unat c + k" and "unat (c + word_of_nat k - c :: u8) = k"
  using assms by (simp_all add: unat_byte_plus unat_byte_of_nat)

lemma decode_header_encode_header:
  assumes "unat (payload_length h) \<le> length rest"
    and "\<not> (\<not> is_list h \<and> payload_length h = 1 \<and> rest \<noteq> [] \<and> hd rest < 0x80)"
  shows "decode_header (encode_header h @ rest) = Ok (h, rest)"
proof (cases "payload_length h < 56")
  case True
  note codes = unat_code_short [OF True, where c = "0x80"] unat_code_short [OF True, where c = "0xC0"]
  from True have n: "unat (payload_length h) < 56" by (simp add: word_less_nat_alt)
  show ?thesis
  proof (cases "is_list h")
    case True
    have "unat (0xC0 + ucast (payload_length h) :: u8) = 0xC0 + unat (payload_length h)"
      using codes by simp
    with n assms True codes \<open>payload_length h < 56\<close> show ?thesis
      by (cases h) (simp add: encode_header_short decode_header_def word_less_nat_alt)
  next
    case False
    have u: "unat (0x80 + ucast (payload_length h) :: u8) = 0x80 + unat (payload_length h)"
      using codes by simp
    have "unat (payload_length h) \<noteq> 0" if "payload_length h = 1" using that by simp
    with n assms u False codes \<open>payload_length h < 56\<close> show ?thesis
      by (cases h; cases rest) (auto simp: encode_header_short decode_header_def word_less_nat_alt Let_def)
  qed
next
  case False
  then have p: "56 \<le> payload_length h" by simp
  define k where "k = length (be_min (unat (payload_length h)))"
  have k: "1 \<le> k" "k \<le> 8" using long_length_bounds [OF p] by (simp_all add: k_def)
  have dl: "decode_long_header (is_list h) k (be_min (unat (payload_length h)) @ rest) = Ok (h, rest)"
    using p by (simp add: decode_long_header_Ok_iff k_def)
  note codes = unat_code_long [OF k(2), where c = "0xB7"] unat_code_long [OF k(2), where c = "0xF7"]
  from codes k p dl assms show ?thesis
    by (cases "is_list h") (simp_all add: encode_header_long decode_header_def word_less_nat_alt
          flip: k_def)
qed

lemma decode_header_single:
  assumes "bs \<noteq> []" and "hd bs < 0x80"
  shows "decode_header bs = Ok (\<lparr>is_list = False, payload_length = 1\<rparr>, bs)"
  using assms by (cases bs) (simp_all add: decode_header_def Suc_le_eq)

lemma code_minus_plus:
  assumes "unat (b :: u8) < unat c + 56" and "unat c \<le> unat b"
  shows "ucast (b - c) < (56 :: u64)" and "c + ucast (ucast (b - c) :: u64) = b"
proof -
  have u: "unat (ucast (b - c) :: u64) = unat b - unat c"
    using assms(2) by (simp add: unat_ucast_byte unat_byte_minus)
  with assms show lt: "ucast (b - c) < (56 :: u64)"
    by (simp add: word_less_nat_alt)
  have "unat b < 256" by (rule unat_byte_less)
  then have "unat (c + ucast (ucast (b - c) :: u64)) = unat b"
    using u assms by (subst unat_byte_plus) (simp_all add: unat_ucast_small)
  then show "c + ucast (ucast (b - c) :: u64) = b"
    by (simp add: word_unat_eq_iff)
qed

lemma code_eq_of_diff: "k = unat (b - c) \<Longrightarrow> b = c + word_of_nat k" for b c :: u8
  by simp

lemma header_prefix_long: "56 \<le> payload_length h \<Longrightarrow> header_prefix h rest = encode_header h"
  by (auto simp: header_prefix_def word_le_nat_alt)

lemma decode_header_Ok_length:
  assumes "decode_header bs = Ok (h, rest)"
  shows "unat (payload_length h) \<le> length rest"
  using assms by (auto simp: decode_header_def rbind_Ok_iff split: list.splits if_splits prod.splits)

lemma decode_header_OkD:
  assumes "decode_header (b # r) = Ok (h, rest)"
  shows "b # r = header_prefix h rest @ rest"
proof -
  consider (single) "unat b < 0x80" | (str) "0x80 \<le> unat b" "unat b < 0xB8"
    | (long_str) "0xB8 \<le> unat b" "unat b < 0xC0" | (lst) "0xC0 \<le> unat b" "unat b < 0xF8"
    | (long_lst) "0xF8 \<le> unat b" by linarith
  then show ?thesis
  proof cases
    case single
    with assms show ?thesis
      by (auto simp: decode_header_def header_prefix_def word_less_nat_alt split: if_splits)
  next
    case str
    then have h: "h = \<lparr>is_list = False, payload_length = ucast (b - 0x80)\<rparr>" and "rest = r"
      and "\<not> (payload_length h = 1 \<and> rest \<noteq> [] \<and> hd rest < 0x80)"
      using assms by (auto simp: decode_header_def word_less_nat_alt rbind_Ok_iff Let_def
          split: if_splits list.splits)
    with code_minus_plus [of b "0x80"] str show ?thesis
      by (auto simp: header_prefix_def encode_header_short)
  next
    case long_str
    with assms have "decode_long_header False (unat (b - 0xB7)) r = Ok (h, rest)"
      by (auto simp: decode_header_def word_less_nat_alt rbind_Ok_iff split: if_splits)
    then show ?thesis
      using code_eq_of_diff [of _ b "0xB7"]
      by (auto simp: decode_long_header_Ok_iff header_prefix_long encode_header_long)
  next
    case lst
    then have h: "h = \<lparr>is_list = True, payload_length = ucast (b - 0xC0)\<rparr>" and "rest = r"
      using assms by (auto simp: decode_header_def word_less_nat_alt rbind_Ok_iff
          split: if_splits)
    with code_minus_plus [of b "0xC0"] lst show ?thesis
      by (auto simp: header_prefix_def encode_header_short)
  next
    case long_lst
    with assms have "decode_long_header True (unat (b - 0xF7)) r = Ok (h, rest)"
      by (auto simp: decode_header_def word_less_nat_alt rbind_Ok_iff split: if_splits)
    then show ?thesis
      using code_eq_of_diff [of _ b "0xF7"]
      by (auto simp: decode_long_header_Ok_iff header_prefix_long encode_header_long)
  qed
qed

theorem decode_header_Ok_iff:
  "decode_header bs = Ok (h, rest) \<longleftrightarrow>
     unat (payload_length h) \<le> length rest \<and> bs = header_prefix h rest @ rest"
  (is "?dec \<longleftrightarrow> ?fits \<and> ?split")
proof
  assume dec: ?dec
  then obtain b r where "bs = b # r" by (cases bs) (auto simp: decode_header_def)
  with dec show "?fits \<and> ?split"
    using decode_header_Ok_length decode_header_OkD by blast
next
  assume "?fits \<and> ?split"
  then show ?dec
    using decode_header_encode_header [of h rest] decode_header_single [of rest]
    by (cases h) (auto simp: header_prefix_def split: if_splits)
qed

section \<open>Strings\<close>

lemma header_prefix_string:
  assumes "payload_length h = word_of_nat (length x)" and "\<not> is_list h"
    and len: "unat (payload_length h) = length x"
  shows "header_prefix h (x @ rest) @ x = encode_bytes x"
proof (cases "length x = 1")
  case True
  then obtain b where "x = [b]" by (auto simp: length_Suc_conv)
  with assms show ?thesis
    by (cases h) (auto simp: header_prefix_def encode_bytes_def kEmptyStringCode_def not_less)
next
  case False
  then have "payload_length h \<noteq> 1" using len by auto
  with False assms show ?thesis
    by (cases h) (simp add: header_prefix_def encode_bytes_def)
qed

lemma word_of_length: "length x < 2 ^ 64 \<Longrightarrow> unat (word_of_nat (length x) :: u64) = length x"
  by (simp add: unat_of_nat)

text \<open>The common core of the string decoders: a header that is no list, and its payload.\<close>

lemma decode_string_iff:
  "(\<exists>h from. decode_header bs = Ok (h, from) \<and> \<not> is_list h \<and>
      x = take (unat (payload_length h)) from \<and> rest = drop (unat (payload_length h)) from) \<longleftrightarrow>
   length x < 2 ^ 64 \<and> bs = encode_bytes x @ rest"
  (is "?L \<longleftrightarrow> ?R")
proof
  assume ?L
  then obtain h fr where h: "decode_header bs = Ok (h, fr)" "\<not> is_list h"
    and x: "x = take (unat (payload_length h)) fr" and r: "rest = drop (unat (payload_length h)) fr"
    by blast
  then have fits: "unat (payload_length h) \<le> length fr" and bs: "bs = header_prefix h fr @ fr"
    by (simp_all add: decode_header_Ok_iff)
  have fr: "fr = x @ rest" and len: "unat (payload_length h) = length x"
    using fits by (simp_all add: x r)
  have "length x < 2 ^ 64"
    using unsigned_less [of "payload_length h", where ?'a = nat] len by simp
  moreover have "payload_length h = word_of_nat (length x)" by (simp flip: len)
  ultimately show ?R
    using header_prefix_string [of h x rest] h(2) len by (simp add: bs fr flip: append_assoc)
next
  assume R: ?R
  define h where "h = \<lparr>is_list = False, payload_length = word_of_nat (length x) :: u64\<rparr>"
  have len: "unat (payload_length h) = length x" using R by (simp add: h_def word_of_length)
  have "bs = header_prefix h (x @ rest) @ (x @ rest)"
    using R header_prefix_string [of h x rest] len by (simp add: h_def flip: append_assoc)
  then have "decode_header bs = Ok (h, x @ rest)" using len by (simp add: decode_header_Ok_iff)
  then show ?L using len by (intro exI [of _ h] exI [of _ "x @ rest"]) (simp add: h_def)
qed

lemma decode_bytes_Ok_iff:
  "decode_bytes bs = Ok (x, rest) \<longleftrightarrow> length x < 2 ^ 64 \<and> bs = encode_bytes x @ rest"
  unfolding decode_string_iff [symmetric] decode_bytes_def
  by (fastforce simp: rbind_Ok_iff Let_def split: if_splits)

lemma encode_bytes_short:
  assumes "length x \<le> 55" and "length x \<noteq> 1 \<or> x ! 0 \<ge> 0x80"
  shows "encode_bytes x = (0x80 + word_of_nat (length x)) # x"
proof -
  have l: "unat (word_of_nat (length x) :: u64) = length x" using assms(1) by (simp add: word_of_length)
  then have "(word_of_nat (length x) :: u64) < 56" using assms(1) by (simp add: word_less_nat_alt)
  moreover have "(ucast (word_of_nat (length x) :: u64) :: u8) = word_of_nat (length x)"
    using l assms(1) by (simp add: word_unat_eq_iff unat_ucast_small unat_byte_of_nat)
  ultimately show ?thesis
    using assms(2) by (simp add: encode_bytes_def encode_header_short kEmptyStringCode_def)
qed

lemma encode_span_eq: "length x \<le> 55 \<Longrightarrow> length x \<noteq> 1 \<Longrightarrow> encode_span (length x) x = encode_bytes x"
  by (simp add: encode_bytes_short encode_span_def kEmptyStringCode_def)

lemma decode_span_bytes_iff:
  assumes "n < 2 ^ 64"
  shows "decode_span n bs = Ok (x, rest) \<longleftrightarrow> length x = n \<and> bs = encode_bytes x @ rest"
proof -
  have "payload_length h = word_of_nat n \<longleftrightarrow> unat (payload_length h) = n" for h :: rlp_header
    using assms by (auto simp: unat_of_nat)
  then have "decode_span n bs = Ok (x, rest) \<longleftrightarrow>
    (\<exists>h from. decode_header bs = Ok (h, from) \<and> \<not> is_list h \<and>
      x = take (unat (payload_length h)) from \<and> rest = drop (unat (payload_length h)) from) \<and>
    length x = n"
    by (fastforce simp: decode_span_def rbind_Ok_iff decode_header_Ok_iff split: if_splits)
  also have "\<dots> \<longleftrightarrow> length x = n \<and> bs = encode_bytes x @ rest"
    unfolding decode_string_iff using assms by auto
  finally show ?thesis .
qed

lemma decode_span_Ok_iff:
  assumes "n \<le> 55" and "n \<noteq> 1"
  shows "decode_span n bs = Ok (x, rest) \<longleftrightarrow> length x = n \<and> bs = encode_span n x @ rest"
  using assms encode_span_eq [of x] by (auto simp: decode_span_bytes_iff)

section \<open>Integers\<close>

lemma be_min_small: "0 < n \<Longrightarrow> n < 256 \<Longrightarrow> be_min n = [word_of_nat n]"
  by (simp add: be_min.simps [of n])

lemma encode_bytes_be_min:
  assumes "n < 256 ^ 55"
  shows "encode_bytes (be_min n) =
    (if n = 0 then [0x80] else if n < 128 then [word_of_nat n]
     else (0x80 + word_of_nat (length (be_min n))) # be_min n)"
proof -
  have l: "length (be_min n) \<le> 55" using assms by (simp add: length_be_min_le_iff)
  consider "n = 0" | "0 < n" "n < 128" | "128 \<le> n" by linarith
  then show ?thesis
  proof cases
    case 1
    then show ?thesis by (simp add: encode_bytes_short)
  next
    case 2
    then have "unat (word_of_nat n :: u8) = n" by (simp add: unat_byte_of_nat)
    with 2 show ?thesis
      by (simp add: be_min_small encode_bytes_def kEmptyStringCode_def word_le_nat_alt)
  next
    case 3
    have "length (be_min n) \<noteq> 1 \<or> be_min n ! 0 \<ge> 0x80"
    proof (cases "n < 256")
      case True
      with 3 show ?thesis by (simp add: be_min_small word_le_nat_alt unat_byte_of_nat)
    next
      case False
      then have "\<not> length (be_min n) \<le> 1" by (simp add: length_be_min_le_iff)
      then show ?thesis by simp
    qed
    with 3 l show ?thesis by (simp add: encode_bytes_short)
  qed
qed

lemma unat_eq_0: "unat w = 0 \<longleftrightarrow> w = 0" for w :: "'a::len word"
  by (rule unat_eq_zero)

lemma encode_uint64_eq: "encode_uint64 n = encode_bytes (be_min (unat n))"
proof -
  have "unat n < 256 ^ 8" using unsigned_less [of n, where ?'a = nat] by simp
  also have "\<dots> \<le> 256 ^ 55" by (rule power_increasing) simp_all
  finally have "unat n < 256 ^ 55" .
  then show ?thesis
    by (simp only: encode_bytes_be_min)
       (auto simp: encode_uint64_def kEmptyStringCode_def big_endian_uint64_eq Let_def
         word_less_nat_alt unat_eq_0)
qed

lemma encode_uint256_eq: "encode_uint256 n = encode_bytes (be_min (unat n))"
proof -
  have "unat n < 256 ^ 32" using unsigned_less [of n, where ?'a = nat] by simp
  also have "\<dots> \<le> 256 ^ 55" by (rule power_increasing) simp_all
  finally have "unat n < 256 ^ 55" .
  then show ?thesis
    by (simp only: encode_bytes_be_min)
       (auto simp: encode_uint256_def kEmptyStringCode_def big_endian_uint256_eq Let_def
         word_less_nat_alt unat_eq_0)
qed

lemma decode_uint64_Ok_iff: "decode_uint64 bs = Ok (n, rest) \<longleftrightarrow> bs = encode_uint64 n @ rest"
proof -
  have "decode_uint64 bs = Ok (n, rest) \<longleftrightarrow>
    (\<exists>h from. decode_header bs = Ok (h, from) \<and> \<not> is_list h \<and>
      be_min (unat n) = take (unat (payload_length h)) from \<and>
      rest = drop (unat (payload_length h)) from)"
    by (fastforce simp: decode_uint64_def rbind_Ok_iff read_uint64_Ok_iff Let_def split: if_splits)
  also have "\<dots> \<longleftrightarrow> bs = encode_uint64 n @ rest"
    unfolding decode_string_iff encode_uint64_eq
    using length_be_min_word [of 8 n] by auto
  finally show ?thesis .
qed

lemma decode_uint256_Ok_iff: "decode_uint256 bs = Ok (n, rest) \<longleftrightarrow> bs = encode_uint256 n @ rest"
proof -
  have "decode_uint256 bs = Ok (n, rest) \<longleftrightarrow>
    (\<exists>h from. decode_header bs = Ok (h, from) \<and> \<not> is_list h \<and>
      be_min (unat n) = take (unat (payload_length h)) from \<and>
      rest = drop (unat (payload_length h)) from)"
    by (fastforce simp: decode_uint256_def rbind_Ok_iff read_uint256_Ok_iff Let_def split: if_splits)
  also have "\<dots> \<longleftrightarrow> bs = encode_uint256 n @ rest"
    unfolding decode_string_iff encode_uint256_eq
    using length_be_min_word [of 32 n] by auto
  finally show ?thesis .
qed

lemma word64_le_1_iff: "i \<le> 1 \<longleftrightarrow> i = 0 \<or> i = 1" for i :: u64
proof
  assume "i \<le> 1"
  then have "unat i = 0 \<or> unat i = 1" by (simp add: word_le_nat_alt) arith
  then show "i = 0 \<or> i = 1" by (metis unat_1 unat_eq_0 word_unat_eq_iff)
qed auto

lemma decode_bool_Ok_iff: "decode_bool bs = Ok (b, rest) \<longleftrightarrow> bs = encode_bool b @ rest"
proof
  assume "decode_bool bs = Ok (b, rest)"
  then obtain i where "bs = encode_uint64 i @ rest" and "\<not> 1 < i" and "b = (i \<noteq> 0)"
    by (auto simp: decode_bool_def rbind_Ok_iff decode_uint64_Ok_iff split: if_splits)
  then show "bs = encode_bool b @ rest"
    by (auto simp: encode_bool_def not_less word64_le_1_iff)
next
  assume "bs = encode_bool b @ rest"
  then have "decode_uint64 bs = Ok (of_bool b, rest)"
    by (simp add: decode_uint64_Ok_iff encode_bool_def)
  then show "decode_bool bs = Ok (b, rest)"
    by (simp add: decode_bool_def)
qed

section \<open>Announced lengths\<close>

lemma clz_div_8_bound:
  fixes w :: "'a::len word"
  assumes "LENGTH('a) = 8 * k"
  shows "clz w div 8 \<le> k" and "length (be_min (unat w)) = k - clz w div 8"
proof -
  have "length (drop (clz w div 8) (be_store k (unat w))) = length (be_min (unat w))"
    by (simp only: drop_clz_be_store [OF assms])
  then show "length (be_min (unat w)) = k - clz w div 8" by simp
  show "clz w div 8 \<le> k" by (simp add: clz_def assms)
qed

lemma word_of_nat_length_be_min:
  fixes w :: "'a::len word"
  assumes "LENGTH('a) = 8 * k"
  shows "word_of_nat (Suc (length (be_min (unat w)))) = (1 + word_of_nat k - word_of_nat (clz w div 8) :: u64)"
  using clz_div_8_bound [OF assms, of w] by (simp add: of_nat_diff)

lemma length_encode_header [endian_simps]:
  "word_of_nat (length (encode_header h)) = length_of_length (payload_length h)"
proof (cases "payload_length h < 56")
  case True
  then show ?thesis by (simp add: encode_header_short length_of_length_def)
next
  case False
  then show ?thesis
    using word_of_nat_length_be_min [of 8 "payload_length h"]
    by (simp add: encode_header_long length_of_length_def)
qed

lemma length_encode_bytes: "length_bytes s = word_of_nat (length (encode_bytes s))"
  by (simp add: length_bytes_def encode_bytes_def Let_def length_encode_header)

lemma length_encode_bytes_be_min:
  assumes "n < 256 ^ 55"
  shows "length (encode_bytes (be_min n)) = (if n < 128 then 1 else Suc (length (be_min n)))"
  by (simp add: encode_bytes_be_min [OF assms])

lemma length_encode_uint64: "length_uint64 n = word_of_nat (length (encode_uint64 n))"
  using word_of_nat_length_be_min [of 8 n]
  by (auto simp: length_uint64_def encode_uint64_def kEmptyStringCode_def big_endian_uint64_eq Let_def)

lemma length_encode_uint256: "length_uint256 n = word_of_nat (length (encode_uint256 n))"
  using word_of_nat_length_be_min [of 32 n]
  by (auto simp: length_uint256_def encode_uint256_def kEmptyStringCode_def big_endian_uint256_eq Let_def)

section \<open>Codecs\<close>

lemma encode_header_not_Nil [simp]: "encode_header h \<noteq> []"
  by (simp add: encode_header_def Let_def)

lemma payload_vector_cong:
  assumes "\<forall>x\<in>set v. len x = word_of_nat (length (enc x))"
  shows "payload_vector len v = word_of_nat (length (concat (map enc v)))"
proof -
  have "foldl (\<lambda>n x. n + len x) n v = n + word_of_nat (length (concat (map enc v)))" for n
    using assms by (induction v arbitrary: n) simp_all
  then show ?thesis by (simp add: payload_vector_def)
qed

text \<open>
  The contract between the RLP functions of a type and their callers.  \<open>valid\<close> holds of the
  values that fit in memory; \<open>len\<close> is the \<open>length\<close> function of the type, which the callers sum
  up to fill the headers in before anything is encoded: \<open>rlp_sized\<close> is its law alone.
\<close>

locale rlp_sized =
  fixes enc :: "'a \<Rightarrow> bytes"
    and len :: "'a \<Rightarrow> u64"
  assumes len_enc: "len x = word_of_nat (length (enc x))"
begin

lemma payload_vector_eq: "payload_vector len v = word_of_nat (length (concat (map enc v)))"
  by (simp add: len_enc payload_vector_cong [of v len enc])

lemma length_vector_eq: "length_vector len v = word_of_nat (length (encode_vector len enc v))"
  by (simp add: length_vector_def encode_vector_def length_encode_header payload_vector_eq)

lemma vector_sized: "rlp_sized (encode_vector len enc) (length_vector len)"
  by unfold_locales (rule length_vector_eq)

end

locale rlp_codec =
  fixes enc :: "'a \<Rightarrow> bytes"
    and dec :: "bytes \<Rightarrow> ('a \<times> bytes) res"
    and len :: "'a \<Rightarrow> u64"
    and valid :: "'a \<Rightarrow> bool"
  assumes len_valid: "valid x \<Longrightarrow> len x = word_of_nat (length (enc x))"
    and dec_enc: "valid x \<Longrightarrow> dec (enc x @ rest) = Ok (x, rest)"
    and dec_progress: "dec bs = Ok (x, rest) \<Longrightarrow> length rest < length bs"
begin

lemma payload_vector_valid:
  "\<forall>x\<in>set v. valid x \<Longrightarrow> payload_vector len v = word_of_nat (length (concat (map enc v)))"
  by (rule payload_vector_cong) (simp add: len_valid)

lemma length_vector_valid:
  "\<forall>x\<in>set v. valid x \<Longrightarrow> length_vector len v = word_of_nat (length (encode_vector len enc v))"
  by (simp add: length_vector_def encode_vector_def length_encode_header payload_vector_valid)

lemma decode_items_concat:
  "\<forall>x\<in>set v. valid x \<Longrightarrow> decode_items dec (concat (map enc v)) = Ok v"
proof (induction v)
  case Nil
  show ?case by (simp add: decode_items.simps)
next
  case (Cons x v)
  let ?rest = "concat (map enc v)"
  have d: "dec (enc x @ ?rest) = Ok (x, ?rest)" using Cons.prems by (simp add: dec_enc)
  then have "length ?rest < length (enc x @ ?rest)" by (rule dec_progress)
  with d Cons show ?case by (simp add: decode_items.simps [of dec "enc x @ ?rest"])
qed

lemma decode_encode_vector:
  assumes "\<forall>x\<in>set v. valid x" and fits: "length (concat (map enc v)) < 2 ^ 64"
  shows "decode_vector dec (encode_vector len enc v @ rest) = Ok (v, rest)"
proof -
  let ?p = "concat (map enc v)"
  have n: "unat (payload_vector len v) = length ?p"
    using fits assms(1) by (simp add: payload_vector_valid unat_of_nat)
  have "decode_header (encode_vector len enc v @ rest) =
    Ok (\<lparr>is_list = True, payload_length = payload_vector len v\<rparr>, ?p @ rest)"
    using n by (simp add: encode_vector_def decode_header_encode_header)
  then show ?thesis
    using decode_items_concat [OF assms(1)] n by (simp add: decode_vector_def)
qed

lemma decode_vector_progress:
  assumes "decode_vector dec bs = Ok (v, rest)"
  shows "length rest < length bs"
proof -
  from assms obtain h fr where "bs = encode_header h @ fr" and "rest = drop (unat (payload_length h)) fr"
    by (auto simp: decode_vector_def rbind_Ok_iff decode_header_Ok_iff header_prefix_def Let_def
        split: if_splits)
  then show ?thesis by (cases "encode_header h") auto
qed

lemma vector_codec:
  "rlp_codec (encode_vector len enc) (decode_vector dec) (length_vector len)
     (\<lambda>v. (\<forall>x\<in>set v. valid x) \<and> length (concat (map enc v)) < 2 ^ 64)"
  by unfold_locales (auto intro: length_vector_valid decode_encode_vector decode_vector_progress)

end

text \<open>A decoder that accepts nothing but encodings: no two byte strings stand for one value.\<close>

locale rlp_canonical = rlp_codec +
  assumes dec_canonical: "dec bs = Ok (x, rest) \<Longrightarrow> valid x \<and> bs = enc x @ rest"
begin

lemma dec_Ok_iff: "dec bs = Ok (x, rest) \<longleftrightarrow> valid x \<and> bs = enc x @ rest"
  using dec_canonical dec_enc by blast

lemma decode_items_canonical:
  "decode_items dec bs = Ok v \<Longrightarrow> (\<forall>x\<in>set v. valid x) \<and> bs = concat (map enc v)"
proof (induction bs arbitrary: v rule: length_induct)
  case (1 bs)
  show ?case
  proof (cases "bs = []")
    case True
    with 1 show ?thesis by (simp add: decode_items.simps)
  next
    case False
    with "1.prems" obtain x bs' v' where "dec bs = Ok (x, bs')" "length bs' < length bs"
      "decode_items dec bs' = Ok v'" "v = x # v'"
      by (subst (asm) decode_items.simps) (auto simp: rbind_Ok_iff split: if_splits prod.splits)
    with "1.IH" dec_canonical show ?thesis by auto
  qed
qed

lemma decode_vector_Ok_iff:
  "decode_vector dec bs = Ok (v, rest) \<longleftrightarrow>
     ((\<forall>x\<in>set v. valid x) \<and> length (concat (map enc v)) < 2 ^ 64) \<and>
     bs = encode_vector len enc v @ rest"
proof
  assume "decode_vector dec bs = Ok (v, rest)"
  then obtain h fr where h: "decode_header bs = Ok (h, fr)" "is_list h"
    and v: "decode_items dec (take (unat (payload_length h)) fr) = Ok v"
    and rest: "rest = drop (unat (payload_length h)) fr"
    by (auto simp: decode_vector_def rbind_Ok_iff Let_def split: if_splits)
  from decode_items_canonical [OF v]
  have valid: "\<forall>x\<in>set v. valid x" and p: "take (unat (payload_length h)) fr = concat (map enc v)"
    by simp_all
  from h have fits: "unat (payload_length h) \<le> length fr" and bs: "bs = encode_header h @ fr"
    by (simp_all add: decode_header_Ok_iff header_prefix_def)
  have n: "unat (payload_length h) = length (concat (map enc v))"
    using fits by (simp flip: p)
  then have "payload_length h = payload_vector len v"
    by (simp only: payload_vector_valid [OF valid] flip: n) simp
  moreover have "length (concat (map enc v)) < 2 ^ 64"
    using unsigned_less [of "payload_length h", where ?'a = nat] by (simp add: n)
  moreover have "fr = concat (map enc v) @ rest" by (simp add: rest flip: p)
  ultimately show "((\<forall>x\<in>set v. valid x) \<and> length (concat (map enc v)) < 2 ^ 64) \<and>
     bs = encode_vector len enc v @ rest"
    using valid bs h(2) by (cases h) (simp add: encode_vector_def)
next
  assume "((\<forall>x\<in>set v. valid x) \<and> length (concat (map enc v)) < 2 ^ 64) \<and>
     bs = encode_vector len enc v @ rest"
  then show "decode_vector dec bs = Ok (v, rest)" using decode_encode_vector by simp
qed

lemma vector_canonical:
  "rlp_canonical (encode_vector len enc) (decode_vector dec) (length_vector len)
     (\<lambda>v. (\<forall>x\<in>set v. valid x) \<and> length (concat (map enc v)) < 2 ^ 64)"
  by (intro rlp_canonical.intro vector_codec rlp_canonical_axioms.intro)
     (erule decode_vector_Ok_iff [THEN iffD1])

end

text \<open>An exact decoder of nonempty strings is a canonical codec.\<close>

lemma rlp_canonicalI:
  assumes "\<And>x. valid x \<Longrightarrow> len x = word_of_nat (length (enc x))"
    and "\<And>bs x rest. dec bs = Ok (x, rest) \<longleftrightarrow> valid x \<and> bs = enc x @ rest"
    and "\<And>x. enc x \<noteq> []"
  shows "rlp_canonical enc dec len valid"
  by unfold_locales (use assms in auto)

lemma encode_bytes_not_Nil [simp]: "encode_bytes x \<noteq> []"
  by (cases x) (auto simp: encode_bytes_def encode_header_def Let_def)

lemma full_view_bytes32_load: "word_of_nat (be_load (full_view_bytes32 h)) = h"
  using unsigned_less [of h, where ?'a = nat]
  by (simp add: full_view_bytes32_def be_load_store word_unat_eq_iff unat_of_nat)

lemma full_view_address_load: "word_of_nat (be_load (full_view_address a)) = a"
  using unsigned_less [of a, where ?'a = nat]
  by (simp add: full_view_address_def be_load_store word_unat_eq_iff unat_of_nat)

lemma full_view_bytes32_iff: "length bs = 32 \<Longrightarrow> full_view_bytes32 h = bs \<longleftrightarrow> h = word_of_nat (be_load bs)"
  using be_store_load [of bs] unat_word_of_be_load [of 32 bs, where ?'a = 256] full_view_bytes32_load [of h]
  by (auto simp: full_view_bytes32_def)

lemma full_view_address_iff: "length bs = 20 \<Longrightarrow> full_view_address a = bs \<longleftrightarrow> a = word_of_nat (be_load bs)"
  using be_store_load [of bs] unat_word_of_be_load [of 20 bs, where ?'a = 160] full_view_address_load [of a]
  by (auto simp: full_view_address_def)

lemma length_full_view [simp]: "length (full_view_bytes32 h) = 32" "length (full_view_address a) = 20"
  by (simp_all add: full_view_bytes32_def full_view_address_def)

lemma decode_bytes32_Ok_iff: "decode_bytes32 bs = Ok (h, rest) \<longleftrightarrow> bs = encode_bytes32 h @ rest"
proof -
  have "decode_bytes32 bs = Ok (h, rest) \<longleftrightarrow>
    (\<exists>x. length x = 32 \<and> bs = encode_span 32 x @ rest \<and> h = word_of_nat (be_load x))"
    by (auto simp: decode_bytes32_def rbind_Ok_iff decode_span_Ok_iff)
  also have "\<dots> \<longleftrightarrow> bs = encode_span 32 (full_view_bytes32 h) @ rest"
    using full_view_bytes32_iff [of _ h] by (metis length_full_view(1))
  finally show ?thesis by (simp add: encode_bytes32_def encode_span_def)
qed

lemma decode_address_Ok_iff: "decode_address bs = Ok (a, rest) \<longleftrightarrow> bs = encode_address a @ rest"
proof -
  have "decode_address bs = Ok (a, rest) \<longleftrightarrow>
    (\<exists>x. length x = 20 \<and> bs = encode_span 20 x @ rest \<and> a = word_of_nat (be_load x))"
    by (auto simp: decode_address_def rbind_Ok_iff decode_span_Ok_iff)
  also have "\<dots> \<longleftrightarrow> bs = encode_span 20 (full_view_address a) @ rest"
    using full_view_address_iff [of _ a] by (metis length_full_view(2))
  finally show ?thesis by (simp add: encode_address_def)
qed

interpretation bytes32_codec: rlp_canonical encode_bytes32 decode_bytes32 length_bytes32 "\<lambda>_. True"
  by (rule rlp_canonicalI)
     (simp_all add: length_bytes32_def decode_bytes32_Ok_iff encode_bytes32_def)

interpretation address_codec: rlp_canonical encode_address decode_address "\<lambda>_. 20 + 1" "\<lambda>_. True"
  by (rule rlp_canonicalI)
     (simp_all add: decode_address_Ok_iff encode_address_def encode_span_def)

interpretation bytes_codec: rlp_canonical encode_bytes decode_bytes length_bytes "\<lambda>x. length x < 2 ^ 64"
  by (rule rlp_canonicalI) (simp_all add: length_encode_bytes decode_bytes_Ok_iff)

interpretation uint64_codec: rlp_canonical encode_uint64 decode_uint64 length_uint64 "\<lambda>_. True"
  by (rule rlp_canonicalI) (simp_all add: length_encode_uint64 decode_uint64_Ok_iff encode_uint64_eq)

interpretation uint256_codec: rlp_canonical encode_uint256 decode_uint256 length_uint256 "\<lambda>_. True"
  by (rule rlp_canonicalI) (simp_all add: length_encode_uint256 decode_uint256_Ok_iff encode_uint256_eq)

interpretation bool_codec: rlp_canonical encode_bool decode_bool length_bool "\<lambda>_. True"
  by (rule rlp_canonicalI)
     (simp_all add: decode_bool_Ok_iff length_bool_def encode_bool_def length_encode_uint64 encode_uint64_eq)

interpretation bytes32_sized: rlp_sized encode_bytes32 length_bytes32
  by unfold_locales (simp add: length_bytes32_def encode_bytes32_def)

lemma length_encode_bool: "length_bool b = word_of_nat (length (encode_bool b))"
  by (simp add: bool_codec.len_valid)

section \<open>Structures\<close>

text \<open>
  The pattern all structure decoders share: a list header, the fields one after the other, and
  the check that the fields take exactly the announced payload.
\<close>

lemma decode_struct_iff:
  "(\<exists>h fr. decode_header bs = Ok (h, fr) \<and> is_list h \<and> fr = p @ rest \<and>
      length rest = length fr - unat (payload_length h)) \<longleftrightarrow>
   length p < 2 ^ 64 \<and>
   bs = encode_header \<lparr>is_list = True, payload_length = word_of_nat (length p)\<rparr> @ p @ rest"
  (is "?L \<longleftrightarrow> ?R")
proof
  assume ?L
  then obtain h where h: "decode_header bs = Ok (h, p @ rest)" "is_list h"
    and l: "length rest = length (p @ rest) - unat (payload_length h)" by blast
  from h have fits: "unat (payload_length h) \<le> length (p @ rest)"
    and bs: "bs = encode_header h @ p @ rest"
    by (simp_all add: decode_header_Ok_iff header_prefix_def)
  have n: "unat (payload_length h) = length p" using fits l unfolding length_append by arith
  then have "payload_length h = word_of_nat (length p)" by (simp flip: n)
  moreover have "length p < 2 ^ 64"
    using unsigned_less [of "payload_length h", where ?'a = nat] by (simp add: n)
  ultimately show ?R using bs h(2) by (cases h) simp
next
  assume R: ?R
  then have "unat (word_of_nat (length p) :: u64) = length p" by (simp add: word_of_length)
  with R show ?L
    by (intro exI [of _ "\<lparr>is_list = True, payload_length = word_of_nat (length p)\<rparr>"] exI [of _ "p @ rest"])
       (simp add: decode_header_Ok_iff header_prefix_def)
qed

lemma decode_list_header:
  assumes "length p < 2 ^ 64"
  shows "decode_header (encode_header \<lparr>is_list = True, payload_length = word_of_nat (length p)\<rparr> @ p @ rest)
    = Ok (\<lparr>is_list = True, payload_length = word_of_nat (length p)\<rparr>, p @ rest)"
    and "unat (word_of_nat (length p) :: u64) = length p"
  using assms by (simp_all add: decode_header_encode_header word_of_length)

definition decode_struct :: "(bytes \<Rightarrow> ('a \<times> bytes) res) \<Rightarrow> bytes \<Rightarrow> ('a \<times> bytes) res" where
  "decode_struct fld from =
     rbind (decode_header from) (\<lambda>(rlp_head, from).
       if \<not> is_list rlp_head then Err kUnexpectedString
       else let leftover = length from - unat (payload_length rlp_head)
            in rbind (fld from) (\<lambda>(to, from).
                 if length from = leftover then Ok (to, from) else Err kListLengthMismatch))"

lemma decode_struct_Ok_iff:
  assumes fld: "\<And>bs rest. fld bs = Ok (x, rest) \<longleftrightarrow> valid \<and> bs = p @ rest"
  shows "decode_struct fld bs = Ok (x, rest) \<longleftrightarrow>
    (valid \<and> length p < 2 ^ 64) \<and>
    bs = encode_header \<lparr>is_list = True, payload_length = word_of_nat (length p)\<rparr> @ p @ rest"
proof -
  have "decode_struct fld bs = Ok (x, rest) \<longleftrightarrow>
    (\<exists>h fr. decode_header bs = Ok (h, fr) \<and> is_list h \<and> fld fr = Ok (x, rest) \<and>
       length rest = length fr - unat (payload_length h))"
    by (auto simp: decode_struct_def rbind_Ok_iff Let_def split: if_splits)
  also have "\<dots> \<longleftrightarrow> valid \<and>
    (\<exists>h fr. decode_header bs = Ok (h, fr) \<and> is_list h \<and> fr = p @ rest \<and>
       length rest = length fr - unat (payload_length h))"
    unfolding fld by blast
  finally show ?thesis
    unfolding decode_struct_iff by blast
qed

lemma struct_canonical:
  assumes "\<And>x bs rest. fld bs = Ok (x, rest) \<longleftrightarrow> valid x \<and> bs = p x @ rest"
    and enc: "\<And>x. valid x \<Longrightarrow> enc x = encode_header \<lparr>is_list = True, payload_length = word_of_nat (length (p x))\<rparr> @ p x"
    and len: "\<And>x. valid x \<Longrightarrow> len x = word_of_nat (length (enc x))"
    and "\<And>x. enc x \<noteq> []"
  shows "rlp_canonical enc (decode_struct fld) len (\<lambda>x. valid x \<and> length (p x) < 2 ^ 64)"
proof (rule rlp_canonicalI)
  fix x bs rest
  show "decode_struct fld bs = Ok (x, rest) \<longleftrightarrow> (valid x \<and> length (p x) < 2 ^ 64) \<and> bs = enc x @ rest"
    using decode_struct_Ok_iff [of fld x "valid x" "p x" bs rest] assms(1) enc [of x] by auto
qed (use assms(4) in \<open>simp_all add: len\<close>)

section \<open>Properties\<close>

text \<open>
  C28.  RLP of the scalar types is exact: each decoder succeeds on a byte string exactly when the string
  starts with the encoding of the value it returns, and then leaves exactly the bytes after that
  encoding.  Hence decoding inverts encoding, no value has a second encoding (no leading zeros,
  no long form of a short string, no header for a single small byte), and the \<open>length\<close>
  functions announce the number of bytes (modulo 2^64) that \<open>encode\<close> appends.
\<close>

theorem rlp_scalars_canonical:
  "(decode_uint64 bs = Ok (n, rest) \<longleftrightarrow> bs = encode_uint64 n @ rest) \<and>
   (decode_uint256 bs = Ok (m, rest) \<longleftrightarrow> bs = encode_uint256 m @ rest) \<and>
   (decode_bool bs = Ok (b, rest) \<longleftrightarrow> bs = encode_bool b @ rest) \<and>
   (decode_bytes32 bs = Ok (h, rest) \<longleftrightarrow> bs = encode_bytes32 h @ rest) \<and>
   (decode_address bs = Ok (a, rest) \<longleftrightarrow> bs = encode_address a @ rest) \<and>
   (decode_bytes bs = Ok (s, rest) \<longleftrightarrow> length s < 2 ^ 64 \<and> bs = encode_bytes s @ rest) \<and>
   length_uint64 n = word_of_nat (length (encode_uint64 n)) \<and>
   length_uint256 m = word_of_nat (length (encode_uint256 m)) \<and>
   length_bytes s = word_of_nat (length (encode_bytes s))"
  by (simp add: decode_uint64_Ok_iff decode_uint256_Ok_iff decode_bool_Ok_iff decode_bytes32_Ok_iff
      decode_address_Ok_iff decode_bytes_Ok_iff length_encode_uint64 length_encode_uint256 length_encode_bytes)

text \<open>
   Lists of hashes and lists of strings, decoded by the loop of \<open>decode_vector\<close>: a byte string is
  accepted exactly when it starts with the encoding of the list returned and the payload fits a
  64-bit length.  The loop always ends, and the payload and length computed up front are those of
  the bytes that \<open>encode\<close> appends.
\<close>

theorem rlp_vector_canonical:
  "(decode_vector decode_bytes32 bs = Ok (hs, rest) \<longleftrightarrow>
      length (concat (map encode_bytes32 hs)) < 2 ^ 64 \<and>
      bs = encode_vector length_bytes32 encode_bytes32 hs @ rest) \<and>
   (decode_vector decode_bytes bs = Ok (ss, rest) \<longleftrightarrow>
      length (concat (map encode_bytes ss)) < 2 ^ 64 \<and>
      bs = encode_vector length_bytes encode_bytes ss @ rest) \<and>
   length_vector length_bytes ss = word_of_nat (length (encode_vector length_bytes encode_bytes ss))"
proof -
  have "length s < 2 ^ 64" if "length (concat (map encode_bytes ss)) < 2 ^ 64" "s \<in> set ss" for s
  proof -
    have "length s \<le> length (encode_bytes s)" by (simp add: encode_bytes_def)
    also have "\<dots> \<le> length (concat (map encode_bytes ss))"
      using that(2) by (induction ss) auto
    finally show ?thesis using that(1) by simp
  qed
  moreover have "length_vector length_bytes ss = word_of_nat (length (encode_vector length_bytes encode_bytes ss))"
    by (simp add: length_vector_def encode_vector_def length_encode_header
        payload_vector_cong [of ss length_bytes encode_bytes] length_encode_bytes)
  ultimately show ?thesis
    unfolding bytes32_codec.decode_vector_Ok_iff bytes_codec.decode_vector_Ok_iff by blast
qed

end
