(* ===== verification/Ecdsa.thy ===== *)
theory Ecdsa
  imports Prelude
begin

text \<open>
  core/silkworm/crypto/ecdsa.hpp and ecdsa.cpp: the conversion between the signature value
  \<open>v\<close> of a transaction and the pair of a parity and a chain id (EIP-155), the range check of
  the signature, and the recovery of a public key.  The secp256k1 library is not part of the
  sources; its three entry points are the fields of the record \<open>secp256k1\<close>.
\<close>

definition kSecp256k1n :: u256 where
  "kSecp256k1n = 0xfffffffffffffffffffffffffffffffebaaedce6af48a03bbfd25e8cd0364141"

definition kSecp256k1Halfn :: u256 where
  "kSecp256k1Halfn = drop_bit 1 kSecp256k1n"

record y_parity_and_chain_id =
  odd_parity :: bool
  y_chain_id :: "u256 option"

definition y_parity_and_chain_id_to_v :: "bool \<Rightarrow> u256 option \<Rightarrow> u256" where
  "y_parity_and_chain_id_to_v odd_y chain_id =
     (case chain_id of
        Some c \<Rightarrow> c * 2 + 35 + of_bool odd_y
      | None \<Rightarrow> if odd_y then 28 else 27)"

definition v_to_y_parity_and_chain_id :: "u256 \<Rightarrow> y_parity_and_chain_id" where
  "v_to_y_parity_and_chain_id v =
     (if v = 27 \<or> v = 28 then \<lparr>odd_parity = (v = 28), y_chain_id = None\<rparr>
      else let w = v - 35
           in \<lparr>odd_parity = ((ucast w :: u64) mod 2 \<noteq> 0), y_chain_id = Some (drop_bit 1 w)\<rparr>)"

definition is_valid_signature :: "u256 \<Rightarrow> u256 \<Rightarrow> bool \<Rightarrow> bool" where
  "is_valid_signature r s homestead =
     (if r = 0 \<or> s = 0 then False
      else if r \<ge> kSecp256k1n \<and> s \<ge> kSecp256k1n then False
      else if homestead \<and> s > kSecp256k1Halfn then False
      else True)"

record ('sig, 'key) secp256k1 =
  parse_compact :: "bytes \<Rightarrow> bool \<Rightarrow> 'sig option"
  ecdsa_recover :: "'sig \<Rightarrow> bytes \<Rightarrow> 'key option"
  pubkey_serialize :: "'key \<Rightarrow> bytes"

definition recover :: "('sig, 'key) secp256k1 \<Rightarrow> bytes \<Rightarrow> bytes \<Rightarrow> bool \<Rightarrow> bytes option" where
  "recover lib message signature odd_y_parity =
     (if length message \<noteq> 32 \<or> length signature \<noteq> 64 then None
      else case parse_compact lib signature odd_y_parity of
             None \<Rightarrow> None
           | Some sig \<Rightarrow>
               (case ecdsa_recover lib sig message of
                  None \<Rightarrow> None
                | Some pub_key \<Rightarrow> Some (pubkey_serialize lib pub_key)))"

section \<open>EIP-155\<close>

lemma odd_ucast_64: "(ucast (w :: u256) :: u64) mod 2 \<noteq> 0 \<longleftrightarrow> odd w"
proof -
  have "odd (ucast w :: u64) \<longleftrightarrow> odd w"
    by (simp flip: bit_0 add: bit_ucast_iff)
  then show ?thesis
    by (simp add: even_iff_mod_2_eq_zero)
qed

lemma double_half: "drop_bit 1 w * 2 + of_bool (odd w) = (w :: u256)"
proof -
  have "w div 2 * 2 + w mod 2 = w"
    by (rule div_mult_mod_eq)
  then show ?thesis
    by (simp add: drop_bit_Suc mod_2_eq_odd)
qed

lemma even_unat: "even (unat w) \<longleftrightarrow> even w" for w :: "'a::len word"
  using bit_unsigned_iff [where w = w and n = 0 and 'a = nat] by (simp add: bit_0)

lemma half_double:
  assumes "unat (c :: u256) < 2 ^ 255"
  shows "drop_bit 1 (c * 2 + of_bool b) = c" "odd (c * 2 + of_bool b) \<longleftrightarrow> b"
proof -
  have n: "unat (c * 2 + of_bool b :: u256) = 2 * unat c + of_bool b"
    using assms by (cases b) (simp_all add: unat_word_ariths unat_add_lem)
  have "unat (drop_bit 1 (c * 2 + of_bool b)) = drop_bit 1 (unat (c * 2 + of_bool b))"
    by (rule unat_drop_bit_eq)
  also have "\<dots> = unat c"
    by (simp only: n) (cases b; simp add: drop_bit_Suc)
  finally have "unat (drop_bit 1 (c * 2 + of_bool b)) = unat c" .
  then show "drop_bit 1 (c * 2 + of_bool b) = c"
    by (simp only: word_unat_eq_iff)
  have "odd (unat (c * 2 + of_bool b)) \<longleftrightarrow> b"
    by (simp only: n) (cases b; simp)
  then show "odd (c * 2 + of_bool b) \<longleftrightarrow> b"
    by (simp add: even_unat)
qed

lemma v_to_v: "y_parity_and_chain_id_to_v (odd_parity p) (y_chain_id p) = v"
  if "p = v_to_y_parity_and_chain_id v"
proof -
  have "drop_bit 1 (v - 35) * 2 + 35 + of_bool (odd (v - 35)) = v"
    using double_half [of "v - 35"] by (simp add: algebra_simps)
  then show ?thesis
    unfolding that y_parity_and_chain_id_to_v_def v_to_y_parity_and_chain_id_def Let_def odd_ucast_64
    by (cases "v = 27 \<or> v = 28") auto
qed

lemma chain_id_bound_unat:
  assumes "c < 2 ^ 255 - 18"
  shows "unat (c :: u256) + 18 < 2 ^ 255"
  using assms by (simp add: word_less_nat_alt)

lemma to_v_not_legacy:
  assumes "unat (c :: u256) + 18 < 2 ^ 255"
  shows "c * 2 + 35 + of_bool b \<noteq> 27" "c * 2 + 35 + of_bool b \<noteq> 28"
proof -
  have "unat (c * 2 + 35 + of_bool b :: u256) = 2 * unat c + 35 + of_bool b"
    using assms by (cases b) (simp_all add: unat_word_ariths unat_add_lem)
  then have "unat (c * 2 + 35 + of_bool b :: u256) \<noteq> unat (27 :: u256)"
      "unat (c * 2 + 35 + of_bool b :: u256) \<noteq> unat (28 :: u256)"
    by simp_all
  then show "c * 2 + 35 + of_bool b \<noteq> 27" "c * 2 + 35 + of_bool b \<noteq> 28"
    by metis+
qed

lemma to_v_to:
  assumes "\<forall>c. chain_id = Some c \<longrightarrow> c < 2 ^ 255 - 18"
  shows "v_to_y_parity_and_chain_id (y_parity_and_chain_id_to_v b chain_id) =
         \<lparr>odd_parity = b, y_chain_id = chain_id\<rparr>"
proof (cases chain_id)
  case None
  then show ?thesis
    by (simp add: y_parity_and_chain_id_to_v_def v_to_y_parity_and_chain_id_def)
next
  case (Some c)
  then have c: "unat c + 18 < 2 ^ 255"
    using assms chain_id_bound_unat by blast
  have w: "c * 2 + 35 + of_bool b - 35 = c * 2 + of_bool b"
    by simp
  show ?thesis
    using to_v_not_legacy [OF c, of b] half_double [of c b] c Some
    unfolding y_parity_and_chain_id_to_v_def v_to_y_parity_and_chain_id_def Let_def odd_ucast_64
    by (simp del: of_bool_eq add: w)
qed

text \<open>
   EIP-155: every \<open>v\<close> is recovered from the parity and the chain id that
  \<open>v_to_y_parity_and_chain_id\<close> reads off it, for all 2^256 values of \<open>v\<close>, wrap-around of
  \<open>v - 35\<close> included; and a parity and a chain id below 2^255 - 18 (where the 256-bit sum does not
  wrap) are recovered from the \<open>v\<close> that \<open>y_parity_and_chain_id_to_v\<close> forms of them.
\<close>

theorem eip155_v_roundtrip:
  "(let p = v_to_y_parity_and_chain_id v in y_parity_and_chain_id_to_v (odd_parity p) (y_chain_id p) = v) \<and>
   ((\<forall>c. chain_id = Some c \<longrightarrow> c < 2 ^ 255 - 18) \<longrightarrow>
     v_to_y_parity_and_chain_id (y_parity_and_chain_id_to_v b chain_id) =
       \<lparr>odd_parity = b, y_chain_id = chain_id\<rparr>)"
  by (simp add: Let_def v_to_v to_v_to)

theorem eip155_v_roundtrip_witness:
  "v_to_y_parity_and_chain_id (y_parity_and_chain_id_to_v True (Some 1)) =
     \<lparr>odd_parity = True, y_chain_id = Some 1\<rparr>"
  using eip155_v_roundtrip [of 0 "Some 1" True] by simp

end
