(* ===== verification/Transaction.thy ===== *)
theory Transaction
  imports Rlp Ecdsa
begin

text \<open>
  core/silkworm/types/transaction.hpp and transaction.cpp: legacy and EIP-2930 transactions, their
  RLP codecs, EIP-155 signature values and the recovery of the sender.

  A decoder of the code overwrites a \<open>Transaction\<close> that its caller owns; it is a function from
  the transaction it was given and the byte view to the overwritten transaction and the advanced
  view.  The encoders are the bytes they append.  Indexing an empty view (\<open>from[0]\<close>) is \<open>Stuck\<close>.
\<close>

definition kAddressLength :: u64 where
  "kAddressLength = 20"

definition kEip2930TransactionType :: u8 where
  "kEip2930TransactionType = 1"

record access_list_entry =
  ale_account :: address
  ale_storage_keys :: "bytes32 list"

record transaction =
  tx_type :: "u8 option"
  tx_nonce :: u64
  tx_gas_price :: u256
  tx_gas_limit :: u64
  tx_to :: "address option"
  tx_value :: u256
  tx_data :: bytes
  tx_odd_y_parity :: bool
  tx_chain_id :: "u256 option"
  tx_r :: u256
  tx_s :: u256
  tx_access_list :: "access_list_entry list"
  tx_from :: "address option"

definition new_transaction :: transaction where
  "new_transaction =
     \<lparr>tx_type = None, tx_nonce = 0, tx_gas_price = 0, tx_gas_limit = 0, tx_to = None, tx_value = 0,
      tx_data = [], tx_odd_y_parity = False, tx_chain_id = None, tx_r = 0, tx_s = 0,
      tx_access_list = [], tx_from = None\<rparr>"

definition transaction_eq :: "transaction \<Rightarrow> transaction \<Rightarrow> bool" where
  "transaction_eq a b \<longleftrightarrow>
     tx_type a = tx_type b \<and> tx_nonce a = tx_nonce b \<and> tx_gas_price a = tx_gas_price b \<and>
     tx_gas_limit a = tx_gas_limit b \<and> tx_to a = tx_to b \<and> tx_value a = tx_value b \<and>
     tx_data a = tx_data b \<and> tx_odd_y_parity a = tx_odd_y_parity b \<and>
     tx_chain_id a = tx_chain_id b \<and> tx_r a = tx_r b \<and> tx_s a = tx_s b \<and>
     tx_access_list a = tx_access_list b"

definition tx_v :: "transaction \<Rightarrow> u256" where
  "tx_v txn = y_parity_and_chain_id_to_v (tx_odd_y_parity txn) (tx_chain_id txn)"

definition set_v :: "u256 \<Rightarrow> transaction \<Rightarrow> transaction" where
  "set_v v txn =
     (let y = v_to_y_parity_and_chain_id v
      in txn\<lparr>tx_odd_y_parity := odd_parity y, tx_chain_id := y_chain_id y\<rparr>)"

section \<open>Encoding\<close>

definition rlp_header_ale :: "access_list_entry \<Rightarrow> rlp_header" where
  "rlp_header_ale e =
     \<lparr>is_list = True, payload_length = kAddressLength + 1 + length_vector length_bytes32 (ale_storage_keys e)\<rparr>"

definition length_ale :: "access_list_entry \<Rightarrow> u64" where
  "length_ale e =
     (let rlp_head = rlp_header_ale e
      in length_of_length (payload_length rlp_head) + payload_length rlp_head)"

definition encode_ale :: "access_list_entry \<Rightarrow> bytes" where
  "encode_ale e =
     encode_header (rlp_header_ale e) @ encode_address (ale_account e) @
     encode_vector length_bytes32 encode_bytes32 (ale_storage_keys e)"

definition rlp_header_txn :: "transaction \<Rightarrow> bool \<Rightarrow> rlp_header" where
  "rlp_header_txn txn for_signing =
     \<lparr>is_list = True,
      payload_length =
        (if tx_type txn \<noteq> None
         then length_uint256 (case tx_chain_id txn of Some c \<Rightarrow> c | None \<Rightarrow> 0) else 0) +
        length_uint64 (tx_nonce txn) +
        length_uint256 (tx_gas_price txn) +
        length_uint64 (tx_gas_limit txn) +
        (if tx_to txn \<noteq> None then kAddressLength + 1 else 1) +
        length_uint256 (tx_value txn) +
        length_bytes (tx_data txn) +
        (if tx_type txn = Some kEip2930TransactionType
         then length_vector length_ale (tx_access_list txn) else 0) +
        (if \<not> for_signing
         then (if tx_type txn \<noteq> None then length_bool (tx_odd_y_parity txn)
               else length_uint256 (tx_v txn)) +
              length_uint256 (tx_r txn) + length_uint256 (tx_s txn)
         else case tx_chain_id txn of
                Some c \<Rightarrow> if tx_type txn = None then length_uint256 c + 2 else 0
              | None \<Rightarrow> 0)\<rparr>"

definition length_txn :: "transaction \<Rightarrow> u64" where
  "length_txn txn =
     (let rlp_head = rlp_header_txn txn False;
          rlp_len = length_of_length (payload_length rlp_head) + payload_length rlp_head
      in if tx_type txn \<noteq> None then length_of_length (rlp_len + 1) + rlp_len + 1 else rlp_len)"

definition encode_to :: "address option \<Rightarrow> bytes" where
  "encode_to a = (case a of Some a \<Rightarrow> encode_address a | None \<Rightarrow> [kEmptyStringCode])"

definition legacy_encode :: "transaction \<Rightarrow> bool \<Rightarrow> bytes" where
  "legacy_encode txn for_signing =
     encode_header (rlp_header_txn txn for_signing) @
     encode_uint64 (tx_nonce txn) @
     encode_uint256 (tx_gas_price txn) @
     encode_uint64 (tx_gas_limit txn) @
     encode_to (tx_to txn) @
     encode_uint256 (tx_value txn) @
     encode_bytes (tx_data txn) @
     (if \<not> for_signing
      then encode_uint256 (tx_v txn) @ encode_uint256 (tx_r txn) @ encode_uint256 (tx_s txn)
      else case tx_chain_id txn of
             Some c \<Rightarrow> encode_uint256 c @ encode_uint64 0 @ encode_uint64 0
           | None \<Rightarrow> [])"

text \<open>
  The assertion at the head of \<open>eip2930_encode\<close> is the type check; every caller passes the
  type through \<open>the\<close>, which is the dereference of \<open>txn.type\<close>.
\<close>

definition eip2930_encode :: "transaction \<Rightarrow> bool \<Rightarrow> bool \<Rightarrow> bytes" where
  "eip2930_encode txn for_signing wrap_into_array =
     (let rlp_head = rlp_header_txn txn for_signing in
      (if wrap_into_array
       then let rlp_len = length_of_length (payload_length rlp_head) + payload_length rlp_head
            in encode_header \<lparr>is_list = False, payload_length = rlp_len + 1\<rparr>
       else []) @
      [the (tx_type txn)] @
      encode_header rlp_head @
      encode_uint256 (case tx_chain_id txn of Some c \<Rightarrow> c | None \<Rightarrow> 0) @
      encode_uint64 (tx_nonce txn) @
      encode_uint256 (tx_gas_price txn) @
      encode_uint64 (tx_gas_limit txn) @
      encode_to (tx_to txn) @
      encode_uint256 (tx_value txn) @
      encode_bytes (tx_data txn) @
      encode_vector length_ale encode_ale (tx_access_list txn) @
      (if \<not> for_signing
       then encode_bool (tx_odd_y_parity txn) @ encode_uint256 (tx_r txn) @ encode_uint256 (tx_s txn)
       else []))"

definition encode_txn_with :: "transaction \<Rightarrow> bool \<Rightarrow> bool \<Rightarrow> bytes" where
  "encode_txn_with txn for_signing wrap_eip2718_into_array =
     (if tx_type txn \<noteq> None then eip2930_encode txn for_signing wrap_eip2718_into_array
      else legacy_encode txn for_signing)"

definition encode_txn :: "transaction \<Rightarrow> bytes" where
  "encode_txn txn = encode_txn_with txn False True"

section \<open>Decoding\<close>

definition decode_ale_fields :: "bytes \<Rightarrow> (access_list_entry \<times> bytes) res" where
  "decode_ale_fields from =
     rbind (decode_address from) (\<lambda>(account, from).
     rbind (decode_vector decode_bytes32 from) (\<lambda>(storage_keys, from).
       Ok (\<lparr>ale_account = account, ale_storage_keys = storage_keys\<rparr>, from)))"

definition decode_ale :: "bytes \<Rightarrow> (access_list_entry \<times> bytes) res" where
  "decode_ale = decode_struct decode_ale_fields"

definition decode_to :: "bytes \<Rightarrow> (address option \<times> bytes) res" where
  "decode_to from =
     (case from of
        [] \<Rightarrow> Stuck
      | b # from' \<Rightarrow>
          if b = kEmptyStringCode then Ok (None, from')
          else rbind (decode_address from) (\<lambda>(a, from). Ok (Some a, from)))"

definition legacy_decode :: "transaction \<Rightarrow> bytes \<Rightarrow> (transaction \<times> bytes) res" where
  "legacy_decode txn from =
     rbind (decode_uint64 from) (\<lambda>(nonce, from).
     rbind (decode_uint256 from) (\<lambda>(gas_price, from).
     rbind (decode_uint64 from) (\<lambda>(gas_limit, from).
     rbind (decode_to from) (\<lambda>(to, from).
     rbind (decode_uint256 from) (\<lambda>(value, from).
     rbind (decode_bytes from) (\<lambda>(data, from).
     rbind (decode_uint256 from) (\<lambda>(v, from).
     rbind (decode_uint256 from) (\<lambda>(r, from).
     rbind (decode_uint256 from) (\<lambda>(s, from).
       Ok ((set_v v (txn\<lparr>tx_nonce := nonce, tx_gas_price := gas_price, tx_gas_limit := gas_limit,
                        tx_to := to, tx_value := value, tx_data := data\<rparr>))\<lparr>tx_r := r, tx_s := s\<rparr>,
           from))))))))))"

definition eip2930_decode :: "transaction \<Rightarrow> bytes \<Rightarrow> (transaction \<times> bytes) res" where
  "eip2930_decode txn from =
     rbind (decode_header from) (\<lambda>(h, from).
     if \<not> is_list h then Err kUnexpectedString
     else
     rbind (decode_uint256 from) (\<lambda>(chain_id, from).
     rbind (decode_uint64 from) (\<lambda>(nonce, from).
     rbind (decode_uint256 from) (\<lambda>(gas_price, from).
     rbind (decode_uint64 from) (\<lambda>(gas_limit, from).
     rbind (decode_to from) (\<lambda>(to, from).
     rbind (decode_uint256 from) (\<lambda>(value, from).
     rbind (decode_bytes from) (\<lambda>(data, from).
     rbind (decode_vector decode_ale from) (\<lambda>(access_list, from).
     rbind (decode_bool from) (\<lambda>(odd_y_parity, from).
     rbind (decode_uint256 from) (\<lambda>(r, from).
     rbind (decode_uint256 from) (\<lambda>(s, from).
       Ok (txn\<lparr>tx_chain_id := Some chain_id, tx_nonce := nonce, tx_gas_price := gas_price,
               tx_gas_limit := gas_limit, tx_to := to, tx_value := value, tx_data := data,
               tx_access_list := access_list, tx_odd_y_parity := odd_y_parity,
               tx_r := r, tx_s := s\<rparr>,
           from)))))))))))))"

definition decode_txn :: "transaction \<Rightarrow> bytes \<Rightarrow> (transaction \<times> bytes) res" where
  "decode_txn txn from =
     rbind (decode_header from) (\<lambda>(h, from).
     if is_list h then
       let leftover = length from - unat (payload_length h)
       in rbind (legacy_decode (txn\<lparr>tx_type := None\<rparr>) from) (\<lambda>(txn, from).
            if length from = leftover then Ok (txn, from) else Err kListLengthMismatch)
     else if payload_length h = 0 then Err kInputTooShort
     else case from of
       [] \<Rightarrow> Stuck
     | type # from \<Rightarrow>
         if type \<noteq> kEip2930TransactionType then Err kUnsupportedEip2718Type
         else
           let n = unat (payload_length h - 1);
               eip2718_view = take n from
           in rbind (eip2930_decode (txn\<lparr>tx_type := Some type\<rparr>) eip2718_view) (\<lambda>(txn, eip2718_view).
                if eip2718_view \<noteq> [] then Err kListLengthMismatch
                else Ok (txn, drop n from)))"

section \<open>Sender recovery\<close>

definition recover_sender ::
    "(bytes \<Rightarrow> bytes32) \<Rightarrow> ('sig, 'key) secp256k1 \<Rightarrow> transaction \<Rightarrow> transaction" where
  "recover_sender keccak256 lib txn =
     (let rlp = encode_txn_with txn True False;
          hash = keccak256 rlp;
          signature = be_store 32 (unat (tx_r txn)) @ be_store 32 (unat (tx_s txn))
      in case recover lib (full_view_bytes32 hash) signature (tx_odd_y_parity txn) of
           None \<Rightarrow> txn\<lparr>tx_from := None\<rparr>
         | Some recovered \<Rightarrow> txn\<lparr>tx_from := Some (ucast (keccak256 (drop 1 recovered)))\<rparr>)"

section \<open>Access lists\<close>

interpretation keys_codec: rlp_canonical "encode_vector length_bytes32 encode_bytes32"
  "decode_vector decode_bytes32" "length_vector length_bytes32"
  "\<lambda>v. (\<forall>x\<in>set v. True) \<and> length (concat (map encode_bytes32 v)) < 2 ^ 64"
  by (rule bytes32_codec.vector_canonical)

interpretation keys_sized: rlp_sized "encode_vector length_bytes32 encode_bytes32" "length_vector length_bytes32"
  by (rule bytes32_sized.vector_sized)

definition ale_payload :: "access_list_entry \<Rightarrow> bytes" where
  "ale_payload e = encode_address (ale_account e) @
     encode_vector length_bytes32 encode_bytes32 (ale_storage_keys e)"

definition ale_valid :: "access_list_entry \<Rightarrow> bool" where
  "ale_valid e \<longleftrightarrow> length (concat (map encode_bytes32 (ale_storage_keys e))) < 2 ^ 64 \<and>
     length (ale_payload e) < 2 ^ 64"

lemma length_encode_address [simp]: "length (encode_address a) = 21"
  by (simp add: encode_address_def encode_span_def)

lemma rlp_header_ale_eq:
  "rlp_header_ale e = \<lparr>is_list = True, payload_length = word_of_nat (length (ale_payload e))\<rparr>"
  by (simp add: rlp_header_ale_def ale_payload_def kAddressLength_def keys_sized.len_enc)

lemma decode_ale_fields_Ok_iff:
  "decode_ale_fields bs = Ok (e, rest) \<longleftrightarrow>
     length (concat (map encode_bytes32 (ale_storage_keys e))) < 2 ^ 64 \<and> bs = ale_payload e @ rest"
  by (cases e) (auto simp: decode_ale_fields_def rbind_Ok_iff decode_address_Ok_iff
      keys_codec.dec_Ok_iff ale_payload_def)

interpretation ale_sized: rlp_sized encode_ale length_ale
  by unfold_locales
     (simp add: encode_ale_def length_ale_def Let_def rlp_header_ale_eq length_encode_header, simp add: ale_payload_def)

interpretation ale_codec: rlp_canonical encode_ale decode_ale length_ale ale_valid
proof -
  have "rlp_canonical encode_ale (decode_struct decode_ale_fields) length_ale
    (\<lambda>e. length (concat (map encode_bytes32 (ale_storage_keys e))) < 2 ^ 64 \<and> length (ale_payload e) < 2 ^ 64)"
    by (rule struct_canonical)
       (simp_all add: decode_ale_fields_Ok_iff ale_sized.len_enc, simp_all add: encode_ale_def rlp_header_ale_eq ale_payload_def)
  then show "rlp_canonical encode_ale decode_ale length_ale ale_valid"
    unfolding decode_ale_def ale_valid_def [abs_def] .
qed

interpretation access_list_sized: rlp_sized "encode_vector length_ale encode_ale" "length_vector length_ale"
  by (rule ale_sized.vector_sized)

interpretation access_list_codec: rlp_canonical "encode_vector length_ale encode_ale"
  "decode_vector decode_ale" "length_vector length_ale"
  "\<lambda>v. (\<forall>x\<in>set v. ale_valid x) \<and> length (concat (map encode_ale v)) < 2 ^ 64"
  by (rule ale_codec.vector_canonical)

section \<open>Legacy transactions\<close>

lemma decode_to_Ok_iff: "decode_to bs = Ok (a, rest) \<longleftrightarrow> bs = encode_to a @ rest"
proof (cases bs)
  case (Cons b bs')
  have hd: "encode_address x = 0x94 # full_view_address x" for x
    by (simp add: encode_address_def encode_span_def kEmptyStringCode_def)
  show ?thesis
    by (cases a) (auto simp: decode_to_def encode_to_def Cons rbind_Ok_iff decode_address_Ok_iff
        kEmptyStringCode_def hd)
qed (simp add: decode_to_def encode_to_def encode_address_def encode_span_def split: option.splits)

lemma length_encode_to: "word_of_nat (length (encode_to a)) = (if a \<noteq> None then kAddressLength + 1 else 1)"
  by (simp add: encode_to_def kAddressLength_def split: option.split)

definition txn_common :: "transaction \<Rightarrow> bytes" where
  "txn_common t =
     encode_uint64 (tx_nonce t) @ encode_uint256 (tx_gas_price t) @ encode_uint64 (tx_gas_limit t) @
     encode_to (tx_to t) @ encode_uint256 (tx_value t) @ encode_bytes (tx_data t)"

definition legacy_payload :: "transaction \<Rightarrow> bytes" where
  "legacy_payload t =
     txn_common t @ encode_uint256 (tx_v t) @ encode_uint256 (tx_r t) @ encode_uint256 (tx_s t)"

definition eip2930_payload :: "transaction \<Rightarrow> bytes" where
  "eip2930_payload t =
     encode_uint256 (case tx_chain_id t of Some c \<Rightarrow> c | None \<Rightarrow> 0) @ txn_common t @
     encode_vector length_ale encode_ale (tx_access_list t) @
     encode_bool (tx_odd_y_parity t) @ encode_uint256 (tx_r t) @ encode_uint256 (tx_s t)"

lemmas field_lengths =
  length_encode_uint64 length_encode_uint256 length_encode_bytes length_encode_bool
  access_list_sized.len_enc length_encode_to

lemma rlp_header_legacy:
  "tx_type t = None \<Longrightarrow> rlp_header_txn t False =
     \<lparr>is_list = True, payload_length = word_of_nat (length (legacy_payload t))\<rparr>"
  by (simp add: rlp_header_txn_def legacy_payload_def txn_common_def field_lengths)

lemma rlp_header_eip2930:
  "tx_type t = Some kEip2930TransactionType \<Longrightarrow> rlp_header_txn t False =
     \<lparr>is_list = True, payload_length = word_of_nat (length (eip2930_payload t))\<rparr>"
  by (simp add: rlp_header_txn_def eip2930_payload_def txn_common_def field_lengths)

lemma encode_txn_legacy:
  "tx_type t = None \<Longrightarrow> encode_txn t =
     encode_header \<lparr>is_list = True, payload_length = word_of_nat (length (legacy_payload t))\<rparr> @ legacy_payload t"
  by (simp add: encode_txn_def encode_txn_with_def legacy_encode_def rlp_header_legacy)
     (simp add: legacy_payload_def txn_common_def)

text \<open>The payload of the byte array that an EIP-2930 transaction is wrapped into.\<close>

definition eip2718_payload :: "transaction \<Rightarrow> bytes" where
  "eip2718_payload t = kEip2930TransactionType #
     encode_header \<lparr>is_list = True, payload_length = word_of_nat (length (eip2930_payload t))\<rparr> @
     eip2930_payload t"

lemma encode_txn_eip2930:
  "tx_type t = Some kEip2930TransactionType \<Longrightarrow> encode_txn t =
     encode_header \<lparr>is_list = False, payload_length = word_of_nat (length (eip2718_payload t))\<rparr> @ eip2718_payload t"
  by (simp add: encode_txn_def encode_txn_with_def eip2930_encode_def rlp_header_eip2930 Let_def
        length_encode_header eip2718_payload_def add.commute add.left_commute)
     (simp add: eip2930_payload_def txn_common_def)

lemma length_txn_eq:
  "tx_type t = None \<or> tx_type t = Some kEip2930TransactionType \<Longrightarrow>
     length_txn t = word_of_nat (length (encode_txn t))"
  by (auto simp: length_txn_def Let_def rlp_header_legacy rlp_header_eip2930 encode_txn_legacy
      encode_txn_eip2930 length_encode_header eip2718_payload_def ac_simps)

definition legacy_valid :: "transaction \<Rightarrow> bool" where
  "legacy_valid t \<longleftrightarrow> length (legacy_payload t) < 2 ^ 64 \<and>
     v_to_y_parity_and_chain_id (tx_v t) = \<lparr>odd_parity = tx_odd_y_parity t, y_chain_id = tx_chain_id t\<rparr>"

lemma length_data_legacy: "length (legacy_payload t) < 2 ^ 64 \<Longrightarrow> length (tx_data t) < 2 ^ 64"
proof -
  have "length (tx_data t) \<le> length (encode_bytes (tx_data t))"
    by (simp add: encode_bytes_def)
  then show "length (legacy_payload t) < 2 ^ 64 \<Longrightarrow> length (tx_data t) < 2 ^ 64"
    by (simp add: legacy_payload_def txn_common_def)
qed

lemma tx_v_set_v [simp]: "tx_v (set_v v t) = v"
  by (simp add: tx_v_def set_v_def Let_def v_to_v)


lemma legacy_decode_Ok_iff:
  "legacy_decode txn bs = Ok (t, rest) \<longleftrightarrow>
     (length (tx_data t) < 2 ^ 64 \<and>
      v_to_y_parity_and_chain_id (tx_v t) = \<lparr>odd_parity = tx_odd_y_parity t, y_chain_id = tx_chain_id t\<rparr> \<and>
      tx_type t = tx_type txn \<and> tx_access_list t = tx_access_list txn \<and> tx_from t = tx_from txn) \<and>
     bs = legacy_payload t @ rest"
    (is "?L \<longleftrightarrow> ?V \<and> ?B")
proof
  assume ?L
  then show "?V \<and> ?B"
    by (auto simp: legacy_decode_def rbind_Ok_iff decode_uint64_Ok_iff decode_uint256_Ok_iff
        decode_to_Ok_iff decode_bytes_Ok_iff legacy_payload_def txn_common_def set_v_def Let_def tx_v_def v_to_v)
next
  assume R: "?V \<and> ?B"
  then have "t = (set_v (tx_v t) (txn\<lparr>tx_nonce := tx_nonce t, tx_gas_price := tx_gas_price t,
      tx_gas_limit := tx_gas_limit t, tx_to := tx_to t, tx_value := tx_value t, tx_data := tx_data t\<rparr>))
      \<lparr>tx_r := tx_r t, tx_s := tx_s t\<rparr>"
    by (cases t, cases txn) (simp add: set_v_def tx_v_def Let_def)
  with R show ?L
    by (simp add: legacy_decode_def uint64_codec.dec_enc uint256_codec.dec_enc bytes_codec.dec_enc
        decode_to_Ok_iff [THEN iffD2, OF refl] legacy_payload_def txn_common_def)
qed

lemma decode_txn_legacy:
  assumes "decode_header bs = Ok (h, fr)" "is_list h"
  shows "decode_txn txn bs = decode_struct (legacy_decode (txn\<lparr>tx_type := None\<rparr>)) bs"
  using assms by (simp add: decode_txn_def decode_struct_def)

lemma decode_txn_header: "decode_txn txn bs = Ok (t, rest) \<Longrightarrow> \<exists>h fr. decode_header bs = Ok (h, fr)"
  by (auto simp: decode_txn_def rbind_Ok_iff)

lemma decode_txn_typed:
  assumes "decode_txn txn bs = Ok (t, rest)" "decode_header bs = Ok (h, fr)" "\<not> is_list h"
  shows "tx_type t = Some kEip2930TransactionType"
  using assms
  by (auto simp: decode_txn_def rbind_Ok_iff Let_def eip2930_decode_def split: if_splits list.splits)

lemma decode_txn_type:
  "decode_txn txn bs = Ok (t, rest) \<Longrightarrow> tx_type t = None \<or> tx_type t = Some kEip2930TransactionType"
  by (auto simp: decode_txn_def rbind_Ok_iff Let_def eip2930_decode_def legacy_decode_Ok_iff
      split: if_splits list.splits)

lemma decode_txn_legacy_iff:
  assumes "tx_type t = None"
  shows "decode_txn txn bs = Ok (t, rest) \<longleftrightarrow>
     legacy_valid t \<and> tx_access_list t = tx_access_list txn \<and> tx_from t = tx_from txn \<and>
     bs = encode_txn t @ rest"
proof -
  let ?d = "decode_struct (legacy_decode (txn\<lparr>tx_type := None\<rparr>))"
  have d: "?d bs = Ok (t, rest) \<longleftrightarrow>
     legacy_valid t \<and> tx_access_list t = tx_access_list txn \<and> tx_from t = tx_from txn \<and>
     bs = encode_txn t @ rest"
    using decode_struct_Ok_iff [where fld = "legacy_decode (txn\<lparr>tx_type := None\<rparr>)", OF legacy_decode_Ok_iff]
      length_data_legacy [of t] assms
    by (auto simp: legacy_valid_def encode_txn_legacy)
  have "decode_txn txn bs = Ok (t, rest) \<longleftrightarrow> ?d bs = Ok (t, rest)"
  proof (cases "\<exists>h fr. decode_header bs = Ok (h, fr) \<and> is_list h")
    case True
    then show ?thesis by (auto simp: decode_txn_legacy)
  next
    case False
    then have "decode_txn txn bs \<noteq> Ok (t, rest)"
      using decode_txn_typed [of txn bs t rest] decode_txn_header [of txn bs t rest] assms by auto
    moreover have "?d bs \<noteq> Ok (t, rest)"
      using False by (auto simp: decode_struct_def rbind_Ok_iff split: if_splits)
    ultimately show ?thesis by simp
  qed
  then show ?thesis unfolding d .
qed

section \<open>EIP-2930 transactions\<close>

definition eip2930_valid :: "transaction \<Rightarrow> bool" where
  "eip2930_valid t \<longleftrightarrow> length (eip2718_payload t) < 2 ^ 64 \<and> (\<forall>e\<in>set (tx_access_list t). ale_valid e) \<and>
     tx_chain_id t \<noteq> None"

lemma eip2930_valid_lengths:
  assumes "eip2930_valid t"
  shows "length (eip2930_payload t) < 2 ^ 64" "length (tx_data t) < 2 ^ 64"
    "length (concat (map encode_ale (tx_access_list t))) < 2 ^ 64"
proof -
  have "length (tx_data t) \<le> length (encode_bytes (tx_data t))"
    by (simp add: encode_bytes_def)
  then show "length (eip2930_payload t) < 2 ^ 64" "length (tx_data t) < 2 ^ 64"
    "length (concat (map encode_ale (tx_access_list t))) < 2 ^ 64"
    using assms
    by (simp_all add: eip2930_valid_def eip2718_payload_def eip2930_payload_def txn_common_def encode_vector_def)
qed

lemma eip2930_decode_encode:
  assumes "eip2930_valid t" "is_list h" "unat (payload_length h) \<le> length (eip2930_payload t)"
  shows "eip2930_decode txn (encode_header h @ eip2930_payload t) =
    Ok (t\<lparr>tx_type := tx_type txn, tx_from := tx_from txn\<rparr>, [])"
proof -
  note l = eip2930_valid_lengths [OF assms(1)]
  obtain c where c: "tx_chain_id t = Some c"
    using assms by (auto simp: eip2930_valid_def)
  note dec = uint64_codec.dec_enc uint256_codec.dec_enc bytes_codec.dec_enc bool_codec.dec_enc
    uint256_codec.dec_enc [where rest = "[]", simplified] access_list_codec.dec_enc
    decode_to_Ok_iff [THEN iffD2, OF refl]
  have t: "t\<lparr>tx_type := tx_type txn, tx_from := tx_from txn\<rparr> =
      txn\<lparr>tx_chain_id := Some c, tx_nonce := tx_nonce t, tx_gas_price := tx_gas_price t,
          tx_gas_limit := tx_gas_limit t, tx_to := tx_to t, tx_value := tx_value t, tx_data := tx_data t,
          tx_access_list := tx_access_list t, tx_odd_y_parity := tx_odd_y_parity t,
          tx_r := tx_r t, tx_s := tx_s t\<rparr>"
    using c by (cases t, cases txn) simp
  have "decode_header (encode_header h @ eip2930_payload t) = Ok (h, eip2930_payload t)"
    using assms by (intro decode_header_encode_header) auto
  then show ?thesis
    unfolding eip2930_decode_def
    using l assms unfolding t
    by (simp add: eip2930_valid_def eip2930_payload_def txn_common_def dec c)
qed

lemma decode_wrapped:
  assumes l: "length (kEip2930TransactionType # q) < 2 ^ 64" "q \<noteq> []"
    and q: "eip2930_decode (txn\<lparr>tx_type := Some kEip2930TransactionType\<rparr>) q = Ok (t, [])"
  shows "decode_txn txn (encode_header \<lparr>is_list = False, payload_length = word_of_nat (length (kEip2930TransactionType # q))\<rparr> @
    (kEip2930TransactionType # q) @ rest) = Ok (t, rest)"
proof -
  let ?n = "word_of_nat (length (kEip2930TransactionType # q)) :: u64"
  have w: "unat ?n = Suc (length q)"
    using word_of_length [OF l(1)] by simp
  have w1: "unat (?n - 1) = length q"
    using l word_of_length [of q] by simp
  have n: "?n \<noteq> 0" "?n \<noteq> 1"
    using w l(2) by auto
  have "decode_header (encode_header \<lparr>is_list = False, payload_length = ?n\<rparr> @ (kEip2930TransactionType # q) @ rest) =
      Ok (\<lparr>is_list = False, payload_length = ?n\<rparr>, (kEip2930TransactionType # q) @ rest)"
    using w n(2) by (intro decode_header_encode_header) simp_all
  then show ?thesis
    using q w1 n(1) unfolding decode_txn_def by (simp add: Let_def)
qed

lemma decode_txn_eip2930_any_header:
  assumes "eip2930_valid t" "is_list h" "unat (payload_length h) \<le> length (eip2930_payload t)"
    and "length (kEip2930TransactionType # encode_header h @ eip2930_payload t) < 2 ^ 64"
  shows "decode_txn txn
      (encode_header \<lparr>is_list = False,
         payload_length = word_of_nat (length (kEip2930TransactionType # encode_header h @ eip2930_payload t))\<rparr> @
       (kEip2930TransactionType # encode_header h @ eip2930_payload t) @ rest) =
     Ok (t\<lparr>tx_type := Some kEip2930TransactionType, tx_from := tx_from txn\<rparr>, rest)"
  using assms(4) eip2930_decode_encode [OF assms(1-3)] by (intro decode_wrapped) simp_all

lemma decode_txn_eip2930:
  assumes "eip2930_valid t" "tx_type t = Some kEip2930TransactionType"
  shows "decode_txn txn (encode_txn t @ rest) = Ok (t\<lparr>tx_from := tx_from txn\<rparr>, rest)"
proof -
  let ?h = "\<lparr>is_list = True, payload_length = word_of_nat (length (eip2930_payload t)) :: u64\<rparr>"
  have "unat (payload_length ?h) \<le> length (eip2930_payload t)"
    using word_of_length [OF eip2930_valid_lengths(1) [OF assms(1)]] by simp
  moreover have "length (kEip2930TransactionType # encode_header ?h @ eip2930_payload t) < 2 ^ 64"
    using assms(1) by (simp add: eip2930_valid_def eip2718_payload_def)
  ultimately show ?thesis
    using decode_txn_eip2930_any_header [OF assms(1), of ?h txn rest] assms(2)
    by (simp add: encode_txn_eip2930 eip2718_payload_def)
qed

section \<open>Round trip\<close>

definition txn_encodable :: "transaction \<Rightarrow> bool" where
  "txn_encodable t \<longleftrightarrow> length (encode_txn t) < 2 ^ 64 \<and>
     (case tx_type t of
        None \<Rightarrow> tx_access_list t = [] \<and> (\<forall>c. tx_chain_id t = Some c \<longrightarrow> c < 2 ^ 255 - 18)
      | Some type \<Rightarrow> type = kEip2930TransactionType \<and> tx_chain_id t \<noteq> None)"

lemma txn_encodable_legacy: "txn_encodable t \<Longrightarrow> tx_type t = None \<Longrightarrow> legacy_valid t"
  by (auto simp: txn_encodable_def legacy_valid_def encode_txn_legacy tx_v_def to_v_to)

lemma length_item_le:
  assumes "e \<in> set l"
  shows "length (encode_ale e) \<le> length (concat (map encode_ale l))"
  using assms by (induction l) auto

lemma ale_valid_of_length:
  assumes "length (encode_ale e) < 2 ^ 64"
  shows "ale_valid e"
  using assms by (simp add: ale_valid_def encode_ale_def ale_payload_def encode_vector_def)

lemma txn_encodable_eip2930:
  assumes "txn_encodable t" "tx_type t \<noteq> None"
  shows "eip2930_valid t" "tx_type t = Some kEip2930TransactionType"
proof -
  show type: "tx_type t = Some kEip2930TransactionType"
    using assms by (auto simp: txn_encodable_def)
  then have l: "length (eip2718_payload t) < 2 ^ 64"
    using assms by (simp add: txn_encodable_def encode_txn_eip2930)
  have "ale_valid e" if "e \<in> set (tx_access_list t)" for e
    using length_item_le [OF that] l
    by (intro ale_valid_of_length)
       (simp add: eip2718_payload_def eip2930_payload_def encode_vector_def)
  with l type show "eip2930_valid t"
    using assms by (simp add: eip2930_valid_def txn_encodable_def)
qed

lemma decode_encode_txn:
  assumes "txn_encodable t"
  shows "decode_txn new_transaction (encode_txn t @ rest) = Ok (t\<lparr>tx_from := None\<rparr>, rest)"
proof (cases "tx_type t")
  case None
  let ?t = "t\<lparr>tx_from := None\<rparr>"
  have v: "tx_v ?t = tx_v t" by (simp add: tx_v_def)
  have p: "legacy_payload ?t = legacy_payload t"
    by (simp add: legacy_payload_def txn_common_def v)
  have e: "encode_txn ?t = encode_txn t"
    using None by (simp add: encode_txn_legacy p)
  have "legacy_valid ?t"
    using txn_encodable_legacy [OF assms None] by (simp add: legacy_valid_def p v)
  then show ?thesis
    using decode_txn_legacy_iff [of ?t new_transaction "encode_txn t @ rest" rest] None assms
    by (simp add: e new_transaction_def txn_encodable_def)
next
  case (Some type)
  then show ?thesis
    using decode_txn_eip2930 [OF txn_encodable_eip2930] assms by (simp add: new_transaction_def)
qed

lemma encode_small [simp]:
  "encode_uint256 0 = [0x80]" "encode_uint256 1 = [1]" "encode_uint64 0 = [0x80]" "encode_bool False = [0x80]"
  "encode_bytes [] = [0x80]"
  by (simp_all add: encode_uint256_def encode_uint64_def encode_bool_def encode_bytes_def encode_header_def
      kEmptyStringCode_def)

definition sample_eip2930 :: transaction where
  "sample_eip2930 = new_transaction\<lparr>tx_type := Some 1, tx_chain_id := Some 1,
     tx_access_list := [\<lparr>ale_account = 5, ale_storage_keys = [7]\<rparr>]\<rparr>"

lemma length_encode_header_le: "length (encode_header h) \<le> 9"
  using length_be_min_word [of 8 "payload_length h"]
  by (simp add: encode_header_def big_endian_uint64_eq Let_def)

lemma length_new_transaction: "length (encode_txn new_transaction) \<le> 100"
proof -
  have "encode_uint256 27 = [27]"
    by (simp add: encode_uint256_def kEmptyStringCode_def)
  then show "length (encode_txn new_transaction) \<le> 100"
    by (simp add: new_transaction_def encode_txn_legacy legacy_payload_def txn_common_def encode_to_def
        tx_v_def y_parity_and_chain_id_to_v_def)
       (rule order_trans [OF length_encode_header_le], simp)
qed

lemma new_transaction_encodable: "txn_encodable new_transaction"
  using length_new_transaction by (simp add: txn_encodable_def new_transaction_def)

lemma sample_eip2930_encodable: "txn_encodable sample_eip2930"
proof -
  note h = length_encode_header_le
  have "length (encode_bytes32 7) = 33"
    by (simp add: encode_bytes32_def)
  then have "length (encode_txn sample_eip2930) \<le> 200"
    by (simp add: sample_eip2930_def encode_txn_eip2930 kEip2930TransactionType_def eip2718_payload_def
        eip2930_payload_def txn_common_def new_transaction_def encode_vector_def encode_ale_def encode_to_def)
       (rule order_trans, (rule add_mono [OF h])+, rule h, simp)
  then show ?thesis
    by (simp add: txn_encodable_def sample_eip2930_def kEip2930TransactionType_def new_transaction_def)
qed

text \<open>
  C29.  A transaction survives its RLP encoding: for a legacy transaction (without an access list,
  with a chain id for which EIP-155 does not wrap) and for an EIP-2930 transaction with a chain id,
  decoding the encoding followed by any other bytes gives back the transaction, up to the
  recovered sender (which \<open>operator==\<close> leaves out as well), and leaves exactly the other bytes; and
  \<open>length\<close> announces the number of bytes that \<open>encode\<close> appends.
\<close>

theorem transaction_roundtrip:
  assumes "txn_encodable t"
  shows "\<exists>t'. decode_txn new_transaction (encode_txn t @ rest) = Ok (t', rest) \<and> transaction_eq t' t \<and>
    unat (length_txn t) = length (encode_txn t)"
proof -
  have "length_txn t = word_of_nat (length (encode_txn t))"
    using length_txn_eq [of t] txn_encodable_eip2930(2) [OF assms] by fast
  then have "unat (length_txn t) = length (encode_txn t)"
    using assms by (simp add: txn_encodable_def word_of_length)
  then show ?thesis
    using decode_encode_txn [OF assms] by (simp add: transaction_eq_def)
qed

theorem transaction_roundtrip_witness:
  "\<exists>t'. decode_txn new_transaction (encode_txn sample_eip2930 @ [0xff]) = Ok (t', [0xff]) \<and>
     transaction_eq t' sample_eip2930 \<and> unat (length_txn sample_eip2930) = length (encode_txn sample_eip2930)"
  by (rule transaction_roundtrip) (rule sample_eip2930_encodable)

text \<open>
   Legacy transactions are not malleable: a byte string that decodes to a legacy transaction
  is the encoding of that transaction followed by the bytes left over.
\<close>

theorem legacy_transaction_canonical:
  assumes "decode_txn txn bs = Ok (t, rest)" and "tx_type t = None"
  shows "bs = encode_txn t @ rest"
  using assms by (simp add: decode_txn_legacy_iff)

theorem legacy_transaction_canonical_witness:
  "encode_txn new_transaction @ [1] = encode_txn new_transaction @ [1]"
  by (rule legacy_transaction_canonical [where txn = new_transaction])
     (subst decode_encode_txn [OF new_transaction_encodable], simp_all add: new_transaction_def)

lemma wrapped_inj:
  assumes "encode_header \<lparr>is_list = False, payload_length = word_of_nat (length p)\<rparr> @ p =
      encode_header \<lparr>is_list = False, payload_length = word_of_nat (length p')\<rparr> @ p'"
    and "length p < 2 ^ 64" "length p' < 2 ^ 64" and "1 < length p" "1 < length p'"
  shows "p = p'"
proof -
  have "decode_header (encode_header \<lparr>is_list = False, payload_length = word_of_nat (length q)\<rparr> @ q) =
      Ok (\<lparr>is_list = False, payload_length = word_of_nat (length q)\<rparr>, q)" if "length q < 2 ^ 64" "1 < length q" for q
    using that word_of_length [OF that(1)] by (intro decode_header_encode_header) auto
  then show ?thesis
    using assms by (metis Pair_inject res.inject(1))
qed

text \<open>
  C30.  EIP-2930 transactions are malleable: the decoder of the inner list ignores the payload length
  that the header of the list announces, so that every encodable EIP-2930 transaction has a second
  byte string, which is not its encoding and decodes, to its end, to the same transaction.
\<close>

theorem eip2930_transaction_malleable:
  assumes "txn_encodable t" and "tx_type t = Some kEip2930TransactionType"
  shows "\<exists>bs. bs \<noteq> encode_txn t \<and>
    decode_txn new_transaction bs = decode_txn new_transaction (encode_txn t) \<and>
    decode_txn new_transaction bs = Ok (t\<lparr>tx_from := None\<rparr>, [])"
proof -
  let ?h = "\<lparr>is_list = True, payload_length = 0 :: u64\<rparr>"
  let ?p = "kEip2930TransactionType # encode_header ?h @ eip2930_payload t"
  let ?bs = "encode_header \<lparr>is_list = False, payload_length = word_of_nat (length ?p)\<rparr> @ ?p"
  have v: "eip2930_valid t"
    by (intro txn_encodable_eip2930) (simp_all add: assms)
  let ?h' = "\<lparr>is_list = True, payload_length = word_of_nat (length (eip2930_payload t)) :: u64\<rparr>"
  have w: "unat (payload_length ?h') = length (eip2930_payload t)"
    using word_of_length [OF eip2930_valid_lengths(1) [OF v]] by simp
  have "length (encode_header ?h) = 1"
    by (simp add: encode_header_def)
  then have "length ?p \<le> length (eip2718_payload t)"
    unfolding eip2718_payload_def by (simp add: Suc_leI)
  then have l: "length ?p < 2 ^ 64"
    using v by (simp add: eip2930_valid_def)
  have t: "t\<lparr>tx_type := Some kEip2930TransactionType, tx_from := tx_from new_transaction\<rparr> = t\<lparr>tx_from := None\<rparr>"
    using assms(2) by (cases t) (simp add: new_transaction_def)
  have dec: "decode_txn new_transaction ?bs = Ok (t\<lparr>tx_from := None\<rparr>, [])"
    using decode_txn_eip2930_any_header [OF v, of ?h new_transaction "[]", unfolded t append_Nil2, OF _ _ l]
    by simp
  have "?bs \<noteq> encode_txn t"
  proof
    assume "?bs = encode_txn t"
    then have "?p = eip2718_payload t"
      unfolding encode_txn_eip2930 [OF assms(2)]
      by (rule wrapped_inj) (use l v in \<open>simp_all add: eip2930_valid_def eip2718_payload_def\<close>)
    then have "encode_header ?h @ eip2930_payload t = encode_header ?h' @ eip2930_payload t"
      by (simp add: eip2718_payload_def)
    moreover have "decode_header (encode_header ?h @ eip2930_payload t) = Ok (?h, eip2930_payload t)"
      by (intro decode_header_encode_header) simp_all
    moreover have "decode_header (encode_header ?h' @ eip2930_payload t) = Ok (?h', eip2930_payload t)"
      using w by (intro decode_header_encode_header) simp_all
    ultimately have "?h = ?h'"
      by (metis Pair_inject res.inject(1))
    have "length (eip2930_payload t) = 0"
      using arg_cong [where f = "\<lambda>h. unat (payload_length h)", OF \<open>?h = ?h'\<close>] w by (simp only: rlp_header.simps unat_0)
    then show False
      by (simp add: eip2930_payload_def encode_vector_def)
  qed
  with dec show ?thesis
    using decode_encode_txn [OF assms(1), of "[]"] by (metis append_Nil2)
qed

theorem eip2930_transaction_malleable_witness:
  "\<exists>bs. bs \<noteq> encode_txn sample_eip2930 \<and>
    decode_txn new_transaction bs = decode_txn new_transaction (encode_txn sample_eip2930) \<and>
    decode_txn new_transaction bs = Ok (sample_eip2930\<lparr>tx_from := None\<rparr>, [])"
  by (rule eip2930_transaction_malleable [OF sample_eip2930_encodable])
     (simp add: sample_eip2930_def kEip2930TransactionType_def)

end
