(* ===== verification/Bloom.thy ===== *)
theory Bloom
  imports Transaction
begin

text \<open>
  core/silkworm/types/log.*, bloom.* and receipt.*: the logs of a transaction, the 2048-bit Bloom
  filter over them and the encoding of receipts.  A \<open>Bloom\<close> is the array of its 256 bytes.
\<close>

unbundle bit_operations_syntax

record log =
  log_address :: address
  log_topics :: "bytes32 list"
  log_data :: bytes

definition header_log :: "log \<Rightarrow> rlp_header" where
  "header_log l =
     \<lparr>is_list = True,
      payload_length = kAddressLength + 1 + length_vector length_bytes32 (log_topics l) + length_bytes (log_data l)\<rparr>"

definition length_log :: "log \<Rightarrow> u64" where
  "length_log l = (let h = header_log l in length_of_length (payload_length h) + payload_length h)"

definition encode_log :: "log \<Rightarrow> bytes" where
  "encode_log l =
     encode_header (header_log l) @ encode_bytes (full_view_address (log_address l)) @
     encode_vector length_bytes32 encode_bytes32 (log_topics l) @ encode_bytes (log_data l)"

section \<open>The filter\<close>

type_synonym bloom = bytes

definition kBloomByteLength :: nat where
  "kBloomByteLength = 256"

definition empty_bloom :: bloom where
  "empty_bloom = replicate kBloomByteLength 0"

definition m3_bit :: "bytes \<Rightarrow> nat \<Rightarrow> nat" where
  "m3_bit hash i = (unat (hash ! (i + 1)) + push_bit 8 (unat (hash ! i))) AND 0x7FF"

definition set_bloom_bit :: "nat \<Rightarrow> bloom \<Rightarrow> bloom" where
  "set_bloom_bit b bloom =
     (let k = kBloomByteLength - 1 - b div 8
      in bloom[k := bloom ! k OR push_bit (b mod 8) 1])"

definition m3_2048 :: "(bytes \<Rightarrow> bytes32) \<Rightarrow> bloom \<Rightarrow> bytes \<Rightarrow> bloom" where
  "m3_2048 keccak256 bloom x =
     (let hash = full_view_bytes32 (keccak256 x)
      in foldl (\<lambda>bloom i. set_bloom_bit (m3_bit hash i) bloom) bloom [0, 2, 4])"

definition logs_bloom :: "(bytes \<Rightarrow> bytes32) \<Rightarrow> log list \<Rightarrow> bloom" where
  "logs_bloom keccak256 logs =
     foldl (\<lambda>bloom log.
         foldl (\<lambda>bloom topic. m3_2048 keccak256 bloom (full_view_bytes32 topic))
           (m3_2048 keccak256 bloom (full_view_address (log_address log))) (log_topics log))
       empty_bloom logs"

definition join :: "bloom \<Rightarrow> bloom \<Rightarrow> bloom" where
  "join bl addend = foldl (\<lambda>bl i. bl[i := bl ! i OR addend ! i]) bl [0..<kBloomByteLength]"

section \<open>Receipts\<close>

record receipt =
  rcpt_type :: "u8 option"
  rcpt_success :: bool
  rcpt_cumulative_gas_used :: u64
  rcpt_bloom :: bloom
  rcpt_logs :: "log list"

definition header_receipt :: "receipt \<Rightarrow> rlp_header" where
  "header_receipt r =
     \<lparr>is_list = True,
      payload_length = 1 + length_uint64 (rcpt_cumulative_gas_used r) + length_bytes (rcpt_bloom r) +
        length_vector length_log (rcpt_logs r)\<rparr>"

definition encode_receipt :: "receipt \<Rightarrow> bytes" where
  "encode_receipt r =
     (case rcpt_type r of Some type \<Rightarrow> [type] | None \<Rightarrow> []) @
     encode_header (header_receipt r) @
     encode_bool (rcpt_success r) @
     encode_uint64 (rcpt_cumulative_gas_used r) @
     encode_bytes (rcpt_bloom r) @
     encode_vector length_log encode_log (rcpt_logs r)"

section \<open>The bits of a filter\<close>

text \<open>
  The abstract filter is the set of its bits; bit 0 is the lowest bit of the last byte.  The
  three bits of an item are the low eleven bits of the first three pairs of bytes of its hash
  (section 4.3.1 of the yellow paper).
\<close>

definition bloom_bits :: "bloom \<Rightarrow> nat set" where
  "bloom_bits bl = {b. b < 2048 \<and> bit (bl ! (255 - b div 8)) (b mod 8)}"

definition item_bits :: "bytes32 \<Rightarrow> nat set" where
  "item_bits hash = (\<lambda>i. (256 * unat (full_view_bytes32 hash ! i) + unat (full_view_bytes32 hash ! (i + 1))) mod 2048) ` {0, 2, 4}"

definition log_items :: "log \<Rightarrow> bytes list" where
  "log_items l = full_view_address (log_address l) # map full_view_bytes32 (log_topics l)"

lemma m3_bit_eq: "m3_bit hash i = (256 * unat (hash ! i) + unat (hash ! (i + 1))) mod 2048"
proof -
  have "n AND 0x7FF = n mod 2048" for n :: nat
    using take_bit_eq_mask [of 11 n] by (simp add: mask_eq_exp_minus_1 take_bit_eq_mod)
  then show ?thesis
    by (simp add: m3_bit_def push_bit_eq_mult mult.commute add.commute)
qed

lemma length_set_bloom_bit [simp]: "length (set_bloom_bit b bl) = length bl"
  by (simp add: set_bloom_bit_def Let_def)

lemma bloom_bits_set:
  assumes "length bl = 256" "b < 2048"
  shows "bloom_bits (set_bloom_bit b bl) = insert b (bloom_bits bl)"
proof -
  have one: "bit (2 ^ k :: u8) j \<longleftrightarrow> j = k" if "k < 8" for j k
    using that by (auto simp: bit_exp_iff)
  have "c \<in> bloom_bits (set_bloom_bit b bl) \<longleftrightarrow> c = b \<or> c \<in> bloom_bits bl" for c
  proof (cases "c < 2048")
    case True
    have "255 - b div 8 = 255 - c div 8 \<longleftrightarrow> b div 8 = c div 8"
      using True assms(2) by (auto simp: less_mult_imp_div_less)
    moreover have "b div 8 = c div 8 \<Longrightarrow> c mod 8 = b mod 8 \<Longrightarrow> c = b"
      by (metis div_mult_mod_eq)
    ultimately show ?thesis
      using assms True
      by (auto simp: bloom_bits_def set_bloom_bit_def Let_def kBloomByteLength_def nth_list_update
          bit_or_iff one)
  qed (use assms in \<open>auto simp: bloom_bits_def\<close>)
  then show ?thesis by blast
qed

lemma length_m3_2048 [simp]: "length (m3_2048 keccak256 bl x) = length bl"
  by (simp add: m3_2048_def Let_def)

lemma bloom_bits_m3_2048:
  assumes "length bl = 256"
  shows "bloom_bits (m3_2048 keccak256 bl x) = item_bits (keccak256 x) \<union> bloom_bits bl"
  using assms by (auto simp: m3_2048_def Let_def bloom_bits_set m3_bit_eq item_bits_def)

text \<open>The nested loop of \<open>logs_bloom\<close> visits the items of the logs in order.\<close>

lemma logs_bloom_eq_foldl:
  "logs_bloom keccak256 logs = foldl (m3_2048 keccak256) empty_bloom (concat (map log_items logs))"
proof -
  have "foldl (\<lambda>bloom log.
         foldl (\<lambda>bloom topic. m3_2048 keccak256 bloom (full_view_bytes32 topic))
           (m3_2048 keccak256 bloom (full_view_address (log_address log))) (log_topics log)) bl logs =
      foldl (m3_2048 keccak256) bl (concat (map log_items logs))" for bl
    by (induction logs arbitrary: bl) (simp_all add: log_items_def foldl_map)
  then show ?thesis by (simp add: logs_bloom_def)
qed

lemma length_foldl_m3 [simp]: "length (foldl (m3_2048 keccak256) bl xs) = length bl"
  by (induction xs arbitrary: bl) simp_all

lemma bloom_bits_foldl:
  assumes "length bl = 256"
  shows "bloom_bits (foldl (m3_2048 keccak256) bl xs) = (\<Union>x\<in>set xs. item_bits (keccak256 x)) \<union> bloom_bits bl"
  using assms by (induction xs arbitrary: bl) (auto simp: bloom_bits_m3_2048)

lemma length_logs_bloom [simp]: "length (logs_bloom keccak256 logs) = 256"
  by (simp add: logs_bloom_eq_foldl empty_bloom_def kBloomByteLength_def)

lemma bloom_bits_logs_bloom:
  "bloom_bits (logs_bloom keccak256 logs) = (\<Union>l\<in>set logs. \<Union>x\<in>set (log_items l). item_bits (keccak256 x))"
proof -
  have "bloom_bits empty_bloom = {}"
    by (auto simp: bloom_bits_def empty_bloom_def kBloomByteLength_def)
  then show ?thesis
    by (simp add: logs_bloom_eq_foldl bloom_bits_foldl empty_bloom_def kBloomByteLength_def)
qed

lemma foldl_update_nth:
  assumes "n \<le> length s"
  shows "length (foldl (\<lambda>s i. s[i := f (s ! i) i]) s [0..<n]) = length s"
    and "k < length s \<Longrightarrow>
      foldl (\<lambda>s i. s[i := f (s ! i) i]) s [0..<n] ! k = (if k < n then f (s ! k) k else s ! k)"
  using assms by (induction n arbitrary: k) (auto simp: nth_list_update less_Suc_eq)

lemma length_join: "length bl = 256 \<Longrightarrow> length (join bl addend) = 256"
  by (simp add: join_def kBloomByteLength_def foldl_update_nth(1) [where f = "\<lambda>x i. x OR addend ! i"])

lemma join_nth: "length bl = 256 \<Longrightarrow> k < 256 \<Longrightarrow> join bl addend ! k = bl ! k OR addend ! k"
  by (simp add: join_def kBloomByteLength_def foldl_update_nth(2) [where f = "\<lambda>x i. x OR addend ! i"])

lemma le_store_0: "le_store k 0 = replicate k 0"
  by (induction k) (simp_all add: replicate_append_same [symmetric])

text \<open>
   The Bloom filter of a list of logs has 256 bytes and its bits are exactly the three bits of
  each address and of each topic of the logs (yellow paper, 4.3.1), whatever the hash function;
  \<open>join\<close> takes the union of the bits of two filters.
\<close>

theorem logs_bloom_bits:
  "length (logs_bloom keccak256 logs) = 256 \<and>
   bloom_bits (logs_bloom keccak256 logs) =
      {b. \<exists>l. l \<in> set logs \<and> (b \<in> item_bits (keccak256 (full_view_address (log_address l))) \<or>
          (\<exists>topic. topic \<in> set (log_topics l) \<and> b \<in> item_bits (keccak256 (full_view_bytes32 topic))))} \<and>
   (length bl = 256 \<longrightarrow> bloom_bits (join bl addend) = bloom_bits bl \<union> bloom_bits addend)"
proof (intro conjI impI)
  show "bloom_bits (join bl addend) = bloom_bits bl \<union> bloom_bits addend" if "length bl = 256"
    using that by (auto simp: bloom_bits_def join_nth bit_or_iff)
qed (auto simp: bloom_bits_logs_bloom log_items_def)

theorem logs_bloom_bits_witness:
  "bloom_bits (join (logs_bloom (\<lambda>_. 0) [\<lparr>log_address = 1, log_topics = [2], log_data = []\<rparr>]) empty_bloom) = {0}"
proof -
  let ?logs = "[\<lparr>log_address = 1, log_topics = [2], log_data = []\<rparr>]"
  have "full_view_bytes32 0 ! i = 0" if "i < 32" for i
    using that by (simp add: full_view_bytes32_def le_store_0 be_store_eq_rev_le)
  then have "item_bits 0 = {0}"
    by (simp add: item_bits_def)
  moreover have "bloom_bits empty_bloom = {}"
    by (auto simp: bloom_bits_def empty_bloom_def kBloomByteLength_def)
  ultimately show ?thesis
    using logs_bloom_bits [of "\<lambda>_. 0" ?logs "logs_bloom (\<lambda>_. 0) ?logs" empty_bloom] by simp
qed

end
