(* ===== verification/Block.thy ===== *)
theory Block
  imports Bloom
begin

text \<open>
  core/silkworm/types/block.hpp and block.cpp: headers, bodies and blocks and their RLP codecs.
  The fixed-size arrays of a header (\<open>logs_bloom\<close>, 256 bytes, and \<open>nonce\<close>, 8 bytes) are byte lists;
  \<open>header_wf\<close> states their sizes.
\<close>

record block_header =
  parent_hash :: bytes32
  ommers_hash :: bytes32
  beneficiary :: address
  state_root :: bytes32
  transactions_root :: bytes32
  receipts_root :: bytes32
  hdr_logs_bloom :: bloom
  difficulty :: u256
  number :: u64
  gas_limit :: u64
  gas_used :: u64
  timestamp :: u64
  extra_data :: bytes
  mix_hash :: bytes32
  hdr_nonce :: bytes

record block_body =
  transactions :: "transaction list"
  ommers :: "block_header list"

record block = block_body +
  blk_header :: block_header

definition kHashLength :: u64 where
  "kHashLength = 32"

definition header_wf :: "block_header \<Rightarrow> bool" where
  "header_wf h \<longleftrightarrow> length (hdr_logs_bloom h) = kBloomByteLength \<and> length (hdr_nonce h) = 8"

definition rlp_header_block :: "block_header \<Rightarrow> bool \<Rightarrow> rlp_header" where
  "rlp_header_block header for_sealing =
     \<lparr>is_list = True,
      payload_length =
        (kHashLength + 1) + (kHashLength + 1) + (kAddressLength + 1) +
        (kHashLength + 1) + (kHashLength + 1) + (kHashLength + 1) +
        (word_of_nat kBloomByteLength + length_of_length (word_of_nat kBloomByteLength)) +
        length_uint256 (difficulty header) +
        length_uint64 (number header) +
        length_uint64 (gas_limit header) +
        length_uint64 (gas_used header) +
        length_uint64 (timestamp header) +
        length_bytes (extra_data header) +
        (if \<not> for_sealing then (kHashLength + 1) + (8 + 1) else 0)\<rparr>"

definition length_block_header :: "block_header \<Rightarrow> u64" where
  "length_block_header header =
     (let rlp_head = rlp_header_block header False
      in length_of_length (payload_length rlp_head) + payload_length rlp_head)"

definition encode_block_header :: "block_header \<Rightarrow> bool \<Rightarrow> bytes" where
  "encode_block_header header for_sealing =
     encode_header (rlp_header_block header for_sealing) @
     encode_span 32 (full_view_bytes32 (parent_hash header)) @
     encode_span 32 (full_view_bytes32 (ommers_hash header)) @
     encode_address (beneficiary header) @
     encode_span 32 (full_view_bytes32 (state_root header)) @
     encode_span 32 (full_view_bytes32 (transactions_root header)) @
     encode_span 32 (full_view_bytes32 (receipts_root header)) @
     encode_bytes (hdr_logs_bloom header) @
     encode_uint256 (difficulty header) @
     encode_uint64 (number header) @
     encode_uint64 (gas_limit header) @
     encode_uint64 (gas_used header) @
     encode_uint64 (timestamp header) @
     encode_bytes (extra_data header) @
     (if \<not> for_sealing
      then encode_span 32 (full_view_bytes32 (mix_hash header)) @ encode_span 8 (hdr_nonce header)
      else [])"

definition decode_block_header_fields :: "bytes \<Rightarrow> (block_header \<times> bytes) res" where
  "decode_block_header_fields from =
     rbind (decode_bytes32 from) (\<lambda>(parent_hash, from).
     rbind (decode_bytes32 from) (\<lambda>(ommers_hash, from).
     rbind (decode_address from) (\<lambda>(beneficiary, from).
     rbind (decode_bytes32 from) (\<lambda>(state_root, from).
     rbind (decode_bytes32 from) (\<lambda>(transactions_root, from).
     rbind (decode_bytes32 from) (\<lambda>(receipts_root, from).
     rbind (decode_span kBloomByteLength from) (\<lambda>(logs_bloom, from).
     rbind (decode_uint256 from) (\<lambda>(difficulty, from).
     rbind (decode_uint64 from) (\<lambda>(number, from).
     rbind (decode_uint64 from) (\<lambda>(gas_limit, from).
     rbind (decode_uint64 from) (\<lambda>(gas_used, from).
     rbind (decode_uint64 from) (\<lambda>(timestamp, from).
     rbind (decode_bytes from) (\<lambda>(extra_data, from).
     rbind (decode_bytes32 from) (\<lambda>(mix_hash, from).
     rbind (decode_span 8 from) (\<lambda>(nonce, from).
       Ok (\<lparr>parent_hash = parent_hash, ommers_hash = ommers_hash, beneficiary = beneficiary,
            state_root = state_root, transactions_root = transactions_root,
            receipts_root = receipts_root, hdr_logs_bloom = logs_bloom, difficulty = difficulty,
            number = number, gas_limit = gas_limit, gas_used = gas_used, timestamp = timestamp,
            extra_data = extra_data, mix_hash = mix_hash, hdr_nonce = nonce\<rparr>,
           from))))))))))))))))"

definition decode_block_header :: "bytes \<Rightarrow> (block_header \<times> bytes) res" where
  "decode_block_header = decode_struct decode_block_header_fields"

definition header_hash :: "(bytes \<Rightarrow> bytes32) \<Rightarrow> block_header \<Rightarrow> bool \<Rightarrow> bytes32" where
  "header_hash keccak256 header for_sealing = keccak256 (encode_block_header header for_sealing)"

definition recover_senders ::
    "(bytes \<Rightarrow> bytes32) \<Rightarrow> ('sig, 'key) secp256k1 \<Rightarrow> block \<Rightarrow> block" where
  "recover_senders keccak256 lib b = b\<lparr>transactions := map (recover_sender keccak256 lib) (transactions b)\<rparr>"

definition encode_header_of_vector :: "block_header \<Rightarrow> bytes" where
  "encode_header_of_vector header = encode_block_header header False"

definition encode_block_body :: "block_body \<Rightarrow> bytes" where
  "encode_block_body body =
     encode_header \<lparr>is_list = True,
       payload_length = length_vector length_txn (transactions body) +
         length_vector length_block_header (ommers body)\<rparr> @
     encode_vector length_txn encode_txn (transactions body) @
     encode_vector length_block_header encode_header_of_vector (ommers body)"

definition decode_block_body_fields :: "bytes \<Rightarrow> (block_body \<times> bytes) res" where
  "decode_block_body_fields from =
     rbind (decode_vector (decode_txn new_transaction) from) (\<lambda>(transactions, from).
     rbind (decode_vector decode_block_header from) (\<lambda>(ommers, from).
       Ok (\<lparr>transactions = transactions, ommers = ommers\<rparr>, from)))"

definition decode_block_body :: "bytes \<Rightarrow> (block_body \<times> bytes) res" where
  "decode_block_body = decode_struct decode_block_body_fields"

definition decode_block_fields :: "bytes \<Rightarrow> (block \<times> bytes) res" where
  "decode_block_fields from =
     rbind (decode_block_header from) (\<lambda>(header, from).
     rbind (decode_vector (decode_txn new_transaction) from) (\<lambda>(transactions, from).
     rbind (decode_vector decode_block_header from) (\<lambda>(ommers, from).
       Ok (\<lparr>transactions = transactions, ommers = ommers, blk_header = header\<rparr>, from))))"

definition decode_block :: "bytes \<Rightarrow> (block \<times> bytes) res" where
  "decode_block = decode_struct decode_block_fields"

section \<open>Headers\<close>

definition header_payload :: "block_header \<Rightarrow> bytes" where
  "header_payload h =
     encode_bytes32 (parent_hash h) @ encode_bytes32 (ommers_hash h) @ encode_address (beneficiary h) @
     encode_bytes32 (state_root h) @ encode_bytes32 (transactions_root h) @ encode_bytes32 (receipts_root h) @
     encode_bytes (hdr_logs_bloom h) @ encode_uint256 (difficulty h) @ encode_uint64 (number h) @
     encode_uint64 (gas_limit h) @ encode_uint64 (gas_used h) @ encode_uint64 (timestamp h) @
     encode_bytes (extra_data h) @ encode_bytes32 (mix_hash h) @ encode_span 8 (hdr_nonce h)"

lemma encode_span_32: "encode_span 32 (full_view_bytes32 x) = encode_bytes32 x"
  by (simp add: encode_span_def encode_bytes32_def)

lemma length_encode_bytes32 [simp]: "length (encode_bytes32 x) = 33"
  by (simp add: encode_bytes32_def)

lemma length_encode_bloom:
  "length x = 256 \<Longrightarrow> word_of_nat (length (encode_bytes x)) = 256 + length_of_length 256"
  by (simp add: length_encode_bytes [symmetric] length_bytes_def)

lemma rlp_header_block_eq:
  "header_wf h \<Longrightarrow> rlp_header_block h False = \<lparr>is_list = True, payload_length = word_of_nat (length (header_payload h))\<rparr>"
  by (simp add: rlp_header_block_def header_payload_def header_wf_def kBloomByteLength_def kHashLength_def
      kAddressLength_def length_encode_uint64 length_encode_uint256 length_encode_bytes
      length_encode_bloom encode_span_def)

lemma encode_block_header_eq:
  "header_wf h \<Longrightarrow> encode_block_header h False =
     encode_header \<lparr>is_list = True, payload_length = word_of_nat (length (header_payload h))\<rparr> @ header_payload h"
  by (simp add: encode_block_header_def rlp_header_block_eq encode_span_32)
     (simp add: header_payload_def)

lemma decode_block_header_fields_Ok_iff:
  "decode_block_header_fields bs = Ok (h, rest) \<longleftrightarrow>
     (header_wf h \<and> length (extra_data h) < 2 ^ 64) \<and> bs = header_payload h @ rest"
proof (cases h)
  case (fields a b c d e f g i j k l m n p q)
  show ?thesis
    unfolding fields decode_block_header_fields_def rbind_Ok_iff header_wf_def header_payload_def
    by (auto simp: decode_bytes32_Ok_iff decode_address_Ok_iff decode_uint64_Ok_iff rbind_Ok_iff
        decode_uint256_Ok_iff decode_bytes_Ok_iff decode_span_Ok_iff decode_span_bytes_iff kBloomByteLength_def)
qed


definition header_valid :: "block_header \<Rightarrow> bool" where
  "header_valid h \<longleftrightarrow> (header_wf h \<and> length (extra_data h) < 2 ^ 64) \<and> length (header_payload h) < 2 ^ 64"

interpretation header_codec: rlp_canonical encode_header_of_vector decode_block_header length_block_header header_valid
proof -
  have "rlp_canonical encode_header_of_vector (decode_struct decode_block_header_fields) length_block_header
    (\<lambda>h. (header_wf h \<and> length (extra_data h) < 2 ^ 64) \<and> length (header_payload h) < 2 ^ 64)"
    by (rule struct_canonical)
       (simp_all add: decode_block_header_fields_Ok_iff encode_header_of_vector_def encode_block_header_eq
         length_block_header_def Let_def rlp_header_block_eq length_encode_header,
        simp add: encode_block_header_def)
  then show "rlp_canonical encode_header_of_vector decode_block_header length_block_header header_valid"
    unfolding decode_block_header_def header_valid_def [abs_def] .
qed

interpretation ommers_codec: rlp_canonical "encode_vector length_block_header encode_header_of_vector"
  "decode_vector decode_block_header" "length_vector length_block_header"
  "\<lambda>v. (\<forall>h\<in>set v. header_valid h) \<and> length (concat (map encode_header_of_vector v)) < 2 ^ 64"
  by (rule header_codec.vector_canonical)

section \<open>Bodies and blocks\<close>

lemma decode_txn_progress: "decode_txn txn bs = Ok (t, rest) \<Longrightarrow> length rest < length bs"
proof -
  assume d: "decode_txn txn bs = Ok (t, rest)"
  then obtain h fr where h: "decode_header bs = Ok (h, fr)"
    using decode_txn_header by blast
  then have fr: "length fr \<le> length bs"
    by (simp add: decode_header_Ok_iff)
  have "length rest < length fr"
  proof (cases "is_list h")
    case True
    with d h have "legacy_decode (txn\<lparr>tx_type := None\<rparr>) fr = Ok (t, rest)"
      by (auto simp: decode_txn_def Let_def rbind_Ok_iff split: if_splits)
    then show ?thesis
      by (auto simp: legacy_decode_Ok_iff legacy_payload_def encode_uint256_eq)
  next
    case False
    with d h show ?thesis
      by (auto simp: decode_txn_def Let_def rbind_Ok_iff split: if_splits list.splits)
  qed
  with fr show "length rest < length bs" by simp
qed

interpretation txn_codec: rlp_codec encode_txn "decode_txn new_transaction" length_txn
  "\<lambda>t. txn_encodable t \<and> tx_from t = None"
proof
  show "length_txn t = word_of_nat (length (encode_txn t))" if "txn_encodable t \<and> tx_from t = None" for t
    using that txn_encodable_eip2930(2) [of t] length_txn_eq [of t] by fast
next
  show "decode_txn new_transaction (encode_txn t @ rest) = Ok (t, rest)" if "txn_encodable t \<and> tx_from t = None" for t rest
    using that decode_encode_txn [of t rest] by simp
qed (rule decode_txn_progress)

interpretation txns_codec: rlp_codec "encode_vector length_txn encode_txn"
  "decode_vector (decode_txn new_transaction)" "length_vector length_txn"
  "\<lambda>v. (\<forall>t\<in>set v. txn_encodable t \<and> tx_from t = None) \<and> length (concat (map encode_txn v)) < 2 ^ 64"
  by (rule txn_codec.vector_codec)


definition body_payload :: "block_body \<Rightarrow> bytes" where
  "body_payload b =
     encode_vector length_txn encode_txn (transactions b) @
     encode_vector length_block_header encode_header_of_vector (ommers b)"

text \<open>
  What a body must satisfy to be encoded: its transactions are encodable and have no recovered sender yet,
  its ommers have arrays of the right sizes, and the encoding fits in 64-bit lengths.
\<close>

definition body_encodable :: "block_body \<Rightarrow> bool" where
  "body_encodable b \<longleftrightarrow>
     list_all (\<lambda>t. txn_encodable t \<and> tx_from t = None) (transactions b) \<and>
     list_all header_wf (ommers b) \<and> length (encode_block_body b) < 2 ^ 64"

lemma length_concat_map_le: "x \<in> set xs \<Longrightarrow> length (f x) \<le> length (concat (map f xs))"
  by (induction xs) auto

lemma header_valid_of_length:
  assumes "header_wf h" "length (encode_header_of_vector h) < 2 ^ 64"
  shows "header_valid h"
proof -
  have "length (extra_data h) \<le> length (encode_bytes (extra_data h))"
    by (simp add: encode_bytes_def)
  then show ?thesis
    using assms
    by (simp add: header_valid_def encode_header_of_vector_def encode_block_header_eq) (simp add: header_payload_def)
qed

lemma body_encodable_parts:
  assumes "body_encodable b"
  shows "(\<forall>t\<in>set (transactions b). txn_encodable t \<and> tx_from t = None) \<and>
      length (concat (map encode_txn (transactions b))) < 2 ^ 64"
    and "(\<forall>h\<in>set (ommers b). header_valid h) \<and>
      length (concat (map encode_header_of_vector (ommers b))) < 2 ^ 64"
    and "length (body_payload b) < 2 ^ 64"
proof -
  note * = assms [unfolded body_encodable_def list_all_iff]
  from * show "length (body_payload b) < 2 ^ 64"
    by (simp add: body_payload_def encode_block_body_def)
  from * show "(\<forall>t\<in>set (transactions b). txn_encodable t \<and> tx_from t = None) \<and>
      length (concat (map encode_txn (transactions b))) < 2 ^ 64"
    by (simp add: encode_block_body_def encode_vector_def)
  from * have l: "length (concat (map encode_header_of_vector (ommers b))) < 2 ^ 64"
    by (simp add: encode_block_body_def encode_vector_def)
  have "header_valid h" if "h \<in> set (ommers b)" for h
    using * that length_concat_map_le [OF that, of encode_header_of_vector] l
    by (intro header_valid_of_length) simp_all
  with l show "(\<forall>h\<in>set (ommers b). header_valid h) \<and>
      length (concat (map encode_header_of_vector (ommers b))) < 2 ^ 64"
    by simp
qed

lemma encode_block_body_eq:
  assumes "body_encodable b"
  shows "encode_block_body b =
    encode_header \<lparr>is_list = True, payload_length = word_of_nat (length (body_payload b))\<rparr> @ body_payload b"
  using body_encodable_parts [OF assms] txns_codec.len_valid ommers_codec.len_valid
  by (simp add: encode_block_body_def body_payload_def)

lemma decode_struct_payload:
  assumes "fld (p @ rest) = Ok (x, rest)" "length p < 2 ^ 64"
  shows "decode_struct fld (encode_header \<lparr>is_list = True, payload_length = word_of_nat (length p)\<rparr> @ p @ rest) = Ok (x, rest)"
  using decode_list_header [OF assms(2)] assms(1) by (simp add: decode_struct_def)

lemma decode_encode_block_body:
  assumes "body_encodable b"
  shows "decode_block_body (encode_block_body b @ rest) = Ok (b, rest)"
proof -
  have "decode_block_body_fields (body_payload b @ rest) = Ok (b, rest)"
    using body_encodable_parts [OF assms]
    by (simp add: decode_block_body_fields_def body_payload_def txns_codec.dec_enc ommers_codec.dec_enc)
  then show ?thesis
    using decode_struct_payload [OF _ body_encodable_parts(3) [OF assms]]
    by (simp add: decode_block_body_def encode_block_body_eq [OF assms])
qed

text \<open>
  C31. Header RLP is canonical: \<open>decode\<close> accepts a byte string exactly when it starts with the encoding
  of the header it returns, and a header with arrays of the right size whose encoding fits in a 64-bit
  length is accepted.  So two different strings never decode to one header, and the hash of a
  header is the hash of the bytes it came from.
\<close>

theorem block_header_canonical:
  "decode_block_header bs = Ok (h, rest) \<longleftrightarrow>
     header_wf h \<and> length (encode_block_header h False) < 2 ^ 64 + length (encode_header (rlp_header_block h False)) \<and>
     bs = encode_block_header h False @ rest"
proof -
  have "header_valid h \<longleftrightarrow> header_wf h \<and> length (header_payload h) < 2 ^ 64"
  proof -
    have "length (extra_data h) \<le> length (encode_bytes (extra_data h))"
      by (simp add: encode_bytes_def)
    then show ?thesis
      by (auto simp: header_valid_def) (simp add: header_payload_def)
  qed
  then show ?thesis
    using header_codec.dec_Ok_iff [of bs h rest]
    by (auto simp: encode_header_of_vector_def encode_block_header_eq rlp_header_block_eq)
qed

text \<open>
   Block bodies survive their encoding: transactions and ommers, in order, with exactly the bytes
  after them left over; and a block, which is a header followed by the two lists, is decoded to its
  header and its body.
\<close>

theorem block_body_roundtrip:
  assumes "body_encodable b"
  shows "decode_block_body (encode_block_body b @ rest) = Ok (b, rest) \<and>
    (header_wf h \<and> length (encode_block_header h False @ body_payload b) < 2 ^ 64 \<longrightarrow>
     decode_block
       (encode_header \<lparr>is_list = True, payload_length = word_of_nat (length (encode_block_header h False @ body_payload b))\<rparr> @
        encode_block_header h False @ body_payload b @ rest) =
       Ok (\<lparr>transactions = transactions b, ommers = ommers b, blk_header = h\<rparr>, rest))"
proof (intro conjI impI)
  let ?p = "encode_block_header h False @ body_payload b"
  assume h: "header_wf h \<and> length ?p < 2 ^ 64"
  then have "header_valid h"
    by (intro header_valid_of_length) (simp_all add: encode_header_of_vector_def)
  then have "decode_block_header (encode_block_header h False @ r) = Ok (h, r)" for r
    using header_codec.dec_enc [of h r] by (simp add: encode_header_of_vector_def)
  then have "decode_block_fields (?p @ rest) = Ok (\<lparr>transactions = transactions b, ommers = ommers b, blk_header = h\<rparr>, rest)"
    using body_encodable_parts [OF assms]
    by (simp add: decode_block_fields_def body_payload_def txns_codec.dec_enc ommers_codec.dec_enc)
  then show "decode_block (encode_header \<lparr>is_list = True, payload_length = word_of_nat (length ?p)\<rparr> @
        encode_block_header h False @ body_payload b @ rest) =
       Ok (\<lparr>transactions = transactions b, ommers = ommers b, blk_header = h\<rparr>, rest)"
    using decode_struct_payload [where fld = decode_block_fields and p = ?p and rest = rest] h
    by (simp add: decode_block_def)
qed (rule decode_encode_block_body [OF assms])


theorem block_body_roundtrip_witness:
  "decode_block_body (encode_block_body \<lparr>transactions = [new_transaction], ommers = []\<rparr> @ [7]) =
     Ok (\<lparr>transactions = [new_transaction], ommers = []\<rparr>, [7])"
proof -
  let ?b = "\<lparr>transactions = [new_transaction], ommers = []\<rparr>"
  have "length (encode_block_body ?b) \<le> 200"
    unfolding encode_block_body_def encode_vector_def
    by simp (rule order_trans [OF add_mono [OF length_encode_header_le add_mono [OF length_encode_header_le
        add_mono [OF length_new_transaction length_encode_header_le]]]], simp)
  then have "body_encodable ?b"
    using new_transaction_encodable by (simp add: body_encodable_def new_transaction_def)
  then show ?thesis
    using block_body_roundtrip [of ?b "[7]" undefined] by blast
qed

end
