(* ===== verification/Account.thy ===== *)
theory Account
  imports Rlp
begin

text \<open>
  core/silkworm/types/account.hpp and account.cpp: the account record, its compact storage
  encoding (a bit set of the fields present, then each field with its length), the decoder of
  that encoding, and the RLP of an account in the state trie.
\<close>

unbundle bit_operations_syntax

definition kEmptyHash :: bytes32 where
  "kEmptyHash = 0xc5d2460186f7233c927e7db2dcc703c0e500b653ca82273b7bfad8045d85a470"

record account =
  acc_nonce :: u64
  acc_balance :: u256
  acc_code_hash :: bytes32
  acc_incarnation :: u64

text \<open>\<open>Account{}\<close>: the default member initialisers.\<close>

definition new_account :: account where
  "new_account = \<lparr>acc_nonce = 0, acc_balance = 0, acc_code_hash = kEmptyHash, acc_incarnation = 0\<rparr>"

definition encode_for_storage :: "account \<Rightarrow> bool \<Rightarrow> bytes" where
  "encode_for_storage a omit_code_hash =
     (let (field_set, res) = (0 :: u8, []);
          (field_set, res) =
            (if acc_nonce a \<noteq> 0 then
               let be = big_endian_uint64 (acc_nonce a)
               in (field_set OR 1, res @ [word_of_nat (length be)] @ be)
             else (field_set, res));
          (field_set, res) =
            (if acc_balance a \<noteq> 0 then
               let be = big_endian_uint256 (acc_balance a)
               in (field_set OR 2, res @ [word_of_nat (length be)] @ be)
             else (field_set, res));
          (field_set, res) =
            (if acc_incarnation a \<noteq> 0 then
               let be = big_endian_uint64 (acc_incarnation a)
               in (field_set OR 4, res @ [word_of_nat (length be)] @ be)
             else (field_set, res));
          (field_set, res) =
            (if acc_code_hash a \<noteq> kEmptyHash \<and> \<not> omit_code_hash then
               (field_set OR 8, res @ [32] @ full_view_bytes32 (acc_code_hash a))
             else (field_set, res))
      in [field_set] @ res)"

definition encoding_length_for_storage :: "account \<Rightarrow> nat" where
  "encoding_length_for_storage a =
     (let len = 1;
          len = (if acc_nonce a \<noteq> 0 then len + 1 + length (big_endian_uint64 (acc_nonce a)) else len);
          len = (if acc_balance a \<noteq> 0 then len + 1 + length (big_endian_uint256 (acc_balance a)) else len);
          len = (if acc_incarnation a \<noteq> 0 then len + 1 + length (big_endian_uint64 (acc_incarnation a))
                 else len);
          len = (if acc_code_hash a \<noteq> kEmptyHash then len + 1 + 32 else len)
      in len)"

text \<open>
  The decoder reads the length byte of a field as \<open>encoded[pos++]\<close>, with no check that the
  position is inside the string, and copies a balance to \<open>&as_bytes(a.balance)[32 - len]\<close> with
  no check that \<open>len\<close> is at most 32: outside these bounds the C++ has no defined behaviour.
  \<open>view\<close> is the part of the string from \<open>pos\<close> on.
\<close>

definition storage_uint64 :: "bytes \<Rightarrow> (u64 \<times> bytes) res" where
  "storage_uint64 view =
     (case view of
        [] \<Rightarrow> Stuck
      | len # view \<Rightarrow>
          if length view < unat len then Err kInputTooShort
          else rbind (read_uint64 (take (unat len) view) False) (\<lambda>n. Ok (n, drop (unat len) view)))"

definition storage_balance :: "bytes \<Rightarrow> (u256 \<times> bytes) res" where
  "storage_balance view =
     (case view of
        [] \<Rightarrow> Stuck
      | len # view \<Rightarrow>
          if length view < unat len then Err kInputTooShort
          else if unat len > 32 then Stuck
          else let buf = replicate (32 - unat len) 0 @ take (unat len) view
               in Ok (bswap 32 (word_of_nat (le_load buf)), drop (unat len) view))"

definition storage_code_hash :: "bytes \<Rightarrow> bytes32 res" where
  "storage_code_hash view =
     (case view of
        [] \<Rightarrow> Stuck
      | len # view \<Rightarrow>
          if len \<noteq> 32 then Err kUnexpectedLength
          else if length view < unat len then Err kInputTooShort
          else Ok (word_of_nat (be_load (take 32 view))))"

definition decode_account_from_storage :: "bytes \<Rightarrow> account res" where
  "decode_account_from_storage encoded =
     (case encoded of
        [] \<Rightarrow> Ok new_account
      | field_set # view \<Rightarrow>
          rbind (if field_set AND 1 \<noteq> 0
                 then rbind (storage_uint64 view) (\<lambda>(n, view). Ok (new_account\<lparr>acc_nonce := n\<rparr>, view))
                 else Ok (new_account, view)) (\<lambda>(a, view).
          rbind (if field_set AND 2 \<noteq> 0
                 then rbind (storage_balance view) (\<lambda>(n, view). Ok (a\<lparr>acc_balance := n\<rparr>, view))
                 else Ok (a, view)) (\<lambda>(a, view).
          rbind (if field_set AND 4 \<noteq> 0
                 then rbind (storage_uint64 view) (\<lambda>(n, view). Ok (a\<lparr>acc_incarnation := n\<rparr>, view))
                 else Ok (a, view)) (\<lambda>(a, view).
          if field_set AND 8 \<noteq> 0
          then rbind (storage_code_hash view) (\<lambda>h. Ok (a\<lparr>acc_code_hash := h\<rparr>))
          else Ok a))))"

definition account_rlp :: "account \<Rightarrow> bytes32 \<Rightarrow> bytes" where
  "account_rlp a storage_root =
     encode_header \<lparr>is_list = True,
       payload_length = length_uint64 (acc_nonce a) + length_uint256 (acc_balance a) + (32 + 1) + (32 + 1)\<rparr>
     @ encode_uint64 (acc_nonce a) @ encode_uint256 (acc_balance a)
     @ encode_bytes32 storage_root @ encode_bytes32 (acc_code_hash a)"

section \<open>The storage encoding\<close>

lemma unat_length_byte:
  fixes w :: "'a::len word"
  assumes "LENGTH('a) = 8 * k" and "k \<le> 32"
  shows "unat (word_of_nat (length (be_min (unat w))) :: u8) = length (be_min (unat w))"
  using length_be_min_word [OF assms(1), of w] assms(2) by (simp add: unat_byte_of_nat)

text \<open>Each field reader undoes the part of the encoder that wrote the field.\<close>

lemma storage_uint64_be_min:
  "storage_uint64 (word_of_nat (length (be_min (unat n))) # be_min (unat n) @ rest) = Ok (n, rest)"
  using unat_length_byte [of 8 n] read_uint64_Ok_iff [of "be_min (unat n)" n]
  by (simp add: storage_uint64_def)

lemma storage_balance_be_min:
  "storage_balance (word_of_nat (length (be_min (unat n))) # be_min (unat n) @ rest) = Ok (n, rest)"
  using unat_length_byte [of 32 n] length_be_min_word [of 32 n]
    bswap_padded [of 32 "be_min (unat n)", where ?'a = 256]
  by (simp add: storage_balance_def be_load_be_min Let_def)

lemma storage_code_hash_full_view: "storage_code_hash (32 # full_view_bytes32 h) = Ok h"
  by (simp add: storage_code_hash_def full_view_bytes32_load)

lemmas storage_field_simps =
  storage_uint64_be_min storage_uint64_be_min [where rest = "[]", simplified]
  storage_balance_be_min storage_balance_be_min [where rest = "[]", simplified]
  storage_code_hash_full_view

lemma decode_encode_account:
  "decode_account_from_storage (encode_for_storage a omit) =
     Ok (if omit then a\<lparr>acc_code_hash := kEmptyHash\<rparr> else a)"
  by (cases a; cases "acc_nonce a = 0"; cases "acc_balance a = 0"; cases "acc_incarnation a = 0";
      cases "acc_code_hash a = kEmptyHash \<or> omit")
     (auto simp: encode_for_storage_def decode_account_from_storage_def new_account_def
       storage_field_simps big_endian_uint64_eq big_endian_uint256_eq Let_def)

text \<open>
  Accounts survive the trip through the database: decoding the storage encoding gives the
  account back, or the account with the hash of the empty code when the encoder was asked to
  leave the code hash out; and the announced size is the size of the full encoding.
\<close>

theorem account_storage_roundtrip:
  "decode_account_from_storage (encode_for_storage a omit) =
     Ok (if omit then a\<lparr>acc_code_hash := kEmptyHash\<rparr> else a) \<and>
   encoding_length_for_storage a = length (encode_for_storage a False)"
  using decode_encode_account [of a omit]
  by (simp add: encode_for_storage_def encoding_length_for_storage_def Let_def)

end
