(* ===== verification/State_Buffer.thy ===== *)
theory State_Buffer
  imports Block Account
begin

text \<open>
  core/silkworm/state/buffer.hpp: the abstract class \<open>StateBuffer\<close>.  An implementation is a record of its
  virtual functions (a table in the sense of C++) over the type of its own state; a client takes the
  table and the state.  The locale \<open>state_buffer\<close> holds the laws that the execution layer relies on:
  how the readers see the state changes.
\<close>

record 'b buffer_ops =
  read_account :: "'b \<Rightarrow> address \<Rightarrow> account option"
  read_code :: "'b \<Rightarrow> bytes32 \<Rightarrow> bytes"
  read_storage :: "'b \<Rightarrow> address \<Rightarrow> u64 \<Rightarrow> bytes32 \<Rightarrow> bytes32"
  previous_incarnation :: "'b \<Rightarrow> address \<Rightarrow> u64"
  read_header :: "'b \<Rightarrow> u64 \<Rightarrow> bytes32 \<Rightarrow> block_header option"
  read_body :: "'b \<Rightarrow> u64 \<Rightarrow> bytes32 \<Rightarrow> block_body option"
  total_difficulty :: "'b \<Rightarrow> u64 \<Rightarrow> bytes32 \<Rightarrow> u256 option"
  state_root_hash :: "'b \<Rightarrow> bytes32"
  current_canonical_block :: "'b \<Rightarrow> u64"
  canonical_hash :: "'b \<Rightarrow> u64 \<Rightarrow> bytes32 option"
  insert_block :: "'b \<Rightarrow> block \<Rightarrow> bytes32 \<Rightarrow> 'b"
  canonize_block :: "'b \<Rightarrow> u64 \<Rightarrow> bytes32 \<Rightarrow> 'b"
  decanonize_block :: "'b \<Rightarrow> u64 \<Rightarrow> 'b"
  insert_receipts :: "'b \<Rightarrow> u64 \<Rightarrow> receipt list \<Rightarrow> 'b"
  begin_block :: "'b \<Rightarrow> u64 \<Rightarrow> 'b"
  update_account :: "'b \<Rightarrow> address \<Rightarrow> account option \<Rightarrow> account option \<Rightarrow> 'b"
  update_account_code :: "'b \<Rightarrow> address \<Rightarrow> u64 \<Rightarrow> bytes32 \<Rightarrow> bytes \<Rightarrow> 'b"
  update_storage :: "'b \<Rightarrow> address \<Rightarrow> u64 \<Rightarrow> bytes32 \<Rightarrow> bytes32 \<Rightarrow> bytes32 \<Rightarrow> 'b"
  unwind_state_changes :: "'b \<Rightarrow> u64 \<Rightarrow> 'b"

locale state_buffer =
  fixes V :: "'b buffer_ops"
  assumes account_begin: "read_account V (begin_block V d n) a = read_account V d a"
    and account_account: "read_account V (update_account V d b old cur) a = (if a = b then cur else read_account V d a)"
    and account_code: "read_account V (update_account_code V d b i h code) a = read_account V d a"
    and account_storage: "read_account V (update_storage V d b i k v w) a = read_account V d a"
    and storage_begin: "read_storage V (begin_block V d n) a j l = read_storage V d a j l"
    and storage_account: "read_storage V (update_account V d b old cur) a j l = read_storage V d a j l"
    and storage_code: "read_storage V (update_account_code V d b i h code) a j l = read_storage V d a j l"
    and storage_storage: "read_storage V (update_storage V d b i k v w) a j l =
      (if a = b \<and> j = i \<and> l = k then w else read_storage V d a j l)"
    and code_begin: "read_code V (begin_block V d n) h' = read_code V d h'"
    and code_account: "read_code V (update_account V d b old cur) h' = read_code V d h'"
    and code_code: "read_code V (update_account_code V d b i h code) h' = (if h' = h then code else read_code V d h')"
    and code_storage: "read_code V (update_storage V d b i k v w) h' = read_code V d h'"
begin

lemmas read_laws =
  account_begin account_account account_code account_storage storage_begin storage_account storage_code
  storage_storage code_begin code_account code_code code_storage

end

section \<open>The store of blocks\<close>

definition body_of :: "block \<Rightarrow> block_body" where
  "body_of b = \<lparr>transactions = transactions b, ommers = ommers b\<rparr>"

text \<open>Everything about blocks that the readers of a buffer can see.\<close>

definition chain_view :: "'b buffer_ops \<Rightarrow> 'b \<Rightarrow> (u64 \<Rightarrow> bytes32 \<Rightarrow> block_header option) \<times> (u64 \<Rightarrow> bytes32 \<Rightarrow> block_body option) \<times>
    (u64 \<Rightarrow> bytes32 \<Rightarrow> u256 option) \<times> (u64 \<Rightarrow> bytes32 option) \<times> u64" where
  "chain_view V d = (read_header V d, read_body V d, total_difficulty V d, canonical_hash V d, current_canonical_block V d)"

text \<open>
  The laws of the store of blocks: state changes do not touch it, and the readers see what \<open>insert_block\<close>, \<open>canonize_block\<close>
  and \<open>decanonize_block\<close> have stored.  \<open>good\<close> is the invariant of the buffer.
\<close>

locale chain_store =
  fixes V :: "'b buffer_ops" and good :: "'b \<Rightarrow> bool"
  assumes view_begin: "chain_view V (begin_block V d n) = chain_view V d \<and> (good d \<longrightarrow> good (begin_block V d n))"
    and view_account: "chain_view V (update_account V d a old cur) = chain_view V d \<and> (good d \<longrightarrow> good (update_account V d a old cur))"
    and view_code: "chain_view V (update_account_code V d a i k c) = chain_view V d \<and> (good d \<longrightarrow> good (update_account_code V d a i k c))"
    and view_storage: "chain_view V (update_storage V d a i l v w) = chain_view V d \<and> (good d \<longrightarrow> good (update_storage V d a i l v w))"
    and view_unwind: "chain_view V (unwind_state_changes V d n) = chain_view V d \<and> (good d \<longrightarrow> good (unwind_state_changes V d n))"
    and wf_store: "good d \<Longrightarrow> good (insert_block V d b h) \<and> good (canonize_block V d n h) \<and> good (decanonize_block V d n)"
    and header_insert: "number (blk_header b) \<noteq> - 1 \<Longrightarrow> read_header V (insert_block V d b h) n k =
      (if n = number (blk_header b) \<and> k = h then Some (blk_header b) else read_header V d n k)"
    and body_insert: "number (blk_header b) \<noteq> - 1 \<Longrightarrow> read_body V (insert_block V d b h) n k =
      (if n = number (blk_header b) \<and> k = h then Some (body_of b) else read_body V d n k)"
    and difficulty_insert: "number (blk_header b) \<noteq> 0 \<Longrightarrow> number (blk_header b) \<noteq> - 1 \<Longrightarrow>
      total_difficulty V d (number (blk_header b) - 1) (parent_hash (blk_header b)) = Some t \<Longrightarrow>
      total_difficulty V (insert_block V d b h) n k =
      (if n = number (blk_header b) \<and> k = h then Some (t + difficulty (blk_header b)) else total_difficulty V d n k)"
    and canonical_insert: "canonical_hash V (insert_block V d b h) = canonical_hash V d \<and>
      current_canonical_block V (insert_block V d b h) = current_canonical_block V d"
    and store_canonize: "read_header V (canonize_block V d n h) = read_header V d \<and> read_body V (canonize_block V d n h) = read_body V d \<and>
      total_difficulty V (canonize_block V d n h) = total_difficulty V d"
    and store_decanonize: "read_header V (decanonize_block V d n) = read_header V d \<and> read_body V (decanonize_block V d n) = read_body V d \<and>
      total_difficulty V (decanonize_block V d n) = total_difficulty V d"
    and canonical_canonize: "n \<noteq> - 1 \<Longrightarrow> n = 0 \<or> canonical_hash V d (n - 1) \<noteq> None \<Longrightarrow>
      canonical_hash V (canonize_block V d n h) i = (if i = n then Some h else canonical_hash V d i)"
    and canonical_decanonize: "n = 0 \<or> canonical_hash V d (n - 1) \<noteq> None \<Longrightarrow>
      canonical_hash V (decanonize_block V d n) i = (if i < n then canonical_hash V d i else None)"
    and canonical_current: "good d \<Longrightarrow> canonical_hash V d 0 \<noteq> None \<Longrightarrow>
      canonical_hash V d i \<noteq> None \<longleftrightarrow> i \<le> current_canonical_block V d"

end
