(* ===== verification/Memory_Buffer.thy ===== *)
theory Memory_Buffer
  imports State_Buffer
begin

text \<open>
  core/silkworm/state/memory_buffer.hpp and memory_buffer.cpp: the \<open>StateBuffer\<close> that keeps everything in
  memory.  Hash maps are partial functions and vectors are lists.  A loop over a hash map whose body
  changes only the entry of the current key is the pointwise update of all keys.

  \<open>operator[]\<close> of a hash map inserts a default value when the key is missing; the operations that
  use it write that out (\<open>ensure\<close>).
\<close>

type_synonym account_changes = "address \<rightharpoonup> account option"
type_synonym storage_map = "address \<rightharpoonup> (u64 \<rightharpoonup> (bytes32 \<rightharpoonup> bytes32))"

record memory_buffer =
  mb_accounts :: "address \<rightharpoonup> account"
  mb_code :: "bytes32 \<rightharpoonup> bytes"
  mb_prev_incarnations :: "address \<rightharpoonup> u64"
  mb_storage :: storage_map
  mb_headers :: "(bytes32 \<rightharpoonup> block_header) list"
  mb_bodies :: "(bytes32 \<rightharpoonup> block_body) list"
  mb_difficulty :: "(bytes32 \<rightharpoonup> u256) list"
  mb_canonical_hashes :: "bytes32 list"
  mb_account_changes :: "u64 \<rightharpoonup> account_changes"
  mb_storage_changes :: "u64 \<rightharpoonup> storage_map"
  mb_block_number :: u64

definition new_memory_buffer :: memory_buffer where
  "new_memory_buffer =
     \<lparr>mb_accounts = Map.empty, mb_code = Map.empty, mb_prev_incarnations = Map.empty, mb_storage = Map.empty,
      mb_headers = [], mb_bodies = [], mb_difficulty = [], mb_canonical_hashes = [],
      mb_account_changes = Map.empty, mb_storage_changes = Map.empty, mb_block_number = 0\<rparr>"

section \<open>Readers\<close>

definition mb_read_account :: "memory_buffer \<Rightarrow> address \<Rightarrow> account option" where
  "mb_read_account m address = mb_accounts m address"

definition mb_read_code :: "memory_buffer \<Rightarrow> bytes32 \<Rightarrow> bytes" where
  "mb_read_code m code_hash = (case mb_code m code_hash of None \<Rightarrow> [] | Some c \<Rightarrow> c)"

definition mb_read_storage :: "memory_buffer \<Rightarrow> address \<Rightarrow> u64 \<Rightarrow> bytes32 \<Rightarrow> bytes32" where
  "mb_read_storage m address incarnation location =
     (case mb_storage m address of
        None \<Rightarrow> 0
      | Some s1 \<Rightarrow>
          (case s1 incarnation of
             None \<Rightarrow> 0
           | Some s2 \<Rightarrow> (case s2 location of None \<Rightarrow> 0 | Some v \<Rightarrow> v)))"

definition mb_previous_incarnation :: "memory_buffer \<Rightarrow> address \<Rightarrow> u64" where
  "mb_previous_incarnation m address = (case mb_prev_incarnations m address of None \<Rightarrow> 0 | Some i \<Rightarrow> i)"

definition mb_read_header :: "memory_buffer \<Rightarrow> u64 \<Rightarrow> bytes32 \<Rightarrow> block_header option" where
  "mb_read_header m block_number block_hash =
     (if unat block_number \<ge> length (mb_headers m) then None
      else (mb_headers m ! unat block_number) block_hash)"

definition mb_read_body :: "memory_buffer \<Rightarrow> u64 \<Rightarrow> bytes32 \<Rightarrow> block_body option" where
  "mb_read_body m block_number block_hash =
     (if unat block_number \<ge> length (mb_bodies m) then None
      else (mb_bodies m ! unat block_number) block_hash)"

definition mb_total_difficulty :: "memory_buffer \<Rightarrow> u64 \<Rightarrow> bytes32 \<Rightarrow> u256 option" where
  "mb_total_difficulty m block_number block_hash =
     (if unat block_number \<ge> length (mb_difficulty m) then None
      else (mb_difficulty m ! unat block_number) block_hash)"

definition mb_current_canonical_block :: "memory_buffer \<Rightarrow> u64" where
  "mb_current_canonical_block m = word_of_nat (length (mb_canonical_hashes m)) - 1"

definition mb_canonical_hash :: "memory_buffer \<Rightarrow> u64 \<Rightarrow> bytes32 option" where
  "mb_canonical_hash m block_number =
     (if unat block_number \<ge> length (mb_canonical_hashes m) then None
      else Some (mb_canonical_hashes m ! unat block_number))"

section \<open>Blocks\<close>

text \<open>
  The new size of a vector, \<open>block_number + 1\<close>, wraps around to 0 for the last block number; the index after it is then
  undefined behaviour, and the laws below leave that number out.
\<close>

definition put_at :: "u64 \<Rightarrow> bytes32 \<Rightarrow> 'v \<Rightarrow> (bytes32 \<rightharpoonup> 'v) list \<Rightarrow> (bytes32 \<rightharpoonup> 'v) list" where
  "put_at n hash v xs =
     (let xs = (if length xs \<le> unat n then resize (unat (n + 1)) Map.empty xs else xs)
      in xs[unat n := (xs ! unat n)(hash \<mapsto> v)])"

definition mb_insert_block :: "memory_buffer \<Rightarrow> block \<Rightarrow> bytes32 \<Rightarrow> memory_buffer" where
  "mb_insert_block m block hash =
     (let block_number = number (blk_header block);
          n = unat block_number;
          parent = parent_hash (blk_header block);
          ds = (if length (mb_difficulty m) \<le> n then resize (unat (block_number + 1)) Map.empty (mb_difficulty m) else mb_difficulty m);
          parent_td = (if n = 0 then 0 else ensure 0 ((ds ! (n - 1)) parent));
          ds = (if n = 0 then ds else ds[n - 1 := (ds ! (n - 1))(parent \<mapsto> parent_td)]);
          ds = ds[n := (ds ! n)(hash \<mapsto> parent_td + difficulty (blk_header block))]
      in m\<lparr>mb_headers := put_at block_number hash (blk_header block) (mb_headers m),
           mb_bodies := put_at block_number hash (body_of block) (mb_bodies m),
           mb_difficulty := ds\<rparr>)"

definition mb_canonize_block :: "memory_buffer \<Rightarrow> u64 \<Rightarrow> bytes32 \<Rightarrow> memory_buffer" where
  "mb_canonize_block m block_number block_hash =
     (let n = unat block_number;
          hs = (if length (mb_canonical_hashes m) \<le> n then resize (unat (block_number + 1)) 0 (mb_canonical_hashes m)
                else mb_canonical_hashes m)
      in m\<lparr>mb_canonical_hashes := hs[n := block_hash]\<rparr>)"

definition mb_decanonize_block :: "memory_buffer \<Rightarrow> u64 \<Rightarrow> memory_buffer" where
  "mb_decanonize_block m block_number =
     m\<lparr>mb_canonical_hashes := resize (unat block_number) 0 (mb_canonical_hashes m)\<rparr>"

definition mb_insert_receipts :: "memory_buffer \<Rightarrow> u64 \<Rightarrow> receipt list \<Rightarrow> memory_buffer" where
  "mb_insert_receipts m block_number receipts = m"

section \<open>State changes\<close>

definition mb_begin_block :: "memory_buffer \<Rightarrow> u64 \<Rightarrow> memory_buffer" where
  "mb_begin_block m block_number =
     m\<lparr>mb_block_number := block_number,
       mb_account_changes := (mb_account_changes m)(block_number := None),
       mb_storage_changes := (mb_storage_changes m)(block_number := None)\<rparr>"

definition mb_update_account ::
    "memory_buffer \<Rightarrow> address \<Rightarrow> account option \<Rightarrow> account option \<Rightarrow> memory_buffer" where
  "mb_update_account m address old current =
     (let changes = ensure Map.empty (mb_account_changes m (mb_block_number m));
          m = m\<lparr>mb_account_changes := (mb_account_changes m)(mb_block_number m \<mapsto> changes(address \<mapsto> old))\<rparr>
      in case current of
           Some c \<Rightarrow> m\<lparr>mb_accounts := (mb_accounts m)(address \<mapsto> c)\<rparr>
         | None \<Rightarrow>
             let m = m\<lparr>mb_accounts := (mb_accounts m)(address := None)\<rparr>
             in case old of
                  Some i \<Rightarrow> m\<lparr>mb_prev_incarnations := (mb_prev_incarnations m)(address \<mapsto> acc_incarnation i)\<rparr>
                | None \<Rightarrow> m)"

definition mb_update_account_code ::
    "memory_buffer \<Rightarrow> address \<Rightarrow> u64 \<Rightarrow> bytes32 \<Rightarrow> bytes \<Rightarrow> memory_buffer" where
  "mb_update_account_code m address incarnation code_hash code =
     m\<lparr>mb_code := (mb_code m)(code_hash \<mapsto> code)\<rparr>"

text \<open>\<open>map[address][incarnation]\<close> and its change at one location, \<open>None\<close> to erase.\<close>

definition storage_at :: "storage_map \<Rightarrow> address \<Rightarrow> u64 \<Rightarrow> (bytes32 \<rightharpoonup> bytes32)" where
  "storage_at s address incarnation = ensure Map.empty (ensure Map.empty (s address) incarnation)"

definition storage_put ::
    "storage_map \<Rightarrow> address \<Rightarrow> u64 \<Rightarrow> bytes32 \<Rightarrow> bytes32 option \<Rightarrow> storage_map" where
  "storage_put s address incarnation location v =
     s(address \<mapsto> (ensure Map.empty (s address))(incarnation \<mapsto>
         (storage_at s address incarnation)(location := v)))"

definition mb_update_storage ::
    "memory_buffer \<Rightarrow> address \<Rightarrow> u64 \<Rightarrow> bytes32 \<Rightarrow> bytes32 \<Rightarrow> bytes32 \<Rightarrow> memory_buffer" where
  "mb_update_storage m address incarnation location old current =
     (let changes = ensure Map.empty (mb_storage_changes m (mb_block_number m))
      in m\<lparr>mb_storage_changes :=
             (mb_storage_changes m)(mb_block_number m \<mapsto> storage_put changes address incarnation location (Some old)),
           mb_storage :=
             storage_put (mb_storage m) address incarnation location (if current = 0 then None else Some current)\<rparr>)"

text \<open>
  The inner maps of the recorded changes are never empty (\<open>mb_update_storage\<close> creates them with their
  first entry), so that unwinding creates the maps of exactly the addresses and incarnations recorded.
\<close>

definition mb_unwind_state_changes :: "memory_buffer \<Rightarrow> u64 \<Rightarrow> memory_buffer" where
  "mb_unwind_state_changes m block_number =
     (let acs = ensure Map.empty (mb_account_changes m block_number);
          scs = ensure Map.empty (mb_storage_changes m block_number)
      in m\<lparr>mb_account_changes := (mb_account_changes m)(block_number \<mapsto> acs),
           mb_storage_changes := (mb_storage_changes m)(block_number \<mapsto> scs),
           mb_accounts := (\<lambda>a. case acs a of None \<Rightarrow> mb_accounts m a | Some account \<Rightarrow> account),
           mb_storage := (\<lambda>a.
             case scs a of
               None \<Rightarrow> mb_storage m a
             | Some storage1 \<Rightarrow>
                 Some (\<lambda>i.
                   case storage1 i of
                     None \<Rightarrow> ensure Map.empty (mb_storage m a) i
                   | Some storage2 \<Rightarrow>
                       Some (\<lambda>l.
                         case storage2 l of
                           None \<Rightarrow> storage_at (mb_storage m) a i l
                         | Some value \<Rightarrow> if value = 0 then None else Some value)))\<rparr>)"

section \<open>The table of virtual functions\<close>

text \<open>The state root is computed by the trie component and passed in.\<close>

definition memory_buffer_ops :: "(memory_buffer \<Rightarrow> bytes32) \<Rightarrow> memory_buffer buffer_ops" where
  "memory_buffer_ops root =
     \<lparr>read_account = mb_read_account, read_code = mb_read_code, read_storage = mb_read_storage,
      previous_incarnation = mb_previous_incarnation, read_header = mb_read_header, read_body = mb_read_body,
      total_difficulty = mb_total_difficulty, state_root_hash = root,
      current_canonical_block = mb_current_canonical_block, canonical_hash = mb_canonical_hash,
      insert_block = mb_insert_block, canonize_block = mb_canonize_block, decanonize_block = mb_decanonize_block,
      insert_receipts = mb_insert_receipts, begin_block = mb_begin_block, update_account = mb_update_account,
      update_account_code = mb_update_account_code, update_storage = mb_update_storage,
      unwind_state_changes = mb_unwind_state_changes\<rparr>"

lemmas mb_defs =
  mb_read_account_def mb_read_code_def mb_read_storage_def mb_begin_block_def mb_update_account_def
  mb_update_account_code_def mb_update_storage_def

lemma mb_read_storage_eq: "mb_read_storage m a i l = ensure 0 (storage_at (mb_storage m) a i l)"
  by (simp add: mb_read_storage_def storage_at_def ensure_def split: option.splits)

lemma storage_at_put:
  "storage_at (storage_put s a i l v) b j = (if b = a \<and> j = i then (storage_at s a i)(l := v) else storage_at s b j)"
  by (simp add: storage_at_def storage_put_def ensure_def)

interpretation memory: state_buffer "memory_buffer_ops root" for root
proof
  fix d :: memory_buffer and a b :: address and i j n :: u64 and k l :: bytes32 and v w :: bytes32
    and old cur :: "account option" and h h' :: bytes32 and code :: bytes
  show "read_storage (memory_buffer_ops root) (update_storage (memory_buffer_ops root) d b i k v w) a j l =
    (if a = b \<and> j = i \<and> l = k then w else read_storage (memory_buffer_ops root) d a j l)"
    by (simp add: memory_buffer_ops_def mb_read_storage_eq mb_update_storage_def Let_def storage_at_put ensure_def)
qed (simp_all add: memory_buffer_ops_def mb_defs Let_def split: option.split)

section \<open>The memory buffer as a store of blocks\<close>

definition mb_wf :: "memory_buffer \<Rightarrow> bool" where
  "mb_wf m \<longleftrightarrow> length (mb_canonical_hashes m) \<le> 2 ^ 64"

lemma lookup_put_at:
  fixes m n :: u64
  assumes "n \<noteq> - 1"
  shows "(if unat m \<ge> length (put_at n h v xs) then None else (put_at n h v xs ! unat m) k) =
   (if m = n \<and> k = h then Some v else if unat m \<ge> length xs then None else (xs ! unat m) k)"
  using unat_add_one(1) [OF assms] by (auto simp: put_at_def Let_def resize_def nth_append nth_list_update unat_inj)

lemma mb_insert_reads:
  assumes "number (blk_header b) \<noteq> - 1"
  shows "mb_read_header (mb_insert_block d b h) n k = (if n = number (blk_header b) \<and> k = h then Some (blk_header b) else mb_read_header d n k)"
  "mb_read_body (mb_insert_block d b h) n k = (if n = number (blk_header b) \<and> k = h then Some (body_of b) else mb_read_body d n k)"
proof -
  have "mb_headers (mb_insert_block d b h) = put_at (number (blk_header b)) h (blk_header b) (mb_headers d)"
    "mb_bodies (mb_insert_block d b h) = put_at (number (blk_header b)) h (body_of b) (mb_bodies d)"
    by (simp_all add: mb_insert_block_def Let_def)
  then show "mb_read_header (mb_insert_block d b h) n k = (if n = number (blk_header b) \<and> k = h then Some (blk_header b) else mb_read_header d n k)"
    "mb_read_body (mb_insert_block d b h) n k = (if n = number (blk_header b) \<and> k = h then Some (body_of b) else mb_read_body d n k)"
    unfolding mb_read_header_def mb_read_body_def by (simp_all only: lookup_put_at [OF assms])
qed

interpretation memory_chain: chain_store "memory_buffer_ops root" mb_wf for root
proof
  fix d :: memory_buffer and b :: block and h k :: bytes32 and n i :: u64 and t :: u256
  show "read_header (memory_buffer_ops root) (insert_block (memory_buffer_ops root) d b h) n k =
      (if n = number (blk_header b) \<and> k = h then Some (blk_header b) else read_header (memory_buffer_ops root) d n k)"
    "read_body (memory_buffer_ops root) (insert_block (memory_buffer_ops root) d b h) n k =
      (if n = number (blk_header b) \<and> k = h then Some (body_of b) else read_body (memory_buffer_ops root) d n k)"
    if "number (blk_header b) \<noteq> - 1"
    using that by (simp_all add: memory_buffer_ops_def mb_insert_reads)
  show "canonical_hash (memory_buffer_ops root) (canonize_block (memory_buffer_ops root) d n h) i =
      (if i = n then Some h else canonical_hash (memory_buffer_ops root) d i)"
    if last: "n \<noteq> - 1" and "n = 0 \<or> canonical_hash (memory_buffer_ops root) d (n - 1) \<noteq> None"
    using that(2) unat_gt_0 [of n] unat_add_one(1) [OF last]
    by (cases "n = 0") (auto simp: memory_buffer_ops_def mb_canonical_hash_def mb_canonize_block_def Let_def resize_def
        nth_append nth_list_update unat_sub_one unat_inj unat_zero not_le less_Suc_eq split: if_splits)
  show "canonical_hash (memory_buffer_ops root) (decanonize_block (memory_buffer_ops root) d n) i =
      (if i < n then canonical_hash (memory_buffer_ops root) d i else None)"
    if "n = 0 \<or> canonical_hash (memory_buffer_ops root) d (n - 1) \<noteq> None"
    using that unat_gt_0 [of n]
    by (cases "n = 0") (auto simp: memory_buffer_ops_def mb_canonical_hash_def mb_decanonize_block_def Let_def resize_def
        unat_sub_one word_less_nat_alt not_le split: if_splits)
  show "(canonical_hash (memory_buffer_ops root) d i \<noteq> None) = (i \<le> current_canonical_block (memory_buffer_ops root) d)"
    if "mb_wf d" "canonical_hash (memory_buffer_ops root) d 0 \<noteq> None"
  proof -
    have "length (mb_canonical_hashes d) \<noteq> 0" "length (mb_canonical_hashes d) \<le> 2 ^ 64"
      using that by (auto simp: mb_wf_def memory_buffer_ops_def mb_canonical_hash_def)
    then obtain l where l: "length (mb_canonical_hashes d) = Suc l" "l < 2 ^ 64"
      by (cases "length (mb_canonical_hashes d)") simp_all
    then have "unat (mb_current_canonical_block d) = l"
      by (simp add: mb_current_canonical_block_def unat_of_nat)
    with l show ?thesis
      by (auto simp: memory_buffer_ops_def mb_canonical_hash_def word_le_nat_alt)
  qed
  show "mb_wf (insert_block (memory_buffer_ops root) d b h) \<and> mb_wf (canonize_block (memory_buffer_ops root) d n h) \<and>
      mb_wf (decanonize_block (memory_buffer_ops root) d n)" if "mb_wf d"
    using that unsigned_less [of "n + 1", where ?'a = nat] unsigned_less [of n, where ?'a = nat]
    by (simp add: mb_wf_def memory_buffer_ops_def mb_insert_block_def mb_canonize_block_def mb_decanonize_block_def resize_def Let_def)
  show "total_difficulty (memory_buffer_ops root) (insert_block (memory_buffer_ops root) d b h) n k =
      (if n = number (blk_header b) \<and> k = h then Some (t + difficulty (blk_header b)) else total_difficulty (memory_buffer_ops root) d n k)"
    if nz: "number (blk_header b) \<noteq> 0" and last: "number (blk_header b) \<noteq> - 1" and t: "total_difficulty (memory_buffer_ops root) d (number (blk_header b) - 1) (parent_hash (blk_header b)) = Some t"
  proof -
    let ?m = "unat (number (blk_header b))" and ?ds = "mb_difficulty d"
    have "?m > 0" using nz by (simp add: unat_gt_0)
    have lt: "?m - 1 < length ?ds" and p: "(?ds ! (?m - 1)) (parent_hash (blk_header b)) = Some t"
      using t nz by (auto simp: memory_buffer_ops_def mb_total_difficulty_def unat_sub_one split: if_splits)
    define ds where "ds = (if length ?ds \<le> ?m then resize (unat (number (blk_header b) + 1)) Map.empty ?ds else ?ds)"
    have len: "?m < length ds" "length ?ds \<le> length ds"
      and same: "\<And>j. j < length ds \<Longrightarrow> ds ! j = (if j < length ?ds then ?ds ! j else Map.empty)"
      by (auto simp: ds_def resize_def nth_append unat_add_one [OF last])
    have nochange: "ds[?m - 1 := (ds ! (?m - 1))(parent_hash (blk_header b) \<mapsto> t)] = ds"
      using p lt same [of "?m - 1"] len by (intro list_update_same_conv [THEN iffD2]) auto
    have "mb_difficulty (mb_insert_block d b h) = ds[?m := (ds ! ?m)(h \<mapsto> t + difficulty (blk_header b))]"
      using p lt same [of "?m - 1"] \<open>?m > 0\<close> nochange len
      by (simp add: mb_insert_block_def Let_def ds_def [symmetric] ensure_def)
    moreover have "(if unat n \<ge> length ds then None else (ds ! unat n) k) = (if unat n \<ge> length ?ds then None else (?ds ! unat n) k)"
      using same [of "unat n"] len by (cases "unat n < length ds") auto
    ultimately show ?thesis
      using len by (auto simp: memory_buffer_ops_def mb_total_difficulty_def nth_list_update unat_inj)
  qed
qed (simp_all add: chain_view_def memory_buffer_ops_def mb_read_header_def mb_read_body_def mb_total_difficulty_def mb_canonical_hash_def
     mb_current_canonical_block_def mb_begin_block_def mb_update_account_def mb_update_account_code_def mb_update_storage_def
     mb_unwind_state_changes_def mb_canonize_block_def mb_decanonize_block_def mb_insert_block_def mb_wf_def Let_def fun_eq_iff
     split: option.split)

section \<open>Unwinding\<close>

text \<open>
  The updates of a block: a call of \<open>begin_block\<close> and then any number of state changes, each of
  which passes as the initial value the value at the beginning of the block.
\<close>

inductive block_updates :: "memory_buffer \<Rightarrow> u64 \<Rightarrow> memory_buffer \<Rightarrow> bool" for m0 n where
  start: "block_updates m0 n (mb_begin_block m0 n)"
| account: "block_updates m0 n m \<Longrightarrow> block_updates m0 n (mb_update_account m a (mb_read_account m0 a) current)"
| code: "block_updates m0 n m \<Longrightarrow> block_updates m0 n (mb_update_account_code m a i h c)"
| storage: "block_updates m0 n m \<Longrightarrow> block_updates m0 n (mb_update_storage m a i l (mb_read_storage m0 a i l) v)"

definition changes_account :: "memory_buffer \<Rightarrow> u64 \<Rightarrow> address \<Rightarrow> account option option" where
  "changes_account m n a = ensure Map.empty (mb_account_changes m n) a"

definition changes_storage :: "memory_buffer \<Rightarrow> u64 \<Rightarrow> address \<Rightarrow> u64 \<Rightarrow> bytes32 \<Rightarrow> bytes32 option" where
  "changes_storage m n a i l = storage_at (ensure Map.empty (mb_storage_changes m n)) a i l"

lemma update_account_fields:
  "mb_accounts (mb_update_account m a old c) b = (if b = a then c else mb_accounts m b)"
  "mb_storage (mb_update_account m a old c) = mb_storage m"
  "mb_block_number (mb_update_account m a old c) = mb_block_number m"
  "changes_account (mb_update_account m a old c) (mb_block_number m) b =
     (if b = a then Some old else changes_account m (mb_block_number m) b)"
  "changes_storage (mb_update_account m a old c) n b i l = changes_storage m n b i l"
  by (simp_all add: mb_update_account_def Let_def changes_account_def changes_storage_def ensure_def split: option.split)

lemma update_storage_fields:
  "mb_accounts (mb_update_storage m a i l old v) = mb_accounts m"
  "storage_at (mb_storage (mb_update_storage m a i l old v)) b j =
     (if b = a \<and> j = i then (storage_at (mb_storage m) a i)(l := if v = 0 then None else Some v)
      else storage_at (mb_storage m) b j)"
  "mb_block_number (mb_update_storage m a i l old v) = mb_block_number m"
  "changes_account (mb_update_storage m a i l old v) n b = changes_account m n b"
  "changes_storage (mb_update_storage m a i l old v) (mb_block_number m) b j k =
     (if b = a \<and> j = i \<and> k = l then Some old else changes_storage m (mb_block_number m) b j k)"
  by (simp_all add: mb_update_storage_def Let_def changes_account_def changes_storage_def storage_at_put ensure_def)

text \<open>The invariant: what was changed is recorded with its initial value, what is not recorded is unchanged.\<close>

definition changes_sound :: "memory_buffer \<Rightarrow> u64 \<Rightarrow> memory_buffer \<Rightarrow> bool" where
  "changes_sound m0 n m \<longleftrightarrow> mb_block_number m = n \<and>
     (\<forall>a. changes_account m n a = None \<and> mb_accounts m a = mb_accounts m0 a \<or>
          changes_account m n a = Some (mb_accounts m0 a)) \<and>
     (\<forall>a i l. changes_storage m n a i l = None \<and> mb_read_storage m a i l = mb_read_storage m0 a i l \<or>
          changes_storage m n a i l = Some (mb_read_storage m0 a i l))"

lemma block_updates_sound: "block_updates m0 n m \<Longrightarrow> changes_sound m0 n m"
proof (induction rule: block_updates.induct)
  case start
  then show ?case
    by (simp add: changes_sound_def mb_begin_block_def changes_account_def changes_storage_def ensure_def storage_at_def
        mb_read_storage_eq)
next
  case (account m a current)
  then have n: "n = mb_block_number m" by (simp add: changes_sound_def)
  with account show ?case
    by (auto simp: changes_sound_def update_account_fields mb_read_account_def mb_read_storage_eq)
next
  case (code m a i h c)
  then show ?case
    by (simp add: changes_sound_def mb_update_account_code_def changes_account_def changes_storage_def mb_read_storage_eq)
next
  case (storage m a i l v)
  then have n: "n = mb_block_number m" by (simp add: changes_sound_def)
  with storage show ?case
    by (auto simp: changes_sound_def update_storage_fields mb_read_storage_eq)
qed

lemma unwind_account:
  "mb_read_account (mb_unwind_state_changes m n) a = (case changes_account m n a of None \<Rightarrow> mb_accounts m a | Some x \<Rightarrow> x)"
  by (simp add: mb_unwind_state_changes_def Let_def mb_read_account_def changes_account_def)

lemma unwind_storage_at:
  "storage_at (mb_storage (mb_unwind_state_changes m n)) a i l =
     (case changes_storage m n a i l of
        None \<Rightarrow> storage_at (mb_storage m) a i l
      | Some v \<Rightarrow> if v = 0 then None else Some v)"
proof -
  let ?scs = "ensure Map.empty (mb_storage_changes m n)"
  have [simp]: "ensure d (Some x) = x" "ensure d None = d" for d x
    by (simp_all add: ensure_def)
  show ?thesis
  proof (cases "?scs a")
    case None
    then show ?thesis
      by (simp add: changes_storage_def mb_unwind_state_changes_def Let_def storage_at_def)
  next
    case (Some s1)
    then show ?thesis
      by (cases "s1 i") (simp_all add: changes_storage_def mb_unwind_state_changes_def Let_def storage_at_def)
  qed
qed

lemma unwind_storage:
  "mb_read_storage (mb_unwind_state_changes m n) a i l =
     (case changes_storage m n a i l of None \<Rightarrow> mb_read_storage m a i l | Some v \<Rightarrow> v)"
  by (simp add: mb_read_storage_eq unwind_storage_at ensure_def split: option.split)

text \<open>
  C26.  Unwinding a block of the memory buffer restores every account and every storage value of the
  state before the block, whatever was updated in between, in any order and any number of times, as
  long as each update was told the value at the beginning of the block.  (The record of previous
  incarnations and the code are not part of the change sets and stay as they are.)
\<close>

theorem unwind_restores:
  assumes "block_updates m0 n m"
  shows "mb_read_account (mb_unwind_state_changes m n) a = mb_read_account m0 a \<and>
    mb_read_storage (mb_unwind_state_changes m n) a i l = mb_read_storage m0 a i l"
proof -
  have "changes_account m n a = None \<and> mb_accounts m a = mb_accounts m0 a \<or>
      changes_account m n a = Some (mb_accounts m0 a)"
    "changes_storage m n a i l = None \<and> mb_read_storage m a i l = mb_read_storage m0 a i l \<or>
      changes_storage m n a i l = Some (mb_read_storage m0 a i l)"
    using block_updates_sound [OF assms] by (simp_all add: changes_sound_def)
  then show ?thesis
    by (elim disjE conjE; simp add: unwind_account unwind_storage mb_read_account_def [of m0])
qed

theorem unwind_restores_witness:
  "let m0 = new_memory_buffer\<lparr>mb_accounts := [5 \<mapsto> new_account]\<rparr>;
       m = mb_update_storage (mb_update_account (mb_begin_block m0 3) 5 (Some new_account) None) 5 1 2 0 7
   in mb_read_account m 5 = None \<and> mb_read_storage m 5 1 2 = 7 \<and>
      mb_read_account (mb_unwind_state_changes m 3) 5 = Some new_account \<and>
      mb_read_storage (mb_unwind_state_changes m 3) 5 1 2 = 0"
proof -
  let ?before = "new_memory_buffer\<lparr>mb_accounts := [5 \<mapsto> new_account]\<rparr>"
  let ?after = "mb_update_storage (mb_update_account (mb_begin_block ?before 3) 5 (Some new_account) None) 5 1 2 0 7"
  have before: "mb_read_account ?before 5 = Some new_account" "mb_read_storage ?before 5 1 2 = 0"
    by (simp_all add: mb_read_account_def mb_read_storage_def new_memory_buffer_def)
  have "block_updates ?before 3 ?after"
    using block_updates.storage [OF block_updates.account [OF block_updates.start [of ?before 3], of 5 None], of 5 1 2 7]
    by (simp add: before)
  moreover have "mb_read_account ?after 5 = None" "mb_read_storage ?after 5 1 2 = 7"
    by (simp_all add: mb_read_account_def mb_read_storage_eq mb_update_storage_def mb_update_account_def Let_def
        storage_at_put ensure_def)
  ultimately show ?thesis
    using unwind_restores [of ?before 3 ?after 5 1 2] by (simp add: Let_def before)
qed

text \<open>
   \<open>previous_incarnation\<close> does not keep the previous non-zero incarnation that buffer.hpp promises: when an
  externally owned account (incarnation 0) at the address of a destructed contract is deleted, the
  recorded incarnation of the contract is overwritten with 0, so that the next contract created there
  gets an incarnation that was in use before.
\<close>

theorem previous_incarnation_lost:
  "mb_previous_incarnation m a = 1 \<Longrightarrow>
   mb_previous_incarnation (mb_update_account m a (Some (new_account\<lparr>acc_incarnation := 0\<rparr>)) None) a = 0"
  by (simp add: mb_update_account_def mb_previous_incarnation_def Let_def new_account_def)

theorem previous_incarnation_lost_witness:
  "mb_previous_incarnation (mb_update_account (new_memory_buffer\<lparr>mb_prev_incarnations := [7 \<mapsto> 1]\<rparr>) 7
     (Some (new_account\<lparr>acc_incarnation := 0\<rparr>)) None) 7 = 0"
  by (rule previous_incarnation_lost) (simp add: mb_previous_incarnation_def)

end
