(* ===== verification/Intra_Block_State.thy ===== *)
theory Intra_Block_State
  imports Memory_Buffer
begin

text \<open>
  core/silkworm/state/intra_block_state.hpp and intra_block_state.cpp, object.hpp, delta.hpp and delta.cpp:
  the state of the accounts while the transactions of a block are executed, with a journal of deltas
  that undoes changes back to a snapshot.

  \<open>get_object\<close> and \<open>get_storage\<close> are const in C++ and fill mutable caches; they are functions to a value
  and a changed state.  Hash maps are partial functions, hash sets are sets; the two loops whose
  order matters to the database behind the state (\<open>write_to_db\<close>) take the order as lists.
\<close>

section \<open>State\<close>

record ibs_object =
  obj_initial :: "account option"
  obj_current :: "account option"

record committed_value =
  cv_initial :: bytes32
  cv_original :: bytes32

record ibs_storage =
  st_committed :: "bytes32 \<rightharpoonup> committed_value"
  st_current :: "bytes32 \<rightharpoonup> bytes32"

definition new_object :: ibs_object where
  "new_object = \<lparr>obj_initial = None, obj_current = None\<rparr>"

definition new_committed :: committed_value where
  "new_committed = \<lparr>cv_initial = 0, cv_original = 0\<rparr>"

definition new_storage :: ibs_storage where
  "new_storage = \<lparr>st_committed = Map.empty, st_current = Map.empty\<rparr>"

datatype delta =
  CreateDelta address
| UpdateDelta address ibs_object
| SuicideDelta address
| TouchDelta address
| StorageChangeDelta address bytes32 bytes32
| StorageWipeDelta address ibs_storage
| StorageCreateDelta address
| StorageAccessDelta address bytes32
| AccountAccessDelta address

record 'b ibs =
  ibs_db :: 'b
  objects :: "address \<rightharpoonup> ibs_object"
  storage :: "address \<rightharpoonup> ibs_storage"
  code :: "bytes32 \<rightharpoonup> bytes"
  journal :: "delta list"
  self_destructs :: "address set"
  logs :: "log list"
  touched :: "address set"
  refund :: u64
  accessed_addresses :: "address set"
  accessed_storage_keys :: "address \<rightharpoonup> bytes32 set"

definition new_ibs :: "'b \<Rightarrow> 'b ibs" where
  "new_ibs db =
     \<lparr>ibs_db = db, objects = Map.empty, storage = Map.empty, code = Map.empty, journal = [], self_destructs = {},
      logs = [], touched = {}, refund = 0, accessed_addresses = {}, accessed_storage_keys = Map.empty\<rparr>"

definition emplace :: "delta \<Rightarrow> 'b ibs \<Rightarrow> 'b ibs" where
  "emplace d s = s\<lparr>journal := journal s @ [d]\<rparr>"

section \<open>Deltas\<close>

definition storage_of :: "'b ibs \<Rightarrow> address \<Rightarrow> ibs_storage" where
  "storage_of s address = ensure new_storage (storage s address)"

definition keys_of :: "'b ibs \<Rightarrow> address \<Rightarrow> bytes32 set" where
  "keys_of s address = ensure {} (accessed_storage_keys s address)"

fun delta_revert :: "delta \<Rightarrow> 'b ibs \<Rightarrow> 'b ibs" where
  "delta_revert (CreateDelta a) s = s\<lparr>objects := (objects s)(a := None)\<rparr>"
| "delta_revert (UpdateDelta a previous) s = s\<lparr>objects := (objects s)(a \<mapsto> previous)\<rparr>"
| "delta_revert (SuicideDelta a) s = s\<lparr>self_destructs := self_destructs s - {a}\<rparr>"
| "delta_revert (TouchDelta a) s = s\<lparr>touched := touched s - {a}\<rparr>"
| "delta_revert (StorageChangeDelta a key previous) s =
     s\<lparr>storage := (storage s)(a \<mapsto> (storage_of s a)\<lparr>st_current := (st_current (storage_of s a))(key \<mapsto> previous)\<rparr>)\<rparr>"
| "delta_revert (StorageWipeDelta a st) s = s\<lparr>storage := (storage s)(a \<mapsto> st)\<rparr>"
| "delta_revert (StorageCreateDelta a) s = s\<lparr>storage := (storage s)(a := None)\<rparr>"
| "delta_revert (StorageAccessDelta a key) s =
     s\<lparr>accessed_storage_keys := (accessed_storage_keys s)(a \<mapsto> keys_of s a - {key})\<rparr>"
| "delta_revert (AccountAccessDelta a) s = s\<lparr>accessed_addresses := accessed_addresses s - {a}\<rparr>"

section \<open>Objects\<close>

text \<open>The result is the object, which is in \<open>objects\<close> when there is one.\<close>

definition get_object :: "'b buffer_ops \<Rightarrow> 'b ibs \<Rightarrow> address \<Rightarrow> ibs_object option \<times> 'b ibs" where
  "get_object V s address =
     (case objects s address of
        Some obj \<Rightarrow> (Some obj, s)
      | None \<Rightarrow>
          (case read_account V (ibs_db s) address of
             None \<Rightarrow> (None, s)
           | Some account \<Rightarrow>
               let obj = \<lparr>obj_initial = Some account, obj_current = Some account\<rparr>
               in (Some obj, s\<lparr>objects := (objects s)(address \<mapsto> obj)\<rparr>)))"

definition get_or_create_object :: "'b buffer_ops \<Rightarrow> 'b ibs \<Rightarrow> address \<Rightarrow> ibs_object \<times> 'b ibs" where
  "get_or_create_object V s address =
     (case get_object V s address of
        (None, s) \<Rightarrow>
          let s = emplace (CreateDelta address) s;
              obj = (ensure new_object (objects s address))\<lparr>obj_current := Some new_account\<rparr>
          in (obj, s\<lparr>objects := (objects s)(address \<mapsto> obj)\<rparr>)
      | (Some obj, s) \<Rightarrow>
          if obj_current obj = None then
            let s = emplace (UpdateDelta address obj) s;
                obj = obj\<lparr>obj_current := Some new_account\<rparr>
            in (obj, s\<lparr>objects := (objects s)(address \<mapsto> obj)\<rparr>)
          else (obj, s))"

definition exists_account :: "'b buffer_ops \<Rightarrow> 'b ibs \<Rightarrow> address \<Rightarrow> bool \<times> 'b ibs" where
  "exists_account V s address =
     (case get_object V s address of (obj, s) \<Rightarrow> (obj \<noteq> None \<and> obj_current (the obj) \<noteq> None, s))"

text \<open>The account that a client sees: \<open>obj && obj->current ? ... : ...\<close>.\<close>

definition get_current :: "'b buffer_ops \<Rightarrow> 'b ibs \<Rightarrow> address \<Rightarrow> account option \<times> 'b ibs" where
  "get_current V s address =
     (case get_object V s address of
        (None, s) \<Rightarrow> (None, s)
      | (Some obj, s) \<Rightarrow> (obj_current obj, s))"

definition is_dead :: "'b buffer_ops \<Rightarrow> 'b ibs \<Rightarrow> address \<Rightarrow> bool \<times> 'b ibs" where
  "is_dead V s address =
     (case get_current V s address of
        (None, s) \<Rightarrow> (True, s)
      | (Some a, s) \<Rightarrow> (acc_code_hash a = kEmptyHash \<and> acc_nonce a = 0 \<and> acc_balance a = 0, s))"

definition create_contract :: "'b buffer_ops \<Rightarrow> 'b ibs \<Rightarrow> address \<Rightarrow> 'b ibs" where
  "create_contract V s address =
     (let created = \<lparr>obj_initial = None, obj_current = Some new_account\<rparr>;
          (prev, s) = get_object V s address;
          (created, prev_incarnation, s) =
            (case prev of
               Some p \<Rightarrow>
                 let created = created\<lparr>obj_initial := obj_initial p\<rparr>;
                     (created, prev_incarnation) =
                       (case obj_current p of
                          Some c \<Rightarrow> (created\<lparr>obj_current := Some (new_account\<lparr>acc_balance := acc_balance c\<rparr>)\<rparr>,
                                     Some (acc_incarnation c))
                        | None \<Rightarrow> (case obj_initial p of
                                     Some i \<Rightarrow> (created, Some (acc_incarnation i))
                                   | None \<Rightarrow> (created, None)))
                 in (created, prev_incarnation, emplace (UpdateDelta address p) s)
             | None \<Rightarrow> (created, None, emplace (CreateDelta address) s));
          prev_incarnation =
            (case prev_incarnation of
               None \<Rightarrow> previous_incarnation V (ibs_db s) address
             | Some i \<Rightarrow> if i = 0 then previous_incarnation V (ibs_db s) address else i);
          created = created\<lparr>obj_current :=
            map_option (\<lambda>c. c\<lparr>acc_incarnation := prev_incarnation + 1\<rparr>) (obj_current created)\<rparr>;
          s = s\<lparr>objects := (objects s)(address \<mapsto> created)\<rparr>
      in case storage s address of
           None \<Rightarrow> emplace (StorageCreateDelta address) s
         | Some st \<Rightarrow>
             let s = emplace (StorageWipeDelta address st) s
             in s\<lparr>storage := (storage s)(address := None)\<rparr>)"

definition kRipemdAddress :: address where
  "kRipemdAddress = 3"

definition touch :: "address \<Rightarrow> 'b ibs \<Rightarrow> 'b ibs" where
  "touch address s =
     (let inserted = (address \<notin> touched s);
          s = s\<lparr>touched := insert address (touched s)\<rparr>
      in if inserted \<and> address \<noteq> kRipemdAddress then emplace (TouchDelta address) s else s)"

definition record_suicide :: "address \<Rightarrow> 'b ibs \<Rightarrow> 'b ibs" where
  "record_suicide address s =
     (let inserted = (address \<notin> self_destructs s);
          s = s\<lparr>self_destructs := insert address (self_destructs s)\<rparr>
      in if inserted then emplace (SuicideDelta address) s else s)"

definition destruct :: "'b buffer_ops \<Rightarrow> 'b ibs \<Rightarrow> address \<Rightarrow> 'b ibs" where
  "destruct V s address =
     (let s = s\<lparr>storage := (storage s)(address := None)\<rparr>
      in case get_object V s address of
           (None, s) \<Rightarrow> s
         | (Some obj, s) \<Rightarrow> s\<lparr>objects := (objects s)(address \<mapsto> obj\<lparr>obj_current := None\<rparr>)\<rparr>)"

text \<open>The two loops over hash sets take the elements in the order in which they are visited.\<close>

definition destruct_suicides :: "'b buffer_ops \<Rightarrow> address list \<Rightarrow> 'b ibs \<Rightarrow> 'b ibs" where
  "destruct_suicides V suicides s = foldl (destruct V) s suicides"

definition destruct_touched_dead :: "'b buffer_ops \<Rightarrow> address list \<Rightarrow> 'b ibs \<Rightarrow> 'b ibs" where
  "destruct_touched_dead V touched_list s =
     foldl (\<lambda>s address. case is_dead V s address of (dead, s) \<Rightarrow> if dead then destruct V s address else s)
       s touched_list"

definition number_of_self_destructs :: "'b ibs \<Rightarrow> nat" where
  "number_of_self_destructs s = card (self_destructs s)"

section \<open>Balances, nonces and code\<close>

definition get_balance :: "'b buffer_ops \<Rightarrow> 'b ibs \<Rightarrow> address \<Rightarrow> u256 \<times> 'b ibs" where
  "get_balance V s address =
     (case get_current V s address of (c, s) \<Rightarrow> (case c of Some a \<Rightarrow> acc_balance a | None \<Rightarrow> 0, s))"

text \<open>
  The common part of the setters: the object is found or created, its previous value goes to the journal
  and its current account is changed.
\<close>

definition update_current ::
    "'b buffer_ops \<Rightarrow> (account \<Rightarrow> account) \<Rightarrow> 'b ibs \<Rightarrow> address \<Rightarrow> 'b ibs" where
  "update_current V f s address =
     (case get_or_create_object V s address of
        (obj, s) \<Rightarrow>
          let s = emplace (UpdateDelta address obj) s
          in s\<lparr>objects := (objects s)(address \<mapsto> obj\<lparr>obj_current := map_option f (obj_current obj)\<rparr>)\<rparr>)"

definition set_balance :: "'b buffer_ops \<Rightarrow> 'b ibs \<Rightarrow> address \<Rightarrow> u256 \<Rightarrow> 'b ibs" where
  "set_balance V s address value =
     touch address (update_current V (\<lambda>a. a\<lparr>acc_balance := value\<rparr>) s address)"

definition add_to_balance :: "'b buffer_ops \<Rightarrow> 'b ibs \<Rightarrow> address \<Rightarrow> u256 \<Rightarrow> 'b ibs" where
  "add_to_balance V s address addend =
     touch address (update_current V (\<lambda>a. a\<lparr>acc_balance := acc_balance a + addend\<rparr>) s address)"

definition subtract_from_balance :: "'b buffer_ops \<Rightarrow> 'b ibs \<Rightarrow> address \<Rightarrow> u256 \<Rightarrow> 'b ibs" where
  "subtract_from_balance V s address subtrahend =
     touch address (update_current V (\<lambda>a. a\<lparr>acc_balance := acc_balance a - subtrahend\<rparr>) s address)"

definition get_nonce :: "'b buffer_ops \<Rightarrow> 'b ibs \<Rightarrow> address \<Rightarrow> u64 \<times> 'b ibs" where
  "get_nonce V s address =
     (case get_current V s address of (c, s) \<Rightarrow> (case c of Some a \<Rightarrow> acc_nonce a | None \<Rightarrow> 0, s))"

definition set_nonce :: "'b buffer_ops \<Rightarrow> 'b ibs \<Rightarrow> address \<Rightarrow> u64 \<Rightarrow> 'b ibs" where
  "set_nonce V s address nonce = update_current V (\<lambda>a. a\<lparr>acc_nonce := nonce\<rparr>) s address"

definition get_code :: "'b buffer_ops \<Rightarrow> 'b ibs \<Rightarrow> address \<Rightarrow> bytes \<times> 'b ibs" where
  "get_code V s address =
     (case get_current V s address of
        (None, s) \<Rightarrow> ([], s)
      | (Some a, s) \<Rightarrow>
          if acc_code_hash a = kEmptyHash then ([], s)
          else case code s (acc_code_hash a) of
                 Some c \<Rightarrow> (c, s)
               | None \<Rightarrow>
                   let c = read_code V (ibs_db s) (acc_code_hash a)
                   in (c, s\<lparr>code := (code s)(acc_code_hash a \<mapsto> c)\<rparr>))"

definition get_code_hash :: "'b buffer_ops \<Rightarrow> 'b ibs \<Rightarrow> address \<Rightarrow> bytes32 \<times> 'b ibs" where
  "get_code_hash V s address =
     (case get_current V s address of (c, s) \<Rightarrow> (case c of Some a \<Rightarrow> acc_code_hash a | None \<Rightarrow> kEmptyHash, s))"

definition set_code :: "(bytes \<Rightarrow> bytes32) \<Rightarrow> 'b buffer_ops \<Rightarrow> 'b ibs \<Rightarrow> address \<Rightarrow> bytes \<Rightarrow> 'b ibs" where
  "set_code keccak256 V s address c =
     (let s = update_current V (\<lambda>a. a\<lparr>acc_code_hash := keccak256 c\<rparr>) s address
      in case code s (keccak256 c) of
           Some _ \<Rightarrow> s
         | None \<Rightarrow> s\<lparr>code := (code s)(keccak256 c \<mapsto> c)\<rparr>)"

section \<open>Access lists and storage\<close>

datatype evmc_access_status = EVMC_ACCESS_COLD | EVMC_ACCESS_WARM

definition access_account :: "'b ibs \<Rightarrow> address \<Rightarrow> evmc_access_status \<times> 'b ibs" where
  "access_account s address =
     (let cold_read = (address \<notin> accessed_addresses s);
          s = s\<lparr>accessed_addresses := insert address (accessed_addresses s)\<rparr>;
          s = (if cold_read then emplace (AccountAccessDelta address) s else s)
      in (if cold_read then EVMC_ACCESS_COLD else EVMC_ACCESS_WARM, s))"

definition access_storage :: "'b ibs \<Rightarrow> address \<Rightarrow> bytes32 \<Rightarrow> evmc_access_status \<times> 'b ibs" where
  "access_storage s address key =
     (let cold_read = (key \<notin> keys_of s address);
          s = s\<lparr>accessed_storage_keys := (accessed_storage_keys s)(address \<mapsto> insert key (keys_of s address))\<rparr>;
          s = (if cold_read then emplace (StorageAccessDelta address key) s else s)
      in (if cold_read then EVMC_ACCESS_COLD else EVMC_ACCESS_WARM, s))"

definition get_storage :: "'b buffer_ops \<Rightarrow> 'b ibs \<Rightarrow> address \<Rightarrow> bytes32 \<Rightarrow> bool \<Rightarrow> bytes32 \<times> 'b ibs" where
  "get_storage V s address key original =
     (case get_object V s address of
        (None, s) \<Rightarrow> (0, s)
      | (Some obj, s) \<Rightarrow>
          (case obj_current obj of
             None \<Rightarrow> (0, s)
           | Some cur \<Rightarrow>
               let st = storage_of s address;
                   s = s\<lparr>storage := (storage s)(address \<mapsto> st)\<rparr>
               in if \<not> original \<and> st_current st key \<noteq> None then (the (st_current st key), s)
                  else case st_committed st key of
                    Some v \<Rightarrow> (cv_original v, s)
                  | None \<Rightarrow>
                      let i = acc_incarnation cur
                      in if (case obj_initial obj of None \<Rightarrow> True | Some a \<Rightarrow> acc_incarnation a \<noteq> i) then (0, s)
                         else
                           let val = read_storage V (ibs_db s) address i key;
                               st = st\<lparr>st_committed := (st_committed st)(key \<mapsto> \<lparr>cv_initial = val, cv_original = val\<rparr>)\<rparr>
                           in (val, s\<lparr>storage := (storage s)(address \<mapsto> st)\<rparr>)))"

definition get_current_storage :: "'b buffer_ops \<Rightarrow> 'b ibs \<Rightarrow> address \<Rightarrow> bytes32 \<Rightarrow> bytes32 \<times> 'b ibs" where
  "get_current_storage V s address key = get_storage V s address key False"

definition get_original_storage :: "'b buffer_ops \<Rightarrow> 'b ibs \<Rightarrow> address \<Rightarrow> bytes32 \<Rightarrow> bytes32 \<times> 'b ibs" where
  "get_original_storage V s address key = get_storage V s address key True"

definition set_storage :: "'b buffer_ops \<Rightarrow> 'b ibs \<Rightarrow> address \<Rightarrow> bytes32 \<Rightarrow> bytes32 \<Rightarrow> 'b ibs" where
  "set_storage V s address key value =
     (case get_current_storage V s address key of
        (prev, s) \<Rightarrow>
          if prev = value then s
          else
            let st = storage_of s address;
                s = s\<lparr>storage := (storage s)(address \<mapsto> st\<lparr>st_current := (st_current st)(key \<mapsto> value)\<rparr>)\<rparr>
            in emplace (StorageChangeDelta address key prev) s)"

section \<open>Blocks, transactions and snapshots\<close>

text \<open>
  The order of the hash-map iterations of \<open>write_to_db\<close>: the addresses of \<open>storage\<close>, the committed keys of an
  address, the addresses of \<open>objects\<close>.
\<close>

record iteration =
  it_storage :: "address list"
  it_keys :: "address \<Rightarrow> bytes32 list"
  it_objects :: "address list"

definition write_storage :: "'b buffer_ops \<Rightarrow> 'b ibs \<Rightarrow> iteration \<Rightarrow> 'b \<Rightarrow> address \<Rightarrow> 'b" where
  "write_storage V s it db address =
     (case objects s address of
        None \<Rightarrow> db
      | Some obj \<Rightarrow>
          (case obj_current obj of
             None \<Rightarrow> db
           | Some cur \<Rightarrow>
               foldl (\<lambda>db key.
                   case st_committed (storage_of s address) key of
                     None \<Rightarrow> db
                   | Some val \<Rightarrow> update_storage V db address (acc_incarnation cur) key (cv_initial val) (cv_original val))
                 db (it_keys it address)))"

definition write_object :: "'b buffer_ops \<Rightarrow> 'b ibs \<Rightarrow> 'b \<times> (bytes32 \<rightharpoonup> bytes) \<Rightarrow> address \<Rightarrow> 'b \<times> (bytes32 \<rightharpoonup> bytes)" where
  "write_object V s = (\<lambda>(db, code) address.
     case objects s address of
       None \<Rightarrow> (db, code)
     | Some obj \<Rightarrow>
         let db = update_account V db address (obj_initial obj) (obj_current obj)
         in case obj_current obj of
              None \<Rightarrow> (db, code)
            | Some cur \<Rightarrow>
                if acc_code_hash cur \<noteq> kEmptyHash \<and>
                   (case obj_initial obj of None \<Rightarrow> True | Some i \<Rightarrow> acc_incarnation i \<noteq> acc_incarnation cur)
                then
                  let c = ensure [] (code (acc_code_hash cur))
                  in (update_account_code V db address (acc_incarnation cur) (acc_code_hash cur) c,
                      code(acc_code_hash cur \<mapsto> c))
                else (db, code))"

definition write_to_db :: "'b buffer_ops \<Rightarrow> iteration \<Rightarrow> 'b ibs \<Rightarrow> u64 \<Rightarrow> 'b ibs" where
  "write_to_db V it s block_number =
     (let db = begin_block V (ibs_db s) block_number;
          db = foldl (write_storage V s it) db (it_storage it);
          (db, code) = foldl (write_object V s) (db, code s) (it_objects it)
      in s\<lparr>ibs_db := db, code := code\<rparr>)"

record snapshot =
  snap_journal_size :: nat
  snap_log_size :: nat
  snap_refund :: u64

definition take_snapshot :: "'b ibs \<Rightarrow> snapshot" where
  "take_snapshot s =
     \<lparr>snap_journal_size = length (journal s), snap_log_size = length (logs s), snap_refund = refund s\<rparr>"

fun revert_deltas :: "delta list \<Rightarrow> 'b ibs \<Rightarrow> 'b ibs" where
  "revert_deltas [] s = s"
| "revert_deltas (d # ds) s = delta_revert d (revert_deltas ds s)"

definition revert_to_snapshot :: "snapshot \<Rightarrow> 'b ibs \<Rightarrow> 'b ibs" where
  "revert_to_snapshot snap s =
     (let s' = revert_deltas (drop (snap_journal_size snap) (journal s)) s
      in s'\<lparr>journal := take (snap_journal_size snap) (journal s),
            logs := take (snap_log_size snap) (logs s),
            refund := snap_refund snap\<rparr>)"

definition finalize_storage :: "ibs_storage \<Rightarrow> ibs_storage" where
  "finalize_storage st =
     \<lparr>st_committed = (\<lambda>key.
        case st_current st key of
          None \<Rightarrow> st_committed st key
        | Some val \<Rightarrow> Some ((ensure new_committed (st_committed st key))\<lparr>cv_original := val\<rparr>)),
      st_current = Map.empty\<rparr>"

definition finalize_transaction :: "'b ibs \<Rightarrow> 'b ibs" where
  "finalize_transaction s = s\<lparr>storage := (\<lambda>a. map_option finalize_storage (storage s a))\<rparr>"

definition clear_journal_and_substate :: "'b ibs \<Rightarrow> 'b ibs" where
  "clear_journal_and_substate s =
     s\<lparr>journal := [], self_destructs := {}, logs := [], touched := {}, refund := 0, accessed_addresses := {},
       accessed_storage_keys := Map.empty\<rparr>"

definition add_log :: "log \<Rightarrow> 'b ibs \<Rightarrow> 'b ibs" where
  "add_log l s = s\<lparr>logs := logs s @ [l]\<rparr>"

definition add_refund :: "u64 \<Rightarrow> 'b ibs \<Rightarrow> 'b ibs" where
  "add_refund addend s = s\<lparr>refund := refund s + addend\<rparr>"

definition subtract_refund :: "u64 \<Rightarrow> 'b ibs \<Rightarrow> 'b ibs" where
  "subtract_refund subtrahend s = s\<lparr>refund := refund s - subtrahend\<rparr>"

end
