(* ===== verification/Ibs_Revert.thy ===== *)
theory Ibs_Revert
  imports Intra_Block_State
begin

text \<open>
  The journal of the intra-block state: what a client of the state sees, which changes can be undone, and
  that reverting to a snapshot restores everything seen when the snapshot was taken.
\<close>

section \<open>What a client sees\<close>

definition view_object :: "'b buffer_ops \<Rightarrow> 'b ibs \<Rightarrow> address \<Rightarrow> ibs_object option" where
  "view_object V s a = fst (get_object V s a)"

definition view_account :: "'b buffer_ops \<Rightarrow> 'b ibs \<Rightarrow> address \<Rightarrow> account option" where
  "view_account V s a = fst (get_current V s a)"

definition view_storage :: "'b buffer_ops \<Rightarrow> 'b ibs \<Rightarrow> address \<Rightarrow> bytes32 \<Rightarrow> bool \<Rightarrow> bytes32" where
  "view_storage V s a k original = fst (get_storage V s a k original)"

definition db_object :: "'b buffer_ops \<Rightarrow> 'b \<Rightarrow> address \<Rightarrow> ibs_object option" where
  "db_object V db a = map_option (\<lambda>acc. \<lparr>obj_initial = Some acc, obj_current = Some acc\<rparr>) (read_account V db a)"

definition slot :: "'b buffer_ops \<Rightarrow> 'b \<Rightarrow> address \<Rightarrow> ibs_object \<Rightarrow> ibs_storage \<Rightarrow> bytes32 \<Rightarrow> bool \<Rightarrow> bytes32" where
  "slot V db a obj st k original =
     (case obj_current obj of
        None \<Rightarrow> 0
      | Some cur \<Rightarrow>
          if \<not> original \<and> st_current st k \<noteq> None then the (st_current st k)
          else case st_committed st k of
                 Some v \<Rightarrow> cv_original v
               | None \<Rightarrow>
                   if (case obj_initial obj of None \<Rightarrow> True | Some i \<Rightarrow> acc_incarnation i \<noteq> acc_incarnation cur) then 0
                   else read_storage V db a (acc_incarnation cur) k)"

lemma view_object_eq: "view_object V s a = (case objects s a of Some obj \<Rightarrow> Some obj | None \<Rightarrow> db_object V (ibs_db s) a)"
  by (simp add: view_object_def get_object_def db_object_def Let_def split: option.split)

lemma view_account_eq: "view_account V s a = Option.bind (view_object V s a) obj_current"
  by (auto simp: view_account_def get_current_def view_object_def split: option.split prod.split)

lemma get_object_snd:
  "snd (get_object V s a) =
     (if objects s a = None then s\<lparr>objects := (objects s)(a := db_object V (ibs_db s) a)\<rparr> else s)"
  by (auto simp: get_object_def db_object_def Let_def fun_upd_idem split: option.split)

lemma get_objectE:
  obtains s' where "get_object V s a = (view_object V s a, s')" "s' = snd (get_object V s a)"
  by (simp add: view_object_def)

lemma get_object_fields [simp]:
  "ibs_db (snd (get_object V s a)) = ibs_db s" "storage (snd (get_object V s a)) = storage s"
  "journal (snd (get_object V s a)) = journal s" "logs (snd (get_object V s a)) = logs s"
  "refund (snd (get_object V s a)) = refund s" "code (snd (get_object V s a)) = code s"
  "self_destructs (snd (get_object V s a)) = self_destructs s" "touched (snd (get_object V s a)) = touched s"
  "accessed_addresses (snd (get_object V s a)) = accessed_addresses s"
  "accessed_storage_keys (snd (get_object V s a)) = accessed_storage_keys s"
  by (simp_all add: get_object_snd)

lemma view_get_object [simp]: "view_object V (snd (get_object V s a)) b = view_object V s b"
  by (auto simp: get_object_snd view_object_eq split: option.split)

lemma view_storage_eq:
  "view_storage V s a k original =
     (case view_object V s a of None \<Rightarrow> 0 | Some obj \<Rightarrow> slot V (ibs_db s) a obj (storage_of s a) k original)"
proof -
  obtain s' where g: "get_object V s a = (view_object V s a, s')" and s': "s' = snd (get_object V s a)"
    by (rule get_objectE)
  then have "storage s' = storage s" "ibs_db s' = ibs_db s"
    by simp_all
  then show ?thesis
    unfolding view_storage_def get_storage_def g slot_def storage_of_def Let_def
    by (simp split: option.split)
qed

text \<open>
  Two states are the same to a client when they agree on all objects, all storage values, the
  database and the substate; the caches may differ, and so may the touch of the precompiled contract
  3, which is deliberately not journalled.
\<close>

definition same :: "'b buffer_ops \<Rightarrow> 'b ibs \<Rightarrow> 'b ibs \<Rightarrow> bool" where
  "same V s t \<longleftrightarrow>
     ibs_db s = ibs_db t \<and> view_object V s = view_object V t \<and> view_storage V s = view_storage V t \<and>
     self_destructs s = self_destructs t \<and> touched s - {kRipemdAddress} = touched t - {kRipemdAddress} \<and>
     accessed_addresses s = accessed_addresses t \<and> keys_of s = keys_of t"

lemma same_refl [simp]: "same V s s"
  by (simp add: same_def)

lemma same_sym: "same V s t \<Longrightarrow> same V t s"
  by (simp add: same_def)

lemma same_trans [trans]: "same V s t \<Longrightarrow> same V t u \<Longrightarrow> same V s u"
  by (simp add: same_def)

lemma same_get_object: "same V (snd (get_object V s a)) s"
  by (simp add: same_def fun_eq_iff view_storage_eq storage_of_def keys_of_def split: option.split)

section \<open>Undoing\<close>

lemma revert_deltas_append: "revert_deltas (es @ fs) s = revert_deltas es (revert_deltas fs s)"
  by (induction es) simp_all

text \<open>
  A change is revertible when it only appends deltas to the journal, and undoing these leads from
  any state that looks like the new one to a state that looks like the old one; the logs may only grow.
\<close>

definition revertible :: "'b buffer_ops \<Rightarrow> 'b ibs \<Rightarrow> 'b ibs \<Rightarrow> bool" where
  "revertible V s t \<longleftrightarrow>
     (\<exists>es. journal t = journal s @ es \<and> (\<forall>u. same V u t \<longrightarrow> same V (revert_deltas es u) s)) \<and>
     (\<exists>ls. logs t = logs s @ ls)"

lemma revertible_trans [trans]:
  assumes "revertible V s t" "revertible V t w"
  shows "revertible V s w"
proof -
  obtain es fs where e: "journal t = journal s @ es" "\<And>u. same V u t \<Longrightarrow> same V (revert_deltas es u) s"
    and f: "journal w = journal t @ fs" "\<And>u. same V u w \<Longrightarrow> same V (revert_deltas fs u) t"
    using assms by (auto simp: revertible_def)
  then have "journal w = journal s @ (es @ fs)" "\<And>u. same V u w \<Longrightarrow> same V (revert_deltas (es @ fs) u) s"
    by (simp_all add: revert_deltas_append)
  then show ?thesis
    using assms unfolding revertible_def by (metis append.assoc)
qed

lemma revertible_same:
  "same V t s \<Longrightarrow> journal t = journal s \<Longrightarrow> logs t = logs s \<Longrightarrow> revertible V s t"
  unfolding revertible_def by (metis append_Nil2 revert_deltas.simps(1) same_trans)

lemma revertible_refl [simp]: "revertible V s s"
  by (simp add: revertible_same)

lemma revertible_get_object: "revertible V s (snd (get_object V s a))"
  by (simp add: revertible_same same_get_object)

lemma revertibleI:
  assumes "journal t = journal s @ es" "logs t = logs s"
    and "\<And>u. same V u t \<Longrightarrow> same V (revert_deltas es u) s"
  shows "revertible V s t"
  using assms unfolding revertible_def by (metis append_Nil2)

text \<open>The record update of one component, as a client sees it.\<close>

lemma view_put_object:
  "view_object V (s\<lparr>objects := (objects s)(a := x)\<rparr>) b =
     (if b = a then (case x of Some obj \<Rightarrow> Some obj | None \<Rightarrow> db_object V (ibs_db s) a) else view_object V s b)"
  by (simp add: view_object_eq split: option.split)

lemma view_emplace [simp]: "view_object V (emplace d s) a = view_object V s a"
  by (simp add: view_object_eq emplace_def split: option.split)

lemma emplace_fields [simp]:
  "ibs_db (emplace d s) = ibs_db s" "storage (emplace d s) = storage s" "objects (emplace d s) = objects s"
  "journal (emplace d s) = journal s @ [d]" "logs (emplace d s) = logs s" "refund (emplace d s) = refund s"
  "code (emplace d s) = code s" "self_destructs (emplace d s) = self_destructs s" "touched (emplace d s) = touched s"
  "accessed_addresses (emplace d s) = accessed_addresses s"
  "accessed_storage_keys (emplace d s) = accessed_storage_keys s"
  by (simp_all add: emplace_def)

lemma emplace_commute [simp]:
  "(emplace d s)\<lparr>objects := x\<rparr> = emplace d (s\<lparr>objects := x\<rparr>)"
  "(emplace d s)\<lparr>storage := y\<rparr> = emplace d (s\<lparr>storage := y\<rparr>)"
  by (simp_all add: emplace_def)

lemma map_of_fields [simp]:
  "storage_of (emplace d s) = storage_of s" "keys_of (emplace d s) = keys_of s"
  "storage_of (s\<lparr>objects := x\<rparr>) = storage_of s" "keys_of (s\<lparr>objects := x\<rparr>) = keys_of s"
  "keys_of (s\<lparr>storage := y\<rparr>) = keys_of s"
  by (simp_all add: storage_of_def keys_of_def fun_eq_iff)

lemma view_object_storage [simp]: "view_object V (s\<lparr>storage := y\<rparr>) a = view_object V s a"
  by (simp add: view_object_eq split: option.split)

lemma view_storage_emplace [simp]: "view_storage V (emplace d s) = view_storage V s"
  by (simp add: view_storage_eq fun_eq_iff split: option.split)

lemma view_storage_put_object: "b \<noteq> a \<Longrightarrow> view_storage V (s\<lparr>objects := (objects s)(a := x)\<rparr>) b k og = view_storage V s b k og"
  by (simp add: view_storage_eq view_put_object split: option.split)

text \<open>The slot of an object depends on its accounts only through their incarnations.\<close>

definition same_slots :: "ibs_object \<Rightarrow> ibs_object \<Rightarrow> bool" where
  "same_slots obj obj' \<longleftrightarrow>
     obj_current obj = None \<or>
     (\<exists>cur cur'. obj_current obj = Some cur \<and> obj_current obj' = Some cur' \<and> acc_incarnation cur = acc_incarnation cur' \<and>
        map_option acc_incarnation (obj_initial obj) = map_option acc_incarnation (obj_initial obj'))"

lemma slot_cong:
  assumes "same_slots obj obj'" "slot V db a obj' st k original = slot V db a obj' st' k original"
  shows "slot V db a obj st k original = slot V db a obj st' k original"
proof (cases "obj_current obj")
  case None
  then show ?thesis by (simp add: slot_def)
next
  case (Some cur)
  then have "slot V db a obj st k original = slot V db a obj' st k original" for st
    using assms(1) by (auto simp: same_slots_def slot_def split: option.split)
  then show ?thesis using assms(2) by simp
qed

lemma same_storage_slot:
  assumes "same V u t" "view_object V t a = Some obj"
  shows "slot V (ibs_db t) a obj (storage_of u a) k original = slot V (ibs_db t) a obj (storage_of t a) k original"
proof -
  have "view_storage V u a k original = view_storage V t a k original" "view_object V u a = Some obj" "ibs_db u = ibs_db t"
    using assms by (simp_all add: same_def)
  then show ?thesis using assms(2) by (simp add: view_storage_eq)
qed

lemma same_views:
  assumes "same V u t"
  shows "ibs_db u = ibs_db t" "view_object V u b = view_object V t b" "view_storage V u b k og = view_storage V t b k og"
    "self_destructs u = self_destructs t" "touched u - {kRipemdAddress} = touched t - {kRipemdAddress}"
    "accessed_addresses u = accessed_addresses t" "keys_of u = keys_of t"
  using assms by (simp_all add: same_def)

text \<open>
  Undoing the change of one object: nothing else changes, and the storage values of that account are
  those of the state before.
\<close>

lemma same_put_object:
  assumes u: "same V u (emplace d (s\<lparr>objects := (objects s)(a \<mapsto> obj')\<rparr>))"
    and v: "view_object V (u\<lparr>objects := (objects u)(a := x)\<rparr>) a = view_object V s a"
    and st: "\<And>obj k og. view_object V s a = Some obj \<Longrightarrow>
      slot V (ibs_db s) a obj (storage_of u a) k og = slot V (ibs_db s) a obj (storage_of s a) k og"
  shows "same V (u\<lparr>objects := (objects u)(a := x)\<rparr>) s"
proof -
  note views = same_views [OF u, simplified]
  have db: "ibs_db u = ibs_db s"
    by (rule views)
  have "view_object V (u\<lparr>objects := (objects u)(a := x)\<rparr>) b = view_object V s b" for b
    by (cases "b = a") (simp_all add: v, simp add: view_put_object views)
  moreover have "view_storage V (u\<lparr>objects := (objects u)(a := x)\<rparr>) b k og = view_storage V s b k og" for b k og
  proof (cases "b = a")
    case True
    then show ?thesis
      using st by (simp add: view_storage_eq v db split: option.split)
  next
    case False
    then show ?thesis
      by (simp add: view_storage_put_object views)
  qed
  ultimately show ?thesis
    by (simp add: same_def fun_eq_iff views)
qed

lemma revertible_create:
  assumes "view_object V s a = None"
  shows "revertible V s (emplace (CreateDelta a) (s\<lparr>objects := (objects s)(a \<mapsto> obj)\<rparr>))"
    (is "revertible V s ?t")
proof (rule revertibleI [where es = "[CreateDelta a]"])
  fix u assume u: "same V u ?t"
  have "db_object V (ibs_db s) a = None"
    using assms by (simp add: view_object_eq split: option.splits)
  then have "view_object V (u\<lparr>objects := (objects u)(a := None)\<rparr>) a = view_object V s a"
    using same_views(1) [OF u] assms by (simp add: view_put_object)
  then have "same V (u\<lparr>objects := (objects u)(a := None)\<rparr>) s"
    by (rule same_put_object [OF u]) (simp add: assms)
  then show "same V (revert_deltas [CreateDelta a] u) s"
    by simp
qed simp_all

lemma revertible_update:
  assumes "view_object V s a = Some obj" "same_slots obj obj'"
  shows "revertible V s (emplace (UpdateDelta a obj) (s\<lparr>objects := (objects s)(a \<mapsto> obj')\<rparr>))"
    (is "revertible V s ?t")
proof (rule revertibleI [where es = "[UpdateDelta a obj]"])
  fix u assume u: "same V u ?t"
  have "view_object V ?t a = Some obj'"
    by (simp add: view_put_object)
  then have "slot V (ibs_db s) a obj' (storage_of u a) k og = slot V (ibs_db s) a obj' (storage_of s a) k og" for k og
    using same_storage_slot [OF u] by simp
  then have "slot V (ibs_db s) a obj (storage_of u a) k og = slot V (ibs_db s) a obj (storage_of s a) k og" for k og
    by (rule slot_cong [OF assms(2)])
  then have "same V (u\<lparr>objects := (objects u)(a := Some obj)\<rparr>) s"
    by (intro same_put_object [OF u]) (simp_all add: view_put_object assms)
  then show "same V (revert_deltas [UpdateDelta a obj] u) s"
    by simp
qed simp_all


lemma slot_put_current:
  "slot V db a obj (st\<lparr>st_current := (st_current st)(k \<mapsto> v)\<rparr>) k' og =
     (if k' = k \<and> \<not> og \<and> obj_current obj \<noteq> None then v else slot V db a obj st k' og)"
  by (auto simp: slot_def split: option.split)

lemma storage_of_put [simp]:
  "storage_of (s\<lparr>storage := (storage s)(a \<mapsto> st)\<rparr>) b = (if b = a then st else storage_of s b)"
  by (simp add: storage_of_def ensure_def)

lemma revertible_storage_change:
  assumes prev: "prev = view_storage V s a k False"
  shows "revertible V s (emplace (StorageChangeDelta a k prev)
    (s\<lparr>storage := (storage s)(a \<mapsto> (storage_of s a)\<lparr>st_current := (st_current (storage_of s a))(k \<mapsto> v)\<rparr>)\<rparr>))"
    (is "revertible V s ?t")
proof (rule revertibleI [where es = "[StorageChangeDelta a k prev]"])
  fix u assume u: "same V u ?t"
  note views = same_views [OF u, simplified]
  let ?u = "u\<lparr>storage := (storage u)(a \<mapsto> (storage_of u a)\<lparr>st_current := (st_current (storage_of u a))(k \<mapsto> prev)\<rparr>)\<rparr>"
  have "view_storage V ?u b k' og = view_storage V s b k' og" for b k' og
  proof (cases "b = a \<and> k' = k \<and> \<not> og")
    case True
    then show ?thesis
      using views(1,2) prev
      by (auto simp: view_storage_eq slot_put_current slot_def split: option.split)
  next
    case False
    have "view_storage V ?u b k' og = view_storage V u b k' og"
      using False by (auto simp: view_storage_eq slot_put_current split: option.split)
    also have "\<dots> = view_storage V ?t b k' og"
      by (rule same_views(3) [OF u])
    also have "\<dots> = view_storage V s b k' og"
      using False by (auto simp: view_storage_eq slot_put_current split: option.split)
    finally show ?thesis .
  qed
  then show "same V (revert_deltas [StorageChangeDelta a k prev] u) s"
    by (simp add: same_def fun_eq_iff views)
qed simp_all

lemma view_substate [simp]:
  "view_object V (s\<lparr>touched := x\<rparr>) = view_object V s" "view_object V (s\<lparr>self_destructs := x\<rparr>) = view_object V s"
  "view_object V (s\<lparr>accessed_addresses := x\<rparr>) = view_object V s"
  "view_object V (s\<lparr>accessed_storage_keys := y\<rparr>) = view_object V s"
  "view_object V (s\<lparr>logs := l\<rparr>) = view_object V s" "view_object V (s\<lparr>refund := r\<rparr>) = view_object V s"
  "view_object V (s\<lparr>code := c\<rparr>) = view_object V s" "view_object V (s\<lparr>journal := j\<rparr>) = view_object V s"
  by (simp_all add: view_object_eq fun_eq_iff split: option.split)

lemma view_storage_substate [simp]:
  "view_storage V (s\<lparr>touched := x\<rparr>) = view_storage V s" "view_storage V (s\<lparr>self_destructs := x\<rparr>) = view_storage V s"
  "view_storage V (s\<lparr>accessed_addresses := x\<rparr>) = view_storage V s"
  "view_storage V (s\<lparr>accessed_storage_keys := y\<rparr>) = view_storage V s"
  "view_storage V (s\<lparr>logs := l\<rparr>) = view_storage V s" "view_storage V (s\<lparr>refund := r\<rparr>) = view_storage V s"
  "view_storage V (s\<lparr>code := c\<rparr>) = view_storage V s" "view_storage V (s\<lparr>journal := j\<rparr>) = view_storage V s"
  by (simp_all add: view_storage_eq storage_of_def fun_eq_iff split: option.split)

lemma keys_of_substate [simp]:
  "keys_of (s\<lparr>touched := x\<rparr>) = keys_of s" "keys_of (s\<lparr>self_destructs := x\<rparr>) = keys_of s"
  "keys_of (s\<lparr>accessed_addresses := x\<rparr>) = keys_of s" "keys_of (s\<lparr>logs := l\<rparr>) = keys_of s"
  "keys_of (s\<lparr>refund := r\<rparr>) = keys_of s" "keys_of (s\<lparr>code := c\<rparr>) = keys_of s" "keys_of (s\<lparr>journal := j\<rparr>) = keys_of s"
  "keys_of (s\<lparr>accessed_storage_keys := (accessed_storage_keys s)(a \<mapsto> ks)\<rparr>) b = (if b = a then ks else keys_of s b)"
  by (simp_all add: keys_of_def ensure_def fun_eq_iff)

lemma view_object_emplace_fun [simp]: "view_object V (emplace d s) = view_object V s"
  by (simp add: fun_eq_iff)

lemma revertible_touch: "revertible V s (touch a s)"
proof (cases "a \<in> touched s \<or> a = kRipemdAddress")
  case True
  then show ?thesis
    by (intro revertible_same) (auto simp: touch_def same_def Let_def insert_absorb)
next
  case False
  then show ?thesis
    by (intro revertibleI [where es = "[TouchDelta a]"]) (auto simp: touch_def same_def Let_def)
qed

lemma revertible_suicide: "revertible V s (record_suicide a s)"
proof (cases "a \<in> self_destructs s")
  case True
  then show ?thesis
    by (intro revertible_same) (auto simp: record_suicide_def same_def Let_def insert_absorb)
next
  case False
  then show ?thesis
    by (intro revertibleI [where es = "[SuicideDelta a]"]) (auto simp: record_suicide_def same_def Let_def)
qed

lemma revertible_access_account: "revertible V s (snd (access_account s a))"
proof (cases "a \<in> accessed_addresses s")
  case True
  then show ?thesis
    by (intro revertible_same) (auto simp: access_account_def same_def Let_def insert_absorb)
next
  case False
  then show ?thesis
    by (intro revertibleI [where es = "[AccountAccessDelta a]"]) (auto simp: access_account_def same_def Let_def)
qed

lemma revertible_access_storage: "revertible V s (snd (access_storage s a k))"
proof (cases "k \<in> keys_of s a")
  case True
  then show ?thesis
    by (intro revertible_same) (auto simp: access_storage_def same_def Let_def insert_absorb fun_eq_iff)
next
  case False
  then show ?thesis
    by (intro revertibleI [where es = "[StorageAccessDelta a k]"])
       (auto simp: access_storage_def same_def Let_def fun_eq_iff)
qed

section \<open>The operations are revertible\<close>

lemma get_or_create_object_correct:
  assumes "get_or_create_object V s a = (obj, s')"
  shows "view_object V s' a = Some obj \<and> obj_current obj \<noteq> None \<and> revertible V s s'"
proof -
  obtain s1 where g: "get_object V s a = (view_object V s a, s1)" and s1: "s1 = snd (get_object V s a)"
    by (rule get_objectE)
  have r: "revertible V s s1" and v1: "view_object V s1 a = view_object V s a"
    using revertible_get_object [of V s a] by (simp_all add: s1)
  show ?thesis
  proof (cases "view_object V s a")
    case None
    let ?obj = "(ensure new_object (objects s1 a))\<lparr>obj_current := Some new_account\<rparr>"
    have "revertible V s1 (emplace (CreateDelta a) (s1\<lparr>objects := (objects s1)(a \<mapsto> ?obj)\<rparr>))"
      using v1 None by (intro revertible_create) simp
    then show ?thesis
      using assms g None revertible_trans [OF r]
      by (auto simp: get_or_create_object_def Let_def view_put_object)
  next
    case (Some p)
    show ?thesis
    proof (cases "obj_current p")
      case None
      let ?obj = "p\<lparr>obj_current := Some new_account\<rparr>"
      have "revertible V s1 (emplace (UpdateDelta a p) (s1\<lparr>objects := (objects s1)(a \<mapsto> ?obj)\<rparr>))"
        using v1 Some None by (intro revertible_update) (simp_all add: same_slots_def)
      then show ?thesis
        using assms g Some None revertible_trans [OF r]
        by (auto simp: get_or_create_object_def Let_def view_put_object)
    next
      case (Some c)
      with \<open>view_object V s a = Some p\<close> show ?thesis
        using assms g r v1 by (auto simp: get_or_create_object_def)
    qed
  qed
qed

lemma revertible_update_current:
  assumes "\<And>c. acc_incarnation (f c) = acc_incarnation c"
  shows "revertible V s (update_current V f s a)"
proof -
  obtain obj s1 where g: "get_or_create_object V s a = (obj, s1)"
    by fastforce
  from get_or_create_object_correct [OF g]
  have r: "revertible V s s1" and v: "view_object V s1 a = Some obj" by simp_all
  have "same_slots obj (obj\<lparr>obj_current := map_option f (obj_current obj)\<rparr>)"
    using assms by (auto simp: same_slots_def)
  from revertible_update [OF v this] show ?thesis
    using revertible_trans [OF r] by (simp add: update_current_def g Let_def)
qed

lemma revertible_setters:
  "revertible V s (set_balance V s a v)" "revertible V s (add_to_balance V s a v)"
  "revertible V s (subtract_from_balance V s a v)" "revertible V s (set_nonce V s a n)"
  unfolding set_balance_def add_to_balance_def subtract_from_balance_def set_nonce_def
  by (auto intro!: revertible_trans [OF revertible_update_current revertible_touch] revertible_update_current)

lemma revertible_code: "revertible V s (s\<lparr>code := c\<rparr>)"
  by (intro revertible_same) (simp_all add: same_def)

lemma revertible_set_code: "revertible V s (set_code keccak256 V s a c)"
proof -
  have r: "revertible V s (update_current V (\<lambda>a. a\<lparr>acc_code_hash := keccak256 c\<rparr>) s a)"
    by (rule revertible_update_current) simp
  show ?thesis
    using r revertible_trans [OF r revertible_code]
    by (auto simp: set_code_def Let_def split: option.split)
qed

lemma revertible_get_current: "revertible V s (snd (get_current V s a))"
proof -
  obtain s1 where g: "get_object V s a = (view_object V s a, s1)" "s1 = snd (get_object V s a)"
    by (rule get_objectE)
  then have "snd (get_current V s a) = s1"
    unfolding get_current_def g(1) by (simp split: option.split)
  with g(2) show ?thesis by (simp add: revertible_get_object)
qed

lemma revertible_get_code: "revertible V s (snd (get_code V s a))"
proof -
  obtain x s1 where g: "get_current V s a = (x, s1)" by fastforce
  then have r: "revertible V s s1"
    using revertible_get_current [of V s a] by simp
  show ?thesis
    using r revertible_trans [OF r revertible_code]
    by (auto simp: get_code_def g Let_def split: option.split)
qed

lemma slot_cached:
  assumes "st_committed st k = None" "obj_current obj = Some cur" "obj_initial obj = Some i"
    "acc_incarnation i = acc_incarnation cur" "val = read_storage V db a (acc_incarnation cur) k"
  shows "slot V db a obj (st\<lparr>st_committed := (st_committed st)(k \<mapsto> \<lparr>cv_initial = val, cv_original = val\<rparr>)\<rparr>) k' og =
    slot V db a obj st k' og"
  using assms by (auto simp: slot_def split: option.split)

lemma same_put_storage:
  assumes "\<And>obj k og. view_object V s a = Some obj \<Longrightarrow>
    slot V (ibs_db s) a obj st k og = slot V (ibs_db s) a obj (storage_of s a) k og"
  shows "same V (s\<lparr>storage := (storage s)(a \<mapsto> st)\<rparr>) s"
  using assms by (auto simp: same_def fun_eq_iff view_storage_eq split: option.split)

lemma get_storage_snd: "same V (snd (get_storage V s a k og)) s \<and>
    journal (snd (get_storage V s a k og)) = journal s \<and> logs (snd (get_storage V s a k og)) = logs s"
proof -
  obtain s1 where g: "get_object V s a = (view_object V s a, s1)" and s1: "s1 = snd (get_object V s a)"
    by (rule get_objectE)
  have same1: "same V s1 s" and f: "journal s1 = journal s" "logs s1 = logs s" "storage_of s1 = storage_of s"
    "ibs_db s1 = ibs_db s" "view_object V s1 a = view_object V s a"
    using same_get_object [of V s a] by (simp_all add: s1 storage_of_def fun_eq_iff)
  let ?put = "\<lambda>st. s1\<lparr>storage := (storage s1)(a \<mapsto> st)\<rparr>"
  consider "snd (get_storage V s a k og) = s1" | "snd (get_storage V s a k og) = ?put (storage_of s1 a)"
    | st where "snd (get_storage V s a k og) = ?put st"
      "\<And>obj k og. view_object V s1 a = Some obj \<Longrightarrow>
        slot V (ibs_db s1) a obj st k og = slot V (ibs_db s1) a obj (storage_of s1 a) k og"
  proof (cases "\<exists>obj cur i. view_object V s a = Some obj \<and> obj_current obj = Some cur \<and> obj_initial obj = Some i \<and>
      acc_incarnation i = acc_incarnation cur \<and> st_committed (storage_of s1 a) k = None \<and>
      (og \<or> st_current (storage_of s1 a) k = None)")
    case True
    then obtain obj cur i where o: "view_object V s a = Some obj" "obj_current obj = Some cur" "obj_initial obj = Some i"
      "acc_incarnation i = acc_incarnation cur" "st_committed (storage_of s1 a) k = None"
      "og \<or> st_current (storage_of s1 a) k = None" by blast
    let ?val = "read_storage V (ibs_db s1) a (acc_incarnation cur) k"
    let ?st = "(storage_of s1 a)\<lparr>st_committed := (st_committed (storage_of s1 a))(k \<mapsto> \<lparr>cv_initial = ?val, cv_original = ?val\<rparr>)\<rparr>"
    have "snd (get_storage V s a k og) = ?put ?st"
      using o by (auto simp: get_storage_def g Let_def)
    moreover have "slot V (ibs_db s1) a obj' ?st k' og' = slot V (ibs_db s1) a obj' (storage_of s1 a) k' og'"
      if "view_object V s1 a = Some obj'" for obj' k' og'
      using slot_cached [OF o(5) o(2-4) refl, of V "ibs_db s1" a k' og'] o(1) f(5) that by simp
    ultimately show thesis
      by (rule that(3))
  next
    case False
    then have "snd (get_storage V s a k og) = s1 \<or> snd (get_storage V s a k og) = ?put (storage_of s1 a)"
      unfolding get_storage_def g by (auto simp: Let_def split: option.split)
    then show thesis
      using that(1,2) by blast
  qed
  then show ?thesis
    using same1 f same_put_storage [of V s1 a] by cases (auto intro: same_trans)
qed

lemma revertible_get_storage: "revertible V s (snd (get_storage V s a k og))"
  using get_storage_snd [of V s a k og] by (intro revertible_same) simp_all

lemma revertible_set_storage: "revertible V s (set_storage V s a k v)"
proof -
  obtain prev s1 where g: "get_storage V s a k False = (prev, s1)" by fastforce
  then have r: "revertible V s s1" and same1: "same V s1 s"
    using revertible_get_storage [of V s a k False] get_storage_snd [of V s a k False] by simp_all
  have "prev = view_storage V s a k False"
    using g by (simp add: view_storage_def)
  then have p: "prev = view_storage V s1 a k False"
    using same1 by (simp add: same_def)
  show ?thesis
    using r revertible_trans [OF r revertible_storage_change [OF p]]
    by (simp add: set_storage_def get_current_storage_def g Let_def)
qed


definition contract_deltas :: "'b buffer_ops \<Rightarrow> 'b ibs \<Rightarrow> address \<Rightarrow> delta list" where
  "contract_deltas V s a =
     [case view_object V s a of Some p \<Rightarrow> UpdateDelta a p | None \<Rightarrow> CreateDelta a,
      case storage s a of Some st \<Rightarrow> StorageWipeDelta a st | None \<Rightarrow> StorageCreateDelta a]"

lemma create_contract_eq:
  "\<exists>created. create_contract V s a =
     (snd (get_object V s a))\<lparr>
       objects := (objects (snd (get_object V s a)))(a \<mapsto> created),
       storage := (storage s)(a := None),
       journal := journal s @ contract_deltas V s a\<rparr>"
proof -
  obtain s1 where g: "get_object V s a = (view_object V s a, s1)" and s1: "s1 = snd (get_object V s a)"
    by (rule get_objectE)
  have f: "journal s1 = journal s" "storage s1 = storage s"
    by (simp_all add: s1)
  have idem: "storage s a = None \<Longrightarrow> (storage s)(a := None) = storage s"
    by auto
  show ?thesis
    by (rule exI [where x = "the (objects (create_contract V s a) a)"], unfold create_contract_def g contract_deltas_def,
        cases "view_object V s a"; cases "storage s a")
       (simp_all add: Let_def emplace_def f idem split: option.split)
qed

lemma revertible_create_contract: "revertible V s (create_contract V s a)"
proof -
  let ?s1 = "snd (get_object V s a)"
  obtain created where t: "create_contract V s a =
     ?s1\<lparr>objects := (objects ?s1)(a \<mapsto> created), storage := (storage s)(a := None), journal := journal s @ contract_deltas V s a\<rparr>"
    using create_contract_eq by blast
  have "revertible V ?s1 (create_contract V s a)"
  proof (rule revertibleI [where es = "contract_deltas V s a"])
    fix u assume u: "same V u (create_contract V s a)"
    let ?u = "u\<lparr>objects := (objects u)(a := view_object V s a), storage := (storage u)(a := storage s a)\<rparr>"
    have revert: "revert_deltas (contract_deltas V s a) u = ?u"
      by (simp add: contract_deltas_def split: option.split)
    note views = same_views [OF u [unfolded t], simplified]
    have "view_object V s a = None \<Longrightarrow> db_object V (ibs_db s) a = None"
      by (simp add: view_object_eq split: option.splits)
    then have v: "view_object V ?u b = view_object V s b" for b
      using views(1) views(2) [of b]
      by (cases "b = a") (auto simp: view_put_object split: option.split)
    have "view_storage V ?u b k og = view_storage V s b k og" for b k og
    proof (cases "b = a")
      case True
      then show ?thesis
        unfolding view_storage_eq v by (simp add: views(1) storage_of_def split: option.split)
    next
      case False
      have "view_storage V ?u b k og = view_storage V u b k og"
        using False by (simp add: view_storage_eq view_put_object storage_of_def split: option.split)
      also have "\<dots> = view_storage V (create_contract V s a) b k og"
        by (rule same_views(3) [OF u])
      also have "\<dots> = view_storage V s b k og"
        using False unfolding t by (simp add: view_storage_eq view_put_object storage_of_def split: option.split)
      finally show ?thesis .
    qed
    then show "same V (revert_deltas (contract_deltas V s a) u) ?s1"
      unfolding revert using v views by (simp add: same_def fun_eq_iff view_storage_eq storage_of_def keys_of_def split: option.splits)
  qed (simp_all add: t)
  with revertible_get_object show ?thesis by (rule revertible_trans)
qed


section \<open>Runs\<close>

text \<open>
  The operations a client may use between a snapshot and its revert: everything but the operations
  at the end of a transaction or of a block, which need no snapshots.
\<close>

inductive ibs_op :: "(bytes \<Rightarrow> bytes32) \<Rightarrow> 'b buffer_ops \<Rightarrow> 'b ibs \<Rightarrow> 'b ibs \<Rightarrow> bool" for keccak256 V where
  op_get_object: "ibs_op keccak256 V s (snd (get_object V s a))"
| op_create_contract: "ibs_op keccak256 V s (create_contract V s a)"
| op_record_suicide: "ibs_op keccak256 V s (record_suicide a s)"
| op_touch: "ibs_op keccak256 V s (touch a s)"
| op_set_balance: "ibs_op keccak256 V s (set_balance V s a v)"
| op_add_to_balance: "ibs_op keccak256 V s (add_to_balance V s a v)"
| op_subtract_from_balance: "ibs_op keccak256 V s (subtract_from_balance V s a v)"
| op_set_nonce: "ibs_op keccak256 V s (set_nonce V s a n)"
| op_get_code: "ibs_op keccak256 V s (snd (get_code V s a))"
| op_set_code: "ibs_op keccak256 V s (set_code keccak256 V s a c)"
| op_access_account: "ibs_op keccak256 V s (snd (access_account s a))"
| op_access_storage: "ibs_op keccak256 V s (snd (access_storage s a k))"
| op_get_storage: "ibs_op keccak256 V s (snd (get_storage V s a k og))"
| op_set_storage: "ibs_op keccak256 V s (set_storage V s a k w)"
| op_add_log: "ibs_op keccak256 V s (add_log l s)"
| op_add_refund: "ibs_op keccak256 V s (add_refund r s)"
| op_subtract_refund: "ibs_op keccak256 V s (subtract_refund r s)"

text \<open>A run is a sequence of operations, in which earlier snapshots may be reverted to, nested to any depth.\<close>

inductive ibs_run :: "(bytes \<Rightarrow> bytes32) \<Rightarrow> 'b buffer_ops \<Rightarrow> 'b ibs \<Rightarrow> 'b ibs \<Rightarrow> bool" for keccak256 V where
  run_refl: "ibs_run keccak256 V s s"
| run_op: "ibs_run keccak256 V s t \<Longrightarrow> ibs_op keccak256 V t w \<Longrightarrow> ibs_run keccak256 V s w"
| run_revert: "ibs_run keccak256 V s t \<Longrightarrow> ibs_run keccak256 V t w \<Longrightarrow>
    ibs_run keccak256 V s (revert_to_snapshot (take_snapshot t) w)"

lemma revertible_refund: "revertible V s (s\<lparr>refund := r\<rparr>)"
  by (intro revertible_same) (simp_all add: same_def)

lemma revertible_add_log: "revertible V s (add_log l s)"
  unfolding revertible_def by (auto simp: add_log_def same_def intro: exI [of _ "[]"])

lemmas revertible_ops =
  revertible_get_object revertible_create_contract revertible_suicide revertible_touch revertible_setters
  revertible_get_code revertible_set_code revertible_access_account revertible_access_storage
  revertible_get_storage revertible_set_storage revertible_add_log

lemma ibs_op_revertible: "ibs_op keccak256 V s t \<Longrightarrow> revertible V s t"
  by (induction rule: ibs_op.induct)
     (auto intro: revertible_ops revertible_refund simp: add_refund_def subtract_refund_def)

lemma revert_to_snapshot_same:
  assumes "revertible V s t"
  shows "same V (revert_to_snapshot (take_snapshot s) t) s"
    and "journal (revert_to_snapshot (take_snapshot s) t) = journal s"
    and "logs (revert_to_snapshot (take_snapshot s) t) = logs s"
    and "refund (revert_to_snapshot (take_snapshot s) t) = refund s"
proof -
  obtain es ls where es: "journal t = journal s @ es" "logs t = logs s @ ls" "same V (revert_deltas es t) s"
    using assms by (auto simp: revertible_def)
  then show "same V (revert_to_snapshot (take_snapshot s) t) s"
    by (simp add: revert_to_snapshot_def take_snapshot_def Let_def same_def)
  show "journal (revert_to_snapshot (take_snapshot s) t) = journal s"
    "logs (revert_to_snapshot (take_snapshot s) t) = logs s"
    "refund (revert_to_snapshot (take_snapshot s) t) = refund s"
    using es by (simp_all add: revert_to_snapshot_def take_snapshot_def Let_def)
qed

lemma ibs_run_revertible: "ibs_run keccak256 V s t \<Longrightarrow> revertible V s t"
proof (induction rule: ibs_run.induct)
  case (run_op s t w)
  then show ?case using ibs_op_revertible revertible_trans by blast
next
  case (run_revert s t w)
  have "revertible V t (revert_to_snapshot (take_snapshot t) w)"
    using revert_to_snapshot_same [OF run_revert.IH(2)] by (intro revertible_same)
  with run_revert.IH(1) show ?case by (rule revertible_trans)
qed simp

lemma getters_view:
  "fst (get_balance V s a) = (case view_account V s a of Some c \<Rightarrow> acc_balance c | None \<Rightarrow> 0)"
  "fst (get_nonce V s a) = (case view_account V s a of Some c \<Rightarrow> acc_nonce c | None \<Rightarrow> 0)"
  "fst (get_code_hash V s a) = (case view_account V s a of Some c \<Rightarrow> acc_code_hash c | None \<Rightarrow> kEmptyHash)"
  "fst (exists_account V s a) = (view_account V s a \<noteq> None)"
  "fst (is_dead V s a) = (case view_account V s a of
     Some c \<Rightarrow> acc_code_hash c = kEmptyHash \<and> acc_nonce c = 0 \<and> acc_balance c = 0 | None \<Rightarrow> True)"
  by (auto simp: view_account_def get_balance_def get_nonce_def get_code_hash_def exists_account_def is_dead_def
      get_current_def split: option.split prod.split)

lemma same_getters:
  assumes "same V s t"
  shows "view_account V s a = view_account V t a"
    "fst (access_account s a) = fst (access_account t a)" "fst (access_storage s a k) = fst (access_storage t a k)"
  using assms by (simp_all add: view_account_eq same_def access_account_def access_storage_def Let_def)

text \<open>
  C1.  Reverting to a snapshot restores the state.  After any sequence of operations since the snapshot,
  in which inner snapshots may have been reverted to, \<open>revert_to_snapshot\<close> gives back what every query
  answered when the snapshot was taken: existence, deadness, balance, nonce and code hash of every
  account, every current and original storage value, warm and cold addresses and keys, the
  accounts recorded for self-destruction, the logs, the refund and the journal; and the touched accounts,
  except for the precompiled contract 3, whose touch survives a revert as on the main network.
\<close>

theorem revert_to_snapshot_restores:
  assumes "ibs_run keccak256 V s t" and "w = revert_to_snapshot (take_snapshot s) t"
  shows "fst (exists_account V w a) = fst (exists_account V s a) \<and>
    fst (is_dead V w a) = fst (is_dead V s a) \<and>
    fst (get_balance V w a) = fst (get_balance V s a) \<and>
    fst (get_nonce V w a) = fst (get_nonce V s a) \<and>
    fst (get_code_hash V w a) = fst (get_code_hash V s a) \<and>
    fst (get_current_storage V w a k) = fst (get_current_storage V s a k) \<and>
    fst (get_original_storage V w a k) = fst (get_original_storage V s a k) \<and>
    fst (access_account w a) = fst (access_account s a) \<and>
    fst (access_storage w a k) = fst (access_storage s a k) \<and>
    self_destructs w = self_destructs s \<and> touched w - {kRipemdAddress} = touched s - {kRipemdAddress} \<and>
    logs w = logs s \<and> refund w = refund s \<and> journal w = journal s \<and> ibs_db w = ibs_db s"
proof -
  note r = revert_to_snapshot_same [OF ibs_run_revertible [OF assms(1)], folded assms(2)]
  have "fst (get_current_storage V w a k) = fst (get_current_storage V s a k)"
    "fst (get_original_storage V w a k) = fst (get_original_storage V s a k)"
    using same_views(3) [OF r(1), of a k]
    by (simp_all add: get_current_storage_def get_original_storage_def view_storage_def)
  then show ?thesis
    using r same_getters [OF r(1)] same_views [OF r(1)] by (simp add: getters_view)
qed

theorem revert_to_snapshot_restores_witness:
  "let V = memory_buffer_ops (\<lambda>_. 0); s = new_ibs new_memory_buffer;
       t = set_storage V (add_to_balance V (create_contract V s 5) 5 7) 5 1 2;
       w = revert_to_snapshot (take_snapshot s) t
   in fst (get_balance V t 5) = 7 \<and> fst (get_current_storage V t 5 1) = 2 \<and>
      fst (get_balance V w 5) = 0 \<and> fst (get_current_storage V w 5 1) = 0 \<and> journal w = []"
proof -
  let ?V = "memory_buffer_ops (\<lambda>_. 0)" and ?s = "new_ibs new_memory_buffer"
  let ?t = "set_storage ?V (add_to_balance ?V (create_contract ?V ?s 5) 5 7) 5 1 2"
  have run: "ibs_run (\<lambda>_. 0) ?V ?s ?t"
    by (rule run_op [OF run_op [OF run_op [OF run_refl op_create_contract] op_add_to_balance] op_set_storage])
  note defs = memory_buffer_ops_def mb_read_account_def mb_previous_incarnation_def mb_read_storage_def
    new_ibs_def new_memory_buffer_def Let_def ensure_def new_storage_def new_account_def
  have "fst (get_balance ?V ?t 5) = 7" "fst (get_current_storage ?V ?t 5 1) = 2"
    by (simp_all add: set_storage_def get_current_storage_def get_storage_def add_to_balance_def update_current_def
        get_or_create_object_def get_object_def create_contract_def get_balance_def get_current_def
        emplace_def touch_def storage_of_def kRipemdAddress_def defs)
  moreover have "fst (get_balance ?V ?s 5) = 0" "fst (get_current_storage ?V ?s 5 1) = 0" "journal ?s = []"
    by (simp_all add: get_balance_def get_current_def get_object_def get_current_storage_def get_storage_def defs)
  ultimately show ?thesis
    using revert_to_snapshot_restores [OF run refl, of 5 1] by (simp add: Let_def)
qed

section \<open>Writing to the database\<close>

text \<open>The iterations visit exactly the entries of the hash maps.\<close>

definition iterates :: "iteration \<Rightarrow> 'b ibs \<Rightarrow> bool" where
  "iterates it s \<longleftrightarrow> set (it_objects it) = dom (objects s) \<and> set (it_storage it) = dom (storage s) \<and>
     (\<forall>a. set (it_keys it a) = dom (st_committed (storage_of s a)))"

text \<open>The incarnation under which the storage of an account is written, if it is.\<close>

definition written_incarnation :: "'b ibs \<Rightarrow> address \<Rightarrow> u64 option" where
  "written_incarnation s a = Option.bind (objects s a) (\<lambda>obj. map_option acc_incarnation (obj_current obj))"

lemma ibs_db_write:
  "ibs_db (write_to_db V it s n) =
     fst (foldl (write_object V s) (foldl (write_storage V s it) (begin_block V (ibs_db s) n) (it_storage it), code s)
        (it_objects it))"
  by (simp add: write_to_db_def Let_def case_prod_beta)

lemma storage_of_None: "storage s a = None \<Longrightarrow> storage_of s a = new_storage"
  by (simp add: storage_of_def ensure_def)

text \<open>A state between transactions: no storage value is pending.\<close>

definition finalized :: "'b ibs \<Rightarrow> bool" where
  "finalized s \<longleftrightarrow> (\<forall>a. st_current (storage_of s a) = Map.empty)"

lemma finalize_transaction_finalized: "finalized (finalize_transaction s)"
  by (auto simp: finalized_def finalize_transaction_def storage_of_def ensure_def finalize_storage_def new_storage_def
      split: option.split)

context state_buffer
begin

lemma keys_fold:
  "read_storage V (foldl (\<lambda>db key. case c key of None \<Rightarrow> db
       | Some val \<Rightarrow> update_storage V db a i key (cv_initial val) (cv_original val)) db ks) b j k =
     (if b = a \<and> j = i \<and> k \<in> set ks \<and> c k \<noteq> None then cv_original (the (c k)) else read_storage V db b j k)"
  "read_account V (foldl (\<lambda>db key. case c key of None \<Rightarrow> db
       | Some val \<Rightarrow> update_storage V db a i key (cv_initial val) (cv_original val)) db ks) b = read_account V db b"
  "read_code V (foldl (\<lambda>db key. case c key of None \<Rightarrow> db
       | Some val \<Rightarrow> update_storage V db a i key (cv_initial val) (cv_original val)) db ks) h = read_code V db h"
  by (induction ks arbitrary: db) (auto simp: read_laws split: option.split)

lemma write_storage_reads:
  "read_storage V (write_storage V s it db a) b j k =
     (if b = a \<and> written_incarnation s a = Some j \<and> k \<in> set (it_keys it a) \<and> st_committed (storage_of s a) k \<noteq> None
      then cv_original (the (st_committed (storage_of s a) k)) else read_storage V db b j k)"
  "read_account V (write_storage V s it db a) b = read_account V db b"
  "read_code V (write_storage V s it db a) h = read_code V db h"
  by (auto simp: write_storage_def written_incarnation_def keys_fold split: option.split)

lemma fold_write_storage:
  "read_storage V (foldl (write_storage V s it) db as) b j k =
     (if b \<in> set as \<and> written_incarnation s b = Some j \<and> k \<in> set (it_keys it b) \<and> st_committed (storage_of s b) k \<noteq> None
      then cv_original (the (st_committed (storage_of s b) k)) else read_storage V db b j k)"
  "read_account V (foldl (write_storage V s it) db as) b = read_account V db b"
  "read_code V (foldl (write_storage V s it) db as) h = read_code V db h"
  by (induction as arbitrary: db) (auto simp: write_storage_reads)

lemma write_object_reads:
  "read_account V (fst (write_object V s x a)) b =
     (if b = a \<and> objects s a \<noteq> None then obj_current (the (objects s a)) else read_account V (fst x) b)"
  "read_storage V (fst (write_object V s x a)) b j k = read_storage V (fst x) b j k"
  by (auto simp: write_object_def Let_def read_laws split: option.split prod.split)

lemma fold_write_object:
  "read_account V (fst (foldl (write_object V s) x as)) b =
     (if b \<in> set as \<and> objects s b \<noteq> None then obj_current (the (objects s b)) else read_account V (fst x) b)"
  "read_storage V (fst (foldl (write_object V s) x as)) b j k = read_storage V (fst x) b j k"
  by (induction as arbitrary: x) (auto simp: write_object_reads)

lemma write_to_db_account:
  assumes "iterates it s"
  shows "read_account V (ibs_db (write_to_db V it s n)) a = view_account V s a"
proof -
  have "read_account V (ibs_db (write_to_db V it s n)) a =
    (if objects s a \<noteq> None then obj_current (the (objects s a)) else read_account V (ibs_db s) a)"
    using assms by (auto simp: ibs_db_write fold_write_object fold_write_storage read_laws iterates_def)
  then show ?thesis
    by (cases "read_account V (ibs_db s) a")
       (simp_all add: view_account_eq view_object_eq db_object_def split: option.split)
qed

lemma write_to_db_storage:
  assumes "iterates it s"
  shows "read_storage V (ibs_db (write_to_db V it s n)) a i k =
    (if written_incarnation s a = Some i \<and> st_committed (storage_of s a) k \<noteq> None
     then cv_original (the (st_committed (storage_of s a) k)) else read_storage V (ibs_db s) a i k)"
proof -
  have "a \<in> set (it_storage it)" if "st_committed (storage_of s a) k \<noteq> None"
    using assms that by (auto simp: iterates_def storage_of_def ensure_def new_storage_def split: option.splits)
  moreover have "k \<in> set (it_keys it a)" if "st_committed (storage_of s a) k \<noteq> None"
    using assms that by (auto simp: iterates_def)
  ultimately show ?thesis
    by (auto simp: ibs_db_write fold_write_object fold_write_storage read_laws)
qed

lemma write_to_db_view_storage:
  assumes "iterates it s" "finalized s" and obj: "objects s a = Some obj" and cur: "obj_current obj = Some cur"
    and fresh: "(\<exists>i. obj_initial obj = Some i \<and> acc_incarnation i = acc_incarnation cur) \<or>
      (\<forall>k. read_storage V (ibs_db s) a (acc_incarnation cur) k = 0)"
  shows "read_storage V (ibs_db (write_to_db V it s n)) a (acc_incarnation cur) k = view_storage V s a k og"
  using assms(2) fresh obj cur unfolding write_to_db_storage [OF assms(1)] view_storage_eq
  by (auto simp: written_incarnation_def view_object_eq slot_def finalized_def split: option.split)

end

text \<open>
  C21.  What \<open>write_to_db\<close> writes to a memory buffer is what the state showed when it was finalised, whatever the order in
  which the hash maps are walked: afterwards the buffer returns for every address the account the state showed.
  For an account that is present among the objects of the state it also returns at every location the storage value
  the state showed, provided that the account has the incarnation it was loaded with, or that the buffer holds
  no other value than zero for its incarnation.  The proviso is not idle: the memory buffer can lose a previous
  incarnation (\<open>previous_incarnation_lost\<close>), and a contract created again then meets the storage of the old one.
\<close>

theorem write_to_db_refines:
  assumes "iterates it s" and "finalized s" and "V = memory_buffer_ops root"
    and "db = ibs_db (write_to_db V it s n)"
  shows "read_account V db a = fst (get_current V s a) \<and>
    (objects s a = Some obj \<and> obj_current obj = Some cur \<and>
     ((\<exists>i. obj_initial obj = Some i \<and> acc_incarnation i = acc_incarnation cur) \<or>
      (\<forall>k. read_storage V (ibs_db s) a (acc_incarnation cur) k = 0)) \<longrightarrow>
     read_storage V db a (acc_incarnation cur) k = fst (get_current_storage V s a k))"
  using memory.write_to_db_account [OF assms(1), of root n a]
    memory.write_to_db_view_storage [OF assms(1,2), of a obj cur root n k False] assms(3,4)
  by (auto simp: view_account_def view_storage_def get_current_storage_def)


theorem write_to_db_refines_witness:
  "let V = memory_buffer_ops (\<lambda>_. 0);
       s = finalize_transaction (set_storage V (add_to_balance V (new_ibs new_memory_buffer) 5 7) 5 1 2);
       it = \<lparr>it_storage = [5], it_keys = (\<lambda>a. if a = 5 then [1] else []), it_objects = [5]\<rparr>;
       db = ibs_db (write_to_db V it s 9)
   in map_option acc_balance (read_account V db 5) = Some 7 \<and> read_storage V db 5 0 1 = 2"
proof -
  let ?V = "memory_buffer_ops (\<lambda>_. 0)"
  let ?s = "finalize_transaction (set_storage ?V (add_to_balance ?V (new_ibs new_memory_buffer) 5 7) 5 1 2)"
  let ?it = "\<lparr>it_storage = [5], it_keys = (\<lambda>a. if a = 5 then [1] else []), it_objects = [5 :: address]\<rparr>"
  note defs = memory_buffer_ops_def mb_read_account_def mb_previous_incarnation_def mb_read_storage_def
    new_ibs_def new_memory_buffer_def Let_def ensure_def new_storage_def new_account_def set_storage_def
    get_current_storage_def get_storage_def add_to_balance_def update_current_def get_or_create_object_def
    get_object_def get_balance_def get_current_def emplace_def touch_def storage_of_def kRipemdAddress_def
    new_object_def finalize_transaction_def finalize_storage_def new_committed_def
  have "iterates ?it ?s"
    by (auto simp: iterates_def defs split: if_splits)
  moreover have "finalized ?s"
    by (rule finalize_transaction_finalized)
  moreover have "objects ?s 5 = Some \<lparr>obj_initial = None, obj_current = Some (new_account\<lparr>acc_balance := 7\<rparr>)\<rparr>"
    "\<And>k. read_storage ?V (ibs_db ?s) 5 0 k = 0"
    by (simp_all add: defs)
  moreover have "fst (get_current ?V ?s 5) = Some (new_account\<lparr>acc_balance := 7\<rparr>)"
    "fst (get_current_storage ?V ?s 5 1) = 2"
    by (simp_all add: defs)
  ultimately show ?thesis
    using write_to_db_refines [of ?it ?s ?V "\<lambda>_. 0" "ibs_db (write_to_db ?V ?it ?s 9)" 9 5
        "\<lparr>obj_initial = None, obj_current = Some (new_account\<lparr>acc_balance := 7\<rparr>)\<rparr>" "new_account\<lparr>acc_balance := 7\<rparr>" 1]
    by (simp add: Let_def new_account_def)
qed

end
