(* ===== verification/Balances.thy ===== *)
theory Balances
  imports Ibs_Revert
begin

text \<open>
  The accounts and balances that the intra-block state shows, as functions of the address: the effect of every
  operation on them, and the sum of all balances.
\<close>

lemma getter_states:
  "snd (get_current V s a) = snd (get_object V s a)" "snd (get_balance V s a) = snd (get_object V s a)"
  "snd (get_nonce V s a) = snd (get_object V s a)" "snd (get_code_hash V s a) = snd (get_object V s a)"
  "snd (exists_account V s a) = snd (get_object V s a)" "snd (is_dead V s a) = snd (get_object V s a)"
  by (auto simp: get_current_def get_balance_def get_nonce_def get_code_hash_def exists_account_def is_dead_def
      split: option.split prod.split)

section \<open>The operations on accounts and balances\<close>

lemma get_or_create_object_view:
  assumes "get_or_create_object V s a = (obj, s')"
  shows "obj_current obj = Some (ensure new_account (view_account V s a))"
    and "view_object V s' b = (if b = a then Some obj else view_object V s b)" and "ibs_db s' = ibs_db s"
proof -
  obtain s1 where g: "get_object V s a = (view_object V s a, s1)" and s1: "s1 = snd (get_object V s a)"
    by (rule get_objectE)
  have f: "ibs_db s1 = ibs_db s" "view_object V s1 = view_object V s"
    by (simp_all add: s1 fun_eq_iff)
  show "obj_current obj = Some (ensure new_account (view_account V s a))" "ibs_db s' = ibs_db s"
    using assms g f(1) by (auto simp: get_or_create_object_def Let_def view_account_eq ensure_def split: option.splits if_splits)
  show "view_object V s' b = (if b = a then Some obj else view_object V s b)"
    using assms g f(2) by (auto simp: get_or_create_object_def Let_def view_put_object split: option.splits if_splits)
qed

lemma update_current_view:
  "view_account V (update_current V f s a) b =
     (if b = a then Some (f (ensure new_account (view_account V s a))) else view_account V s b)"
proof -
  obtain obj s1 where g: "get_or_create_object V s a = (obj, s1)" by fastforce
  note view = get_or_create_object_view [OF g]
  show ?thesis
    using view by (auto simp: update_current_def g Let_def view_account_eq view_put_object)
qed

lemma touch_view [simp]: "view_object V (touch a s) = view_object V s"
  by (simp add: touch_def Let_def)

lemma substate_views [simp]:
  "view_object V (record_suicide a s) = view_object V s" "view_object V (snd (access_account s a)) = view_object V s"
  "view_object V (snd (access_storage s a k)) = view_object V s" "view_object V (add_log l s) = view_object V s"
  "view_object V (add_refund r s) = view_object V s" "view_object V (subtract_refund r s) = view_object V s"
  "view_object V (clear_journal_and_substate s) = view_object V s" "view_object V (finalize_transaction s) = view_object V s"
  by (simp_all add: record_suicide_def access_account_def access_storage_def add_log_def add_refund_def subtract_refund_def
      Let_def clear_journal_and_substate_def finalize_transaction_def fun_eq_iff view_object_eq split: option.split)

lemma get_storage_view [simp]: "view_object V (snd (get_storage V s a k og)) = view_object V s"
  using get_storage_snd [of V s a k og] by (simp add: same_def)

lemma set_storage_view [simp]: "view_object V (set_storage V s a k v) = view_object V s"
proof -
  have "view_object V (set_storage V s a k v) = view_object V (snd (get_storage V s a k False))"
    by (simp add: set_storage_def get_current_storage_def case_prod_beta Let_def fun_eq_iff)
  then show ?thesis by simp
qed

lemma create_contract_view:
  "\<exists>i. view_account V (create_contract V s a) b =
     (if b = a then Some (new_account\<lparr>acc_balance := (case view_account V s a of Some c \<Rightarrow> acc_balance c | None \<Rightarrow> 0),
        acc_incarnation := i\<rparr>)
      else view_account V s b)"
proof -
  obtain s1 where g: "get_object V s a = (view_object V s a, s1)" and s1: "s1 = snd (get_object V s a)"
    by (rule get_objectE)
  have f: "ibs_db s1 = ibs_db s" "view_object V s1 = view_object V s"
    by (simp_all add: s1 fun_eq_iff)
  show ?thesis
    unfolding create_contract_def g view_account_eq
    by (auto simp: Let_def f view_put_object new_account_def split: option.splits)
qed

lemma destruct_view: "view_account V (destruct V s a) b = (if b = a then None else view_account V s b)"
proof -
  let ?s = "s\<lparr>storage := (storage s)(a := None)\<rparr>"
  obtain s1 where g: "get_object V ?s a = (view_object V ?s a, s1)" and s1: "s1 = snd (get_object V ?s a)"
    by (rule get_objectE)
  have "view_object V s1 = view_object V s"
    by (simp add: s1 fun_eq_iff)
  then show ?thesis
    unfolding destruct_def Let_def g by (auto simp: view_account_eq view_put_object split: option.split)
qed


text \<open>The balances as a function of the address; every operation has its effect on that function.\<close>

definition bal :: "'b buffer_ops \<Rightarrow> 'b ibs \<Rightarrow> address \<Rightarrow> u256" where
  "bal V s a = fst (get_balance V s a)"

lemma bal_eq: "bal V s a = (case view_account V s a of Some c \<Rightarrow> acc_balance c | None \<Rightarrow> 0)"
  by (simp add: bal_def getters_view)

lemma bal_view: "view_object V s = view_object V t \<Longrightarrow> bal V s = bal V t"
  by (simp add: fun_eq_iff bal_eq view_account_eq)

lemma bal_same: "same V s t \<Longrightarrow> bal V s = bal V t"
  by (rule bal_view) (simp add: same_def)

lemma ensure_balance: "acc_balance (ensure new_account x) = (case x of Some c \<Rightarrow> acc_balance c | None \<Rightarrow> 0)"
  by (simp add: ensure_def new_account_def split: option.split)

lemma bal_touch [simp]: "bal V (touch a s) = bal V s"
  by (rule bal_view) simp

lemma bal_setters [simp]:
  "bal V (set_balance V s a v) = (bal V s)(a := v)"
  "bal V (add_to_balance V s a v) = (bal V s)(a := bal V s a + v)"
  "bal V (subtract_from_balance V s a v) = (bal V s)(a := bal V s a - v)"
  "bal V (set_nonce V s a n) = bal V s"
  by (auto simp: set_balance_def add_to_balance_def subtract_from_balance_def set_nonce_def fun_eq_iff)
     (simp_all add: bal_eq update_current_view ensure_balance)

lemma bal_code [simp]: "bal V (s\<lparr>code := c\<rparr>) = bal V s" "bal V (s\<lparr>refund := r\<rparr>) = bal V s"
  by (rule bal_view, simp)+

lemma bal_set_code [simp]: "bal V (set_code k V s a c) = bal V s"
proof -
  have "bal V (update_current V (\<lambda>a. a\<lparr>acc_code_hash := k c\<rparr>) s a) = bal V s"
    by (auto simp: fun_eq_iff bal_eq update_current_view ensure_balance)
  then show ?thesis
    by (simp add: set_code_def Let_def split: option.split)
qed

lemma bal_queries [simp]:
  "bal V (snd (get_object V s a)) = bal V s" "bal V (snd (get_storage V s a k og)) = bal V s"
  "bal V (snd (get_code V s a)) = bal V s"
  "bal V (record_suicide a s) = bal V s" "bal V (snd (access_account s a)) = bal V s"
  "bal V (snd (access_storage s a k)) = bal V s" "bal V (add_log l s) = bal V s" "bal V (set_storage V s a k w) = bal V s"
  "bal V (add_refund r s) = bal V s" "bal V (subtract_refund r s) = bal V s"
  "bal V (clear_journal_and_substate s) = bal V s" "bal V (finalize_transaction s) = bal V s"
proof -
  show "bal V (snd (get_code V s a)) = bal V s"
  proof (rule bal_view)
    have "view_object V (snd (get_current V s a)) = view_object V s"
      by (simp add: getter_states fun_eq_iff)
    then show "view_object V (snd (get_code V s a)) = view_object V s"
      by (auto simp: get_code_def case_prod_beta Let_def split: option.split prod.split)
  qed
qed (rule bal_view, simp add: fun_eq_iff)+

lemma bal_getters [simp]:
  "bal V (snd (get_balance V s a)) = bal V s" "bal V (snd (get_nonce V s a)) = bal V s"
  "bal V (snd (get_code_hash V s a)) = bal V s" "bal V (snd (exists_account V s a)) = bal V s"
  "bal V (snd (is_dead V s a)) = bal V s" "bal V (snd (get_current_storage V s a k)) = bal V s"
  "bal V (snd (get_original_storage V s a k)) = bal V s"
  by (simp_all add: getter_states get_current_storage_def get_original_storage_def)

lemma bal_create_contract [simp]: "bal V (create_contract V s a) = bal V s"
proof
  show "bal V (create_contract V s a) b = bal V s b" for b
    using create_contract_view [of V s a b] by (auto simp: bal_eq)
qed

lemma bal_destruct [simp]: "bal V (destruct V s a) = (bal V s)(a := 0)"
  by (auto simp: fun_eq_iff bal_eq destruct_view)

lemma bal_revert:
  assumes "revertible V s t"
  shows "bal V (revert_to_snapshot (take_snapshot s) t) = bal V s"
  using revert_to_snapshot_same(1) [OF assms] by (rule bal_same)

section \<open>The supply of ether\<close>

text \<open>The sum of all balances, over the 2^160 addresses.\<close>

definition ether :: "(address \<Rightarrow> u256) \<Rightarrow> nat" where
  "ether f = (\<Sum>a\<in>UNIV. unat (f a))"

lemma ether_upd: "ether (f(a := v)) + unat (f a) = ether f + unat v"
proof -
  have "ether g = unat (g a) + (\<Sum>b\<in>UNIV - {a}. unat (g b))" for g
    unfolding ether_def by (rule sum.remove) simp_all
  from this [of f] this [of "f(a := v)"] show ?thesis by simp
qed

lemma ether_ge: "unat (f a) \<le> ether f"
  unfolding ether_def by (rule member_le_sum) simp_all

lemma ether_ge2: "a \<noteq> b \<Longrightarrow> unat (f a) + unat (f b) \<le> ether f"
  using ether_upd [of f a 0] ether_ge [of "f(a := 0)" b] by simp

lemma ether_sub: "v \<le> f a \<Longrightarrow> ether (f(a := f a - v)) + unat v = ether f"
  using ether_upd [of f a "f a - v"] by (simp add: unat_sub word_le_nat_alt)

lemma ether_add:
  assumes "ether f + unat v < 2 ^ 256"
  shows "ether (f(a := f a + v)) = ether f + unat v"
proof -
  have "unat (f a) + unat v < 2 ^ 256"
    using assms ether_ge [of f a] by linarith
  then have "unat (f a + v) = unat (f a) + unat v"
    by (intro unat_add_lem [THEN iffD1]) simp
  then show ?thesis
    using ether_upd [of f a "f a + v"] by linarith
qed

lemma ether_transfer:
  assumes "v \<le> f a" "ether f < 2 ^ 256" "g = f(a := f a - v)"
  shows "ether (g(b := g b + v)) = ether f"
proof -
  have "ether g + unat v = ether f"
    using ether_sub [of v f a] assms(1,3) by simp
  then show ?thesis
    using ether_add [of g v b] assms(2) by simp
qed

lemma ether_zero: "ether (f(a := 0)) \<le> ether f"
  using ether_upd [of f a 0] by simp

text \<open>Moving a whole balance; a balance moved to itself is lost.\<close>

lemma ether_sweep:
  assumes "ether f < 2 ^ 256" "g = f(b := f b + f a)"
  shows "ether (g(a := 0)) = (if a = b then ether f - unat (f a) else ether f)"
proof (cases "a = b")
  case True
  then show ?thesis using ether_upd [of f a 0] assms(2) by simp
next
  case False
  have "unat (f a) + unat (f b) < 2 ^ 256"
    using ether_ge2 [OF False, of f] assms(1) by linarith
  then have "unat (f b + f a) = unat (f b) + unat (f a)"
    by (intro unat_add_lem [THEN iffD1]) simp
  then show ?thesis
    using ether_upd [of f b "f b + f a"] ether_upd [of g a 0] False assms(2) by simp
qed

end
