(* ===== verification/Config.thy ===== *)
theory Config
  imports Prelude
begin

text \<open>
  core/silkworm/chain/config.hpp and config.cpp: the revisions of the EVM, the configuration of a chain,
  the four built-in chains and the revision that is active at a block; and the constants of
  protocol_param.hpp and base.hpp.
\<close>

section \<open>Revisions\<close>

text \<open>\<open>evmc_revision\<close>, in the order of its numeric values (0 to \<open>EVMC_MAX_REVISION\<close> = 9).\<close>

datatype evmc_revision =
  EVMC_FRONTIER | EVMC_HOMESTEAD | EVMC_TANGERINE_WHISTLE | EVMC_SPURIOUS_DRAGON | EVMC_BYZANTIUM |
  EVMC_CONSTANTINOPLE | EVMC_PETERSBURG | EVMC_ISTANBUL | EVMC_BERLIN | EVMC_LONDON

fun rev_num :: "evmc_revision \<Rightarrow> nat" where
  "rev_num EVMC_FRONTIER = 0"
| "rev_num EVMC_HOMESTEAD = 1"
| "rev_num EVMC_TANGERINE_WHISTLE = 2"
| "rev_num EVMC_SPURIOUS_DRAGON = 3"
| "rev_num EVMC_BYZANTIUM = 4"
| "rev_num EVMC_CONSTANTINOPLE = 5"
| "rev_num EVMC_PETERSBURG = 6"
| "rev_num EVMC_ISTANBUL = 7"
| "rev_num EVMC_BERLIN = 8"
| "rev_num EVMC_LONDON = 9"

definition kMaxRevision :: nat where
  "kMaxRevision = 9"

definition revisions :: "evmc_revision list" where
  "revisions = [EVMC_FRONTIER, EVMC_HOMESTEAD, EVMC_TANGERINE_WHISTLE, EVMC_SPURIOUS_DRAGON, EVMC_BYZANTIUM,
     EVMC_CONSTANTINOPLE, EVMC_PETERSBURG, EVMC_ISTANBUL, EVMC_BERLIN, EVMC_LONDON]"

definition rev_of :: "nat \<Rightarrow> evmc_revision" where
  "rev_of n = revisions ! n"

lemma rev_num_inj: "rev_num a = rev_num b \<longleftrightarrow> a = b"
  by (cases a; cases b) simp_all

lemma rev_num_le: "rev_num r \<le> 9"
  by (cases r) simp_all

lemma less_Suc_numeral: "n < (10 :: nat) \<longleftrightarrow>
    n = 0 \<or> n = 1 \<or> n = 2 \<or> n = 3 \<or> n = 4 \<or> n = 5 \<or> n = 6 \<or> n = 7 \<or> n = 8 \<or> n = 9"
  by auto

lemma rev_num_of [simp]: "n \<le> 9 \<Longrightarrow> rev_num (rev_of n) = n"
  using less_Suc_numeral [of n] by (auto simp: rev_of_def revisions_def)

lemma rev_of_num [simp]: "rev_of (rev_num r) = r"
  by (cases r) (simp_all add: rev_of_def revisions_def)

instantiation evmc_revision :: linorder
begin

definition less_eq_evmc_revision :: "evmc_revision \<Rightarrow> evmc_revision \<Rightarrow> bool" where
  "less_eq_evmc_revision a b \<longleftrightarrow> rev_num a \<le> rev_num b"

definition less_evmc_revision :: "evmc_revision \<Rightarrow> evmc_revision \<Rightarrow> bool" where
  "less_evmc_revision a b \<longleftrightarrow> rev_num a < rev_num b"

instance
  by standard (auto simp: less_eq_evmc_revision_def less_evmc_revision_def rev_num_inj)

end

section \<open>Configurations\<close>

datatype seal_engine_type = kNoProof | kEthash | kClique | kAuRA

record chain_config =
  cfg_chain_id :: u64
  seal_engine :: seal_engine_type
  fork_blocks :: "u64 option list"
  muir_glacier_block :: "u64 option"
  dao_block :: "u64 option"

text \<open>The array of fork blocks has one entry for every revision after Frontier.\<close>

definition config_wf :: "chain_config \<Rightarrow> bool" where
  "config_wf c \<longleftrightarrow> length (fork_blocks c) = kMaxRevision"

definition kMainnetConfig :: chain_config where
  "kMainnetConfig =
     \<lparr>cfg_chain_id = 1, seal_engine = kEthash,
      fork_blocks = [Some 1150000, Some 2463000, Some 2675000, Some 4370000, Some 7280000, Some 7280000,
        Some 9069000, Some 12244000, None],
      muir_glacier_block = Some 9200000, dao_block = Some 1920000\<rparr>"

definition kRopstenConfig :: chain_config where
  "kRopstenConfig =
     \<lparr>cfg_chain_id = 3, seal_engine = kEthash,
      fork_blocks = [Some 0, Some 0, Some 10, Some 1700000, Some 4230000, Some 4939394, Some 6485846,
        Some 9812189, None],
      muir_glacier_block = Some 7117117, dao_block = None\<rparr>"

definition kRinkebyConfig :: chain_config where
  "kRinkebyConfig =
     \<lparr>cfg_chain_id = 4, seal_engine = kClique,
      fork_blocks = [Some 1, Some 2, Some 3, Some 1035301, Some 3660663, Some 4321234, Some 5435345,
        Some 8290928, None],
      muir_glacier_block = None, dao_block = None\<rparr>"

definition kGoerliConfig :: chain_config where
  "kGoerliConfig =
     \<lparr>cfg_chain_id = 5, seal_engine = kClique,
      fork_blocks = [Some 0, Some 0, Some 0, Some 0, Some 0, Some 0, Some 1561651, Some 4460644, None],
      muir_glacier_block = None, dao_block = None\<rparr>"

definition lookup_chain_config :: "u64 \<Rightarrow> chain_config option" where
  "lookup_chain_config chain_id =
     (if chain_id = cfg_chain_id kMainnetConfig then Some kMainnetConfig
      else if chain_id = cfg_chain_id kRopstenConfig then Some kRopstenConfig
      else if chain_id = cfg_chain_id kRinkebyConfig then Some kRinkebyConfig
      else if chain_id = cfg_chain_id kGoerliConfig then Some kGoerliConfig
      else None)"

text \<open>The loop of \<open>revision\<close>, from the highest index down; \<open>revision_from c b n\<close> looks at the indices below n.\<close>

fun revision_from :: "chain_config \<Rightarrow> u64 \<Rightarrow> nat \<Rightarrow> evmc_revision" where
  "revision_from c block_number 0 = EVMC_FRONTIER"
| "revision_from c block_number (Suc i) =
     (case fork_blocks c ! i of
        Some b \<Rightarrow> if block_number \<ge> b then rev_of (i + 1) else revision_from c block_number i
      | None \<Rightarrow> revision_from c block_number i)"

definition revision :: "chain_config \<Rightarrow> u64 \<Rightarrow> evmc_revision" where
  "revision c block_number = revision_from c block_number kMaxRevision"

definition revision_block :: "chain_config \<Rightarrow> evmc_revision \<Rightarrow> u64 option" where
  "revision_block c rv =
     (if rv = EVMC_FRONTIER then Some 0 else fork_blocks c ! (rev_num rv - 1))"

section \<open>Constants\<close>

definition kGiga :: u64 where "kGiga = 1000000000"
definition kEther :: u64 where "kEther = kGiga * kGiga"

definition kGSLoadTangerineWhistle :: u64 where "kGSLoadTangerineWhistle = 200"
definition kGSLoadIstanbul :: u64 where "kGSLoadIstanbul = 800"
definition kWarmStorageReadCost :: u64 where "kWarmStorageReadCost = 100"
definition kColdSloadCost :: u64 where "kColdSloadCost = 2100"
definition kAccessListStorageKeyCost :: u64 where "kAccessListStorageKeyCost = 1900"
definition kAccessListAddressCost :: u64 where "kAccessListAddressCost = 2400"
definition kGSSet :: u64 where "kGSSet = 20000"
definition kGSReset :: u64 where "kGSReset = 5000"
definition kRSClear :: u64 where "kRSClear = 15000"
definition kRSelfDestruct :: u64 where "kRSelfDestruct = 24000"
definition kGCodeDeposit :: u64 where "kGCodeDeposit = 200"
definition kGTxCreate :: u64 where "kGTxCreate = 32000"
definition kGTxDataZero :: u64 where "kGTxDataZero = 4"
definition kGTxDataNonZeroFrontier :: u64 where "kGTxDataNonZeroFrontier = 68"
definition kGTxDataNonZeroIstanbul :: u64 where "kGTxDataNonZeroIstanbul = 16"
definition kGTransaction :: u64 where "kGTransaction = 21000"
definition kMaxCodeSize :: nat where "kMaxCodeSize = 0x6000"
definition kBlockRewardFrontier :: u64 where "kBlockRewardFrontier = 5 * kEther"
definition kBlockRewardByzantium :: u64 where "kBlockRewardByzantium = 3 * kEther"
definition kBlockRewardConstantinople :: u64 where "kBlockRewardConstantinople = 2 * kEther"
definition kGQuadDivisorByzantium :: u64 where "kGQuadDivisorByzantium = 20"
definition kGQuadDivisorBerlin :: u64 where "kGQuadDivisorBerlin = 3"
definition kMaxRefundQuotientFrontier :: u64 where "kMaxRefundQuotientFrontier = 2"
definition kMaxRefundQuotientLondon :: u64 where "kMaxRefundQuotientLondon = 5"

section \<open>The active revision\<close>

text \<open>A revision is reached at a block when its fork block is set and not after the block.\<close>

definition reached :: "chain_config \<Rightarrow> u64 \<Rightarrow> evmc_revision \<Rightarrow> bool" where
  "reached c block_number rv \<longleftrightarrow> (\<exists>b. revision_block c rv = Some b \<and> b \<le> block_number)"

lemma reached_Suc: "i < 9 \<Longrightarrow> reached c n (rev_of (Suc i)) \<longleftrightarrow> (\<exists>b. fork_blocks c ! i = Some b \<and> b \<le> n)"
proof -
  assume "i < 9"
  then have "rev_num (rev_of (Suc i)) = Suc i" by simp
  moreover from this have "rev_of (Suc i) \<noteq> EVMC_FRONTIER" by auto
  ultimately show ?thesis by (simp add: reached_def revision_block_def)
qed

lemma revision_from_reached:
  assumes "k \<le> 9"
  shows "reached c n (revision_from c n k) \<and> rev_num (revision_from c n k) \<le> k \<and>
    (\<forall>rv. reached c n rv \<and> rev_num rv \<le> k \<longrightarrow> rv \<le> revision_from c n k)"
  using assms
proof (induction k)
  case 0
  have "rv = EVMC_FRONTIER" if "rev_num rv = 0" for rv
    using that by (cases rv) simp_all
  then show ?case by (auto simp: reached_def revision_block_def)
next
  case (Suc k)
  then have IH: "reached c n (revision_from c n k)" "rev_num (revision_from c n k) \<le> k"
    "\<And>rv. reached c n rv \<Longrightarrow> rev_num rv \<le> k \<Longrightarrow> rv \<le> revision_from c n k" by auto
  show ?case
  proof (cases "reached c n (rev_of (Suc k))")
    case True
    with Suc.prems have "revision_from c n (Suc k) = rev_of (Suc k)"
      by (auto simp: reached_Suc)
    with True Suc.prems show ?thesis by (auto simp: less_eq_evmc_revision_def)
  next
    case False
    with Suc.prems have r: "revision_from c n (Suc k) = revision_from c n k"
      by (auto simp: reached_Suc split: option.split)
    have "rev_num rv \<le> k" if "reached c n rv" "rev_num rv \<le> Suc k" for rv
      using that False by (metis le_Suc_eq rev_of_num)
    then show ?thesis unfolding r using IH by auto
  qed
qed

lemma revision_reached: "reached c n (revision c n)"
  using revision_from_reached [of 9 c n] by (simp add: revision_def kMaxRevision_def)

lemma revision_greatest: "reached c n rv \<Longrightarrow> rv \<le> revision c n"
  using revision_from_reached [of 9 c n] rev_num_le [of rv] by (simp add: revision_def kMaxRevision_def)

lemma revision_mono: "m \<le> n \<Longrightarrow> revision c m \<le> revision c n"
  by (rule revision_greatest) (use revision_reached [of c m] in \<open>auto simp: reached_def\<close>)

text \<open>
   \<open>revision\<close> returns the latest revision whose fork block (as \<open>revision_block\<close> gives it) is set and
  has been reached, whatever the order of the fork blocks; so the active revision never falls as
  the block number grows, and for a chain whose fork blocks are in order a revision is active or
  past exactly from its own fork block on.
\<close>

theorem revision_correct:
  "revision_block c (revision c n) \<noteq> None \<and> the (revision_block c (revision c n)) \<le> n \<and>
   (\<forall>rv b. revision_block c rv = Some b \<and> b \<le> n \<longrightarrow> rv \<le> revision c n) \<and>
   (m \<le> n \<longrightarrow> revision c m \<le> revision c n)"
  using revision_reached [of c n] revision_greatest [of c n] revision_mono [of m n c]
  by (auto simp: reached_def)

theorem revision_correct_witness:
  "revision kMainnetConfig 4370000 = EVMC_BYZANTIUM \<and> EVMC_BYZANTIUM \<le> revision kMainnetConfig 7280000"
proof -
  have "revision kMainnetConfig 4370000 = EVMC_BYZANTIUM" by code_simp
  then show ?thesis
    using revision_correct [of kMainnetConfig 7280000 4370000] by simp
qed

end
