(* ===== verification/Evm.thy ===== *)
theory Evm
  imports Balances Config
begin

text \<open>
  core/silkworm/execution/evm.hpp, evm.cpp and address.cpp: message calls, contract creation and the host
  through which an EVM interpreter reads and changes the state.

  The interpreter itself (evmone or an exogenous EVMC virtual machine) is not part of the sources.  It is a
  parameter: for a revision, a message and code it gives a tree of requests to the host, each with a
  continuation that takes the answer, and of results.  A tree is well founded, which is that an
  interpreter stops by running out of gas.  A request for a call leads back into the code modelled here,
  down to the depth that the fuel of \<open>evm_execute\<close> allows; EVMC bounds it by 1024.
  The precompiled contracts are a parameter here, a gas function and a run function for each number.
\<close>

section \<open>Messages and results\<close>

datatype call_kind = EVMC_CALL | EVMC_DELEGATECALL | EVMC_CALLCODE | EVMC_CREATE | EVMC_CREATE2

datatype evmc_status_code =
  EVMC_SUCCESS | EVMC_FAILURE | EVMC_REVERT | EVMC_OUT_OF_GAS | EVMC_INVALID_INSTRUCTION |
  EVMC_UNDEFINED_INSTRUCTION | EVMC_STACK_OVERFLOW | EVMC_STACK_UNDERFLOW | EVMC_BAD_JUMP_DESTINATION |
  EVMC_INVALID_MEMORY_ACCESS | EVMC_CALL_DEPTH_EXCEEDED | EVMC_STATIC_MODE_VIOLATION |
  EVMC_PRECOMPILE_FAILURE | EVMC_CONTRACT_VALIDATION_FAILURE | EVMC_ARGUMENT_OUT_OF_RANGE |
  EVMC_INSUFFICIENT_BALANCE | EVMC_INTERNAL_ERROR | EVMC_REJECTED | EVMC_OUT_OF_MEMORY

datatype evmc_storage_status =
  EVMC_STORAGE_UNCHANGED | EVMC_STORAGE_MODIFIED | EVMC_STORAGE_MODIFIED_AGAIN | EVMC_STORAGE_ADDED |
  EVMC_STORAGE_DELETED

text \<open>The signed 64-bit gas of EVMC is a word that is read with \<open>sint\<close>; a 256-bit big-endian value is its word.\<close>

record evmc_message =
  msg_kind :: call_kind
  msg_flags :: u32
  msg_depth :: nat
  msg_gas :: u64
  msg_destination :: address
  msg_sender :: address
  msg_input :: bytes
  msg_value :: u256
  msg_create2_salt :: bytes32

record evmc_result =
  res_status :: evmc_status_code
  res_gas_left :: u64
  res_output :: bytes
  res_create_address :: address

record call_result =
  cr_status :: evmc_status_code
  cr_gas_left :: u64
  cr_data :: bytes

record tx_context =
  ctx_gas_price :: u256
  ctx_origin :: address
  ctx_coinbase :: address
  ctx_number :: u64
  ctx_timestamp :: u64
  ctx_gas_limit :: u64
  ctx_difficulty :: u256
  ctx_chain_id :: u256

datatype host_request =
  AccountExists address | AccessAccount address | AccessStorage address bytes32 | GetStorage address bytes32 |
  SetStorage address bytes32 bytes32 | GetBalance address | GetCodeSize address | GetCodeHash address |
  CopyCode address nat nat | SelfDestruct address address | Call evmc_message | GetTxContext |
  GetBlockHash u64 | EmitLog address bytes "bytes32 list"

datatype host_response =
  RBool bool | RAccess evmc_access_status | RBytes32 bytes32 | RStorage evmc_storage_status | RUint256 u256 |
  RSize nat | RBytes bytes | RUnit | RResult evmc_result | RContext tx_context

datatype vm = Done evmc_result | Ask host_request "host_response \<Rightarrow> vm"

section \<open>The machine\<close>

text \<open>What does not change while a transaction is executed, with the parameters of the model.\<close>

record 'b evm_env =
  env_ops :: "'b buffer_ops"
  env_keccak256 :: "bytes \<Rightarrow> bytes32"
  env_interpreter :: "evmc_revision \<Rightarrow> evmc_message \<Rightarrow> bytes \<Rightarrow> vm"
  env_precompiled_gas :: "nat \<Rightarrow> bytes \<Rightarrow> evmc_revision \<Rightarrow> u64"
  env_precompiled_run :: "nat \<Rightarrow> bytes \<Rightarrow> bytes option"
  env_block :: block
  env_config :: chain_config
  env_txn :: transaction

record 'b evm =
  evm_state :: "'b ibs"
  evm_block_hashes :: "bytes32 list"
  evm_address_stack :: "address list"

definition evm_revision :: "'b evm_env \<Rightarrow> evmc_revision" where
  "evm_revision E = revision (env_config E) (number (blk_header (env_block E)))"

definition kNumOfFrontierContracts :: address where "kNumOfFrontierContracts = 4"
definition kNumOfByzantiumContracts :: address where "kNumOfByzantiumContracts = 8"
definition kNumOfIstanbulContracts :: address where "kNumOfIstanbulContracts = 9"

definition number_of_precompiles :: "'b evm_env \<Rightarrow> address" where
  "number_of_precompiles E =
     (let rv = evm_revision E
      in if rv \<ge> EVMC_ISTANBUL then kNumOfIstanbulContracts
         else if rv \<ge> EVMC_BYZANTIUM then kNumOfByzantiumContracts
         else kNumOfFrontierContracts)"

definition is_precompiled :: "'b evm_env \<Rightarrow> address \<Rightarrow> bool" where
  "is_precompiled E contract = (contract \<noteq> 0 \<and> contract \<le> number_of_precompiles E)"

text \<open>A query or a change of the state component.\<close>

definition on_state :: "('b ibs \<Rightarrow> 'a \<times> 'b ibs) \<Rightarrow> 'b evm \<Rightarrow> 'a \<times> 'b evm" where
  "on_state f e = (case f (evm_state e) of (x, s) \<Rightarrow> (x, e\<lparr>evm_state := s\<rparr>))"

definition upd_state :: "('b ibs \<Rightarrow> 'b ibs) \<Rightarrow> 'b evm \<Rightarrow> 'b evm" where
  "upd_state f e = e\<lparr>evm_state := f (evm_state e)\<rparr>"

definition create_address :: "(bytes \<Rightarrow> bytes32) \<Rightarrow> address \<Rightarrow> u64 \<Rightarrow> address" where
  "create_address keccak256 caller nonce =
     (let h = \<lparr>is_list = True, payload_length = 1 + kAddressLength + length_uint64 nonce\<rparr>;
          rlp = encode_header h @ encode_address caller @ encode_uint64 nonce
      in ucast (keccak256 rlp))"

definition create2_address :: "(bytes \<Rightarrow> bytes32) \<Rightarrow> address \<Rightarrow> bytes32 \<Rightarrow> bytes32 \<Rightarrow> address" where
  "create2_address keccak256 caller salt code_hash =
     ucast (keccak256 ([0xff] @ full_view_address caller @ full_view_bytes32 salt @ full_view_bytes32 code_hash))"

section \<open>The host\<close>

definition host_account_exists :: "'b evm_env \<Rightarrow> 'b evm \<Rightarrow> address \<Rightarrow> bool \<times> 'b evm" where
  "host_account_exists E e address =
     (if evm_revision E \<ge> EVMC_SPURIOUS_DRAGON
      then case on_state (\<lambda>s. is_dead (env_ops E) s address) e of (dead, e) \<Rightarrow> (\<not> dead, e)
      else on_state (\<lambda>s. exists_account (env_ops E) s address) e)"

definition host_access_account :: "'b evm_env \<Rightarrow> 'b evm \<Rightarrow> address \<Rightarrow> evmc_access_status \<times> 'b evm" where
  "host_access_account E e address =
     (if is_precompiled E address then (EVMC_ACCESS_WARM, e) else on_state (\<lambda>s. access_account s address) e)"

text \<open>
  The status of a storage change and the refund counter after it, as functions of the revision and of the
  original, the current and the new value: before EIP-1283 and, from line 370 of evm.cpp on, with
  the net gas metering of EIP-1283, 2200, 2929 and 3529.
\<close>

definition eip1283 :: "evmc_revision \<Rightarrow> bool" where
  "eip1283 rv \<longleftrightarrow> rv \<ge> EVMC_ISTANBUL \<or> rv = EVMC_CONSTANTINOPLE"

definition legacy_status :: "bytes32 \<Rightarrow> bytes32 \<Rightarrow> evmc_storage_status" where
  "legacy_status current_val new_val =
     (if current_val = 0 then EVMC_STORAGE_ADDED
      else if new_val = 0 then EVMC_STORAGE_DELETED
      else EVMC_STORAGE_MODIFIED)"

definition legacy_refund :: "bytes32 \<Rightarrow> bytes32 \<Rightarrow> u64 \<Rightarrow> u64" where
  "legacy_refund current_val new_val r = (if current_val \<noteq> 0 \<and> new_val = 0 then r + kRSClear else r)"

definition sload_cost :: "evmc_revision \<Rightarrow> u64" where
  "sload_cost rv =
     (if rv \<ge> EVMC_BERLIN then kWarmStorageReadCost
      else if rv \<ge> EVMC_ISTANBUL then kGSLoadIstanbul
      else kGSLoadTangerineWhistle)"

definition sstore_reset_gas :: "evmc_revision \<Rightarrow> u64" where
  "sstore_reset_gas rv = (if rv \<ge> EVMC_BERLIN then kGSReset - kColdSloadCost else kGSReset)"

definition sstore_clears_refund :: "evmc_revision \<Rightarrow> u64" where
  "sstore_clears_refund rv =
     (if rv \<ge> EVMC_LONDON then sstore_reset_gas rv + kAccessListStorageKeyCost else kRSClear)"

definition net_status :: "bytes32 \<Rightarrow> bytes32 \<Rightarrow> evmc_storage_status" where
  "net_status original_val current_val =
     (if original_val = current_val
      then if original_val = 0 then EVMC_STORAGE_ADDED else EVMC_STORAGE_MODIFIED
      else EVMC_STORAGE_MODIFIED_AGAIN)"

definition net_refund :: "evmc_revision \<Rightarrow> bytes32 \<Rightarrow> bytes32 \<Rightarrow> bytes32 \<Rightarrow> u64 \<Rightarrow> u64" where
  "net_refund rv original_val current_val new_val r =
     (if original_val = current_val then
        (if original_val \<noteq> 0 \<and> new_val = 0 then r + sstore_clears_refund rv else r)
      else
        let r = (if original_val \<noteq> 0 \<and> current_val = 0 then r - sstore_clears_refund rv else r);
            r = (if original_val \<noteq> 0 \<and> new_val = 0 then r + sstore_clears_refund rv else r)
        in if original_val = new_val then
             (if original_val = 0 then r + (kGSSet - sload_cost rv)
              else r + (sstore_reset_gas rv - sload_cost rv))
           else r)"

definition host_set_storage ::
    "'b evm_env \<Rightarrow> 'b evm \<Rightarrow> address \<Rightarrow> bytes32 \<Rightarrow> bytes32 \<Rightarrow> evmc_storage_status \<times> 'b evm" where
  "host_set_storage E e address key new_val =
     (let V = env_ops E;
          rv = evm_revision E;
          (current_val, e) = on_state (\<lambda>s. get_current_storage V s address key) e
      in if current_val = new_val then (EVMC_STORAGE_UNCHANGED, e)
         else
         let e = upd_state (\<lambda>s. set_storage V s address key new_val) e
         in if \<not> eip1283 rv then
              (legacy_status current_val new_val,
               upd_state (\<lambda>s. s\<lparr>refund := legacy_refund current_val new_val (refund s)\<rparr>) e)
            else
            let (original_val, e) = on_state (\<lambda>s. get_original_storage V s address key) e
            in (net_status original_val current_val,
                upd_state (\<lambda>s. s\<lparr>refund := net_refund rv original_val current_val new_val (refund s)\<rparr>) e))"

definition host_get_code_hash :: "'b evm_env \<Rightarrow> 'b evm \<Rightarrow> address \<Rightarrow> bytes32 \<times> 'b evm" where
  "host_get_code_hash E e address =
     (case on_state (\<lambda>s. is_dead (env_ops E) s address) e of
        (dead, e) \<Rightarrow> if dead then (0, e) else on_state (\<lambda>s. get_code_hash (env_ops E) s address) e)"

definition host_copy_code :: "'b evm_env \<Rightarrow> 'b evm \<Rightarrow> address \<Rightarrow> nat \<Rightarrow> nat \<Rightarrow> bytes \<times> 'b evm" where
  "host_copy_code E e address code_offset buffer_size =
     (case on_state (\<lambda>s. get_code (env_ops E) s address) e of
        (c, e) \<Rightarrow> (if code_offset \<ge> length c then [] else take buffer_size (drop code_offset c), e))"

definition host_selfdestruct :: "'b evm_env \<Rightarrow> 'b evm \<Rightarrow> address \<Rightarrow> address \<Rightarrow> 'b evm" where
  "host_selfdestruct E e address heir =
     (let V = env_ops E;
          e = upd_state (record_suicide address) e;
          (b, e) = on_state (\<lambda>s. get_balance V s address) e;
          e = upd_state (\<lambda>s. add_to_balance V s heir b) e
      in upd_state (\<lambda>s. set_balance V s address 0) e)"

definition host_get_tx_context :: "'b evm_env \<Rightarrow> tx_context" where
  "host_get_tx_context E =
     (let header = blk_header (env_block E)
      in \<lparr>ctx_gas_price = tx_gas_price (env_txn E), ctx_origin = the (tx_from (env_txn E)),
          ctx_coinbase = beneficiary header, ctx_number = number header, ctx_timestamp = timestamp header,
          ctx_gas_limit = gas_limit header, ctx_difficulty = difficulty header,
          ctx_chain_id = ucast (cfg_chain_id (env_config E))\<rparr>)"

text \<open>The loop of \<open>get_block_hash\<close>, from index i on for k more indices; a missing header ends it.\<close>

fun fetch_hashes :: "('a \<Rightarrow> bytes32 \<Rightarrow> block_header option) \<Rightarrow> (nat \<Rightarrow> 'a) \<Rightarrow> nat \<Rightarrow> nat \<Rightarrow> bytes32 list \<Rightarrow> bytes32 list" where
  "fetch_hashes read num i 0 hashes = hashes"
| "fetch_hashes read num i (Suc k) hashes =
     (case read (num i) (hashes ! (i - 1)) of
        None \<Rightarrow> hashes
      | Some header \<Rightarrow> fetch_hashes read num (Suc i) k (hashes[i := parent_hash header]))"

text \<open>The assertion \<open>new_size <= 256\<close> and the access \<open>hashes[new_size - 1]\<close> are left to the caller.\<close>

definition host_get_block_hash :: "'b evm_env \<Rightarrow> 'b evm \<Rightarrow> u64 \<Rightarrow> bytes32 \<times> 'b evm" where
  "host_get_block_hash E e n =
     (let base_number = number (blk_header (env_block E));
          new_size = unat (base_number - n);
          hashes = (if evm_block_hashes e = [] then [parent_hash (blk_header (env_block E))] else evm_block_hashes e);
          old_size = length hashes;
          hashes = (if old_size < new_size then resize new_size 0 hashes else hashes);
          hashes = fetch_hashes (read_header (env_ops E) (ibs_db (evm_state e))) (\<lambda>i. base_number - word_of_nat i)
                     old_size (new_size - old_size) hashes
      in (hashes ! (new_size - 1), e\<lparr>evm_block_hashes := hashes\<rparr>))"

section \<open>Calls and creations\<close>

type_synonym 'b exec = "'b evm \<Rightarrow> evmc_message \<Rightarrow> bytes \<Rightarrow> (evmc_result \<times> 'b evm) option"

definition new_result :: "evmc_status_code \<Rightarrow> u64 \<Rightarrow> bytes \<Rightarrow> evmc_result" where
  "new_result status gas output =
     \<lparr>res_status = status, res_gas_left = gas, res_output = output, res_create_address = 0\<rparr>"

text \<open>The end of a call or a creation: a failure reverts to the snapshot, and unless it is a revert takes the gas.\<close>

definition revert_failed :: "snapshot \<Rightarrow> evmc_result \<Rightarrow> 'b evm \<Rightarrow> evmc_result \<times> 'b evm" where
  "revert_failed snap res e =
     (if res_status res = EVMC_SUCCESS then (res, e)
      else (if res_status res \<noteq> EVMC_REVERT then res\<lparr>res_gas_left := 0\<rparr> else res,
            upd_state (revert_to_snapshot snap) e))"

text \<open>What \<open>create\<close> does with the output of the deployment.\<close>

definition deploy_code :: "'b evm_env \<Rightarrow> address \<Rightarrow> evmc_result \<Rightarrow> 'b evm \<Rightarrow> evmc_result \<times> 'b evm" where
  "deploy_code E contract_addr res e =
     (let rv = evm_revision E;
          code_len = length (res_output res);
          code_deploy_gas = word_of_nat code_len * kGCodeDeposit
      in if res_status res \<noteq> EVMC_SUCCESS then (res, e)
         else if rv \<ge> EVMC_SPURIOUS_DRAGON \<and> code_len > kMaxCodeSize then (res\<lparr>res_status := EVMC_OUT_OF_GAS\<rparr>, e)
         else if sint (res_gas_left res) \<ge> 0 \<and> res_gas_left res \<ge> code_deploy_gas
         then (res\<lparr>res_gas_left := res_gas_left res - code_deploy_gas\<rparr>,
               upd_state (\<lambda>s. set_code (env_keccak256 E) (env_ops E) s contract_addr (res_output res)) e)
         else if rv \<ge> EVMC_HOMESTEAD then (res\<lparr>res_status := EVMC_OUT_OF_GAS\<rparr>, e)
         else (res, e))"

text \<open>\<open>create\<close> from the snapshot on, once the address of the contract is known to be free.\<close>

definition evm_create_enter ::
    "'b exec \<Rightarrow> 'b evm_env \<Rightarrow> 'b evm \<Rightarrow> evmc_message \<Rightarrow> address \<Rightarrow> (evmc_result \<times> 'b evm) option" where
  "evm_create_enter exec E e message contract_addr =
     (let V = env_ops E;
          value = msg_value message;
          snap = take_snapshot (evm_state e);
          e = upd_state (\<lambda>s. create_contract V s contract_addr) e;
          rv = evm_revision E;
          e = (if rv \<ge> EVMC_SPURIOUS_DRAGON then upd_state (\<lambda>s. set_nonce V s contract_addr 1) e else e);
          e = upd_state (\<lambda>s. subtract_from_balance V s (msg_sender message) value) e;
          e = upd_state (\<lambda>s. add_to_balance V s contract_addr value) e;
          deploy_message =
            \<lparr>msg_kind = EVMC_CALL, msg_flags = 0, msg_depth = msg_depth message, msg_gas = msg_gas message,
             msg_destination = contract_addr, msg_sender = msg_sender message, msg_input = [],
             msg_value = msg_value message, msg_create2_salt = 0\<rparr>
      in case exec e deploy_message (msg_input message) of
           None \<Rightarrow> None
         | Some (res, e) \<Rightarrow>
             let (res, e) = deploy_code E contract_addr res e;
                 res = (if res_status res = EVMC_SUCCESS then res\<lparr>res_create_address := contract_addr\<rparr> else res)
             in Some (revert_failed snap res e))"

definition contract_address :: "'b evm_env \<Rightarrow> evmc_message \<Rightarrow> u64 \<Rightarrow> address" where
  "contract_address E message nonce =
     (if msg_kind message = EVMC_CREATE then create_address (env_keccak256 E) (msg_sender message) nonce
      else if msg_kind message = EVMC_CREATE2
      then create2_address (env_keccak256 E) (msg_sender message) (msg_create2_salt message)
             (env_keccak256 E (msg_input message))
      else 0)"

definition evm_create :: "'b exec \<Rightarrow> 'b evm_env \<Rightarrow> 'b evm \<Rightarrow> evmc_message \<Rightarrow> (evmc_result \<times> 'b evm) option" where
  "evm_create exec E e message =
     (let V = env_ops E;
          (b, e) = on_state (\<lambda>s. get_balance V s (msg_sender message)) e
      in if b < msg_value message then Some (new_result EVMC_INSUFFICIENT_BALANCE (msg_gas message) [], e)
         else
         let (nonce, e) = on_state (\<lambda>s. get_nonce V s (msg_sender message)) e;
             e = upd_state (\<lambda>s. set_nonce V s (msg_sender message) (nonce + 1)) e;
             contract_addr = contract_address E message nonce;
             e = upd_state (\<lambda>s. snd (access_account s contract_addr)) e;
             (contract_nonce, e) = on_state (\<lambda>s. get_nonce V s contract_addr) e;
             (contract_hash, e) = on_state (\<lambda>s. get_code_hash V s contract_addr) e
         in if contract_nonce \<noteq> 0 \<or> contract_hash \<noteq> kEmptyHash
            then Some (new_result EVMC_INVALID_INSTRUCTION 0 [], e)
            else evm_create_enter exec E e message contract_addr)"

definition precompiled_result :: "'b evm_env \<Rightarrow> evmc_message \<Rightarrow> evmc_result" where
  "precompiled_result E message =
     (let num = unat (ucast (msg_destination message) :: u8);
          input = msg_input message;
          gas = env_precompiled_gas E (num - 1) input (evm_revision E)
      in if sint gas < 0 \<or> sint gas > sint (msg_gas message) then new_result EVMC_OUT_OF_GAS (msg_gas message) []
         else case env_precompiled_run E (num - 1) input of
                Some output \<Rightarrow> new_result EVMC_SUCCESS (msg_gas message - gas) output
              | None \<Rightarrow> new_result EVMC_PRECOMPILE_FAILURE (msg_gas message) [])"

text \<open>The transfer of the value of a call.\<close>

definition call_transfer :: "'b evm_env \<Rightarrow> evmc_message \<Rightarrow> 'b evm \<Rightarrow> 'b evm" where
  "call_transfer E message e =
     (if msg_kind message = EVMC_CALL then
        if msg_flags message AND 1 \<noteq> 0 then upd_state (touch (msg_destination message)) e
        else upd_state (\<lambda>s. add_to_balance (env_ops E) s (msg_destination message) (msg_value message))
               (upd_state (\<lambda>s. subtract_from_balance (env_ops E) s (msg_sender message) (msg_value message)) e)
      else e)"

text \<open>The message that the code runs with.\<close>

definition call_message :: "evmc_message \<Rightarrow> 'b evm \<Rightarrow> evmc_message" where
  "call_message message e =
     (if msg_kind message = EVMC_CALLCODE then message\<lparr>msg_destination := msg_sender message\<rparr>
      else if msg_kind message = EVMC_DELEGATECALL then message\<lparr>msg_destination := hd (evm_address_stack e)\<rparr>
      else message)"

text \<open>\<open>call\<close> from the snapshot on.\<close>

definition evm_call_enter :: "'b exec \<Rightarrow> 'b evm_env \<Rightarrow> 'b evm \<Rightarrow> evmc_message \<Rightarrow> (evmc_result \<times> 'b evm) option" where
  "evm_call_enter exec E e message =
     (let V = env_ops E;
          snap = take_snapshot (evm_state e);
          e = call_transfer E message e
      in if is_precompiled E (msg_destination message)
         then Some (revert_failed snap (precompiled_result E message) e)
         else
           let (c, e) = on_state (\<lambda>s. get_code V s (msg_destination message)) e
           in if c = [] then Some (new_result EVMC_SUCCESS (msg_gas message) [], e)
              else
                let e = snd (on_state (\<lambda>s. get_code_hash V s (msg_destination message)) e)
                in case exec e (call_message message e) c of
                     None \<Rightarrow> None
                   | Some (res, e) \<Rightarrow> Some (revert_failed snap res e))"

definition evm_call :: "'b exec \<Rightarrow> 'b evm_env \<Rightarrow> 'b evm \<Rightarrow> evmc_message \<Rightarrow> (evmc_result \<times> 'b evm) option" where
  "evm_call exec E e message =
     (let V = env_ops E;
          res = new_result EVMC_SUCCESS (msg_gas message) [];
          (poor, e) =
            (if msg_kind message \<noteq> EVMC_DELEGATECALL
             then case on_state (\<lambda>s. get_balance V s (msg_sender message)) e of (b, e) \<Rightarrow> (b < msg_value message, e)
             else (False, e))
      in if poor then Some (res\<lparr>res_status := EVMC_INSUFFICIENT_BALANCE\<rparr>, e)
         else
         let (skip, e) =
               (if msg_value message = 0 \<and> evm_revision E \<ge> EVMC_SPURIOUS_DRAGON
                then case on_state (\<lambda>s. exists_account V s (msg_destination message)) e of
                       (x, e) \<Rightarrow> (\<not> x \<and> \<not> is_precompiled E (msg_destination message), e)
                else (False, e))
         in if skip then Some (res, e) else evm_call_enter exec E e message)"

definition host_call :: "'b exec \<Rightarrow> 'b evm_env \<Rightarrow> 'b evm \<Rightarrow> evmc_message \<Rightarrow> (evmc_result \<times> 'b evm) option" where
  "host_call exec E e message =
     (if msg_kind message = EVMC_CREATE \<or> msg_kind message = EVMC_CREATE2 then
        map_option (\<lambda>(res, e).
            if res_status res = EVMC_REVERT then (res, e)
            else ((new_result (res_status res) (res_gas_left res) [])\<lparr>res_create_address := res_create_address res\<rparr>, e))
          (evm_create exec E e message)
      else evm_call exec E e message)"

section \<open>Execution\<close>

definition map_fst :: "('a \<Rightarrow> 'c) \<Rightarrow> 'a \<times> 'd \<Rightarrow> 'c \<times> 'd" where
  "map_fst f = (\<lambda>(x, e). (f x, e))"

fun host_request_step ::
    "'b exec \<Rightarrow> 'b evm_env \<Rightarrow> 'b evm \<Rightarrow> host_request \<Rightarrow> (host_response \<times> 'b evm) option" where
  "host_request_step exec E e (AccountExists a) = Some (map_fst RBool (host_account_exists E e a))"
| "host_request_step exec E e (AccessAccount a) = Some (map_fst RAccess (host_access_account E e a))"
| "host_request_step exec E e (AccessStorage a k) = Some (map_fst RAccess (on_state (\<lambda>s. access_storage s a k) e))"
| "host_request_step exec E e (GetStorage a k) =
     Some (map_fst RBytes32 (on_state (\<lambda>s. get_current_storage (env_ops E) s a k) e))"
| "host_request_step exec E e (SetStorage a k v) = Some (map_fst RStorage (host_set_storage E e a k v))"
| "host_request_step exec E e (GetBalance a) = Some (map_fst RUint256 (on_state (\<lambda>s. get_balance (env_ops E) s a) e))"
| "host_request_step exec E e (GetCodeSize a) =
     Some (map_fst (\<lambda>c. RSize (length c)) (on_state (\<lambda>s. get_code (env_ops E) s a) e))"
| "host_request_step exec E e (GetCodeHash a) = Some (map_fst RBytes32 (host_get_code_hash E e a))"
| "host_request_step exec E e (CopyCode a off n) = Some (map_fst RBytes (host_copy_code E e a off n))"
| "host_request_step exec E e (SelfDestruct a b) = Some (RUnit, host_selfdestruct E e a b)"
| "host_request_step exec E e (Call m) = map_option (map_fst RResult) (host_call exec E e m)"
| "host_request_step exec E e GetTxContext = Some (RContext (host_get_tx_context E), e)"
| "host_request_step exec E e (GetBlockHash n) = Some (map_fst RBytes32 (host_get_block_hash E e n))"
| "host_request_step exec E e (EmitLog a d ts) =
     Some (RUnit, upd_state (add_log \<lparr>log_address = a, log_topics = ts, log_data = d\<rparr>) e)"

primrec run_vm :: "'b exec \<Rightarrow> 'b evm_env \<Rightarrow> vm \<Rightarrow> 'b evm \<Rightarrow> (evmc_result \<times> 'b evm) option" where
  "run_vm exec E (Done r) = (\<lambda>e. Some (r, e))"
| "run_vm exec E (Ask q k) =
     (\<lambda>e. case host_request_step exec E e q of None \<Rightarrow> None | Some (resp, e) \<Rightarrow> run_vm exec E (k resp) e)"

text \<open>\<open>EVM::execute(message, code, code_hash)\<close>; the fuel bounds the depth of nested calls.\<close>

fun evm_execute :: "nat \<Rightarrow> 'b evm_env \<Rightarrow> 'b evm \<Rightarrow> evmc_message \<Rightarrow> bytes \<Rightarrow> (evmc_result \<times> 'b evm) option" where
  "evm_execute 0 E e msg c = None"
| "evm_execute (Suc n) E e msg c =
     (let e = e\<lparr>evm_address_stack := msg_destination msg # evm_address_stack e\<rparr>
      in case run_vm (evm_execute n E) E (env_interpreter E (evm_revision E) msg c) e of
           None \<Rightarrow> None
         | Some (res, e) \<Rightarrow> Some (res, e\<lparr>evm_address_stack := tl (evm_address_stack e)\<rparr>))"

text \<open>\<open>EVM::execute(txn, gas)\<close>; \<open>E\<close> carries the transaction.\<close>

definition evm_execute_txn :: "nat \<Rightarrow> 'b evm_env \<Rightarrow> 'b evm \<Rightarrow> u64 \<Rightarrow> (call_result \<times> 'b evm) option" where
  "evm_execute_txn fuel E e gas =
     (let txn = env_txn E;
          contract_creation = (tx_to txn = None);
          message =
            \<lparr>msg_kind = (if contract_creation then EVMC_CREATE else EVMC_CALL), msg_flags = 0, msg_depth = 0,
             msg_gas = gas, msg_destination = (case tx_to txn of Some a \<Rightarrow> a | None \<Rightarrow> 0),
             msg_sender = the (tx_from txn), msg_input = tx_data txn, msg_value = tx_value txn,
             msg_create2_salt = 0\<rparr>
      in map_option (\<lambda>(res, e). (\<lparr>cr_status = res_status res, cr_gas_left = res_gas_left res, cr_data = res_output res\<rparr>, e))
           (if contract_creation then evm_create (evm_execute fuel E) E e message
            else evm_call (evm_execute fuel E) E e message))"

end
