(* ===== verification/Evm_Correct.thy ===== *)
theory Evm_Correct
  imports Evm
begin

text \<open>
  The machine of Evm returns, and a failed call leaves no trace: enough fuel for the deepest nesting of calls,
  every state change of the machine as a run of the operations of the intra-block state, and the
  reversion of failed message calls.
\<close>

section \<open>Fuel\<close>

text \<open>
  An interpreter respects the call depth when all calls it makes for a message of depth d have depth d + 1
  and none is made at depth 1024 (the EVMC call depth limit).
\<close>

primrec calls_bounded :: "nat \<Rightarrow> vm \<Rightarrow> bool" where
  "calls_bounded d (Done r) = True"
| "calls_bounded d (Ask q k) =
     ((\<forall>m. q = Call m \<longrightarrow> msg_depth m = Suc d \<and> d < 1024) \<and> (\<forall>resp. calls_bounded d (k resp)))"

definition depth_limited :: "'b evm_env \<Rightarrow> bool" where
  "depth_limited E \<longleftrightarrow> (\<forall>rv m c. calls_bounded (msg_depth m) (env_interpreter E rv m c))"

definition returns_at :: "'b exec \<Rightarrow> nat \<Rightarrow> bool" where
  "returns_at exec d \<longleftrightarrow> (\<forall>e m c. msg_depth m = d \<longrightarrow> exec e m c \<noteq> None)"

lemma evm_create_returns:
  assumes "returns_at exec (msg_depth m)"
  shows "evm_create exec E e m \<noteq> None"
proof -
  have "evm_create_enter exec E e m a \<noteq> None" for e a
    using assms unfolding evm_create_enter_def returns_at_def Let_def
    by (auto simp del: not_None_eq split: prod.split option.split)
  then show ?thesis
    unfolding evm_create_def Let_def by (auto simp del: not_None_eq split: prod.split)
qed

lemma evm_call_returns:
  assumes "returns_at exec (msg_depth m)"
  shows "evm_call exec E e m \<noteq> None"
proof -
  have "msg_depth (call_message m e) = msg_depth m" for e :: "'a evm"
    by (simp add: call_message_def)
  then have "evm_call_enter exec E e m \<noteq> None" for e
    using assms unfolding evm_call_enter_def returns_at_def Let_def
    by (auto simp del: not_None_eq split: prod.split option.split)
  then show ?thesis
    unfolding evm_call_def Let_def by (auto simp del: not_None_eq split: prod.split)
qed

lemma host_call_returns:
  assumes "returns_at exec (msg_depth m)"
  shows "host_call exec E e m \<noteq> None"
  using evm_create_returns [OF assms, of E e] evm_call_returns [OF assms, of E e]
  by (simp add: host_call_def del: not_None_eq)

lemma run_vm_returns:
  assumes "returns_at exec (Suc d) \<or> 1024 \<le> d"
  shows "calls_bounded d t \<Longrightarrow> run_vm exec E t e \<noteq> None"
proof (induction t arbitrary: e)
  case (Ask q k)
  have "host_request_step exec E e q \<noteq> None"
  proof (cases "\<exists>m. q = Call m")
    case True
    then obtain m where m: "q = Call m" by blast
    with Ask.prems have "msg_depth m = Suc d" "d < 1024" by auto
    with assms m show ?thesis using host_call_returns [of exec m E e] by simp
  next
    case False
    then show ?thesis by (cases q) auto
  qed
  with Ask show ?case by (auto split: option.split)
qed simp

lemma evm_execute_returns:
  assumes "depth_limited E"
  shows "msg_depth m \<le> 1024 \<Longrightarrow> 1025 \<le> fuel + msg_depth m \<Longrightarrow> evm_execute fuel E e m c \<noteq> None"
proof (induction fuel arbitrary: e m c)
  case (Suc n)
  have "returns_at (evm_execute n E) (Suc (msg_depth m)) \<or> 1024 \<le> msg_depth m"
    using Suc by (auto simp: returns_at_def)
  then have "run_vm (evm_execute n E) E (env_interpreter E (evm_revision E) m c) e' \<noteq> None" for e'
    using assms by (intro run_vm_returns) (simp, unfold depth_limited_def, blast)
  then show ?case by (auto simp: Let_def split: option.split)
qed simp

lemma evm_execute_txn_some:
  assumes "depth_limited E"
  shows "\<exists>res e'. evm_execute_txn 1025 E e gas = Some (res, e')"
proof -
  have "returns_at (evm_execute 1025 E) 0"
    using evm_execute_returns [OF assms, of _ 1025] by (simp add: returns_at_def)
  then have "evm_execute_txn 1025 E e gas \<noteq> None"
    using evm_create_returns [of "evm_execute 1025 E"] evm_call_returns [of "evm_execute 1025 E"]
    unfolding evm_execute_txn_def Let_def by (simp del: not_None_eq)
  then show ?thesis
    by auto
qed

text \<open>
  C3.  The execution of a transaction always returns a result: with an interpreter that respects the
  call depth limit of 1024, fuel 1025 is enough for every message call and contract creation, however calls
  are nested.
\<close>

theorem evm_execute_txn_returns:
  assumes "depth_limited E"
  shows "\<exists>res e'. evm_execute_txn 1025 E e gas = Some (res, e')"
  using assms by (rule evm_execute_txn_some)

theorem evm_execute_txn_returns_witness:
  "\<exists>res e'. evm_execute_txn 1025
      \<lparr>env_ops = memory_buffer_ops (\<lambda>_. 0), env_keccak256 = (\<lambda>_. 0),
       env_interpreter = (\<lambda>rv m c. if msg_depth m < 1024
           then Ask (Call (m\<lparr>msg_depth := Suc (msg_depth m)\<rparr>)) (\<lambda>resp. Done (new_result EVMC_SUCCESS 0 []))
           else Done (new_result EVMC_SUCCESS 0 [])),
       env_precompiled_gas = (\<lambda>_ _ _. 0), env_precompiled_run = (\<lambda>_ _. None),
       env_block = \<lparr>transactions = [], ommers = [], blk_header = undefined\<rparr>, env_config = kMainnetConfig,
       env_txn = new_transaction\<rparr>
      \<lparr>evm_state = new_ibs new_memory_buffer, evm_block_hashes = [], evm_address_stack = []\<rparr> 100 = Some (res, e')"
  by (rule evm_execute_txn_returns) (auto simp: depth_limited_def)

section \<open>Every state change of the machine is a run of the state\<close>

lemma ibs_run_trans:
  assumes "ibs_run keccak256 V t u" "ibs_run keccak256 V s t"
  shows "ibs_run keccak256 V s u"
  using assms by (induction rule: ibs_run.induct) (auto intro: run_op run_revert)

definition evm_run :: "'b evm_env \<Rightarrow> 'b evm \<Rightarrow> 'b evm \<Rightarrow> bool" where
  "evm_run E e e' \<longleftrightarrow> ibs_run (env_keccak256 E) (env_ops E) (evm_state e) (evm_state e')"

lemma evm_run_refl [simp]: "evm_run E e e"
  by (simp add: evm_run_def run_refl)

lemma evm_run_trans [trans]: "evm_run E e e' \<Longrightarrow> evm_run E e' e'' \<Longrightarrow> evm_run E e e''"
  unfolding evm_run_def by (rule ibs_run_trans)

lemma evm_run_stack [simp]: "evm_run E e (e'\<lparr>evm_address_stack := x\<rparr>) = evm_run E e e'"
    "evm_run E (e\<lparr>evm_address_stack := x\<rparr>) e' = evm_run E e e'"
    "evm_run E e (e'\<lparr>evm_block_hashes := y\<rparr>) = evm_run E e e'"
  by (simp_all add: evm_run_def)

lemma evm_run_op:
  assumes "ibs_op (env_keccak256 E) (env_ops E) (evm_state e) s"
  shows "evm_run E e (e\<lparr>evm_state := s\<rparr>)"
  using run_op [OF run_refl assms] by (simp add: evm_run_def)

lemma upd_state_run:
  assumes "\<And>s. ibs_op (env_keccak256 E) (env_ops E) s (f s)"
  shows "evm_run E e (upd_state f e)"
  unfolding upd_state_def by (rule evm_run_op) (rule assms)

lemma on_state_run:
  assumes "\<And>s. ibs_op (env_keccak256 E) (env_ops E) s (snd (f s))"
  shows "evm_run E e (snd (on_state f e))"
proof -
  have "snd (on_state f e) = e\<lparr>evm_state := snd (f (evm_state e))\<rparr>"
    by (simp add: on_state_def case_prod_beta)
  then show ?thesis using evm_run_op assms by metis
qed

lemma getter_ops:
  "ibs_op k V s (snd (get_balance V s a))" "ibs_op k V s (snd (get_nonce V s a))" "ibs_op k V s (snd (get_code_hash V s a))"
  "ibs_op k V s (snd (exists_account V s a))" "ibs_op k V s (snd (is_dead V s a))"
  "ibs_op k V s (snd (get_current_storage V s a l))" "ibs_op k V s (snd (get_original_storage V s a l))"
  by (simp_all add: getter_states get_current_storage_def get_original_storage_def op_get_object op_get_storage)

lemmas state_ops = getter_ops ibs_op.intros

lemma update_runs:
  "evm_run E e (upd_state (\<lambda>s. create_contract (env_ops E) s a) e)"
  "evm_run E e (upd_state (record_suicide a) e)" "evm_run E e (upd_state (touch a) e)"
  "evm_run E e (upd_state (\<lambda>s. set_balance (env_ops E) s a v) e)"
  "evm_run E e (upd_state (\<lambda>s. add_to_balance (env_ops E) s a v) e)"
  "evm_run E e (upd_state (\<lambda>s. subtract_from_balance (env_ops E) s a v) e)"
  "evm_run E e (upd_state (\<lambda>s. set_nonce (env_ops E) s a n) e)"
  "evm_run E e (upd_state (\<lambda>s. set_code (env_keccak256 E) (env_ops E) s a c) e)"
  "evm_run E e (upd_state (\<lambda>s. snd (access_account s a)) e)"
  "evm_run E e (upd_state (\<lambda>s. set_storage (env_ops E) s a l w) e)"
  "evm_run E e (upd_state (add_log lg) e)" "evm_run E e (upd_state (add_refund r) e)"
  "evm_run E e (upd_state (subtract_refund r) e)"
  by (rule upd_state_run, rule state_ops)+

lemma set_refund_run: "evm_run E e (upd_state (\<lambda>s. s\<lparr>refund := f (refund s)\<rparr>) e)"
proof (rule upd_state_run)
  show "ibs_op (env_keccak256 E) (env_ops E) s (s\<lparr>refund := f (refund s)\<rparr>)" for s
    using op_add_refund [of "env_keccak256 E" "env_ops E" s "f (refund s) - refund s"] by (simp add: add_refund_def)
qed

lemma query_runs:
  "evm_run E e (snd (on_state (\<lambda>s. get_balance (env_ops E) s a) e))"
  "evm_run E e (snd (on_state (\<lambda>s. get_nonce (env_ops E) s a) e))"
  "evm_run E e (snd (on_state (\<lambda>s. get_code_hash (env_ops E) s a) e))"
  "evm_run E e (snd (on_state (\<lambda>s. exists_account (env_ops E) s a) e))"
  "evm_run E e (snd (on_state (\<lambda>s. is_dead (env_ops E) s a) e))"
  "evm_run E e (snd (on_state (\<lambda>s. get_current_storage (env_ops E) s a l) e))"
  "evm_run E e (snd (on_state (\<lambda>s. get_original_storage (env_ops E) s a l) e))"
  "evm_run E e (snd (on_state (\<lambda>s. access_account s a) e))"
  "evm_run E e (snd (on_state (\<lambda>s. access_storage s a l) e))"
  "evm_run E e (snd (on_state (\<lambda>s. get_code (env_ops E) s a) e))"
  by (rule on_state_run, rule state_ops)+

lemmas machine_runs = update_runs query_runs set_refund_run
lemmas machine_steps = machine_runs [THEN evm_run_trans [rotated]]

lemma fst_on_state [simp]: "fst (on_state g e) = fst (g (evm_state e))"
  by (simp add: on_state_def case_prod_beta)

lemma host_account_exists_run: "evm_run E e (snd (host_account_exists E e a))"
  using machine_runs by (auto simp: host_account_exists_def case_prod_beta)

lemma host_access_account_run: "evm_run E e (snd (host_access_account E e a))"
  using machine_runs by (auto simp: host_access_account_def)

lemma host_get_code_hash_run: "evm_run E e (snd (host_get_code_hash E e a))"
  by (auto simp: host_get_code_hash_def case_prod_beta intro!: machine_steps)

lemma host_copy_code_run: "evm_run E e (snd (host_copy_code E e a off n))"
  using machine_runs by (auto simp: host_copy_code_def case_prod_beta)

lemma host_selfdestruct_run: "evm_run E e (host_selfdestruct E e a b)"
  by (auto simp: host_selfdestruct_def Let_def case_prod_beta intro!: machine_steps)

lemma host_set_storage_run: "evm_run E e (snd (host_set_storage E e a k v))"
  unfolding host_set_storage_def Let_def case_prod_beta
  by (auto intro!: machine_steps)

lemma host_get_block_hash_run: "evm_run E e (snd (host_get_block_hash E e n))"
  by (simp add: host_get_block_hash_def Let_def)

text \<open>Calls and creations, for an execution of the code that is itself a run.\<close>

definition runs :: "'b evm_env \<Rightarrow> 'b exec \<Rightarrow> bool" where
  "runs E exec \<longleftrightarrow> (\<forall>e m c r e'. exec e m c = Some (r, e') \<longrightarrow> evm_run E e e')"

lemma revert_failed_run:
  assumes "evm_run E e0 e" "evm_run E e e'" and "revert_failed (take_snapshot (evm_state e)) res e' = (r, e'')"
  shows "evm_run E e0 e''"
  using assms run_revert [of "env_keccak256 E" "env_ops E" "evm_state e0" "evm_state e" "evm_state e'"] evm_run_trans [of E e0 e e']
  by (auto simp: revert_failed_def evm_run_def upd_state_def split: if_splits)

lemma deploy_code_run: "evm_run E e (snd (deploy_code E a res e))"
  by (auto simp: deploy_code_def Let_def intro: machine_runs)

text \<open>The machine when the code of a new contract starts, the message it starts with and the result it gives.\<close>

definition create_entry :: "'b evm_env \<Rightarrow> 'b evm \<Rightarrow> evmc_message \<Rightarrow> address \<Rightarrow> 'b evm" where
  "create_entry E e m a =
     (let e1 = upd_state (\<lambda>s. create_contract (env_ops E) s a) e;
          e2 = (if evm_revision E \<ge> EVMC_SPURIOUS_DRAGON then upd_state (\<lambda>s. set_nonce (env_ops E) s a 1) e1 else e1)
      in upd_state (\<lambda>s. add_to_balance (env_ops E) s a (msg_value m))
           (upd_state (\<lambda>s. subtract_from_balance (env_ops E) s (msg_sender m) (msg_value m)) e2))"

definition deploy_message :: "evmc_message \<Rightarrow> address \<Rightarrow> evmc_message" where
  "deploy_message m a =
     \<lparr>msg_kind = EVMC_CALL, msg_flags = 0, msg_depth = msg_depth m, msg_gas = msg_gas m, msg_destination = a,
      msg_sender = msg_sender m, msg_input = [], msg_value = msg_value m, msg_create2_salt = 0\<rparr>"

definition with_address :: "address \<Rightarrow> evmc_result \<Rightarrow> evmc_result" where
  "with_address a res = (if res_status res = EVMC_SUCCESS then res\<lparr>res_create_address := a\<rparr> else res)"

lemma evm_create_enter_ends:
  assumes "evm_create_enter exec E e m a = Some (r, e')"
  obtains x where "exec (create_entry E e m a) (deploy_message m a) (msg_input m) = Some x"
    "revert_failed (take_snapshot (evm_state e)) (with_address a (fst (deploy_code E a (fst x) (snd x))))
       (snd (deploy_code E a (fst x) (snd x))) = (r, e')"
proof (cases "exec (create_entry E e m a) (deploy_message m a) (msg_input m)")
  case None
  then show thesis
    using assms by (simp add: evm_create_enter_def create_entry_def deploy_message_def Let_def)
next
  case (Some x)
  moreover have "revert_failed (take_snapshot (evm_state e)) (with_address a (fst (deploy_code E a (fst x) (snd x))))
       (snd (deploy_code E a (fst x) (snd x))) = (r, e')"
    using assms Some
    unfolding evm_create_enter_def create_entry_def deploy_message_def with_address_def Let_def case_prod_beta by simp
  ultimately show thesis by (rule that)
qed

lemma create_entry_run: "evm_run E e (create_entry E e m a)"
  by (auto simp: create_entry_def Let_def intro!: machine_steps)

lemma deploy_run:
  assumes "runs E exec" "exec (create_entry E e m a) (deploy_message m a) (msg_input m) = Some x"
  shows "evm_run E e (snd (deploy_code E a (fst x) (snd x)))"
proof -
  have "evm_run E (create_entry E e m a) (snd x)"
    using assms unfolding runs_def by (metis prod.collapse)
  then show ?thesis
    using evm_run_trans [OF evm_run_trans [OF create_entry_run] deploy_code_run] by blast
qed

lemma evm_create_enter_run:
  assumes "runs E exec" "evm_create_enter exec E e m a = Some (r, e')"
  shows "evm_run E e e'"
  using assms(2)
  by (rule evm_create_enter_ends) (rule revert_failed_run [OF evm_run_refl deploy_run [OF assms(1)]])

text \<open>The machine after the checks of a creation: the nonce of the sender is raised, the new address is warm.\<close>

definition create_checked :: "'b evm_env \<Rightarrow> 'b evm \<Rightarrow> evmc_message \<Rightarrow> 'b evm" where
  "create_checked E e m =
     (let e1 = snd (on_state (\<lambda>s. get_balance (env_ops E) s (msg_sender m)) e);
          n = on_state (\<lambda>s. get_nonce (env_ops E) s (msg_sender m)) e1;
          a = contract_address E m (fst n);
          e2 = upd_state (\<lambda>s. snd (access_account s a)) (upd_state (\<lambda>s. set_nonce (env_ops E) s (msg_sender m) (fst n + 1)) (snd n))
      in snd (on_state (\<lambda>s. get_code_hash (env_ops E) s a) (snd (on_state (\<lambda>s. get_nonce (env_ops E) s a) e2))))"

lemma evm_create_cases:
  assumes "evm_create exec E e m = Some (r, e')"
  obtains "fst (get_balance (env_ops E) (evm_state e) (msg_sender m)) < msg_value m"
      "e' = snd (on_state (\<lambda>s. get_balance (env_ops E) s (msg_sender m)) e)"
      "r = new_result EVMC_INSUFFICIENT_BALANCE (msg_gas m) []"
  | "msg_value m \<le> fst (get_balance (env_ops E) (evm_state e) (msg_sender m))"
      "e' = create_checked E e m" "r = new_result EVMC_INVALID_INSTRUCTION 0 []"
  | a where "msg_value m \<le> fst (get_balance (env_ops E) (evm_state e) (msg_sender m))"
      "evm_create_enter exec E (create_checked E e m) m a = Some (r, e')"
proof (cases "fst (get_balance (env_ops E) (evm_state e) (msg_sender m)) < msg_value m")
  case True
  then show thesis
    using assms that(1) unfolding evm_create_def Let_def by (simp add: case_prod_beta on_state_def)
next
  case False
  then have "e' = create_checked E e m \<and> r = new_result EVMC_INVALID_INSTRUCTION 0 [] \<or>
      (\<exists>a. evm_create_enter exec E (create_checked E e m) m a = Some (r, e'))"
    using assms unfolding evm_create_def create_checked_def Let_def
    by (auto simp: case_prod_beta fst_on_state split: if_splits)
  then show thesis
    using False that(2,3) by fastforce
qed

lemma create_checked_run: "evm_run E e (create_checked E e m)"
  by (auto simp: create_checked_def Let_def intro!: machine_steps)

lemma evm_create_run:
  assumes "runs E exec" "evm_create exec E e m = Some (r, e')"
  shows "evm_run E e e'"
  using assms(2)
proof (cases rule: evm_create_cases)
  case 1
  then show ?thesis by (simp add: machine_runs)
next
  case 2
  then show ?thesis by (simp add: create_checked_run)
next
  case (3 a)
  then show ?thesis
    using evm_run_trans [OF create_checked_run evm_create_enter_run [OF assms(1)]] by blast
qed

lemma call_transfer_run: "evm_run E e (call_transfer E m e)"
  by (auto simp: call_transfer_def intro!: machine_steps)

text \<open>The machine when the code of a called account starts; a call that is entered ends in one of three ways.\<close>

definition call_entry :: "'b evm_env \<Rightarrow> evmc_message \<Rightarrow> 'b evm \<Rightarrow> 'b evm" where
  "call_entry E m e =
     snd (on_state (\<lambda>s. get_code_hash (env_ops E) s (msg_destination m))
       (snd (on_state (\<lambda>s. get_code (env_ops E) s (msg_destination m)) (call_transfer E m e))))"

lemma evm_call_enter_cases:
  assumes "evm_call_enter exec E e m = Some (r, e')"
  obtains "revert_failed (take_snapshot (evm_state e)) (precompiled_result E m) (call_transfer E m e) = (r, e')"
  | "e' = snd (on_state (\<lambda>s. get_code (env_ops E) s (msg_destination m)) (call_transfer E m e))"
      "r = new_result EVMC_SUCCESS (msg_gas m) []"
  | res e4 where "exec (call_entry E m e) (call_message m (call_entry E m e))
        (fst (get_code (env_ops E) (evm_state (call_transfer E m e)) (msg_destination m))) = Some (res, e4)"
      "revert_failed (take_snapshot (evm_state e)) res e4 = (r, e')"
  using assms unfolding evm_call_enter_def Let_def
  by (auto simp: case_prod_beta call_entry_def split: if_splits option.splits)

lemma call_entry_run: "evm_run E e (call_entry E m e)"
  by (auto simp: call_entry_def intro!: machine_steps call_transfer_run)

text \<open>So it ends with success, or reverts to its snapshot.\<close>

lemma evm_call_enter_ends:
  assumes "runs E exec" "evm_call_enter exec E e m = Some (r, e')"
  shows "\<exists>e1. evm_run E e e1 \<and> (res_status r = EVMC_SUCCESS \<and> e' = e1 \<or>
    (\<exists>res. revert_failed (take_snapshot (evm_state e)) res e1 = (r, e')))"
  using assms(2)
proof (cases rule: evm_call_enter_cases)
  case 1
  then show ?thesis using call_transfer_run by blast
next
  case 2
  moreover have "evm_run E e (snd (on_state (\<lambda>s. get_code (env_ops E) s (msg_destination m)) (call_transfer E m e)))"
    by (auto intro!: machine_steps call_transfer_run)
  ultimately show ?thesis by (auto simp: new_result_def)
next
  case (3 res e4)
  then have "evm_run E (call_entry E m e) e4" using assms(1) by (auto simp: runs_def)
  with call_entry_run have "evm_run E e e4" by (rule evm_run_trans)
  with 3(2) show ?thesis by blast
qed

lemma evm_call_enter_run:
  assumes "runs E exec" "evm_call_enter exec E e m = Some (r, e')"
  shows "evm_run E e e'"
  using evm_call_enter_ends [OF assms] revert_failed_run [OF evm_run_refl] by blast

text \<open>The checks before a call only load objects into the cache.\<close>

definition same_state :: "'b evm_env \<Rightarrow> 'b evm \<Rightarrow> 'b evm \<Rightarrow> bool" where
  "same_state E e e' \<longleftrightarrow> same (env_ops E) (evm_state e') (evm_state e) \<and>
     logs (evm_state e') = logs (evm_state e) \<and> refund (evm_state e') = refund (evm_state e)"

lemma same_state_trans: "same_state E e e' \<Longrightarrow> same_state E e' e'' \<Longrightarrow> same_state E e e''"
  unfolding same_state_def using same_trans by metis

lemma same_state_query:
  assumes "\<And>s. snd (f s) = snd (get_object (env_ops E) s a)"
  shows "same_state E e (if c then snd (on_state f e) else e)"
proof -
  have "evm_state (snd (on_state f e)) = snd (get_object (env_ops E) (evm_state e) a)"
    by (simp add: on_state_def case_prod_beta assms)
  then show ?thesis
    by (simp add: same_state_def same_get_object)
qed

lemma evm_call_cases:
  assumes "evm_call exec E e m = Some (r, e')"
  obtains "same_state E e e'" "evm_run E e e'" "r = (new_result EVMC_SUCCESS (msg_gas m) [])\<lparr>res_status := res_status r\<rparr>"
      "res_status r = EVMC_SUCCESS \<or> res_status r = EVMC_INSUFFICIENT_BALANCE"
  | e2 where "same_state E e e2" "evm_run E e e2" "evm_call_enter exec E e2 m = Some (r, e')"
      "msg_kind m \<noteq> EVMC_DELEGATECALL \<Longrightarrow> msg_value m \<le> fst (get_balance (env_ops E) (evm_state e) (msg_sender m))"
proof -
  let ?e1 = "if msg_kind m \<noteq> EVMC_DELEGATECALL then snd (on_state (\<lambda>s. get_balance (env_ops E) s (msg_sender m)) e) else e"
  let ?e2 = "if msg_value m = 0 \<and> evm_revision E \<ge> EVMC_SPURIOUS_DRAGON
    then snd (on_state (\<lambda>s. exists_account (env_ops E) s (msg_destination m)) ?e1) else ?e1"
  have run: "evm_run E e ?e1" "evm_run E e ?e2"
    by (auto intro!: machine_runs machine_steps)
  have e1: "same_state E e ?e1"
    by (rule same_state_query) (rule getter_states)
  have "same_state E ?e1 ?e2"
    by (rule same_state_query) (rule getter_states)
  with e1 have e2: "same_state E e ?e2" by (blast intro: same_state_trans)
  have "(e' = ?e1 \<or> e' = ?e2) \<and> r = (new_result EVMC_SUCCESS (msg_gas m) [])\<lparr>res_status := res_status r\<rparr> \<and>
        (res_status r = EVMC_SUCCESS \<or> res_status r = EVMC_INSUFFICIENT_BALANCE) \<or>
      evm_call_enter exec E ?e2 m = Some (r, e') \<and>
        (msg_kind m \<noteq> EVMC_DELEGATECALL \<longrightarrow> msg_value m \<le> fst (get_balance (env_ops E) (evm_state e) (msg_sender m)))"
    using assms unfolding evm_call_def Let_def
    by (auto simp: case_prod_beta new_result_def not_less split: if_splits)
  then show thesis
    using that(1) that(2) [of ?e2] e1 e2 run by blast
qed

lemma evm_call_run:
  assumes "runs E exec" "evm_call exec E e m = Some (r, e')"
  shows "evm_run E e e'"
  using assms(2)
proof (cases rule: evm_call_cases)
  case (2 e2)
  then show ?thesis
    using evm_call_enter_run [OF assms(1)] evm_run_trans by blast
qed

text \<open>A failed call.\<close>

lemma evm_call_failure:
  assumes "runs E exec" "evm_call exec E e m = Some (r, e')" "res_status r \<noteq> EVMC_SUCCESS"
  shows "same_state E e e' \<and>
    (res_status r = EVMC_REVERT \<or> res_status r = EVMC_INSUFFICIENT_BALANCE \<or> res_gas_left r = 0)"
  using assms(2)
proof (cases rule: evm_call_cases)
  case 1
  then show ?thesis using assms(3) by blast
next
  case (2 e2)
  then obtain e1 res where run: "evm_run E e2 e1" and res: "revert_failed (take_snapshot (evm_state e2)) res e1 = (r, e')"
    using evm_call_enter_ends [OF assms(1)] assms(3) by blast
  have "revertible (env_ops E) (evm_state e2) (evm_state e1)"
    using run unfolding evm_run_def by (rule ibs_run_revertible)
  note restored = revert_to_snapshot_same [OF this]
  have "evm_state e' = revert_to_snapshot (take_snapshot (evm_state e2)) (evm_state e1)"
    and gas: "res_status r = EVMC_REVERT \<or> res_gas_left r = 0"
    using res assms(3) by (auto simp: revert_failed_def upd_state_def split: if_splits)
  with restored have "same_state E e2 e'"
    by (simp add: same_state_def)
  with 2(1) gas show ?thesis
    by (blast intro: same_state_trans)
qed

lemma host_call_run:
  assumes "runs E exec" "host_call exec E e m = Some (r, e')"
  shows "evm_run E e e'"
  using assms evm_create_run [OF assms(1)] evm_call_run [OF assms(1)]
  by (auto simp: host_call_def split: if_splits)

lemma map_fst_eq: "map_fst f p = (r, e) \<longleftrightarrow> r = f (fst p) \<and> e = snd p"
  by (auto simp: map_fst_def split: prod.splits)

lemmas host_runs = machine_runs host_account_exists_run host_access_account_run host_get_code_hash_run
  host_copy_code_run host_selfdestruct_run host_set_storage_run host_get_block_hash_run

lemma host_request_step_run:
  assumes "runs E exec" "host_request_step exec E e q = Some (r, e')"
  shows "evm_run E e e'"
proof (cases "\<exists>m. q = Call m")
  case True
  then show ?thesis
    using assms(2) host_call_run [OF assms(1)] by (auto simp: map_fst_def)
next
  case False
  then show ?thesis
    using assms(2)
    by (cases q)
       (simp_all add: map_fst_eq host_runs, (elim conjE, hypsubst, rule host_runs)+)
qed

lemma run_vm_run:
  assumes "runs E exec"
  shows "run_vm exec E t e = Some (r, e') \<Longrightarrow> evm_run E e e'"
proof (induction t arbitrary: e)
  case (Ask q k)
  then obtain resp e1 where "host_request_step exec E e q = Some (resp, e1)" "run_vm exec E (k resp) e1 = Some (r, e')"
    by (auto split: option.splits)
  then show ?case
    using evm_run_trans [OF host_request_step_run [OF assms] Ask.IH] by blast
qed simp

lemma evm_execute_run: "runs E (evm_execute n E)"
proof (induction n)
  case (Suc n)
  show ?case
    unfolding runs_def
  proof (intro allI impI)
    fix e m c r e'
    assume "evm_execute (Suc n) E e m c = Some (r, e')"
    then obtain e1 where "run_vm (evm_execute n E) E (env_interpreter E (evm_revision E) m c)
        (e\<lparr>evm_address_stack := msg_destination m # evm_address_stack e\<rparr>) = Some (r, e1)"
      and "e' = e1\<lparr>evm_address_stack := tl (evm_address_stack e1)\<rparr>"
      by (auto simp: Let_def split: option.splits)
    with run_vm_run [OF Suc] show "evm_run E e e'" by fastforce
  qed
qed (simp add: runs_def)

text \<open>
  C2.  A failed message call leaves no trace in the state.  Whatever the interpreter does, however deep the
  calls nest and whatever they change: when \<open>call\<close> returns any status but success, balances, nonces, code
  hashes, storage, self-destructs, logs, refund and access lists are what they were before the call, and no gas is
  left unless the status is REVERT or says that the sender could not pay the value.
\<close>

theorem evm_call_failure_restores:
  assumes "evm_call (evm_execute fuel E) E e m = Some (r, e')" and "res_status r \<noteq> EVMC_SUCCESS"
    and "V = env_ops E" and "s = evm_state e" and "s' = evm_state e'"
  shows "fst (exists_account V s' a) = fst (exists_account V s a) \<and>
    fst (get_balance V s' a) = fst (get_balance V s a) \<and> fst (get_nonce V s' a) = fst (get_nonce V s a) \<and>
    fst (get_code_hash V s' a) = fst (get_code_hash V s a) \<and>
    fst (get_current_storage V s' a k) = fst (get_current_storage V s a k) \<and>
    self_destructs s' = self_destructs s \<and> logs s' = logs s \<and> refund s' = refund s \<and>
    fst (access_account s' a) = fst (access_account s a) \<and> fst (access_storage s' a k) = fst (access_storage s a k) \<and>
    (res_status r = EVMC_REVERT \<or> res_status r = EVMC_INSUFFICIENT_BALANCE \<or> res_gas_left r = 0)"
proof -
  have same: "same V s' s" "logs s' = logs s" "refund s' = refund s"
    using evm_call_failure [OF evm_execute_run assms(1,2)] assms(3-5) by (simp_all add: same_state_def)
  have "fst (get_current_storage V s' a k) = fst (get_current_storage V s a k)"
    using same_views(3) [OF same(1), of a k] by (simp add: get_current_storage_def view_storage_def)
  then show ?thesis
    using same same_getters [OF same(1)] same_views(4) [OF same(1)] evm_call_failure [OF evm_execute_run assms(1,2)]
    by (simp add: getters_view)
qed


theorem evm_call_failure_restores_witness:
  "let V = memory_buffer_ops (\<lambda>_. 0);
       s = set_code (\<lambda>_. 1) V (add_to_balance V (new_ibs new_memory_buffer) 5 10) 7 [0xfe];
       E = \<lparr>env_ops = V, env_keccak256 = (\<lambda>_. 1),
            env_interpreter = (\<lambda>rv m c. Ask (SetStorage 7 1 2) (\<lambda>resp. Done (new_result EVMC_FAILURE 3 []))),
            env_precompiled_gas = (\<lambda>_ _ _. 0), env_precompiled_run = (\<lambda>_ _. None),
            env_block = \<lparr>transactions = [], ommers = [], blk_header = undefined\<rparr>,
            env_config = kMainnetConfig\<lparr>fork_blocks := replicate 9 None\<rparr>, env_txn = new_transaction\<rparr>;
       e = \<lparr>evm_state = s, evm_block_hashes = [], evm_address_stack = []\<rparr>;
       m = \<lparr>msg_kind = EVMC_CALL, msg_flags = 0, msg_depth = 0, msg_gas = 9, msg_destination = 7, msg_sender = 5,
            msg_input = [], msg_value = 4, msg_create2_salt = 0\<rparr>;
       out = the (evm_call (evm_execute 1 E) E e m)
   in res_status (fst out) = EVMC_FAILURE \<and> res_gas_left (fst out) = 0 \<and>
      fst (get_balance V (evm_state (snd out)) 5) = 10 \<and> fst (get_current_storage V (evm_state (snd out)) 7 1) = 0"
proof -
  let ?V = "memory_buffer_ops (\<lambda>_. 0)"
  let ?s = "set_code (\<lambda>_. 1) ?V (add_to_balance ?V (new_ibs new_memory_buffer) 5 10) 7 [0xfe]"
  let ?E = "\<lparr>env_ops = ?V, env_keccak256 = (\<lambda>_. 1),
            env_interpreter = (\<lambda>rv m c. Ask (SetStorage 7 1 2) (\<lambda>resp. Done (new_result EVMC_FAILURE 3 []))),
            env_precompiled_gas = (\<lambda>_ _ _. 0), env_precompiled_run = (\<lambda>_ _. None),
            env_block = \<lparr>transactions = [], ommers = [], blk_header = undefined\<rparr>,
            env_config = kMainnetConfig\<lparr>fork_blocks := replicate 9 None\<rparr>, env_txn = new_transaction\<rparr>"
  let ?e = "\<lparr>evm_state = ?s, evm_block_hashes = [], evm_address_stack = []\<rparr>"
  let ?m = "\<lparr>msg_kind = EVMC_CALL, msg_flags = 0, msg_depth = 0, msg_gas = 9, msg_destination = 7, msg_sender = 5,
            msg_input = [], msg_value = 4, msg_create2_salt = 0\<rparr>"
  let ?d = "snd (on_state (\<lambda>s. get_balance ?V s 5) ?e)"
  note defs = memory_buffer_ops_def mb_read_account_def mb_previous_incarnation_def mb_read_code_def
    new_ibs_def new_memory_buffer_def Let_def new_account_def add_to_balance_def subtract_from_balance_def update_current_def
    get_or_create_object_def get_object_def get_balance_def get_current_def emplace_def touch_def kRipemdAddress_def
    new_object_def set_code_def get_code_def on_state_def upd_state_def call_transfer_def kEmptyHash_def
  have rv: "evm_revision ?E = EVMC_FRONTIER"
    by (simp add: evm_revision_def revision_def kMaxRevision_def eval_nat_numeral)
  have "\<not> fst (on_state (\<lambda>s. get_balance ?V s 5) ?e) < 4"
    by (simp add: defs)
  moreover have "fst (on_state (\<lambda>s. get_code ?V s 7) (call_transfer ?E ?m ?d)) \<noteq> []"
    by (simp add: defs)
  moreover have "\<not> is_precompiled ?E 7"
    by (simp add: is_precompiled_def number_of_precompiles_def rv less_eq_evmc_revision_def kNumOfFrontierContracts_def)
  ultimately have "\<exists>r e'. evm_call (evm_execute 1 ?E) ?E ?e ?m = Some (r, e') \<and> res_status r = EVMC_FAILURE"
    by (simp add: evm_call_def evm_call_enter_def Let_def case_prod_beta map_fst_def revert_failed_def new_result_def)
  then obtain r e' where out: "evm_call (evm_execute 1 ?E) ?E ?e ?m = Some (r, e')" "res_status r = EVMC_FAILURE"
    by blast
  have "fst (get_balance ?V ?s 5) = 10" "fst (get_current_storage ?V ?s 7 1) = 0"
    by (simp_all add: defs get_current_storage_def get_storage_def storage_of_def ensure_def new_storage_def mb_read_storage_def)
  then show ?thesis
    using evm_call_failure_restores [OF out(1), of ?V ?s "evm_state e'" 5 1]
      evm_call_failure_restores [OF out(1), of ?V ?s "evm_state e'" 7 1] out
    by (simp add: Let_def)
qed

end
