(* ===== verification/Conservation.thy ===== *)
theory Conservation
  imports Evm_Correct
begin

text \<open>
  The machine of Evm creates no ether: whatever the interpreter asks for, the sum of all balances does not
  grow.
\<close>

section \<open>The machine creates no ether\<close>

definition ebal :: "'b evm_env \<Rightarrow> 'b evm \<Rightarrow> address \<Rightarrow> u256" where
  "ebal E e = bal (env_ops E) (evm_state e)"

definition conserves :: "'b evm_env \<Rightarrow> 'b evm \<Rightarrow> 'b evm \<Rightarrow> bool" where
  "conserves E e e' \<longleftrightarrow> ether (ebal E e) < 2 ^ 256 \<longrightarrow> ether (ebal E e') \<le> ether (ebal E e)"

lemma conserves_trans [trans]: "conserves E e e' \<Longrightarrow> conserves E e' e'' \<Longrightarrow> conserves E e e''"
  by (auto simp: conserves_def)

lemma conserves_same: "ebal E e' = ebal E e \<Longrightarrow> conserves E e e'"
  by (simp add: conserves_def)

lemma ebal_state [simp]:
  "ebal E (upd_state f e) = bal (env_ops E) (f (evm_state e))"
  "ebal E (snd (on_state g e)) = bal (env_ops E) (snd (g (evm_state e)))"
  "ebal E (e\<lparr>evm_address_stack := x\<rparr>) = ebal E e" "ebal E (e\<lparr>evm_block_hashes := y\<rparr>) = ebal E e"
  by (simp_all add: ebal_def upd_state_def on_state_def case_prod_beta)

lemma evm_states [simp]:
  "evm_state (upd_state f e) = f (evm_state e)" "evm_state (snd (on_state g e)) = snd (g (evm_state e))"
  by (simp_all add: upd_state_def on_state_def case_prod_beta)

lemma bal_ebal: "bal (env_ops E) (evm_state e) = ebal E e"
  by (simp add: ebal_def)

lemma fst_get_balance: "fst (get_balance (env_ops E) (evm_state e) a) = ebal E e a"
  by (simp add: ebal_def bal_def)

lemma host_selfdestruct_conserves: "conserves E e (host_selfdestruct E e a b)"
proof -
  let ?f = "ebal E e"
  let ?g = "?f(b := ?f b + ?f a)"
  have "ebal E (host_selfdestruct E e a b) = ?g(a := 0)"
    by (simp add: host_selfdestruct_def Let_def case_prod_beta bal_ebal) (simp add: ebal_def bal_def [symmetric])
  then show ?thesis
    using ether_sweep [of ?f ?g b a] by (simp add: conserves_def)
qed

lemma host_set_storage_ebal: "ebal E (snd (host_set_storage E e a k v)) = ebal E e"
  by (simp add: host_set_storage_def Let_def case_prod_beta) (simp add: ebal_def)

lemma host_queries_ebal:
  "ebal E (snd (host_account_exists E e a)) = ebal E e" "ebal E (snd (host_access_account E e a)) = ebal E e"
  "ebal E (snd (host_get_code_hash E e a)) = ebal E e" "ebal E (snd (host_copy_code E e a off n)) = ebal E e"
  "ebal E (snd (host_get_block_hash E e m)) = ebal E e"
  by (simp_all add: host_account_exists_def host_access_account_def host_get_code_hash_def host_copy_code_def
      host_get_block_hash_def Let_def case_prod_beta bal_ebal)

lemma transfer_ebal:
  assumes "v \<le> ebal E e a" "ebal E e' = (let g = (ebal E e)(a := ebal E e a - v) in g(b := g b + v))"
  shows "conserves E e e'"
  using ether_transfer [of v "ebal E e" a _ b] assms by (simp add: conserves_def Let_def)

lemma call_transfer_conserves:
  assumes "msg_kind m = EVMC_CALL \<longrightarrow> msg_value m \<le> ebal E e (msg_sender m)"
  shows "conserves E e (call_transfer E m e)"
proof (cases "msg_kind m = EVMC_CALL \<and> msg_flags m AND 1 = 0")
  case True
  then show ?thesis
    using assms by (intro transfer_ebal [where a = "msg_sender m" and b = "msg_destination m"])
       (simp_all add: call_transfer_def Let_def ebal_def)
next
  case False
  then show ?thesis
    by (intro conserves_same) (auto simp: call_transfer_def ebal_def)
qed

definition keeps :: "'b evm_env \<Rightarrow> 'b exec \<Rightarrow> bool" where
  "keeps E exec \<longleftrightarrow> (\<forall>e m c r e'. exec e m c = Some (r, e') \<longrightarrow> conserves E e e')"

lemma revert_failed_conserves:
  assumes "evm_run E e e1" "conserves E e e1" "revert_failed (take_snapshot (evm_state e)) res e1 = (r, e')"
  shows "conserves E e e'"
proof (cases "res_status res = EVMC_SUCCESS")
  case False
  have "revertible (env_ops E) (evm_state e) (evm_state e1)"
    using assms(1) unfolding evm_run_def by (rule ibs_run_revertible)
  then have "ebal E e' = ebal E e"
    using assms(3) False bal_revert by (auto simp: revert_failed_def ebal_def)
  then show ?thesis by (rule conserves_same)
qed (use assms in \<open>simp add: revert_failed_def\<close>)


lemma deploy_code_ebal: "ebal E (snd (deploy_code E a res e)) = ebal E e"
  by (simp add: deploy_code_def Let_def bal_ebal)

lemma evm_create_enter_conserves:
  assumes "runs E exec" "keeps E exec" "evm_create_enter exec E e m a = Some (r, e')"
    and "msg_value m \<le> ebal E e (msg_sender m)"
  shows "conserves E e e'"
  using assms(3)
proof (rule evm_create_enter_ends)
  fix x
  assume x: "exec (create_entry E e m a) (deploy_message m a) (msg_input m) = Some x"
  assume res: "revert_failed (take_snapshot (evm_state e)) (with_address a (fst (deploy_code E a (fst x) (snd x))))
       (snd (deploy_code E a (fst x) (snd x))) = (r, e')"
  have "conserves E e (create_entry E e m a)"
    using assms(4) by (intro transfer_ebal [where a = "msg_sender m" and b = a]) (auto simp: create_entry_def Let_def bal_ebal)
  also have "conserves E (create_entry E e m a) (snd x)"
    using assms(2) x unfolding keeps_def by (metis prod.collapse)
  also have "conserves E (snd x) (snd (deploy_code E a (fst x) (snd x)))"
    by (rule conserves_same) (rule deploy_code_ebal)
  finally show "conserves E e e'"
    using revert_failed_conserves [OF deploy_run [OF assms(1) x] _ res] by blast
qed

lemma create_checked_ebal: "ebal E (create_checked E e m) = ebal E e"
  by (simp add: create_checked_def Let_def bal_ebal)

lemma evm_create_conserves:
  assumes "runs E exec" "keeps E exec" "evm_create exec E e m = Some (r, e')"
  shows "conserves E e e'"
  using assms(3)
proof (cases rule: evm_create_cases)
  case 1
  then show ?thesis by (intro conserves_same) (simp add: bal_ebal)
next
  case 2
  then show ?thesis by (intro conserves_same) (simp add: create_checked_ebal)
next
  case (3 a)
  have "conserves E (create_checked E e m) e'"
    using evm_create_enter_conserves [OF assms(1,2) 3(2)] 3(1) by (simp add: create_checked_ebal fst_get_balance)
  then show ?thesis
    using conserves_trans [OF conserves_same [OF create_checked_ebal]] by blast
qed


lemma same_state_ebal: "same_state E e e' \<Longrightarrow> ebal E e' = ebal E e"
  unfolding same_state_def ebal_def using bal_same by blast

lemma evm_call_enter_conserves:
  assumes "runs E exec" "keeps E exec" "evm_call_enter exec E e m = Some (r, e')"
    and "msg_kind m = EVMC_CALL \<longrightarrow> msg_value m \<le> ebal E e (msg_sender m)"
  shows "conserves E e e'"
  using assms(3)
proof (cases rule: evm_call_enter_cases)
  case 1
  then show ?thesis
    using revert_failed_conserves [OF call_transfer_run call_transfer_conserves [OF assms(4)]] by blast
next
  case 2
  then have "ebal E e' = ebal E (call_transfer E m e)" by (simp add: bal_ebal)
  then show ?thesis
    using conserves_trans [OF call_transfer_conserves [OF assms(4)] conserves_same] by blast
next
  case (3 res e4)
  have "ebal E (call_entry E m e) = ebal E (call_transfer E m e)"
    by (simp add: call_entry_def bal_ebal)
  then have "conserves E e (call_entry E m e)"
    using conserves_trans [OF call_transfer_conserves [OF assms(4)] conserves_same] by blast
  moreover have "conserves E (call_entry E m e) e4" "evm_run E (call_entry E m e) e4"
    using 3(1) assms(1,2) by (auto simp: keeps_def runs_def)
  ultimately show ?thesis
    using revert_failed_conserves [OF evm_run_trans [OF call_entry_run] conserves_trans 3(2)] by blast
qed

lemma evm_call_conserves:
  assumes "runs E exec" "keeps E exec" "evm_call exec E e m = Some (r, e')"
  shows "conserves E e e'"
  using assms(3)
proof (cases rule: evm_call_cases)
  case 1
  then show ?thesis by (intro conserves_same same_state_ebal)
next
  case (2 e2)
  have eq: "ebal E e2 = ebal E e" using 2(1) by (rule same_state_ebal)
  have "conserves E e2 e'"
    using evm_call_enter_conserves [OF assms(1,2) 2(3)] 2(4) eq by (simp add: fst_get_balance)
  then show ?thesis
    using conserves_trans [OF conserves_same [OF eq]] by blast
qed

lemma host_call_conserves:
  assumes "runs E exec" "keeps E exec" "host_call exec E e m = Some (r, e')"
  shows "conserves E e e'"
  using assms(3) evm_create_conserves [OF assms(1,2)] evm_call_conserves [OF assms(1,2)]
  by (auto simp: host_call_def split: if_splits)

lemma host_request_step_conserves:
  assumes "runs E exec" "keeps E exec" "host_request_step exec E e q = Some (r, e')"
  shows "conserves E e e'"
proof (cases "(\<exists>m. q = Call m) \<or> (\<exists>a b. q = SelfDestruct a b)")
  case True
  then show ?thesis
    using assms(3) host_call_conserves [OF assms(1,2)] host_selfdestruct_conserves by (auto simp: map_fst_def)
next
  case False
  then have "ebal E e' = ebal E e"
    using assms(3)
    by (cases q) (auto simp: map_fst_eq host_queries_ebal host_set_storage_ebal bal_ebal)
  then show ?thesis by (rule conserves_same)
qed

lemma run_vm_conserves:
  assumes "runs E exec" "keeps E exec"
  shows "run_vm exec E t e = Some (r, e') \<Longrightarrow> conserves E e e'"
proof (induction t arbitrary: e)
  case (Ask q k)
  then obtain resp e1 where "host_request_step exec E e q = Some (resp, e1)" "run_vm exec E (k resp) e1 = Some (r, e')"
    by (auto split: option.splits)
  then show ?case
    using conserves_trans [OF host_request_step_conserves [OF assms] Ask.IH] by blast
qed (simp add: conserves_same)

lemma evm_execute_keeps: "keeps E (evm_execute n E)"
proof (induction n)
  case (Suc n)
  show ?case
    unfolding keeps_def
  proof (intro allI impI)
    fix e m c r e'
    assume "evm_execute (Suc n) E e m c = Some (r, e')"
    then obtain e1 where "run_vm (evm_execute n E) E (env_interpreter E (evm_revision E) m c)
        (e\<lparr>evm_address_stack := msg_destination m # evm_address_stack e\<rparr>) = Some (r, e1)"
      and "e' = e1\<lparr>evm_address_stack := tl (evm_address_stack e1)\<rparr>"
      by (auto simp: Let_def split: option.splits)
    with run_vm_conserves [OF evm_execute_run Suc] show "conserves E e e'"
      by (fastforce simp: conserves_def)
  qed
qed (simp add: keeps_def)

lemma evm_execute_txn_conserves:
  assumes "evm_execute_txn fuel E e gas = Some (res, e')"
  shows "conserves E e e'"
  using assms evm_create_conserves [OF evm_execute_run evm_execute_keeps] evm_call_conserves [OF evm_execute_run evm_execute_keeps]
  by (auto simp: evm_execute_txn_def Let_def split: if_splits)

end
