(* ===== verification/Hash_Builder.thy ===== *)
theory Hash_Builder
  imports Block
begin

text \<open>
  core/silkworm/trie/hash_builder.hpp, hash_builder.cpp and vector_root.hpp: the root hash of a Modified Merkle
  Patricia Trie, built from entries that are added in increasing order of their keys, and the trie of
  a vector, whose keys are the RLP of the indices.

  The optional node collector is a list of the nodes it was called with; \<open>None\<close> is no collector.  The model is that
  of a release build, in which assertions are compiled out: those on increasing keys, on prefixes, on the masks of
  a node and on the sizes of child hashes (hash\_builder.cpp, lines 46, 133, 177, 228 and 260) are no part of it, and a debug
  build stops where one of them fails.  A read past the end of a vector is left unspecified.
\<close>

section \<open>Nodes\<close>

record trie_node =
  state_mask :: u16
  tree_mask :: u16
  hash_mask :: u16
  node_hashes :: "bytes32 list"
  node_root_hash :: "bytes32 option"

definition kEmptyRoot :: bytes32 where
  "kEmptyRoot = 0x56e81f171bcc55a6ff8345e692c0f86e5b48e01b996cadc001622fb5e363b421"

fun unpack_nibbles :: "bytes \<Rightarrow> bytes" where
  "unpack_nibbles [] = []"
| "unpack_nibbles (b # bs) = drop_bit 4 b # (b AND 0xF) # unpack_nibbles bs"

fun prefix_length :: "bytes \<Rightarrow> bytes \<Rightarrow> nat" where
  "prefix_length (a # as) (b # bs) = (if a \<noteq> b then 0 else Suc (prefix_length as bs))"
| "prefix_length _ _ = 0"

text \<open>Pairs of nibbles; the argument has even length.\<close>

fun pack_nibbles :: "bytes \<Rightarrow> bytes" where
  "pack_nibbles (a # b # ps) = (push_bit 4 a + b) # pack_nibbles ps"
| "pack_nibbles _ = []"

definition encode_path :: "bytes \<Rightarrow> bool \<Rightarrow> bytes" where
  "encode_path path terminating =
     (let is_odd = (length path mod 2 \<noteq> 0);
          flag = (if \<not> terminating \<and> \<not> is_odd then 0x00
                  else if \<not> terminating \<and> is_odd then 0x10
                  else if terminating \<and> \<not> is_odd then 0x20
                  else 0x30)
      in if is_odd then (flag OR hd path) # pack_nibbles (tl path) else flag # pack_nibbles path)"

definition leaf_node_rlp :: "bytes \<Rightarrow> bytes \<Rightarrow> bytes" where
  "leaf_node_rlp path value =
     (let encoded_path = encode_path path True
      in encode_header \<lparr>is_list = True, payload_length = length_bytes encoded_path + length_bytes value\<rparr> @
         encode_bytes encoded_path @ encode_bytes value)"

definition extension_node_rlp :: "bytes \<Rightarrow> bytes \<Rightarrow> bytes" where
  "extension_node_rlp path child_ref =
     (let encoded_path = encode_path path False
      in encode_header \<lparr>is_list = True, payload_length = length_bytes encoded_path + word_of_nat (length child_ref)\<rparr> @
         encode_bytes encoded_path @ child_ref)"

definition node_ref :: "(bytes \<Rightarrow> bytes32) \<Rightarrow> bytes \<Rightarrow> bytes" where
  "node_ref keccak256 rlp =
     (if length rlp < unat kHashLength then rlp
      else (kEmptyStringCode + ucast kHashLength) # full_view_bytes32 (keccak256 rlp))"

section \<open>The builder\<close>

record hash_builder =
  hb_key :: bytes
  hb_value :: bytes
  hb_groups :: "u16 list"
  hb_tree_masks :: "u16 list"
  hb_hash_masks :: "u16 list"
  hb_stack :: "bytes list"
  hb_node_collector :: "(bytes \<times> trie_node) list option"

definition new_hash_builder :: hash_builder where
  "new_hash_builder =
     \<lparr>hb_key = [], hb_value = [], hb_groups = [], hb_tree_masks = [], hb_hash_masks = [], hb_stack = [],
      hb_node_collector = None\<rparr>"

definition popcount :: "u16 \<Rightarrow> nat" where
  "popcount m = length (filter (\<lambda>d. bit m d) [0..<16])"

text \<open>The sixteen items of a branch: the next child for a digit of the mask, else the empty string.\<close>

fun branch_items :: "u16 \<Rightarrow> nat list \<Rightarrow> bytes list \<Rightarrow> bytes list" where
  "branch_items m [] cs = []"
| "branch_items m (d # ds) cs =
     (if bit m d then hd cs # branch_items m ds (tl cs) else [kEmptyStringCode] # branch_items m ds cs)"

definition branch_rlp :: "u16 \<Rightarrow> bytes list \<Rightarrow> bytes" where
  "branch_rlp smask children =
     (let items = branch_items smask [0..<16] children;
          h = \<lparr>is_list = True, payload_length = 1 + (\<Sum>x\<leftarrow>items. word_of_nat (length x))\<rparr>
      in encode_header h @ concat items @ [kEmptyStringCode])"

definition branch_ref :: "(bytes \<Rightarrow> bytes32) \<Rightarrow> u16 \<Rightarrow> u16 \<Rightarrow> hash_builder \<Rightarrow> bytes list \<times> hash_builder" where
  "branch_ref keccak256 smask hmask hb =
     (let first_child_idx = length (hb_stack hb) - popcount smask;
          children = drop first_child_idx (hb_stack hb);
          items = branch_items smask [0..<16] children;
          child_hashes = map (\<lambda>d. items ! d) (filter (\<lambda>d. bit smask d \<and> bit hmask d) [0..<16])
      in (child_hashes,
          hb\<lparr>hb_stack := take first_child_idx (hb_stack hb) @ [node_ref keccak256 (branch_rlp smask children)]\<rparr>))"

text \<open>\<open>root_hash(false)\<close>: the hash of the reference on the top of the stack.\<close>

definition stack_root_hash :: "(bytes \<Rightarrow> bytes32) \<Rightarrow> hash_builder \<Rightarrow> bytes32" where
  "stack_root_hash keccak256 hb =
     (if hb_stack hb = [] then kEmptyRoot
      else let ref = last (hb_stack hb)
           in if length ref = unat kHashLength + 1 then word_of_nat (be_load (tl ref)) else keccak256 ref)"

text \<open>The part of a step that tells the collector about a branch node.\<close>

definition collect_node :: "(bytes \<Rightarrow> bytes32) \<Rightarrow> bytes \<Rightarrow> nat \<Rightarrow> bytes list \<Rightarrow> hash_builder \<Rightarrow> hash_builder" where
  "collect_node keccak256 cur len child_hashes hb =
     (case hb_node_collector hb of
        None \<Rightarrow> hb
      | Some nodes \<Rightarrow>
          let digit = unat (cur ! (len - 1));
              hb = (if len > 0 then hb\<lparr>hb_hash_masks := (hb_hash_masks hb)[len - 1 := set_bit digit (hb_hash_masks hb ! (len - 1))]\<rparr> else hb)
          in if hb_tree_masks hb ! len \<noteq> 0 \<or> hb_hash_masks hb ! len \<noteq> 0 then
               let hb = (if len > 0 then hb\<lparr>hb_tree_masks := (hb_tree_masks hb)[len - 1 := set_bit digit (hb_tree_masks hb ! (len - 1))]\<rparr> else hb);
                   n = \<lparr>state_mask = hb_groups hb ! len, tree_mask = hb_tree_masks hb ! len, hash_mask = hb_hash_masks hb ! len,
                        node_hashes = map (\<lambda>r. word_of_nat (be_load (tl r))) child_hashes,
                        node_root_hash = (if len = 0 then Some (stack_root_hash keccak256 hb) else None)\<rparr>
               in hb\<lparr>hb_node_collector := Some (nodes @ [(take len cur, n)])\<rparr>
             else hb)"

text \<open>\<open>while (!groups_.empty() && groups_.back() == 0) groups_.pop_back()\<close>\<close>

definition pop_zeros :: "u16 list \<Rightarrow> u16 list" where
  "pop_zeros gs = rev (dropWhile (\<lambda>g. g = 0) (rev gs))"

lemma length_pop_zeros: "length (pop_zeros gs) \<le> length gs"
  using length_dropWhile_le [of "\<lambda>g. g = 0" "rev gs"] by (simp add: pop_zeros_def)

text \<open>
  One iteration of the loop of \<open>gen_struct_step\<close> in three parts: the digit that follows the common prefix
  is added to its group; the leaf or the extension goes to the stack; and the encompassing prefix group
  is closed.
\<close>

definition prec_length :: "hash_builder \<Rightarrow> nat" where
  "prec_length hb = (if hb_groups hb = [] then 0 else length (hb_groups hb) - 1)"

definition add_digit :: "bytes \<Rightarrow> nat \<Rightarrow> hash_builder \<Rightarrow> hash_builder" where
  "add_digit cur len hb =
     (let extra_digit = unat (cur ! len);
          gs = (if length (hb_groups hb) \<le> len then resize (len + 1) 0 (hb_groups hb) else hb_groups hb);
          hb = hb\<lparr>hb_groups := gs[len := set_bit extra_digit (gs ! len)]\<rparr>
      in if length (hb_tree_masks hb) < length cur
         then hb\<lparr>hb_tree_masks := resize (length cur) 0 (hb_tree_masks hb),
                 hb_hash_masks := resize (length cur) 0 (hb_hash_masks hb)\<rparr>
         else hb)"

definition push_node :: "(bytes \<Rightarrow> bytes32) \<Rightarrow> bytes \<Rightarrow> bytes \<Rightarrow> bool \<Rightarrow> hash_builder \<Rightarrow> hash_builder" where
  "push_node keccak256 short_node_key value build_extensions hb =
     (if \<not> build_extensions
      then hb\<lparr>hb_stack := hb_stack hb @ [node_ref keccak256 (leaf_node_rlp short_node_key value)]\<rparr>
      else if short_node_key \<noteq> []
      then hb\<lparr>hb_stack := butlast (hb_stack hb) @
             [node_ref keccak256 (extension_node_rlp short_node_key (last (hb_stack hb)))]\<rparr>
      else hb)"

definition close_group :: "(bytes \<Rightarrow> bytes32) \<Rightarrow> bytes \<Rightarrow> nat \<Rightarrow> bool \<Rightarrow> hash_builder \<Rightarrow> hash_builder" where
  "close_group keccak256 cur len is_branch hb =
     (let hb = (if is_branch
                then case branch_ref keccak256 (hb_groups hb ! len) (hb_hash_masks hb ! len) hb of
                       (child_hashes, hb) \<Rightarrow> collect_node keccak256 cur len child_hashes hb
                else hb)
      in hb\<lparr>hb_groups := resize len 0 (hb_groups hb), hb_tree_masks := resize len 0 (hb_tree_masks hb),
            hb_hash_masks := resize len 0 (hb_hash_masks hb)\<rparr>)"

text \<open>The first component tells whether the loop goes on, with the length of the preceding prefix.\<close>

definition struct_step ::
    "(bytes \<Rightarrow> bytes32) \<Rightarrow> bytes \<Rightarrow> bytes \<Rightarrow> bytes \<Rightarrow> bool \<Rightarrow> hash_builder \<Rightarrow> nat option \<times> hash_builder" where
  "struct_step keccak256 cur nxt value build_extensions hb =
     (let prec_exists = (hb_groups hb \<noteq> []);
          prec_len = prec_length hb;
          nxt_len = prefix_length nxt cur;
          len = max prec_len nxt_len;
          hb = add_digit cur len hb;
          remainder_start = (if nxt \<noteq> [] \<or> prec_exists then len + 1 else len);
          hb = push_node keccak256 (drop remainder_start cur) value build_extensions hb
      in if prec_len \<le> nxt_len \<and> nxt \<noteq> [] then (None, hb)
         else
         let hb = close_group keccak256 cur len (nxt \<noteq> [] \<or> prec_exists) hb
         in if prec_len = 0 then (None, hb)
            else (Some prec_len, hb\<lparr>hb_groups := pop_zeros (hb_groups hb)\<rparr>))"

lemma branch_ref_groups [simp]: "hb_groups (snd (branch_ref k s h hb)) = hb_groups hb"
  by (simp add: branch_ref_def Let_def)

lemma collect_node_groups [simp]: "hb_groups (collect_node k cur len cs hb) = hb_groups hb"
  by (simp add: collect_node_def Let_def split: option.split)

lemma length_add_digit [simp]: "length (hb_groups (add_digit cur len hb)) = max (len + 1) (length (hb_groups hb))"
  by (simp add: add_digit_def Let_def resize_def)

lemma push_node_groups [simp]: "hb_groups (push_node k key value ext hb) = hb_groups hb"
  by (simp add: push_node_def)

lemma close_group_groups [simp]: "hb_groups (close_group k cur len b hb) = resize len 0 (hb_groups hb)"
  by (simp add: close_group_def Let_def case_prod_beta)

lemma length_resize [simp]: "length (resize n d xs) = n"
  by (simp add: resize_def)

lemma struct_step_shrinks:
  assumes "struct_step k cur nxt value ext hb = (Some n, hb')"
  shows "length (hb_groups hb') < length (hb_groups hb)"
proof -
  let ?len = "max (prec_length hb) (prefix_length nxt cur)"
  have cont: "\<not> (prec_length hb \<le> prefix_length nxt cur \<and> nxt \<noteq> [])" "prec_length hb \<noteq> 0"
    and groups: "\<exists>gs. hb_groups hb' = pop_zeros (resize ?len 0 gs)"
    using assms by (auto simp: struct_step_def Let_def split: if_splits)
  have "length (hb_groups hb') \<le> ?len"
    using groups length_pop_zeros [of "resize ?len 0 gs" for gs] by auto
  moreover have "?len < length (hb_groups hb)"
    using cont by (cases "nxt = []") (auto simp: prec_length_def split: if_splits)
  ultimately show ?thesis by linarith
qed

function gen_struct_loop ::
    "(bytes \<Rightarrow> bytes32) \<Rightarrow> bytes \<Rightarrow> bytes \<Rightarrow> bytes \<Rightarrow> bool \<Rightarrow> hash_builder \<Rightarrow> hash_builder" where
  "gen_struct_loop keccak256 cur nxt value build_extensions hb =
     (case struct_step keccak256 cur nxt value build_extensions hb of
        (None, hb) \<Rightarrow> hb
      | (Some prec_len, hb) \<Rightarrow> gen_struct_loop keccak256 (take prec_len cur) nxt value True hb)"
  by pat_completeness auto

termination
  by (relation "measure (\<lambda>(k, cur, nxt, value, ext, hb). length (hb_groups hb))") (auto dest: struct_step_shrinks [OF sym])

declare gen_struct_loop.simps [simp del]

definition gen_struct_step :: "(bytes \<Rightarrow> bytes32) \<Rightarrow> bytes \<Rightarrow> bytes \<Rightarrow> bytes \<Rightarrow> hash_builder \<Rightarrow> hash_builder" where
  "gen_struct_step keccak256 cur nxt value hb = gen_struct_loop keccak256 cur nxt value False hb"

definition hb_add :: "(bytes \<Rightarrow> bytes32) \<Rightarrow> bytes \<Rightarrow> bytes \<Rightarrow> hash_builder \<Rightarrow> hash_builder" where
  "hb_add keccak256 packed value hb =
     (let key = unpack_nibbles packed;
          hb = (if hb_key hb \<noteq> [] then gen_struct_step keccak256 (hb_key hb) key (hb_value hb) hb else hb)
      in hb\<lparr>hb_key := key, hb_value := value\<rparr>)"

definition hb_finalize :: "(bytes \<Rightarrow> bytes32) \<Rightarrow> hash_builder \<Rightarrow> hash_builder" where
  "hb_finalize keccak256 hb =
     (if hb_key hb \<noteq> []
      then (gen_struct_step keccak256 (hb_key hb) [] (hb_value hb) hb)\<lparr>hb_key := [], hb_value := []\<rparr>
      else hb)"

definition hb_root_hash :: "(bytes \<Rightarrow> bytes32) \<Rightarrow> hash_builder \<Rightarrow> bytes32 \<times> hash_builder" where
  "hb_root_hash keccak256 hb = (let hb = hb_finalize keccak256 hb in (stack_root_hash keccak256 hb, hb))"

section \<open>The trie of a vector\<close>

definition adjust_index_for_rlp :: "nat \<Rightarrow> nat \<Rightarrow> nat" where
  "adjust_index_for_rlp i len =
     (if i > 0x7f then i
      else if i = 0x7f \<or> i + 1 = len then 0
      else i + 1)"

definition vector_entries :: "('a \<Rightarrow> bytes) \<Rightarrow> 'a list \<Rightarrow> (bytes \<times> bytes) list" where
  "vector_entries value_encoder v =
     map (\<lambda>j. let index = adjust_index_for_rlp j (length v)
              in (encode_uint64 (word_of_nat index), value_encoder (v ! index))) [0..<length v]"

definition vector_root_hash :: "(bytes \<Rightarrow> bytes32) \<Rightarrow> ('a \<Rightarrow> bytes) \<Rightarrow> 'a list \<Rightarrow> bytes32" where
  "vector_root_hash keccak256 value_encoder v =
     fst (hb_root_hash keccak256
       (foldl (\<lambda>hb (index_rlp, value_rlp). hb_add keccak256 index_rlp value_rlp hb) new_hash_builder
         (vector_entries value_encoder v)))"

end
