(* ===== verification/Difficulty.thy ===== *)
theory Difficulty
  imports Config
begin

text \<open>
  core/silkworm/chain/difficulty.hpp and difficulty.cpp: the difficulty that a header must have.
  Difficulties are 256-bit words, block numbers and timestamps 64-bit words, all with
  wrap-around; the specification is the formula of the EIPs over the integers.
\<close>

definition kMinDifficulty :: u64 where
  "kMinDifficulty = 131072"

definition difficulty_bomb :: "u256 \<Rightarrow> u64 \<Rightarrow> u256" where
  "difficulty_bomb difficulty block_number =
     (let n = block_number div 100000;
          difficulty = (if n \<ge> 2 then difficulty + push_bit (unat (n - 2)) 1 else difficulty)
      in if difficulty < ucast kMinDifficulty then ucast kMinDifficulty else difficulty)"

definition canonical_difficulty_frontier :: "u64 \<Rightarrow> u64 \<Rightarrow> u256 \<Rightarrow> u64 \<Rightarrow> u256" where
  "canonical_difficulty_frontier block_number block_timestamp parent_difficulty parent_timestamp =
     (let x = drop_bit 11 parent_difficulty;
          difficulty = (if block_timestamp - parent_timestamp < 13 then parent_difficulty + x
                        else parent_difficulty - x)
      in difficulty_bomb difficulty block_number)"

definition canonical_difficulty_homestead :: "u64 \<Rightarrow> u64 \<Rightarrow> u256 \<Rightarrow> u64 \<Rightarrow> u256" where
  "canonical_difficulty_homestead block_number block_timestamp parent_difficulty parent_timestamp =
     (let x = drop_bit 11 parent_difficulty;
          difficulty = parent_difficulty - x * 99;
          z = (block_timestamp - parent_timestamp) div 10;
          difficulty = (if 100 > z then difficulty + ucast (100 - z) * x else difficulty)
      in difficulty_bomb difficulty block_number)"

definition canonical_difficulty_byzantium :: "u64 \<Rightarrow> u64 \<Rightarrow> u256 \<Rightarrow> u64 \<Rightarrow> bool \<Rightarrow> u64 \<Rightarrow> u256" where
  "canonical_difficulty_byzantium block_number block_timestamp parent_difficulty parent_timestamp
       parent_has_uncles bomb_delay =
     (let x = drop_bit 11 parent_difficulty;
          difficulty = parent_difficulty - x * 99;
          y = (if parent_has_uncles then 2 else 1);
          z = (block_timestamp - parent_timestamp) div 9;
          difficulty = (if 99 + y > z then difficulty + ucast (99 + y - z) * x else difficulty);
          block_number = (if block_number > bomb_delay then block_number - bomb_delay else 0)
      in difficulty_bomb difficulty block_number)"

definition bomb_delay_of :: "chain_config \<Rightarrow> u64 \<Rightarrow> u64" where
  "bomb_delay_of config block_number =
     (let rev = revision config block_number
      in if rev \<ge> EVMC_LONDON then 9700000
         else if (case muir_glacier_block config of Some b \<Rightarrow> block_number \<ge> b | None \<Rightarrow> False) then 9000000
         else if rev \<ge> EVMC_CONSTANTINOPLE then 5000000
         else 3000000)"

definition canonical_difficulty :: "u64 \<Rightarrow> u64 \<Rightarrow> u256 \<Rightarrow> u64 \<Rightarrow> bool \<Rightarrow> chain_config \<Rightarrow> u256" where
  "canonical_difficulty block_number block_timestamp parent_difficulty parent_timestamp parent_has_uncles config =
     (let rev = revision config block_number
      in if rev \<ge> EVMC_BYZANTIUM then
           canonical_difficulty_byzantium block_number block_timestamp parent_difficulty parent_timestamp
             parent_has_uncles (bomb_delay_of config block_number)
         else if rev \<ge> EVMC_HOMESTEAD then
           canonical_difficulty_homestead block_number block_timestamp parent_difficulty parent_timestamp
         else
           canonical_difficulty_frontier block_number block_timestamp parent_difficulty parent_timestamp)"

section \<open>The formulas of the EIPs\<close>

definition bomb_spec :: "int \<Rightarrow> int" where
  "bomb_spec number = (let n = number div 100000 in if n \<ge> 2 then 2 ^ nat (n - 2) else 0)"

definition difficulty_spec :: "int \<Rightarrow> int \<Rightarrow> int \<Rightarrow> int" where
  "difficulty_spec parent_difficulty adjustment number =
     max 131072 (parent_difficulty + parent_difficulty div 2048 * adjustment + bomb_spec number)"

lemma canonical_difficulty_min:
  "ucast kMinDifficulty \<le> canonical_difficulty n t d p u config"
proof -
  have "ucast kMinDifficulty \<le> difficulty_bomb d n" for d n
    by (simp add: difficulty_bomb_def Let_def not_less)
  then show ?thesis
    by (simp add: canonical_difficulty_def canonical_difficulty_byzantium_def canonical_difficulty_homestead_def
        canonical_difficulty_frontier_def Let_def)
qed

lemma uint_word_of_range: "0 \<le> i \<Longrightarrow> i < 2 ^ 256 \<Longrightarrow> uint (word_of_int i :: u256) = i"
  by (simp add: uint_word_of_int)

text \<open>A word computed by ring operations is the word of the integer computed by the same operations.\<close>

lemma word_as_int:
  "parent - x * 99 + ucast k * x = (word_of_int (uint parent - uint x * 99 + uint k * uint x) :: u256)"
  "parent - x * 99 = (word_of_int (uint parent - uint x * 99) :: u256)"
  "parent + x = (word_of_int (uint parent + uint x) :: u256)"
  "parent - x = (word_of_int (uint parent - uint x) :: u256)"
  for parent x :: u256 and k :: u64
  by (simp_all add: unsigned_ucast_eq word_uint_eq_iff uint_word_ariths uint_word_of_int mod_simps)

lemma uint_exp_256: "k < 256 \<Longrightarrow> uint (2 ^ k :: u256) = 2 ^ k"
  using uint_word_of_range [of "2 ^ k"] power_strict_increasing [of k 256 "2 :: int"] by simp

lemma bomb_exponent:
  assumes "(2 :: u64) \<le> m" and "uint m < 250"
  shows "uint (push_bit (unat (m - 2)) 1 :: u256) = 2 ^ nat (uint m - 2)"
proof -
  have "uint (m - 2) = uint m - 2"
    using assms(1) by (simp add: uint_minus_simple_alt)
  then have "unat (m - 2) = nat (uint m - 2)"
    by (metis unat_eq_nat_uint)
  then show ?thesis
    using assms(2) uint_exp_256 [of "nat (uint m - 2)"] by simp
qed

lemma bomb_spec_bound:
  assumes "0 \<le> n" "n < 25000000"
  shows "0 \<le> bomb_spec n" "bomb_spec n < 2 ^ 250"
proof -
  have "n div 100000 < 250"
    using assms by auto
  then have "nat (n div 100000 - 2) < 250"
    by auto
  then have "(2 :: int) ^ nat (n div 100000 - 2) < 2 ^ 250"
    by (rule power_strict_increasing) simp
  then show "0 \<le> bomb_spec n" "bomb_spec n < 2 ^ 250"
    by (simp_all add: bomb_spec_def Let_def)
qed

lemma bomb_correct:
  assumes i: "0 \<le> i" "i < 2 ^ 255" and n: "uint n < 25000000"
  shows "uint (difficulty_bomb (word_of_int i) n) = max 131072 (i + bomb_spec (uint n))"
proof -
  let ?m = "n div 100000" and ?b = "bomb_spec (uint n)"
  have m: "uint ?m = uint n div 100000" "uint ?m < 250"
    using n by (auto simp: uint_div)
  have two: "2 \<le> ?m \<longleftrightarrow> 2 \<le> uint ?m"
    by (simp add: word_le_def)
  have b: "0 \<le> ?b" "?b < 2 ^ 250"
    using bomb_spec_bound [of "uint n"] n by simp_all
  have "(if 2 \<le> ?m then word_of_int i + push_bit (unat (?m - 2)) 1 else word_of_int i) = (word_of_int (i + ?b) :: u256)"
  proof (cases "2 \<le> ?m")
    case True
    then have "uint (push_bit (unat (?m - 2)) 1 :: u256) = ?b"
      using bomb_exponent [OF True m(2)] two by (simp add: bomb_spec_def m(1))
    then have "push_bit (unat (?m - 2)) 1 = (word_of_int ?b :: u256)"
      by (metis word_of_int_uint)
    with True show ?thesis by simp
  qed (use two in \<open>simp add: bomb_spec_def m(1)\<close>)
  moreover have "uint (word_of_int (i + ?b) :: u256) = i + ?b"
    using i b by (intro uint_word_of_range) simp_all
  ultimately show ?thesis
    unfolding difficulty_bomb_def Let_def by (simp add: kMinDifficulty_def word_less_def)
qed


lemma uint_numerals: "uint (9 :: u64) = 9" "uint (10 :: u64) = 10" "(1 :: int) \<le> 2" "(1 :: int) \<le> 1" "(2 :: int) \<le> 2"
    "(if u then 2 else 1 :: int) \<le> 2" "1 \<le> (if u then 2 else 1 :: int)"
  by simp_all

lemma uint_diff_timestamp: "p \<le> t \<Longrightarrow> uint ((t - p) div k) = (uint t - uint p) div uint k" for t p k :: u64
  by (simp add: uint_div uint_minus_simple_alt)

text \<open>The word arithmetic of the adjustment does not leave the range of the integers below 2^255.\<close>

lemma adjustment_range:
  assumes "0 \<le> d" "d < 2 ^ 254" "- 99 \<le> a" "a \<le> 2" 
  shows "0 \<le> d + d div 2048 * a" "d + d div 2048 * a < (2 :: int) ^ 255"
proof -
  let ?x = "d div 2048"
  have x: "0 \<le> ?x" "2048 * ?x \<le> d"
    using assms by auto
  have "?x * (- 99) \<le> ?x * a" "?x * a \<le> ?x * 2"
    by (rule mult_left_mono [OF assms(3) x(1)], rule mult_left_mono [OF assms(4) x(1)])
  then show "0 \<le> d + d div 2048 * a" "d + d div 2048 * a < 2 ^ 255"
    using x assms by auto
qed

lemma uint_shift_11: "uint (drop_bit 11 d) = uint d div 2048" for d :: u256
  by (simp add: drop_bit_eq_div uint_div)

lemma frontier_correct:
  assumes "uint d < 2 ^ 254" and "uint n < 25000000" and "p \<le> t"
  shows "uint (canonical_difficulty_frontier n t d p) =
    difficulty_spec (uint d) (if uint t - uint p < 13 then 1 else - 1) (uint n)"
proof -
  let ?a = "if uint t - uint p < 13 then 1 else - 1 :: int"
  have "t - p < 13 \<longleftrightarrow> uint t - uint p < 13"
    using assms(3) by (simp add: word_less_def uint_minus_simple_alt)
  then have "canonical_difficulty_frontier n t d p =
    difficulty_bomb (word_of_int (uint d + uint d div 2048 * ?a)) n"
    unfolding canonical_difficulty_frontier_def Let_def word_as_int uint_shift_11 by simp
  then show ?thesis
    using adjustment_range [of "uint d" ?a] assms(1,2) bomb_correct [of "uint d + uint d div 2048 * ?a" n]
    by (simp add: difficulty_spec_def)
qed

lemma word_adjustment:
  assumes "uint (y :: u64) \<le> 2" "1 \<le> uint y"
  shows "(if 99 + y > z then d - drop_bit 11 d * 99 + ucast (99 + y - z) * drop_bit 11 d else d - drop_bit 11 d * 99) =
    (word_of_int (uint d + uint d div 2048 * max (uint y - uint z) (- 99)) :: u256)"
proof -
  have y: "uint (99 + y) = 99 + uint y"
    using assms by (simp add: uint_plus_simple_iff uint_word_ariths)
  show ?thesis
  proof (cases "99 + y > z")
    case True
    then have lt: "uint z < 99 + uint y"
      using y by (simp add: word_less_def)
    then have k: "uint (99 + y - z) = 99 + uint y - uint z"
      using y uint_minus_simple_alt [of z "99 + y"] by (simp add: word_le_def)
    have "uint d - uint d div 2048 * 99 + (99 + uint y - uint z) * (uint d div 2048) =
        uint d + uint d div 2048 * max (uint y - uint z) (- 99)"
      using lt by (simp add: max_def algebra_simps)
    then show ?thesis
      using True unfolding word_as_int(1) uint_shift_11 k by (simp only: if_True)
  next
    case False
    then have "99 + uint y \<le> uint z"
      using y by (simp add: word_less_def)
    then have "uint d - uint d div 2048 * 99 = uint d + uint d div 2048 * max (uint y - uint z) (- 99)"
      by (simp add: max_def)
    then show ?thesis
      using False unfolding word_as_int(2) uint_shift_11 by (simp only: if_False)
  qed
qed

lemma homestead_correct:
  assumes "uint d < 2 ^ 254" and "uint n < 25000000" and "p \<le> t"
  shows "uint (canonical_difficulty_homestead n t d p) =
    difficulty_spec (uint d) (max (1 - (uint t - uint p) div 10) (- 99)) (uint n)"
proof -
  let ?a = "max (1 - (uint t - uint p) div 10) (- 99)"
  have hundred: "99 + 1 = (100 :: u64)"
    by simp
  have "canonical_difficulty_homestead n t d p = difficulty_bomb (word_of_int (uint d + uint d div 2048 * ?a)) n"
    using word_adjustment [of 1 "(t - p) div 10" d, unfolded hundred] assms(3)
    unfolding canonical_difficulty_homestead_def Let_def by (simp only: uint_diff_timestamp uint_1 uint_numerals)
  moreover have "?a \<le> 2"
    using assms(3) by (simp add: word_le_def pos_imp_zdiv_nonneg_iff)
  ultimately show ?thesis
    using adjustment_range [of "uint d" ?a] assms(1,2) bomb_correct [of "uint d + uint d div 2048 * ?a" n]
    by (simp add: difficulty_spec_def)
qed

lemma byzantium_correct:
  assumes "uint d < 2 ^ 254" and "uint n < 25000000" and "p \<le> t"
  shows "uint (canonical_difficulty_byzantium n t d p u delay) =
    difficulty_spec (uint d) (max ((if u then 2 else 1) - (uint t - uint p) div 9) (- 99)) (max 0 (uint n - uint delay))"
proof -
  let ?y = "if u then 2 else 1 :: int"
  let ?a = "max (?y - (uint t - uint p) div 9) (- 99)"
  let ?n = "if n > delay then n - delay else 0"
  have uint_y: "uint (if u then 2 else 1 :: u64) = ?y"
    by simp
  have "canonical_difficulty_byzantium n t d p u delay = difficulty_bomb (word_of_int (uint d + uint d div 2048 * ?a)) ?n"
    using word_adjustment [of "if u then 2 else 1" "(t - p) div 9" d] assms(3)
    unfolding canonical_difficulty_byzantium_def Let_def by (simp only: uint_diff_timestamp uint_y uint_numerals)
  moreover have "(uint t - uint p) div 9 \<ge> 0"
    using assms(3) by (simp add: word_le_def pos_imp_zdiv_nonneg_iff)
  then have "?a \<le> 2"
    by (simp add: max_def)
  moreover have "uint ?n = max 0 (uint n - uint delay)"
    using uint_minus_simple_alt [of delay n] by (auto simp: word_less_def word_le_def)
  moreover have "max 0 (uint n - uint delay) < 25000000"
    using assms(2) uint_ge_0 [of delay] by linarith
  moreover have "- 99 \<le> ?a"
    by (rule max.cobounded2)
  ultimately show ?thesis
    unfolding difficulty_spec_def
    by (metis adjustment_range bomb_correct assms(1) uint_ge_0)
qed

text \<open>
  C27.  The difficulty of a block is the formula of the EIPs, computed over the integers and bounded below
  by 131072, at every revision: the adjustment factor is 1 or -1 in Frontier, max(1 - (t - p) div 10, -99)
  in Homestead (EIP-2), max(y - (t - p) div 9, -99) with y = 2 for a parent with ommers from Byzantium on
  (EIP-100), and the ice age term is counted from a block number reduced by the delay that is in
  force (EIP-649, 1234, 2384, 3554).  It holds for parent difficulties below 2^254 and block numbers below
  25 million, where no 256-bit operation wraps around.
\<close>

theorem canonical_difficulty_correct:
  assumes "uint d < 2 ^ 254" and "uint n < 25000000" and "p \<le> t"
  shows "uint (canonical_difficulty n t d p u config) =
    (if revision config n \<ge> EVMC_BYZANTIUM
     then difficulty_spec (uint d) (max ((if u then 2 else 1) - (uint t - uint p) div 9) (- 99))
            (max 0 (uint n - uint (bomb_delay_of config n)))
     else if revision config n \<ge> EVMC_HOMESTEAD
     then difficulty_spec (uint d) (max (1 - (uint t - uint p) div 10) (- 99)) (uint n)
     else difficulty_spec (uint d) (if uint t - uint p < 13 then 1 else - 1) (uint n))"
  unfolding canonical_difficulty_def Let_def
  by (simp add: byzantium_correct [OF assms] homestead_correct [OF assms] frontier_correct [OF assms])

theorem canonical_difficulty_correct_witness:
  "uint (canonical_difficulty 13000000 1000 5000000000000000 990 True kMainnetConfig) =
     difficulty_spec 5000000000000000 1 4000000"
proof -
  have r: "EVMC_BYZANTIUM \<le> revision kMainnetConfig 13000000" "bomb_delay_of kMainnetConfig 13000000 = 9000000"
    by code_simp+
  show ?thesis
    using canonical_difficulty_correct [of 5000000000000000 13000000 990 1000 True kMainnetConfig] r
    by simp
qed

end
