(* ===== verification/Intrinsic_Gas.thy ===== *)
theory Intrinsic_Gas
  imports Transaction Config
begin

text \<open>
  core/silkworm/chain/intrinsic_gas.cpp: the gas a transaction pays before any code runs, a 128-bit number.
\<close>

definition intrinsic_gas :: "transaction \<Rightarrow> bool \<Rightarrow> bool \<Rightarrow> u128" where
  "intrinsic_gas txn homestead istanbul =
     (let gas = ucast kGTransaction;
          gas = (if tx_to txn = None \<and> homestead then gas + ucast kGTxCreate else gas);
          gas = gas + word_of_nat (length (tx_access_list txn)) * ucast kAccessListAddressCost;
          gas = foldl (\<lambda>gas e. gas + word_of_nat (length (ale_storage_keys e)) * ucast kAccessListStorageKeyCost)
                  gas (tx_access_list txn)
      in if tx_data txn = [] then gas
         else
           let non_zero_bytes = word_of_nat (length (filter (\<lambda>c. c \<noteq> 0) (tx_data txn)));
               nonZeroGas = (if istanbul then kGTxDataNonZeroIstanbul else kGTxDataNonZeroFrontier);
               gas = gas + non_zero_bytes * ucast nonZeroGas;
               zero_bytes = word_of_nat (length (tx_data txn)) - non_zero_bytes
           in gas + zero_bytes * ucast kGTxDataZero)"

section \<open>The fee schedule\<close>

definition intrinsic_gas_spec :: "transaction \<Rightarrow> bool \<Rightarrow> bool \<Rightarrow> nat" where
  "intrinsic_gas_spec txn homestead istanbul =
     21000 + (if tx_to txn = None \<and> homestead then 32000 else 0) +
     2400 * length (tx_access_list txn) + 1900 * (\<Sum>e\<leftarrow>tx_access_list txn. length (ale_storage_keys e)) +
     (\<Sum>c\<leftarrow>tx_data txn. if c = 0 then 4 else if istanbul then 16 else 68)"

lemma gas_of_data:
  "(\<Sum>c\<leftarrow>d. if c = 0 then a else b) = (length d - length (filter (\<lambda>c. c \<noteq> 0) d)) * a + length (filter (\<lambda>c. c \<noteq> 0) d) * b"
  for d :: bytes and a b :: nat
proof (induction d)
  case (Cons c d)
  have "length (filter (\<lambda>c. c \<noteq> 0) d) \<le> length d" by simp
  with Cons show ?case by (auto simp: Suc_diff_le)
qed simp

lemma gas_of_keys:
  "foldl (\<lambda>gas e. gas + word_of_nat (length (ale_storage_keys e)) * k) g l =
     g + word_of_nat (\<Sum>e\<leftarrow>l. length (ale_storage_keys e)) * (k :: u128)"
  by (induction l arbitrary: g) (simp_all add: algebra_simps)

lemma gas_constants:
  "ucast kGTransaction = (word_of_nat 21000 :: u128)" "ucast kGTxCreate = (word_of_nat 32000 :: u128)"
  "ucast kAccessListAddressCost = (word_of_nat 2400 :: u128)" "ucast kAccessListStorageKeyCost = (word_of_nat 1900 :: u128)"
  "ucast kGTxDataNonZeroIstanbul = (word_of_nat 16 :: u128)" "ucast kGTxDataNonZeroFrontier = (word_of_nat 68 :: u128)"
  "ucast kGTxDataZero = (word_of_nat 4 :: u128)"
  by (simp_all add: kGTransaction_def kGTxCreate_def kAccessListAddressCost_def kAccessListStorageKeyCost_def
      kGTxDataNonZeroIstanbul_def kGTxDataNonZeroFrontier_def kGTxDataZero_def)

lemma intrinsic_gas_eq: "intrinsic_gas txn h i = word_of_nat (intrinsic_gas_spec txn h i)"
proof -
  obtain n z where n: "length (filter (\<lambda>c. c \<noteq> 0) (tx_data txn)) = n"
    and z: "length (tx_data txn) - n = z" and le: "n \<le> length (tx_data txn)"
    using length_filter_le [of "\<lambda>c. c \<noteq> 0" "tx_data txn"] by blast
  have zero: "word_of_nat (length (tx_data txn)) - word_of_nat n = (word_of_nat z :: u128)"
    unfolding z [symmetric] by (simp only: of_nat_diff [OF le])
  have empty: "n = 0 \<and> z = 0" if "tx_data txn = []"
    using that n z by simp
  show ?thesis
    unfolding intrinsic_gas_def Let_def gas_of_keys intrinsic_gas_spec_def gas_of_data n zero z gas_constants if_distrib [of ucast]
      if_distrib [of "\<lambda>x. x + _"]
    by (cases "tx_data txn = []"; cases "tx_to txn = None \<and> h"; cases i)
       (simp_all only: empty gas_constants of_nat_add of_nat_mult if_True if_False simp_thms mult_0 mult_0_right
          of_nat_0 add_0_right add_0 ac_simps)
qed

text \<open>
   The intrinsic gas is the sum of the fee schedule (EIP-2, EIP-2028, EIP-2930): 21000, plus 32000 for
  a creation from Homestead on, plus 2400 per access-list entry and 1900 per storage key, plus 4 for each
  zero byte and 68 (16 from Istanbul on) for each other byte of the data.  The 128-bit sum does not
  wrap around for data, entries and keys whose counts fit 64 bits.
\<close>

theorem intrinsic_gas_correct:
  assumes "length (tx_data txn) < 2 ^ 64" and "length (tx_access_list txn) < 2 ^ 64"
    and "(\<Sum>e\<leftarrow>tx_access_list txn. length (ale_storage_keys e)) < 2 ^ 64"
  shows "unat (intrinsic_gas txn homestead istanbul) = intrinsic_gas_spec txn homestead istanbul"
proof -
  have "(\<Sum>c\<leftarrow>d. if c = 0 then 4 else if istanbul then 16 else 68 :: nat) \<le> 68 * length d" for d :: bytes
    by (induction d) (simp_all split del: if_split, simp add: add_mono)
  then have "intrinsic_gas_spec txn homestead istanbul \<le> 53000 + 2400 * 2 ^ 64 + 1900 * 2 ^ 64 + 68 * 2 ^ 64"
    unfolding intrinsic_gas_spec_def
    by (intro add_mono mult_left_mono order_trans [OF _ mult_left_mono [OF less_imp_le [OF assms(1)]]])
       (use assms in simp_all)
  then have "intrinsic_gas_spec txn homestead istanbul < 2 ^ 128"
    by (rule le_less_trans) simp
  then show ?thesis
    by (simp add: intrinsic_gas_eq unat_of_nat)
qed

theorem intrinsic_gas_correct_witness:
  "unat (intrinsic_gas (new_transaction\<lparr>tx_data := [0, 1, 0]\<rparr>) True True) = 21000 + 32000 + 4 + 16 + 4"
  using intrinsic_gas_correct [of "new_transaction\<lparr>tx_data := [0, 1, 0]\<rparr>" True True]
  by (simp add: intrinsic_gas_spec_def new_transaction_def)

end
