(* ===== verification/Keccak.thy ===== *)
theory Keccak
  imports Prelude
begin

unbundle bit_operations_syntax

text \<open>
  ethash/ethash/keccak.cpp: the Keccak-f[1600] permutation with its unrolled rounds, and the hash functions built on it.  The state
  is the list of its 25 lanes.
\<close>

section \<open>The permutation\<close>

text \<open>A 64-bit word of the input, and a rotation (the count is an \<open>unsigned\<close> in the code).\<close>

definition load_le :: "bytes \<Rightarrow> u64" where
  "load_le data = word_of_nat (le_load (take 8 data))"

definition rotl_64 :: "u64 \<Rightarrow> u32 \<Rightarrow> u64" where
  "rotl_64 x s = push_bit (unat s) x OR drop_bit (unat (- s AND 63)) x"

definition round_constants :: "u64 list" where
  "round_constants =
     [0x0000000000000001, 0x0000000000008082, 0x800000000000808a, 0x8000000080008000, 0x000000000000808b,
      0x0000000080000001, 0x8000000080008081, 0x8000000000008009, 0x000000000000008a, 0x0000000000000088,
      0x0000000080008009, 0x000000008000000a, 0x000000008000808b, 0x800000000000008b, 0x8000000000008089,
      0x8000000000008003, 0x8000000000008002, 0x8000000000000080, 0x000000000000800a, 0x800000008000000a,
      0x8000000080008081, 0x8000000000008080, 0x0000000080000001, 0x8000000080008008]"

text \<open>
  One round of the loop of \<open>keccakf1600_implementation\<close>: the lanes \<open>Axx\<close> are read, the lanes \<open>Exx\<close> are the result.  The second
  half of the loop body is the same text with the names exchanged.
\<close>

definition keccak_round :: "u64 \<Rightarrow> u64 list \<Rightarrow> u64 list" where
  "keccak_round rc A =
     (let Aba = A ! 0; Abe = A ! 1; Abi = A ! 2; Abo = A ! 3; Abu = A ! 4; Aga = A ! 5; Age = A ! 6;
          Agi = A ! 7; Ago = A ! 8; Agu = A ! 9; Aka = A ! 10; Ake = A ! 11; Aki = A ! 12; Ako = A ! 13;
          Aku = A ! 14; Ama = A ! 15; Ame = A ! 16; Ami = A ! 17; Amo = A ! 18; Amu = A ! 19; Asa = A ! 20;
          Ase = A ! 21; Asi = A ! 22; Aso = A ! 23; Asu = A ! 24; Ba = Aba XOR Aga XOR Aka XOR Ama XOR Asa;
          Be = Abe XOR Age XOR Ake XOR Ame XOR Ase; Bi = Abi XOR Agi XOR Aki XOR Ami XOR Asi; Bo = Abo XOR Ago XOR Ako XOR Amo XOR Aso;
          Bu = Abu XOR Agu XOR Aku XOR Amu XOR Asu; Da = Bu XOR rotl_64 Be 1; De = Ba XOR rotl_64 Bi 1;
          Di = Be XOR rotl_64 Bo 1; Do = Bi XOR rotl_64 Bu 1; Du = Bo XOR rotl_64 Ba 1; Ba = Aba XOR Da;
          Be = rotl_64 (Age XOR De) 44; Bi = rotl_64 (Aki XOR Di) 43; Bo = rotl_64 (Amo XOR Do) 21;
          Bu = rotl_64 (Asu XOR Du) 14; Eba = Ba XOR (NOT Be AND Bi) XOR rc; Ebe = Be XOR (NOT Bi AND Bo);
          Ebi = Bi XOR (NOT Bo AND Bu); Ebo = Bo XOR (NOT Bu AND Ba); Ebu = Bu XOR (NOT Ba AND Be);
          Ba = rotl_64 (Abo XOR Do) 28; Be = rotl_64 (Agu XOR Du) 20; Bi = rotl_64 (Aka XOR Da) 3;
          Bo = rotl_64 (Ame XOR De) 45; Bu = rotl_64 (Asi XOR Di) 61; Ega = Ba XOR (NOT Be AND Bi);
          Ege = Be XOR (NOT Bi AND Bo); Egi = Bi XOR (NOT Bo AND Bu); Ego = Bo XOR (NOT Bu AND Ba);
          Egu = Bu XOR (NOT Ba AND Be); Ba = rotl_64 (Abe XOR De) 1; Be = rotl_64 (Agi XOR Di) 6;
          Bi = rotl_64 (Ako XOR Do) 25; Bo = rotl_64 (Amu XOR Du) 8; Bu = rotl_64 (Asa XOR Da) 18;
          Eka = Ba XOR (NOT Be AND Bi); Eke = Be XOR (NOT Bi AND Bo); Eki = Bi XOR (NOT Bo AND Bu);
          Eko = Bo XOR (NOT Bu AND Ba); Eku = Bu XOR (NOT Ba AND Be); Ba = rotl_64 (Abu XOR Du) 27;
          Be = rotl_64 (Aga XOR Da) 36; Bi = rotl_64 (Ake XOR De) 10; Bo = rotl_64 (Ami XOR Di) 15;
          Bu = rotl_64 (Aso XOR Do) 56; Ema = Ba XOR (NOT Be AND Bi); Eme = Be XOR (NOT Bi AND Bo);
          Emi = Bi XOR (NOT Bo AND Bu); Emo = Bo XOR (NOT Bu AND Ba); Emu = Bu XOR (NOT Ba AND Be);
          Ba = rotl_64 (Abi XOR Di) 62; Be = rotl_64 (Ago XOR Do) 55; Bi = rotl_64 (Aku XOR Du) 39;
          Bo = rotl_64 (Ama XOR Da) 41; Bu = rotl_64 (Ase XOR De) 2; Esa = Ba XOR (NOT Be AND Bi);
          Ese = Be XOR (NOT Bi AND Bo); Esi = Bi XOR (NOT Bo AND Bu); Eso = Bo XOR (NOT Bu AND Ba);
          Esu = Bu XOR (NOT Ba AND Be)
      in [Eba, Ebe, Ebi, Ebo, Ebu, Ega, Ege, Egi, Ego, Egu,
          Eka, Eke, Eki, Eko, Eku, Ema, Eme, Emi, Emo, Emu,
          Esa, Ese, Esi, Eso, Esu])"

definition double_round :: "u64 list \<Rightarrow> nat \<Rightarrow> u64 list" where
  "double_round A n = keccak_round (round_constants ! (n + 1)) (keccak_round (round_constants ! n) A)"

definition keccakf1600 :: "u64 list \<Rightarrow> u64 list" where
  "keccakf1600 st = foldl double_round st [0, 2, 4, 6, 8, 10, 12, 14, 16, 18, 20, 22]"

section \<open>The hash functions\<close>

text \<open>The loop over the words of a block: the state and the rest of the input.\<close>

fun xor_words :: "nat \<Rightarrow> nat \<Rightarrow> u64 list \<Rightarrow> bytes \<Rightarrow> u64 list \<times> bytes" where
  "xor_words i 0 st data = (st, data)"
| "xor_words i (Suc n) st data = xor_words (i + 1) n (st[i := st ! i XOR load_le data]) (drop 8 data)"

lemma xor_words_rest: "snd (xor_words i n st data) = drop (8 * n) data"
  by (induction n arbitrary: i st data) (simp_all add: add.commute)

lemma xor_words_length: "(st', data') = xor_words i n st data \<Longrightarrow> length data' = length data - 8 * n"
  using xor_words_rest [of i n st data] by (metis length_drop snd_conv)

text \<open>
  The loop that consumes the input; the third component is the input that does not fill a word.  A block of the two
  hash functions in use has 17 or 9 words.
\<close>

function keccak_absorb :: "nat \<Rightarrow> u64 list \<Rightarrow> nat \<Rightarrow> bytes \<Rightarrow> u64 list \<times> nat \<times> bytes" where
  "keccak_absorb bw st it data =
     (if data = [] then (st, it, [])
      else if 0 < bw \<and> length data \<ge> 8 * bw then
        (case xor_words 0 bw st data of (st, data) \<Rightarrow> keccak_absorb bw (keccakf1600 st) it data)
      else if length data \<ge> 8 then keccak_absorb bw (st[it := st ! it XOR load_le data]) (it + 1) (drop 8 data)
      else (st, it, data))"
  by auto
termination
  by (relation "measure (\<lambda>(bw, st, it, data). length data)") (auto dest!: xor_words_length)

declare keccak_absorb.simps [simp del]

definition keccak :: "nat \<Rightarrow> bytes \<Rightarrow> u64 list" where
  "keccak bits input =
     (let hash_size = bits div 8;
          block_size = (1600 - bits * 2) div 8;
          block_word64s = block_size div 8;
          (st, it, rest) = keccak_absorb block_word64s (replicate 25 0) 0 input;
          last_word = load_le (rest @ [0x01]);
          st = st[it := st ! it XOR last_word];
          st = st[block_word64s - 1 := st ! (block_word64s - 1) XOR 0x8000000000000000];
          st = keccakf1600 st
      in take (hash_size div 8) st)"

text \<open>The bytes of the words of a hash.\<close>

definition hash_bytes :: "u64 list \<Rightarrow> bytes" where
  "hash_bytes ws = concat (map (\<lambda>w. le_store 8 (unat w)) ws)"

definition keccak256 :: "bytes \<Rightarrow> bytes" where
  "keccak256 input = hash_bytes (keccak 256 input)"

definition keccak512 :: "bytes \<Rightarrow> bytes" where
  "keccak512 input = hash_bytes (keccak 512 input)"

end
