(* ===== verification/Ethash.thy ===== *)
theory Ethash
  imports Keccak
begin

unbundle bit_operations_syntax

text \<open>
  ethash/ethash/ethash.hpp, ethash.cpp and hash_types.hpp: the proof of work.  The unions \<open>hash256\<close>, \<open>hash512\<close> and \<open>hash1024\<close> are
  lists of 32-bit words where the code works on \<open>word32s\<close> and lists of bytes where it hashes; \<open>word32s\<close> and \<open>word_bytes\<close>
  go from one view to the other, little-endian like the targets, on which \<open>le::uint32s\<close> is the identity.
\<close>

definition word32s :: "bytes \<Rightarrow> u32 list" where
  "word32s h = map (\<lambda>i. word_of_nat (le_load (take 4 (drop (4 * i) h)))) [0..<length h div 4]"

definition word_bytes :: "u32 list \<Rightarrow> bytes" where
  "word_bytes ws = concat (map (\<lambda>w. le_store 4 (unat w)) ws)"

section \<open>Constants\<close>

definition epoch_length :: u32 where "epoch_length = 30000"
definition light_cache_item_size :: u32 where "light_cache_item_size = 64"
definition full_dataset_item_size :: u32 where "full_dataset_item_size = 128"
definition num_dataset_accesses :: u32 where "num_dataset_accesses = 64"
definition light_cache_init_size :: u32 where "light_cache_init_size = 2 ^ 24"
definition light_cache_growth :: u32 where "light_cache_growth = 2 ^ 17"
definition light_cache_rounds :: u32 where "light_cache_rounds = 3"
definition full_dataset_init_size :: u32 where "full_dataset_init_size = 2 ^ 30"
definition full_dataset_growth :: u32 where "full_dataset_growth = 2 ^ 23"
definition full_dataset_item_parents :: u32 where "full_dataset_item_parents = 256"
definition fnv_prime :: u32 where "fnv_prime = 0x01000193"

record epoch_context =
  ctx_epoch_number :: u32
  ctx_light_cache_num_items :: u32
  ctx_full_dataset_num_items :: u32
  ctx_light_cache :: "u32 list list"

record ethash_result =
  final_hash :: bytes
  res_mix_hash :: bytes

datatype verification_result = VerifyOk | VerifyInvalidNonce | VerifyInvalidMixHash

section \<open>Comparison of hashes\<close>

text \<open>The loop of \<open>is_less_or_equal\<close> over the 64-bit words, read big-endian.\<close>

definition be_uint64 :: "bytes \<Rightarrow> nat \<Rightarrow> u64" where
  "be_uint64 h i = bswap 8 (word_of_nat (le_load (take 8 (drop (8 * i) h))))"

fun less_or_equal_from :: "nat \<Rightarrow> bytes \<Rightarrow> bytes \<Rightarrow> nat \<Rightarrow> bool" where
  "less_or_equal_from i a b 0 = True"
| "less_or_equal_from i a b (Suc n) =
     (if be_uint64 a i > be_uint64 b i then False
      else if be_uint64 a i < be_uint64 b i then True
      else less_or_equal_from (i + 1) a b n)"

definition is_less_or_equal :: "bytes \<Rightarrow> bytes \<Rightarrow> bool" where
  "is_less_or_equal a b = less_or_equal_from 0 a b 4"

definition is_equal :: "bytes \<Rightarrow> bytes \<Rightarrow> bool" where
  "is_equal a b \<longleftrightarrow> a = b"

section \<open>Items of the dataset\<close>

definition fnv1 :: "u32 \<Rightarrow> u32 \<Rightarrow> u32" where
  "fnv1 u v = (u * fnv_prime) XOR v"

definition fnv1_512 :: "u32 list \<Rightarrow> u32 list \<Rightarrow> u32 list" where
  "fnv1_512 a b = map (\<lambda>i. fnv1 (a ! i) (b ! i)) [0..<16]"

definition xor_512 :: "u32 list \<Rightarrow> u32 list \<Rightarrow> u32 list" where
  "xor_512 x y = map (\<lambda>i. x ! i XOR y ! i) [0..<16]"

definition keccak512_words :: "u32 list \<Rightarrow> u32 list" where
  "keccak512_words h = word32s (keccak512 (word_bytes h))"

record item_state =
  item_seed :: u32
  item_mix :: "u32 list"

definition new_item_state :: "epoch_context \<Rightarrow> u32 \<Rightarrow> item_state" where
  "new_item_state context index =
     (let mix = ctx_light_cache context ! unat (index mod ctx_light_cache_num_items context);
          mix = mix[0 := mix ! 0 XOR index]
      in \<lparr>item_seed = index, item_mix = keccak512_words mix\<rparr>)"

definition item_update :: "epoch_context \<Rightarrow> item_state \<Rightarrow> nat \<Rightarrow> item_state" where
  "item_update context item round =
     (let t = fnv1 (item_seed item XOR word_of_nat round) (item_mix item ! (round mod 16));
          parent_index = t mod ctx_light_cache_num_items context
      in item\<lparr>item_mix := fnv1_512 (item_mix item) (ctx_light_cache context ! unat parent_index)\<rparr>)"

definition item_final :: "item_state \<Rightarrow> u32 list" where
  "item_final item = keccak512_words (item_mix item)"

definition calculate_dataset_item_1024 :: "epoch_context \<Rightarrow> u32 \<Rightarrow> u32 list" where
  "calculate_dataset_item_1024 context index =
     (let item0 = new_item_state context (index * 2);
          item1 = new_item_state context (index * 2 + 1);
          (item0, item1) =
            foldl (\<lambda>(item0, item1) i. (item_update context item0 i, item_update context item1 i))
              (item0, item1) [0..<unat full_dataset_item_parents]
      in item_final item0 @ item_final item1)"

section \<open>The light cache\<close>

text \<open>The first loop: every item is the hash of the one before.\<close>

fun cache_items :: "(bytes \<Rightarrow> bytes) \<Rightarrow> nat \<Rightarrow> bytes \<Rightarrow> u32 list list" where
  "cache_items hash_function 0 item = []"
| "cache_items hash_function (Suc n) item = word32s item # cache_items hash_function n (hash_function item)"

definition cache_step :: "(bytes \<Rightarrow> bytes) \<Rightarrow> u32 \<Rightarrow> u32 list list \<Rightarrow> nat \<Rightarrow> u32 list list" where
  "cache_step hash_function num_items cache i =
     (let t = (cache ! i) ! 0;
          v = t mod num_items;
          w = (num_items + (word_of_nat i - 1)) mod num_items;
          x = xor_512 (cache ! unat v) (cache ! unat w)
      in cache[i := word32s (hash_function (word_bytes x))])"

definition build_light_cache :: "(bytes \<Rightarrow> bytes) \<Rightarrow> u32 \<Rightarrow> bytes \<Rightarrow> u32 list list" where
  "build_light_cache hash_function num_items seed =
     (let cache = cache_items hash_function (unat num_items) (hash_function seed)
      in foldl (\<lambda>cache round. foldl (cache_step hash_function num_items) cache [0..<unat num_items])
           cache [0..<unat light_cache_rounds])"

section \<open>The hash of a header and a nonce\<close>

definition hash_seed :: "bytes \<Rightarrow> u64 \<Rightarrow> bytes" where
  "hash_seed header nonce = keccak512 (header @ le_store 8 (unat nonce))"

definition mix_access :: "epoch_context \<Rightarrow> u32 \<Rightarrow> u32 list \<Rightarrow> nat \<Rightarrow> u32 list" where
  "mix_access context seed_init mix i =
     (let p = fnv1 (word_of_nat i XOR seed_init) (mix ! (i mod 32)) mod ctx_full_dataset_num_items context;
          newdata = calculate_dataset_item_1024 context p
      in map (\<lambda>j. fnv1 (mix ! j) (newdata ! j)) [0..<32])"

definition compress_word :: "u32 list \<Rightarrow> nat \<Rightarrow> u32" where
  "compress_word mix i =
     (let h1 = fnv1 (mix ! i) (mix ! (i + 1));
          h2 = fnv1 h1 (mix ! (i + 2))
      in fnv1 h2 (mix ! (i + 3)))"

definition hash_mix :: "epoch_context \<Rightarrow> bytes \<Rightarrow> bytes" where
  "hash_mix context seed =
     (let seed_init = word32s seed ! 0;
          mix = word32s seed @ word32s seed;
          mix = foldl (mix_access context seed_init) mix [0..<unat num_dataset_accesses]
      in word_bytes (map (\<lambda>i. compress_word mix (4 * i)) [0..<8]))"

definition hash_final :: "bytes \<Rightarrow> bytes \<Rightarrow> bytes" where
  "hash_final seed mix = keccak256 (seed @ mix)"

section \<open>Epochs\<close>

text \<open>
  The factor runs in 64 bits in the code; the loop ends before its square passes the 32-bit number, so that it
  cannot wrap around and is a natural number here.
\<close>

function no_odd_factor :: "u32 \<Rightarrow> nat \<Rightarrow> bool" where
  "no_odd_factor n d =
     (if 0 < d \<and> d * d \<le> unat n then (if unat n mod d = 0 then False else no_odd_factor n (d + 2)) else True)"
  by auto
termination
proof (relation "measure (\<lambda>(n, d). unat n + 1 - d)")
  fix n :: u32 and d :: nat
  assume "0 < d \<and> d * d \<le> unat n"
  then have "d \<le> unat n" by (metis le_trans le_square)
  then show "((n, d + 2), (n, d)) \<in> measure (\<lambda>(n, d). unat n + 1 - d)" by simp
qed simp

declare no_odd_factor.simps [simp del]

definition is_unsigned_odd_prime :: "u32 \<Rightarrow> bool" where
  "is_unsigned_odd_prime n = (if n AND 1 = 0 then False else no_odd_factor n 3)"

partial_function (option) descend :: "u32 \<Rightarrow> u32 option" where
  "descend n = (if is_unsigned_odd_prime n then Some n else descend (n - 2))"

definition find_largest_unsigned_prime :: "u32 \<Rightarrow> u32 option" where
  "find_largest_unsigned_prime upper_bound =
     (if upper_bound < 2 then Some 0
      else descend (if upper_bound AND 1 \<noteq> 0 then upper_bound else upper_bound - 1))"

definition calculate_light_cache_num_items :: "u32 \<Rightarrow> u32 option" where
  "calculate_light_cache_num_items epoch_number =
     (let num_items_init = light_cache_init_size div 64;
          num_items_growth = light_cache_growth div 64
      in find_largest_unsigned_prime (num_items_init + epoch_number * num_items_growth))"

definition calculate_full_dataset_num_items :: "u32 \<Rightarrow> u32 option" where
  "calculate_full_dataset_num_items epoch_number =
     (let num_items_init = full_dataset_init_size div 128;
          num_items_growth = full_dataset_growth div 128
      in find_largest_unsigned_prime (num_items_init + epoch_number * num_items_growth))"

definition zero_hash :: bytes where
  "zero_hash = replicate 32 0"

definition calculate_seed_from_epoch :: "u32 \<Rightarrow> bytes" where
  "calculate_seed_from_epoch epoch_number = (keccak256 ^^ unat epoch_number) zero_hash"

text \<open>The static variables of \<open>calculate_epoch_from_seed\<close>: the epoch found last, if any, and its seed.\<close>

record epoch_cache =
  cached_epoch_number :: "u32 option"
  cached_epoch_seed :: bytes

definition new_epoch_cache :: epoch_cache where
  "new_epoch_cache = \<lparr>cached_epoch_number = None, cached_epoch_seed = zero_hash\<rparr>"

definition num_tries :: nat where "num_tries = 30000"

fun search_epoch :: "bytes \<Rightarrow> nat \<Rightarrow> nat \<Rightarrow> bytes \<Rightarrow> u32 option \<times> bytes" where
  "search_epoch seed i 0 cur = (None, cur)"
| "search_epoch seed i (Suc n) cur =
     (if is_equal cur seed then (Some (word_of_nat i), cur) else search_epoch seed (i + 1) n (keccak256 cur))"

definition restart_search :: "bytes \<Rightarrow> u32 option \<times> epoch_cache" where
  "restart_search seed =
     (case search_epoch seed 0 num_tries zero_hash of
        (found, cur) \<Rightarrow> (found, \<lparr>cached_epoch_number = found, cached_epoch_seed = cur\<rparr>))"

definition calculate_epoch_from_seed :: "bytes \<Rightarrow> epoch_cache \<Rightarrow> u32 option \<times> epoch_cache" where
  "calculate_epoch_from_seed seed c =
     (case cached_epoch_number c of
        Some n \<Rightarrow>
          if is_equal seed (cached_epoch_seed c) then (Some n, c)
          else
          let next_seed = keccak256 (cached_epoch_seed c)
          in if is_equal next_seed seed
             then (Some (n + 1), \<lparr>cached_epoch_number = Some (n + 1), cached_epoch_seed = next_seed\<rparr>)
             else restart_search seed
      | None \<Rightarrow> restart_search seed)"

text \<open>
  \<open>create_epoch_context\<close>; its result \<open>None\<close> is that the search for primes does not end.  Memory for the light cache
  is taken as available.
\<close>

definition create_epoch_context :: "u32 \<Rightarrow> epoch_context option" where
  "create_epoch_context epoch_number =
     (case calculate_light_cache_num_items epoch_number of
        None \<Rightarrow> None
      | Some light \<Rightarrow>
          (case calculate_full_dataset_num_items epoch_number of
             None \<Rightarrow> None
           | Some full \<Rightarrow>
               Some \<lparr>ctx_epoch_number = epoch_number, ctx_light_cache_num_items = light,
                     ctx_full_dataset_num_items = full,
                     ctx_light_cache = build_light_cache keccak512 light (calculate_seed_from_epoch epoch_number)\<rparr>))"

section \<open>Verification\<close>

definition ethash_hash :: "epoch_context \<Rightarrow> bytes \<Rightarrow> u64 \<Rightarrow> ethash_result" where
  "ethash_hash context header nonce =
     (let seed = hash_seed header nonce;
          mix = hash_mix context seed
      in \<lparr>final_hash = hash_final seed mix, res_mix_hash = mix\<rparr>)"

definition verify_light :: "bytes \<Rightarrow> bytes \<Rightarrow> u64 \<Rightarrow> bytes \<Rightarrow> bool" where
  "verify_light header_hash mix_hash nonce boundary =
     is_less_or_equal (hash_final (hash_seed header_hash nonce) mix_hash) boundary"

definition verify_full_context :: "epoch_context \<Rightarrow> bytes \<Rightarrow> bytes \<Rightarrow> u64 \<Rightarrow> bytes \<Rightarrow> verification_result" where
  "verify_full_context context header_hash mix_hash nonce boundary =
     (let seed = hash_seed header_hash nonce
      in if \<not> is_less_or_equal (hash_final seed mix_hash) boundary then VerifyInvalidNonce
         else if \<not> is_equal mix_hash (hash_mix context seed) then VerifyInvalidMixHash
         else VerifyOk)"

text \<open>The static context of \<open>verify_full\<close> comes in and goes out.\<close>

definition verify_full :: "u64 \<Rightarrow> bytes \<Rightarrow> bytes \<Rightarrow> u64 \<Rightarrow> bytes \<Rightarrow> epoch_context option \<Rightarrow>
    (verification_result \<times> epoch_context) option" where
  "verify_full block_num header_hash mix_hash nonce boundary cached =
     (let epoch_number = (ucast (block_num div ucast epoch_length) :: u32);
          context = (case cached of
                       Some c \<Rightarrow> if ctx_epoch_number c \<noteq> epoch_number then create_epoch_context epoch_number else Some c
                     | None \<Rightarrow> create_epoch_context epoch_number)
      in case context of
           None \<Rightarrow> None
         | Some c \<Rightarrow> Some (verify_full_context c header_hash mix_hash nonce boundary, c))"

definition get_boundary_from_diff :: "u256 \<Rightarrow> bytes" where
  "get_boundary_from_diff difficulty =
     (let dividend = (- 1 :: u256)
      in if difficulty > 1 then be_store 32 (unat (dividend div difficulty)) else le_store 32 (unat dividend))"

end
