(* ===== verification/Validity.thy ===== *)
theory Validity
  imports Hash_Builder Difficulty Intrinsic_Gas State_Buffer Ethash
begin

text \<open>
  core/silkworm/chain/validity.hpp and validity.cpp: the checks of transactions, headers and blocks that come
  before execution.  The verification of an Ethash seal and the Keccak hash are parameters here.
\<close>

section \<open>Results\<close>

datatype validation_result =
  kOk | kWrongStateRoot | kWrongOmmersHash | kWrongTransactionsRoot | kWrongReceiptsRoot | kWrongLogsBloom |
  kUnknownParent | kWrongDifficulty | kGasAboveLimit | kInvalidGasLimit | kInvalidTimestamp | kExtraDataTooLong |
  kWrongDaoExtraData | kInvalidSeal | kMissingSender | kWrongNonce | kIntrinsicGas | kInsufficientFunds |
  kBlockGasLimitExceeded | kTooManyOmmers | kInvalidOmmerHeader | kNotAnOmmer | kDuplicateOmmer | kWrongBlockGas |
  kInvalidSignature | kWrongChainId | kUnsupportedEip2718Type

text \<open>The hash and the seal verification that the checks call.\<close>

record chain_crypto =
  cc_keccak256 :: "bytes \<Rightarrow> bytes32"
  cc_boundary :: "u256 \<Rightarrow> bytes32"
  cc_verify_full :: "u64 \<Rightarrow> bytes32 \<Rightarrow> bytes32 \<Rightarrow> u64 \<Rightarrow> bytes32 \<Rightarrow> verification_result"

section \<open>Transactions\<close>

definition pre_validate_transaction :: "transaction \<Rightarrow> u64 \<Rightarrow> chain_config \<Rightarrow> validation_result" where
  "pre_validate_transaction txn block_number config =
     (let rv = revision config block_number
      in if tx_chain_id txn \<noteq> None \<and>
            (rv < EVMC_SPURIOUS_DRAGON \<or> tx_chain_id txn \<noteq> Some (ucast (cfg_chain_id config)))
         then kWrongChainId
         else if tx_type txn \<noteq> None \<and> (rv < EVMC_BERLIN \<or> tx_type txn \<noteq> Some kEip2930TransactionType)
         then kUnsupportedEip2718Type
         else if \<not> is_valid_signature (tx_r txn) (tx_s txn) (rv \<ge> EVMC_HOMESTEAD) then kInvalidSignature
         else if ucast (tx_gas_limit txn) < intrinsic_gas txn (rv \<ge> EVMC_HOMESTEAD) (rv \<ge> EVMC_ISTANBUL)
         then kIntrinsicGas
         else kOk)"

section \<open>Headers\<close>

definition kEmptyListHash :: bytes32 where
  "kEmptyListHash = 0x1dcc4de8dec75d7aab85b567b6ccd41ad312451b948a7413f0a142fd40d49347"

definition kDaoExtraData :: bytes where
  "kDaoExtraData = [0x64, 0x61, 0x6f, 0x2d, 0x68, 0x61, 0x72, 0x64, 0x2d, 0x66, 0x6f, 0x72, 0x6b]"

definition get_parent :: "'b buffer_ops \<Rightarrow> 'b \<Rightarrow> block_header \<Rightarrow> block_header option" where
  "get_parent V db header = read_header V db (number header - 1) (parent_hash header)"

text \<open>The part of \<open>validate_block_header\<close> that checks the seal.\<close>

definition validate_seal :: "chain_crypto \<Rightarrow> block_header \<Rightarrow> chain_config \<Rightarrow> validation_result" where
  "validate_seal C header config =
     (if seal_engine config = kEthash then
        (case cc_verify_full C (number header) (header_hash (cc_keccak256 C) header True) (mix_hash header)
                (word_of_nat (be_load (hdr_nonce header))) (cc_boundary C (difficulty header)) of
           VerifyInvalidNonce \<Rightarrow> kInvalidSeal
         | VerifyInvalidMixHash \<Rightarrow> kInvalidSeal
         | VerifyOk \<Rightarrow> kOk)
      else kOk)"

definition validate_block_header ::
    "chain_crypto \<Rightarrow> 'b buffer_ops \<Rightarrow> block_header \<Rightarrow> 'b \<Rightarrow> chain_config \<Rightarrow> validation_result" where
  "validate_block_header C V header db config =
     (if gas_used header > gas_limit header then kGasAboveLimit
      else if gas_limit header < 5000 then kInvalidGasLimit
      else if gas_limit header > 0x7fffffffffffffff then kInvalidGasLimit
      else if length (extra_data header) > 32 then kExtraDataTooLong
      else case get_parent V db header of
        None \<Rightarrow> kUnknownParent
      | Some parent \<Rightarrow>
          if timestamp header \<le> timestamp parent then kInvalidTimestamp
          else
          let gas_delta = (if gas_limit header > gas_limit parent then gas_limit header - gas_limit parent
                           else gas_limit parent - gas_limit header)
          in if gas_delta \<ge> gas_limit parent div 1024 then kInvalidGasLimit
             else
             let parent_has_uncles = (ommers_hash parent \<noteq> kEmptyListHash);
                 diff = canonical_difficulty (number header) (timestamp header) (difficulty parent)
                          (timestamp parent) parent_has_uncles config
             in if diff \<noteq> difficulty header then kWrongDifficulty
                else if (case dao_block config of
                           None \<Rightarrow> False
                         | Some d \<Rightarrow> d \<le> number header \<and> number header \<le> d + 9 \<and> extra_data header \<noteq> kDaoExtraData)
                then kWrongDaoExtraData
                else validate_seal C header config)"

section \<open>Ommers\<close>

text \<open>
  The result of \<open>is_kin\<close> and the ommers that it appended to \<open>old_ommers\<close>.  A header is compared
  with \<open>==\<close>, which compares all fields.
\<close>

fun is_kin :: "'b buffer_ops \<Rightarrow> block_header \<Rightarrow> block_header \<Rightarrow> bytes32 \<Rightarrow> nat \<Rightarrow> 'b \<Rightarrow>
    block_header list \<Rightarrow> bool \<times> block_header list" where
  "is_kin V branch_header mainline_header mainline_hash 0 db old_ommers = (False, old_ommers)"
| "is_kin V branch_header mainline_header mainline_hash (Suc n) db old_ommers =
     (if branch_header = mainline_header then (False, old_ommers)
      else case read_body V db (number mainline_header) mainline_hash of
        None \<Rightarrow> (False, old_ommers)
      | Some mainline_body \<Rightarrow>
          let old_ommers = old_ommers @ ommers mainline_body;
              branch_parent = get_parent V db branch_header
          in case get_parent V db mainline_header of
               None \<Rightarrow> (False, old_ommers)
             | Some mainline_parent \<Rightarrow>
                 if branch_parent = Some mainline_parent then (True, old_ommers)
                 else is_kin V branch_header mainline_parent (parent_hash mainline_header) n db old_ommers)"

text \<open>The first error of the loop over the ommers; the parent of a valid header exists.\<close>

fun validate_ommers :: "chain_crypto \<Rightarrow> 'b buffer_ops \<Rightarrow> block_header \<Rightarrow> block_header \<Rightarrow> 'b \<Rightarrow> chain_config \<Rightarrow>
    block_header list \<Rightarrow> validation_result" where
  "validate_ommers C V header parent db config [] = kOk"
| "validate_ommers C V header parent db config (ommer # os) =
     (if validate_block_header C V ommer db config \<noteq> kOk then kInvalidOmmerHeader
      else case is_kin V ommer parent (parent_hash header) 6 db [] of
        (kin, old_ommers) \<Rightarrow>
          if \<not> kin then kNotAnOmmer
          else if ommer \<in> set old_ommers then kDuplicateOmmer
          else validate_ommers C V header parent db config os)"

fun pre_validate_transactions :: "u64 \<Rightarrow> chain_config \<Rightarrow> transaction list \<Rightarrow> validation_result" where
  "pre_validate_transactions block_number config [] = kOk"
| "pre_validate_transactions block_number config (txn # txns) =
     (let err = pre_validate_transaction txn block_number config
      in if err \<noteq> kOk then err else pre_validate_transactions block_number config txns)"

section \<open>Blocks\<close>

definition pre_validate_block ::
    "chain_crypto \<Rightarrow> 'b buffer_ops \<Rightarrow> block \<Rightarrow> 'b \<Rightarrow> chain_config \<Rightarrow> validation_result" where
  "pre_validate_block C V blk db config =
     (let header = blk_header blk;
          err = validate_block_header C V header db config
      in if err \<noteq> kOk then err
         else if cc_keccak256 C (encode_vector length_block_header encode_header_of_vector (ommers blk)) \<noteq> ommers_hash header
         then kWrongOmmersHash
         else if vector_root_hash (cc_keccak256 C) (\<lambda>txn. encode_txn_with txn False False) (transactions blk)
                \<noteq> transactions_root header
         then kWrongTransactionsRoot
         else if length (ommers blk) > 2 then kTooManyOmmers
         else if length (ommers blk) = 2 \<and> ommers blk ! 0 = ommers blk ! 1 then kDuplicateOmmer
         else
         let parent = the (get_parent V db header);
             err = validate_ommers C V header parent db config (ommers blk)
         in if err \<noteq> kOk then err
            else pre_validate_transactions (number header) config (transactions blk))"

end
