(* ===== verification/Processor.thy ===== *)
theory Processor
  imports Conservation Validity Dao
begin

text \<open>
  core/silkworm/execution/processor.hpp, processor.cpp, execution.hpp and execution.cpp: the execution of the
  transactions of a block, rewards and the checks of gas, receipts and logs against the header.

  The environment \<open>E\<close> carries the block, the configuration and the interpreter; \<open>enum\<close> is the order in which a
  hash set of addresses is walked, \<open>iter\<close> the order in which the hash maps of the state are.  The
  fuel is that of the machine; a result \<open>None\<close> is that it was not enough.
\<close>

record 'b processor =
  proc_evm :: "'b evm"
  proc_cumulative_gas_used :: u64

definition new_evm :: "'b ibs \<Rightarrow> 'b evm" where
  "new_evm s = \<lparr>evm_state = s, evm_block_hashes = [], evm_address_stack = []\<rparr>"

definition new_processor :: "'b ibs \<Rightarrow> 'b processor" where
  "new_processor s = \<lparr>proc_evm = new_evm s, proc_cumulative_gas_used = 0\<rparr>"

section \<open>Validation of a transaction\<close>

definition available_gas :: "'b evm_env \<Rightarrow> 'b processor \<Rightarrow> u64" where
  "available_gas E p = gas_limit (blk_header (env_block E)) - proc_cumulative_gas_used p"

text \<open>The queries of the state fill its caches, so that the processor is part of the result.\<close>

definition validate_transaction :: "'b evm_env \<Rightarrow> 'b processor \<Rightarrow> transaction \<Rightarrow> validation_result \<times> 'b processor" where
  "validate_transaction E p txn =
     (case tx_from txn of
        None \<Rightarrow> (kMissingSender, p)
      | Some sender \<Rightarrow>
          let V = env_ops E;
              (nonce, e) = on_state (\<lambda>s. get_nonce V s sender) (proc_evm p)
          in if nonce \<noteq> tx_nonce txn then (kWrongNonce, p\<lparr>proc_evm := e\<rparr>)
             else
             let gas_cost = (ucast (tx_gas_limit txn) * ucast (tx_gas_price txn) :: u512);
                 v0 = gas_cost + ucast (tx_value txn);
                 (b, e) = on_state (\<lambda>s. get_balance V s sender) e;
                 p = p\<lparr>proc_evm := e\<rparr>
             in if (ucast b :: u512) < v0 then (kInsufficientFunds, p)
                else if available_gas E p < tx_gas_limit txn then (kBlockGasLimitExceeded, p)
                else (kOk, p))"

section \<open>Execution of a transaction\<close>

definition access_entry :: "'b ibs \<Rightarrow> access_list_entry \<Rightarrow> 'b ibs" where
  "access_entry s ae =
     foldl (\<lambda>s key. snd (access_storage s (ale_account ae) key))
       (snd (access_account s (ale_account ae))) (ale_storage_keys ae)"

text \<open>What happens before the machine is started: the sender pays for the gas, the access lists are filled.\<close>

definition prepare_transaction :: "'b buffer_ops \<Rightarrow> transaction \<Rightarrow> 'b ibs \<Rightarrow> 'b ibs" where
  "prepare_transaction V txn s =
     (let sender = the (tx_from txn);
          s = clear_journal_and_substate s;
          s = snd (access_account s sender);
          s = subtract_from_balance V s sender (ucast (tx_gas_limit txn) * tx_gas_price txn);
          s = (case tx_to txn of
                 None \<Rightarrow> s
               | Some to \<Rightarrow> set_nonce V (snd (access_account s to)) sender (tx_nonce txn + 1))
      in foldl access_entry s (tx_access_list txn))"

text \<open>The gas that is left with the refund, and the state in which the sender was paid back.\<close>

definition refund_gas :: "'b evm_env \<Rightarrow> transaction \<Rightarrow> u64 \<Rightarrow> 'b ibs \<Rightarrow> u64 \<times> 'b ibs" where
  "refund_gas E txn gas_left s =
     (let rv = evm_revision E;
          rf = refund s;
          rf = (if rv < EVMC_LONDON then rf + kRSelfDestruct * word_of_nat (number_of_self_destructs s) else rf);
          max_refund_quotient = (if rv \<ge> EVMC_LONDON then kMaxRefundQuotientLondon else kMaxRefundQuotientFrontier);
          max_refund = (tx_gas_limit txn - gas_left) div max_refund_quotient;
          rf = min rf max_refund;
          gas_left = gas_left + rf
      in (gas_left, add_to_balance (env_ops E) s (the (tx_from txn)) (ucast gas_left * tx_gas_price txn)))"

text \<open>What happens after the machine has stopped; the first component is the gas used.\<close>

definition finish_transaction ::
    "(address set \<Rightarrow> address list) \<Rightarrow> 'b evm_env \<Rightarrow> transaction \<Rightarrow> u64 \<Rightarrow> 'b ibs \<Rightarrow> u64 \<times> 'b ibs" where
  "finish_transaction enum E txn gas_left s =
     (let V = env_ops E;
          (gas_left, s) = refund_gas E txn gas_left s;
          gas_used = tx_gas_limit txn - gas_left;
          s = add_to_balance V s (beneficiary (blk_header (env_block E))) (ucast gas_used * tx_gas_price txn);
          s = destruct_suicides V (enum (self_destructs s)) s;
          s = (if evm_revision E \<ge> EVMC_SPURIOUS_DRAGON then destruct_touched_dead V (enum (touched s)) s else s)
      in (gas_used, finalize_transaction s))"

definition execute_transaction ::
    "nat \<Rightarrow> (address set \<Rightarrow> address list) \<Rightarrow> 'b evm_env \<Rightarrow> 'b processor \<Rightarrow> transaction \<Rightarrow>
     (receipt \<times> 'b processor) option" where
  "execute_transaction fuel enum E p txn =
     (let e = upd_state (prepare_transaction (env_ops E) txn) (proc_evm p);
          rv = evm_revision E;
          g0 = intrinsic_gas txn (rv \<ge> EVMC_HOMESTEAD) (rv \<ge> EVMC_ISTANBUL)
      in case evm_execute_txn fuel (E\<lparr>env_txn := txn\<rparr>) e (tx_gas_limit txn - ucast g0) of
           None \<Rightarrow> None
         | Some (vm_res, e) \<Rightarrow>
             let (gas_used, s) = finish_transaction enum E txn (cr_gas_left vm_res) (evm_state e);
                 cumulative = proc_cumulative_gas_used p + gas_used
             in Some (\<lparr>rcpt_type = tx_type txn, rcpt_success = (cr_status vm_res = EVMC_SUCCESS),
                       rcpt_cumulative_gas_used = cumulative,
                       rcpt_bloom = logs_bloom (env_keccak256 E) (logs s), rcpt_logs = logs s\<rparr>,
                      \<lparr>proc_evm = e\<lparr>evm_state := s\<rparr>, proc_cumulative_gas_used = cumulative\<rparr>))"

section \<open>Execution of a block\<close>

definition block_reward_of :: "evmc_revision \<Rightarrow> u256" where
  "block_reward_of rv =
     (if rv \<ge> EVMC_CONSTANTINOPLE then ucast kBlockRewardConstantinople
      else if rv \<ge> EVMC_BYZANTIUM then ucast kBlockRewardByzantium
      else ucast kBlockRewardFrontier)"

definition ommer_reward :: "u256 \<Rightarrow> u64 \<Rightarrow> block_header \<Rightarrow> u256" where
  "ommer_reward block_reward block_number ommer =
     drop_bit 3 (ucast (8 + number ommer - block_number) * block_reward)"

definition apply_rewards :: "'b evm_env \<Rightarrow> 'b ibs \<Rightarrow> 'b ibs" where
  "apply_rewards E s =
     (let V = env_ops E;
          block_reward = block_reward_of (evm_revision E);
          header = blk_header (env_block E);
          (miner_reward, s) =
            foldl (\<lambda>(miner_reward, s) ommer.
                (miner_reward + block_reward div 32,
                 add_to_balance V s (beneficiary ommer) (ommer_reward block_reward (number header) ommer)))
              (block_reward, s) (ommers (env_block E))
      in add_to_balance V s (beneficiary header) miner_reward)"

fun execute_transactions ::
    "nat \<Rightarrow> (address set \<Rightarrow> address list) \<Rightarrow> 'b evm_env \<Rightarrow> transaction list \<Rightarrow> 'b processor \<Rightarrow> receipt list \<Rightarrow>
     ((receipt list \<times> validation_result) \<times> 'b processor) option" where
  "execute_transactions fuel enum E [] p receipts = Some ((receipts, kOk), p)"
| "execute_transactions fuel enum E (txn # txns) p receipts =
     (case validate_transaction E p txn of
        (err, p) \<Rightarrow>
          if err \<noteq> kOk then Some ((receipts, err), p)
          else case execute_transaction fuel enum E p txn of
                 None \<Rightarrow> None
               | Some (receipt, p) \<Rightarrow> execute_transactions fuel enum E txns p (receipts @ [receipt]))"

definition processor_execute_block ::
    "nat \<Rightarrow> (address set \<Rightarrow> address list) \<Rightarrow> 'b evm_env \<Rightarrow> 'b processor \<Rightarrow>
     ((receipt list \<times> validation_result) \<times> 'b processor) option" where
  "processor_execute_block fuel enum E p =
     (let p = (if dao_block (env_config E) = Some (number (blk_header (env_block E)))
               then p\<lparr>proc_evm := upd_state (transfer_balances (env_ops E)) (proc_evm p)\<rparr> else p);
          p = p\<lparr>proc_cumulative_gas_used := 0\<rparr>
      in case execute_transactions fuel enum E (transactions (env_block E)) p [] of
           None \<Rightarrow> None
         | Some ((receipts, err), p) \<Rightarrow>
             if err \<noteq> kOk then Some ((receipts, err), p)
             else Some ((receipts, kOk), p\<lparr>proc_evm := upd_state (apply_rewards E) (proc_evm p)\<rparr>))"

text \<open>The function \<open>execute_block\<close> of execution.cpp, from a database to a database.\<close>

definition execute_block ::
    "nat \<Rightarrow> (address set \<Rightarrow> address list) \<Rightarrow> ('b ibs \<Rightarrow> iteration) \<Rightarrow> 'b evm_env \<Rightarrow> 'b \<Rightarrow>
     ((receipt list \<times> validation_result) \<times> 'b) option" where
  "execute_block fuel enum iter E db =
     (let header = blk_header (env_block E);
          block_num = number header
      in case processor_execute_block fuel enum E (new_processor (new_ibs db)) of
           None \<Rightarrow> None
         | Some ((receipts, err), p) \<Rightarrow>
             if err \<noteq> kOk then Some ((receipts, err), db)
             else
             let gas = (if receipts \<noteq> [] then rcpt_cumulative_gas_used (last receipts) else 0)
             in if gas \<noteq> gas_used header then Some ((receipts, kWrongBlockGas), db)
                else if revision (env_config E) block_num \<ge> EVMC_BYZANTIUM \<and>
                        vector_root_hash (env_keccak256 E) encode_receipt receipts \<noteq> receipts_root header
                then Some ((receipts, kWrongReceiptsRoot), db)
                else if foldl (\<lambda>bl r. join bl (rcpt_bloom r)) empty_bloom receipts \<noteq> hdr_logs_bloom header
                then Some ((receipts, kWrongLogsBloom), db)
                else
                let s = evm_state (proc_evm p)
                in Some ((receipts, kOk), ibs_db (write_to_db (env_ops E) (iter s) s block_num)))"

end
