(* ===== verification/Evm_Gas.thy ===== *)
theory Evm_Gas
  imports Evm_Correct
begin

text \<open>
  The gas of the machine: for an interpreter that never gives back more gas than it was given, no call, creation or
  transaction does.
\<close>

section \<open>Gas\<close>

text \<open>
  What EVMC promises of an interpreter: it is given a non-negative amount of gas, gives back a non-negative amount
  that is not larger, and passes non-negative gas on to calls, relying on the same of their results.
\<close>

definition gas_ok :: "u64 \<Rightarrow> evmc_result \<Rightarrow> bool" where
  "gas_ok g r \<longleftrightarrow> 0 \<le> sint (res_gas_left r) \<and> sint (res_gas_left r) \<le> sint g"

primrec gas_sound :: "u64 \<Rightarrow> vm \<Rightarrow> bool" where
  "gas_sound g (Done r) = gas_ok g r"
| "gas_sound g (Ask q k) =
     (case q of
        Call m \<Rightarrow> 0 \<le> sint (msg_gas m) \<and> (\<forall>r. gas_ok (msg_gas m) r \<longrightarrow> gas_sound g (k (RResult r)))
      | _ \<Rightarrow> (\<forall>resp. gas_sound g (k resp)))"

definition gas_sound_interpreter :: "'b evm_env \<Rightarrow> bool" where
  "gas_sound_interpreter E \<longleftrightarrow>
     (\<forall>rv m c. 0 \<le> sint (msg_gas m) \<longrightarrow> gas_sound (msg_gas m) (env_interpreter E rv m c))"

definition exec_gas :: "'b exec \<Rightarrow> bool" where
  "exec_gas exec \<longleftrightarrow> (\<forall>e m c r e'. 0 \<le> sint (msg_gas m) \<and> exec e m c = Some (r, e') \<longrightarrow> gas_ok (msg_gas m) r)"

lemma gas_ok_new_result [simp]: "0 \<le> sint g \<Longrightarrow> gas_ok g (new_result st g out)" "0 \<le> sint g \<Longrightarrow> gas_ok g (new_result st 0 out)"
  by (simp_all add: gas_ok_def new_result_def)

lemma gas_ok_updates [simp]:
  "gas_ok g (r\<lparr>res_status := st\<rparr>) = gas_ok g r" "gas_ok g (r\<lparr>res_create_address := a\<rparr>) = gas_ok g r"
  "gas_ok g (with_address a r) = gas_ok g r"
  by (simp_all add: gas_ok_def with_address_def)

lemma revert_failed_gas:
  assumes "gas_ok g res" "0 \<le> sint g" "revert_failed snap res e = (r, e')"
  shows "gas_ok g r"
  using assms by (auto simp: revert_failed_def gas_ok_def split: if_splits)

text \<open>On non-negative numbers the signed and the unsigned readings agree.\<close>

lemma sint_cases: "sint (w :: u64) = uint w - (if bit w 63 then 2 ^ 64 else 0)"
proof -
  have "take_bit 64 (uint w) = uint w"
    using uint_lt2p [of w] by (simp add: take_bit_int_eq_self_iff)
  then show ?thesis
    using signed_take_bit_eq_take_bit_minus [of 63 "uint w"] by (simp add: sint_uint bit_uint_iff)
qed

lemma sint_nonneg: "0 \<le> sint (w :: u64) \<Longrightarrow> sint w = uint w \<and> uint w < 2 ^ 63"
  using sint_cases [of w] uint_lt2p [of w] sint_lt [of w] by (auto split: if_splits)

lemma sint_small: "uint (w :: u64) < 2 ^ 63 \<Longrightarrow> 0 \<le> sint w \<and> sint w = uint w"
  using sint_cases [of w] sint_ge [of w] by (auto split: if_splits)

lemma sint_diff:
  fixes g h :: u64
  assumes "0 \<le> sint g" "h \<le> g"
  shows "0 \<le> sint (g - h)" "sint (g - h) \<le> sint g"
proof -
  have d: "uint (g - h) = uint g - uint h"
    using assms(2) uint_minus_simple_alt [of h g] by simp
  show "0 \<le> sint (g - h)" "sint (g - h) \<le> sint g"
    using sint_nonneg [OF assms(1)] sint_small [of "g - h"] d uint_ge_0 [of h] by auto
qed

lemma precompiled_gas:
  assumes "0 \<le> sint (msg_gas m)"
  shows "gas_ok (msg_gas m) (precompiled_result E m)"
proof -
  have "0 \<le> sint g \<Longrightarrow> sint g \<le> sint (msg_gas m) \<Longrightarrow> gas_ok (msg_gas m) (new_result st (msg_gas m - g) out)" for g st out
    using sint_diff [OF assms, of g] sint_nonneg [of g] sint_nonneg [OF assms]
    by (auto simp: gas_ok_def new_result_def word_le_def)
  then show ?thesis
    using assms by (auto simp: precompiled_result_def Let_def not_less split: option.split)
qed

lemma deploy_code_gas: "gas_ok g res \<Longrightarrow> gas_ok g (fst (deploy_code E a res e))"
  using sint_diff [of "res_gas_left res" "word_of_nat (length (res_output res)) * kGCodeDeposit"]
  by (auto simp: deploy_code_def Let_def gas_ok_def)

lemma evm_create_gas:
  assumes "exec_gas exec" "evm_create exec E e m = Some (r, e')" and g: "0 \<le> sint (msg_gas m)"
  shows "gas_ok (msg_gas m) r"
  using assms(2)
proof (cases rule: evm_create_cases)
  case (3 a)
  show ?thesis
    using 3(2)
  proof (rule evm_create_enter_ends)
    fix x
    assume x: "exec (create_entry E (create_checked E e m) m a) (deploy_message m a) (msg_input m) = Some x"
    assume res: "revert_failed (take_snapshot (evm_state (create_checked E e m)))
      (with_address a (fst (deploy_code E a (fst x) (snd x)))) (snd (deploy_code E a (fst x) (snd x))) = (r, e')"
    have "gas_ok (msg_gas m) (fst x)"
      using assms(1) x g unfolding exec_gas_def by (metis deploy_message_def evmc_message.select_convs(4) prod.collapse)
    then show "gas_ok (msg_gas m) r"
      using revert_failed_gas [OF _ g res] by (simp add: deploy_code_gas)
  qed
qed (simp_all add: g)

lemma evm_call_gas:
  assumes "exec_gas exec" "evm_call exec E e m = Some (r, e')" and g: "0 \<le> sint (msg_gas m)"
  shows "gas_ok (msg_gas m) r"
  using assms(2)
proof (cases rule: evm_call_cases)
  case 1
  then show ?thesis using g by (metis gas_ok_new_result(1) gas_ok_updates(1))
next
  case (2 e2)
  show ?thesis
    using 2(3)
  proof (cases rule: evm_call_enter_cases)
    case 1
    then show ?thesis using revert_failed_gas [OF precompiled_gas [OF g] g] by blast
  next
    case 2
    then show ?thesis using g by simp
  next
    case (3 res e4)
    have "msg_gas (call_message m e) = msg_gas m" for e :: "'a evm"
      by (simp add: call_message_def)
    then have "gas_ok (msg_gas m) res"
      using assms(1) 3(1) g unfolding exec_gas_def by metis
    then show ?thesis using revert_failed_gas [OF _ g 3(2)] by blast
  qed
qed

lemma host_call_gas:
  assumes "exec_gas exec" "host_call exec E e m = Some (r, e')" and g: "0 \<le> sint (msg_gas m)"
  shows "gas_ok (msg_gas m) r"
  using assms(2) evm_create_gas [OF assms(1) _ g] evm_call_gas [OF assms(1) _ g]
  by (auto simp: host_call_def gas_ok_def new_result_def split: if_splits)

lemma run_vm_gas:
  assumes "exec_gas exec"
  shows "gas_sound g t \<Longrightarrow> run_vm exec E t e = Some (r, e') \<Longrightarrow> gas_ok g r"
proof (induction t arbitrary: e)
  case (Ask q k)
  then obtain resp e1 where q: "host_request_step exec E e q = Some (resp, e1)" and k: "run_vm exec E (k resp) e1 = Some (r, e')"
    by (auto split: option.splits)
  have "gas_sound g (k resp)"
  proof (cases "\<exists>m. q = Call m")
    case True
    then obtain m where m: "q = Call m" by blast
    with Ask.prems(1) have g: "0 \<le> sint (msg_gas m)" and s: "\<And>r. gas_ok (msg_gas m) r \<Longrightarrow> gas_sound g (k (RResult r))"
      by simp_all
    obtain r' where "host_call exec E e m = Some (r', e1)" "resp = RResult r'"
      using q m by (auto simp: map_fst_def)
    with host_call_gas [OF assms _ g] s show ?thesis by blast
  next
    case False
    with Ask.prems(1) show ?thesis by (cases q) auto
  qed
  with Ask.IH k show ?case by blast
qed simp

lemma evm_execute_gas:
  assumes "gas_sound_interpreter E"
  shows "exec_gas (evm_execute n E)"
proof (induction n)
  case (Suc n)
  show ?case
    unfolding exec_gas_def
  proof (intro allI impI, elim conjE)
    fix e m c r e'
    assume g: "0 \<le> sint (msg_gas m)" and "evm_execute (Suc n) E e m c = Some (r, e')"
    then obtain e1 where "run_vm (evm_execute n E) E (env_interpreter E (evm_revision E) m c)
        (e\<lparr>evm_address_stack := msg_destination m # evm_address_stack e\<rparr>) = Some (r, e1)"
      by (auto simp: Let_def split: option.splits)
    moreover have "gas_sound (msg_gas m) (env_interpreter E (evm_revision E) m c)"
      using assms g by (simp add: gas_sound_interpreter_def)
    ultimately show "gas_ok (msg_gas m) r"
      using run_vm_gas [OF Suc] by blast
  qed
qed (simp add: exec_gas_def)

lemma evm_execute_txn_gas:
  assumes "gas_sound_interpreter E" "evm_execute_txn fuel E e gas = Some (res, e')" "uint gas < 2 ^ 63"
  shows "cr_gas_left res \<le> gas"
proof -
  have g: "0 \<le> sint gas" and eq: "sint gas = uint gas"
    using sint_small [of gas] assms(3) by simp_all
  obtain m r where m: "msg_gas m = gas" and r: "cr_gas_left res = res_gas_left r"
    and run: "evm_create (evm_execute fuel E) E e m = Some (r, e') \<or> evm_call (evm_execute fuel E) E e m = Some (r, e')"
  proof -
    define m where "m = \<lparr>msg_kind = (if tx_to (env_txn E) = None then EVMC_CREATE else EVMC_CALL), msg_flags = 0, msg_depth = 0,
      msg_gas = gas, msg_destination = (case tx_to (env_txn E) of Some a \<Rightarrow> a | None \<Rightarrow> 0),
      msg_sender = the (tx_from (env_txn E)), msg_input = tx_data (env_txn E), msg_value = tx_value (env_txn E),
      msg_create2_salt = 0\<rparr>"
    have "map_option (\<lambda>(r, e). (\<lparr>cr_status = res_status r, cr_gas_left = res_gas_left r, cr_data = res_output r\<rparr>, e))
        (if tx_to (env_txn E) = None then evm_create (evm_execute fuel E) E e m
         else evm_call (evm_execute fuel E) E e m) = Some (res, e')"
      using assms(2) unfolding evm_execute_txn_def Let_def m_def .
    then show thesis
      using that [of m] by (auto simp: m_def split: if_splits)
  qed
  note exec = evm_execute_gas [OF assms(1), of fuel]
  have "gas_ok gas r"
    using run evm_create_gas [OF exec, of E e m r e'] evm_call_gas [OF exec, of E e m r e'] g m by auto
  then show ?thesis
    using sint_nonneg [of "res_gas_left r"] eq r by (auto simp: gas_ok_def word_le_def)
qed

end
