(* ===== verification/Validity_Correct.thy ===== *)
theory Validity_Correct
  imports Validity Memory_Buffer
begin

text \<open>
  What the checks of Validity accept: headers that satisfy the conditions of the yellow paper, and blocks whose ommers
  are at most two, distinct, valid and related to the block within six generations.
\<close>

section \<open>What an accepted header satisfies\<close>

text \<open>
  The conditions of the yellow paper over the integers, with the three bounds of the EIPs.  The last block of the
  DAO window is computed modulo \<open>2\<^sup>6\<^sup>4\<close>, as in the code.
\<close>

definition header_conditions :: "chain_crypto \<Rightarrow> 'b buffer_ops \<Rightarrow> block_header \<Rightarrow> 'b \<Rightarrow> chain_config \<Rightarrow> bool" where
  "header_conditions C V h db config \<longleftrightarrow>
     unat (gas_used h) \<le> unat (gas_limit h) \<and> 5000 \<le> unat (gas_limit h) \<and> unat (gas_limit h) < 2 ^ 63 \<and>
     length (extra_data h) \<le> 32 \<and>
     (\<exists>p. get_parent V db h = Some p \<and> unat (timestamp p) < unat (timestamp h) \<and>
        \<bar>int (unat (gas_limit h)) - int (unat (gas_limit p))\<bar> < int (unat (gas_limit p)) div 1024 \<and>
        difficulty h = canonical_difficulty (number h) (timestamp h) (difficulty p) (timestamp p)
          (ommers_hash p \<noteq> kEmptyListHash) config) \<and>
     (\<forall>d. dao_block config = Some d \<and> unat d \<le> unat (number h) \<and> unat (number h) \<le> (unat d + 9) mod 2 ^ 64 \<longrightarrow> extra_data h = kDaoExtraData) \<and>
     (seal_engine config = kEthash \<longrightarrow>
        cc_verify_full C (number h) (header_hash (cc_keccak256 C) h True) (mix_hash h)
          (word_of_nat (be_load (hdr_nonce h))) (cc_boundary C (difficulty h)) = VerifyOk)"

lemma abs_difference_word:
  fixes a b :: "'a::len word"
  shows "int (unat (if a > b then a - b else b - a)) = \<bar>int (unat a) - int (unat b)\<bar>"
  using uint_minus_simple_alt [of b a] uint_minus_simple_alt [of a b]
  by (cases "a > b") (auto simp: word_less_def word_le_def not_less)

lemma gas_delta_iff:
  fixes a b :: u64
  shows "(if a > b then a - b else b - a) < b div 1024 \<longleftrightarrow> \<bar>int (unat a) - int (unat b)\<bar> < int (unat b) div 1024"
proof -
  have "(if a > b then a - b else b - a) < b div 1024 \<longleftrightarrow>
      int (unat (if a > b then a - b else b - a)) < int (unat (b div 1024))"
    by (simp only: word_less_nat_alt of_nat_less_iff)
  also have "int (unat (b div 1024)) = int (unat b) div 1024"
    by (simp add: unat_div zdiv_int)
  finally show ?thesis
    unfolding abs_difference_word .
qed

lemma gas_limit_bound: "(g :: u64) > 0x7fffffffffffffff \<longleftrightarrow> \<not> unat g < 2 ^ 63"
  by (auto simp: word_less_nat_alt)

lemma gas_limit_minimum: "(g :: u64) < 5000 \<longleftrightarrow> \<not> 5000 \<le> unat g"
  by (auto simp: word_less_nat_alt)

lemma validate_seal_iff: "validate_seal C h config = kOk \<longleftrightarrow>
    (seal_engine config = kEthash \<longrightarrow>
        cc_verify_full C (number h) (header_hash (cc_keccak256 C) h True) (mix_hash h)
          (word_of_nat (be_load (hdr_nonce h))) (cc_boundary C (difficulty h)) = VerifyOk)"
  by (simp add: validate_seal_def split: verification_result.split)

lemma dao_window_iff:
  "unat d \<le> unat (number h) \<and> unat (number h) \<le> (unat d + 9) mod 2 ^ 64 \<longleftrightarrow> d \<le> number h \<and> number h \<le> d + 9"
  by (simp add: word_le_nat_alt unat_word_ariths)

lemma validate_block_header_iff:
  "validate_block_header C V h db config = kOk \<longleftrightarrow> header_conditions C V h db config"
proof (cases "get_parent V db h")
  case None
  then show ?thesis by (simp add: validate_block_header_def header_conditions_def)
next
  case (Some p)
  show ?thesis
    unfolding validate_block_header_def header_conditions_def dao_window_iff Some Let_def option.case validate_seal_iff [symmetric]
      gas_limit_bound gas_limit_minimum not_le [symmetric, of "if _ then _ else _"]
    using gas_delta_iff [of "gas_limit p" "gas_limit h"]
    by (auto simp: word_le_nat_alt word_less_nat_alt split: option.splits)
qed


text \<open>
  C17.  \<open>validate_block_header\<close> accepts a header exactly when it satisfies the conditions of section 4.3.4 of the
  yellow paper.  The comparisons of gas and time are read over the integers: none of them is spoilt by 64-bit
  wrap-around, except that the end of the DAO window is taken modulo \<open>2\<^sup>6\<^sup>4\<close>.  The gas used is
  at most the gas limit, the limit is at least 5000 and below 2^63 and differs from that of the parent by
  less than a 1024th of it, the parent exists and is older, extra data has at most 32 bytes and
  is the fixed string in the ten blocks of the DAO fork, the difficulty is the canonical one and an
  Ethash seal verifies.
\<close>

theorem validate_block_header_correct:
  "validate_block_header C V h db config = kOk \<longleftrightarrow> header_conditions C V h db config"
  by (rule validate_block_header_iff)

section \<open>Ommers\<close>

text \<open>The block i generations above a header, with the hash under which it is stored.\<close>

fun ancestor_at :: "'b buffer_ops \<Rightarrow> 'b \<Rightarrow> block_header \<Rightarrow> bytes32 \<Rightarrow> nat \<Rightarrow> (block_header \<times> bytes32) option" where
  "ancestor_at V db h hash 0 = Some (h, hash)"
| "ancestor_at V db h hash (Suc i) =
     (case get_parent V db h of None \<Rightarrow> None | Some p \<Rightarrow> ancestor_at V db p (parent_hash h) i)"

text \<open>
  A header is an ommer of generation i when it has the same parent as the i-th ancestor, and none of the
  ancestors passed on the way is the header itself or names it among its ommers.
\<close>

definition passed :: "'b buffer_ops \<Rightarrow> 'b \<Rightarrow> block_header \<Rightarrow> block_header \<Rightarrow> bytes32 \<Rightarrow> nat \<Rightarrow> bool" where
  "passed V db b h hash j \<longleftrightarrow>
     (\<exists>h' hash' body. ancestor_at V db h hash j = Some (h', hash') \<and> b \<noteq> h' \<and>
        read_body V db (number h') hash' = Some body)"

definition sibling :: "'b buffer_ops \<Rightarrow> 'b \<Rightarrow> block_header \<Rightarrow> block_header \<Rightarrow> bytes32 \<Rightarrow> nat \<Rightarrow> bool" where
  "sibling V db b h hash i \<longleftrightarrow>
     (\<exists>h' hash' p. ancestor_at V db h hash i = Some (h', hash') \<and> get_parent V db h' = Some p \<and> get_parent V db b = Some p)"

definition ommers_at :: "'b buffer_ops \<Rightarrow> 'b \<Rightarrow> block_header \<Rightarrow> bytes32 \<Rightarrow> nat \<Rightarrow> block_header set" where
  "ommers_at V db h hash j =
     {o'. \<exists>h' hash' body. ancestor_at V db h hash j = Some (h', hash') \<and>
        read_body V db (number h') hash' = Some body \<and> o' \<in> set (ommers body)}"

lemma ancestor_shift:
  assumes "get_parent V db h = Some p"
  shows "passed V db b p (parent_hash h) j = passed V db b h hash (Suc j)"
    "sibling V db b p (parent_hash h) j = sibling V db b h hash (Suc j)"
    "ommers_at V db p (parent_hash h) j = ommers_at V db h hash (Suc j)"
  using assms by (simp_all add: passed_def sibling_def ommers_at_def)

lemma is_kin_sound:
  "is_kin V b h hash n db old = (True, old') \<Longrightarrow>
   \<exists>i<n. sibling V db b h hash i \<and> (\<forall>j\<le>i. passed V db b h hash j \<and> ommers_at V db h hash j \<subseteq> set old') \<and> set old \<subseteq> set old'"
proof (induction n arbitrary: h hash old)
  case (Suc n)
  then obtain body p where ne: "b \<noteq> h" and body: "read_body V db (number h) hash = Some body"
    and p: "get_parent V db h = Some p"
    by (auto simp: Let_def split: if_splits option.splits)
  have zero: "passed V db b h hash 0" "ommers_at V db h hash 0 = set (ommers body)"
    using ne body by (auto simp: passed_def ommers_at_def)
  show ?case
  proof (cases "get_parent V db b = Some p")
    case True
    then have "sibling V db b h hash 0" using p by (simp add: sibling_def)
    moreover have "old' = old @ ommers body" using Suc.prems True ne body p by simp
    ultimately show ?thesis using zero by (intro exI [of _ 0]) simp
  next
    case False
    then have "is_kin V b p (parent_hash h) n db (old @ ommers body) = (True, old')"
      using Suc.prems ne body p by simp
    from Suc.IH [OF this] obtain i where i: "i < n" "sibling V db b h hash (Suc i)"
      "\<forall>j\<le>i. passed V db b h hash (Suc j) \<and> ommers_at V db h hash (Suc j) \<subseteq> set old'"
      "set (old @ ommers body) \<subseteq> set old'"
      unfolding ancestor_shift [OF p, where hash = hash] by blast
    have "passed V db b h hash j \<and> ommers_at V db h hash j \<subseteq> set old'" if "j \<le> Suc i" for j
      using that zero i(3,4) by (cases j) auto
    moreover have "set old \<subseteq> set old'" using i(4) by simp
    ultimately show ?thesis using i(1,2) by (intro exI [of _ "Suc i"]) simp
  qed
qed simp

lemma is_kin_complete:
  assumes "i < n" "sibling V db b h hash i" "\<forall>j\<le>i. passed V db b h hash j"
  shows "fst (is_kin V b h hash n db old)"
  using assms
proof (induction n arbitrary: i h hash old)
  case (Suc n)
  have "passed V db b h hash 0" using Suc.prems(3) by blast
  then obtain body where ne: "b \<noteq> h" and body: "read_body V db (number h) hash = Some body"
    by (auto simp: passed_def)
  obtain p where p: "get_parent V db h = Some p"
    using Suc.prems(2) by (cases i) (auto simp: sibling_def split: option.splits)
  show ?case
  proof (cases "get_parent V db b = Some p")
    case True
    then show ?thesis using ne body p by simp
  next
    case False
    then obtain i' where i': "i = Suc i'"
      using Suc.prems(2) p by (cases i) (auto simp: sibling_def)
    have "sibling V db b p (parent_hash h) i'" "\<forall>j\<le>i'. passed V db b p (parent_hash h) j"
      using Suc.prems(2,3) unfolding ancestor_shift [OF p, where hash = hash] i' by auto
    with Suc.IH [of i'] Suc.prems(1) i' show ?thesis
      using ne body p False by simp
  qed
qed simp

lemma validate_ommers_sound:
  assumes "validate_ommers C V header parent db config os = kOk" "b \<in> set os"
  shows "header_conditions C V b db config \<and>
    (\<exists>i<6. sibling V db b parent (parent_hash header) i \<and>
       (\<forall>j\<le>i. passed V db b parent (parent_hash header) j \<and> b \<notin> ommers_at V db parent (parent_hash header) j))"
  using assms
proof (induction os)
  case (Cons x xs)
  obtain old where kin: "validate_block_header C V x db config = kOk" "is_kin V x parent (parent_hash header) 6 db [] = (True, old)"
    "x \<notin> set old" "validate_ommers C V header parent db config xs = kOk"
    using Cons.prems(1) by (auto split: if_splits prod.splits)
  show ?case
  proof (cases "b \<in> set xs")
    case False
    then have "b = x" using Cons.prems(2) by simp
    then show ?thesis
      using kin is_kin_sound [OF kin(2)] validate_block_header_iff [of C V x db config] by blast
  qed (use Cons.IH kin(4) in blast)
qed simp

lemma pre_validate_block_parts:
  assumes "pre_validate_block C V blk db config = kOk"
  shows "validate_block_header C V (blk_header blk) db config = kOk"
    "cc_keccak256 C (encode_vector length_block_header encode_header_of_vector (ommers blk)) = ommers_hash (blk_header blk)"
    "vector_root_hash (cc_keccak256 C) (\<lambda>txn. encode_txn_with txn False False) (transactions blk) = transactions_root (blk_header blk)"
    "length (ommers blk) \<le> 2" "length (ommers blk) = 2 \<longrightarrow> ommers blk ! 0 \<noteq> ommers blk ! 1"
    "validate_ommers C V (blk_header blk) (the (get_parent V db (blk_header blk))) db config (ommers blk) = kOk"
    "pre_validate_transactions (number (blk_header blk)) config (transactions blk) = kOk"
  using assms by (simp_all add: pre_validate_block_def Let_def split: if_splits)

lemma pre_validate_transactions_ok:
  "pre_validate_transactions n config txns = kOk \<longleftrightarrow> (\<forall>txn\<in>set txns. pre_validate_transaction txn n config = kOk)"
  by (induction txns) (auto simp: Let_def)

text \<open>
  C18.  The ommers of an accepted block.  There are at most two, they are different, each of them has a
  valid header and the same parent as one of the six nearest ancestors of the block, it is none of
  the ancestors passed on the way, and none of these has it among its own ommers.
\<close>

theorem pre_validate_block_ommers:
  assumes "pre_validate_block C V blk db config = kOk"
  shows "length (ommers blk) \<le> 2 \<and> distinct (ommers blk) \<and>
    (\<exists>parent. get_parent V db (blk_header blk) = Some parent \<and>
      (\<forall>b\<in>set (ommers blk). header_conditions C V b db config \<and>
        (\<exists>i<6. sibling V db b parent (parent_hash (blk_header blk)) i \<and>
          (\<forall>j\<le>i. passed V db b parent (parent_hash (blk_header blk)) j \<and>
             b \<notin> ommers_at V db parent (parent_hash (blk_header blk)) j))))"
proof -
  note parts = pre_validate_block_parts [OF assms]
  obtain parent where p: "get_parent V db (blk_header blk) = Some parent"
    using parts(1) unfolding validate_block_header_iff header_conditions_def by blast
  have "distinct (ommers blk)"
    using parts(4,5) by (auto simp: distinct_conv_nth less_2_cases_iff le_eq_less_or_eq)
  then show ?thesis
    using parts(4) p validate_ommers_sound [OF parts(6)] by auto
qed


text \<open>A chain of three headers of a chain without forks and seals, and an ommer of the last.\<close>

definition sample_header :: "bytes32 \<Rightarrow> u64 \<Rightarrow> u256 \<Rightarrow> block_header" where
  "sample_header parent n diff =
     \<lparr>parent_hash = parent, ommers_hash = 0, beneficiary = 0, state_root = 0, transactions_root = kEmptyRoot,
      receipts_root = 0, hdr_logs_bloom = [], difficulty = diff, number = n, gas_limit = 8000, gas_used = 0,
      timestamp = 10 * n, extra_data = [], mix_hash = 0, hdr_nonce = []\<rparr>"

definition sample_buffer :: memory_buffer where
  "sample_buffer = new_memory_buffer\<lparr>
     mb_headers := [Map.empty, [11 \<mapsto> sample_header 0 1 131072], [22 \<mapsto> sample_header 11 2 131136]],
     mb_bodies := [Map.empty, Map.empty, [22 \<mapsto> \<lparr>transactions = [], ommers = []\<rparr>]],
     mb_canonical_hashes := [0, 11, 22, 0]\<rparr>"

definition sample_config :: chain_config where
  "sample_config = \<lparr>cfg_chain_id = 1, seal_engine = kNoProof, fork_blocks = replicate 9 None,
     muir_glacier_block = None, dao_block = None\<rparr>"

definition sample_crypto :: chain_crypto where
  "sample_crypto = \<lparr>cc_keccak256 = (\<lambda>_. 0), cc_boundary = (\<lambda>_. 0), cc_verify_full = (\<lambda>_ _ _ _ _. VerifyOk)\<rparr>"

definition sample_ommer :: block_header where
  "sample_ommer = (sample_header 11 2 131136)\<lparr>beneficiary := 5\<rparr>"

definition sample_block :: block where
  "sample_block = \<lparr>transactions = [], ommers = [sample_ommer], blk_header = sample_header 22 3 131200\<rparr>"

lemma sample_revision: "revision sample_config n = EVMC_FRONTIER"
  by (simp add: sample_config_def revision_def kMaxRevision_def eval_nat_numeral)

lemma sample_read:
  "read_header (memory_buffer_ops r) sample_buffer 1 11 = Some (sample_header 0 1 131072)"
  "read_header (memory_buffer_ops r) sample_buffer 2 22 = Some (sample_header 11 2 131136)"
  "read_body (memory_buffer_ops r) sample_buffer 2 22 = Some \<lparr>transactions = [], ommers = []\<rparr>"
  by (simp_all add: memory_buffer_ops_def sample_buffer_def mb_read_header_def mb_read_body_def)

lemma sample_difficulty:
  "canonical_difficulty n (10 * n) d (10 * n - 10) u sample_config = canonical_difficulty_frontier n (10 * n) d (10 * n - 10)"
  by (simp add: canonical_difficulty_def sample_revision less_eq_evmc_revision_def)

lemma sample_headers_valid:
  "validate_block_header sample_crypto (memory_buffer_ops r) (sample_header 22 3 131200) sample_buffer sample_config = kOk"
  "validate_block_header sample_crypto (memory_buffer_ops r) sample_ommer sample_buffer sample_config = kOk"
  using sample_difficulty [of 3] sample_difficulty [of 2]
  by (simp_all add: validate_block_header_def get_parent_def sample_header_def sample_ommer_def
      sample_read [unfolded sample_header_def] Let_def validate_seal_def canonical_difficulty_frontier_def
      difficulty_bomb_def kMinDifficulty_def, simp_all add: sample_config_def)

lemma sample_block_valid:
  "get_parent (memory_buffer_ops (\<lambda>_. 0)) sample_buffer (sample_header 22 3 131200) = Some (sample_header 11 2 131136)"
  "pre_validate_block sample_crypto (memory_buffer_ops (\<lambda>_. 0)) sample_block sample_buffer sample_config = kOk"
proof -
  let ?V = "memory_buffer_ops (\<lambda>_. 0)"
  show parent: "get_parent ?V sample_buffer (sample_header 22 3 131200) = Some (sample_header 11 2 131136)"
    by (simp add: get_parent_def sample_header_def sample_read [unfolded sample_header_def])
  have "is_kin ?V sample_ommer (sample_header 11 2 131136) 22 (Suc n) sample_buffer [] = (True, [])" for n
    by (simp add: sample_ommer_def sample_header_def get_parent_def sample_read [unfolded sample_header_def])
  from this [of 5] have "is_kin ?V sample_ommer (sample_header 11 2 131136) 22 6 sample_buffer [] = (True, [])"
    by simp
  then have "validate_ommers sample_crypto ?V (sample_header 22 3 131200) (sample_header 11 2 131136) sample_buffer
      sample_config [sample_ommer] = kOk"
    using sample_headers_valid(2) by (simp add: sample_header_def)
  moreover have "vector_root_hash (cc_keccak256 sample_crypto) f ([] :: transaction list) = kEmptyRoot" for f
    by (simp add: vector_root_hash_def vector_entries_def hb_root_hash_def hb_finalize_def new_hash_builder_def
        stack_root_hash_def)
  ultimately show "pre_validate_block sample_crypto ?V sample_block sample_buffer sample_config = kOk"
    using sample_headers_valid(1) parent
    by (simp add: pre_validate_block_def sample_block_def Let_def) (simp add: sample_crypto_def sample_header_def)
qed

theorem pre_validate_block_ommers_witness:
  "pre_validate_block sample_crypto (memory_buffer_ops (\<lambda>_. 0)) sample_block sample_buffer sample_config = kOk \<and>
   (\<exists>i<6. sibling (memory_buffer_ops (\<lambda>_. 0)) sample_buffer sample_ommer (sample_header 11 2 131136) 22 i)"
  using pre_validate_block_ommers [OF sample_block_valid(2)] sample_block_valid by (auto simp: sample_block_def sample_header_def)

end
