(* ===== verification/Processor_Correct.thy ===== *)
theory Processor_Correct
  imports Processor Evm_Gas Validity_Correct
begin

text \<open>
  What the execution of a block guarantees: the conditions under which a transaction is admitted, the gas that a
  transaction uses and the cumulative gas of the receipts, and the supply of ether, which grows by the rewards
  at most.
\<close>

section \<open>Validation of transactions\<close>

text \<open>The price of a transaction fits 512 bits.\<close>

lemma unat_ucast_up: "LENGTH('a) \<le> LENGTH('b) \<Longrightarrow> unat (ucast (w :: 'a::len word) :: 'b::len word) = unat w"
  by (simp add: unsigned_ucast_eq take_bit_nat_eq_self_iff order_less_le_trans [OF unsigned_less])

lemma upfront_cost:
  fixes g :: u64 and p v b :: u256
  shows "(ucast b :: u512) < ucast g * ucast p + ucast v \<longleftrightarrow> unat b < unat g * unat p + unat v"
proof -
  have "unat g * unat p \<le> (2 ^ 64 - 1) * (2 ^ 256 - 1)"
    using unsigned_less [of g, where ?'a = nat] unsigned_less [of p, where ?'a = nat] by (intro mult_le_mono) simp_all
  moreover have "unat v < 2 ^ 256" using unsigned_less [of v, where ?'a = nat] by simp
  ultimately have "unat g * unat p + unat v < 2 ^ 512" by simp
  then have "unat (ucast g * ucast p + ucast v :: u512) = unat g * unat p + unat v"
    by (simp add: unat_word_ariths unat_ucast_up)
  then show ?thesis
    by (simp add: word_less_nat_alt unat_ucast_up)
qed

lemma validate_transaction_iff:
  "fst (validate_transaction E p txn) = kOk \<longleftrightarrow>
     (\<exists>sender. tx_from txn = Some sender \<and>
        fst (get_nonce (env_ops E) (evm_state (proc_evm p)) sender) = tx_nonce txn \<and>
        unat (tx_gas_limit txn) * unat (tx_gas_price txn) + unat (tx_value txn) \<le> unat (ebal E (proc_evm p) sender) \<and>
        tx_gas_limit txn \<le> available_gas E p)"
proof (cases "tx_from txn")
  case None
  then show ?thesis by (simp add: validate_transaction_def)
next
  case (Some sender)
  have "fst (get_balance (env_ops E) (snd (get_nonce (env_ops E) (evm_state (proc_evm p)) sender)) sender) =
      ebal E (proc_evm p) sender"
    by (simp add: bal_def [symmetric] ebal_def)
  then show ?thesis
    unfolding validate_transaction_def Some option.case Let_def case_prod_beta
    by (auto simp: upfront_cost available_gas_def not_less not_le)
qed

lemma validate_transaction_processor:
  "ebal E (proc_evm (snd (validate_transaction E p txn))) = ebal E (proc_evm p)"
  "proc_cumulative_gas_used (snd (validate_transaction E p txn)) = proc_cumulative_gas_used p"
  by (simp_all add: validate_transaction_def Let_def case_prod_beta bal_ebal split: option.split)


section \<open>Gas and ether of a transaction\<close>

lemma bal_access_entry [simp]: "bal V (access_entry s ae) = bal V s"
proof -
  have "bal V (foldl (\<lambda>s key. snd (access_storage s a key)) s ks) = bal V s" for s :: "'a ibs" and a ks
    by (induction ks arbitrary: s) simp_all
  then show ?thesis by (simp add: access_entry_def)
qed

lemma bal_foldl_access [simp]: "bal V (foldl access_entry s aes) = bal V s"
  by (induction aes arbitrary: s) simp_all

lemma bal_prepare:
  assumes "tx_from txn = Some sender"
  shows "bal V (prepare_transaction V txn s) =
    (bal V s)(sender := bal V s sender - ucast (tx_gas_limit txn) * tx_gas_price txn)"
  by (simp add: prepare_transaction_def Let_def assms split: option.split)

lemma ether_destructs:
  "ether (bal V (destruct_suicides V as s)) \<le> ether (bal V s)"
  "ether (bal V (destruct_touched_dead V as s)) \<le> ether (bal V s)"
proof -
  show "ether (bal V (destruct_suicides V as s)) \<le> ether (bal V s)"
    unfolding destruct_suicides_def
  proof (induction as arbitrary: s)
    case (Cons a as)
    have "ether (bal V (destruct V s a)) \<le> ether (bal V s)"
      unfolding bal_destruct by (rule ether_zero)
    then show ?case
      unfolding foldl_Cons by (rule order_trans [OF Cons])
  qed simp
  show "ether (bal V (destruct_touched_dead V as s)) \<le> ether (bal V s)"
    unfolding destruct_touched_dead_def
  proof (induction as arbitrary: s)
    case (Cons a as)
    let ?s = "if fst (is_dead V s a) then destruct V (snd (is_dead V s a)) a else snd (is_dead V s a)"
    have "ether (bal V ?s) \<le> ether (bal V s)"
      using ether_zero [of "bal V s" a] by simp
    moreover have "foldl (\<lambda>s a. let (dead, s) = is_dead V s a in if dead then destruct V s a else s) s (a # as) =
        foldl (\<lambda>s a. let (dead, s) = is_dead V s a in if dead then destruct V s a else s) ?s as"
      by (simp add: case_prod_beta)
    ultimately show ?case
      using order_trans [OF Cons [of ?s]] by simp
  qed simp
qed

text \<open>The gas that is left after the refund: at least what the machine left, and at most half of the rest more.\<close>

lemma refund_gas_bounds:
  assumes "left \<le> tx_gas_limit txn" and "left' = fst (refund_gas E txn left s)"
  shows "left \<le> left' \<and> left' \<le> tx_gas_limit txn \<and>
    2 * (unat left' - unat left) \<le> unat (tx_gas_limit txn) - unat left"
proof -
  define q where "q = (if evm_revision E \<ge> EVMC_LONDON then kMaxRefundQuotientLondon else kMaxRefundQuotientFrontier)"
  define mx where "mx = (tx_gas_limit txn - left) div q"
  obtain rf where left': "left' = left + min rf mx"
    using assms(2) by (auto simp: refund_gas_def Let_def q_def mx_def)
  have d: "unat (tx_gas_limit txn - left) = unat (tx_gas_limit txn) - unat left"
    using assms(1) by (simp add: unat_sub)
  have "2 \<le> unat q"
    by (simp add: q_def kMaxRefundQuotientLondon_def kMaxRefundQuotientFrontier_def)
  then have "unat mx \<le> (unat (tx_gas_limit txn) - unat left) div 2"
    unfolding mx_def unat_div d by (rule div_le_mono2 [rotated]) simp
  then have m: "unat (min rf mx) \<le> (unat (tx_gas_limit txn) - unat left) div 2"
    by (simp add: min_def word_le_nat_alt split: if_splits)
  have l: "unat left \<le> unat (tx_gas_limit txn)" "unat (tx_gas_limit txn) < 2 ^ 64"
    using assms(1) unsigned_less [of "tx_gas_limit txn", where ?'a = nat] by (simp_all add: word_le_nat_alt)
  have "unat left' = unat left + unat (min rf mx)"
    unfolding left' using m l by (intro unat_add_lem [THEN iffD1]) simp
  then show ?thesis
    unfolding word_le_nat_alt using m l by linarith
qed

lemma ucast_mult_price:
  fixes g :: u64 and p :: u256
  assumes "unat g * unat p < 2 ^ 256"
  shows "unat (ucast g * p) = unat g * unat p"
  using assms by (simp add: unat_word_ariths unat_ucast_up)

lemma bal_finish:
  assumes "tx_from txn = Some sender" "left' = fst (refund_gas E txn left s)"
  shows "ether (bal (env_ops E) (snd (finish_transaction enum E txn left s))) \<le>
    ether (let f = (bal (env_ops E) s)(sender := bal (env_ops E) s sender + ucast left' * tx_gas_price txn);
               b = beneficiary (blk_header (env_block E))
           in f(b := f b + ucast (tx_gas_limit txn - left') * tx_gas_price txn))"
proof -
  let ?V = "env_ops E"
  define s1 where "s1 = add_to_balance ?V (snd (refund_gas E txn left s)) (beneficiary (blk_header (env_block E)))
    (ucast (tx_gas_limit txn - left') * tx_gas_price txn)"
  define s2 where "s2 = destruct_suicides ?V (enum (self_destructs s1)) s1"
  define s3 where "s3 = (if evm_revision E \<ge> EVMC_SPURIOUS_DRAGON then destruct_touched_dead ?V (enum (touched s2)) s2 else s2)"
  have "snd (finish_transaction enum E txn left s) = finalize_transaction s3"
    by (simp add: finish_transaction_def Let_def case_prod_beta assms(2) [symmetric] s1_def [symmetric] s2_def [symmetric] s3_def)
  moreover have "ether (bal ?V s3) \<le> ether (bal ?V s1)"
    using ether_destructs [of ?V "enum (self_destructs s1)" s1] ether_destructs(2) [of ?V "enum (touched s2)" s2]
    by (simp add: s3_def s2_def [symmetric])
  moreover have "snd (refund_gas E txn left s) = add_to_balance ?V s sender (ucast left' * tx_gas_price txn)"
    using assms by (simp add: refund_gas_def Let_def)
  ultimately show ?thesis
    by (simp add: s1_def Let_def)
qed

text \<open>The parts of a transaction: the machine runs between \<open>prepare_transaction\<close> and \<open>finish_transaction\<close>.\<close>

lemma execute_transactionE:
  assumes "execute_transaction fuel enum E p txn = Some (rcpt, p')"
  obtains res e where
    "evm_execute_txn fuel (E\<lparr>env_txn := txn\<rparr>) (upd_state (prepare_transaction (env_ops E) txn) (proc_evm p))
       (tx_gas_limit txn - ucast (intrinsic_gas txn (evm_revision E \<ge> EVMC_HOMESTEAD) (evm_revision E \<ge> EVMC_ISTANBUL)))
       = Some (res, e)"
    and "ebal E (proc_evm p') = bal (env_ops E) (snd (finish_transaction enum E txn (cr_gas_left res) (evm_state e)))"
    and "proc_cumulative_gas_used p' =
       proc_cumulative_gas_used p + fst (finish_transaction enum E txn (cr_gas_left res) (evm_state e))"
    and "rcpt_cumulative_gas_used rcpt = proc_cumulative_gas_used p'"
  using assms unfolding execute_transaction_def Let_def
  by (auto simp: case_prod_beta ebal_def split: option.splits)

text \<open>What the checks before execution have established of a transaction.\<close>

definition admissible :: "'b evm_env \<Rightarrow> transaction \<Rightarrow> bool" where
  "admissible E txn \<longleftrightarrow> unat (tx_gas_limit txn) < 2 ^ 63 \<and>
     unat (intrinsic_gas txn (evm_revision E \<ge> EVMC_HOMESTEAD) (evm_revision E \<ge> EVMC_ISTANBUL)) \<le> unat (tx_gas_limit txn)"

lemma finish_gas_used: "fst (finish_transaction enum E txn left s) = tx_gas_limit txn - fst (refund_gas E txn left s)"
  by (simp add: finish_transaction_def Let_def case_prod_beta)

lemma execute_transaction_gas:
  assumes "gas_sound_interpreter E" "admissible E txn"
    and "execute_transaction fuel enum E p txn = Some (rcpt, p')"
  defines "g0 \<equiv> unat (intrinsic_gas txn (evm_revision E \<ge> EVMC_HOMESTEAD) (evm_revision E \<ge> EVMC_ISTANBUL))"
  obtains res e used where
    "evm_execute_txn fuel (E\<lparr>env_txn := txn\<rparr>) (upd_state (prepare_transaction (env_ops E) txn) (proc_evm p))
       (tx_gas_limit txn - ucast (intrinsic_gas txn (evm_revision E \<ge> EVMC_HOMESTEAD) (evm_revision E \<ge> EVMC_ISTANBUL)))
       = Some (res, e)"
    and "cr_gas_left res \<le> tx_gas_limit txn"
    and "ebal E (proc_evm p') = bal (env_ops E) (snd (finish_transaction enum E txn (cr_gas_left res) (evm_state e)))"
    and "used = tx_gas_limit txn - fst (refund_gas E txn (cr_gas_left res) (evm_state e))"
    and "unat used \<le> unat (tx_gas_limit txn)" "g0 \<le> 2 * unat used"
    and "proc_cumulative_gas_used p' = proc_cumulative_gas_used p + used"
    and "rcpt_cumulative_gas_used rcpt = proc_cumulative_gas_used p'"
  using assms(3)
proof (rule execute_transactionE)
  let ?ig = "intrinsic_gas txn (evm_revision E \<ge> EVMC_HOMESTEAD) (evm_revision E \<ge> EVMC_ISTANBUL)"
  fix res e
  assume run: "evm_execute_txn fuel (E\<lparr>env_txn := txn\<rparr>) (upd_state (prepare_transaction (env_ops E) txn) (proc_evm p))
       (tx_gas_limit txn - ucast ?ig) = Some (res, e)"
    and bal: "ebal E (proc_evm p') = bal (env_ops E) (snd (finish_transaction enum E txn (cr_gas_left res) (evm_state e)))"
    and cum: "proc_cumulative_gas_used p' =
       proc_cumulative_gas_used p + fst (finish_transaction enum E txn (cr_gas_left res) (evm_state e))"
    and rc: "rcpt_cumulative_gas_used rcpt = proc_cumulative_gas_used p'"
  let ?left = "fst (refund_gas E txn (cr_gas_left res) (evm_state e))"
  have gl: "unat (tx_gas_limit txn) < 2 ^ 63" "g0 \<le> unat (tx_gas_limit txn)"
    using assms(2) by (simp_all add: admissible_def g0_def)
  have ug: "unat (ucast ?ig :: u64) = g0"
    using gl by (simp add: g0_def unsigned_ucast_eq take_bit_nat_eq_self_iff)
  have d: "unat (tx_gas_limit txn - ucast ?ig) = unat (tx_gas_limit txn) - g0"
    using gl(2) by (simp add: unat_sub word_le_nat_alt ug)
  have "uint (tx_gas_limit txn - ucast ?ig) < 2 ^ 63"
    using d gl(1) unfolding uint_nat by (simp del: uint_nat int_nat_eq)
  moreover have "gas_sound_interpreter (E\<lparr>env_txn := txn\<rparr>)"
    using assms(1) by (simp add: gas_sound_interpreter_def)
  ultimately have left: "unat (cr_gas_left res) \<le> unat (tx_gas_limit txn) - g0"
    using evm_execute_txn_gas [OF _ run] d by (simp add: word_le_nat_alt)
  then have le: "cr_gas_left res \<le> tx_gas_limit txn"
    by (simp add: word_le_nat_alt)
  note ref = refund_gas_bounds [OF le refl, of E "evm_state e"]
  then have "unat (tx_gas_limit txn - ?left) = unat (tx_gas_limit txn) - unat ?left"
    by (simp add: unat_sub)
  moreover have "unat ?left \<le> unat (tx_gas_limit txn)" "unat (cr_gas_left res) \<le> unat ?left"
    using ref by (simp_all add: word_le_nat_alt)
  ultimately have "unat (tx_gas_limit txn - ?left) \<le> unat (tx_gas_limit txn)" "g0 \<le> 2 * unat (tx_gas_limit txn - ?left)"
    using ref left gl(2) by linarith+
  then show thesis
    using that [OF run le bal refl] cum rc by (simp add: finish_gas_used)
qed

lemma execute_transaction_ether:
  assumes "gas_sound_interpreter E" "admissible E txn" "fst (validate_transaction E p0 txn) = kOk"
    and "p = snd (validate_transaction E p0 txn)"
    and "ether (ebal E (proc_evm p)) < 2 ^ 256" "execute_transaction fuel enum E p txn = Some (rcpt, p')"
  shows "ether (ebal E (proc_evm p')) \<le> ether (ebal E (proc_evm p))"
  using assms(1,2,6)
proof (rule execute_transaction_gas)
  let ?ig = "intrinsic_gas txn (evm_revision E \<ge> EVMC_HOMESTEAD) (evm_revision E \<ge> EVMC_ISTANBUL)"
  fix res e used
  assume run: "evm_execute_txn fuel (E\<lparr>env_txn := txn\<rparr>) (upd_state (prepare_transaction (env_ops E) txn) (proc_evm p))
       (tx_gas_limit txn - ucast ?ig) = Some (res, e)"
    and le: "cr_gas_left res \<le> tx_gas_limit txn"
    and bal: "ebal E (proc_evm p') = bal (env_ops E) (snd (finish_transaction enum E txn (cr_gas_left res) (evm_state e)))"
    and used: "used = tx_gas_limit txn - fst (refund_gas E txn (cr_gas_left res) (evm_state e))"
  let ?f = "ebal E (proc_evm p)" and ?left = "fst (refund_gas E txn (cr_gas_left res) (evm_state e))"
  let ?price = "unat (tx_gas_price txn)"
  obtain sender where sender: "tx_from txn = Some sender"
    and funds: "unat (tx_gas_limit txn) * ?price + unat (tx_value txn) \<le> unat (?f sender)"
    using assms(3,4) validate_transaction_iff [of E p0 txn] validate_transaction_processor(1) [of E p0 txn] by auto
  have cost: "unat (tx_gas_limit txn) * ?price < 2 ^ 256"
    using funds unsigned_less [of "?f sender", where ?'a = nat] by simp
  let ?cost = "ucast (tx_gas_limit txn) * tx_gas_price txn :: u256"
  have ucost: "unat ?cost = unat (tx_gas_limit txn) * ?price"
    using cost by (rule ucast_mult_price)
  let ?e = "upd_state (prepare_transaction (env_ops E) txn) (proc_evm p)"
  have "?cost \<le> ?f sender"
    using funds ucost by (simp add: word_le_nat_alt)
  then have paid: "ether (ebal E ?e) + unat ?cost = ether ?f"
    using ether_sub [of ?cost ?f sender] by (simp add: bal_prepare [OF sender] bal_ebal)
  have env: "ebal (E\<lparr>env_txn := txn\<rparr>) x = ebal E x" for x
    by (simp add: ebal_def)
  have vm: "ether (ebal E e) \<le> ether (ebal E ?e)"
    using evm_execute_txn_conserves [OF run] paid assms(5) by (simp add: conserves_def env del: ebal_state)
  note ref = refund_gas_bounds [OF le refl, of E "evm_state e"]
  have split: "unat ?left + unat used = unat (tx_gas_limit txn)"
    using ref by (simp add: used unat_sub word_le_nat_alt)
  then have prices: "unat ?left * ?price + unat used * ?price = unat (tx_gas_limit txn) * ?price"
    by (metis add_mult_distrib)
  then have "unat (ucast ?left * tx_gas_price txn) = unat ?left * ?price" "unat (ucast used * tx_gas_price txn) = unat used * ?price"
    using cost by (intro ucast_mult_price; linarith)+
  then have sum: "unat (ucast ?left * tx_gas_price txn) + unat (ucast used * tx_gas_price txn) = unat ?cost"
    using prices ucost by simp
  define g where "g = (ebal E e)(sender := ebal E e sender + ucast ?left * tx_gas_price txn)"
  have "ether g = ether (ebal E e) + unat (ucast ?left * tx_gas_price txn)"
    unfolding g_def using vm paid sum assms(5) by (intro ether_add) linarith
  then have "ether (g(b := g b + ucast used * tx_gas_price txn)) \<le> ether ?f" for b
    using vm paid sum assms(5) ether_add [of g "ucast used * tx_gas_price txn" b] by linarith
  then show ?thesis
    using bal_finish [OF sender refl, where E = E and enum = enum and left = "cr_gas_left res" and s = "evm_state e"] unfolding bal
    by (simp add: Let_def bal_ebal g_def [symmetric] used [symmetric] order_trans)
qed

end
