(* ===== verification/Block_Execution.thy ===== *)
theory Block_Execution
  imports Processor_Correct
begin

text \<open>
  The execution of the transactions of a block one after the other: it returns, its receipts account for the gas, and
  it creates no ether but the rewards.
\<close>

section \<open>Gas and ether of the transactions of a block\<close>

lemma execute_transaction_returns:
  assumes "depth_limited E"
  obtains rcpt p' where "execute_transaction 1025 enum E p txn = Some (rcpt, p')"
proof -
  have "depth_limited (E\<lparr>env_txn := txn\<rparr>)" using assms by (simp add: depth_limited_def)
  then have "execute_transaction 1025 enum E p txn \<noteq> None"
    unfolding execute_transaction_def Let_def
    using evm_execute_txn_some by (auto simp: case_prod_beta simp del: not_None_eq split: option.split)
  with that show thesis by auto
qed

lemma execute_transactions_returns:
  assumes "depth_limited E"
  shows "\<exists>rs err p'. execute_transactions 1025 enum E txns p receipts = Some ((rs, err), p')"
proof (induction txns arbitrary: p receipts)
  case (Cons txn txns)
  obtain err p1 where v: "validate_transaction E p txn = (err, p1)" by fastforce
  obtain rcpt p2 where "execute_transaction 1025 enum E p1 txn = Some (rcpt, p2)"
    using execute_transaction_returns [OF assms] by blast
  with Cons v show ?case by simp
qed simp

text \<open>
  The gas of the receipts of transactions executed one after the other, from the cumulative gas c on, over the
  natural numbers: every transaction uses at least half of its intrinsic gas and at most its limit, and the sum
  stays within the gas limit of the block.
\<close>

fun receipts_gas :: "'b evm_env \<Rightarrow> nat \<Rightarrow> transaction list \<Rightarrow> receipt list \<Rightarrow> bool" where
  "receipts_gas E c txns [] = True"
| "receipts_gas E c [] (r # rs) = False"
| "receipts_gas E c (txn # txns) (r # rs) =
     (let c' = unat (rcpt_cumulative_gas_used r)
      in 2 * c + unat (intrinsic_gas txn (evm_revision E \<ge> EVMC_HOMESTEAD) (evm_revision E \<ge> EVMC_ISTANBUL)) \<le> 2 * c' \<and>
         c' \<le> c + unat (tx_gas_limit txn) \<and> c' \<le> unat (gas_limit (blk_header (env_block E))) \<and>
         receipts_gas E c' txns rs)"

lemma pre_validated_admissible:
  assumes "pre_validate_transaction txn (number (blk_header (env_block E))) (env_config E) = kOk"
    and "unat (gas_limit (blk_header (env_block E))) < 2 ^ 63"
    and "proc_cumulative_gas_used p \<le> gas_limit (blk_header (env_block E))"
    and "fst (validate_transaction E p txn) = kOk"
  shows "admissible E txn"
    and "unat (proc_cumulative_gas_used p) + unat (tx_gas_limit txn) \<le> unat (gas_limit (blk_header (env_block E)))"
proof -
  have "tx_gas_limit txn \<le> available_gas E p"
    using assms(4) unfolding validate_transaction_iff by blast
  then have "unat (tx_gas_limit txn) \<le> unat (gas_limit (blk_header (env_block E))) - unat (proc_cumulative_gas_used p)"
    using assms(3) by (simp add: available_gas_def word_le_nat_alt unat_sub)
  then show gl: "unat (proc_cumulative_gas_used p) + unat (tx_gas_limit txn) \<le> unat (gas_limit (blk_header (env_block E)))"
    using assms(3) by (simp add: word_le_nat_alt)
  let ?g = "intrinsic_gas txn (evm_revision E \<ge> EVMC_HOMESTEAD) (evm_revision E \<ge> EVMC_ISTANBUL)"
  have "?g \<le> ucast (tx_gas_limit txn)"
    using assms(1) by (simp add: pre_validate_transaction_def Let_def evm_revision_def not_less split: if_splits)
  then have "unat ?g \<le> unat (tx_gas_limit txn)"
    by (simp add: word_le_nat_alt unat_ucast_up)
  with gl assms(2) show "admissible E txn" by (simp add: admissible_def)
qed

lemma execute_transactions_sound:
  assumes "gas_sound_interpreter E" "unat (gas_limit (blk_header (env_block E))) < 2 ^ 63"
    and "\<forall>txn\<in>set txns. pre_validate_transaction txn (number (blk_header (env_block E))) (env_config E) = kOk"
    and "proc_cumulative_gas_used p \<le> gas_limit (blk_header (env_block E))"
    and "execute_transactions fuel enum E txns p receipts = Some ((rs, err), p')"
  shows "(\<exists>new. rs = receipts @ new \<and> receipts_gas E (unat (proc_cumulative_gas_used p)) txns new \<and>
       (err = kOk \<longrightarrow> length new = length txns)) \<and>
     (ether (ebal E (proc_evm p)) < 2 ^ 256 \<longrightarrow> ether (ebal E (proc_evm p')) \<le> ether (ebal E (proc_evm p)))"
  using assms(3-5)
proof (induction txns arbitrary: p receipts)
  case (Cons txn txns)
  define p1 where "p1 = snd (validate_transaction E p txn)"
  have e1: "ebal E (proc_evm p1) = ebal E (proc_evm p)" "proc_cumulative_gas_used p1 = proc_cumulative_gas_used p"
    by (simp_all add: p1_def validate_transaction_processor)
  show ?case
  proof (cases "fst (validate_transaction E p txn) = kOk")
    case False
    then have "rs = receipts" "p' = p1" "err \<noteq> kOk"
      using Cons.prems(3) by (auto simp: p1_def case_prod_beta)
    then show ?thesis by (simp add: e1)
  next
    case True
    then obtain rcpt p2 where x: "execute_transaction fuel enum E p1 txn = Some (rcpt, p2)"
      and rest: "execute_transactions fuel enum E txns p2 (receipts @ [rcpt]) = Some ((rs, err), p')"
      using Cons.prems(3) by (auto simp: p1_def case_prod_beta split: option.splits)
    note adm = pre_validated_admissible [OF _ assms(2) Cons.prems(2) True]
    have pre: "pre_validate_transaction txn (number (blk_header (env_block E))) (env_config E) = kOk"
      using Cons.prems(1) by simp
    have "ether (ebal E (proc_evm p)) < 2 ^ 256 \<longrightarrow> ether (ebal E (proc_evm p2)) \<le> ether (ebal E (proc_evm p))"
      using execute_transaction_ether [OF assms(1) adm(1) [OF pre] True p1_def _ x] e1 by simp
    moreover obtain used where used: "unat used \<le> unat (tx_gas_limit txn)"
      "unat (intrinsic_gas txn (evm_revision E \<ge> EVMC_HOMESTEAD) (evm_revision E \<ge> EVMC_ISTANBUL)) \<le> 2 * unat used"
      "proc_cumulative_gas_used p2 = proc_cumulative_gas_used p + used"
      "rcpt_cumulative_gas_used rcpt = proc_cumulative_gas_used p2"
      using execute_transaction_gas [OF assms(1) adm(1) [OF pre] x] e1(2) by metis
    moreover have sum: "unat (proc_cumulative_gas_used p2) = unat (proc_cumulative_gas_used p) + unat used"
      unfolding used(3) using used(1) adm(2) [OF pre] assms(2) by (intro unat_add_lem [THEN iffD1]) simp
    moreover have le: "proc_cumulative_gas_used p2 \<le> gas_limit (blk_header (env_block E))"
      unfolding word_le_nat_alt sum using used(1) adm(2) [OF pre] by simp
    moreover note Cons.IH [OF _ le rest]
    ultimately show ?thesis
      using Cons.prems(1) by (fastforce simp: Let_def word_le_nat_alt)
  qed
qed simp

section \<open>Rewards\<close>

text \<open>
  The rewards of a block over the natural numbers: R for the miner, a 32nd of R more for every ommer, and
  (8 - d) / 8 of R for the miner of an ommer that is d generations older.
\<close>

definition block_rewards :: "'b evm_env \<Rightarrow> address \<Rightarrow> nat" where
  "block_rewards E a =
     (let R = unat (block_reward_of (evm_revision E)); header = blk_header (env_block E)
      in (\<Sum>ommer\<leftarrow>ommers (env_block E).
            if beneficiary ommer = a then (8 + unat (number ommer) - unat (number header)) * R div 8 else 0) +
         (if a = beneficiary header then R + length (ommers (env_block E)) * (R div 32) else 0))"

lemma block_reward_values:
  "unat (block_reward_of rv) =
     (if rv \<ge> EVMC_CONSTANTINOPLE then 2 else if rv \<ge> EVMC_BYZANTIUM then 3 else 5) * 10 ^ 18"
  by (simp add: block_reward_of_def kBlockRewardConstantinople_def kBlockRewardByzantium_def kBlockRewardFrontier_def kEther_def kGiga_def)

lemma ommer_reward_value:
  assumes "number ommer \<le> n" "unat n \<le> unat (number ommer) + 8"
  shows "ommer_reward (block_reward_of rv) n ommer =
    word_of_nat ((8 + unat (number ommer) - unat n) * unat (block_reward_of rv) div 8)"
proof -
  let ?k = "8 + unat (number ommer) - unat n" and ?R = "block_reward_of rv"
  have d: "unat (n - number ommer) = unat n - unat (number ommer)"
    using assms(1) by (simp add: unat_sub)
  then have "n - number ommer \<le> 8"
    using assms(2) by (simp add: word_le_nat_alt)
  then have "unat (8 - (n - number ommer)) = 8 - (unat n - unat (number ommer))"
    using d by (simp add: unat_sub)
  moreover have "8 - (n - number ommer) = 8 + number ommer - n" by simp
  ultimately have k: "unat (8 + number ommer - n) = ?k"
    using assms by (simp add: word_le_nat_alt)
  have "?k * unat ?R \<le> 8 * (5 * 10 ^ 18)"
    using assms(1) by (intro mult_le_mono) (auto simp: word_le_nat_alt block_reward_values)
  then have "?k * unat ?R < 2 ^ 256" by simp
  then have "unat (ucast (8 + number ommer - n) * ?R) = ?k * unat ?R"
    using ucast_mult_price [of "8 + number ommer - n" ?R] by (simp add: k)
  then have "unat (ommer_reward ?R n ommer) = ?k * unat ?R div 8"
    by (simp add: ommer_reward_def drop_bit_eq_div unat_div)
  then show ?thesis by (metis of_nat_unat ucast_id)
qed

lemma rewards_fold:
  assumes "foldl (\<lambda>(m, s) ommer. (m + r, add_to_balance V s (beneficiary ommer) (w ommer))) (m, s) os = (m', s')"
  shows "m' = m + word_of_nat (length os) * r" "bal V s' a = bal V s a + (\<Sum>ommer\<leftarrow>os. if beneficiary ommer = a then w ommer else 0)"
  using assms
proof (induction os arbitrary: m s)
  case (Cons ommer os)
  case 1
  then show ?case using Cons.IH(1) [of "m + r" "add_to_balance V s (beneficiary ommer) (w ommer)"] by (simp add: algebra_simps)
  case 2
  then show ?case using Cons.IH(2) [of "m + r" "add_to_balance V s (beneficiary ommer) (w ommer)"] by (simp add: algebra_simps)
qed simp_all

text \<open>The ommers of a block are between 0 and 8 generations older; validated blocks have them between 1 and 6.\<close>

definition recent_ommers :: "block \<Rightarrow> bool" where
  "recent_ommers b \<longleftrightarrow> (\<forall>ommer\<in>set (ommers b). number ommer \<le> number (blk_header b) \<and>
     unat (number (blk_header b)) \<le> unat (number ommer) + 8)"

lemma apply_rewards_word:
  assumes "recent_ommers (env_block E)"
  shows "bal (env_ops E) (apply_rewards E s) a = bal (env_ops E) s a + word_of_nat (block_rewards E a)"
proof -
  let ?R = "block_reward_of (evm_revision E)" and ?h = "blk_header (env_block E)"
  obtain m s' where fold: "foldl (\<lambda>(m, s) ommer. (m + ?R div 32,
      add_to_balance (env_ops E) s (beneficiary ommer) (ommer_reward ?R (number ?h) ommer))) (?R, s) (ommers (env_block E)) = (m, s')"
    by fastforce
  have sum: "(\<Sum>ommer\<leftarrow>os. if beneficiary ommer = a then ommer_reward ?R (number ?h) ommer else 0) =
      word_of_nat (\<Sum>ommer\<leftarrow>os. if beneficiary ommer = a then (8 + unat (number ommer) - unat (number ?h)) * unat ?R div 8 else 0)"
    if "set os \<subseteq> set (ommers (env_block E))" for os
    using that assms by (induction os) (auto simp: recent_ommers_def ommer_reward_value)
  have div: "?R div 32 = word_of_nat (unat ?R div 32)"
    by (simp add: word_arith_nat_div)
  define S where "S = (\<Sum>ommer\<leftarrow>ommers (env_block E).
      if beneficiary ommer = a then (8 + unat (number ommer) - unat (number ?h)) * unat ?R div 8 else 0)"
  have "bal (env_ops E) s' a = bal (env_ops E) s a + word_of_nat S"
    unfolding rewards_fold(2) [OF fold] sum [OF subset_refl] S_def ..
  moreover have "m = word_of_nat (unat ?R + length (ommers (env_block E)) * (unat ?R div 32))"
    unfolding rewards_fold(1) [OF fold] by (simp add: div)
  ultimately show ?thesis
    unfolding apply_rewards_def Let_def fold case_prod_conv block_rewards_def S_def [symmetric] by auto
qed

lemma apply_rewards_nat:
  assumes "recent_ommers (env_block E)" "unat (bal (env_ops E) s a) + block_rewards E a < 2 ^ 256"
  shows "unat (bal (env_ops E) (apply_rewards E s) a) = unat (bal (env_ops E) s a) + block_rewards E a"
proof -
  have "unat (word_of_nat (block_rewards E a) :: u256) = block_rewards E a"
    using assms(2) by (simp add: unat_of_nat)
  then show ?thesis
    unfolding apply_rewards_word [OF assms(1)] using assms(2) by (simp add: unat_add_lem [THEN iffD1])
qed

lemma apply_rewards_ether:
  assumes "recent_ommers (env_block E)" "ether (bal (env_ops E) s) + (\<Sum>a\<in>UNIV. block_rewards E a) < 2 ^ 256"
  shows "ether (bal (env_ops E) (apply_rewards E s)) = ether (bal (env_ops E) s) + (\<Sum>a\<in>UNIV. block_rewards E a)"
proof -
  have "block_rewards E a \<le> (\<Sum>a\<in>UNIV. block_rewards E a)" for a
    by (rule member_le_sum) simp_all
  then have "unat (bal (env_ops E) s a) + block_rewards E a < 2 ^ 256" for a
    using ether_ge [of "bal (env_ops E) s" a] assms(2) by (meson add_mono le_less_trans)
  then show ?thesis
    using apply_rewards_nat [OF assms(1)] by (simp add: ether_def sum.distrib)
qed

section \<open>Blocks\<close>

lemma processor_execute_blockE:
  assumes "processor_execute_block fuel enum E p = Some ((rs, err), p')"
  obtains p1 p2 where "execute_transactions fuel enum E (transactions (env_block E)) p1 [] = Some ((rs, err), p2)"
    and "ether (ebal E (proc_evm p)) < 2 ^ 256 \<longrightarrow> ether (ebal E (proc_evm p1)) = ether (ebal E (proc_evm p))"
    and "proc_cumulative_gas_used p1 = 0"
    and "ebal E (proc_evm p') =
      (if err = kOk then bal (env_ops E) (apply_rewards E (evm_state (proc_evm p2))) else ebal E (proc_evm p2))"
proof -
  define p1 where "p1 = (if dao_block (env_config E) = Some (number (blk_header (env_block E)))
      then p\<lparr>proc_evm := upd_state (transfer_balances (env_ops E)) (proc_evm p)\<rparr> else p)\<lparr>proc_cumulative_gas_used := 0\<rparr>"
  have eth: "ether (ebal E (proc_evm p)) < 2 ^ 256 \<longrightarrow> ether (ebal E (proc_evm p1)) = ether (ebal E (proc_evm p))"
    using transfer_fold [OF kWithdraw_no_child _ transfer_balances_def, of "env_ops E" "evm_state (proc_evm p)"]
    by (simp add: p1_def bal_ebal)
  have zero: "proc_cumulative_gas_used p1 = 0" by (simp add: p1_def)
  obtain rs' err' p2 where x: "execute_transactions fuel enum E (transactions (env_block E)) p1 [] = Some ((rs', err'), p2)"
    and "rs = rs'" "err = err'" "p' = (if err' = kOk then p2\<lparr>proc_evm := upd_state (apply_rewards E) (proc_evm p2)\<rparr> else p2)"
    using assms unfolding processor_execute_block_def Let_def p1_def [symmetric]
    by (auto split: option.splits prod.splits if_splits)
  then show thesis
    using that [OF _ eth zero] by simp
qed

lemma processor_execute_block_some:
  assumes "depth_limited E"
  obtains rs err p' where "processor_execute_block 1025 enum E p = Some ((rs, err), p')"
proof -
  have "execute_transactions 1025 enum E txns q [] \<noteq> None" for txns q
    using execute_transactions_returns [OF assms, of enum txns q "[]"] by auto
  then have "processor_execute_block 1025 enum E p \<noteq> None"
    unfolding processor_execute_block_def Let_def by (auto simp del: not_None_eq split: option.split)
  with that show thesis by auto
qed

text \<open>
  C6.  Executing a block whose transactions passed the checks always returns, and its receipts account for the gas: they belong to the
  transactions in order, to all of them when no transaction is rejected; the cumulative gas grows with each by at
  least half the intrinsic gas and at most the gas limit of the transaction and never passes
  the gas limit of the block, without 64-bit wrap-around.
\<close>

theorem execute_block_receipts_gas:
  assumes "depth_limited E" and "gas_sound_interpreter E"
    and "pre_validate_transactions (number (blk_header (env_block E))) (env_config E) (transactions (env_block E)) = kOk"
    and "unat (gas_limit (blk_header (env_block E))) < 2 ^ 63"
  shows "\<exists>receipts err p'. processor_execute_block 1025 enum E p = Some ((receipts, err), p') \<and>
    receipts_gas E 0 (transactions (env_block E)) receipts \<and>
    (err = kOk \<longrightarrow> length receipts = length (transactions (env_block E)))"
proof -
  obtain rs err p' where x: "processor_execute_block 1025 enum E p = Some ((rs, err), p')"
    using processor_execute_block_some [OF assms(1)] .
  then obtain p1 p2 where run: "execute_transactions 1025 enum E (transactions (env_block E)) p1 [] = Some ((rs, err), p2)"
    and zero: "proc_cumulative_gas_used p1 = 0"
    by (rule processor_execute_blockE)
  have "receipts_gas E 0 (transactions (env_block E)) rs \<and> (err = kOk \<longrightarrow> length rs = length (transactions (env_block E)))"
    using execute_transactions_sound [OF assms(2,4) _ _ run] assms(3) zero by (auto simp: pre_validate_transactions_ok)
  with x show ?thesis by blast
qed

text \<open>A block with a transfer and an ommer, and a machine that does nothing.\<close>

definition sample_env :: "memory_buffer evm_env" where
  "sample_env =
     \<lparr>env_ops = memory_buffer_ops (\<lambda>_. 0), env_keccak256 = (\<lambda>_. 0),
      env_interpreter = (\<lambda>rv m c. Done (new_result EVMC_SUCCESS 0 [])), env_precompiled_gas = (\<lambda>_ _ _. 0),
      env_precompiled_run = (\<lambda>_ _. None),
      env_block = \<lparr>transactions = [new_transaction\<lparr>tx_gas_limit := 21000, tx_r := 1, tx_s := 1, tx_to := Some 9, tx_from := Some 7\<rparr>],
        ommers = [sample_ommer], blk_header = (sample_header 22 3 131200)\<lparr>gas_limit := 30000\<rparr>\<rparr>,
      env_config = sample_config, env_txn = new_transaction\<rparr>"

lemma sample_env_ok:
  "depth_limited sample_env" "gas_sound_interpreter sample_env" "unat (gas_limit (blk_header (env_block sample_env))) < 2 ^ 63"
  "pre_validate_transactions (number (blk_header (env_block sample_env))) (env_config sample_env) (transactions (env_block sample_env)) = kOk"
  "recent_ommers (env_block sample_env)"
proof -
  show "pre_validate_transactions (number (blk_header (env_block sample_env))) (env_config sample_env)
      (transactions (env_block sample_env)) = kOk"
    by (simp add: sample_env_def pre_validate_transaction_def sample_revision Let_def new_transaction_def
        is_valid_signature_def kSecp256k1n_def kSecp256k1Halfn_def intrinsic_gas_def kGTransaction_def less_eq_evmc_revision_def
        word_le_nat_alt)
qed (simp_all add: sample_env_def depth_limited_def gas_sound_interpreter_def sample_header_def sample_ommer_def recent_ommers_def)

lemma sample_rewards:
  "block_rewards sample_env a = (if a = 5 then 4375000000000000000 else 0) + (if a = 0 then 5156250000000000000 else 0)"
  by (simp add: block_rewards_def block_reward_values evm_revision_def sample_env_def sample_revision sample_ommer_def
      sample_header_def less_eq_evmc_revision_def)

lemma sample_total_rewards: "(\<Sum>a\<in>UNIV. block_rewards sample_env a) = 9531250000000000000"
  unfolding sample_rewards sum.distrib by simp

lemma empty_balances:
  "bal (memory_buffer_ops r) (new_ibs new_memory_buffer) = (\<lambda>_. 0)" "ether (\<lambda>_. 0) = 0"
  by (rule ext, simp add: bal_eq view_account_eq view_object_eq)
     (simp_all add: new_ibs_def db_object_def memory_buffer_ops_def mb_read_account_def new_memory_buffer_def ether_def)

theorem execute_block_receipts_gas_witness:
  "\<exists>receipts err p'. processor_execute_block 1025 (\<lambda>_. []) sample_env (new_processor (new_ibs new_memory_buffer)) =
       Some ((receipts, err), p') \<and>
    receipts_gas sample_env 0 (transactions (env_block sample_env)) receipts \<and> (err = kOk \<longrightarrow> length receipts = 1)"
  using execute_block_receipts_gas [OF sample_env_ok(1,2,4,3), of "\<lambda>_. []" "new_processor (new_ibs new_memory_buffer)"]
  by (simp add: sample_env_def)

text \<open>
  C7.  Executing a block creates no ether but the rewards: the sum of all balances grows by the rewards of the block at most
  (it may shrink by what self-destructed accounts hold), whatever the contracts do, and
  not at all when the block is rejected.
\<close>

theorem execute_block_supply:
  assumes "gas_sound_interpreter E"
    and "pre_validate_transactions (number (blk_header (env_block E))) (env_config E) (transactions (env_block E)) = kOk"
    and "unat (gas_limit (blk_header (env_block E))) < 2 ^ 63" and "recent_ommers (env_block E)"
    and "ether (bal (env_ops E) (evm_state (proc_evm p))) + (\<Sum>a\<in>UNIV. block_rewards E a) < 2 ^ 256"
    and "processor_execute_block fuel enum E p = Some ((receipts, err), p')"
  shows "ether (bal (env_ops E) (evm_state (proc_evm p'))) \<le>
    ether (bal (env_ops E) (evm_state (proc_evm p))) + (if err = kOk then (\<Sum>a\<in>UNIV. block_rewards E a) else 0)"
  using assms(6)
proof (rule processor_execute_blockE)
  fix p1 p2
  assume run: "execute_transactions fuel enum E (transactions (env_block E)) p1 [] = Some ((receipts, err), p2)"
    and e1: "ether (ebal E (proc_evm p)) < 2 ^ 256 \<longrightarrow> ether (ebal E (proc_evm p1)) = ether (ebal E (proc_evm p))"
    and zero: "proc_cumulative_gas_used p1 = 0"
    and e': "ebal E (proc_evm p') =
      (if err = kOk then bal (env_ops E) (apply_rewards E (evm_state (proc_evm p2))) else ebal E (proc_evm p2))"
  have "ether (ebal E (proc_evm p1)) < 2 ^ 256 \<longrightarrow> ether (ebal E (proc_evm p2)) \<le> ether (ebal E (proc_evm p1))"
    using execute_transactions_sound [OF assms(1,3) _ _ run] assms(2) zero by (auto simp: pre_validate_transactions_ok)
  then have le: "ether (ebal E (proc_evm p2)) \<le> ether (ebal E (proc_evm p))"
    using e1 assms(5) by (simp add: bal_ebal)
  then show ?thesis
    using apply_rewards_ether [OF assms(4), of "evm_state (proc_evm p2)"] assms(5) e' by (auto simp: bal_ebal)
qed

theorem execute_block_supply_witness:
  "\<exists>receipts err p'. processor_execute_block 1025 (\<lambda>_. []) sample_env (new_processor (new_ibs new_memory_buffer)) =
       Some ((receipts, err), p') \<and>
     ether (bal (memory_buffer_ops (\<lambda>_. 0)) (evm_state (proc_evm p'))) \<le> (if err = kOk then 9531250000000000000 else 0)"
proof -
  let ?p = "new_processor (new_ibs new_memory_buffer)"
  obtain rs err p' where x: "processor_execute_block 1025 (\<lambda>_. []) sample_env ?p = Some ((rs, err), p')"
    using processor_execute_block_some [OF sample_env_ok(1)] .
  have ops: "env_ops sample_env = memory_buffer_ops (\<lambda>_. 0)" by (simp add: sample_env_def)
  have zero: "ether (bal (env_ops sample_env) (evm_state (proc_evm ?p))) = 0"
    unfolding ops by (simp add: new_processor_def new_evm_def empty_balances)
  have "ether (bal (env_ops sample_env) (evm_state (proc_evm ?p))) + (\<Sum>a\<in>UNIV. block_rewards sample_env a) < 2 ^ 256"
    unfolding zero sample_total_rewards by simp
  from execute_block_supply [OF sample_env_ok(2,4,3,5) this x] x show ?thesis
    unfolding sample_total_rewards using zero by (auto simp: ops)
qed

text \<open>
  C15.  The rewards: with ommers at most eight generations older than the block, the miner receives the block
  reward of the revision (5, 3 or 2 ether) and a 32nd of it more for every ommer, the miner of an ommer
  that is d generations older (8 - d) / 8 of it, and no other balance changes.
\<close>

theorem apply_rewards_correct:
  assumes "recent_ommers (env_block E)" "unat (fst (get_balance (env_ops E) s a)) + block_rewards E a < 2 ^ 256"
  shows "unat (fst (get_balance (env_ops E) (apply_rewards E s) a)) =
    unat (fst (get_balance (env_ops E) s a)) + block_rewards E a"
  using apply_rewards_nat [OF assms(1), of s a] assms(2) by (simp add: bal_def)

theorem apply_rewards_correct_witness:
  "unat (fst (get_balance (memory_buffer_ops (\<lambda>_. 0)) (apply_rewards sample_env (new_ibs new_memory_buffer)) 5)) = 4375000000000000000"
proof -
  have ops: "env_ops sample_env = memory_buffer_ops (\<lambda>_. 0)" by (simp add: sample_env_def)
  have "fst (get_balance (env_ops sample_env) (new_ibs new_memory_buffer) 5) = 0"
    unfolding bal_def [symmetric] ops by (simp add: empty_balances)
  then show ?thesis
    using apply_rewards_correct [OF sample_env_ok(5), of "new_ibs new_memory_buffer" 5] by (simp add: sample_rewards ops)
qed

text \<open>
  C16.  \<open>validate_transaction\<close> accepts a transaction exactly when its sender is known, its nonce is that of the
  sender, the sender can pay for the gas and the value (the sum is taken without wrap-around, in 512 bits),
  and the gas limit does not exceed what is left of the block.
\<close>

theorem validate_transaction_correct:
  "fst (validate_transaction E p txn) = kOk \<longleftrightarrow>
     (\<exists>sender. tx_from txn = Some sender \<and>
        fst (get_nonce (env_ops E) (evm_state (proc_evm p)) sender) = tx_nonce txn \<and>
        unat (tx_gas_limit txn) * unat (tx_gas_price txn) + unat (tx_value txn)
          \<le> unat (fst (get_balance (env_ops E) (evm_state (proc_evm p)) sender)) \<and>
        tx_gas_limit txn \<le> available_gas E p)"
  unfolding fst_get_balance by (rule validate_transaction_iff)

end
