(* ===== verification/Blockchain.thy ===== *)
theory Blockchain
  imports Block_Execution "HOL-Library.Monad_Syntax"
begin

text \<open>
  core/silkworm/chain/blockchain.hpp and blockchain.cpp: the insertion of blocks, with the choice between branches
  by total difficulty.

  A result \<open>None\<close> stands for every way in which the code does not return: a null optional that is dereferenced, a vector
  longer than memory (\<open>std::length_error\<close>), a loop that does not end, or too little fuel for the machine.
\<close>

record ('b, 'sig, 'key) node =
  node_env :: "'b evm_env"
  node_crypto :: chain_crypto
  node_secp256k1 :: "('sig, 'key) secp256k1"
  node_fuel :: nat
  node_enum :: "address set \<Rightarrow> address list"
  node_iter :: "'b ibs \<Rightarrow> iteration"

record 'b blockchain =
  bc_state :: 'b
  bc_bad_blocks :: "bytes32 \<rightharpoonup> validation_result"

abbreviation node_ops :: "('b, 'sig, 'key) node \<Rightarrow> 'b buffer_ops" where
  "node_ops N \<equiv> env_ops (node_env N)"

abbreviation node_hash :: "('b, 'sig, 'key) node \<Rightarrow> block_header \<Rightarrow> bytes32" where
  "node_hash N h \<equiv> header_hash (cc_keccak256 (node_crypto N)) h False"

definition new_blockchain :: "('b, 'sig, 'key) node \<Rightarrow> 'b \<Rightarrow> block \<Rightarrow> 'b blockchain" where
  "new_blockchain N st genesis_block =
     (let V = node_ops N;
          hash = node_hash N (blk_header genesis_block);
          st = insert_block V st genesis_block hash;
          st = canonize_block V st (number (blk_header genesis_block)) hash
      in \<lparr>bc_state = st, bc_bad_blocks = Map.empty\<rparr>)"

definition bc_execute_block ::
    "('b, 'sig, 'key) node \<Rightarrow> block \<Rightarrow> bool \<Rightarrow> 'b \<Rightarrow> (validation_result \<times> 'b) option" where
  "bc_execute_block N b check_state_root st =
     do {
       (res, st) \<leftarrow> execute_block (node_fuel N) (node_enum N) (node_iter N) ((node_env N)\<lparr>env_block := b\<rparr>) st;
       if snd res \<noteq> kOk then Some (snd res, st)
       else if check_state_root \<and> state_root_hash (node_ops N) st \<noteq> state_root (blk_header b)
       then Some (kWrongStateRoot, unwind_state_changes (node_ops N) st (number (blk_header b)))
       else Some (kOk, st)
     }"

text \<open>The block stored under a number and a hash, as the code puts it together from header and body.\<close>

definition read_block :: "'b buffer_ops \<Rightarrow> 'b \<Rightarrow> u64 \<Rightarrow> bytes32 \<Rightarrow> block option" where
  "read_block V st n hash =
     do {
       body \<leftarrow> read_body V st n hash;
       header \<leftarrow> read_header V st n hash;
       Some \<lparr>transactions = transactions body, ommers = ommers body, blk_header = header\<rparr>
     }"

text \<open>The loop of \<open>re_execute_canonical_chain\<close> from a block number on.\<close>

partial_function (option) re_execute_from :: "('b, 'sig, 'key) node \<Rightarrow> u64 \<Rightarrow> u64 \<Rightarrow> 'b \<Rightarrow> 'b option" where
  "re_execute_from N n tip st =
     (if n \<le> tip then
        do {
          hash \<leftarrow> canonical_hash (node_ops N) st n;
          b \<leftarrow> read_block (node_ops N) st n hash;
          (_, st) \<leftarrow> bc_execute_block N b False st;
          re_execute_from N (n + 1) tip st
        }
      else Some st)"

definition re_execute_canonical_chain :: "('b, 'sig, 'key) node \<Rightarrow> u64 \<Rightarrow> u64 \<Rightarrow> 'b \<Rightarrow> 'b option" where
  "re_execute_canonical_chain N ancestor tip st = re_execute_from N (ancestor + 1) tip st"

function unwind_last_changes :: "'b buffer_ops \<Rightarrow> u64 \<Rightarrow> u64 \<Rightarrow> 'b \<Rightarrow> 'b" where
  "unwind_last_changes V ancestor n st =
     (if n > ancestor then unwind_last_changes V ancestor (n - 1) (unwind_state_changes V st n) else st)"
  by auto
termination
  by (relation "measure (\<lambda>(V, a, n, st). unat n)") (auto dest: unat_pred)

declare unwind_last_changes.simps [simp del]

text \<open>
  The loop of \<open>intermediate_chain\<close> fills the vector from its end, which is to put blocks in front of the
  blocks already found.
\<close>

function intermediate_loop :: "'b buffer_ops \<Rightarrow> 'b \<Rightarrow> u64 \<Rightarrow> bytes32 \<Rightarrow> u64 \<Rightarrow> (block \<times> bytes32) list \<Rightarrow>
    (block \<times> bytes32) list option" where
  "intermediate_loop V st n hash ancestor chain =
     (if n > ancestor then
        do {
          b \<leftarrow> read_block V st n hash;
          intermediate_loop V st (n - 1) (parent_hash (blk_header b)) ancestor ((b, hash) # chain)
        }
      else Some chain)"
  by auto
termination
  by (relation "measure (\<lambda>(V, st, n, hash, a, chain). unat n)") (auto dest: unat_pred)

declare intermediate_loop.simps [simp del]

text \<open>The vector has \<open>block_number - canonical_ancestor\<close> elements, a difference of unsigned numbers.\<close>

definition intermediate_chain :: "'b buffer_ops \<Rightarrow> 'b \<Rightarrow> u64 \<Rightarrow> bytes32 \<Rightarrow> u64 \<Rightarrow> (block \<times> bytes32) list option" where
  "intermediate_chain V st block_number hash canonical_ancestor =
     (if block_number < canonical_ancestor then None
      else intermediate_loop V st block_number hash canonical_ancestor [])"

partial_function (option) canonical_ancestor :: "'b buffer_ops \<Rightarrow> 'b \<Rightarrow> block_header \<Rightarrow> bytes32 \<Rightarrow> u64 option" where
  "canonical_ancestor V st header hash =
     (if canonical_hash V st (number header) = Some hash then Some (number header)
      else
        do {
          parent \<leftarrow> read_header V st (number header - 1) (parent_hash header);
          canonical_ancestor V st parent (parent_hash header)
        })"

text \<open>The loop of \<open>insert_block\<close> over the chain: the first error, and the number of blocks executed before it.\<close>

fun execute_chain :: "('b, 'sig, 'key) node \<Rightarrow> bool \<Rightarrow> (block \<times> bytes32) list \<Rightarrow> u64 \<Rightarrow> 'b \<Rightarrow>
    (validation_result \<times> u64 \<times> 'b) option" where
  "execute_chain N check [] k st = Some (kOk, k, st)"
| "execute_chain N check (x # chain) k st =
     do {
       (err, st) \<leftarrow> bc_execute_block N (fst x) check st;
       if err \<noteq> kOk then Some (err, k, st) else execute_chain N check chain (k + 1) st
     }"

function decanonize_from :: "'b buffer_ops \<Rightarrow> u64 \<Rightarrow> u64 \<Rightarrow> 'b \<Rightarrow> 'b" where
  "decanonize_from V ancestor i st =
     (if i > ancestor then decanonize_from V ancestor (i - 1) (decanonize_block V st i) else st)"
  by auto
termination
  by (relation "measure (\<lambda>(V, a, n, st). unat n)") (auto dest: unat_pred)

declare decanonize_from.simps [simp del]

definition canonize_chain :: "'b buffer_ops \<Rightarrow> (block \<times> bytes32) list \<Rightarrow> 'b \<Rightarrow> 'b" where
  "canonize_chain V chain st = foldl (\<lambda>st x. canonize_block V st (number (blk_header (fst x))) (snd x)) st chain"

text \<open>Back to the canonical chain: what is done when the branch is rejected.\<close>

definition restore_canonical :: "('b, 'sig, 'key) node \<Rightarrow> u64 \<Rightarrow> u64 \<Rightarrow> u64 \<Rightarrow> 'b \<Rightarrow> 'b option" where
  "restore_canonical N ancestor executed current st =
     re_execute_canonical_chain N ancestor current (unwind_last_changes (node_ops N) ancestor (ancestor + executed) st)"

text \<open>What is done when the branch has been executed: it becomes canonical when it has more total difficulty.\<close>

definition choose_branch ::
    "('b, 'sig, 'key) node \<Rightarrow> block \<Rightarrow> bytes32 \<Rightarrow> (block \<times> bytes32) list \<Rightarrow> u64 \<Rightarrow> u64 \<Rightarrow> u64 \<Rightarrow> 'b \<Rightarrow> 'b option" where
  "choose_branch N b hash chain ancestor executed current st =
     do {
       let V = node_ops N;
       let st = insert_block V st b hash;
       current_hash \<leftarrow> canonical_hash V st current;
       current_total_difficulty \<leftarrow> total_difficulty V st current current_hash;
       if (case total_difficulty V st (number (blk_header b)) hash of
             None \<Rightarrow> False | Some td \<Rightarrow> td > current_total_difficulty)
       then Some (canonize_chain V chain (decanonize_from V ancestor current st))
       else restore_canonical N ancestor executed current st
     }"

text \<open>The block comes back with the senders of its transactions recovered.\<close>

definition bc_insert_block ::
    "('b, 'sig, 'key) node \<Rightarrow> 'b blockchain \<Rightarrow> block \<Rightarrow> bool \<Rightarrow> (validation_result \<times> block \<times> 'b blockchain) option" where
  "bc_insert_block N bc b check_state_root =
     (let V = node_ops N;
          st = bc_state bc;
          err = pre_validate_block (node_crypto N) V b st (env_config (node_env N));
          hash = node_hash N (blk_header b)
      in if err \<noteq> kOk then Some (err, b, bc)
         else case bc_bad_blocks bc hash of
           Some err \<Rightarrow> Some (err, b, bc)
         | None \<Rightarrow>
             do {
               let b = recover_senders (cc_keccak256 (node_crypto N)) (node_secp256k1 N) b;
               ancestor \<leftarrow> canonical_ancestor V st (blk_header b) hash;
               let current = current_canonical_block V st;
               let st = unwind_last_changes V ancestor current st;
               chain \<leftarrow> intermediate_chain V st (number (blk_header b) - 1) (parent_hash (blk_header b)) ancestor;
               let chain = chain @ [(b, hash)];
               (err, executed, st) \<leftarrow> execute_chain N check_state_root chain 0 st;
               if err \<noteq> kOk then
                 do {
                   st \<leftarrow> restore_canonical N ancestor executed current st;
                   Some (err, b, \<lparr>bc_state = st, bc_bad_blocks = (bc_bad_blocks bc)(hash \<mapsto> err)\<rparr>)
                 }
               else
                 do {
                   st \<leftarrow> choose_branch N b hash chain ancestor executed current st;
                   Some (kOk, b, bc\<lparr>bc_state := st\<rparr>)
                 }
             })"

end
