(* ===== verification/Blockchain_Correct.thy ===== *)
theory Blockchain_Correct
  imports Blockchain
begin

text \<open>
  What the insertion of blocks guarantees, for every store of blocks with the laws of \<open>chain_store\<close>: it always returns, keeps
  the canonical chain linked from the genesis block to its head, follows the branch of greater total difficulty and
  leaves the store alone when it rejects a block.
\<close>

section \<open>The database behind a state changes only by \<open>write_to_db\<close>\<close>

lemma revert_deltas_db: "ibs_db (revert_deltas ds s) = ibs_db s"
proof (induction ds)
  case (Cons d ds)
  then show ?case by (cases d) simp_all
qed simp

lemma ibs_run_db:
  assumes "ibs_run k V s t"
  shows "ibs_db t = ibs_db s"
proof -
  have "revertible V s t" using assms by (rule ibs_run_revertible)
  from revert_to_snapshot_same(1) [OF this] have "ibs_db (revert_to_snapshot (take_snapshot s) t) = ibs_db s"
    by (simp add: same_def)
  then show ?thesis by (simp add: revert_to_snapshot_def Let_def revert_deltas_db)
qed

lemma ibs_op_db: "ibs_op k V s t \<Longrightarrow> ibs_db t = ibs_db s"
  using ibs_run_db [OF run_op [OF run_refl]] .

lemma evm_run_db: "evm_run E e e' \<Longrightarrow> ibs_db (evm_state e') = ibs_db (evm_state e)"
  unfolding evm_run_def by (rule ibs_run_db)

lemma ops_db [simp]:
  "ibs_db (snd (get_object V s a)) = ibs_db s" "ibs_db (set_balance V s a v) = ibs_db s"
  "ibs_db (add_to_balance V s a v) = ibs_db s" "ibs_db (subtract_from_balance V s a v) = ibs_db s"
  "ibs_db (set_nonce V s a n) = ibs_db s" "ibs_db (snd (access_account s a)) = ibs_db s"
  "ibs_db (snd (access_storage s a k)) = ibs_db s"
  by (rule ibs_op_db [of "\<lambda>_. 0" V], rule ibs_op.intros)+

lemma getters_db [simp]:
  "ibs_db (snd (get_balance V s a)) = ibs_db s" "ibs_db (snd (get_nonce V s a)) = ibs_db s" "ibs_db (snd (is_dead V s a)) = ibs_db s"
  "ibs_db (clear_journal_and_substate s) = ibs_db s" "ibs_db (finalize_transaction s) = ibs_db s"
  by (simp_all add: getter_states clear_journal_and_substate_def finalize_transaction_def)

lemma destruct_db [simp]: "ibs_db (destruct V s a) = ibs_db s"
  by (simp add: destruct_def Let_def case_prod_beta split: option.split)

lemma foldl_db: "(\<And>s x. ibs_db (f s x) = ibs_db s) \<Longrightarrow> ibs_db (foldl f s xs) = ibs_db s"
  by (induction xs arbitrary: s) simp_all

lemma access_entry_db: "ibs_db (access_entry s x) = ibs_db s"
  unfolding access_entry_def by (subst foldl_db) simp_all

lemma rewards_db:
  "ibs_db (snd (foldl (\<lambda>(m, s) ommer. (m + r, add_to_balance V s (beneficiary ommer) (w ommer))) x os)) = ibs_db (snd x)"
  for r :: u256
  by (induction os arbitrary: x) (simp_all add: case_prod_beta)

lemma processor_db:
  "ibs_db (transfer_balances V s) = ibs_db s" "ibs_db (prepare_transaction V txn s) = ibs_db s"
  "ibs_db (snd (finish_transaction enum E txn left s)) = ibs_db s" "ibs_db (apply_rewards E s) = ibs_db s"
  "ibs_db (evm_state (proc_evm (snd (validate_transaction E p txn)))) = ibs_db (evm_state (proc_evm p))"
proof -
  show "ibs_db (transfer_balances V s) = ibs_db s"
    unfolding transfer_balances_def by (rule foldl_db) (simp add: case_prod_beta)
  show "ibs_db (prepare_transaction V txn s) = ibs_db s"
    by (simp add: prepare_transaction_def Let_def foldl_db access_entry_db split: option.split)
  show "ibs_db (snd (finish_transaction enum E txn left s)) = ibs_db s"
    by (simp add: finish_transaction_def refund_gas_def Let_def case_prod_beta destruct_suicides_def destruct_touched_dead_def
        foldl_db)
  show "ibs_db (apply_rewards E s) = ibs_db s"
    by (simp add: apply_rewards_def Let_def rewards_db case_prod_beta)
  show "ibs_db (evm_state (proc_evm (snd (validate_transaction E p txn)))) = ibs_db (evm_state (proc_evm p))"
    by (simp add: validate_transaction_def Let_def case_prod_beta split: option.split)
qed

lemma evm_execute_txn_db:
  assumes "evm_execute_txn fuel E e gas = Some (res, e')"
  shows "ibs_db (evm_state e') = ibs_db (evm_state e)"
proof -
  have "evm_run E e e'"
    using assms evm_create_run [OF evm_execute_run] evm_call_run [OF evm_execute_run]
    by (auto simp: evm_execute_txn_def Let_def split: if_splits)
  then show ?thesis by (rule evm_run_db)
qed

lemma execute_transaction_db:
  assumes "execute_transaction fuel enum E p txn = Some (rcpt, p')"
  shows "ibs_db (evm_state (proc_evm p')) = ibs_db (evm_state (proc_evm p))"
  using assms unfolding execute_transaction_def Let_def
  by (auto simp: case_prod_beta processor_db dest!: evm_execute_txn_db split: option.splits)

lemma execute_transactions_db:
  "execute_transactions fuel enum E txns p receipts = Some (res, p') \<Longrightarrow> ibs_db (evm_state (proc_evm p')) = ibs_db (evm_state (proc_evm p))"
proof (induction txns arbitrary: p receipts)
  case (Cons txn txns)
  then show ?case
    using processor_db(5) [of E p txn]
    by (auto simp: case_prod_beta split: if_splits option.splits dest!: execute_transaction_db)
qed simp

lemma processor_execute_block_db:
  assumes "processor_execute_block fuel enum E p = Some (res, p')"
  shows "ibs_db (evm_state (proc_evm p')) = ibs_db (evm_state (proc_evm p))"
  using assms unfolding processor_execute_block_def Let_def
  by (auto simp: processor_db dest!: execute_transactions_db split: option.splits prod.splits if_splits)

section \<open>State changes keep the store of blocks\<close>

definition keeps_chain :: "'b buffer_ops \<Rightarrow> ('b \<Rightarrow> bool) \<Rightarrow> 'b \<Rightarrow> 'b \<Rightarrow> bool" where
  "keeps_chain V good d d' \<longleftrightarrow> chain_view V d' = chain_view V d \<and> (good d \<longrightarrow> good d')"

lemma keeps_chain_refl [simp]: "keeps_chain V good d d"
  by (simp add: keeps_chain_def)

lemma keeps_chain_trans [trans]: "keeps_chain V good d d' \<Longrightarrow> keeps_chain V good d' d'' \<Longrightarrow> keeps_chain V good d d''"
  by (simp add: keeps_chain_def)

lemma keeps_chain_fold:
  assumes "\<And>x a. keeps_chain V good (g x) (g (f x a))"
  shows "keeps_chain V good (g x) (g (foldl f x as))"
proof (induction as arbitrary: x)
  case (Cons a as)
  then show ?case using keeps_chain_trans [OF assms [of x a]] by simp
qed simp

context chain_store
begin

lemmas view_laws = view_begin view_account view_code view_storage view_unwind

lemma state_change_keeps:
  "keeps_chain V good d (begin_block V d n)" "keeps_chain V good d (update_account V d a old cur)"
  "keeps_chain V good d (update_account_code V d a i k c)" "keeps_chain V good d (update_storage V d a i l v w)"
  "keeps_chain V good d (unwind_state_changes V d n)"
  using view_laws by (simp_all add: keeps_chain_def)

lemma write_to_db_keeps: "keeps_chain V good (ibs_db s) (ibs_db (write_to_db V it s n))"
proof -
  have st: "keeps_chain V good d (write_storage V s it d a)" for d a
    unfolding write_storage_def
    by (auto split: option.split intro!: keeps_chain_fold [where g = "\<lambda>x. x"] state_change_keeps)
  have ob: "keeps_chain V good (fst x) (fst (write_object V s x a))" for x a
    using view_laws by (auto simp: write_object_def Let_def keeps_chain_def split: option.split prod.split)
  have "keeps_chain V good (ibs_db s) (begin_block V (ibs_db s) n)" by (rule state_change_keeps)
  also have "keeps_chain V good (begin_block V (ibs_db s) n) (foldl (write_storage V s it) (begin_block V (ibs_db s) n) (it_storage it))"
    using st by (rule keeps_chain_fold [where g = "\<lambda>x. x"])
  finally show ?thesis
    unfolding ibs_db_write
    using keeps_chain_trans [OF _ keeps_chain_fold [where g = fst, OF ob], of _ "(_, _)"] by simp
qed

lemma execute_block_keeps:
  assumes "execute_block fuel enum iter E db = Some (res, db')" "env_ops E = V"
  shows "keeps_chain V good db db'"
proof -
  obtain rs err p where p: "processor_execute_block fuel enum E (new_processor (new_ibs db)) = Some ((rs, err), p)"
    and "db' = db \<or> db' = ibs_db (write_to_db V (iter (evm_state (proc_evm p))) (evm_state (proc_evm p)) (number (blk_header (env_block E))))"
    using assms by (auto simp: execute_block_def Let_def split: option.splits prod.splits if_splits)
  moreover have "ibs_db (evm_state (proc_evm p)) = db"
    using processor_execute_block_db [OF p] by (simp add: new_processor_def new_evm_def new_ibs_def)
  ultimately show ?thesis
    using write_to_db_keeps [of "evm_state (proc_evm p)"] by auto
qed

lemma bc_execute_block_keeps:
  assumes "bc_execute_block N b check d = Some (err, d')" "node_ops N = V"
  shows "keeps_chain V good d d'"
proof -
  obtain res d1 where x: "execute_block (node_fuel N) (node_enum N) (node_iter N) ((node_env N)\<lparr>env_block := b\<rparr>) d = Some (res, d1)"
    and "d' = d1 \<or> d' = unwind_state_changes V d1 (number (blk_header b))"
    using assms by (auto simp: bc_execute_block_def bind_eq_Some_conv split: if_splits)
  moreover have "keeps_chain V good d d1"
    using execute_block_keeps [OF x] assms(2) by simp
  ultimately show ?thesis
    using keeps_chain_trans [OF _ state_change_keeps(5)] by auto
qed

lemma execute_chain_keeps:
  assumes "node_ops N = V"
  shows "execute_chain N check chain k d = Some (err, n, d') \<Longrightarrow> keeps_chain V good d d'"
proof (induction chain arbitrary: k d)
  case (Cons x chain)
  then obtain err1 d1 where x: "bc_execute_block N (fst x) check d = Some (err1, d1)"
    and rest: "d' = d1 \<or> execute_chain N check chain (k + 1) d1 = Some (err, n, d')"
    by (auto simp: bind_eq_Some_conv split: if_splits)
  from rest show ?case
    using bc_execute_block_keeps [OF x assms] keeps_chain_trans [OF bc_execute_block_keeps [OF x assms] Cons.IH] by auto
qed simp

lemma unwind_last_changes_keeps: "keeps_chain V good d (unwind_last_changes V a n d)"
proof (induction "unat n" arbitrary: n d rule: less_induct)
  case less
  show ?case
    by (subst unwind_last_changes.simps) (auto intro: keeps_chain_trans [OF state_change_keeps(5) less] unat_pred)
qed


end

section \<open>The invariant of the store of blocks\<close>

text \<open>
  Stored blocks: the number fits, header, body and total difficulty are stored together, the parent is stored too, the total
  difficulty is that of the parent plus the own one, and only one block has number 0.
\<close>

definition store_ok :: "'b buffer_ops \<Rightarrow> 'b \<Rightarrow> bool" where
  "store_ok V d \<longleftrightarrow> (\<forall>n h hdr. read_header V d n h = Some hdr \<longrightarrow>
     number hdr = n \<and> n \<noteq> - 1 \<and> read_body V d n h \<noteq> None \<and> (n = 0 \<longrightarrow> canonical_hash V d 0 = Some h) \<and>
     (\<exists>t. total_difficulty V d n h = Some t \<and>
        (n \<noteq> 0 \<longrightarrow> read_header V d (n - 1) (parent_hash hdr) \<noteq> None \<and>
           (\<exists>t'. total_difficulty V d (n - 1) (parent_hash hdr) = Some t' \<and> t = t' + difficulty hdr))))"

text \<open>The canonical chain up to a number: a hash for every number, and each block is the parent of the next.\<close>

definition canonical_to :: "'b buffer_ops \<Rightarrow> 'b \<Rightarrow> u64 \<Rightarrow> bool" where
  "canonical_to V d tip \<longleftrightarrow> (\<forall>i. canonical_hash V d i \<noteq> None \<longleftrightarrow> i \<le> tip) \<and>
     (\<forall>n h. canonical_hash V d n = Some h \<longrightarrow>
        (\<exists>hdr. read_header V d n h = Some hdr \<and> (n \<noteq> 0 \<longrightarrow> canonical_hash V d (n - 1) = Some (parent_hash hdr))))"

definition chain_ok :: "'b buffer_ops \<Rightarrow> 'b \<Rightarrow> bool" where
  "chain_ok V d \<longleftrightarrow> store_ok V d \<and> canonical_to V d (current_canonical_block V d)"


lemma store_okE:
  assumes "store_ok V d" "read_header V d n h = Some hdr"
  obtains body t where "number hdr = n" "n \<noteq> - 1" "read_body V d n h = Some body" "n = 0 \<Longrightarrow> canonical_hash V d 0 = Some h"
    "total_difficulty V d n h = Some t"
  using assms unfolding store_ok_def by blast

lemma store_ok_parent:
  assumes "store_ok V d" "read_header V d n h = Some hdr" "n \<noteq> 0"
  obtains p t where "read_header V d (n - 1) (parent_hash hdr) = Some p" "total_difficulty V d (n - 1) (parent_hash hdr) = Some t"
  using assms unfolding store_ok_def by blast

section \<open>Walking down a branch\<close>

text \<open>Blocks on top of the block with number p and hash hp, each the parent of the next, and where they end.\<close>

fun links :: "u64 \<Rightarrow> bytes32 \<Rightarrow> (block \<times> bytes32) list \<Rightarrow> bool" where
  "links p hp [] = True"
| "links p hp (x # xs) = (number (blk_header (fst x)) = p + 1 \<and> parent_hash (blk_header (fst x)) = hp \<and> links (p + 1) (snd x) xs)"

fun end_of :: "u64 \<Rightarrow> bytes32 \<Rightarrow> (block \<times> bytes32) list \<Rightarrow> u64 \<times> bytes32" where
  "end_of p hp [] = (p, hp)"
| "end_of p hp (x # xs) = end_of (p + 1) (snd x) xs"

definition stored :: "'b buffer_ops \<Rightarrow> 'b \<Rightarrow> block \<times> bytes32 \<Rightarrow> bool" where
  "stored V d x \<longleftrightarrow> read_header V d (number (blk_header (fst x))) (snd x) = Some (blk_header (fst x))"

lemma links_append:
  "links p hp (xs @ [x]) \<longleftrightarrow> links p hp xs \<and> number (blk_header (fst x)) = fst (end_of p hp xs) + 1 \<and>
     parent_hash (blk_header (fst x)) = snd (end_of p hp xs)"
  "end_of p hp (xs @ [x]) = (fst (end_of p hp xs) + 1, snd x)"
  by (induction xs arbitrary: p hp) auto

lemma canonical_ancestor_finds:
  assumes "store_ok V d" "read_header V d n h = Some hdr"
  obtains a ha where "canonical_ancestor V d hdr h = Some a" "a \<le> n" "canonical_hash V d a = Some ha"
proof -
  have "\<exists>a ha. canonical_ancestor V d hdr h = Some a \<and> a \<le> n \<and> canonical_hash V d a = Some ha"
    using assms(2)
  proof (induction "unat n" arbitrary: n h hdr rule: less_induct)
    case less
    have num: "number hdr = n" and zero: "n = 0 \<Longrightarrow> canonical_hash V d 0 = Some h"
      using store_okE [OF assms(1) less.prems] by metis+
    show ?case
    proof (cases "canonical_hash V d n = Some h")
      case True
      then show ?thesis by (simp add: canonical_ancestor.simps num)
    next
      case False
      with zero have nz: "n \<noteq> 0" by blast
      obtain p t where p: "read_header V d (n - 1) (parent_hash hdr) = Some p"
        using store_ok_parent [OF assms(1) less.prems nz] .
      have lt: "n - 1 < n" using nz by (rule word_minus_one_less)
      obtain a ha where "canonical_ancestor V d p (parent_hash hdr) = Some a" "a \<le> n - 1" "canonical_hash V d a = Some ha"
        using less.hyps [OF _ p] unat_pred [OF lt] by blast
      moreover have "canonical_ancestor V d hdr h = canonical_ancestor V d p (parent_hash hdr)"
        by (subst canonical_ancestor.simps) (simp add: num False p)
      ultimately show ?thesis using lt by auto
    qed
  qed
  then show thesis using that by blast
qed

lemma intermediate_loop_finds:
  assumes "store_ok V d" "read_header V d n h = Some hdr" "canonical_ancestor V d hdr h = Some a" "canonical_hash V d a = Some ha"
  obtains pre where "intermediate_loop V d n h a acc = Some (pre @ acc)" "links a ha pre" "end_of a ha pre = (n, h)"
    "\<forall>x\<in>set pre. stored V d x"
proof -
  have "\<exists>pre. intermediate_loop V d n h a acc = Some (pre @ acc) \<and> links a ha pre \<and> end_of a ha pre = (n, h) \<and>
      (\<forall>x\<in>set pre. stored V d x)"
    using assms(2,3)
  proof (induction "unat n" arbitrary: n h hdr acc rule: less_induct)
    case less
    obtain body where num: "number hdr = n" and zero: "n = 0 \<Longrightarrow> canonical_hash V d 0 = Some h"
      and body: "read_body V d n h = Some body"
      using store_okE [OF assms(1) less.prems(1)] by metis
    show ?case
    proof (cases "canonical_hash V d n = Some h")
      case True
      then have "a = n" using less.prems(2) by (simp add: canonical_ancestor.simps num)
      then show ?thesis using True assms(4) by (simp add: intermediate_loop.simps)
    next
      case False
      with zero have nz: "n \<noteq> 0" by blast
      obtain p t where p: "read_header V d (n - 1) (parent_hash hdr) = Some p"
        using store_ok_parent [OF assms(1) less.prems(1) nz] .
      have lt: "n - 1 < n" using nz by (rule word_minus_one_less)
      have anc: "canonical_ancestor V d p (parent_hash hdr) = Some a"
        using less.prems(2) by (subst (asm) canonical_ancestor.simps) (simp add: num False p)
      obtain a' ha' where "canonical_ancestor V d p (parent_hash hdr) = Some a'" "a' \<le> n - 1"
        using canonical_ancestor_finds [OF assms(1) p] .
      then have gt: "n > a" using anc lt by auto
      let ?b = "\<lparr>transactions = transactions body, ommers = ommers body, blk_header = hdr\<rparr>"
      have step: "intermediate_loop V d n h a acc = intermediate_loop V d (n - 1) (parent_hash hdr) a ((?b, h) # acc)"
        using gt by (subst intermediate_loop.simps) (simp add: read_block_def body less.prems(1))
      obtain pre where "intermediate_loop V d (n - 1) (parent_hash hdr) a ((?b, h) # acc) = Some (pre @ (?b, h) # acc)"
        "links a ha pre" "end_of a ha pre = (n - 1, parent_hash hdr)" "\<forall>x\<in>set pre. stored V d x"
        using less.hyps [OF unat_pred [OF lt] p anc] by blast
      then show ?thesis
        using step num less.prems(1) by (intro exI [of _ "pre @ [(?b, h)]"]) (simp add: links_append stored_def)
    qed
  qed
  then show thesis using that by blast
qed

section \<open>The loops return\<close>

definition node_ok :: "('b, 'sig, 'key) node \<Rightarrow> bool" where
  "node_ok N \<longleftrightarrow> node_fuel N = 1025 \<and> depth_limited (node_env N)"

lemma bc_execute_block_returns:
  assumes "node_ok N"
  obtains err d' where "bc_execute_block N b check d = Some (err, d')"
proof -
  let ?E = "(node_env N)\<lparr>env_block := b\<rparr>"
  have "depth_limited ?E" using assms by (simp add: node_ok_def depth_limited_def)
  then obtain rs err p where "processor_execute_block 1025 (node_enum N) ?E (new_processor (new_ibs d)) = Some ((rs, err), p)"
    by (rule processor_execute_block_some)
  then have "execute_block (node_fuel N) (node_enum N) (node_iter N) ?E d \<noteq> None"
    using assms by (simp add: execute_block_def Let_def node_ok_def)
  then have "bc_execute_block N b check d \<noteq> None"
    by (auto simp: bc_execute_block_def)
  with that show thesis by auto
qed

lemma execute_chain_returns:
  assumes "node_ok N"
  shows "\<exists>err k' d'. execute_chain N check chain k d = Some (err, k', d')"
proof (induction chain arbitrary: k d)
  case (Cons x chain)
  obtain err d1 where "bc_execute_block N (fst x) check d = Some (err, d1)"
    using bc_execute_block_returns [OF assms] .
  with Cons show ?case by simp
qed simp

lemma view_eqs:
  assumes "chain_view V d' = chain_view V d"
  shows "read_header V d' = read_header V d" "read_body V d' = read_body V d" "total_difficulty V d' = total_difficulty V d"
    "canonical_hash V d' = canonical_hash V d" "current_canonical_block V d' = current_canonical_block V d"
    "read_block V d' = read_block V d" "store_ok V d' = store_ok V d" "canonical_to V d' n = canonical_to V d n"
    "chain_ok V d' = chain_ok V d"
  using assms by (simp_all add: chain_view_def read_block_def store_ok_def canonical_to_def chain_ok_def fun_eq_iff)

lemma intermediate_loop_view:
  assumes "chain_view V d' = chain_view V d"
  shows "intermediate_loop V d' n h a acc = intermediate_loop V d n h a acc"
proof (induction "unat n" arbitrary: n h acc rule: less_induct)
  case less
  have "Option.bind x (\<lambda>b. intermediate_loop V d' (n - 1) (parent_hash (blk_header b)) a ((b, h) # acc)) =
      Option.bind x (\<lambda>b. intermediate_loop V d (n - 1) (parent_hash (blk_header b)) a ((b, h) # acc))" if "n > a" for x
    using less.hyps [OF unat_pred [OF that]] by simp
  then show ?case
    using intermediate_loop.simps [of V d' n h a acc] intermediate_loop.simps [of V d n h a acc] view_eqs(6) [OF assms] by simp
qed

lemma read_block_some:
  assumes "store_ok V d" "read_header V d n h = Some hdr"
  obtains b where "read_block V d n h = Some b"
proof -
  obtain body where "read_body V d n h = Some body" using store_okE [OF assms] by metis
  with assms(2) that show thesis by (simp add: read_block_def)
qed

context chain_store
begin

lemma re_execute_from_returns:
  assumes "node_ok N" "node_ops N = V" "tip \<noteq> - 1"
  shows "store_ok V d \<Longrightarrow> canonical_to V d tip \<Longrightarrow> \<exists>d'. re_execute_from N n tip d = Some d' \<and> keeps_chain V good d d'"
proof (induction "unat tip + 1 - unat n" arbitrary: n d rule: less_induct)
  case less
  show ?case
  proof (cases "n \<le> tip")
    case True
    then have "n \<noteq> - 1" using assms(3) by (metis word_order.extremum_unique)
    then have dec: "unat tip + 1 - unat (n + 1) < unat tip + 1 - unat n"
      using True by (simp add: unat_add_one word_le_nat_alt)
    obtain h where h: "canonical_hash V d n = Some h" using less.prems(2) True unfolding canonical_to_def by blast
    then obtain hdr where "read_header V d n h = Some hdr" using less.prems(2) unfolding canonical_to_def by blast
    then obtain b where b: "read_block V d n h = Some b" using read_block_some [OF less.prems(1)] by blast
    obtain err d1 where x: "bc_execute_block N b False d = Some (err, d1)"
      using bc_execute_block_returns [OF assms(1)] .
    note kept = bc_execute_block_keeps [OF x assms(2)]
    then have "store_ok V d1" "canonical_to V d1 tip"
      using less.prems view_eqs(7,8) [of V d1 d] by (auto simp: keeps_chain_def)
    from less.hyps [OF dec this] obtain d' where "re_execute_from N (n + 1) tip d1 = Some d'" "keeps_chain V good d1 d'" by blast
    with keeps_chain_trans [OF kept] show ?thesis
      by (subst re_execute_from.simps) (simp add: True assms(2) h b x)
  next
    case False
    then show ?thesis by (simp add: re_execute_from.simps)
  qed
qed

lemma restore_canonical_returns:
  assumes "node_ok N" "node_ops N = V" "tip \<noteq> - 1" "store_ok V d" "canonical_to V d tip"
  obtains d' where "restore_canonical N a k tip d = Some d'" "keeps_chain V good d d'"
proof -
  let ?d = "unwind_last_changes V a (a + k) d"
  have kept: "keeps_chain V good d ?d" by (rule unwind_last_changes_keeps)
  then have "store_ok V ?d" "canonical_to V ?d tip"
    using assms(4,5) view_eqs(7,8) [of V ?d d] by (auto simp: keeps_chain_def)
  from re_execute_from_returns [OF assms(1-3) this] obtain d' where
    "re_execute_from N (a + 1) tip ?d = Some d'" "keeps_chain V good ?d d'" by blast
  with keeps_chain_trans [OF kept] that show thesis
    by (simp add: restore_canonical_def re_execute_canonical_chain_def assms(2))
qed

section \<open>Changing the canonical chain\<close>

lemma decanonize_from_effect:
  assumes "canonical_to V d i" "a \<le> i" "store_ok V d" "good d"
  defines "d' \<equiv> decanonize_from V a i d"
  shows "canonical_to V d' a \<and> store_ok V d' \<and> good d' \<and> read_header V d' = read_header V d \<and>
    canonical_hash V d' a = canonical_hash V d a"
  using assms(1-4) unfolding d'_def
proof (induction "unat i" arbitrary: i d rule: less_induct)
  case less
  show ?case
  proof (cases "i > a")
    case True
    then have nz: "i \<noteq> 0" by auto
    note lt = word_minus_one_less [OF nz]
    have le: "a \<le> i - 1" and le_iff: "\<And>j. j < i \<longleftrightarrow> j \<le> i - 1"
      using True nz by (auto simp: word_less_nat_alt word_le_nat_alt unat_minus_one unat_gt_0)
    let ?d = "decanonize_block V d i"
    have "canonical_hash V d (i - 1) \<noteq> None"
      using less.prems(1) lt unfolding canonical_to_def by (metis less_imp_le)
    then have can: "canonical_hash V ?d j = (if j < i then canonical_hash V d j else None)" for j
      by (intro canonical_decanonize) simp
    have st: "read_header V ?d = read_header V d" "read_body V ?d = read_body V d" "total_difficulty V ?d = total_difficulty V d"
      using store_decanonize [of d i] by auto
    have "n - 1 < i" if "n < i" "n \<noteq> 0" for n
      using that word_minus_one_less [of n] by simp
    then have 1: "canonical_to V ?d (i - 1)"
      using less.prems(1) unfolding canonical_to_def st can le_iff [symmetric] by (auto simp: less_imp_le)
    have 2: "store_ok V ?d"
      using less.prems(3) nz unfolding store_ok_def st can by (simp add: word_gt_0)
    have 3: "good ?d" using wf_store [OF less.prems(4)] by blast
    have "canonical_hash V ?d a = canonical_hash V d a" using can True by simp
    with less.hyps [OF unat_pred [OF True] 1 le 2 3] st(1) show ?thesis
      using True by (subst (1 2 3 4 5) decanonize_from.simps) simp
  next
    case False
    with less.prems(2) have "i = a" by simp
    with less.prems show ?thesis by (subst (1 2 3 4 5) decanonize_from.simps) simp
  qed
qed

lemma canonize_chain_effect:
  assumes "canonical_to V d a" "canonical_hash V d a = Some ha" "store_ok V d" "good d" "links a ha chain"
    and "\<forall>x\<in>set chain. stored V d x"
  defines "d' \<equiv> canonize_chain V chain d"
  shows "canonical_to V d' (fst (end_of a ha chain)) \<and> canonical_hash V d' (fst (end_of a ha chain)) = Some (snd (end_of a ha chain)) \<and>
    store_ok V d' \<and> good d'"
  using assms(1-6) unfolding d'_def
proof (induction chain arbitrary: d a ha)
  case Nil
  then show ?case by (simp add: canonize_chain_def)
next
  case (Cons x chain)
  let ?d = "canonize_block V d (a + 1) (snd x)"
  have num: "number (blk_header (fst x)) = a + 1" "parent_hash (blk_header (fst x)) = ha"
    and hdr: "read_header V d (a + 1) (snd x) = Some (blk_header (fst x))"
    using Cons.prems(5,6) by (simp_all add: stored_def)
  obtain hdr_a where "read_header V d a ha = Some hdr_a"
    using Cons.prems(1,2) unfolding canonical_to_def by blast
  then have "a \<noteq> - 1" using store_okE [OF Cons.prems(3)] by metis
  note suc = unat_add_one [OF this]
  then have nz: "a + 1 \<noteq> 0" and sub: "a + 1 - 1 = a" by auto
  have last: "a + 1 \<noteq> - 1" using store_okE [OF Cons.prems(3) hdr] by metis
  have le_iff: "j \<le> a + 1 \<longleftrightarrow> j = a + 1 \<or> j \<le> a" for j
    using suc(1) by (auto simp: word_le_nat_alt unat_inj [symmetric])
  have can: "canonical_hash V ?d j = (if j = a + 1 then Some (snd x) else canonical_hash V d j)" for j
    using Cons.prems(2) sub last by (intro canonical_canonize) simp_all
  have st: "read_header V ?d = read_header V d" "read_body V ?d = read_body V d" "total_difficulty V ?d = total_difficulty V d"
    using store_canonize [of d "a + 1" "snd x"] by auto
  have gap: "canonical_hash V d (a + 1) = None"
    using Cons.prems(1) nz unfolding canonical_to_def by (metis word_minus_one_less sub not_le)
  have "n - 1 \<noteq> a + 1" if "canonical_hash V d n = Some h" "n \<noteq> 0" for n h
    using that Cons.prems(1) gap unfolding canonical_to_def by (metis option.distinct(1))
  then have 1: "canonical_to V ?d (a + 1)"
    using Cons.prems(1,2) hdr num gap sub unfolding canonical_to_def st can by (auto simp: le_iff)
  have 2: "store_ok V ?d"
    using Cons.prems(3) nz unfolding store_ok_def st can by simp
  have 3: "good ?d" using wf_store [OF Cons.prems(4)] by blast
  have 4: "links (a + 1) (snd x) chain" "\<forall>y\<in>set chain. stored V ?d y"
    using Cons.prems(5,6) by (simp_all add: stored_def st)
  have "canonize_chain V (x # chain) d = canonize_chain V chain ?d"
    by (simp add: canonize_chain_def num)
  then show ?case
    using Cons.IH [OF 1 _ 2 3 4] can by simp
qed

end

section \<open>Insertion of a block\<close>

definition new_total :: "'b buffer_ops \<Rightarrow> 'b \<Rightarrow> block_header \<Rightarrow> u256 \<Rightarrow> bool" where
  "new_total V d hdr t \<longleftrightarrow> (\<exists>t'. total_difficulty V d (number hdr - 1) (parent_hash hdr) = Some t' \<and> t = t' + difficulty hdr)"

text \<open>What an insertion does to the canonical chain.\<close>

definition fork_choice :: "'b buffer_ops \<Rightarrow> 'b \<Rightarrow> block_header \<Rightarrow> bytes32 \<Rightarrow> validation_result \<Rightarrow> 'b \<Rightarrow> bool" where
  "fork_choice V d hdr hash err d' \<longleftrightarrow>
     (if err \<noteq> kOk then chain_view V d' = chain_view V d
      else read_header V d' (number hdr) hash = Some hdr \<and>
        (\<exists>t head tc. new_total V d hdr t \<and> canonical_hash V d (current_canonical_block V d) = Some head \<and>
           total_difficulty V d (current_canonical_block V d) head = Some tc \<and>
           (if tc < t then current_canonical_block V d' = number hdr \<and> canonical_hash V d' (number hdr) = Some hash
            else canonical_hash V d' = canonical_hash V d)))"

lemma blk_header_recover [simp]: "blk_header (recover_senders k lib b) = blk_header b"
  by (simp add: recover_senders_def)

context chain_store
begin

lemma insert_store_ok:
  assumes "store_ok V d" "number (blk_header b) \<noteq> - 1" "number (blk_header b) \<noteq> 0"
    and "read_header V d (number (blk_header b) - 1) (parent_hash (blk_header b)) = Some p"
    and "read_header V d (number (blk_header b)) h \<in> {None, Some (blk_header b)}"
  shows "store_ok V (insert_block V d b h)"
    "\<exists>t. new_total V d (blk_header b) t \<and> total_difficulty V (insert_block V d b h) (number (blk_header b)) h = Some t"
    "total_difficulty V d n k = Some tc \<Longrightarrow> read_header V d n k \<noteq> None \<Longrightarrow> total_difficulty V (insert_block V d b h) n k = Some tc"
proof -
  let ?hdr = "blk_header b"
  obtain t where t: "total_difficulty V d (number ?hdr - 1) (parent_hash ?hdr) = Some t"
    using store_okE [OF assms(1,4)] by metis
  note td = difficulty_insert [OF assms(3,2) t]
  show "\<exists>t. new_total V d (blk_header b) t \<and> total_difficulty V (insert_block V d b h) (number (blk_header b)) h = Some t"
    using td t by (auto simp: new_total_def)
  have same: "total_difficulty V (insert_block V d b h) n k = total_difficulty V d n k" if "read_header V d n k \<noteq> None" for n k
  proof (cases "n = number ?hdr \<and> k = h")
    case True
    then have "read_header V d n k = Some ?hdr" using that assms(5) by auto
    then have "total_difficulty V d n k = Some (t + difficulty ?hdr)"
      using assms(1,3) True t unfolding store_ok_def by (metis option.inject)
    then show ?thesis using td True by simp
  next
    case False
    then show ?thesis by (auto simp: td)
  qed
  then show "total_difficulty V d n k = Some tc \<Longrightarrow> read_header V d n k \<noteq> None \<Longrightarrow> total_difficulty V (insert_block V d b h) n k = Some tc"
    by metis
  have ne: "number ?hdr - 1 \<noteq> number ?hdr" by simp
  show "store_ok V (insert_block V d b h)"
    unfolding store_ok_def
  proof (intro allI impI)
    fix n k hdr
    assume r: "read_header V (insert_block V d b h) n k = Some hdr"
    let ?d = "insert_block V d b h"
    have keep: "read_header V ?d m l \<noteq> None" "total_difficulty V ?d m l = total_difficulty V d m l"
      if "read_header V d m l \<noteq> None" for m l
      using that same [OF that] by (auto simp: header_insert [OF assms(2)])
    show "number hdr = n \<and> n \<noteq> - 1 \<and> read_body V ?d n k \<noteq> None \<and> (n = 0 \<longrightarrow> canonical_hash V ?d 0 = Some k) \<and>
     (\<exists>t. total_difficulty V ?d n k = Some t \<and>
        (n \<noteq> 0 \<longrightarrow> read_header V ?d (n - 1) (parent_hash hdr) \<noteq> None \<and>
           (\<exists>t'. total_difficulty V ?d (n - 1) (parent_hash hdr) = Some t' \<and> t = t' + difficulty hdr)))"
    proof (cases "n = number ?hdr \<and> k = h")
      case True
      then have "hdr = ?hdr" using r by (simp add: header_insert [OF assms(2)])
      then show ?thesis
        using True assms(2-4) t keep [of "number ?hdr - 1" "parent_hash ?hdr"] by (auto simp: body_insert [OF assms(2)] td ne)
    next
      case False
      then have old: "read_header V d n k = Some hdr" using r by (auto simp: header_insert [OF assms(2)])
      then have some: "read_header V d n k \<noteq> None" by simp
      have stored: "number hdr = n \<and> n \<noteq> - 1 \<and> read_body V d n k \<noteq> None \<and> (n = 0 \<longrightarrow> canonical_hash V d 0 = Some k) \<and>
          (\<exists>t. total_difficulty V d n k = Some t \<and> (n \<noteq> 0 \<longrightarrow> read_header V d (n - 1) (parent_hash hdr) \<noteq> None \<and>
           (\<exists>t'. total_difficulty V d (n - 1) (parent_hash hdr) = Some t' \<and> t = t' + difficulty hdr)))"
        using assms(1) old unfolding store_ok_def by blast
      then have "n \<noteq> 0 \<Longrightarrow> read_header V d (n - 1) (parent_hash hdr) \<noteq> None" by blast
      then show ?thesis
        using stored keep(2) [OF some] keep [of "n - 1" "parent_hash hdr"] canonical_insert [of d b h] False
        by (cases "n = 0") (auto simp: body_insert [OF assms(2)])
    qed
  qed
qed

lemma choose_branch_effect:
  assumes "node_ok N" "node_ops N = V" "store_ok V d" "canonical_to V d (current_canonical_block V d)" "good d"
    and "current_canonical_block V d \<noteq> - 1"
    and "number (blk_header b) \<noteq> - 1" "number (blk_header b) \<noteq> 0"
    and "read_header V d (number (blk_header b) - 1) (parent_hash (blk_header b)) = Some p"
    and "read_header V d (number (blk_header b)) h \<in> {None, Some (blk_header b)}"
    and "canonical_hash V d a = Some ha" "links a ha chain" "end_of a ha chain = (number (blk_header b), h)"
    and "\<forall>x\<in>set chain. stored V d x \<or> x = (b, h)"
  shows "\<exists>d'. choose_branch N b h chain a k (current_canonical_block V d) d = Some d' \<and> chain_ok V d' \<and> good d' \<and>
    fork_choice V d (blk_header b) h kOk d'"
proof -
  let ?cur = "current_canonical_block V d" and ?n = "number (blk_header b)"
  let ?d = "insert_block V d b h"
  note ins = insert_store_ok [OF assms(3,7-10)]
  have le: "a \<le> ?cur" using assms(4,11) unfolding canonical_to_def by blast
  obtain head where head: "canonical_hash V d ?cur = Some head"
    using assms(4) unfolding canonical_to_def by blast
  then obtain hh where hh: "read_header V d ?cur head = Some hh"
    using assms(4) unfolding canonical_to_def by blast
  then obtain tc where tc: "total_difficulty V d ?cur head = Some tc"
    using store_okE [OF assms(3)] by metis
  have tc': "total_difficulty V ?d ?cur head = Some tc"
    using ins(3) [OF tc] hh by simp
  obtain t where t: "new_total V d (blk_header b) t" "total_difficulty V ?d ?n h = Some t"
    using ins(2) by blast
  have canon: "canonical_hash V ?d = canonical_hash V d" "current_canonical_block V ?d = ?cur"
    using canonical_insert [of d b h] by auto
  have hold: "read_header V d m l = Some x \<Longrightarrow> read_header V ?d m l = Some x" for m l x
    using assms(10) by (auto simp: header_insert [OF assms(7)])
  have can: "canonical_to V ?d ?cur"
    using assms(4) hold unfolding canonical_to_def canon by metis
  have good: "good ?d" using wf_store [OF assms(5)] by blast
  have st: "\<forall>x\<in>set chain. stored V ?d x"
  proof
    fix x assume "x \<in> set chain"
    with assms(14) hold [of "number (blk_header (fst x))" "snd x"] show "stored V ?d x"
      by (cases "x = (b, h)") (auto simp: stored_def header_insert [OF assms(7)])
  qed
  show ?thesis
  proof (cases "tc < t")
    case True
    let ?d1 = "decanonize_from V a ?cur ?d"
    let ?d2 = "canonize_chain V chain ?d1"
    note dec = decanonize_from_effect [OF can le ins(1) good]
    have st1: "\<forall>x\<in>set chain. stored V ?d1 x" using st dec by (simp add: stored_def)
    have "canonical_hash V ?d1 a = Some ha" using dec assms(11) canon by simp
    then have fin: "canonical_to V ?d2 ?n \<and> canonical_hash V ?d2 ?n = Some h \<and> store_ok V ?d2 \<and> good ?d2"
      using canonize_chain_effect [of ?d1 a ha chain] dec assms(12,13) st1 by simp
    then have "canonical_hash V ?d2 0 \<noteq> None" unfolding canonical_to_def by simp
    with fin have cur: "current_canonical_block V ?d2 = ?n"
      using canonical_current [of ?d2] unfolding canonical_to_def by (metis order_antisym order_refl)
    have "read_header V ?d2 ?n h = Some (blk_header b)"
    proof -
      have "read_header V (canonize_chain V c x) = read_header V x" for c x
        by (induction c arbitrary: x) (simp_all add: canonize_chain_def store_canonize)
      then show ?thesis using dec by (simp add: header_insert [OF assms(7)])
    qed
    moreover have "choose_branch N b h chain a k ?cur d = Some ?d2"
      using True t tc' head by (simp add: choose_branch_def Let_def assms(2) canon)
    ultimately show ?thesis
      using fin cur t(1) head tc True by (auto simp: chain_ok_def fork_choice_def)
  next
    case False
    obtain d' where d': "restore_canonical N a k ?cur ?d = Some d'" "keeps_chain V good ?d d'"
      using restore_canonical_returns [OF assms(1,2,6) ins(1) can] .
    then have view: "chain_view V d' = chain_view V ?d" "good d'" using good by (auto simp: keeps_chain_def)
    have "choose_branch N b h chain a k ?cur d = Some d'"
      using False t tc' head d'(1) by (simp add: choose_branch_def Let_def assms(2) canon)
    moreover have "chain_ok V d'"
      using ins(1) can view_eqs [OF view(1)] by (simp add: chain_ok_def canon)
    moreover have "fork_choice V d (blk_header b) h kOk d'"
      using False t(1) head tc view_eqs [OF view(1)] by (auto simp: fork_choice_def canon header_insert [OF assms(7)])
    ultimately show ?thesis using view(2) by blast
  qed
qed


lemma execute_branch_effect:
  assumes "node_ok N" "node_ops N = V" "chain_ok V d" "good d"
    and "read_header V d (number (blk_header b) - 1) (parent_hash (blk_header b)) = Some p"
    and "canonical_hash V d (number (blk_header b)) \<noteq> Some h"
  obtains a ha chain err k d' where "canonical_ancestor V d (blk_header b) h = Some a" "canonical_hash V d a = Some ha"
    and "intermediate_chain V (unwind_last_changes V a (current_canonical_block V d) d) (number (blk_header b) - 1)
      (parent_hash (blk_header b)) a = Some chain"
    and "execute_chain N check (chain @ [(b, h)]) 0 (unwind_last_changes V a (current_canonical_block V d) d) = Some (err, k, d')"
    and "keeps_chain V good d d'" "links a ha (chain @ [(b, h)])" "end_of a ha (chain @ [(b, h)]) = (number (blk_header b), h)"
    and "\<forall>x\<in>set chain. stored V d x"
proof -
  have ok: "store_ok V d" using assms(3) by (simp add: chain_ok_def)
  obtain a ha where a: "canonical_ancestor V d p (parent_hash (blk_header b)) = Some a" "a \<le> number (blk_header b) - 1"
      "canonical_hash V d a = Some ha"
    using canonical_ancestor_finds [OF ok assms(5)] .
  have anc: "canonical_ancestor V d (blk_header b) h = Some a"
    using a(1) assms(5,6) by (subst canonical_ancestor.simps) simp
  obtain pre where pre: "intermediate_loop V d (number (blk_header b) - 1) (parent_hash (blk_header b)) a [] = Some (pre @ [])"
    "links a ha pre" "end_of a ha pre = (number (blk_header b) - 1, parent_hash (blk_header b))" "\<forall>x\<in>set pre. stored V d x"
    using intermediate_loop_finds [OF ok assms(5) a(1,3)] .
  let ?d = "unwind_last_changes V a (current_canonical_block V d) d"
  have kept: "keeps_chain V good d ?d" by (rule unwind_last_changes_keeps)
  then have "intermediate_chain V ?d (number (blk_header b) - 1) (parent_hash (blk_header b)) a = Some pre"
    using pre(1) a(2) intermediate_loop_view [of V ?d d] by (simp add: intermediate_chain_def keeps_chain_def)
  moreover obtain err k d' where x: "execute_chain N check (pre @ [(b, h)]) 0 ?d = Some (err, k, d')"
    using execute_chain_returns [OF assms(1)] by blast
  ultimately show thesis
    using that [OF anc a(3)] keeps_chain_trans [OF kept execute_chain_keeps [OF assms(2) x]] pre(2-4)
    by (simp add: links_append)
qed

lemma bc_insert_block_effect:
  assumes "node_ok N" "node_ops N = V" "chain_ok V (bc_state bc)" "good (bc_state bc)"
    and "\<forall>h. bc_bad_blocks bc h \<noteq> Some kOk" and "number (blk_header b) \<noteq> - 1"
    and "canonical_hash V (bc_state bc) (number (blk_header b)) \<noteq> Some (node_hash N (blk_header b))"
    and "read_header V (bc_state bc) (number (blk_header b)) (node_hash N (blk_header b)) \<in> {None, Some (blk_header b)}"
  shows "\<exists>err b' bc'. bc_insert_block N bc b check = Some (err, b', bc') \<and> chain_ok V (bc_state bc') \<and> good (bc_state bc') \<and>
    (\<forall>h. bc_bad_blocks bc' h \<noteq> Some kOk) \<and>
    fork_choice V (bc_state bc) (blk_header b) (node_hash N (blk_header b)) err (bc_state bc')"
proof (cases "pre_validate_block (node_crypto N) V b (bc_state bc) (env_config (node_env N)) = kOk \<and>
    bc_bad_blocks bc (node_hash N (blk_header b)) = None")
  case False
  then have "\<exists>err. bc_insert_block N bc b check = Some (err, b, bc) \<and> err \<noteq> kOk"
    using assms(2,5) by (cases "pre_validate_block (node_crypto N) V b (bc_state bc) (env_config (node_env N)) = kOk")
       (auto simp: bc_insert_block_def Let_def)
  then show ?thesis using assms(3-5) by (auto simp: fork_choice_def)
next
  case True
  define d where "d = bc_state bc"
  define h where "h = node_hash N (blk_header b)"
  define b' where "b' = recover_senders (cc_keccak256 (node_crypto N)) (node_secp256k1 N) b"
  have hdr: "blk_header b' = blk_header b" by (simp add: b'_def)
  have ok: "store_ok V d" "canonical_to V d (current_canonical_block V d)" "good d"
    using assms(3,4) by (simp_all add: chain_ok_def d_def)
  have "header_conditions (node_crypto N) V (blk_header b) d (env_config (node_env N))"
    using True pre_validate_block_parts(1) [of "node_crypto N" V b d] unfolding d_def validate_block_header_iff by blast
  then obtain p where p: "read_header V d (number (blk_header b') - 1) (parent_hash (blk_header b')) = Some p"
    unfolding header_conditions_def get_parent_def hdr by blast
  have cur: "current_canonical_block V d \<noteq> - 1"
    using ok(1,2) unfolding canonical_to_def store_ok_def by blast
  have nz: "number (blk_header b') \<noteq> 0" "number (blk_header b') \<noteq> - 1"
    using p ok(1) assms(6) unfolding store_ok_def hdr by (auto dest: spec [of _ "- 1"])
  obtain a ha chain err k d' where x: "canonical_ancestor V d (blk_header b') h = Some a" "canonical_hash V d a = Some ha"
    "intermediate_chain V (unwind_last_changes V a (current_canonical_block V d) d) (number (blk_header b') - 1)
      (parent_hash (blk_header b')) a = Some chain"
    "execute_chain N check (chain @ [(b', h)]) 0 (unwind_last_changes V a (current_canonical_block V d) d) = Some (err, k, d')"
    "keeps_chain V good d d'" "links a ha (chain @ [(b', h)])" "end_of a ha (chain @ [(b', h)]) = (number (blk_header b'), h)"
    "\<forall>x\<in>set chain. stored V d x"
    using execute_branch_effect [OF assms(1-4) p [unfolded d_def]] assms(7) unfolding d_def [symmetric] h_def hdr by blast
  note view = x(5) [unfolded keeps_chain_def, THEN conjunct1]
  have ok': "store_ok V d'" "canonical_to V d' (current_canonical_block V d)" "good d'"
    using ok x(5) view_eqs [OF view] by (simp_all add: keeps_chain_def)
  show ?thesis
  proof (cases "err = kOk")
    case False
    obtain d2 where d2: "restore_canonical N a k (current_canonical_block V d) d' = Some d2" "keeps_chain V good d' d2"
      using restore_canonical_returns [OF assms(1,2) cur ok'(1,2)] .
    have "bc_insert_block N bc b check = Some (err, b', \<lparr>bc_state = d2, bc_bad_blocks = (bc_bad_blocks bc)(h \<mapsto> err)\<rparr>)"
      using True False x d2 unfolding bc_insert_block_def Let_def assms(2) d_def [symmetric] h_def [symmetric] b'_def [symmetric]
      by (simp add: hdr)
    moreover have "chain_view V d2 = chain_view V d" "good d2"
      using d2(2) view ok'(3) by (simp_all add: keeps_chain_def)
    ultimately show ?thesis
      using False assms(3,5) view_eqs [of V d2 d] by (auto simp: fork_choice_def d_def)
  next
    case ok_err: True
    have "\<exists>d2. choose_branch N b' h (chain @ [(b', h)]) a k (current_canonical_block V d') d' = Some d2 \<and> chain_ok V d2 \<and> good d2 \<and>
        fork_choice V d' (blk_header b') h kOk d2"
      using p nz x(2,6-8) ok' cur assms(8) view_eqs [OF view]
      by (intro choose_branch_effect [OF assms(1,2)]) (auto simp: hdr d_def h_def stored_def)
    then obtain d2 where d2: "choose_branch N b' h (chain @ [(b', h)]) a k (current_canonical_block V d) d' = Some d2"
      "chain_ok V d2" "good d2" "fork_choice V d' (blk_header b') h kOk d2"
      using view_eqs(5) [OF view] by auto
    have "bc_insert_block N bc b check = Some (kOk, b', bc\<lparr>bc_state := d2\<rparr>)"
      using True ok_err x d2(1) unfolding bc_insert_block_def Let_def assms(2) d_def [symmetric] h_def [symmetric] b'_def [symmetric]
      by (simp add: hdr)
    moreover have "fork_choice V d (blk_header b) h kOk d2"
      using d2(4) unfolding fork_choice_def new_total_def hdr view_eqs(1-5) [OF view] view .
    ultimately show ?thesis
      using d2(2,3) assms(5) by (auto simp: d_def h_def)
  qed
qed

end

section \<open>Chains grown from a genesis block\<close>

text \<open>
  A block that can be inserted: its number is not the last one, it is not canonical yet, and no other header is
  stored under its hash.
\<close>

definition insertable :: "('b, 'sig, 'key) node \<Rightarrow> 'b blockchain \<Rightarrow> block \<Rightarrow> bool" where
  "insertable N bc b \<longleftrightarrow> number (blk_header b) \<noteq> - 1 \<and>
     canonical_hash (node_ops N) (bc_state bc) (number (blk_header b)) \<noteq> Some (node_hash N (blk_header b)) \<and>
     read_header (node_ops N) (bc_state bc) (number (blk_header b)) (node_hash N (blk_header b)) \<in> {None, Some (blk_header b)}"

inductive grown :: "(memory_buffer, 'sig, 'key) node \<Rightarrow> block \<Rightarrow> memory_buffer blockchain \<Rightarrow> bool" for N genesis where
  genesis: "grown N genesis (new_blockchain N new_memory_buffer genesis)"
| insertion: "grown N genesis bc \<Longrightarrow> insertable N bc b \<Longrightarrow> bc_insert_block N bc b check = Some (err, b', bc') \<Longrightarrow>
    grown N genesis bc'"

lemma new_blockchain_ok:
  assumes "node_ops N = memory_buffer_ops root" "number (blk_header genesis) = 0" "bc = new_blockchain N new_memory_buffer genesis"
  shows "chain_ok (node_ops N) (bc_state bc) \<and> mb_wf (bc_state bc) \<and> (\<forall>h. bc_bad_blocks bc h \<noteq> Some kOk)"
proof -
  let ?h = "node_hash N (blk_header genesis)" and ?V = "memory_buffer_ops root"
  let ?d = "insert_block ?V new_memory_buffer genesis ?h" and ?d' = "bc_state bc"
  have d': "?d' = canonize_block ?V ?d 0 ?h" using assms by (simp add: new_blockchain_def Let_def)
  have "canonical_hash ?V ?d i = None" for i
    by (simp add: memory_buffer_ops_def mb_canonical_hash_def mb_insert_block_def new_memory_buffer_def Let_def)
  then have can: "canonical_hash ?V ?d' i = (if i = 0 then Some ?h else None)" for i
    unfolding d' by (simp add: memory_chain.canonical_canonize)
  have hdr: "read_header ?V ?d' n k = (if n = 0 \<and> k = ?h then Some (blk_header genesis) else None)"
    "read_body ?V ?d' n k = (if n = 0 \<and> k = ?h then Some (body_of genesis) else None)" for n k
    using memory_chain.store_canonize [of root ?d 0 ?h] assms(2) unfolding d'
    by (simp_all add: memory_chain.header_insert memory_chain.body_insert)
       (simp_all add: memory_buffer_ops_def mb_read_header_def mb_read_body_def new_memory_buffer_def)
  have td: "total_difficulty ?V ?d' 0 ?h = Some (difficulty (blk_header genesis))"
    using memory_chain.store_canonize [of root ?d 0 ?h] assms(2) unfolding d'
    by (simp add: memory_buffer_ops_def mb_total_difficulty_def mb_insert_block_def new_memory_buffer_def resize_def)
  have wf: "mb_wf ?d'"
    unfolding d' using memory_chain.wf_store [of new_memory_buffer] memory_chain.wf_store [of ?d]
    by (simp add: mb_wf_def new_memory_buffer_def)
  have "current_canonical_block ?V ?d' = 0"
    using memory_chain.canonical_current [OF wf, of root] can by (metis option.distinct(1) order_refl)
  then show ?thesis
    using assms can hdr td wf by (auto simp: chain_ok_def store_ok_def canonical_to_def new_blockchain_def Let_def)
qed

lemma grown_ok:
  assumes "grown N genesis bc" "node_ok N" "node_ops N = memory_buffer_ops root" "number (blk_header genesis) = 0"
  shows "chain_ok (node_ops N) (bc_state bc) \<and> mb_wf (bc_state bc) \<and> (\<forall>h. bc_bad_blocks bc h \<noteq> Some kOk)"
  using assms(1)
proof (induction rule: grown.induct)
  case genesis
  then show ?case using new_blockchain_ok [OF assms(3,4) refl] .
next
  case (insertion bc b check err b' bc')
  then have "\<exists>err b' bc'. bc_insert_block N bc b check = Some (err, b', bc') \<and> chain_ok (memory_buffer_ops root) (bc_state bc') \<and>
    mb_wf (bc_state bc') \<and> (\<forall>h. bc_bad_blocks bc' h \<noteq> Some kOk) \<and>
    fork_choice (memory_buffer_ops root) (bc_state bc) (blk_header b) (node_hash N (blk_header b)) err (bc_state bc')"
    using assms(2,3) by (intro memory_chain.bc_insert_block_effect) (auto simp: insertable_def)
  with insertion(3) assms(3) show ?case by auto
qed

text \<open>
  C5.  On a chain grown from a genesis block, the insertion of a block that is insertable returns, and afterwards the canonical
  chain is again linked from the genesis block to its head, with all its blocks stored and the total difficulties summed up.  A rejected
  block changes nothing of the store of blocks; an accepted one is stored, and it becomes the head exactly when its
  total difficulty is greater than that of the head.  A block is insertable when it is not canonical already, its number
  is not \<open>2\<^sup>6\<^sup>4 - 1\<close> and no other header is stored under its hash.
\<close>

theorem insert_block_fork_choice:
  assumes "grown N genesis bc" "node_ok N" "node_ops N = memory_buffer_ops root" "number (blk_header genesis) = 0"
    and "insertable N bc b"
  shows "\<exists>err b' bc'. bc_insert_block N bc b check = Some (err, b', bc') \<and> chain_ok (node_ops N) (bc_state bc') \<and>
    fork_choice (node_ops N) (bc_state bc) (blk_header b) (node_hash N (blk_header b)) err (bc_state bc')"
proof -
  have "\<exists>err b' bc'. bc_insert_block N bc b check = Some (err, b', bc') \<and> chain_ok (memory_buffer_ops root) (bc_state bc') \<and>
    mb_wf (bc_state bc') \<and> (\<forall>h. bc_bad_blocks bc' h \<noteq> Some kOk) \<and>
    fork_choice (memory_buffer_ops root) (bc_state bc) (blk_header b) (node_hash N (blk_header b)) err (bc_state bc')"
    using grown_ok [OF assms(1-4)] assms(2,3,5) by (intro memory_chain.bc_insert_block_effect) (auto simp: insertable_def)
  then show ?thesis using assms(3) by auto
qed

definition sample_node :: "(memory_buffer, unit, unit) node" where
  "sample_node = \<lparr>node_env = sample_env, node_crypto = sample_crypto, node_secp256k1 = undefined, node_fuel = 1025,
     node_enum = (\<lambda>_. []), node_iter = (\<lambda>_. \<lparr>it_storage = [], it_keys = (\<lambda>_. []), it_objects = []\<rparr>)\<rparr>"

definition sample_genesis :: block where
  "sample_genesis = \<lparr>transactions = [], ommers = [], blk_header = sample_header 0 0 131072\<rparr>"

theorem insert_block_fork_choice_witness:
  "\<exists>err b' bc'. bc_insert_block sample_node (new_blockchain sample_node new_memory_buffer sample_genesis) sample_block True =
       Some (err, b', bc') \<and>
     fork_choice (memory_buffer_ops (\<lambda>_. 0)) (bc_state (new_blockchain sample_node new_memory_buffer sample_genesis))
       (blk_header sample_block) 0 err (bc_state bc')"
proof -
  let ?bc = "new_blockchain sample_node new_memory_buffer sample_genesis"
  have ops: "node_ops sample_node = memory_buffer_ops (\<lambda>_. 0)" "node_ok sample_node" "node_hash sample_node hdr = 0" for hdr
    using sample_env_ok(1) by (simp_all add: sample_node_def sample_env_def node_ok_def sample_crypto_def header_hash_def)
  have zero: "number (blk_header sample_genesis) = 0" by (simp add: sample_genesis_def sample_header_def)
  have "insertable sample_node ?bc sample_block"
    unfolding insertable_def ops by (simp add: new_blockchain_def Let_def ops memory_buffer_ops_def mb_canonical_hash_def
        mb_canonize_block_def mb_read_header_def mb_insert_block_def put_at_def resize_def new_memory_buffer_def
        sample_block_def sample_header_def sample_genesis_def)
  from insert_block_fork_choice [OF grown.genesis ops(2,1) zero this] show ?thesis
    unfolding ops by blast
qed

text \<open>
  C19.  A block other than the genesis block that is canonical already, that passes the checks before execution and is not
  among the bad blocks cannot be inserted again: the insertion does not return, because the vector of the blocks between
  its parent and its canonical ancestor, which is the block itself, would have \<open>2\<^sup>6\<^sup>4 - 1\<close> elements.
\<close>

theorem insert_canonical_block_fails:
  assumes "pre_validate_block (node_crypto N) (node_ops N) b (bc_state bc) (env_config (node_env N)) = kOk"
    and "bc_bad_blocks bc (node_hash N (blk_header b)) = None"
    and "canonical_hash (node_ops N) (bc_state bc) (number (blk_header b)) = Some (node_hash N (blk_header b))"
    and "number (blk_header b) \<noteq> 0"
  shows "bc_insert_block N bc b check = None"
proof -
  have "canonical_ancestor (node_ops N) (bc_state bc) (blk_header b) (node_hash N (blk_header b)) = Some (number (blk_header b))"
    using assms(3) by (simp add: canonical_ancestor.simps)
  moreover have "intermediate_chain (node_ops N) d (number (blk_header b) - 1) h (number (blk_header b)) = None" for d h
    using word_minus_one_less [OF assms(4)] by (simp add: intermediate_chain_def)
  ultimately show ?thesis
    using assms(1,2) by (simp add: bc_insert_block_def Let_def)
qed

theorem insert_canonical_block_fails_witness:
  "bc_insert_block (sample_node\<lparr>node_env := sample_env\<rparr>) \<lparr>bc_state = sample_buffer, bc_bad_blocks = Map.empty\<rparr> sample_block True = None"
proof -
  let ?bc = "\<lparr>bc_state = sample_buffer, bc_bad_blocks = Map.empty\<rparr>" and ?N = "sample_node\<lparr>node_env := sample_env\<rparr>"
  have "pre_validate_block (node_crypto ?N) (node_ops ?N) sample_block (bc_state ?bc) (env_config (node_env ?N)) = kOk"
    using sample_block_valid(2) by (simp add: sample_node_def sample_env_def)
  then show ?thesis
    by (rule insert_canonical_block_fails)
       (simp_all add: sample_node_def sample_env_def sample_crypto_def header_hash_def memory_buffer_ops_def mb_canonical_hash_def
          sample_buffer_def sample_block_def sample_header_def)
qed

end
