(* ===== verification/Keccak_Correct.thy ===== *)
theory Keccak_Correct
  imports Keccak
begin

unbundle bit_operations_syntax

text \<open>
  The code of Keccak computes the hash of the Keccak reference: the permutation written out lane by lane equals the five steps
  on coordinates, and the loop over the input equals padding and absorption.
\<close>

section \<open>The permutation of the Keccak reference\<close>

text \<open>
  The state as a function of the coordinates, the offsets of the rotations from the walk over the lanes, and the steps theta, rho,
  pi, chi and iota.
\<close>

fun position :: "nat \<Rightarrow> nat \<times> nat" where
  "position 0 = (1, 0)"
| "position (Suc t) = (case position t of (x, y) \<Rightarrow> (y, (2 * x + 3 * y) mod 5))"

definition offset :: "nat \<Rightarrow> nat \<Rightarrow> nat" where
  "offset x y = (case find (\<lambda>t. position t = (x, y)) [0..<24] of
     None \<Rightarrow> 0 | Some t \<Rightarrow> (t + 1) * (t + 2) div 2 mod 64)"

definition column :: "(nat \<Rightarrow> nat \<Rightarrow> u64) \<Rightarrow> nat \<Rightarrow> u64" where
  "column a x = a x 0 XOR a x 1 XOR a x 2 XOR a x 3 XOR a x 4"

definition theta :: "(nat \<Rightarrow> nat \<Rightarrow> u64) \<Rightarrow> nat \<Rightarrow> nat \<Rightarrow> u64" where
  "theta a x y = a x y XOR (column a ((x + 4) mod 5) XOR word_rotl 1 (column a ((x + 1) mod 5)))"

definition rho :: "(nat \<Rightarrow> nat \<Rightarrow> u64) \<Rightarrow> nat \<Rightarrow> nat \<Rightarrow> u64" where
  "rho a x y = word_rotl (offset x y) (a x y)"

definition pi_step :: "(nat \<Rightarrow> nat \<Rightarrow> u64) \<Rightarrow> nat \<Rightarrow> nat \<Rightarrow> u64" where
  "pi_step a x y = a ((x + 3 * y) mod 5) x"

definition chi :: "(nat \<Rightarrow> nat \<Rightarrow> u64) \<Rightarrow> nat \<Rightarrow> nat \<Rightarrow> u64" where
  "chi a x y = a x y XOR (NOT (a ((x + 1) mod 5) y) AND a ((x + 2) mod 5) y)"

definition iota :: "u64 \<Rightarrow> (nat \<Rightarrow> nat \<Rightarrow> u64) \<Rightarrow> nat \<Rightarrow> nat \<Rightarrow> u64" where
  "iota rc a x y = (if x = 0 \<and> y = 0 then a x y XOR rc else a x y)"

definition round_spec :: "u64 \<Rightarrow> (nat \<Rightarrow> nat \<Rightarrow> u64) \<Rightarrow> nat \<Rightarrow> nat \<Rightarrow> u64" where
  "round_spec rc a = iota rc (chi (pi_step (rho (theta a))))"

text \<open>The constants of the rounds come from the register of the polynomial x^8 + x^6 + x^5 + x^4 + 1.\<close>

fun rc_bits :: "nat \<Rightarrow> bool list \<Rightarrow> bool list" where
  "rc_bits (Suc n) [a, b, c, d, e, f, g, h] = a # rc_bits n [h, a, b, c, d \<noteq> h, e \<noteq> h, f \<noteq> h, g]"
| "rc_bits _ _ = []"

definition rc_spec :: "bool list \<Rightarrow> nat \<Rightarrow> u64" where
  "rc_spec bs i = (\<Sum>j\<leftarrow>[0..<7]. if bs ! (j + 7 * i) then push_bit (2 ^ j - 1) 1 else 0)"

lemma rc_bits_numeral:
  "rc_bits (numeral k) [a, b, c, d, e, f, g, h] = a # rc_bits (pred_numeral k) [h, a, b, c, d \<noteq> h, e \<noteq> h, f \<noteq> h, g]"
  by (simp add: numeral_eq_Suc)

lemma rc_sums: "rc_spec bs i =
  (if bs ! (7 * i) then 1 else 0) + (if bs ! (1 + 7 * i) then 2 else 0) + (if bs ! (2 + 7 * i) then 8 else 0) +
  (if bs ! (3 + 7 * i) then 0x80 else 0) + (if bs ! (4 + 7 * i) then 0x8000 else 0) + (if bs ! (5 + 7 * i) then 0x80000000 else 0) +
  (if bs ! (6 + 7 * i) then 0x8000000000000000 else 0)"
proof -
  have u: "[0..<7] = [0, 1, 2, 3, 4, 5, 6]" by code_simp
  have p: "push_bit (2 ^ 0 - 1) 1 = (1 :: u64)" "push_bit (2 ^ 1 - 1) 1 = (2 :: u64)" "push_bit (2 ^ 2 - 1) 1 = (8 :: u64)"
    "push_bit (2 ^ 3 - 1) 1 = (0x80 :: u64)" "push_bit (2 ^ 4 - 1) 1 = (0x8000 :: u64)"
    "push_bit (2 ^ 5 - 1) 1 = (0x80000000 :: u64)" "push_bit (2 ^ 6 - 1) 1 = (0x8000000000000000 :: u64)"
    by (simp_all add: push_bit_eq_mult)
  show ?thesis
    unfolding rc_spec_def u list.map sum_list.Cons sum_list.Nil p by (simp only: add_0 add_0_right add.assoc)
qed

lemma round_constants_lfsr: "map (rc_spec (rc_bits 168 [True, False, False, False, False, False, False, False])) [0..<24] = round_constants"
  by (simp add: rc_bits_numeral rc_sums upt_rec round_constants_def)

lemma offsets: "map (\<lambda>y. map (\<lambda>x. offset x y) [0..<5]) [0..<5] =
  [[0, 1, 62, 28, 27], [36, 44, 6, 55, 20], [3, 10, 43, 25, 39], [41, 45, 15, 21, 8], [18, 2, 61, 56, 14]]"
  by code_simp

lemma rotl_64_rotates:
  assumes "0 < unat s" "unat s < 64"
  shows "rotl_64 x s = word_rotl (unat s) x"
proof -
  have "unat (- s) = 2 ^ 32 - unat s"
    using assms unat_sub_if_size [of 0 s] by (simp add: word_size)
  then have "unat (- s AND 63) = (2 ^ 32 - unat s) mod 64"
    using take_bit_eq_mask [of 6 "- s"] unsigned_take_bit_eq [of 6 "- s", where ?'a = nat]
    by (simp add: mask_eq_exp_minus_1 take_bit_eq_mod)
  also have "2 ^ 32 - unat s = (64 - unat s) + 64 * 67108863"
    using assms by simp
  also have "(64 - unat s + 64 * 67108863) mod 64 = 64 - unat s"
    unfolding mod_mult_self2 using assms by simp
  finally have s: "unat (- s AND 63) = 64 - unat s" .
  show ?thesis
    unfolding rotl_64_def s
  proof (rule bit_word_eqI)
    fix n assume n: "n < LENGTH(64)"
    show "bit (push_bit (unat s) x OR drop_bit (64 - unat s) x) n = bit (word_rotl (unat s) x) n"
    proof (cases "unat s \<le> n")
      case True
      then have "(n + (64 - unat s)) mod 64 = n - unat s" "\<not> bit x (64 - unat s + n)"
        using assms n bit_imp_le_length [of x "64 - unat s + n"] by (auto simp: mod_if)
      then show ?thesis using assms n True by (simp add: bit_simps)
    next
      case False
      then have "(n + (64 - unat s)) mod 64 = 64 - unat s + n" using assms n by simp
      then show ?thesis using assms n False by (simp add: bit_simps)
    qed
  qed
qed

lemma word_rotl_zero: "word_rotl 0 x = x"
  by (rule bit_word_eqI) (simp add: bit_word_rotl_iff)

lemma lane_cases: "(x :: nat) < 5 \<Longrightarrow> x = 0 \<or> x = 1 \<or> x = 2 \<or> x = 3 \<or> x = 4"
  by arith

lemma offset_values:
  "offset 0 0 = 0" "offset 1 0 = 1" "offset 2 0 = 62" "offset 3 0 = 28" "offset 4 0 = 27"
  "offset 0 1 = 36" "offset 1 1 = 44" "offset 2 1 = 6" "offset 3 1 = 55" "offset 4 1 = 20"
  "offset 0 2 = 3" "offset 1 2 = 10" "offset 2 2 = 43" "offset 3 2 = 25" "offset 4 2 = 39"
  "offset 0 3 = 41" "offset 1 3 = 45" "offset 2 3 = 15" "offset 3 3 = 21" "offset 4 3 = 8"
  "offset 0 4 = 18" "offset 1 4 = 2" "offset 2 4 = 61" "offset 3 4 = 56" "offset 4 4 = 14"
  by code_simp+

definition lane :: "u64 list \<Rightarrow> nat \<Rightarrow> nat \<Rightarrow> u64" where
  "lane st x y = st ! (x + 5 * y)"

lemma lanes:
  "lane st 0 0 = st ! 0" "lane st 1 0 = st ! 1" "lane st 2 0 = st ! 2" "lane st 3 0 = st ! 3" "lane st 4 0 = st ! 4"
  "lane st 0 1 = st ! 5" "lane st 1 1 = st ! 6" "lane st 2 1 = st ! 7" "lane st 3 1 = st ! 8" "lane st 4 1 = st ! 9"
  "lane st 0 2 = st ! 10" "lane st 1 2 = st ! 11" "lane st 2 2 = st ! 12" "lane st 3 2 = st ! 13" "lane st 4 2 = st ! 14"
  "lane st 0 3 = st ! 15" "lane st 1 3 = st ! 16" "lane st 2 3 = st ! 17" "lane st 3 3 = st ! 18" "lane st 4 3 = st ! 19"
  "lane st 0 4 = st ! 20" "lane st 1 4 = st ! 21" "lane st 2 4 = st ! 22" "lane st 3 4 = st ! 23" "lane st 4 4 = st ! 24"
  by (simp_all add: lane_def)

definition dcol :: "u64 list \<Rightarrow> nat \<Rightarrow> u64" where
  "dcol A x = column (lane A) ((x + 4) mod 5) XOR word_rotl 1 (column (lane A) ((x + 1) mod 5))"

lemma columns:
  "A ! 0 XOR A ! 5 XOR A ! 10 XOR A ! 15 XOR A ! 20 = column (lane A) 0"
  "A ! 1 XOR A ! 6 XOR A ! 11 XOR A ! 16 XOR A ! 21 = column (lane A) 1"
  "A ! 2 XOR A ! 7 XOR A ! 12 XOR A ! 17 XOR A ! 22 = column (lane A) 2"
  "A ! 3 XOR A ! 8 XOR A ! 13 XOR A ! 18 XOR A ! 23 = column (lane A) 3"
  "A ! 4 XOR A ! 9 XOR A ! 14 XOR A ! 19 XOR A ! 24 = column (lane A) 4"
  by (simp_all add: column_def lane_def)

lemma rotl_literals:
  "rotl_64 x 1 = word_rotl 1 x" "rotl_64 x 44 = word_rotl 44 x" "rotl_64 x 43 = word_rotl 43 x"
  "rotl_64 x 21 = word_rotl 21 x" "rotl_64 x 14 = word_rotl 14 x" "rotl_64 x 28 = word_rotl 28 x"
  "rotl_64 x 20 = word_rotl 20 x" "rotl_64 x 3 = word_rotl 3 x" "rotl_64 x 45 = word_rotl 45 x"
  "rotl_64 x 61 = word_rotl 61 x" "rotl_64 x 6 = word_rotl 6 x" "rotl_64 x 25 = word_rotl 25 x"
  "rotl_64 x 8 = word_rotl 8 x" "rotl_64 x 18 = word_rotl 18 x" "rotl_64 x 27 = word_rotl 27 x"
  "rotl_64 x 36 = word_rotl 36 x" "rotl_64 x 10 = word_rotl 10 x" "rotl_64 x 15 = word_rotl 15 x"
  "rotl_64 x 56 = word_rotl 56 x" "rotl_64 x 62 = word_rotl 62 x" "rotl_64 x 55 = word_rotl 55 x"
  "rotl_64 x 39 = word_rotl 39 x" "rotl_64 x 41 = word_rotl 41 x" "rotl_64 x 2 = word_rotl 2 x"
  by (simp_all add: rotl_64_rotates)

lemma dcols:
  "column (lane A) 4 XOR word_rotl 1 (column (lane A) 1) = dcol A 0"
  "column (lane A) 0 XOR word_rotl 1 (column (lane A) 2) = dcol A 1"
  "column (lane A) 1 XOR word_rotl 1 (column (lane A) 3) = dcol A 2"
  "column (lane A) 2 XOR word_rotl 1 (column (lane A) 4) = dcol A 3"
  "column (lane A) 3 XOR word_rotl 1 (column (lane A) 0) = dcol A 4"
  by (simp_all add: dcol_def numeral_2_eq_2)

text \<open>The lanes after theta, rho and pi.\<close>

definition moved :: "u64 list \<Rightarrow> nat \<Rightarrow> nat \<Rightarrow> u64" where
  "moved A x y = word_rotl (offset ((x + 3 * y) mod 5) x) (lane A ((x + 3 * y) mod 5) x XOR dcol A ((x + 3 * y) mod 5))"

lemma moved_spec: "pi_step (rho (theta (lane A))) = moved A"
  by (simp add: fun_eq_iff pi_step_def rho_def theta_def moved_def dcol_def)

lemma moved_lanes:
  "A ! 0 XOR dcol A 0 = moved A 0 0"
  "word_rotl 44 (A ! 6 XOR dcol A 1) = moved A 1 0" "word_rotl 43 (A ! 12 XOR dcol A 2) = moved A 2 0"
  "word_rotl 21 (A ! 18 XOR dcol A 3) = moved A 3 0" "word_rotl 14 (A ! 24 XOR dcol A 4) = moved A 4 0"
  "word_rotl 28 (A ! 3 XOR dcol A 3) = moved A 0 1" "word_rotl 20 (A ! 9 XOR dcol A 4) = moved A 1 1"
  "word_rotl 3 (A ! 10 XOR dcol A 0) = moved A 2 1" "word_rotl 45 (A ! 16 XOR dcol A 1) = moved A 3 1"
  "word_rotl 61 (A ! 22 XOR dcol A 2) = moved A 4 1"
  "word_rotl 1 (A ! 1 XOR dcol A 1) = moved A 0 2" "word_rotl 6 (A ! 7 XOR dcol A 2) = moved A 1 2"
  "word_rotl 25 (A ! 13 XOR dcol A 3) = moved A 2 2" "word_rotl 8 (A ! 19 XOR dcol A 4) = moved A 3 2"
  "word_rotl 18 (A ! 20 XOR dcol A 0) = moved A 4 2"
  "word_rotl 27 (A ! 4 XOR dcol A 4) = moved A 0 3" "word_rotl 36 (A ! 5 XOR dcol A 0) = moved A 1 3"
  "word_rotl 10 (A ! 11 XOR dcol A 1) = moved A 2 3" "word_rotl 15 (A ! 17 XOR dcol A 2) = moved A 3 3"
  "word_rotl 56 (A ! 23 XOR dcol A 3) = moved A 4 3"
  "word_rotl 62 (A ! 2 XOR dcol A 2) = moved A 0 4" "word_rotl 55 (A ! 8 XOR dcol A 3) = moved A 1 4"
  "word_rotl 39 (A ! 14 XOR dcol A 4) = moved A 2 4" "word_rotl 41 (A ! 15 XOR dcol A 0) = moved A 3 4"
  "word_rotl 2 (A ! 21 XOR dcol A 1) = moved A 4 4"
  by (simp_all add: moved_def offset_values lane_def word_rotl_zero One_nat_def [symmetric] del: One_nat_def)

lemma keccak_round_lanes:
  assumes "x < 5" "y < 5"
  shows "lane (keccak_round rc A) x y = round_spec rc (lane A) x y"
  using lane_cases [OF assms(1)] lane_cases [OF assms(2)]
  unfolding keccak_round_def Let_def columns rotl_literals dcols moved_lanes round_spec_def moved_spec
  by (elim disjE) (simp_all add: lane_def iota_def chi_def numeral_2_eq_2 xor.assoc)

lemma round_spec_cong:
  assumes "\<And>x y. x < 5 \<Longrightarrow> y < 5 \<Longrightarrow> a x y = b x y" "x < 5" "y < 5"
  shows "round_spec rc a x y = round_spec rc b x y"
proof -
  have "theta a x y = theta b x y" if "x < 5" "y < 5" for x y
    using assms(1) that by (simp add: theta_def column_def)
  then have "pi_step (rho (theta a)) x y = pi_step (rho (theta b)) x y" if "x < 5" "y < 5" for x y
    using that by (simp add: pi_step_def rho_def)
  then show ?thesis
    using assms(2,3) by (simp add: round_spec_def iota_def chi_def)
qed

definition round_constant :: "nat \<Rightarrow> u64" where
  "round_constant i = rc_spec (rc_bits 168 [True, False, False, False, False, False, False, False]) i"

definition permutation_spec :: "(nat \<Rightarrow> nat \<Rightarrow> u64) \<Rightarrow> nat \<Rightarrow> nat \<Rightarrow> u64" where
  "permutation_spec a = foldl (\<lambda>a i. round_spec (round_constant i) a) a [0..<24]"

lemma rounds_lanes:
  assumes "x < 5" "y < 5"
  shows "lane (foldl (\<lambda>st i. keccak_round (c i) st) st is) x y = foldl (\<lambda>a i. round_spec (c i) a) (lane st) is x y"
  using assms
proof (induction "is" arbitrary: x y rule: rev_induct)
  case (snoc i "is")
  then show ?case
    using round_spec_cong [of "lane (foldl (\<lambda>st i. keccak_round (c i) st) st is)"] by (simp add: keccak_round_lanes)
qed simp

lemma double_rounds: "keccakf1600 st = foldl (\<lambda>st i. keccak_round (round_constants ! i) st) st [0..<24]"
proof -
  have "[0..<24] = [0, 0 + 1, 2, 2 + 1, 4, 4 + 1, 6, 6 + 1, 8, 8 + 1, 10, 10 + 1, 12, 12 + 1, 14, 14 + 1, 16, 16 + 1,
      18, 18 + 1, 20, 20 + 1, 22, 22 + (1 :: nat)]"
    by (simp add: upt_rec)
  then show ?thesis by (simp only: keccakf1600_def double_round_def foldl.simps)
qed

text \<open>
  C32.  The unrolled permutation of the code is the permutation of the Keccak reference: 24 rounds of theta, rho, pi, chi
  and iota, with rotations by triangular numbers along the walk of the lanes and round constants from the
  linear feedback shift register.
\<close>

theorem keccakf1600_correct:
  assumes "x < 5" "y < 5"
  shows "lane (keccakf1600 st) x y = permutation_spec (lane st) x y"
proof -
  have "round_constants ! i = round_constant i" if "i < 24" for i
    unfolding round_constants_lfsr [symmetric] round_constant_def by (subst nth_map_upt) (use that in simp_all)
  then have "foldl (\<lambda>a i. round_spec (round_constants ! i) a) a [0..<24] = permutation_spec a" for a
    unfolding permutation_spec_def by (intro foldl_cong) simp_all
  then show ?thesis
    unfolding double_rounds rounds_lanes [OF assms] by simp
qed

theorem keccakf1600_correct_witness:
  "lane (keccakf1600 (replicate 25 7)) 3 4 = permutation_spec (lane (replicate 25 7)) 3 4"
  by (rule keccakf1600_correct) simp_all

section \<open>The sponge of the Keccak reference\<close>

text \<open>The sponge construction: padding, absorption block by block, and the first lanes as the output.\<close>

definition pad :: "nat \<Rightarrow> bytes \<Rightarrow> bytes" where
  "pad r m = (let q = m @ 0x01 # replicate (r - length m mod r - 1) 0 in butlast q @ [last q XOR 0x80])"

definition word_at :: "bytes \<Rightarrow> nat \<Rightarrow> u64" where
  "word_at data i = load_le (drop (8 * i) data)"

definition xor_block :: "nat \<Rightarrow> u64 list \<Rightarrow> bytes \<Rightarrow> u64 list" where
  "xor_block bw st b = map (\<lambda>i. if i < bw then st ! i XOR word_at b i else st ! i) [0..<25]"

function sponge :: "nat \<Rightarrow> u64 list \<Rightarrow> bytes \<Rightarrow> u64 list" where
  "sponge bw st m =
     (if m = [] \<or> bw = 0 then st else sponge bw (keccakf1600 (xor_block bw st (take (8 * bw) m))) (drop (8 * bw) m))"
  by auto
termination
  by (relation "measure (\<lambda>(bw, st, m). length m)") auto

declare sponge.simps [simp del]

lemma xor_words_eq:
  assumes "i + n \<le> 25" "length st = 25"
  shows "fst (xor_words i n st data) = map (\<lambda>j. if i \<le> j \<and> j < i + n then st ! j XOR word_at data (j - i) else st ! j) [0..<25]"
  using assms
proof (induction n arbitrary: i st data)
  case 0
  then show ?case by (intro nth_equalityI) auto
next
  case (Suc n)
  have w: "word_at (drop 8 data) (j - Suc i) = word_at data (j - i)" if "i < j" for j
    using that by (simp add: word_at_def Suc_diff_Suc [symmetric] add.commute)
  have "fst (xor_words i (Suc n) st data) =
      map (\<lambda>j. if i + 1 \<le> j \<and> j < i + 1 + n then st[i := st ! i XOR load_le data] ! j XOR word_at (drop 8 data) (j - (i + 1))
        else st[i := st ! i XOR load_le data] ! j) [0..<25]"
    using Suc by simp
  also have "\<dots> = map (\<lambda>j. if i \<le> j \<and> j < i + Suc n then st ! j XOR word_at data (j - i) else st ! j) [0..<25]"
    using Suc.prems w by (intro map_cong) (auto simp: nth_list_update word_at_def)
  finally show ?case .
qed

lemma xor_words_block:
  assumes "bw \<le> 25" "length st = 25"
  shows "xor_words 0 bw st data = (xor_block bw st data, drop (8 * bw) data)"
  using xor_words_eq [of 0 bw st data] xor_words_rest [of 0 bw st data] assms by (simp add: prod_eq_iff xor_block_def)

lemma word_at_take: "i < n \<Longrightarrow> word_at (take (8 * n) m) i = word_at m i"
  by (simp add: word_at_def load_le_def drop_take min_def)

lemma xor_block_take: "xor_block bw st (take (8 * bw) m) = xor_block bw st m"
  by (simp add: xor_block_def word_at_take)

lemma length_double_round: "length (double_round st n) = 25"
  unfolding double_round_def keccak_round_def [of "round_constants ! (n + 1)"] Let_def by simp

lemma length_keccakf1600 [simp]: "length (keccakf1600 st) = 25"
  by (simp add: keccakf1600_def length_double_round)

lemma length_xor_block [simp]: "length (xor_block bw st m) = 25"
  by (simp add: xor_block_def)

lemma pad_block:
  assumes "length b = r" "0 < r"
  shows "pad r (b @ m) = b @ pad r m"
  using assms by (simp add: pad_def Let_def butlast_append)

text \<open>The last block.\<close>

lemma xor_top_bit:
  fixes w :: "'a::len word"
  defines "tp \<equiv> push_bit (LENGTH('a) - 1) 1"
  shows "w XOR tp = w + tp"
proof -
  have tp: "bit tp n \<longleftrightarrow> n = LENGTH('a) - 1" for n
    by (auto simp: tp_def bit_simps)
  have *: "v + tp = v XOR tp" if "\<not> bit v (LENGTH('a) - 1)" for v :: "'a word"
    using that tp by (intro disjunctive_add_eq_xor bit_word_eqI) (auto simp: bit_simps)
  have "tp + tp = 2 ^ Suc (LENGTH('a) - 1)" by (simp only: tp_def push_bit_eq_mult power_Suc mult_1 mult_2)
  moreover have "Suc (LENGTH('a) - 1) = LENGTH('a)" by simp
  ultimately have zero: "tp + tp = 0" by (metis exp_eq_zero_iff order_refl)
  show ?thesis
  proof (cases "bit w (LENGTH('a) - 1)")
    case True
    let ?v = "w XOR tp"
    have "\<not> bit ?v (LENGTH('a) - 1)" using True tp by (simp add: bit_simps)
    from * [OF this] have "w = ?v + tp" by (simp add: xor.assoc)
    then have "w + tp = ?v + (tp + tp)" by (metis add.assoc)
    then show ?thesis using zero by simp
  qed (simp add: *)
qed

lemma word_of_nat_mod: "word_of_nat (x + y mod 2 ^ 64) = (word_of_nat (x + y) :: u64)"
  by (simp only: word_unat_eq_iff unat_of_nat) (simp add: mod_add_right_eq)

lemma load_le_last_byte:
  assumes "length bs = 7"
  shows "load_le (bs @ [b XOR 0x80]) = load_le (bs @ [b]) XOR 0x8000000000000000"
proof -
  have load: "load_le (bs @ [c]) = word_of_nat (le_load bs + 2 ^ 56 * unat c)" for c
    using assms by (simp add: load_le_def le_load_append)
  have "b XOR 0x80 = b + 0x80" using xor_top_bit [of b] by (simp add: push_bit_eq_mult)
  then have "unat (b XOR 0x80) = (unat b + 128) mod 256" by (simp add: unat_word_ariths)
  moreover have "2 ^ 56 * ((unat b + 128) mod 256) = (2 ^ 56 * (unat b + 128)) mod 2 ^ 64"
    using mult_mod_right [of "2 ^ 56" "unat b + 128" 256] by simp
  ultimately have "load_le (bs @ [b XOR 0x80]) = word_of_nat (le_load bs + (2 ^ 56 * (unat b + 128)) mod 2 ^ 64)"
    by (simp only: load)
  also have "\<dots> = word_of_nat (le_load bs + 2 ^ 56 * (unat b + 128))"
    by (rule word_of_nat_mod)
  also have "\<dots> = load_le (bs @ [b]) + 0x8000000000000000"
    by (simp add: load algebra_simps)
  finally show ?thesis
    using xor_top_bit [of "load_le (bs @ [b])"] by (simp add: push_bit_eq_mult)
qed

lemma keccak_absorb_tail:
  assumes "length data < 8 * bw" "it + length data div 8 < 25" "length st = 25"
  shows "\<exists>st'. keccak_absorb bw st it data = (st', it + length data div 8, drop (8 * (length data div 8)) data) \<and> length st' = 25 \<and>
     (\<forall>j<25. st' ! j = (if it \<le> j \<and> j < it + length data div 8 then st ! j XOR word_at data (j - it) else st ! j))"
  using assms
proof (induction "length data" arbitrary: data st it rule: less_induct)
  case less
  show ?case
  proof (cases "length data \<ge> 8")
    case True
    let ?st = "st[it := st ! it XOR load_le data]"
    have step: "keccak_absorb bw st it data = keccak_absorb bw ?st (it + 1) (drop 8 data)"
      using True less.prems(1) by (subst keccak_absorb.simps) auto
    have k: "length data div 8 = Suc (length (drop 8 data) div 8)"
      using True by (simp add: le_div_geq)
    have w: "word_at (drop 8 data) (j - Suc it) = word_at data (j - it)" if "it < j" for j
      using that by (simp add: word_at_def Suc_diff_Suc [symmetric] add.commute)
    have "\<exists>st'. keccak_absorb bw ?st (it + 1) (drop 8 data) =
        (st', it + 1 + length (drop 8 data) div 8, drop (8 * (length (drop 8 data) div 8)) (drop 8 data)) \<and> length st' = 25 \<and>
      (\<forall>j<25. st' ! j = (if it + 1 \<le> j \<and> j < it + 1 + length (drop 8 data) div 8 then ?st ! j XOR word_at (drop 8 data) (j - (it + 1)) else ?st ! j))"
      by (rule less.hyps) (use True less.prems k in auto)
    then obtain st' where st': "keccak_absorb bw ?st (it + 1) (drop 8 data) =
        (st', it + 1 + length (drop 8 data) div 8, drop (8 * (length (drop 8 data) div 8)) (drop 8 data))" "length st' = 25"
      "\<forall>j<25. st' ! j = (if it + 1 \<le> j \<and> j < it + 1 + length (drop 8 data) div 8 then ?st ! j XOR word_at (drop 8 data) (j - (it + 1)) else ?st ! j)"
      by blast
    have "st' ! j = (if it \<le> j \<and> j < it + length data div 8 then st ! j XOR word_at data (j - it) else st ! j)" if "j < 25" for j
      using st'(3) that w [of j] k less.prems(3) by (cases j it rule: linorder_cases) (auto simp: word_at_def)
    moreover have "drop (8 * (length (drop 8 data) div 8)) (drop 8 data) = drop (8 * (length data div 8)) data"
      unfolding k by (simp add: add.commute)
    ultimately show ?thesis
      using step st'(1,2) k by simp
  next
    case False
    then have "keccak_absorb bw st it data = (st, it, data)"
      using less.prems(1) by (subst keccak_absorb.simps) auto
    then show ?thesis using False less.prems(3) by auto
  qed
qed

lemma le_load_zeros: "le_load (xs @ replicate n 0) = le_load xs"
proof -
  have "le_load (replicate n 0) = 0" by (induction n) simp_all
  then show ?thesis by (simp add: le_load_append)
qed

lemma padded_words:
  fixes data :: bytes
  assumes "length data < 8 * bw" "j < bw"
  defines "q \<equiv> data @ 0x01 # replicate (8 * bw - length data - 1) 0" and "k \<equiv> length data div 8"
  shows "word_at q j = (if j < k then word_at data j else if j = k then load_le (drop (8 * k) data @ [0x01]) else 0)"
proof -
  have len: "length q = 8 * bw" using assms(1) by (simp add: q_def)
  have k: "8 * k \<le> length data" "length data < 8 * k + 8" by (simp_all add: k_def)
  consider "j < k" | "j = k" | "j > k" by linarith
  then show ?thesis
  proof cases
    case 1
    then have "8 * j + 8 \<le> length data" using k(1) by linarith
    then show ?thesis using 1 by (simp add: word_at_def load_le_def q_def)
  next
    case 2
    have "take 8 (drop (8 * k) q) = (drop (8 * k) data @ [0x01]) @ replicate (7 - (length data - 8 * k)) 0"
      using k assms(1,2) 2 by (simp add: q_def take_Cons' min_def)
    moreover have "take 8 (drop (8 * k) data @ [0x01]) = drop (8 * k) data @ [0x01 :: u8]"
      using k by simp
    ultimately show ?thesis using 2 by (simp only: word_at_def load_le_def le_load_zeros) simp
  next
    case 3
    then have "drop (8 * j) q = replicate (8 * bw - 8 * j) 0"
      using k by (simp add: q_def drop_Cons')
    then have "le_load (take 8 (drop (8 * j) q)) = 0"
      using le_load_zeros [of "[]"] by simp
    then show ?thesis using 3 by (simp add: word_at_def load_le_def)
  qed
qed

lemma word_at_pad:
  assumes "length data < 8 * bw" "j < bw"
  defines "q \<equiv> data @ 0x01 # replicate (8 * bw - length data - 1) 0"
  shows "word_at (pad (8 * bw) data) j = word_at q j XOR (if j = bw - 1 then 0x8000000000000000 else 0)"
proof -
  have len: "length q = 8 * bw" using assms(1) by (simp add: q_def)
  have pad: "pad (8 * bw) data = butlast q @ [last q XOR 0x80]"
    using assms(1) by (simp add: pad_def q_def Let_def)
  have "q \<noteq> []" by (simp add: q_def)
  then have q: "q = butlast q @ [last q]" by simp
  show ?thesis
  proof (cases "j = bw - 1")
    case True
    have d: "drop (8 * j) (butlast q @ [c]) = drop (8 * j) (butlast q) @ [c]" for c
      using len assms(2) True by simp
    have "length (drop (8 * j) (butlast q)) = 7"
      using len assms(2) True by simp
    from load_le_last_byte [OF this, of "last q"] show ?thesis
      unfolding word_at_def pad d using True d [of "last q"] q by simp
  next
    case False
    then have "8 * j + 8 \<le> length (butlast q)" using len assms(2) by simp
    then have "take 8 (drop (8 * j) (butlast q @ c)) = take 8 (drop (8 * j) (butlast q))" for c by simp
    then have "word_at (butlast q @ [last q XOR 0x80]) j = word_at (butlast q @ [last q]) j"
      unfolding word_at_def load_le_def by metis
    then show ?thesis using False q pad by simp
  qed
qed

lemma final_block:
  assumes "length data < 8 * bw" "bw \<le> 25" "length st = 25" "keccak_absorb bw st 0 data = (st1, it, rest)"
  shows "(st1[it := st1 ! it XOR load_le (rest @ [0x01])])
      [bw - 1 := st1[it := st1 ! it XOR load_le (rest @ [0x01])] ! (bw - 1) XOR 0x8000000000000000] = xor_block bw st (pad (8 * bw) data)"
    (is "?l = _")
proof (rule nth_equalityI)
  let ?k = "length data div 8"
  have k: "?k < bw" using assms(1) by (simp add: div_less_iff_less_mult mult.commute)
  then obtain st' where st': "keccak_absorb bw st 0 data = (st', ?k, drop (8 * ?k) data)" "length st' = 25"
    "\<forall>j<25. st' ! j = (if j < ?k then st ! j XOR word_at data j else st ! j)"
    using keccak_absorb_tail [of data bw 0 st] assms(1-3) by auto
  then have eqs: "st1 = st'" "it = ?k" "rest = drop (8 * ?k) data" using assms(4) by auto
  show "length ?l = length (xor_block bw st (pad (8 * bw) data))" using eqs st'(2) by simp
  fix j assume "j < length ?l"
  then have j: "j < 25" using eqs st'(2) by simp
  show "?l ! j = xor_block bw st (pad (8 * bw) data) ! j"
  proof (cases "j < bw")
    case True
    then have "xor_block bw st (pad (8 * bw) data) ! j = st ! j XOR
        ((if j < ?k then word_at data j else if j = ?k then load_le (drop (8 * ?k) data @ [0x01]) else 0) XOR
         (if j = bw - 1 then 0x8000000000000000 else 0))"
      using j word_at_pad [OF assms(1) True] padded_words [OF assms(1) True] by (simp add: xor_block_def)
    then show ?thesis
      using j k eqs st'(2,3) assms(2) by (auto simp: nth_list_update xor.assoc)
  next
    case False
    then show ?thesis
      using j k eqs st'(2,3) by (auto simp: nth_list_update xor_block_def)
  qed
qed

lemma keccak_absorb_sponge:
  assumes "0 < bw" "bw \<le> 25" "length st = 25" "keccak_absorb bw st 0 data = (st1, it, rest)"
  shows "keccakf1600 ((st1[it := st1 ! it XOR load_le (rest @ [0x01])])
      [bw - 1 := st1[it := st1 ! it XOR load_le (rest @ [0x01])] ! (bw - 1) XOR 0x8000000000000000]) =
    sponge bw st (pad (8 * bw) data)"
  using assms(3,4)
proof (induction "length data" arbitrary: data st rule: less_induct)
  case less
  show ?case
  proof (cases "length data < 8 * bw")
    case True
    have len: "length (pad (8 * bw) data) = 8 * bw" using True by (simp add: pad_def Let_def)
    then have "sponge bw st (pad (8 * bw) data) = keccakf1600 (xor_block bw st (pad (8 * bw) data))"
      using assms(1) by (subst sponge.simps) (auto simp: sponge.simps [of bw _ "[]"])
    then show ?thesis using final_block [OF True assms(2) less.prems] by simp
  next
    case False
    let ?st = "keccakf1600 (xor_block bw st data)" and ?data = "drop (8 * bw) data"
    have "keccak_absorb bw st 0 data = keccak_absorb bw ?st 0 ?data"
      using False assms(1,2) less.prems(1) xor_words_block [of bw st data]
      by (subst keccak_absorb.simps) auto
    then have "keccakf1600 ((st1[it := st1 ! it XOR load_le (rest @ [0x01])])
      [bw - 1 := st1[it := st1 ! it XOR load_le (rest @ [0x01])] ! (bw - 1) XOR 0x8000000000000000]) = sponge bw ?st (pad (8 * bw) ?data)"
      using less.hyps [of ?data ?st] less.prems(2) False assms(1) by simp
    also have "pad (8 * bw) data = take (8 * bw) data @ pad (8 * bw) ?data"
      using pad_block [of "take (8 * bw) data" "8 * bw" ?data] False assms(1) by simp
    then have "sponge bw ?st (pad (8 * bw) ?data) = sponge bw st (pad (8 * bw) data)"
      using False assms(1) by (subst (2) sponge.simps) (auto simp: xor_block_take [of bw st data, symmetric])
    finally show ?thesis .
  qed
qed

text \<open>
  C33.  The hash functions are the sponge construction of the Keccak reference: the input is padded with 01, zeros and
  a set top bit to a multiple of the rate (136 or 72 bytes), its blocks are added to the state one after the
  other with the permutation in between, and the first lanes are the hash.
\<close>

theorem keccak_is_sponge:
  assumes "bits = 256 \<or> bits = 512"
  shows "keccak bits input = take (bits div 64) (sponge (25 - bits div 32) (replicate 25 0) (pad (200 - bits div 4) input))"
proof -
  let ?bw = "25 - bits div 32"
  have n: "(1600 - bits * 2) div 8 div 8 = ?bw" "8 * ?bw = 200 - bits div 4" "bits div 8 div 8 = bits div 64" "0 < ?bw" "?bw \<le> 25"
    using assms by auto
  obtain st it rest where a: "keccak_absorb ?bw (replicate 25 0) 0 input = (st, it, rest)" by (cases rule: prod_cases3)
  show ?thesis
    using keccak_absorb_sponge [OF n(4,5) _ a] by (simp add: keccak_def Let_def n a)
qed

theorem keccak_is_sponge_witness:
  "keccak 256 [1, 2, 3] = take 4 (sponge 17 (replicate 25 0) (pad 136 [1, 2, 3]))"
  using keccak_is_sponge [of 256 "[1, 2, 3]"] by simp

end
