(* ===== verification/Ethash_Correct.thy ===== *)
theory Ethash_Correct
  imports Ethash
begin

unbundle bit_operations_syntax

text \<open>
  The search for primes, the sizes of an epoch, the comparison of hashes as integers, and the verification of seals with their
  static caches.
\<close>

section \<open>Primes\<close>

definition prime_nat :: "nat \<Rightarrow> bool" where
  "prime_nat p \<longleftrightarrow> 1 < p \<and> (\<forall>d. d dvd p \<longrightarrow> d = 1 \<or> d = p)"

definition largest_prime :: "nat \<Rightarrow> nat \<Rightarrow> bool" where
  "largest_prime p b \<longleftrightarrow> prime_nat p \<and> p \<le> b \<and> (\<forall>q. prime_nat q \<and> q \<le> b \<longrightarrow> q \<le> p)"

lemma no_odd_factor_iff:
  assumes "odd d"
  shows "no_odd_factor n d \<longleftrightarrow> (\<forall>k. odd k \<and> d \<le> k \<and> k * k \<le> unat n \<longrightarrow> \<not> k dvd unat n)"
  using assms
proof (induction n d rule: no_odd_factor.induct)
  case (1 n d)
  have d: "0 < d" using 1(2) by (rule odd_pos)
  show ?case
  proof (cases "d * d \<le> unat n")
    case False
    then have "\<not> k * k \<le> unat n" if "d \<le> k" for k
      using mult_le_mono [OF that that] by simp
    then show ?thesis using False by (subst no_odd_factor.simps) auto
  next
    case True
    have step: "(d \<le> k \<longleftrightarrow> k = d \<or> d + 2 \<le> k)" if "odd k" for k
      using that 1(2) by presburger
    show ?thesis
    proof (cases "unat n mod d = 0")
      case dvd: True
      then have "d dvd unat n" by (simp add: mod_eq_0_iff_dvd)
      with True dvd d 1(2) show ?thesis by (subst no_odd_factor.simps) auto
    next
      case ndvd: False
      then have "no_odd_factor n d = no_odd_factor n (d + 2)"
        using True d by (subst no_odd_factor.simps) simp
      also have "\<dots> \<longleftrightarrow> (\<forall>k. odd k \<and> d + 2 \<le> k \<and> k * k \<le> unat n \<longrightarrow> \<not> k dvd unat n)"
        using 1 True d ndvd by simp
      finally show ?thesis
        using ndvd step by (auto simp: mod_eq_0_iff_dvd)
    qed
  qed
qed

lemma odd_prime_factor:
  assumes "3 \<le> n" "odd n"
  shows "prime_nat n \<longleftrightarrow> (\<forall>k. odd k \<and> 3 \<le> k \<and> k * k \<le> n \<longrightarrow> \<not> k dvd n)"
proof
  assume p: "prime_nat n"
  show "\<forall>k. odd k \<and> 3 \<le> k \<and> k * k \<le> n \<longrightarrow> \<not> k dvd n"
  proof (intro allI impI notI)
    fix k assume k: "odd k \<and> 3 \<le> k \<and> k * k \<le> n" "k dvd n"
    then have "k = n" using p unfolding prime_nat_def by auto
    with k show False using assms(1) by auto
  qed
next
  assume none: "\<forall>k. odd k \<and> 3 \<le> k \<and> k * k \<le> n \<longrightarrow> \<not> k dvd n"
  have "d = 1 \<or> d = n" if dvd: "d dvd n" for d
  proof (rule ccontr)
    assume nt: "\<not> (d = 1 \<or> d = n)"
    obtain e where e: "n = d * e" using dvd by (rule dvdE)
    have pos: "0 < d" "0 < e" using e assms(1) by (auto intro: Nat.gr0I)
    have ne: "e \<noteq> 1" "d \<noteq> 1" using nt e by auto
    have odds: "odd d" "odd e" using assms(2) e by auto
    have "3 \<le> d" "3 \<le> e" using pos ne odds by presburger+
    moreover have "d * d \<le> n \<or> e * e \<le> n"
      using e by (cases "d \<le> e") (simp_all add: mult_le_mono)
    ultimately show False using none odds e by auto
  qed
  then show "prime_nat n" using assms(1) by (simp add: prime_nat_def)
qed

lemma and_one_word: "(n :: u32) AND 1 = 0 \<longleftrightarrow> even (unat n)"
proof -
  have "unat (n AND 1) = unat n mod 2"
    using unsigned_and_eq [of n 1, where ?'a = nat] by (simp add: and_one_eq mod_2_eq_odd)
  then show ?thesis by (metis even_iff_mod_2_eq_zero unat_0 unat_inj)
qed

lemma is_unsigned_odd_prime_iff:
  "is_unsigned_odd_prime n \<longleftrightarrow> unat n = 1 \<or> (odd (unat n) \<and> prime_nat (unat n))"
proof (cases "even (unat n)")
  case True
  then show ?thesis by (auto simp: is_unsigned_odd_prime_def and_one_word)
next
  case False
  then have "unat n = 1 \<or> 3 \<le> unat n" by presburger
  then show ?thesis
  proof
    assume "unat n = 1"
    then show ?thesis by (simp add: is_unsigned_odd_prime_def and_one_word no_odd_factor.simps)
  next
    assume "3 \<le> unat n"
    then show ?thesis
      using False odd_prime_factor [of "unat n"] no_odd_factor_iff [of 3 n] by (auto simp: is_unsigned_odd_prime_def and_one_word)
  qed
qed

lemma small_primes: "prime_nat 2" "prime_nat 3"
proof -
  have "d \<le> 2 \<and> d \<noteq> 0" if "d dvd 2" for d :: nat using that dvd_imp_le [of d 2] by (auto intro: Nat.gr0I)
  then show "prime_nat 2" unfolding prime_nat_def by (metis One_nat_def Suc_1 le_Suc_eq le_zero_eq lessI)
  have "d = 1 \<or> d = 3" if "d dvd 3" for d :: nat
  proof -
    have "d \<le> 3" using that dvd_imp_le [of d 3] by simp
    then have "d = 0 \<or> d = 1 \<or> d = 2 \<or> d = 3" by linarith
    then show ?thesis using that by auto
  qed
  then show "prime_nat 3" by (simp add: prime_nat_def)
qed

lemma even_prime: "prime_nat q \<Longrightarrow> even q \<Longrightarrow> q = 2"
  unfolding prime_nat_def by force

lemma descend_largest:
  assumes "odd (unat n)" "3 \<le> unat n"
  shows "\<exists>p. descend n = Some p \<and> largest_prime (unat p) (unat n)"
  using assms
proof (induction "unat n" arbitrary: n rule: less_induct)
  case less
  show ?case
  proof (cases "prime_nat (unat n)")
    case True
    then show ?thesis
      using less.prems by (subst descend.simps) (auto simp: is_unsigned_odd_prime_iff largest_prime_def)
  next
    case False
    then have "unat n \<noteq> 3" using small_primes(2) by metis
    then have five: "5 \<le> unat n" using less.prems by presburger
    then have sub: "unat (n - 2) = unat n - 2"
      by (simp add: unat_sub word_le_nat_alt)
    then obtain p where p: "descend (n - 2) = Some p" "largest_prime (unat p) (unat n - 2)"
      using less.hyps [of "n - 2"] less.prems five by force
    have "descend n = descend (n - 2)"
      using False five by (subst descend.simps) (simp add: is_unsigned_odd_prime_iff)
    moreover have "q \<le> unat p" if "prime_nat q" "q \<le> unat n" for q
    proof (cases "q \<le> unat n - 2")
      case True
      then show ?thesis using p(2) that by (auto simp: largest_prime_def)
    next
      case larger: False
      then have "q = unat n \<or> q = unat n - 1" using that by linarith
      then have "q = unat n - 1" using that False by metis
      then have "even q" using less.prems(1) by simp
      then have "q = 2" using even_prime that by blast
      then show ?thesis using larger five by simp
    qed
    ultimately show ?thesis using p by (auto simp: largest_prime_def)
  qed
qed

lemma find_prime_largest:
  assumes "3 \<le> unat upper_bound"
  shows "\<exists>p. find_largest_unsigned_prime upper_bound = Some p \<and> largest_prime (unat p) (unat upper_bound)"
proof (cases "odd (unat upper_bound)")
  case True
  then show ?thesis
    using descend_largest [OF True assms] assms by (simp add: find_largest_unsigned_prime_def and_one_word word_less_nat_alt)
next
  case False
  then have four: "4 \<le> unat upper_bound" using assms by presburger
  have "upper_bound \<noteq> 0" using assms by auto
  then have sub: "unat (upper_bound - 1) = unat upper_bound - 1" by (simp add: unat_minus_one)
  then have o: "odd (unat (upper_bound - 1))" using False four by simp
  obtain p where p: "descend (upper_bound - 1) = Some p" "largest_prime (unat p) (unat upper_bound - 1)"
    using descend_largest [OF o] sub four by force
  moreover have "q \<le> unat p" if "prime_nat q" "q \<le> unat upper_bound" for q
  proof (cases "q = unat upper_bound")
    case True
    then have "q = 2" using False that even_prime by blast
    then show ?thesis using True four by simp
  next
    case neq: False
    then show ?thesis using p(2) that by (auto simp: largest_prime_def)
  qed
  ultimately show ?thesis
    using False four by (auto simp: find_largest_unsigned_prime_def and_one_word word_less_nat_alt largest_prime_def)
qed

text \<open>
   The search for the sizes of cache and dataset finds the largest prime up to a bound of 3 or more, and ends.
\<close>

theorem find_largest_unsigned_prime_correct:
  assumes "3 \<le> unat upper_bound"
  shows "\<exists>p. find_largest_unsigned_prime upper_bound = Some p \<and> largest_prime (unat p) (unat upper_bound)"
  using assms by (rule find_prime_largest)

theorem find_largest_unsigned_prime_correct_witness:
  "\<exists>p. find_largest_unsigned_prime 262144 = Some p \<and> largest_prime (unat p) 262144"
  using find_largest_unsigned_prime_correct [of 262144] by simp

text \<open>
  At the bound 2 the search returns 1, which is no prime, although the comment promises the largest prime up to the bound.
\<close>

theorem find_largest_unsigned_prime_two:
  "find_largest_unsigned_prime 2 = Some 1 \<and> \<not> prime_nat 1 \<and> largest_prime 2 2"
proof -
  have "largest_prime 2 2" using small_primes(1) by (simp add: largest_prime_def)
  then show ?thesis
    by (simp add: find_largest_unsigned_prime_def descend.simps is_unsigned_odd_prime_iff prime_nat_def)
qed

text \<open>
  For the first 65408 epochs (almost two thousand million blocks) the 32-bit bounds do not wrap around.
\<close>

lemma epoch_sizes:
  assumes "unat e < 65408"
  shows "\<exists>l f. calculate_light_cache_num_items e = Some l \<and> largest_prime (unat l) (262144 + 2048 * unat e) \<and>
    calculate_full_dataset_num_items e = Some f \<and> largest_prime (unat f) (8388608 + 65536 * unat e)"
proof -
  have l: "unat (262144 + e * 2048) = 262144 + 2048 * unat e"
    using assms by (simp add: unat_word_ariths)
  have f: "unat (8388608 + e * 65536) = 8388608 + 65536 * unat e"
    using assms by (simp add: unat_word_ariths)
  obtain pl where "find_largest_unsigned_prime (262144 + e * 2048) = Some pl" "largest_prime (unat pl) (262144 + 2048 * unat e)"
    using find_prime_largest [of "262144 + e * 2048"] l by auto
  moreover obtain pf where "find_largest_unsigned_prime (8388608 + e * 65536) = Some pf" "largest_prime (unat pf) (8388608 + 65536 * unat e)"
    using find_prime_largest [of "8388608 + e * 65536"] f by auto
  ultimately show ?thesis
    by (simp add: calculate_light_cache_num_items_def calculate_full_dataset_num_items_def Let_def
        light_cache_init_size_def light_cache_growth_def full_dataset_init_size_def full_dataset_growth_def)
qed

section \<open>Comparison with the boundary\<close>

lemma be_uint64_value:
  assumes "8 * i + 8 \<le> length h"
  shows "unat (be_uint64 h i) = be_load (take 8 (drop (8 * i) h))"
proof -
  have l: "length (take 8 (drop (8 * i) h)) = 8" using assms by simp
  then have "be_uint64 h i = word_of_nat (be_load (take 8 (drop (8 * i) h)))"
    unfolding be_uint64_def by (intro bswap_le_load) simp_all
  moreover have "be_load (take 8 (drop (8 * i) h)) < 256 ^ 8"
    using be_load_less [of "take 8 (drop (8 * i) h)"] l by simp
  ultimately show ?thesis by (simp add: unat_of_nat)
qed

lemma less_or_equal_from_iff:
  assumes "8 * (i + n) \<le> length a" "8 * (i + n) \<le> length b"
  shows "less_or_equal_from i a b n \<longleftrightarrow> be_load (take (8 * n) (drop (8 * i) a)) \<le> be_load (take (8 * n) (drop (8 * i) b))"
  using assms
proof (induction n arbitrary: i)
  case (Suc n)
  let ?hd = "\<lambda>h. be_load (take 8 (drop (8 * i) h))" and ?tl = "\<lambda>h. be_load (take (8 * n) (drop (8 * (i + 1)) h))"
  have split: "be_load (take (8 * Suc n) (drop (8 * i) h)) = ?hd h * 256 ^ (8 * n) + ?tl h" and
    bound: "?tl h < 256 ^ (8 * n)" and len: "unat (be_uint64 h i) = ?hd h" if "8 * (i + Suc n) \<le> length h" for h
  proof -
    have "take (8 * Suc n) (drop (8 * i) h) = take 8 (drop (8 * i) h) @ take (8 * n) (drop (8 * (i + 1)) h)"
      using take_add [of 8 "8 * n" "drop (8 * i) h"] by (simp add: add.commute)
    then show "be_load (take (8 * Suc n) (drop (8 * i) h)) = ?hd h * 256 ^ (8 * n) + ?tl h"
      using that by (simp add: be_load_append)
    show "?tl h < 256 ^ (8 * n)"
      using be_load_less [of "take (8 * n) (drop (8 * (i + 1)) h)"] that by simp
    show "unat (be_uint64 h i) = ?hd h" using that by (intro be_uint64_value) simp
  qed
  have IH: "less_or_equal_from (i + 1) a b n \<longleftrightarrow> ?tl a \<le> ?tl b" using Suc by simp
  show ?case
  proof (cases "?hd a" "?hd b" rule: linorder_cases)
    case less
    then have "(?hd a + 1) * 256 ^ (8 * n) \<le> ?hd b * 256 ^ (8 * n)" by (intro mult_le_mono1) simp
    then show ?thesis
      using less len [OF Suc.prems(1)] len [OF Suc.prems(2)] split [OF Suc.prems(1)] split [OF Suc.prems(2)] bound [OF Suc.prems(1)]
      by (simp add: word_less_nat_alt)
  next
    case equal
    then show ?thesis
      using len [OF Suc.prems(1)] len [OF Suc.prems(2)] split [OF Suc.prems(1)] split [OF Suc.prems(2)] IH
      by (simp add: word_less_nat_alt)
  next
    case greater
    then have "(?hd b + 1) * 256 ^ (8 * n) \<le> ?hd a * 256 ^ (8 * n)" by (intro mult_le_mono1) simp
    then show ?thesis
      using greater len [OF Suc.prems(1)] len [OF Suc.prems(2)] split [OF Suc.prems(1)] split [OF Suc.prems(2)] bound [OF Suc.prems(2)]
      by (simp add: word_less_nat_alt)
  qed
qed simp

lemma is_less_or_equal_iff:
  assumes "length a = 32" "length b = 32"
  shows "is_less_or_equal a b \<longleftrightarrow> be_load a \<le> be_load b"
  using less_or_equal_from_iff [of 0 4 a b] assms by (simp add: is_less_or_equal_def)

lemma le_store_max: "le_store k (256 ^ k - 1) = replicate k 255"
proof (induction k)
  case (Suc k)
  obtain m where m: "256 ^ k = Suc m" using gr0_implies_Suc [of "256 ^ k"] by auto
  have e: "256 ^ Suc k - 1 = 255 + m * (256 :: nat)" by (simp add: m)
  have "word_of_nat (255 + m * 256) = (255 :: u8)"
    by (simp only: word_unat_eq_iff unat_of_nat) simp
  then show ?case using Suc unfolding e by (simp add: m)
qed simp

lemma be_load_max: "be_load (replicate k 255) = 256 ^ k - 1"
proof (induction k)
  case (Suc k)
  obtain m where "256 ^ k = Suc m" using gr0_implies_Suc [of "256 ^ k"] by auto
  with Suc show ?case by (simp add: be_load_Cons)
qed simp

lemma boundary_iff:
  assumes "length h = 32"
  shows "is_less_or_equal h (get_boundary_from_diff d) \<longleftrightarrow> (1 < unat d \<longrightarrow> be_load h * unat d < 2 ^ 256)"
proof (cases "1 < d")
  case True
  then have d: "1 < unat d" by (simp add: word_less_nat_alt)
  let ?q = "(2 ^ 256 - 1) div unat d"
  have "unat (- 1 div d) = ?q" by (simp add: unat_div unsigned_minus_1_eq_mask mask_eq_exp_minus_1)
  moreover have "?q < 256 ^ 32" by (rule le_less_trans [OF div_le_dividend]) simp
  ultimately have b: "be_load (get_boundary_from_diff d) = ?q" "length (get_boundary_from_diff d) = 32"
    using True by (simp_all add: get_boundary_from_diff_def be_load_store)
  have "be_load h \<le> ?q \<longleftrightarrow> be_load h * unat d \<le> 2 ^ 256 - 1"
    using d by (intro less_eq_div_iff_mult_less_eq) simp
  then show ?thesis
    using is_less_or_equal_iff [OF assms b(2)] b(1) d by (auto simp: Suc_le_eq [symmetric])
next
  case False
  have m: "unat (- 1 :: u256) = 256 ^ 32 - 1" by (simp add: unsigned_minus_1_eq_mask mask_eq_exp_minus_1)
  have b: "get_boundary_from_diff d = le_store 32 (256 ^ 32 - 1)"
    using False m by (simp add: get_boundary_from_diff_def)
  have "be_load (le_store 32 (256 ^ 32 - 1)) = 256 ^ 32 - 1"
    by (simp only: le_store_max be_load_max)
  then show ?thesis
    using is_less_or_equal_iff [OF assms, of "get_boundary_from_diff d"] b be_load_less [of h] assms False
    by (simp add: word_less_nat_alt)
qed

section \<open>Sizes of hashes\<close>

lemma length_concat_store: "length (concat (map (\<lambda>w. le_store k (f w)) ws)) = k * length ws"
  by (induction ws) simp_all

lemma length_keccakf: "length (keccakf1600 st) = 25"
proof -
  have "length (double_round st n) = 25" for st n
    unfolding double_round_def keccak_round_def [of "round_constants ! (n + 1)"] Let_def by simp
  then show ?thesis by (simp add: keccakf1600_def)
qed

lemma length_hashes [simp]: "length (keccak256 m) = 32" "length (keccak512 m) = 64"
  by (simp_all add: keccak256_def keccak512_def hash_bytes_def length_concat_store keccak_def case_prod_beta Let_def length_keccakf)

lemma length_word32s [simp]: "length (word32s h) = length h div 4"
  by (simp add: word32s_def)

lemma length_word_bytes [simp]: "length (word_bytes ws) = 4 * length ws"
  by (simp add: word_bytes_def length_concat_store)

text \<open>A light cache: as many items as the context says, of 16 words each.\<close>

definition cache_shape :: "u32 \<Rightarrow> u32 list list \<Rightarrow> bool" where
  "cache_shape n cache \<longleftrightarrow> length cache = unat n \<and> (\<forall>item\<in>set cache. length item = 16)"

lemma cache_items_shape:
  assumes "length item = 64" "\<And>m. length (H m) = 64"
  shows "length (cache_items H n item) = n \<and> (\<forall>x\<in>set (cache_items H n item). length x = 16)"
  using assms(1)
proof (induction n arbitrary: item)
  case (Suc n)
  then show ?case using Suc.IH [of "H item"] assms(2) by simp
qed simp

lemma cache_step_shape:
  assumes "cache_shape n cache" "\<And>m. length (H m) = 64"
  shows "cache_shape n (cache_step H n cache i)"
  using assms by (auto simp: cache_shape_def cache_step_def Let_def dest!: set_update_subset_insert [THEN subsetD])

lemma foldl_invariant: "P s \<Longrightarrow> (\<And>s x. P s \<Longrightarrow> P (f s x)) \<Longrightarrow> P (foldl f s xs)"
  by (induction xs arbitrary: s) simp_all

lemma build_light_cache_shape:
  assumes "\<And>m. length (H m) = 64"
  shows "cache_shape n (build_light_cache H n seed)"
proof -
  have "cache_shape n (cache_items H (unat n) (H seed))"
    using cache_items_shape [of "H seed" H "unat n"] assms by (simp add: cache_shape_def)
  moreover have "cache_shape n (foldl (cache_step H n) cache is)" if "cache_shape n cache" for cache "is"
    using that by (rule foldl_invariant) (rule cache_step_shape [OF _ assms])
  ultimately show ?thesis
    unfolding build_light_cache_def Let_def by (rule foldl_invariant)
qed

section \<open>Contexts and their cache\<close>

lemma create_epoch_context_some:
  assumes "unat e < 65408"
  obtains c where "create_epoch_context e = Some c"
  using epoch_sizes [OF assms] by (auto simp: create_epoch_context_def)

text \<open>
  C38.  The context of an epoch: its light cache has the prime number of items of the epoch, at least one, and every item
  has 16 words, so that every lookup by an index modulo the number of items is inside the cache; the dataset
  items computed from it have 32 words.
\<close>

theorem epoch_context_shape:
  assumes "unat e < 65408"
  shows "\<exists>c. create_epoch_context e = Some c \<and> ctx_epoch_number c = e \<and>
    largest_prime (unat (ctx_light_cache_num_items c)) (262144 + 2048 * unat e) \<and>
    largest_prime (unat (ctx_full_dataset_num_items c)) (8388608 + 65536 * unat e) \<and>
    cache_shape (ctx_light_cache_num_items c) (ctx_light_cache c) \<and>
    (\<forall>i. i mod ctx_light_cache_num_items c < ctx_light_cache_num_items c \<and>
       length (ctx_light_cache c ! unat (i mod ctx_light_cache_num_items c)) = 16 \<and>
       length (calculate_dataset_item_1024 c i) = 32)"
proof -
  obtain l f where "calculate_light_cache_num_items e = Some l" and l: "largest_prime (unat l) (262144 + 2048 * unat e)"
    and "calculate_full_dataset_num_items e = Some f" and f: "largest_prime (unat f) (8388608 + 65536 * unat e)"
    using epoch_sizes [OF assms] by blast
  moreover have "0 < l" using l by (auto simp: largest_prime_def prime_nat_def word_gt_0)
  then have "i mod l < l" for i by (rule word_mod_less_divisor)
  moreover have "cache_shape l (build_light_cache keccak512 l (calculate_seed_from_epoch e))"
    by (rule build_light_cache_shape) simp
  moreover have "length (calculate_dataset_item_1024 c i) = 32" for c i
    by (simp add: calculate_dataset_item_1024_def Let_def case_prod_beta item_final_def keccak512_words_def)
  ultimately show ?thesis
    by (auto simp: create_epoch_context_def cache_shape_def word_less_nat_alt)
qed

theorem epoch_context_shape_witness:
  "\<exists>c. create_epoch_context 400 = Some c \<and> cache_shape (ctx_light_cache_num_items c) (ctx_light_cache c)"
  using epoch_context_shape [of 400] by auto

definition context_cache_ok :: "epoch_context option \<Rightarrow> bool" where
  "context_cache_ok cached \<longleftrightarrow> (\<forall>c. cached = Some c \<longrightarrow> create_epoch_context (ctx_epoch_number c) = Some c)"

lemma verify_full_result:
  assumes "context_cache_ok cached" "unat n div 30000 < 65408"
  shows "\<exists>c r. create_epoch_context (word_of_nat (unat n div 30000)) = Some c \<and>
    verify_full n header mix nonce (get_boundary_from_diff d) cached = Some (r, c) \<and> context_cache_ok (Some c) \<and>
    (r = VerifyOk \<longleftrightarrow> mix = res_mix_hash (ethash_hash c header nonce) \<and>
       (1 < unat d \<longrightarrow> be_load (final_hash (ethash_hash c header nonce)) * unat d < 2 ^ 256))"
proof -
  let ?e = "word_of_nat (unat n div 30000) :: u32"
  have "unat (n div ucast epoch_length) = unat n div 30000"
    by (simp add: unat_div epoch_length_def)
  then have "ucast (n div ucast epoch_length) = ?e" by (metis of_nat_unat)
  have e: "unat ?e = unat n div 30000" using assms(2) by (simp add: unat_of_nat)
  then obtain c where c: "create_epoch_context ?e = Some c"
    using create_epoch_context_some [of ?e] assms(2) by metis
  then have num: "ctx_epoch_number c = ?e"
    by (auto simp: create_epoch_context_def split: option.splits)
  have "verify_full n header mix nonce (get_boundary_from_diff d) cached =
      Some (verify_full_context c header mix nonce (get_boundary_from_diff d), c)"
    using c assms(1) \<open>ucast (n div ucast epoch_length) = ?e\<close>
    by (auto simp: verify_full_def Let_def context_cache_ok_def split: option.split)
  moreover have "verify_full_context c header mix nonce (get_boundary_from_diff d) = VerifyOk \<longleftrightarrow>
      mix = res_mix_hash (ethash_hash c header nonce) \<and>
       (1 < unat d \<longrightarrow> be_load (final_hash (ethash_hash c header nonce)) * unat d < 2 ^ 256)"
    using boundary_iff [of "hash_final (hash_seed header nonce) mix" d]
    by (auto simp: verify_full_context_def ethash_hash_def Let_def is_equal_def hash_final_def)
  ultimately show ?thesis
    using c num by (auto simp: context_cache_ok_def)
qed

text \<open>
   Verification of a seal: whatever epoch the static context holds, \<open>verify_full\<close> uses the context of the epoch of the
  block, and it accepts a mix hash and a nonce exactly when Ethash gives that mix hash and a final hash whose
  product with the difficulty, as integers, is below 2^256.
\<close>

theorem verify_full_correct:
  assumes "context_cache_ok cached" "unat n div 30000 < 65408"
  shows "\<exists>c r. create_epoch_context (word_of_nat (unat n div 30000)) = Some c \<and>
    verify_full n header mix nonce (get_boundary_from_diff d) cached = Some (r, c) \<and> context_cache_ok (Some c) \<and>
    (r = VerifyOk \<longleftrightarrow> mix = res_mix_hash (ethash_hash c header nonce) \<and>
       (1 < unat d \<longrightarrow> be_load (final_hash (ethash_hash c header nonce)) * unat d < 2 ^ 256))"
  using assms by (rule verify_full_result)

theorem verify_full_correct_witness:
  "\<exists>c r. create_epoch_context 400 = Some c \<and>
     verify_full 12000000 (replicate 32 1) (replicate 32 2) 42 (get_boundary_from_diff 131072) None = Some (r, c)"
  using verify_full_correct [of None 12000000 "replicate 32 1" "replicate 32 2" 42 131072]
  by (auto simp: context_cache_ok_def)

section \<open>The epoch of a seed\<close>

definition epoch_cache_ok :: "epoch_cache \<Rightarrow> bool" where
  "epoch_cache_ok c \<longleftrightarrow> (\<forall>n. cached_epoch_number c = Some n \<longrightarrow> cached_epoch_seed c = calculate_seed_from_epoch n)"

lemma search_epoch_result:
  "search_epoch seed i n cur = (r, cur') \<Longrightarrow> i + n < 2 ^ 32 \<Longrightarrow>
   (case r of None \<Rightarrow> (\<forall>j<n. (keccak256 ^^ j) cur \<noteq> seed)
    | Some m \<Rightarrow> \<exists>j<n. m = word_of_nat (i + j) \<and> (keccak256 ^^ j) cur = seed \<and> cur' = seed)"
proof (induction n arbitrary: i cur)
  case (Suc n)
  show ?case
  proof (cases "cur = seed")
    case True
    then show ?thesis using Suc.prems by (auto simp: is_equal_def intro!: exI [of _ 0])
  next
    case False
    then have "search_epoch seed (i + 1) n (keccak256 cur) = (r, cur')" using Suc.prems by (simp add: is_equal_def)
    from Suc.IH [OF this] Suc.prems have IH: "case r of None \<Rightarrow> (\<forall>j<n. (keccak256 ^^ j) (keccak256 cur) \<noteq> seed)
      | Some m \<Rightarrow> \<exists>j<n. m = word_of_nat (i + 1 + j) \<and> (keccak256 ^^ j) (keccak256 cur) = seed \<and> cur' = seed" by simp
    have sh: "(keccak256 ^^ j) (keccak256 cur) = (keccak256 ^^ Suc j) cur" for j by (simp add: funpow_swap1)
    show ?thesis
    proof (cases r)
      case None
      have "(keccak256 ^^ j) cur \<noteq> seed" if "j < Suc n" for j
        using that IH False None sh by (cases j) auto
      then show ?thesis using None by simp
    next
      case (Some m)
      then obtain j where "j < n" "m = word_of_nat (i + Suc j)" "(keccak256 ^^ Suc j) cur = seed" "cur' = seed"
        using IH sh by auto
      then show ?thesis using Some by (auto intro!: exI [of _ "Suc j"])
    qed
  qed
qed simp

lemma restart_search_correct:
  assumes "restart_search seed = (r, c)"
  shows "epoch_cache_ok c \<and> (\<forall>n. r = Some n \<longrightarrow> calculate_seed_from_epoch n = seed) \<and>
    (r = None \<longrightarrow> (\<forall>n. unat n < 30000 \<longrightarrow> calculate_seed_from_epoch n \<noteq> seed))"
proof -
  obtain cur where s: "search_epoch seed 0 num_tries zero_hash = (r, cur)" and c: "c = \<lparr>cached_epoch_number = r, cached_epoch_seed = cur\<rparr>"
    using assms by (auto simp: restart_search_def split: prod.splits)
  note res = search_epoch_result [OF s]
  show ?thesis
  proof (cases r)
    case None
    then show ?thesis using res c by (auto simp: num_tries_def epoch_cache_ok_def calculate_seed_from_epoch_def)
  next
    case (Some m)
    then obtain j where j: "j < 30000" "m = word_of_nat j" "(keccak256 ^^ j) zero_hash = seed" "cur = seed"
      using res by (auto simp: num_tries_def)
    then have "unat m = j" by (simp add: unat_of_nat)
    then show ?thesis using j c Some by (auto simp: epoch_cache_ok_def calculate_seed_from_epoch_def)
  qed
qed

text \<open>
   \<open>calculate_epoch_from_seed\<close> inverts \<open>calculate_seed_from_epoch\<close>, whatever earlier calls left in its static variables: an
  epoch it returns has the seed, and it returns none only when no epoch below 30000 has the seed.
\<close>

theorem calculate_epoch_from_seed_correct:
  assumes "epoch_cache_ok c" "cached_epoch_number c \<noteq> Some (- 1)" "calculate_epoch_from_seed seed c = (r, c')"
  shows "epoch_cache_ok c' \<and> (\<forall>n. r = Some n \<longrightarrow> calculate_seed_from_epoch n = seed) \<and>
    (r = None \<longrightarrow> (\<forall>n. unat n < 30000 \<longrightarrow> calculate_seed_from_epoch n \<noteq> seed))"
proof (cases "cached_epoch_number c")
  case None
  then show ?thesis using assms(3) restart_search_correct by (simp add: calculate_epoch_from_seed_def)
next
  case (Some n)
  then have seed: "cached_epoch_seed c = calculate_seed_from_epoch n" using assms(1) by (simp add: epoch_cache_ok_def)
  have "n \<noteq> - 1" using Some assms(2) by simp
  then have "1 + n \<noteq> 0" using eq_neg_iff_add_eq_0 [of n 1] by (simp add: add.commute)
  then have "unat (n + 1) = Suc (unat n)" using unatSuc [of n] by (simp add: add.commute)
  then have nxt: "keccak256 (cached_epoch_seed c) = calculate_seed_from_epoch (n + 1)"
    by (simp add: calculate_seed_from_epoch_def seed)
  consider "seed = cached_epoch_seed c" | "seed \<noteq> cached_epoch_seed c" "keccak256 (cached_epoch_seed c) = seed"
    | "calculate_epoch_from_seed seed c = restart_search seed"
    using Some unfolding calculate_epoch_from_seed_def is_equal_def Let_def by fastforce
  then show ?thesis
  proof cases
    case 1
    then have "r = Some n" "c' = c" using assms(3) Some by (simp_all add: calculate_epoch_from_seed_def is_equal_def)
    then show ?thesis using assms(1) 1 seed by simp
  next
    case 2
    then have "r = Some (n + 1)" "c' = \<lparr>cached_epoch_number = Some (n + 1), cached_epoch_seed = seed\<rparr>"
      using assms(3) Some by (auto simp: calculate_epoch_from_seed_def is_equal_def Let_def)
    then show ?thesis using nxt 2(2) by (simp add: epoch_cache_ok_def)
  next
    case 3
    then have "restart_search seed = (r, c')" using assms(3) by metis
    then show ?thesis by (rule restart_search_correct)
  qed
qed

theorem calculate_epoch_from_seed_correct_witness:
  "\<exists>r c'. calculate_epoch_from_seed zero_hash new_epoch_cache = (r, c') \<and> epoch_cache_ok c' \<and>
     (\<forall>n. r = Some n \<longrightarrow> calculate_seed_from_epoch n = zero_hash)"
proof -
  obtain r c' where x: "calculate_epoch_from_seed zero_hash new_epoch_cache = (r, c')" by fastforce
  moreover have "epoch_cache_ok new_epoch_cache" "cached_epoch_number new_epoch_cache \<noteq> Some (- 1)"
    by (simp_all add: epoch_cache_ok_def new_epoch_cache_def)
  ultimately show ?thesis using calculate_epoch_from_seed_correct [OF _ _ x] by blast
qed

end
