(* ===== verification/Seal.thy ===== *)
theory Seal
  imports Validity_Correct Ethash_Correct
begin

text \<open>
  The hash and the proof of work that the checks of Validity take as parameters, instantiated with the code of the
  repository: the instance of \<open>chain_crypto\<close> with Keccak and Ethash, and what a valid seal means.
\<close>

text \<open>
  The computation of a context may fail to end, or to get its memory; \<open>stuck\<close> stands for whatever is then said of the
  seal, and nothing below depends on it: allocations are taken to succeed, and the computation is shown to end.
\<close>

text \<open>A 256-bit value as the bytes of a \<open>hash256\<close> and back.\<close>

definition to_hash256 :: "bytes32 \<Rightarrow> bytes" where
  "to_hash256 w = be_store 32 (unat w)"

definition from_hash256 :: "bytes \<Rightarrow> bytes32" where
  "from_hash256 h = word_of_nat (be_load h)"

definition ethash_crypto :: "verification_result \<Rightarrow> epoch_context option \<Rightarrow> chain_crypto" where
  "ethash_crypto stuck cached =
     \<lparr>cc_keccak256 = (\<lambda>input. from_hash256 (keccak256 input)),
      cc_boundary = (\<lambda>difficulty. from_hash256 (get_boundary_from_diff difficulty)),
      cc_verify_full = (\<lambda>n header mix nonce boundary.
        case verify_full n (to_hash256 header) (to_hash256 mix) nonce (to_hash256 boundary) cached of
          Some (res, c) \<Rightarrow> res
        | None \<Rightarrow> stuck)\<rparr>"

lemma be_load_to_hash256 [simp]: "be_load (to_hash256 w) = unat w"
  using unsigned_less [of w, where ?'a = nat] by (simp add: to_hash256_def be_load_store)

lemma to_from_hash256: "length h = 32 \<Longrightarrow> to_hash256 (from_hash256 h) = h"
proof -
  assume len: "length h = 32"
  have "be_load h < 2 ^ 256" using be_load_less [of h] len by simp
  then have "unat (from_hash256 h) = be_load h" by (simp add: from_hash256_def unat_of_nat)
  then show ?thesis using be_store_load [of h] len by (simp add: to_hash256_def)
qed

lemma from_to_hash256: "from_hash256 (to_hash256 w) = w"
  by (simp add: from_hash256_def)

lemma to_hash256_eq: "length h = 32 \<Longrightarrow> to_hash256 w = h \<longleftrightarrow> w = from_hash256 h"
  using to_from_hash256 [of h] from_to_hash256 [of w] by auto

lemma length_boundary: "length (get_boundary_from_diff d) = 32"
  by (simp add: get_boundary_from_diff_def Let_def)

lemma length_mix: "length (res_mix_hash (ethash_hash c header nonce)) = 32"
  by (simp add: ethash_hash_def Let_def hash_mix_def)

text \<open>
  C37.  The seal of a header is valid exactly when Ethash, run on the hash of the header without seal and its nonce
  with the context of its epoch, gives the mix hash of the header and a final hash whose product with the difficulty
  is below 2^256; the context left over from earlier headers makes no difference.
\<close>

theorem validate_seal_correct:
  assumes "context_cache_ok cached" and "unat (number h) div 30000 < 65408" and "seal_engine config = kEthash"
  shows "\<exists>c r. create_epoch_context (word_of_nat (unat (number h) div 30000)) = Some c \<and>
    r = ethash_hash c (keccak256 (encode_block_header h True)) (word_of_nat (be_load (hdr_nonce h))) \<and>
    (validate_seal (ethash_crypto stuck cached) h config = kOk \<longleftrightarrow>
       mix_hash h = from_hash256 (res_mix_hash r) \<and>
       (1 < unat (difficulty h) \<longrightarrow> be_load (final_hash r) * unat (difficulty h) < 2 ^ 256))"
proof -
  let ?hash = "keccak256 (encode_block_header h True)" and ?nonce = "word_of_nat (be_load (hdr_nonce h)) :: u64"
  obtain c v where c: "create_epoch_context (word_of_nat (unat (number h) div 30000)) = Some c"
    and v: "verify_full (number h) ?hash (to_hash256 (mix_hash h)) ?nonce (get_boundary_from_diff (difficulty h)) cached = Some (v, c)"
    and ok: "v = VerifyOk \<longleftrightarrow> to_hash256 (mix_hash h) = res_mix_hash (ethash_hash c ?hash ?nonce) \<and>
       (1 < unat (difficulty h) \<longrightarrow> be_load (final_hash (ethash_hash c ?hash ?nonce)) * unat (difficulty h) < 2 ^ 256)"
    using verify_full_result [OF assms(1,2), of ?hash "to_hash256 (mix_hash h)" ?nonce "difficulty h"] by blast
  have "validate_seal (ethash_crypto stuck cached) h config = kOk \<longleftrightarrow> v = VerifyOk"
    using v assms(3)
    by (simp add: validate_seal_iff ethash_crypto_def header_hash_def to_from_hash256 length_boundary)
  with c ok show ?thesis
    by (auto simp: to_hash256_eq length_mix)
qed

theorem validate_seal_correct_witness:
  "\<exists>c. create_epoch_context 400 = Some c \<and>
     (validate_seal (ethash_crypto VerifyInvalidNonce None) ((sample_header 0 12000000 131072)) (sample_config\<lparr>seal_engine := kEthash\<rparr>) = kOk \<longrightarrow>
      mix_hash (sample_header 0 12000000 131072) =
        from_hash256 (res_mix_hash (ethash_hash c (keccak256 (encode_block_header (sample_header 0 12000000 131072) True)) 0)))"
proof -
  let ?h = "sample_header 0 12000000 131072"
  have "context_cache_ok None" "unat (number ?h) div 30000 < 65408" "seal_engine (sample_config\<lparr>seal_engine := kEthash\<rparr>) = kEthash"
    by (simp_all add: context_cache_ok_def sample_header_def)
  from validate_seal_correct [OF this] show ?thesis
    by (auto simp: sample_header_def)
qed

end
