(* ===== verification/Etl.thy ===== *)
theory Etl
  imports Prelude "HOL-Library.List_Lexorder" "HOL-Library.Multiset" "HOL-Library.Monad_Syntax"
begin

text \<open>
  db/silkworm/etl: entries, the buffer that sorts them, the files they are spilled to and the collector that
  merges the files when it loads.

  A file is the byte string not read yet.  Writing and opening files succeeds; a result \<open>None\<close> is an
  exception or a dereferenced null pointer.  The table that is loaded is any state that takes the entries one by one: the
  argument \<open>sink\<close> is the transforming function, or \<open>put\<close> of the table when there is none.  The top of the
  priority queue is the element at an index \<open>pick\<close> chooses; which of several equal entries that
  is, is left open.  Progress messages are not modelled.
\<close>

section \<open>Entries\<close>

datatype etl_entry = Entry (entry_key: bytes) (entry_value: bytes)

definition entry_size :: "etl_entry \<Rightarrow> nat" where
  "entry_size e = length (entry_key e) + length (entry_value e)"

definition entry_less :: "etl_entry \<Rightarrow> etl_entry \<Rightarrow> bool" where
  "entry_less a b =
     (if entry_key a = entry_key b then entry_value a < entry_value b else entry_key a < entry_key b)"

text \<open>The order of the entries, lexicographic in keys and values, is linear.\<close>

instantiation etl_entry :: linorder
begin

definition less_etl_entry :: "etl_entry \<Rightarrow> etl_entry \<Rightarrow> bool" where
  "a < b \<longleftrightarrow> entry_less a b"

definition less_eq_etl_entry :: "etl_entry \<Rightarrow> etl_entry \<Rightarrow> bool" where
  "a \<le> b \<longleftrightarrow> entry_less a b \<or> a = b" for a b :: etl_entry

instance
  by standard
    (auto simp: less_etl_entry_def less_eq_etl_entry_def entry_less_def intro: etl_entry.expand split: if_splits)

end

section \<open>The buffer\<close>

record etl_buffer =
  eb_optimal_size :: u64
  eb_size :: u64
  eb_length :: nat
  eb_buffer :: "etl_entry list"

definition kInitialBufferCapacity :: nat where
  "kInitialBufferCapacity = 32768"

definition new_etl_buffer :: "u64 \<Rightarrow> etl_buffer" where
  "new_etl_buffer optimal_size =
     \<lparr>eb_optimal_size = optimal_size, eb_size = 0, eb_length = 0, eb_buffer = replicate kInitialBufferCapacity (Entry [] [])\<rparr>"

definition eb_put :: "etl_entry \<Rightarrow> etl_buffer \<Rightarrow> etl_buffer" where
  "eb_put entry b =
     (let b = b\<lparr>eb_size := eb_size b + word_of_nat (entry_size entry)\<rparr>;
          b = (if eb_length b = length (eb_buffer b) then b\<lparr>eb_buffer := eb_buffer b @ [entry]\<rparr>
               else b\<lparr>eb_buffer := (eb_buffer b)[eb_length b := entry]\<rparr>)
      in b\<lparr>eb_length := eb_length b + 1\<rparr>)"

definition eb_sort :: "etl_buffer \<Rightarrow> etl_buffer" where
  "eb_sort b = b\<lparr>eb_buffer := sort (take (eb_length b) (eb_buffer b)) @ drop (eb_length b) (eb_buffer b)\<rparr>"

definition eb_entries :: "etl_buffer \<Rightarrow> etl_entry list" where
  "eb_entries b = take (eb_length b) (eb_buffer b)"

definition eb_clear :: "etl_buffer \<Rightarrow> etl_buffer" where
  "eb_clear b = b\<lparr>eb_length := 0, eb_size := 0\<rparr>"

definition eb_overflows :: "etl_buffer \<Rightarrow> bool" where
  "eb_overflows b \<longleftrightarrow> eb_size b \<ge> eb_optimal_size b"

section \<open>Files\<close>

text \<open>A closed file is \<open>None\<close>.\<close>

record file_provider =
  fp_id :: nat
  fp_file :: "bytes option"
  fp_file_size :: u64

definition new_file_provider :: "nat \<Rightarrow> file_provider" where
  "new_file_provider n = \<lparr>fp_id = n, fp_file = None, fp_file_size = 0\<rparr>"

text \<open>The head of an entry: two 32-bit lengths in the byte order of the machine, little-endian.\<close>

definition write_entry :: "etl_entry \<Rightarrow> bytes" where
  "write_entry e =
     le_store 4 (length (entry_key e)) @ le_store 4 (length (entry_value e)) @ entry_key e @ entry_value e"

definition fp_flush :: "etl_buffer \<Rightarrow> file_provider \<Rightarrow> file_provider" where
  "fp_flush b fp =
     fp\<lparr>fp_file_size := eb_size b + word_of_nat (length (eb_entries b)) * 8,
        fp_file := Some (concat (map write_entry (eb_entries b)))\<rparr>"

definition fp_reset :: "file_provider \<Rightarrow> file_provider" where
  "fp_reset fp = fp\<lparr>fp_file_size := 0, fp_file := None\<rparr>"

definition fp_read_entry :: "file_provider \<Rightarrow> ((etl_entry \<times> nat) option \<times> file_provider) option" where
  "fp_read_entry fp =
     (case fp_file fp of
        None \<Rightarrow> None
      | Some data \<Rightarrow>
          if fp_file_size fp = 0 then None
          else if length data < 8 then Some (None, fp_reset fp)
          else
            let n = le_load (take 4 data); m = le_load (take 4 (drop 4 data)); data = drop 8 data
            in if length data < n + m then None
               else Some (Some (Entry (take n data) (take m (drop n data)), fp_id fp), fp\<lparr>fp_file := Some (drop (n + m) data)\<rparr>))"

section \<open>The collector\<close>

record collector =
  col_buffer :: etl_buffer
  col_file_providers :: "file_provider option list"
  col_size :: u64

definition new_collector :: "u64 \<Rightarrow> collector" where
  "new_collector optimal_size = \<lparr>col_buffer = new_etl_buffer optimal_size, col_file_providers = [], col_size = 0\<rparr>"

definition flush_buffer :: "collector \<Rightarrow> collector" where
  "flush_buffer c =
     (if eb_size (col_buffer c) \<noteq> 0 then
        let b = eb_sort (col_buffer c);
            fp = fp_flush b (new_file_provider (length (col_file_providers c)))
        in c\<lparr>col_file_providers := col_file_providers c @ [Some fp], col_buffer := eb_clear b\<rparr>
      else c)"

definition collect :: "etl_entry \<Rightarrow> collector \<Rightarrow> collector" where
  "collect entry c =
     (let c = c\<lparr>col_buffer := eb_put entry (col_buffer c), col_size := col_size c + 1\<rparr>
      in if eb_overflows (col_buffer c) then flush_buffer c else c)"

text \<open>Loading entries one by one until the sink throws.\<close>

fun feed :: "(etl_entry \<Rightarrow> 't \<Rightarrow> 't option) \<Rightarrow> etl_entry list \<Rightarrow> 't \<Rightarrow> 't option" where
  "feed sink [] t = Some t"
| "feed sink (e # es) t = (case sink e t of None \<Rightarrow> None | Some t \<Rightarrow> feed sink es t)"

text \<open>One record of each file goes to the queue.\<close>

function read_heads :: "nat \<Rightarrow> file_provider option list \<Rightarrow> (etl_entry \<times> nat) list \<Rightarrow>
    (file_provider option list \<times> (etl_entry \<times> nat) list) option" where
  "read_heads i fps q =
     (if i < length fps then
        do {
          fp \<leftarrow> fps ! i;
          (item, fp) \<leftarrow> fp_read_entry fp;
          read_heads (i + 1) (fps[i := Some fp]) (case item of None \<Rightarrow> q | Some x \<Rightarrow> q @ [x])
        }
      else Some (fps, q))"
  by auto
termination
  by (relation "measure (\<lambda>(i, fps, q). length fps - i)") auto

declare read_heads.simps [simp del]

partial_function (option) merge_loop :: "((etl_entry \<times> nat) list \<Rightarrow> nat) \<Rightarrow> (etl_entry \<Rightarrow> 't \<Rightarrow> 't option) \<Rightarrow>
    file_provider option list \<Rightarrow> (etl_entry \<times> nat) list \<Rightarrow> 't \<Rightarrow> (file_provider option list \<times> 't) option" where
  "merge_loop pick sink fps q t =
     (if q = [] then Some (fps, t)
      else
        do {
          let (e, i) = q ! pick q;
          fp \<leftarrow> (if i < length fps then fps ! i else None);
          t \<leftarrow> sink e t;
          (item, fp) \<leftarrow> fp_read_entry fp;
          let q = take (pick q) q @ drop (pick q + 1) q;
          (case item of
             Some x \<Rightarrow> merge_loop pick sink (fps[i := Some fp]) (q @ [x]) t
           | None \<Rightarrow> merge_loop pick sink (fps[i := None]) q t)
        })"

definition load :: "((etl_entry \<times> nat) list \<Rightarrow> nat) \<Rightarrow> (etl_entry \<Rightarrow> 't \<Rightarrow> 't option) \<Rightarrow> collector \<Rightarrow> 't \<Rightarrow>
    (collector \<times> 't) option" where
  "load pick sink c t =
     (if col_size c = 0 then Some (c, t)
      else if col_file_providers c = [] then
        do {
          let b = eb_sort (col_buffer c);
          t \<leftarrow> feed sink (eb_entries b) t;
          Some (c\<lparr>col_buffer := eb_clear b\<rparr>, t)
        }
      else
        do {
          let c = flush_buffer c;
          (fps, q) \<leftarrow> read_heads 0 (col_file_providers c) [];
          (fps, t) \<leftarrow> merge_loop pick sink fps q t;
          Some (c\<lparr>col_file_providers := fps, col_size := 0\<rparr>, t)
        })"

end
