(* ===== verification/Etl_Correct.thy ===== *)
theory Etl_Correct
  imports Etl
begin

text \<open>
  Whatever is collected, in memory or through files, is loaded once each and in order: \<open>load\<close> feeds the sink
  the sorted list of the collected entries.
\<close>

section \<open>Files\<close>

definition small :: "etl_entry \<Rightarrow> bool" where
  "small e \<longleftrightarrow> length (entry_key e) < 2 ^ 32 \<and> length (entry_value e) < 2 ^ 32"

definition holds_run :: "file_provider option \<Rightarrow> nat \<Rightarrow> etl_entry list \<Rightarrow> bool" where
  "holds_run x i es =
     (\<exists>fp. x = Some fp \<and> fp_id fp = i \<and> fp_file_size fp \<noteq> 0 \<and> fp_file fp = Some (concat (map write_entry es)) \<and>
           list_all small es)"

lemma read_written:
  assumes "fp_file fp = Some (write_entry e @ rest)" and "fp_file_size fp \<noteq> 0" and "small e"
  shows "fp_read_entry fp = Some (Some (e, fp_id fp), fp\<lparr>fp_file := Some rest\<rparr>)"
  using assms by (cases e) (simp add: fp_read_entry_def write_entry_def small_def le_load_store Let_def)

lemma read_run:
  assumes "holds_run (Some fp) i es"
  shows "es = [] \<Longrightarrow> \<exists>fp'. fp_read_entry fp = Some (None, fp')"
    and "es = e # es' \<Longrightarrow> \<exists>fp'. fp_read_entry fp = Some (Some (e, i), fp') \<and> holds_run (Some fp') i es'"
  using assms read_written [of fp e "concat (map write_entry es')"]
  by (auto simp: holds_run_def fp_read_entry_def)

section \<open>The merge\<close>

definition picks_min :: "((etl_entry \<times> nat) list \<Rightarrow> nat) \<Rightarrow> bool" where
  "picks_min pick \<longleftrightarrow> (\<forall>q. q \<noteq> [] \<longrightarrow> pick q < length q \<and> (\<forall>x\<in>set q. fst (q ! pick q) \<le> fst x))"

definition runs_of :: "(nat \<Rightarrow> etl_entry list) \<Rightarrow> (etl_entry \<times> nat) list \<Rightarrow> etl_entry list" where
  "runs_of R q = concat (map (\<lambda>(e, i). e # R i) q)"

definition queue_ok :: "file_provider option list \<Rightarrow> (nat \<Rightarrow> etl_entry list) \<Rightarrow> (etl_entry \<times> nat) list \<Rightarrow> bool" where
  "queue_ok fps R q =
     (distinct (map snd q) \<and>
      (\<forall>(e, i)\<in>set q. i < length fps \<and> holds_run (fps ! i) i (R i) \<and> sorted (e # R i)))"

lemma sort_cong_mset: "mset xs = mset ys \<Longrightarrow> sort xs = sort ys" for xs ys :: "'a::linorder list"
  by (rule properties_for_sort) simp_all

lemma sort_step:
  assumes "mset xs = add_mset e (mset ys)" and "\<forall>x\<in>set xs. e \<le> x"
  shows "sort xs = e # sort ys"
proof (rule properties_for_sort)
  have "set ys \<subseteq> set xs" using assms(1) by (metis mset_subset_eq_add_right set_mset_mono set_mset_mset union_mset_add_mset_right add_mset_add_single mset_subset_eq_add_left)
  then show "sorted (e # sort ys)" using assms(2) by auto
qed (use assms(1) in simp)

lemma runs_of_min:
  assumes "queue_ok fps R q" and "\<forall>x\<in>set q. e \<le> fst x"
  shows "\<forall>x\<in>set (runs_of R q). e \<le> x"
  using assms by (fastforce simp: runs_of_def queue_ok_def)

lemma runs_of_cong: "(\<forall>x\<in>set q. R (snd x) = R' (snd x)) \<Longrightarrow> runs_of R q = runs_of R' q"
  unfolding runs_of_def by (rule arg_cong [where f = concat], rule map_cong) auto

lemma merge_loop_correct:
  assumes "picks_min pick" and "queue_ok fps R q"
  shows "map_option snd (merge_loop pick sink fps q t) = feed sink (sort (runs_of R q)) t"
  using assms(2)
proof (induction "length (runs_of R q)" arbitrary: fps R q t rule: less_induct)
  case less
  show ?case
  proof (cases "q = []")
    case True
    then show ?thesis by (simp add: merge_loop.simps runs_of_def)
  next
    case False
    define j where "j = pick q"
    obtain e i where top: "q ! j = (e, i)" by (cases "q ! j")
    have j: "j < length q" "\<forall>x\<in>set q. e \<le> fst x"
      using assms(1) [unfolded picks_min_def, rule_format, OF False] top by (auto simp: j_def)
    define q' where "q' = take j q @ drop (Suc j) q"
    have q: "mset q = add_mset (e, i) (mset q')"
      using j(1) top by (subst id_take_nth_drop [of j q]) (auto simp: q'_def)
    then have mem: "set q = insert (e, i) (set q')" by (metis set_mset_add_mset_insert set_mset_mset)
    have "distinct (map snd q)" using less.prems by (simp add: queue_ok_def)
    then have "distinct (i # map snd q')"
      using q by (metis mset_map mset.simps(2) image_mset_add_mset snd_conv mset_eq_imp_distinct_iff)
    then have dist: "\<forall>x\<in>set q'. snd x \<noteq> i" "distinct (map snd q')" by auto
    have rest: "\<forall>(e, i)\<in>set q'. i < length fps \<and> holds_run (fps ! i) i (R i) \<and> sorted (e # R i)"
      using less.prems mem by (auto simp: queue_ok_def)
    have run: "i < length fps" "holds_run (fps ! i) i (R i)" "sorted (e # R i)"
      using less.prems mem by (auto simp: queue_ok_def)
    then obtain fp where fp: "fps ! i = Some fp" by (auto simp: holds_run_def)
    have "mset (runs_of R q) = sum_mset (image_mset (\<lambda>(e, i). add_mset e (mset (R i))) (mset q))"
      by (simp add: runs_of_def mset_concat case_prod_unfold comp_def flip: sum_mset_sum_list)
    then have ms: "mset (runs_of R q) = add_mset e (mset (R i @ runs_of R q'))"
      by (simp add: q runs_of_def mset_concat case_prod_unfold comp_def flip: sum_mset_sum_list)
    have sorted: "sort (runs_of R q) = e # sort (R i @ runs_of R q')"
      using sort_step [OF ms runs_of_min [OF less.prems j(2)]] .
    have smaller: "length (R i @ runs_of R q') < length (runs_of R q)"
      using arg_cong [OF ms, of size] by simp
    show ?thesis
    proof (cases "R i")
      case Nil
      then obtain fp' where read: "fp_read_entry fp = Some (None, fp')" using read_run run(2) fp by metis
      have "queue_ok (fps[i := None]) R q'"
        using rest dist by (fastforce simp: queue_ok_def nth_list_update)
      then show ?thesis
        using less.hyps [of R q' "fps[i := None]"] smaller Nil sorted False top fp run(1) read
        by (subst merge_loop.simps)
          (auto simp: j_def [symmetric] q'_def [symmetric] Let_def split: option.split Option.bind_splits)
    next
      case (Cons x xs)
      then obtain fp' where read: "fp_read_entry fp = Some (Some (x, i), fp')" "holds_run (Some fp') i xs"
        using read_run(2) [of fp i "R i" x xs] run(2) fp by auto
      let ?R = "R(i := xs)"
      have same: "runs_of ?R q' = runs_of R q'" using dist(1) by (intro runs_of_cong) auto
      have "queue_ok (fps[i := Some fp']) ?R (q' @ [(x, i)])"
        using rest dist run read(2) Cons by (fastforce simp: queue_ok_def nth_list_update)
      moreover have "length (runs_of ?R (q' @ [(x, i)])) < length (runs_of R q)"
        using smaller Cons same by (simp add: runs_of_def)
      moreover have "sort (runs_of ?R (q' @ [(x, i)])) = sort (R i @ runs_of R q')"
        using same Cons by (intro sort_cong_mset) (simp add: runs_of_def)
      ultimately show ?thesis
        using less.hyps [of ?R "q' @ [(x, i)]" "fps[i := Some fp']"] sorted False top fp run(1) read(1)
        by (subst merge_loop.simps)
          (auto simp: j_def [symmetric] q'_def [symmetric] Let_def split: option.split Option.bind_splits)
    qed
  qed
qed

section \<open>Collecting\<close>

lemma read_heads_correct:
  assumes "length fps = length runs" and "i \<le> length runs"
    and "\<forall>j<length runs. runs ! j \<noteq> []" and "\<forall>j<i. holds_run (fps ! j) j (tl (runs ! j))"
    and "\<forall>j<length runs. i \<le> j \<longrightarrow> holds_run (fps ! j) j (runs ! j)"
  shows "\<exists>fps'. read_heads i fps (map (\<lambda>j. (hd (runs ! j), j)) [0..<i]) =
      Some (fps', map (\<lambda>j. (hd (runs ! j), j)) [0..<length runs]) \<and>
    length fps' = length runs \<and> (\<forall>j<length runs. holds_run (fps' ! j) j (tl (runs ! j)))"
  using assms
proof (induction "length runs - i" arbitrary: i fps)
  case 0
  then show ?case by (simp add: read_heads.simps)
next
  case (Suc n)
  then have i: "i < length runs" by simp
  obtain fp where fp: "fps ! i = Some fp" "holds_run (Some fp) i (runs ! i)"
    using Suc.prems(5) i by (auto simp: holds_run_def)
  obtain e es where run: "runs ! i = e # es" using Suc.prems(3) i by (auto simp: neq_Nil_conv)
  obtain fp' where read: "fp_read_entry fp = Some (Some (e, i), fp')" "holds_run (Some fp') i es"
    using read_run(2) [OF fp(2) run] by blast
  have "\<exists>fps'. read_heads (Suc i) (fps[i := Some fp']) (map (\<lambda>j. (hd (runs ! j), j)) [0..<Suc i]) =
      Some (fps', map (\<lambda>j. (hd (runs ! j), j)) [0..<length runs]) \<and>
    length fps' = length runs \<and> (\<forall>j<length runs. holds_run (fps' ! j) j (tl (runs ! j)))"
    using Suc.prems Suc.hyps(2) i read(2) run by (intro Suc.hyps(1)) (auto simp: nth_list_update less_Suc_eq)
  then show ?case
    using i fp(1) read(1) run Suc.prems(1) by (subst read_heads.simps) simp
qed

definition collected :: "etl_entry list \<Rightarrow> collector \<Rightarrow> bool" where
  "collected es c =
     (\<exists>runs b. length (col_file_providers c) = length runs \<and>
       (\<forall>j<length runs. holds_run (col_file_providers c ! j) j (runs ! j) \<and> runs ! j \<noteq> [] \<and> sorted (runs ! j)) \<and>
       eb_entries (col_buffer c) = b \<and> mset es = mset (concat runs) + mset b \<and>
       eb_length (col_buffer c) \<le> length (eb_buffer (col_buffer c)) \<and>
       eb_size (col_buffer c) = word_of_nat (\<Sum>e\<leftarrow>b. entry_size e) \<and> col_size c = word_of_nat (length es))"

lemma eb_put_entries:
  assumes "eb_length b \<le> length (eb_buffer b)"
  shows "eb_entries (eb_put e b) = eb_entries b @ [e]" "eb_length (eb_put e b) \<le> length (eb_buffer (eb_put e b))"
  using assms by (auto simp: eb_put_def eb_entries_def Let_def take_Suc_conv_app_nth)

lemma eb_sort_entries:
  assumes "eb_length b \<le> length (eb_buffer b)"
  shows "eb_entries (eb_sort b) = sort (eb_entries b)" "eb_length (eb_sort b) \<le> length (eb_buffer (eb_sort b))"
  using assms by (auto simp: eb_sort_def eb_entries_def)

lemma eb_size_sort [simp]: "eb_size (eb_sort b) = eb_size b"
  by (simp add: eb_sort_def)

lemma flush_buffer_collected:
  assumes "collected es c" and "list_all small es" and "(\<Sum>e\<leftarrow>es. entry_size e + 8) < 2 ^ 64"
  shows "collected es (flush_buffer c)"
    and "(\<forall>e\<in>set es. entry_size e \<noteq> 0) \<Longrightarrow> eb_entries (col_buffer (flush_buffer c)) = []"
proof -
  obtain runs where runs: "length (col_file_providers c) = length runs"
      "\<forall>j<length runs. holds_run (col_file_providers c ! j) j (runs ! j) \<and> runs ! j \<noteq> [] \<and> sorted (runs ! j)"
      "mset es = mset (concat runs) + mset (eb_entries (col_buffer c))"
      "eb_length (col_buffer c) \<le> length (eb_buffer (col_buffer c))"
      "eb_size (col_buffer c) = word_of_nat (\<Sum>e\<leftarrow>eb_entries (col_buffer c). entry_size e)"
      "col_size c = word_of_nat (length es)"
    using assms(1) by (auto simp: collected_def)
  let ?b = "eb_entries (col_buffer c)"
  have sub: "set ?b \<subseteq> set es" using runs(3) by (metis mset_eq_setD set_append set_mset_mset set_mset_union Un_upper2)
  have "(\<Sum>e\<leftarrow>es. entry_size e + 8) = (\<Sum>e\<leftarrow>concat runs. entry_size e + 8) + (\<Sum>e\<leftarrow>?b. entry_size e + 8)"
    using arg_cong [OF runs(3), of "\<lambda>m. sum_mset (image_mset (\<lambda>e. entry_size e + 8) m)"]
    by (simp add: sum_mset_sum_list flip: mset_map)
  then have b: "(\<Sum>e\<leftarrow>?b. entry_size e + 8) < 2 ^ 64" using assms(3) by simp
  moreover have le: "(\<Sum>e\<leftarrow>?b. entry_size e) + 8 * length ?b = (\<Sum>e\<leftarrow>?b. entry_size e + 8)"
    by (simp add: sum_list_addf sum_list_triv)
  ultimately have size: "eb_size (col_buffer c) = 0 \<longleftrightarrow> (\<Sum>e\<leftarrow>?b. entry_size e) = 0"
    using runs(5) unat_of_nat [where ?'a = 64, of "\<Sum>e\<leftarrow>?b. entry_size e"] by (simp flip: unat_zero)
  show "eb_entries (col_buffer (flush_buffer c)) = []" if "\<forall>e\<in>set es. entry_size e \<noteq> 0"
  proof (cases "eb_size (col_buffer c) = 0")
    case True
    then have "?b = []" using size that sub by (cases ?b) auto
    then show ?thesis using True by (simp add: flush_buffer_def)
  qed (simp add: flush_buffer_def Let_def eb_entries_def eb_clear_def)
  show "collected es (flush_buffer c)"
  proof (cases "eb_size (col_buffer c) = 0")
    case True
    then show ?thesis using assms(1) by (simp add: flush_buffer_def)
  next
    case False
    let ?s = "eb_sort (col_buffer c)"
    let ?fp = "fp_flush ?s (new_file_provider (length (col_file_providers c)))"
    have ne: "?b \<noteq> []" using size False by auto
    have ne': "sort ?b \<noteq> []" using ne by (metis length_sort length_0_conv)
    have "(word_of_nat ((\<Sum>e\<leftarrow>?b. entry_size e) + 8 * length ?b) :: u64) \<noteq> 0"
      using b le ne unat_of_nat [where ?'a = 64, of "(\<Sum>e\<leftarrow>?b. entry_size e) + 8 * length ?b"]
      by (simp flip: unat_zero)
    then have "eb_size (col_buffer c) + word_of_nat (length ?b) * 8 \<noteq> 0" using runs(5) by (simp add: mult.commute)
    then have "holds_run (Some ?fp) (length runs) (sort ?b)"
      using assms(2) sub runs(1)
      by (auto simp: holds_run_def fp_flush_def new_file_provider_def eb_sort_entries [OF runs(4)] list_all_iff)
    then have "collected es (c\<lparr>col_file_providers := col_file_providers c @ [Some ?fp], col_buffer := eb_clear ?s\<rparr>)"
      unfolding collected_def using runs eb_sort_entries(2) [OF runs(4)] ne'
      by (intro exI [of _ "runs @ [sort ?b]"] exI [of _ "[]"])
        (simp add: nth_append less_Suc_eq eb_clear_def, simp add: eb_entries_def)
    then show ?thesis using False by (simp add: flush_buffer_def Let_def)
  qed
qed

lemma collect_collected:
  assumes "collected es c" and "list_all small (es @ [e])" and "(\<Sum>e\<leftarrow>es @ [e]. entry_size e + 8) < 2 ^ 64"
  shows "collected (es @ [e]) (collect e c)"
proof -
  let ?c = "c\<lparr>col_buffer := eb_put e (col_buffer c), col_size := col_size c + 1\<rparr>"
  obtain runs where runs: "length (col_file_providers c) = length runs"
      "\<forall>j<length runs. holds_run (col_file_providers c ! j) j (runs ! j) \<and> runs ! j \<noteq> [] \<and> sorted (runs ! j)"
      "mset es = mset (concat runs) + mset (eb_entries (col_buffer c))"
      "eb_length (col_buffer c) \<le> length (eb_buffer (col_buffer c))"
      "eb_size (col_buffer c) = word_of_nat (\<Sum>e\<leftarrow>eb_entries (col_buffer c). entry_size e)"
      "col_size c = word_of_nat (length es)"
    using assms(1) by (auto simp: collected_def)
  have "eb_size (eb_put e (col_buffer c)) = eb_size (col_buffer c) + word_of_nat (entry_size e)"
    by (simp add: eb_put_def Let_def)
  then have "collected (es @ [e]) ?c"
    unfolding collected_def using runs eb_put_entries [OF runs(4), of e]
    by (intro exI [of _ runs] exI [of _ "eb_entries (col_buffer c) @ [e]"]) simp
  then show ?thesis
    using flush_buffer_collected(1) [OF _ assms(2,3), of ?c] by (simp add: collect_def Let_def)
qed

definition collect_all :: "etl_entry list \<Rightarrow> collector \<Rightarrow> collector" where
  "collect_all es c = foldl (\<lambda>c e. collect e c) c es"

lemma collect_all_collected:
  "list_all small es \<Longrightarrow> (\<Sum>e\<leftarrow>es. entry_size e + 8) < 2 ^ 64 \<Longrightarrow> collected es (collect_all es (new_collector n))"
proof (induction es rule: rev_induct)
  case Nil
  show ?case by (auto simp: collected_def collect_all_def new_collector_def new_etl_buffer_def eb_entries_def)
next
  case (snoc e es)
  then show ?case
    using collect_collected [of es "collect_all es (new_collector n)" e] by (simp add: collect_all_def)
qed

section \<open>Loading\<close>

lemma load_files:
  assumes "picks_min pick" and "length fps = length runs"
    and "\<forall>j<length runs. holds_run (fps ! j) j (runs ! j) \<and> runs ! j \<noteq> [] \<and> sorted (runs ! j)"
  shows "\<exists>fps' q. read_heads 0 fps [] = Some (fps', q) \<and>
    map_option snd (merge_loop pick sink fps' q t) = feed sink (sort (concat runs)) t"
proof -
  let ?q = "map (\<lambda>j. (hd (runs ! j), j)) [0..<length runs]"
  obtain fps' where fps': "read_heads 0 fps [] = Some (fps', ?q)" "length fps' = length runs"
      "\<forall>j<length runs. holds_run (fps' ! j) j (tl (runs ! j))"
    using read_heads_correct [of fps runs 0] assms by auto
  have hd_tl: "hd (runs ! j) # tl (runs ! j) = runs ! j" if "j < length runs" for j
    using assms(3) that by simp
  then have "sorted (hd (runs ! j) # tl (runs ! j))" if "j < length runs" for j
    using assms(3) that by metis
  then have "queue_ok fps' (\<lambda>j. tl (runs ! j)) ?q"
    using fps' by (auto simp: queue_ok_def comp_def simp del: sorted_simps)
  moreover have "map (\<lambda>j. hd (runs ! j) # tl (runs ! j)) [0..<length runs] = map (\<lambda>j. runs ! j) [0..<length runs]"
    using hd_tl by simp
  then have "runs_of (\<lambda>j. tl (runs ! j)) ?q = concat runs"
    by (simp add: runs_of_def comp_def map_nth)
  ultimately show ?thesis
    using merge_loop_correct [OF assms(1), of fps' "\<lambda>j. tl (runs ! j)" ?q sink t] fps'(1) by auto
qed

lemma load_spilled:
  assumes "col_size c \<noteq> 0" and "col_file_providers c \<noteq> []"
    and "read_heads 0 (col_file_providers (flush_buffer c)) [] = Some (fps, q)"
  shows "map_option snd (load pick sink c t) = map_option snd (merge_loop pick sink fps q t)"
proof -
  have "load pick sink c t =
      merge_loop pick sink fps q t \<bind> (\<lambda>(fps, t). Some ((flush_buffer c)\<lparr>col_file_providers := fps, col_size := 0\<rparr>, t))"
    using assms by (simp add: load_def Let_def)
  then show ?thesis by (cases "merge_loop pick sink fps q t") auto
qed

lemma load_feeds:
  assumes "picks_min pick" and "\<forall>e\<in>set es. small e \<and> entry_size e \<noteq> 0" and "(\<Sum>e\<leftarrow>es. entry_size e + 8) < 2 ^ 64"
  shows "map_option snd (load pick sink (collect_all es (new_collector optimal_size)) t) = feed sink (sort es) t"
proof -
  let ?c = "collect_all es (new_collector optimal_size)"
  have small: "list_all small es" using assms(2) by (simp add: list_all_iff)
  note col = collect_all_collected [OF small assms(3), of optimal_size]
  have "length es \<le> (\<Sum>e\<leftarrow>es. entry_size e + 8)" by (induction es) auto
  then have size: "col_size ?c = 0 \<longleftrightarrow> es = []"
    using col assms(3) unat_of_nat [where ?'a = 64, of "length es"] by (auto simp: collected_def simp flip: unat_zero)
  show ?thesis
  proof (cases "es = [] \<or> col_file_providers ?c = []")
    case True
    have "mset es = mset (eb_entries (col_buffer ?c))" "eb_length (col_buffer ?c) \<le> length (eb_buffer (col_buffer ?c))"
      if "col_file_providers ?c = []" using col that by (auto simp: collected_def)
    then have "sort (eb_entries (col_buffer ?c)) = sort es" if "col_file_providers ?c = []"
      using that by (intro sort_cong_mset) simp
    moreover have "eb_entries (eb_sort (col_buffer ?c)) = sort (eb_entries (col_buffer ?c))"
      using col by (auto simp: collected_def eb_sort_entries)
    ultimately show ?thesis
      using True size by (cases "feed sink (sort es) t") (auto simp: load_def Let_def)
  next
    case False
    have flushed: "collected es (flush_buffer ?c)" "eb_entries (col_buffer (flush_buffer ?c)) = []"
      using flush_buffer_collected [OF col small assms(3)] assms(2) by auto
    then obtain runs where runs: "length (col_file_providers (flush_buffer ?c)) = length runs"
      "\<forall>j<length runs. holds_run (col_file_providers (flush_buffer ?c) ! j) j (runs ! j) \<and> runs ! j \<noteq> [] \<and> sorted (runs ! j)"
      "mset es = mset (concat runs)"
      by (auto simp: collected_def)
    obtain fps' q where merge: "read_heads 0 (col_file_providers (flush_buffer ?c)) [] = Some (fps', q)"
      "map_option snd (merge_loop pick sink fps' q t) = feed sink (sort (concat runs)) t"
      using load_files [OF assms(1) runs(1,2), of sink t] by (elim exE conjE) (rule that)
    have "sort (concat runs) = sort es" using runs(3) by (intro sort_cong_mset) simp
    then have "map_option snd (merge_loop pick sink fps' q t) = feed sink (sort es) t" using merge(2) by simp
    moreover have "col_size ?c \<noteq> 0" "col_file_providers ?c \<noteq> []" using False size by auto
    ultimately show ?thesis using load_spilled [OF _ _ merge(1), of pick sink t] by simp
  qed
qed

text \<open>
  C20. Whatever entries are collected, and however often the buffer overflows to a file, loading feeds the
  sink exactly the collected entries, each as often as it was collected, in increasing order of keys and
  values: the external merge sort equals sorting in memory, for every way the priority queue breaks
  ties.  In particular loading returns whenever the sink accepts the sorted entries.
\<close>

theorem load_correct:
  assumes "picks_min pick" and "\<forall>e\<in>set es. small e \<and> entry_size e \<noteq> 0" and "(\<Sum>e\<leftarrow>es. entry_size e + 8) < 2 ^ 64"
  shows "map_option snd (load pick sink (collect_all es (new_collector optimal_size)) t) = feed sink (sort es) t"
  using assms by (rule load_feeds)

text \<open>A queue that takes the first of the smallest entries.\<close>

fun first_min :: "(etl_entry \<times> nat) list \<Rightarrow> nat" where
  "first_min [] = 0"
| "first_min [x] = 0"
| "first_min (x # y # q) = (let i = first_min (y # q) in if fst x \<le> fst ((y # q) ! i) then 0 else Suc i)"

lemma first_min_picks_min: "picks_min first_min"
proof -
  have "q \<noteq> [] \<longrightarrow> first_min q < length q \<and> (\<forall>x\<in>set q. fst (q ! first_min q) \<le> fst x)" for q
  proof (induction q rule: first_min.induct)
    case (3 x y q)
    then show ?case by (fastforce simp: Let_def)
  qed auto
  then show ?thesis by (simp add: picks_min_def)
qed

lemma load_correct_witness:
  "map_option snd (load first_min (\<lambda>e t. Some (t @ [e])) (collect_all [Entry [2] [7], Entry [1] [8]] (new_collector 3)) []) =
    Some [Entry [1] [8], Entry [2] [7]]"
  using load_correct [OF first_min_picks_min, of "[Entry [2] [7], Entry [1] [8]]" "\<lambda>e t. Some (t @ [e])" 3 "[]"]
  by (simp add: small_def entry_size_def less_eq_etl_entry_def entry_less_def)

end
