(* ===== verification/Util.thy ===== *)
theory Util
  imports Rlp
begin

text \<open>
  core/silkworm/common/util.hpp and util.cpp: padding and cropping of byte strings, the view of a hash without
  its leading zeros, prefixes, and hexadecimal strings.  A view that is returned into the supplied buffer is the
  string it shows.
\<close>

unbundle bit_operations_syntax

section \<open>Byte strings\<close>

definition left_pad :: "bytes \<Rightarrow> nat \<Rightarrow> bytes" where
  "left_pad view min_size =
     (if length view \<ge> min_size then view else replicate (min_size - length view) 0 @ view)"

definition right_pad :: "bytes \<Rightarrow> nat \<Rightarrow> bytes" where
  "right_pad view min_size = (if length view \<ge> min_size then view else resize min_size 0 view)"

definition to_address :: "bytes \<Rightarrow> address" where
  "to_address bs = (let n = min (length bs) 20 in word_of_nat (be_load (replicate (20 - n) 0 @ take n bs)))"

definition to_bytes32 :: "bytes \<Rightarrow> bytes32" where
  "to_bytes32 bs = (let n = min (length bs) 32 in word_of_nat (be_load (replicate (32 - n) 0 @ take n bs)))"

definition zeroless_view :: "bytes32 \<Rightarrow> bytes" where
  "zeroless_view hash = dropWhile (\<lambda>b. b = 0) (full_view_bytes32 hash)"

definition has_prefix :: "bytes \<Rightarrow> bytes \<Rightarrow> bool" where
  "has_prefix s p \<longleftrightarrow> take (length p) s = p"

section \<open>Hexadecimal strings\<close>

definition kHexDigits :: string where
  "kHexDigits = ''0123456789abcdef''"

fun to_hex :: "bytes \<Rightarrow> string" where
  "to_hex [] = []"
| "to_hex (x # bs) =
     (let lo = kHexDigits ! unat (x AND 0x0f); hi = kHexDigits ! unat (drop_bit 4 x)
      in hi # lo # to_hex bs)"

definition decode_hex_digit :: "char \<Rightarrow> nat option" where
  "decode_hex_digit ch =
     (let c = of_char ch :: nat
      in if of_char (CHR ''0'') \<le> c \<and> c \<le> of_char (CHR ''9'') then Some (c - of_char (CHR ''0''))
         else if of_char (CHR ''a'') \<le> c \<and> c \<le> of_char (CHR ''f'') then Some (c - of_char (CHR ''a'') + 10)
         else if of_char (CHR ''A'') \<le> c \<and> c \<le> of_char (CHR ''F'') then Some (c - of_char (CHR ''A'') + 10)
         else None)"

text \<open>The loop of \<open>from_hex\<close> over pairs of digits; the string has even length.\<close>

fun from_hex_digits :: "string \<Rightarrow> bytes option" where
  "from_hex_digits (hi # lo # hex) =
     (case decode_hex_digit hi of
        None \<Rightarrow> None
      | Some v \<Rightarrow>
          let carry = v * 16
          in case decode_hex_digit lo of
               None \<Rightarrow> None
             | Some w \<Rightarrow> map_option (\<lambda>out. word_of_nat (carry OR w) # out) (from_hex_digits hex))"
| "from_hex_digits _ = Some []"

definition from_hex :: "string \<Rightarrow> bytes option" where
  "from_hex hex =
     (let hex = (if length hex \<ge> 2 \<and> hex ! 0 = CHR ''0'' \<and> (hex ! 1 = CHR ''x'' \<or> hex ! 1 = CHR ''X'')
                 then drop 2 hex else hex)
      in if length hex mod 2 \<noteq> 0 then None else from_hex_digits hex)"

section \<open>Lemmas\<close>

lemma nibbles_of_byte:
  "unat (drop_bit 4 a) = unat a div 16" "unat (a AND 0xF) = unat a mod 16" for a :: u8
proof -
  show "unat (drop_bit 4 a) = unat a div 16" by (simp add: drop_bit_eq_div unat_div)
  have "a AND 0xF = take_bit 4 a" by (simp add: take_bit_eq_mask mask_eq_exp_minus_1)
  then show "unat (a AND 0xF) = unat a mod 16" by (simp add: take_bit_eq_mod unat_mod)
qed

lemma nibbles_of_byte_less: "unat (drop_bit 4 a) < 16" "unat (a AND 0xF) < 16" for a :: u8
  using unat_byte_less [of a] by (simp_all add: nibbles_of_byte)

lemma zeroless_view_eq: "zeroless_view h = be_min (unat h)"
proof -
  let ?v = "full_view_bytes32 h"
  let ?z = "takeWhile (\<lambda>b. b = 0) ?v"
  have v: "?v = ?z @ zeroless_view h" by (simp add: zeroless_view_def)
  have z: "?z = replicate (length ?z) 0"
    by (rule replicate_length_same [symmetric]) (auto dest: set_takeWhileD)
  have "be_load ?v = be_load (?z @ zeroless_view h)" by (rule arg_cong [OF v])
  also have "\<dots> = be_load (zeroless_view h)" by (subst z) (rule be_load_zeros)
  finally have "be_load ?v = be_load (zeroless_view h)" .
  moreover have "be_load ?v = unat h"
    using unat_word_of_be_load [where ?'a = 256, of 32 ?v] by (simp add: full_view_bytes32_load)
  moreover have "zeroless_view h = [] \<or> hd (zeroless_view h) \<noteq> 0"
    using hd_dropWhile [of "\<lambda>b. b = 0" ?v] unfolding zeroless_view_def by blast
  ultimately show ?thesis using be_min_be_load [of "zeroless_view h"] by simp
qed

lemma length_zeroless_view: "length (zeroless_view h) \<le> 32"
  using length_dropWhile_le [of "\<lambda>b. b = 0" "full_view_bytes32 h"] by (simp add: zeroless_view_def)

lemma to_bytes32_full_view: "to_bytes32 (full_view_bytes32 h) = h"
  by (simp add: to_bytes32_def full_view_bytes32_load)

lemma to_bytes32_zeroless_view: "to_bytes32 (zeroless_view h) = h"
  using length_zeroless_view [of h]
  by (simp add: to_bytes32_def Let_def) (simp add: zeroless_view_eq be_load_be_min)

lemma to_address_full_view: "to_address (full_view_address a) = a"
  by (simp add: to_address_def full_view_address_load)

lemma decode_hex_digits: "d < 16 \<Longrightarrow> decode_hex_digit (kHexDigits ! d) = Some d"
proof -
  have "\<forall>d\<in>set [0..<16]. decode_hex_digit (kHexDigits ! d) = Some d" by code_simp
  then show "d < 16 \<Longrightarrow> decode_hex_digit (kHexDigits ! d) = Some d" by simp
qed

lemma decode_hex_digit_less: "decode_hex_digit c = Some d \<Longrightarrow> d < 16"
  by (auto simp: decode_hex_digit_def Let_def split: if_splits)

lemma or_nibble: "v < 16 \<Longrightarrow> w < 16 \<Longrightarrow> v * 16 OR w = v * 16 + w" for v w :: nat
proof -
  have "bit (v * 16) i \<longrightarrow> \<not> bit w i" if "w < 16" for i
  proof (cases "i < 4")
    case True
    have "v * 16 = push_bit 4 v" by (simp add: push_bit_eq_mult)
    then show ?thesis using True by (simp add: bit_push_bit_iff)
  next
    case False
    have "take_bit 4 w = w" using that by (simp add: take_bit_nat_eq_self_iff)
    then show ?thesis using False by (metis bit_take_bit_iff)
  qed
  then show "w < 16 \<Longrightarrow> v * 16 OR w = v * 16 + w" by (intro disjunctive_add [symmetric]) blast
qed

lemma byte_of_nibbles: "word_of_nat (unat (drop_bit 4 x) * 16 OR unat (x AND 0x0f)) = x" for x :: u8
proof -
  have "unat x div 16 < 16" using unat_byte_less [of x] by simp
  then show ?thesis by (simp only: nibbles_of_byte) (simp add: or_nibble)
qed

lemma from_hex_digits_to_hex: "from_hex_digits (to_hex bs) = Some bs"
proof (induction bs)
  case (Cons x bs)
  then show ?case using byte_of_nibbles [of x] nibbles_of_byte_less [of x] by (simp add: decode_hex_digits Let_def)
qed simp

lemma length_to_hex [simp]: "length (to_hex bs) = 2 * length bs"
  by (induction bs) (auto simp: Let_def)

lemma to_hex_digits: "c \<in> set (to_hex bs) \<Longrightarrow> decode_hex_digit c \<noteq> None"
proof (induction bs)
  case (Cons x bs)
  then show ?case using nibbles_of_byte_less [of x] by (auto simp: decode_hex_digits Let_def)
qed simp

lemma from_hex_digits_iff:
  "length s mod 2 = 0 \<Longrightarrow> from_hex_digits s \<noteq> None \<longleftrightarrow> (\<forall>c\<in>set s. decode_hex_digit c \<noteq> None)"
  by (induction s rule: from_hex_digits.induct) (auto simp: Let_def split: option.split)

section \<open>Ordered maps\<close>

text \<open>
  \<open>std::map\<close> and \<open>absl::btree_map\<close> as lists of pairs sorted by their keys; \<open>map_put\<close> is \<open>insert_or_assign\<close> and
  \<open>map_of\<close> is \<open>find\<close>.
\<close>

fun map_put :: "'k::linorder \<Rightarrow> 'v \<Rightarrow> ('k \<times> 'v) list \<Rightarrow> ('k \<times> 'v) list" where
  "map_put k v [] = [(k, v)]"
| "map_put k v ((k', v') # m) =
     (if k < k' then (k, v) # (k', v') # m else if k = k' then (k, v) # m else (k', v') # map_put k v m)"

lemma set_map_put: "fst ` set (map_put k v m) = insert k (fst ` set m)"
  by (induction k v m rule: map_put.induct) auto

lemma sorted_map_put: "sorted_wrt (<) (map fst m) \<Longrightarrow> sorted_wrt (<) (map fst (map_put k v m))"
proof (induction k v m rule: map_put.induct)
  case (2 k v k' v' m)
  have "\<forall>x\<in>set (map_put k v m). k' < fst x" if "k' < k" "\<forall>x\<in>set m. k' < fst x"
    using set_map_put [of k v m] that by (metis image_iff imageI insert_iff)
  with 2 show ?case by (auto simp: not_less le_less)
qed simp

lemma map_of_map_put: "map_of (map_put k v m) = (map_of m)(k \<mapsto> v)"
  by (induction k v m rule: map_put.induct) (auto simp: fun_eq_iff)

text \<open>\<open>map[key]\<close> with a default for a missing key, changed by a function.\<close>

definition map_change :: "'k::linorder \<Rightarrow> 'v \<Rightarrow> ('v \<Rightarrow> 'v) \<Rightarrow> ('k \<times> 'v) list \<Rightarrow> ('k \<times> 'v) list" where
  "map_change k dflt f m = map_put k (f (case map_of m k of None \<Rightarrow> dflt | Some v \<Rightarrow> v)) m"

lemma map_of_map_change:
  "map_of (map_change k dflt f m) = (map_of m)(k \<mapsto> f (case map_of m k of None \<Rightarrow> dflt | Some v \<Rightarrow> v))"
  by (simp add: map_change_def map_of_map_put)

end
