(* ===== verification/Lmdb.thy ===== *)
theory Lmdb
  imports Util "HOL-Library.List_Lexorder" "HOL-Library.Product_Lexorder"
begin

text \<open>
  db/silkworm/db/chaindb.hpp and chaindb.cpp: tables over the cursors of LMDB.

  LMDB is a parameter: a record of its cursor functions over a state \<open>'d\<close>, a database together with one cursor.
  The locale \<open>lmdb\<close> holds what its documentation promises, in terms of the set of key-value pairs of a
  database and the position of the cursor; \<open>list_lmdb\<close> is an implementation that satisfies it.
\<close>

section \<open>The interface of LMDB\<close>

datatype mdb_cursor_op = MDB_FIRST | MDB_GET_BOTH_RANGE | MDB_NEXT | MDB_NEXT_DUP | MDB_SET | MDB_SET_RANGE

datatype mdb_rc = MDB_SUCCESS | MDB_NOTFOUND | MDB_BAD_VALSIZE | MDB_BAD_TXN | MDB_OTHER int

record 'd lmdb_ops =
  mdb_cursor_get :: "'d \<Rightarrow> bytes \<Rightarrow> bytes \<Rightarrow> mdb_cursor_op \<Rightarrow> (mdb_rc \<times> bytes \<times> bytes) \<times> 'd"
  mdb_cursor_put :: "'d \<Rightarrow> bytes \<Rightarrow> bytes \<Rightarrow> mdb_rc \<times> 'd"
  mdb_cursor_del :: "'d \<Rightarrow> mdb_rc \<times> 'd"
  mdb_cursor_open :: "'d \<Rightarrow> 'd"
  mdb_dbi_new :: "bool \<Rightarrow> 'd"

section \<open>Errors\<close>

text \<open>The exceptions that the layers above LMDB throw; \<open>Db_stuck\<close> is undefined behaviour, a failed assertion or a loop without end.\<close>

datatype db_error =
    Lmdb_exception mdb_rc
  | Rlp_exception decoding_result
  | Invalid_argument
  | Length_error
  | Out_of_range
  | Runtime_error
  | Missing_senders
  | Db_stuck

type_synonym 'a db = "db_error + 'a"

fun db_bind :: "'a db \<Rightarrow> ('a \<Rightarrow> 'b db) \<Rightarrow> 'b db" where
  "db_bind (Inl e) f = Inl e"
| "db_bind (Inr x) f = f x"

definition err_handler :: "mdb_rc \<Rightarrow> unit db" where
  "err_handler rc = (if rc \<noteq> MDB_SUCCESS then Inl (Lmdb_exception rc) else Inr ())"

section \<open>Tables\<close>

text \<open>A function that returns nothing when LMDB does not find what it looks for, and throws on other errors.\<close>

definition unless_not_found :: "(mdb_rc \<times> bytes \<times> bytes) \<times> 'd \<Rightarrow> (bytes \<times> bytes \<Rightarrow> 'a option) \<Rightarrow> ('a option \<times> 'd) db" where
  "unless_not_found r f =
     (case r of
        ((rc, kv), d) \<Rightarrow>
          if rc = MDB_NOTFOUND then Inr (None, d)
          else db_bind (err_handler rc) (\<lambda>_. Inr (f kv, d)))"

definition table_get :: "'d lmdb_ops \<Rightarrow> bytes \<Rightarrow> 'd \<Rightarrow> (bytes option \<times> 'd) db" where
  "table_get M key d = unless_not_found (mdb_cursor_get M d key [] MDB_SET) (\<lambda>(_, data). Some data)"

definition table_get_sub :: "'d lmdb_ops \<Rightarrow> bytes \<Rightarrow> bytes \<Rightarrow> 'd \<Rightarrow> (bytes option \<times> 'd) db" where
  "table_get_sub M key sub_key d =
     unless_not_found (mdb_cursor_get M d key sub_key MDB_GET_BOTH_RANGE)
       (\<lambda>(_, x). if \<not> has_prefix x sub_key then None else Some (drop (length sub_key) x))"

definition table_seek_dup :: "'d lmdb_ops \<Rightarrow> bytes \<Rightarrow> bytes \<Rightarrow> 'd \<Rightarrow> (bytes option \<times> 'd) db" where
  "table_seek_dup M key lower_bound d =
     unless_not_found (mdb_cursor_get M d key lower_bound MDB_GET_BOTH_RANGE) (\<lambda>(_, data). Some data)"

definition table_get_next :: "'d lmdb_ops \<Rightarrow> 'd \<Rightarrow> ((bytes \<times> bytes) option \<times> 'd) db" where
  "table_get_next M d = unless_not_found (mdb_cursor_get M d [] [] MDB_NEXT) Some"

definition table_get_next_dup :: "'d lmdb_ops \<Rightarrow> 'd \<Rightarrow> (bytes option \<times> 'd) db" where
  "table_get_next_dup M d = unless_not_found (mdb_cursor_get M d [] [] MDB_NEXT_DUP) (\<lambda>(_, data). Some data)"

definition table_seek :: "'d lmdb_ops \<Rightarrow> bytes \<Rightarrow> 'd \<Rightarrow> ((bytes \<times> bytes) option \<times> 'd) db" where
  "table_seek M lower_bound d =
     (let op = (if lower_bound = [] then MDB_FIRST else MDB_SET_RANGE)
      in unless_not_found (mdb_cursor_get M d lower_bound [] op) Some)"

definition table_del_current :: "'d lmdb_ops \<Rightarrow> 'd \<Rightarrow> 'd db" where
  "table_del_current M d = (case mdb_cursor_del M d of (rc, d) \<Rightarrow> db_bind (err_handler rc) (\<lambda>_. Inr d))"

definition table_del :: "'d lmdb_ops \<Rightarrow> bytes \<Rightarrow> 'd \<Rightarrow> 'd db" where
  "table_del M key d =
     db_bind (table_get M key d) (\<lambda>(found, d). if found \<noteq> None then table_del_current M d else Inr d)"

definition table_del_sub :: "'d lmdb_ops \<Rightarrow> bytes \<Rightarrow> bytes \<Rightarrow> 'd \<Rightarrow> 'd db" where
  "table_del_sub M key sub_key d =
     db_bind (table_get_sub M key sub_key d) (\<lambda>(found, d). if found \<noteq> None then table_del_current M d else Inr d)"

definition table_put :: "'d lmdb_ops \<Rightarrow> bytes \<Rightarrow> bytes \<Rightarrow> 'd \<Rightarrow> 'd db" where
  "table_put M key data d =
     (case mdb_cursor_put M d key data of (rc, d) \<Rightarrow> db_bind (err_handler rc) (\<lambda>_. Inr d))"

section \<open>What LMDB promises\<close>

text \<open>
  \<open>items d\<close> are the pairs of the database, \<open>at d\<close> the one the cursor is on, \<open>dups d\<close> tells whether
  a key may have several values, which are then sorted (\<open>MDB_DUPSORT\<close>).  Keys, and values of a database with
  duplicates, have at most 511 bytes, and keys are not empty.  \<open>put_ok\<close> takes it that there is room: the map
  and the transaction are large enough for what is put, so that LMDB does not return \<open>MDB_MAP_FULL\<close> or \<open>MDB_TXN_FULL\<close>.
\<close>

definition storable :: "bool \<Rightarrow> bytes \<Rightarrow> bytes \<Rightarrow> bool" where
  "storable dup k v \<longleftrightarrow> k \<noteq> [] \<and> length k \<le> 511 \<and> (dup \<longrightarrow> length v \<le> 511)"

definition found :: "('d \<Rightarrow> (bytes \<times> bytes) set) \<Rightarrow> ('d \<Rightarrow> (bytes \<times> bytes) option) \<Rightarrow> (bytes \<times> bytes) set \<Rightarrow>
    (mdb_rc \<times> bytes \<times> bytes) \<times> 'd \<Rightarrow> bool" where
  "found items at S r =
     (if S = {} then fst (fst r) = MDB_NOTFOUND
      else fst r = (MDB_SUCCESS, Min S) \<and> at (snd r) = Some (Min S))"

lemma lex_between: "s \<le> x \<Longrightarrow> x \<le> s @ v \<Longrightarrow> \<exists>w. x = s @ w" for s x v :: bytes
proof (induction s arbitrary: x)
  case (Cons a s)
  then obtain b y where "x = b # y" by (cases x) auto
  with Cons show ?case by auto
qed simp

locale lmdb =
  fixes M :: "'d lmdb_ops"
    and items :: "'d \<Rightarrow> (bytes \<times> bytes) set"
    and at :: "'d \<Rightarrow> (bytes \<times> bytes) option"
    and dups :: "'d \<Rightarrow> bool"
  assumes finite_items: "finite (items d)"
    and get_keeps: "items (snd (mdb_cursor_get M d k v op)) = items d" "dups (snd (mdb_cursor_get M d k v op)) = dups d"
    and open_keeps: "items (mdb_cursor_open M d) = items d" "dups (mdb_cursor_open M d) = dups d"
    and new_items: "items (mdb_dbi_new M dup) = {}" "dups (mdb_dbi_new M dup) = dup"
    and get_set: "k \<noteq> [] \<Longrightarrow> found items at {p \<in> items d. fst p = k} (mdb_cursor_get M d k v MDB_SET)"
    and get_both_range: "dups d \<Longrightarrow> k \<noteq> [] \<Longrightarrow>
      found items at {p \<in> items d. fst p = k \<and> v \<le> snd p} (mdb_cursor_get M d k v MDB_GET_BOTH_RANGE)"
    and get_set_range: "k \<noteq> [] \<Longrightarrow> found items at {p \<in> items d. k \<le> fst p} (mdb_cursor_get M d k v MDB_SET_RANGE)"
    and get_first: "found items at (items d) (mdb_cursor_get M d k v MDB_FIRST)"
    and get_next: "at d = Some p \<Longrightarrow> found items at {q \<in> items d. p < q} (mdb_cursor_get M d k v MDB_NEXT)"
    and get_next_dup:
      "dups d \<Longrightarrow> at d = Some p \<Longrightarrow> found items at {q \<in> items d. fst q = fst p \<and> snd p < snd q} (mdb_cursor_get M d k v MDB_NEXT_DUP)"
    and put_ok: "storable (dups d) k v \<Longrightarrow> fst (mdb_cursor_put M d k v) = MDB_SUCCESS"
    and put_items: "storable (dups d) k v \<Longrightarrow> items (snd (mdb_cursor_put M d k v)) =
      insert (k, v) (if dups d then items d else {p \<in> items d. fst p \<noteq> k})"
    and put_dups: "dups (snd (mdb_cursor_put M d k v)) = dups d"
    and del_ok: "at d = Some p \<Longrightarrow> p \<in> items d \<Longrightarrow> fst (mdb_cursor_del M d) = MDB_SUCCESS"
    and del_items: "at d = Some p \<Longrightarrow> p \<in> items d \<Longrightarrow> items (snd (mdb_cursor_del M d)) = items d - {p}"
    and del_dups: "dups (snd (mdb_cursor_del M d)) = dups d"
begin

text \<open>Reading and writing tables in terms of their pairs.\<close>

lemma get_none:
  assumes "found items at S (mdb_cursor_get M d k v op)" and "S = {}"
  shows "\<exists>d'. unless_not_found (mdb_cursor_get M d k v op) f = Inr (None, d') \<and> items d' = items d \<and> dups d' = dups d"
  using assms get_keeps [of d k v op]
  by (cases "mdb_cursor_get M d k v op") (auto simp: found_def unless_not_found_def)

lemma get_some:
  assumes "found items at S (mdb_cursor_get M d k v op)" and "S \<noteq> {}"
  shows "\<exists>d'. unless_not_found (mdb_cursor_get M d k v op) f = Inr (f (Min S), d') \<and> items d' = items d \<and> dups d' = dups d \<and>
    at d' = Some (Min S)"
  using assms get_keeps [of d k v op]
  by (cases "mdb_cursor_get M d k v op") (simp add: found_def unless_not_found_def err_handler_def)

lemma table_put_items:
  assumes "storable (dups d) k v"
  shows "\<exists>d'. table_put M k v d = Inr d' \<and> dups d' = dups d \<and>
    items d' = insert (k, v) (if dups d then items d else {p \<in> items d. fst p \<noteq> k})"
  using put_ok [OF assms] put_items [OF assms] put_dups [of d k v]
  by (cases "mdb_cursor_put M d k v") (auto simp: table_put_def err_handler_def)

lemma table_get_none:
  assumes "k \<noteq> []" and "\<And>v. (k, v) \<notin> items d"
  shows "\<exists>d'. table_get M k d = Inr (None, d') \<and> items d' = items d \<and> dups d' = dups d"
proof -
  have "{p \<in> items d. fst p = k} = {}" using assms by auto
  then show ?thesis unfolding table_get_def by (rule get_none [OF get_set [OF assms(1)]])
qed

lemma table_get_some:
  assumes "k \<noteq> []" and "(k, v) \<in> items d" and "\<And>w. (k, w) \<in> items d \<Longrightarrow> w = v"
  shows "\<exists>d'. table_get M k d = Inr (Some v, d') \<and> items d' = items d \<and> dups d' = dups d \<and> at d' = Some (k, v)"
proof -
  have one: "{p \<in> items d. fst p = k} = {(k, v)}"
  proof (intro equalityI subsetI)
    fix p assume "p \<in> {p \<in> items d. fst p = k}"
    then show "p \<in> {(k, v)}" using assms(3) [of "snd p"] by (cases p) simp
  qed (use assms(2) in simp)
  show ?thesis
    using get_some [OF get_set [OF assms(1), of d "[]"], of "\<lambda>(_, data). Some data"]
    unfolding one by (simp add: table_get_def)
qed

lemma Min_item_prefix:
  assumes "(k, s @ v) \<in> items d"
  shows "\<exists>w. Min {p \<in> items d. fst p = k \<and> s \<le> snd p} = (k, s @ w) \<and> (k, s @ w) \<in> items d"
proof -
  let ?S = "{p \<in> items d. fst p = k \<and> s \<le> snd p}"
  have "s \<le> s @ v" by (induction s) auto
  then have mem: "(k, s @ v) \<in> ?S" using assms by simp
  have fin: "finite ?S" using finite_items by simp
  have "?S \<noteq> {}" using mem by auto
  then have "Min ?S \<in> ?S" by (rule Min_in [OF fin])
  moreover have "Min ?S \<le> (k, s @ v)" using fin mem by (rule Min_le)
  ultimately obtain x where x: "Min ?S = (k, x)" "s \<le> x" "x \<le> s @ v" "(k, x) \<in> items d" by (cases "Min ?S") auto
  then obtain w where "x = s @ w" using lex_between by blast
  then show ?thesis using x by blast
qed

lemma table_get_sub_some:
  assumes "dups d" and "k \<noteq> []" and "(k, s @ v) \<in> items d" and "\<And>w. (k, s @ w) \<in> items d \<Longrightarrow> w = v"
  shows "\<exists>d'. table_get_sub M k s d = Inr (Some v, d') \<and> items d' = items d \<and> dups d' = dups d \<and> at d' = Some (k, s @ v)"
proof -
  have one: "Min {p \<in> items d. fst p = k \<and> s \<le> snd p} = (k, s @ v)"
    using Min_item_prefix [OF assms(3)] assms(4) by auto
  have "s \<le> s @ v" by (induction s) auto
  then have "{p \<in> items d. fst p = k \<and> s \<le> snd p} \<noteq> {}" using assms(3) by force
  then show ?thesis
    using get_some [OF get_both_range [OF assms(1,2), of s],
        of "\<lambda>(_, x). if \<not> has_prefix x s then None else Some (drop (length s) x)"]
    unfolding one by (simp add: table_get_sub_def has_prefix_def)
qed

lemma table_get_sub_none:
  assumes "dups d" and "k \<noteq> []" and "\<And>w. (k, s @ w) \<notin> items d"
  shows "\<exists>d'. table_get_sub M k s d = Inr (None, d') \<and> items d' = items d \<and> dups d' = dups d"
proof -
  let ?S = "{p \<in> items d. fst p = k \<and> s \<le> snd p}"
  show ?thesis
  proof (cases "?S = {}")
    case True
    then show ?thesis unfolding table_get_sub_def by (rule get_none [OF get_both_range [OF assms(1,2)]])
  next
    case False
    have "finite ?S" using finite_items by simp
    then have "Min ?S \<in> ?S" using False by (rule Min_in)
    then obtain x where x: "Min ?S = (k, x)" "(k, x) \<in> items d" by (cases "Min ?S") auto
    then have "\<not> has_prefix x s" using assms(3) by (metis append_take_drop_id has_prefix_def)
    then show ?thesis
      using get_some [OF get_both_range [OF assms(1,2), of s] False,
          of "\<lambda>(_, x). if \<not> has_prefix x s then None else Some (drop (length s) x)"] x(1)
      by (auto simp: table_get_sub_def)
  qed
qed

lemma table_del_current_items:
  assumes "at d = Some p" and "p \<in> items d"
  shows "\<exists>d'. table_del_current M d = Inr d' \<and> items d' = items d - {p} \<and> dups d' = dups d"
  using del_ok [OF assms] del_items [OF assms] del_dups [of d]
  by (cases "mdb_cursor_del M d") (auto simp: table_del_current_def err_handler_def)

text \<open>Deleting the value of a key that has at most one, and the value of a sub-key that has at most one.\<close>

lemma table_del_items:
  assumes "k \<noteq> []" and "\<And>v w. (k, v) \<in> items d \<Longrightarrow> (k, w) \<in> items d \<Longrightarrow> v = w"
  shows "\<exists>d'. table_del M k d = Inr d' \<and> items d' = {p \<in> items d. fst p \<noteq> k} \<and> dups d' = dups d"
proof (cases "\<exists>v. (k, v) \<in> items d")
  case True
  then obtain v where v: "(k, v) \<in> items d" by blast
  then obtain d1 where d1: "table_get M k d = Inr (Some v, d1)" "items d1 = items d" "dups d1 = dups d" "at d1 = Some (k, v)"
    using table_get_some [OF assms(1) v] assms(2) by blast
  then obtain d' where "table_del_current M d1 = Inr d'" "items d' = items d1 - {(k, v)}" "dups d' = dups d1"
    using table_del_current_items [of d1 "(k, v)"] v by auto
  moreover have "items d - {(k, v)} = {p \<in> items d. fst p \<noteq> k}" using assms v by auto
  ultimately show ?thesis using d1 by (simp add: table_del_def)
next
  case False
  then obtain d1 where "table_get M k d = Inr (None, d1)" "items d1 = items d" "dups d1 = dups d"
    using table_get_none [OF assms(1)] by blast
  moreover have "items d = {p \<in> items d. fst p \<noteq> k}" using False by auto
  ultimately show ?thesis by (simp add: table_del_def)
qed

lemma table_del_sub_items:
  assumes "dups d" and "k \<noteq> []" and "\<And>v w. (k, s @ v) \<in> items d \<Longrightarrow> (k, s @ w) \<in> items d \<Longrightarrow> v = w"
  shows "\<exists>d'. table_del_sub M k s d = Inr d' \<and> items d' = {p \<in> items d. \<not> (fst p = k \<and> has_prefix (snd p) s)} \<and> dups d' = dups d"
proof -
  have pre: "has_prefix x s \<longleftrightarrow> (\<exists>w. x = s @ w)" for x
    unfolding has_prefix_def by (metis append_take_drop_id append_eq_conv_conj)
  show ?thesis
  proof (cases "\<exists>v. (k, s @ v) \<in> items d")
    case True
    then obtain v where v: "(k, s @ v) \<in> items d" by blast
    then obtain d1 where d1: "table_get_sub M k s d = Inr (Some v, d1)" "items d1 = items d" "dups d1 = dups d" "at d1 = Some (k, s @ v)"
      using table_get_sub_some [OF assms(1,2) v] assms(3) by blast
    then obtain d' where "table_del_current M d1 = Inr d'" "items d' = items d1 - {(k, s @ v)}" "dups d' = dups d1"
      using table_del_current_items [of d1 "(k, s @ v)"] v by auto
    moreover have "items d - {(k, s @ v)} = {p \<in> items d. \<not> (fst p = k \<and> has_prefix (snd p) s)}"
      using assms v by (auto simp: pre)
    ultimately show ?thesis using d1 by (simp add: table_del_sub_def)
  next
    case False
    then obtain d1 where "table_get_sub M k s d = Inr (None, d1)" "items d1 = items d" "dups d1 = dups d"
      using table_get_sub_none [OF assms(1,2)] by blast
    moreover have "items d = {p \<in> items d. \<not> (fst p = k \<and> has_prefix (snd p) s)}" using False by (auto simp: pre)
    ultimately show ?thesis by (simp add: table_del_sub_def)
  qed
qed

end

section \<open>An implementation on lists\<close>

record list_db =
  ld_dups :: bool
  ld_items :: "(bytes \<times> bytes) list"
  ld_at :: "(bytes \<times> bytes) option"

definition ld_find :: "list_db \<Rightarrow> (bytes \<times> bytes) list \<Rightarrow> (mdb_rc \<times> bytes \<times> bytes) \<times> list_db" where
  "ld_find d ps =
     (if ps = [] then ((MDB_NOTFOUND, [], []), d)
      else ((MDB_SUCCESS, Min (set ps)), d\<lparr>ld_at := Some (Min (set ps))\<rparr>))"

definition ld_get :: "list_db \<Rightarrow> bytes \<Rightarrow> bytes \<Rightarrow> mdb_cursor_op \<Rightarrow> (mdb_rc \<times> bytes \<times> bytes) \<times> list_db" where
  "ld_get d k v op =
     (if k = [] \<and> op \<in> {MDB_GET_BOTH_RANGE, MDB_SET, MDB_SET_RANGE} then ((MDB_BAD_VALSIZE, [], []), d)
      else ld_find d
       (case op of
          MDB_FIRST \<Rightarrow> ld_items d
        | MDB_GET_BOTH_RANGE \<Rightarrow> filter (\<lambda>p. fst p = k \<and> v \<le> snd p) (ld_items d)
        | MDB_NEXT \<Rightarrow> (case ld_at d of None \<Rightarrow> ld_items d | Some p \<Rightarrow> filter (\<lambda>q. p < q) (ld_items d))
        | MDB_NEXT_DUP \<Rightarrow>
            (case ld_at d of None \<Rightarrow> [] | Some p \<Rightarrow> filter (\<lambda>q. fst q = fst p \<and> snd p < snd q) (ld_items d))
        | MDB_SET \<Rightarrow> filter (\<lambda>p. fst p = k) (ld_items d)
        | MDB_SET_RANGE \<Rightarrow> filter (\<lambda>p. k \<le> fst p) (ld_items d)))"

definition ld_put :: "list_db \<Rightarrow> bytes \<Rightarrow> bytes \<Rightarrow> mdb_rc \<times> list_db" where
  "ld_put d k v =
     (if storable (ld_dups d) k v
      then (MDB_SUCCESS,
            d\<lparr>ld_items := (k, v) # (if ld_dups d then ld_items d else filter (\<lambda>p. fst p \<noteq> k) (ld_items d)), ld_at := Some (k, v)\<rparr>)
      else (MDB_BAD_VALSIZE, d))"

definition ld_del :: "list_db \<Rightarrow> mdb_rc \<times> list_db" where
  "ld_del d =
     (case ld_at d of
        None \<Rightarrow> (MDB_OTHER 22, d)
      | Some p \<Rightarrow> (MDB_SUCCESS, d\<lparr>ld_items := filter (\<lambda>q. q \<noteq> p) (ld_items d)\<rparr>))"

definition empty_list_db :: "bool \<Rightarrow> list_db" where
  "empty_list_db dup = \<lparr>ld_dups = dup, ld_items = [], ld_at = None\<rparr>"

definition list_lmdb :: "list_db lmdb_ops" where
  "list_lmdb =
     \<lparr>mdb_cursor_get = ld_get, mdb_cursor_put = ld_put, mdb_cursor_del = ld_del, mdb_cursor_open = (\<lambda>d. d\<lparr>ld_at := None\<rparr>),
      mdb_dbi_new = empty_list_db\<rparr>"

lemma ld_find_found: "found (\<lambda>d. set (ld_items d)) ld_at (set ps) (ld_find d ps)"
  by (simp add: found_def ld_find_def)

lemma found_filter:
  "found (\<lambda>d. set (ld_items d)) ld_at {p \<in> set (ld_items d). P p} (ld_find d (filter P (ld_items d)))"
  using ld_find_found [of "filter P (ld_items d)" d] by simp

lemma ld_find_keeps [simp]: "ld_items (snd (ld_find d ps)) = ld_items d" "ld_dups (snd (ld_find d ps)) = ld_dups d"
  by (simp_all add: ld_find_def)

interpretation list_lmdb: lmdb list_lmdb "\<lambda>d. set (ld_items d)" ld_at ld_dups
  by unfold_locales
    (auto simp: list_lmdb_def ld_get_def ld_put_def ld_del_def empty_list_db_def found_filter ld_find_found split: option.split)

end
