(* ===== verification/Tables.thy ===== *)
theory Tables
  imports Lmdb
begin

text \<open>
  db/silkworm/db/tables.hpp and tables.cpp: the tables of the database, and the part of chaindb.cpp that opens
  tables in a transaction and reads or writes one value.

  A transaction is the state of its named databases.  Every call of \<open>open\<close> makes a cursor of its own; a
  reader drops it, and a writer stores the state of the table back.  The comparison \<open>cmp_fixed_len_key\<close> of
  three tables agrees with the order of byte strings on the keys of one length that these tables have.
\<close>

section \<open>Configurations\<close>

record table_config =
  tc_name :: "string option"
  tc_dupsort :: bool
  tc_cmp_fixed_len_key :: bool

definition plain_table :: "string \<Rightarrow> table_config" where
  "plain_table name = \<lparr>tc_name = Some name, tc_dupsort = False, tc_cmp_fixed_len_key = False\<rparr>"

definition dupsort_table :: "string \<Rightarrow> table_config" where
  "dupsort_table name = \<lparr>tc_name = Some name, tc_dupsort = True, tc_cmp_fixed_len_key = False\<rparr>"

definition fixed_len_table :: "string \<Rightarrow> table_config" where
  "fixed_len_table name = \<lparr>tc_name = Some name, tc_dupsort = False, tc_cmp_fixed_len_key = True\<rparr>"

definition kMAIN_DBI :: table_config where
  "kMAIN_DBI = \<lparr>tc_name = None, tc_dupsort = False, tc_cmp_fixed_len_key = False\<rparr>"

definition kAccountHistory :: table_config where
  "kAccountHistory = plain_table ''hAT''"

definition kBlockBodies :: table_config where
  "kBlockBodies = plain_table ''b''"

definition kCanonicalHashes :: table_config where
  "kCanonicalHashes = fixed_len_table ''canonical_headers''"

definition kHeaders :: table_config where
  "kHeaders = fixed_len_table ''headers''"

definition kDifficulty :: table_config where
  "kDifficulty = fixed_len_table ''header_to_td''"

definition kBlockReceipts :: table_config where
  "kBlockReceipts = plain_table ''r''"

definition kBloomBitsIndex :: table_config where
  "kBloomBitsIndex = plain_table ''iB''"

definition kBloomBits :: table_config where
  "kBloomBits = plain_table ''B''"

definition kBodiesSnapshotInfo :: table_config where
  "kBodiesSnapshotInfo = plain_table ''bSNINFO''"

definition kCallFromIndex :: table_config where
  "kCallFromIndex = plain_table ''call_from_index''"

definition kCallToIndex :: table_config where
  "kCallToIndex = plain_table ''call_to_index''"

definition kClique :: table_config where
  "kClique = plain_table ''clique-''"

definition kCode :: table_config where
  "kCode = plain_table ''CODE''"

definition kConfig :: table_config where
  "kConfig = plain_table ''ethereum-config-''"

definition kContractCode :: table_config where
  "kContractCode = plain_table ''contractCode''"

definition kDatabaseInfo :: table_config where
  "kDatabaseInfo = plain_table ''DBINFO''"

definition kDatabaseVersion :: table_config where
  "kDatabaseVersion = plain_table ''DatabaseVersion''"

definition kEthTx :: table_config where
  "kEthTx = plain_table ''eth_tx''"

definition kFastTrieProgress :: table_config where
  "kFastTrieProgress = plain_table ''TrieSync''"

definition kHashedAccounts :: table_config where
  "kHashedAccounts = plain_table ''hashed_accounts''"

definition kHashedStorage :: table_config where
  "kHashedStorage = dupsort_table ''hashed_storage''"

definition kHeadBlock :: table_config where
  "kHeadBlock = plain_table ''LastBlock''"

definition kHeadFastBlock :: table_config where
  "kHeadFastBlock = plain_table ''LastFast''"

definition kHeadHeader :: table_config where
  "kHeadHeader = plain_table ''LastHeader''"

definition kHeaderNumbers :: table_config where
  "kHeaderNumbers = plain_table ''H''"

definition kHeadersSnapshotInfo :: table_config where
  "kHeadersSnapshotInfo = plain_table ''hSNINFO''"

definition kIncarnationMap :: table_config where
  "kIncarnationMap = plain_table ''incarnationMap''"

definition kLogAddressIndex :: table_config where
  "kLogAddressIndex = plain_table ''log_address_index''"

definition kLogTopicIndex :: table_config where
  "kLogTopicIndex = plain_table ''log_topic_index''"

definition kLogs :: table_config where
  "kLogs = plain_table ''log''"

definition kMigrations :: table_config where
  "kMigrations = plain_table ''migrations''"

definition kPlainAccountChangeSet :: table_config where
  "kPlainAccountChangeSet = dupsort_table ''PLAIN-ACS''"

definition kPlainContractCode :: table_config where
  "kPlainContractCode = plain_table ''PLAIN-contractCode''"

definition kPlainState :: table_config where
  "kPlainState = dupsort_table ''PLAIN-CST2''"

definition kPlainStorageChangeSet :: table_config where
  "kPlainStorageChangeSet = dupsort_table ''PLAIN-SCS''"

definition kPreimage :: table_config where
  "kPreimage = plain_table ''secure-key-''"

definition kSenders :: table_config where
  "kSenders = plain_table ''txSenders''"

definition kSequence :: table_config where
  "kSequence = plain_table ''sequence''"

definition kSnapshotInfo :: table_config where
  "kSnapshotInfo = plain_table ''SNINFO''"

definition kStateSnapshotInfo :: table_config where
  "kStateSnapshotInfo = plain_table ''sSNINFO''"

definition kStorageHistory :: table_config where
  "kStorageHistory = plain_table ''hST''"

definition kSyncStageProgress :: table_config where
  "kSyncStageProgress = plain_table ''SSP2''"

definition kSyncStageUnwind :: table_config where
  "kSyncStageUnwind = plain_table ''SSU2''"

definition kTrieOfAccounts :: table_config where
  "kTrieOfAccounts = plain_table ''trie_account''"

definition kTrieOfStorage :: table_config where
  "kTrieOfStorage = plain_table ''trie_storage''"

definition kTxLookup :: table_config where
  "kTxLookup = plain_table ''l''"

definition kTables :: "table_config list" where
  "kTables =
     [kAccountHistory, kBlockBodies, kBlockReceipts, kBloomBits, kBloomBitsIndex, kBodiesSnapshotInfo,
      kCallFromIndex, kCallToIndex, kCanonicalHashes, kHeaders, kDifficulty, kClique, kCode, kConfig,
      kContractCode, kDatabaseInfo, kDatabaseVersion, kEthTx, kFastTrieProgress, kHashedAccounts,
      kHashedStorage, kHeadBlock, kHeadFastBlock, kHeadHeader, kHeaderNumbers, kHeadersSnapshotInfo,
      kIncarnationMap, kLogAddressIndex, kLogTopicIndex, kLogs, kMigrations, kPlainAccountChangeSet,
      kPlainContractCode, kPlainState, kPlainStorageChangeSet, kPreimage, kSenders, kSequence, kSnapshotInfo,
      kStateSnapshotInfo, kStorageHistory, kSyncStageProgress, kSyncStageUnwind, kTrieOfAccounts,
      kTrieOfStorage, kTxLookup]"

lemmas table_defs = plain_table_def dupsort_table_def fixed_len_table_def kMAIN_DBI_def
  kAccountHistory_def kBlockBodies_def kCanonicalHashes_def kHeaders_def kDifficulty_def kBlockReceipts_def
  kBloomBitsIndex_def kBloomBits_def kBodiesSnapshotInfo_def kCallFromIndex_def kCallToIndex_def kClique_def
  kCode_def kConfig_def kContractCode_def kDatabaseInfo_def kDatabaseVersion_def kEthTx_def
  kFastTrieProgress_def kHashedAccounts_def kHashedStorage_def kHeadBlock_def kHeadFastBlock_def kHeadHeader_def
  kHeaderNumbers_def kHeadersSnapshotInfo_def kIncarnationMap_def kLogAddressIndex_def kLogTopicIndex_def kLogs_def
  kMigrations_def kPlainAccountChangeSet_def kPlainContractCode_def kPlainState_def kPlainStorageChangeSet_def kPreimage_def
  kSenders_def kSequence_def kSnapshotInfo_def kStateSnapshotInfo_def kStorageHistory_def kSyncStageProgress_def
  kSyncStageUnwind_def kTrieOfAccounts_def kTrieOfStorage_def kTxLookup_def

section \<open>Transactions\<close>

record 'd txn =
  txn_ro :: bool
  txn_main :: 'd
  txn_tables :: "string \<Rightarrow> 'd option"

text \<open>\<open>Transaction::open\<close>, with \<open>MDB_CREATE\<close> or not; a read-only transaction cannot create a table (error 13).\<close>

definition txn_open :: "'d lmdb_ops \<Rightarrow> table_config \<Rightarrow> bool \<Rightarrow> 'd txn \<Rightarrow> ('d \<times> 'd txn) db" where
  "txn_open M config create t =
     (case tc_name config of
        None \<Rightarrow> Inr (mdb_cursor_open M (txn_main t), t)
      | Some name \<Rightarrow>
          (case txn_tables t name of
             Some d \<Rightarrow> Inr (mdb_cursor_open M d, t)
           | None \<Rightarrow>
               if \<not> create then Inl (Lmdb_exception MDB_NOTFOUND)
               else if txn_ro t then Inl (Lmdb_exception (MDB_OTHER 13))
               else let d = mdb_dbi_new M (tc_dupsort config)
                    in Inr (mdb_cursor_open M d, t\<lparr>txn_tables := (txn_tables t)(name \<mapsto> d)\<rparr>)))"

text \<open>What an open table has become is part of the transaction.\<close>

definition txn_store :: "table_config \<Rightarrow> 'd \<Rightarrow> 'd txn \<Rightarrow> 'd txn" where
  "txn_store config d t =
     (case tc_name config of
        None \<Rightarrow> t\<lparr>txn_main := d\<rparr>
      | Some name \<Rightarrow> t\<lparr>txn_tables := (txn_tables t)(name \<mapsto> d)\<rparr>)"

definition txn_get :: "'d lmdb_ops \<Rightarrow> table_config \<Rightarrow> bytes \<Rightarrow> 'd txn \<Rightarrow> (bytes option \<times> 'd txn) db" where
  "txn_get M domain key t =
     (case txn_open M domain (\<not> txn_ro t) t of
        Inl _ \<Rightarrow> Inr (None, t)
      | Inr (d, t) \<Rightarrow>
          (case mdb_cursor_get M d key [] MDB_SET of
             ((rc, _, data), _) \<Rightarrow>
               if rc = MDB_NOTFOUND then Inr (None, t)
               else db_bind (err_handler rc) (\<lambda>_. Inr (Some data, t))))"

definition txn_put :: "'d lmdb_ops \<Rightarrow> table_config \<Rightarrow> bytes \<Rightarrow> bytes \<Rightarrow> 'd txn \<Rightarrow> mdb_rc \<times> 'd txn" where
  "txn_put M domain key data t =
     (if txn_ro t then (MDB_BAD_TXN, t)
      else
        (case txn_open M domain True t of
           Inl (Lmdb_exception rc) \<Rightarrow> (rc, t)
         | Inl _ \<Rightarrow> (MDB_BAD_TXN, t)
         | Inr (d, t) \<Rightarrow> (case mdb_cursor_put M d key data of (rc, d) \<Rightarrow> (rc, txn_store domain d t))))"

fun create_tables :: "'d lmdb_ops \<Rightarrow> table_config list \<Rightarrow> 'd txn \<Rightarrow> 'd txn db" where
  "create_tables M [] t = Inr t"
| "create_tables M (config # configs) t =
     db_bind (txn_open M config True t) (\<lambda>(_, t). create_tables M configs t)"

definition create_all :: "'d lmdb_ops \<Rightarrow> 'd txn \<Rightarrow> 'd txn db" where
  "create_all M t = create_tables M kTables t"

definition get_config :: "string \<Rightarrow> table_config option" where
  "get_config name = find (\<lambda>config. tc_name config = Some name) kTables"

section \<open>Lemmas\<close>

text \<open>\<open>rows items t config\<close> are the pairs of a table of a transaction.\<close>

definition rows :: "('d \<Rightarrow> (bytes \<times> bytes) set) \<Rightarrow> 'd txn \<Rightarrow> table_config \<Rightarrow> (bytes \<times> bytes) set" where
  "rows items t config =
     (case tc_name config of
        None \<Rightarrow> items (txn_main t)
      | Some name \<Rightarrow> (case txn_tables t name of None \<Rightarrow> {} | Some d \<Rightarrow> items d))"

definition has_table :: "('d \<Rightarrow> bool) \<Rightarrow> 'd txn \<Rightarrow> table_config \<Rightarrow> bool" where
  "has_table dups t config \<longleftrightarrow> (\<exists>name d. tc_name config = Some name \<and> txn_tables t name = Some d \<and> dups d = tc_dupsort config)"

definition flags_ok :: "('d \<Rightarrow> bool) \<Rightarrow> 'd txn \<Rightarrow> table_config \<Rightarrow> bool" where
  "flags_ok dups t config \<longleftrightarrow>
     (\<exists>name. tc_name config = Some name \<and> (\<forall>d. txn_tables t name = Some d \<longrightarrow> dups d = tc_dupsort config))"

lemma has_table_flags: "has_table dups t c \<Longrightarrow> flags_ok dups t c"
  by (auto simp: has_table_def flags_ok_def)

lemma rows_store: "rows items (txn_store c d t) c' = (if tc_name c' = tc_name c then items d else rows items t c')"
  by (auto simp: rows_def txn_store_def split: option.split)

lemma txn_ro_store [simp]: "txn_ro (txn_store c d t) = txn_ro t"
  by (simp add: txn_store_def split: option.split)

lemma has_table_store:
  assumes "tc_name c \<noteq> None" and "dups d = tc_dupsort c"
  shows "has_table dups (txn_store c d t) c' \<longleftrightarrow>
    (if tc_name c' = tc_name c then tc_dupsort c' = tc_dupsort c else has_table dups t c')"
  using assms by (auto simp: has_table_def txn_store_def)

context lmdb
begin

text \<open>Opening a table that exists, and one that may have to be created.\<close>

lemma txn_open_table:
  assumes "has_table dups t c"
  shows "\<exists>d. txn_open M c create t = Inr (d, t) \<and> items d = rows items t c \<and> dups d = tc_dupsort c"
  using assms by (auto simp: has_table_def txn_open_def rows_def open_keeps)

lemma txn_open_create:
  assumes "flags_ok dups t c" and "\<not> txn_ro t"
  shows "\<exists>d t'. txn_open M c True t = Inr (d, t') \<and> items d = rows items t c \<and> dups d = tc_dupsort c \<and>
    has_table dups t' c \<and> txn_ro t' = txn_ro t \<and> rows items t' = rows items t \<and>
    (\<forall>n. tc_name c \<noteq> Some n \<longrightarrow> txn_tables t' n = txn_tables t n)"
proof -
  obtain n where n: "tc_name c = Some n" "\<And>d. txn_tables t n = Some d \<Longrightarrow> dups d = tc_dupsort c"
    using assms(1) by (auto simp: flags_ok_def)
  show ?thesis
  proof (cases "txn_tables t n")
    case None
    then show ?thesis
      using n assms(2) new_items [of "tc_dupsort c"]
      by (auto simp: txn_open_def rows_def open_keeps has_table_def Let_def fun_eq_iff split: option.split)
  next
    case (Some d)
    then show ?thesis using n by (auto simp: txn_open_def rows_def open_keeps has_table_def)
  qed
qed

lemma create_tables_rows:
  assumes "\<forall>c\<in>set cs. flags_ok dups t c" and "\<not> txn_ro t" and "distinct (map tc_name cs)"
  shows "\<exists>t'. create_tables M cs t = Inr t' \<and> rows items t' = rows items t \<and> (\<forall>c\<in>set cs. has_table dups t' c) \<and>
    (\<forall>n. Some n \<notin> tc_name ` set cs \<longrightarrow> txn_tables t' n = txn_tables t n)"
  using assms
proof (induction cs arbitrary: t)
  case (Cons c cs)
  then obtain d t1 where t1: "txn_open M c True t = Inr (d, t1)" "has_table dups t1 c" "txn_ro t1 = txn_ro t"
    "rows items t1 = rows items t" "\<forall>n. tc_name c \<noteq> Some n \<longrightarrow> txn_tables t1 n = txn_tables t n"
    using txn_open_create [of t c] by auto
  have "flags_ok dups t1 c'" if "c' \<in> set cs" for c'
  proof -
    have "flags_ok dups t c'" "tc_name c' \<noteq> tc_name c" using Cons.prems(1,3) that by (force simp: image_iff)+
    then show ?thesis using t1(5) by (auto simp: flags_ok_def)
  qed
  then obtain t' where t': "create_tables M cs t1 = Inr t'" "rows items t' = rows items t1" "\<forall>c\<in>set cs. has_table dups t' c"
    "\<forall>n. Some n \<notin> tc_name ` set cs \<longrightarrow> txn_tables t' n = txn_tables t1 n"
    using Cons.IH [of t1] Cons.prems t1(3) by auto
  have "has_table dups t' c" using t1(2) t'(4) Cons.prems(3) by (auto simp: has_table_def)
  then show ?case using t1 t' by auto
qed simp

text \<open>Reading and writing one value.\<close>

lemma txn_get_none:
  assumes "has_table dups t c" and "k \<noteq> []" and "\<And>v. (k, v) \<notin> rows items t c"
  shows "txn_get M c k t = Inr (None, t)"
proof -
  obtain d where d: "txn_open M c (\<not> txn_ro t) t = Inr (d, t)" "items d = rows items t c" using txn_open_table [OF assms(1)] by blast
  have "{p \<in> items d. fst p = k} = {}" using assms(3) d(2) by auto
  then have "fst (fst (mdb_cursor_get M d k [] MDB_SET)) = MDB_NOTFOUND"
    using get_set [OF assms(2), of d "[]"] by (simp add: found_def)
  then show ?thesis using d(1) by (simp add: txn_get_def case_prod_unfold)
qed

lemma txn_get_some:
  assumes "has_table dups t c" and "k \<noteq> []" and "(k, v) \<in> rows items t c" and "\<And>w. (k, w) \<in> rows items t c \<Longrightarrow> w = v"
  shows "txn_get M c k t = Inr (Some v, t)"
proof -
  obtain d where d: "txn_open M c (\<not> txn_ro t) t = Inr (d, t)" "items d = rows items t c" using txn_open_table [OF assms(1)] by blast
  have "(k, v) \<in> items d" using assms(3) d(2) by simp
  moreover have "w = v" if "(k, w) \<in> items d" for w using assms(4) [of w] that d(2) by simp
  ultimately obtain d' where "table_get M k d = Inr (Some v, d')" using table_get_some [OF assms(2)] by blast
  then show ?thesis
    using d(1)
    by (auto simp: txn_get_def table_get_def unless_not_found_def err_handler_def case_prod_unfold split: if_splits)
qed

lemma txn_put_rows:
  assumes "flags_ok dups t c" and "\<not> txn_ro t" and "storable (tc_dupsort c) k v"
  shows "\<exists>t'. txn_put M c k v t = (MDB_SUCCESS, t') \<and> has_table dups t' c \<and> txn_ro t' = txn_ro t \<and>
    rows items t' c = insert (k, v) (if tc_dupsort c then rows items t c else {p \<in> rows items t c. fst p \<noteq> k}) \<and>
    (\<forall>c'. tc_name c' \<noteq> tc_name c \<longrightarrow> rows items t' c' = rows items t c') \<and>
    (\<forall>c'. tc_name c' \<noteq> tc_name c \<longrightarrow> has_table dups t' c' = has_table dups t c')"
proof -
  obtain d t1 where t1: "txn_open M c True t = Inr (d, t1)" "items d = rows items t c" "dups d = tc_dupsort c"
    "has_table dups t1 c" "txn_ro t1 = txn_ro t" "rows items t1 = rows items t"
    "\<forall>n. tc_name c \<noteq> Some n \<longrightarrow> txn_tables t1 n = txn_tables t n"
    using txn_open_create [OF assms(1,2)] by blast
  obtain rc d' where put: "mdb_cursor_put M d k v = (rc, d')" by fastforce
  have "storable (dups d) k v" using assms(3) t1(3) by simp
  then have d': "rc = MDB_SUCCESS" "dups d' = tc_dupsort c"
    "items d' = insert (k, v) (if tc_dupsort c then rows items t c else {p \<in> rows items t c. fst p \<noteq> k})"
    using put_ok [of d k v] put_items [of d k v] put_dups [of d k v] put t1(2,3) by simp_all
  have name: "tc_name c \<noteq> None" using assms(1) by (auto simp: flags_ok_def)
  have other: "has_table dups t1 c' = has_table dups t c'" if "tc_name c' \<noteq> tc_name c" for c'
    using t1(7) that by (auto simp: has_table_def)
  show ?thesis
    using t1 put d' other has_table_store [of c dups d', OF name d'(2)] assms(2) by (simp add: txn_put_def rows_store)
qed

end

section \<open>Properties\<close>

lemma distinct_tables: "distinct (map tc_name kTables)"
  by (simp add: kTables_def table_defs)

end
