(* ===== verification/Stages.thy ===== *)
theory Stages
  imports Tables
begin

text \<open>
  db/silkworm/db/stages.hpp and stages.cpp: the block number each stage of the synchronisation has reached, and the
  one it must be unwound to, in two tables keyed by the name of the stage.
\<close>

definition kHeadersKey :: string where "kHeadersKey = ''Headers''"
definition kBlockHashesKey :: string where "kBlockHashesKey = ''BlockHashes''"
definition kBlockBodiesKey :: string where "kBlockBodiesKey = ''Bodies''"
definition kSendersKey :: string where "kSendersKey = ''Senders''"
definition kExecutionKey :: string where "kExecutionKey = ''Execution''"
definition kIntermediateHashesKey :: string where "kIntermediateHashesKey = ''IntermediateHashes''"
definition kHashStateKey :: string where "kHashStateKey = ''HashState''"
definition kAccountHistoryKey :: string where "kAccountHistoryKey = ''AccountHistoryIndex''"
definition kStorageHistoryIndexKey :: string where "kStorageHistoryIndexKey = ''StorageHistoryIndex''"
definition kLogIndexKey :: string where "kLogIndexKey = ''LogIndex''"
definition kCallTracesKey :: string where "kCallTracesKey = ''CallTraces''"
definition kTxLookupKey :: string where "kTxLookupKey = ''TxLookup''"
definition kTxPoolKey :: string where "kTxPoolKey = ''TxPool''"
definition kFinishKey :: string where "kFinishKey = ''Finish''"
definition kMiningCreateBlockKey :: string where "kMiningCreateBlockKey = ''MiningCreateBlock''"
definition kMiningExecutionKey :: string where "kMiningExecutionKey = ''MiningExecution''"
definition kMiningFinishKey :: string where "kMiningFinishKey = ''MiningFinish''"

definition kAllStages :: "string list" where
  "kAllStages =
     [kHeadersKey, kBlockHashesKey, kBlockBodiesKey, kSendersKey, kExecutionKey, kIntermediateHashesKey,
      kHashStateKey, kAccountHistoryKey, kStorageHistoryIndexKey, kLogIndexKey, kCallTracesKey, kTxLookupKey,
      kTxPoolKey, kFinishKey]"

lemmas stage_defs =
  kAllStages_def kHeadersKey_def kBlockHashesKey_def kBlockBodiesKey_def kSendersKey_def kExecutionKey_def
  kIntermediateHashesKey_def kHashStateKey_def kAccountHistoryKey_def kStorageHistoryIndexKey_def kLogIndexKey_def
  kCallTracesKey_def kTxLookupKey_def kTxPoolKey_def kFinishKey_def

definition is_known_stage :: "string \<Rightarrow> bool" where
  "is_known_stage name \<longleftrightarrow> name \<noteq> [] \<and> list_ex (\<lambda>stage. stage = name) kAllStages"

text \<open>The bytes of a C string.\<close>

definition bytes_of_string :: "string \<Rightarrow> bytes" where
  "bytes_of_string s = map (\<lambda>c. word_of_nat (of_char c)) s"

definition get_stage_data :: "'d lmdb_ops \<Rightarrow> 'd txn \<Rightarrow> string \<Rightarrow> table_config \<Rightarrow> (u64 \<times> 'd txn) db" where
  "get_stage_data M t stage_name domain =
     (if \<not> is_known_stage stage_name then Inl Invalid_argument
      else
        db_bind (txn_get M domain (bytes_of_string stage_name) t) (\<lambda>(data, t).
          (case data of
             None \<Rightarrow> Inr (0, t)
           | Some data \<Rightarrow> if length data \<noteq> 8 then Inl Length_error else Inr (word_of_nat (be_load data), t))))"

definition set_stage_data :: "'d lmdb_ops \<Rightarrow> 'd txn \<Rightarrow> string \<Rightarrow> u64 \<Rightarrow> table_config \<Rightarrow> 'd txn db" where
  "set_stage_data M t stage_name block_num domain =
     (if \<not> is_known_stage stage_name then Inl Invalid_argument
      else
        (case txn_put M domain (bytes_of_string stage_name) (be_store 8 (unat block_num)) t of
           (rc, t) \<Rightarrow> db_bind (err_handler rc) (\<lambda>_. Inr t)))"

definition get_stage_progress :: "'d lmdb_ops \<Rightarrow> 'd txn \<Rightarrow> string \<Rightarrow> (u64 \<times> 'd txn) db" where
  "get_stage_progress M t stage_name = get_stage_data M t stage_name kSyncStageProgress"

definition set_stage_progress :: "'d lmdb_ops \<Rightarrow> 'd txn \<Rightarrow> string \<Rightarrow> u64 \<Rightarrow> 'd txn db" where
  "set_stage_progress M t stage_name block_num = set_stage_data M t stage_name block_num kSyncStageProgress"

definition get_stage_unwind :: "'d lmdb_ops \<Rightarrow> 'd txn \<Rightarrow> string \<Rightarrow> (u64 \<times> 'd txn) db" where
  "get_stage_unwind M t stage_name = get_stage_data M t stage_name kSyncStageUnwind"

definition set_stage_unwind :: "'d lmdb_ops \<Rightarrow> 'd txn \<Rightarrow> string \<Rightarrow> u64 \<Rightarrow> 'd txn db" where
  "set_stage_unwind M t stage_name block_num = set_stage_data M t stage_name block_num kSyncStageUnwind"

definition clear_stage_unwind :: "'d lmdb_ops \<Rightarrow> 'd txn \<Rightarrow> string \<Rightarrow> 'd txn db" where
  "clear_stage_unwind M t stage_name = set_stage_data M t stage_name 0 kSyncStageUnwind"

section \<open>Lemmas\<close>

lemma byte_of_char_inj: "(word_of_nat (of_char c) :: u8) = word_of_nat (of_char d) \<longleftrightarrow> c = d"
proof
  assume "(word_of_nat (of_char c) :: u8) = word_of_nat (of_char d)"
  then have "unat (word_of_nat (of_char c) :: u8) = unat (word_of_nat (of_char d) :: u8)" by simp
  then have "(of_char c :: nat) mod 256 = of_char d mod 256" by (simp add: unat_byte_of_nat)
  then have "(of_char c :: nat) = of_char d" by simp
  then show "c = d" by simp
qed simp

lemma bytes_of_string_inj [simp]: "bytes_of_string s = bytes_of_string t \<longleftrightarrow> s = t"
  unfolding bytes_of_string_def by (rule inj_eq, rule inj_mapI, rule injI) (simp add: byte_of_char_inj)

lemma length_bytes_of_string [simp]: "length (bytes_of_string s) = length s" "bytes_of_string s = [] \<longleftrightarrow> s = []"
  by (simp_all add: bytes_of_string_def)

lemma known_stage_storable: "is_known_stage s \<Longrightarrow> storable False (bytes_of_string s) v"
proof -
  have "\<forall>s\<in>set kAllStages. length s \<le> 511" by (simp add: stage_defs)
  then show "is_known_stage s \<Longrightarrow> storable False (bytes_of_string s) v"
    by (auto simp: is_known_stage_def storable_def list_ex_iff)
qed

text \<open>The values of a table of stages: at most one per stage, of eight bytes.\<close>

definition stage_rows :: "(bytes \<times> bytes) set \<Rightarrow> bool" where
  "stage_rows S \<longleftrightarrow> (\<forall>k v w. (k, v) \<in> S \<longrightarrow> (k, w) \<in> S \<longrightarrow> v = w) \<and> (\<forall>(k, v)\<in>S. length v = 8)"

definition stage_of :: "(bytes \<times> bytes) set \<Rightarrow> string \<Rightarrow> u64 option" where
  "stage_of S s = (if \<exists>v. (bytes_of_string s, v) \<in> S then Some (word_of_nat (be_load (THE v. (bytes_of_string s, v) \<in> S))) else None)"

lemma stage_of_eq: "stage_rows S \<Longrightarrow> (bytes_of_string s, v) \<in> S \<Longrightarrow> stage_of S s = Some (word_of_nat (be_load v))"
proof -
  assume S: "stage_rows S" "(bytes_of_string s, v) \<in> S"
  then have "(THE v. (bytes_of_string s, v) \<in> S) = v" unfolding stage_rows_def by (intro the_equality) blast+
  with S(2) show ?thesis by (auto simp: stage_of_def)
qed

context lmdb
begin

lemma get_stage_data_rows:
  assumes "is_known_stage s" and "has_table dups t c" and "stage_rows (rows items t c)"
  shows "get_stage_data M t s c = Inr (case stage_of (rows items t c) s of None \<Rightarrow> 0 | Some n \<Rightarrow> n, t)"
proof -
  let ?k = "bytes_of_string s"
  have k: "?k \<noteq> []" using assms(1) by (simp add: is_known_stage_def)
  show ?thesis
  proof (cases "\<exists>v. (?k, v) \<in> rows items t c")
    case True
    then obtain v where v: "(?k, v) \<in> rows items t c" by blast
    moreover have "w = v" if "(?k, w) \<in> rows items t c" for w
      using assms(3) v that unfolding stage_rows_def by blast
    ultimately have "txn_get M c ?k t = Inr (Some v, t)" by (rule txn_get_some [OF assms(2) k])
    moreover have "length v = 8" using assms(3) v unfolding stage_rows_def by blast
    ultimately show ?thesis using assms(1) stage_of_eq [OF assms(3) v] by (simp add: get_stage_data_def)
  next
    case False
    then have "txn_get M c ?k t = Inr (None, t)" by (intro txn_get_none [OF assms(2) k]) blast
    then show ?thesis using assms(1) False by (simp add: get_stage_data_def stage_of_def)
  qed
qed

lemma set_stage_data_rows:
  assumes "is_known_stage s" and "flags_ok dups t c" and "\<not> txn_ro t" and "\<not> tc_dupsort c" and "stage_rows (rows items t c)"
  shows "\<exists>t'. set_stage_data M t s n c = Inr t' \<and> has_table dups t' c \<and> stage_rows (rows items t' c) \<and> txn_ro t' = txn_ro t \<and>
    (\<forall>s'. stage_of (rows items t' c) s' = (if s' = s then Some n else stage_of (rows items t c) s')) \<and>
    (\<forall>c'. tc_name c' \<noteq> tc_name c \<longrightarrow> rows items t' c' = rows items t c' \<and> has_table dups t' c' = has_table dups t c')"
proof -
  let ?k = "bytes_of_string s" and ?v = "be_store 8 (unat n)"
  obtain t' where t': "txn_put M c ?k ?v t = (MDB_SUCCESS, t')" "has_table dups t' c" "txn_ro t' = txn_ro t"
    "rows items t' c = insert (?k, ?v) {p \<in> rows items t c. fst p \<noteq> ?k}"
    "\<forall>c'. tc_name c' \<noteq> tc_name c \<longrightarrow> rows items t' c' = rows items t c'"
    "\<forall>c'. tc_name c' \<noteq> tc_name c \<longrightarrow> has_table dups t' c' = has_table dups t c'"
    using txn_put_rows [OF assms(2,3), of ?k ?v] known_stage_storable [OF assms(1)] assms(4) by auto
  have rows': "stage_rows (rows items t' c)" using assms(5) unfolding t'(4) stage_rows_def by auto
  moreover have "stage_of (rows items t' c) s' = (if s' = s then Some n else stage_of (rows items t c) s')" for s'
  proof (cases "s' = s")
    case True
    have "word_of_nat (be_load ?v) = n" using unsigned_less [of n, where ?'a = nat] by (simp add: be_load_store)
    then show ?thesis using stage_of_eq [OF rows', of s ?v] True t'(4) by simp
  next
    case False
    then have "(bytes_of_string s', v) \<in> rows items t' c \<longleftrightarrow> (bytes_of_string s', v) \<in> rows items t c" for v
      by (simp add: t'(4))
    then show ?thesis using False by (simp add: stage_of_def)
  qed
  ultimately show ?thesis using t' assms(1) by (auto simp: set_stage_data_def err_handler_def)
qed

end

section \<open>Properties\<close>

text \<open>
  The progress of a stage reads back as it was set, in the table that is created when it does not
  exist; the progress of the other stages and all unwind points stay as they were, and an unknown stage
  is refused.
\<close>

theorem stage_progress_roundtrip:
  assumes "lmdb M items at dups" and "is_known_stage s" and "is_known_stage s'" and "\<not> txn_ro t"
    and "flags_ok dups t kSyncStageProgress" and "stage_rows (rows items t kSyncStageProgress)"
    and "has_table dups t kSyncStageUnwind" and "stage_rows (rows items t kSyncStageUnwind)"
    and "\<not> is_known_stage x"
  shows "\<exists>t'. set_stage_progress M t s n = Inr t' \<and>
    get_stage_progress M t' s' =
      Inr (if s' = s then n else (case stage_of (rows items t kSyncStageProgress) s' of None \<Rightarrow> 0 | Some m \<Rightarrow> m), t') \<and>
    (\<exists>m. get_stage_unwind M t s' = Inr (m, t) \<and> get_stage_unwind M t' s' = Inr (m, t')) \<and>
    get_stage_progress M t x = Inl Invalid_argument \<and> set_stage_progress M t x n = Inl Invalid_argument"
proof -
  have c: "\<not> tc_dupsort kSyncStageProgress" "tc_name kSyncStageUnwind \<noteq> tc_name kSyncStageProgress" by (simp_all add: table_defs)
  obtain t' where t': "set_stage_data M t s n kSyncStageProgress = Inr t'" "has_table dups t' kSyncStageProgress"
    "stage_rows (rows items t' kSyncStageProgress)"
    "\<And>s'. stage_of (rows items t' kSyncStageProgress) s' = (if s' = s then Some n else stage_of (rows items t kSyncStageProgress) s')"
    "rows items t' kSyncStageUnwind = rows items t kSyncStageUnwind" "has_table dups t' kSyncStageUnwind"
    using lmdb.set_stage_data_rows [OF assms(1,2,5,4) c(1) assms(6)] c(2) assms(7) by blast
  have "get_stage_data M t' s' kSyncStageUnwind = Inr (case stage_of (rows items t kSyncStageUnwind) s' of None \<Rightarrow> 0 | Some m \<Rightarrow> m, t')"
    using lmdb.get_stage_data_rows [OF assms(1,3) t'(6)] t'(5) assms(8) by simp
  then show ?thesis
    using t'(1,4) lmdb.get_stage_data_rows [OF assms(1,3) t'(2,3)] lmdb.get_stage_data_rows [OF assms(1,3,7,8)] assms(9)
    by (simp add: set_stage_progress_def get_stage_progress_def get_stage_unwind_def)
       (simp add: get_stage_data_def set_stage_data_def)
qed

theorem stage_progress_roundtrip_witness:
  "\<exists>t'. set_stage_progress list_lmdb
      \<lparr>txn_ro = False, txn_main = empty_list_db False, txn_tables = [''SSU2'' \<mapsto> empty_list_db False]\<rparr> ''Senders'' 12 = Inr t' \<and>
    get_stage_progress list_lmdb t' ''Senders'' = Inr (12, t')"
proof -
  let ?t = "\<lparr>txn_ro = False, txn_main = empty_list_db False, txn_tables = [''SSU2'' \<mapsto> empty_list_db False]\<rparr>"
  have "is_known_stage ''Senders''" "\<not> is_known_stage ''Sender''" by (simp_all add: is_known_stage_def stage_defs)
  moreover have "flags_ok ld_dups ?t kSyncStageProgress" "has_table ld_dups ?t kSyncStageUnwind"
    by (simp_all add: flags_ok_def has_table_def table_defs empty_list_db_def)
  moreover have "rows (\<lambda>d. set (ld_items d)) ?t kSyncStageProgress = {}" "rows (\<lambda>d. set (ld_items d)) ?t kSyncStageUnwind = {}"
    by (simp_all add: rows_def table_defs empty_list_db_def)
  ultimately show ?thesis
    using stage_progress_roundtrip [OF list_lmdb.lmdb_axioms, of "''Senders''" "''Senders''" ?t "''Sender''" 12]
    by (auto simp: stage_rows_def)
qed

end
