(* ===== verification/Db_Util.thy ===== *)
theory Db_Util
  imports Lmdb Block
begin

text \<open>
  db/silkworm/db/util.hpp and util.cpp: the keys of the tables and the stored form of a block body.  Numbers are
  stored big-endian, so that the order of the keys is the order of the numbers.
\<close>

section \<open>Keys\<close>

definition kIncarnationLength :: u64 where
  "kIncarnationLength = 8"

definition kStoragePrefixLength :: u64 where
  "kStoragePrefixLength = kAddressLength + kIncarnationLength"

definition storage_prefix :: "bytes \<Rightarrow> u64 \<Rightarrow> bytes" where
  "storage_prefix address incarnation = address @ be_store (unat kIncarnationLength) (unat incarnation)"

definition block_key :: "u64 \<Rightarrow> bytes" where
  "block_key block_number = be_store 8 (unat block_number)"

definition block_hash_key :: "u64 \<Rightarrow> bytes32 \<Rightarrow> bytes" where
  "block_hash_key block_number hash = be_store 8 (unat block_number) @ full_view_bytes32 hash"

definition storage_change_key :: "u64 \<Rightarrow> address \<Rightarrow> u64 \<Rightarrow> bytes" where
  "storage_change_key block_number address incarnation =
     be_store 8 (unat block_number) @ full_view_address address @ be_store 8 (unat incarnation)"

definition account_history_key :: "address \<Rightarrow> u64 \<Rightarrow> bytes" where
  "account_history_key address block_number = full_view_address address @ be_store 8 (unat block_number)"

definition storage_history_key :: "address \<Rightarrow> bytes32 \<Rightarrow> u64 \<Rightarrow> bytes" where
  "storage_history_key address location block_number =
     full_view_address address @ full_view_bytes32 location @ be_store 8 (unat block_number)"

definition log_key :: "u64 \<Rightarrow> u32 \<Rightarrow> bytes" where
  "log_key block_number transaction_id = be_store 8 (unat block_number) @ be_store 4 (unat transaction_id)"

section \<open>Stored block bodies\<close>

record block_body_for_storage =
  base_txn_id :: u64
  txn_count :: u64
  stored_ommers :: "block_header list"

definition encode_stored_block_body :: "block_body_for_storage \<Rightarrow> bytes" where
  "encode_stored_block_body body =
     encode_header \<lparr>is_list = True,
       payload_length = length_uint64 (base_txn_id body) + length_uint64 (txn_count body) +
         length_vector length_block_header (stored_ommers body)\<rparr> @
     encode_uint64 (base_txn_id body) @ encode_uint64 (txn_count body) @
     encode_vector length_block_header encode_header_of_vector (stored_ommers body)"

definition decode_stored_fields :: "bytes \<Rightarrow> (block_body_for_storage \<times> bytes) res" where
  "decode_stored_fields from =
     rbind (decode_uint64 from) (\<lambda>(base_txn_id, from).
     rbind (decode_uint64 from) (\<lambda>(txn_count, from).
     rbind (decode_vector decode_block_header from) (\<lambda>(ommers, from).
       Ok (\<lparr>base_txn_id = base_txn_id, txn_count = txn_count, stored_ommers = ommers\<rparr>, from))))"

definition decode_stored_block_body :: "bytes \<Rightarrow> (block_body_for_storage \<times> bytes) res" where
  "decode_stored_block_body = decode_struct decode_stored_fields"

text \<open>The codec is canonical.\<close>

definition stored_payload :: "block_body_for_storage \<Rightarrow> bytes" where
  "stored_payload b = encode_uint64 (base_txn_id b) @ encode_uint64 (txn_count b) @
     encode_vector length_block_header encode_header_of_vector (stored_ommers b)"

definition stored_valid :: "block_body_for_storage \<Rightarrow> bool" where
  "stored_valid b \<longleftrightarrow> ((\<forall>h\<in>set (stored_ommers b). header_valid h) \<and>
     length (concat (map encode_header_of_vector (stored_ommers b))) < 2 ^ 64) \<and> length (stored_payload b) < 2 ^ 64"

definition length_stored :: "block_body_for_storage \<Rightarrow> u64" where
  "length_stored b = word_of_nat (length (encode_stored_block_body b))"

lemma decode_stored_fields_Ok_iff:
  "decode_stored_fields bs = Ok (b, rest) \<longleftrightarrow>
     ((\<forall>h\<in>set (stored_ommers b). header_valid h) \<and>
      length (concat (map encode_header_of_vector (stored_ommers b))) < 2 ^ 64) \<and> bs = stored_payload b @ rest"
proof (cases b)
  case (fields i n v)
  show ?thesis
    unfolding fields decode_stored_fields_def rbind_Ok_iff stored_payload_def
    by (auto simp: decode_uint64_Ok_iff rbind_Ok_iff ommers_codec.dec_Ok_iff)
qed

interpretation stored_codec: rlp_canonical encode_stored_block_body decode_stored_block_body length_stored stored_valid
proof -
  have "rlp_canonical encode_stored_block_body (decode_struct decode_stored_fields) length_stored
    (\<lambda>b. ((\<forall>h\<in>set (stored_ommers b). header_valid h) \<and>
      length (concat (map encode_header_of_vector (stored_ommers b))) < 2 ^ 64) \<and> length (stored_payload b) < 2 ^ 64)"
    by (rule struct_canonical)
       (simp_all add: decode_stored_fields_Ok_iff encode_stored_block_body_def stored_payload_def length_stored_def
         ommers_codec.len_valid length_encode_uint64 add.assoc)
  then show "rlp_canonical encode_stored_block_body decode_stored_block_body length_stored stored_valid"
    unfolding decode_stored_block_body_def stored_valid_def [abs_def] .
qed

section \<open>Lemmas on keys\<close>

lemma be_store_inj: "unat m < 256 ^ k \<Longrightarrow> unat n < 256 ^ k \<Longrightarrow> be_store k (unat m) = be_store k (unat n) \<longleftrightarrow> m = n"
  for m n :: "'a::len word"
  by (metis be_load_store mod_less unsigned_word_eqI)

lemma u64_bound [simp]: "unat (n :: u64) < 256 ^ 8"
  using unsigned_less [of n, where ?'a = nat] by simp

lemma u32_bound [simp]: "unat (n :: u32) < 256 ^ 4"
  using unsigned_less [of n, where ?'a = nat] by simp

lemma be_store_u64_inj [simp]: "be_store 8 (unat m) = be_store 8 (unat n) \<longleftrightarrow> m = n" for m n :: u64
  by (rule be_store_inj) (rule u64_bound)+

lemma be_store_u32_inj [simp]: "be_store 4 (unat m) = be_store 4 (unat n) \<longleftrightarrow> m = n" for m n :: u32
  by (rule be_store_inj) (rule u32_bound)+

lemma load_be_u64 [simp]: "word_of_nat (be_load (be_store 8 (unat n))) = n" for n :: u64
  using u64_bound [of n] by (simp add: be_load_store)

lemma full_view_inj [simp]:
  "full_view_bytes32 x = full_view_bytes32 y \<longleftrightarrow> x = y" "full_view_address a = full_view_address b \<longleftrightarrow> a = b"
  by (metis full_view_bytes32_load) (metis full_view_address_load)

lemma append_views [simp]:
  "full_view_address a @ u = full_view_address b @ v \<longleftrightarrow> a = b \<and> u = v"
  "full_view_bytes32 x @ u = full_view_bytes32 y @ v \<longleftrightarrow> x = y \<and> u = v"
  "be_store 8 (unat m) @ u = be_store 8 (unat n) @ v \<longleftrightarrow> m = n \<and> u = v"
  for m n :: u64
  by (simp_all add: append_eq_append_conv length_full_view)

lemma keys_inj [simp]:
  "block_key m = block_key n \<longleftrightarrow> m = n"
  "block_hash_key m h = block_hash_key n g \<longleftrightarrow> m = n \<and> h = g"
  "storage_prefix (full_view_address a) i = storage_prefix (full_view_address b) j \<longleftrightarrow> a = b \<and> i = j"
  "storage_change_key m a i = storage_change_key n b j \<longleftrightarrow> m = n \<and> a = b \<and> i = j"
  "log_key m t = log_key n u \<longleftrightarrow> m = n \<and> t = u"
  by (simp_all add: block_key_def block_hash_key_def storage_prefix_def kIncarnationLength_def storage_change_key_def
      log_key_def)

lemma length_keys [simp]:
  "length (block_key n) = 8" "length (block_hash_key n h) = 40" "length (storage_prefix (full_view_address a) i) = 28"
  "length (storage_change_key n a i) = 36" "length (log_key n t) = 12"
  by (simp_all add: block_key_def block_hash_key_def storage_prefix_def kIncarnationLength_def storage_change_key_def
      log_key_def length_full_view)

end
