(* ===== verification/Bitmap.thy ===== *)
theory Bitmap
  imports Prelude "HOL-Library.Monad_Syntax"
begin

text \<open>
  db/silkworm/db/bitmap.hpp and bitmap.cpp: reading, searching and cutting Roaring bitmaps.

  The Roaring library is a parameter: a record of the functions that are called, for the 32-bit and for the
  64-bit bitmap.  The locale \<open>roaring\<close> holds what its documentation promises in terms of the values of a
  bitmap, and \<open>list_roaring\<close> is an implementation.  \<open>rm_from_range\<close> makes a 32-bit bitmap and returns a null pointer on
  an empty range.  \<open>None\<close> is the use of a null pointer, an exception, or a loop without end.
\<close>

unbundle bit_operations_syntax

section \<open>The interface of the library\<close>

record ('m, 'w) roaring_ops =
  rm_read_safe :: "bytes \<Rightarrow> 'm option"
  rm_values :: "'m \<Rightarrow> 'w list"
  rm_minimum :: "'m \<Rightarrow> 'w"
  rm_maximum :: "'m \<Rightarrow> 'w"
  rm_size_in_bytes :: "'m \<Rightarrow> u64"
  rm_from_range :: "u64 \<Rightarrow> u64 \<Rightarrow> 'm option"
  rm_and :: "'m \<Rightarrow> 'm \<Rightarrow> 'm"
  rm_run_optimize :: "'m \<Rightarrow> 'm"
  rm_remove :: "'w \<Rightarrow> 'm \<Rightarrow> 'm"
  rm_remove_range_closed :: "'w \<Rightarrow> 'w \<Rightarrow> 'm \<Rightarrow> 'm"
  rm_empty :: 'm

section \<open>The functions\<close>

definition kBitmapChunkLimit :: u64 where
  "kBitmapChunkLimit = 1950"

definition bitmap_read :: "('m, u64) roaring_ops \<Rightarrow> bytes \<Rightarrow> 'm option" where
  "bitmap_read R serialized = rm_read_safe R serialized"

text \<open>\<open>move(n)\<close> advances the iterator to the first value that is not less than \<open>n\<close>.\<close>

definition bitmap_seek :: "('m, u64) roaring_ops \<Rightarrow> 'm \<Rightarrow> u64 \<Rightarrow> u64 option" where
  "bitmap_seek R bm n = find (\<lambda>v. n \<le> v) (rm_values R bm)"

text \<open>The part of a bitmap in a range, with the containers optimised.\<close>

definition in_range :: "('m, 'w) roaring_ops \<Rightarrow> u64 \<Rightarrow> u64 \<Rightarrow> 'm \<Rightarrow> 'm option" where
  "in_range R lower upper bm = do { r \<leftarrow> rm_from_range R lower upper; Some (rm_run_optimize R (rm_and R r bm)) }"

text \<open>The search for the cutting point.\<close>

partial_function (option) search_cut :: "('m, 'w) roaring_ops \<Rightarrow> 'm \<Rightarrow> u64 \<Rightarrow> u64 \<Rightarrow> u64 \<Rightarrow> u64 \<Rightarrow> u64 option" where
  "search_cut R bm size_limit start i j =
     (if i < j then
        do {
          let h = drop_bit 1 (i + j);
          current_bitmap \<leftarrow> in_range R start (start + i + 1) bm;
          (if rm_size_in_bytes R current_bitmap \<le> size_limit then search_cut R bm size_limit start (h + 1) j
           else search_cut R bm size_limit start i h)
        }
      else Some i)"

partial_function (option) remove_each :: "('m, u64) roaring_ops \<Rightarrow> u64 \<Rightarrow> u64 \<Rightarrow> 'm \<Rightarrow> 'm option" where
  "remove_each R k upper bm = (if k \<le> upper then remove_each R (k + 1) upper (rm_remove R k bm) else Some bm)"

definition cut_left64 :: "('m, u64) roaring_ops \<Rightarrow> 'm \<Rightarrow> u64 \<Rightarrow> ('m \<times> 'm) option" where
  "cut_left64 R bm size_limit =
     (if rm_size_in_bytes R bm \<le> size_limit then
        do {
          res \<leftarrow> in_range R (rm_minimum R bm) (rm_maximum R bm + 1) bm;
          Some (res, rm_empty R)
        }
      else
        do {
          let start = rm_minimum R bm;
          let min_max = rm_maximum R bm - rm_minimum R bm;
          i \<leftarrow> search_cut R bm size_limit start min_max 0;
          res \<leftarrow> in_range R start (start + i) bm;
          bm \<leftarrow> remove_each R start (start + i) bm;
          Some (res, bm)
        })"

text \<open>The 32-bit version: minimum and maximum are 32-bit words, and so is their difference.\<close>

definition cut_left32 :: "('m, u32) roaring_ops \<Rightarrow> 'm \<Rightarrow> u64 \<Rightarrow> ('m \<times> 'm) option" where
  "cut_left32 R bm size_limit =
     (if rm_size_in_bytes R bm \<le> size_limit then
        do {
          res \<leftarrow> in_range R (ucast (rm_minimum R bm)) (ucast (rm_maximum R bm + 1)) bm;
          Some (res, rm_empty R)
        }
      else
        do {
          let start = rm_minimum R bm;
          let min_max = rm_maximum R bm - rm_minimum R bm;
          i \<leftarrow> search_cut R bm size_limit (ucast start) (ucast min_max) 0;
          res \<leftarrow> in_range R (ucast start) (ucast start + i) bm;
          Some (res, rm_remove_range_closed R start (ucast (ucast start + i)) bm)
        })"

section \<open>What the library promises\<close>

locale roaring =
  fixes R :: "('m, 'a::len word) roaring_ops"
  assumes sorted_values: "sorted_wrt (<) (rm_values R m)"
    and minimum_values: "rm_values R m \<noteq> [] \<Longrightarrow> rm_minimum R m = hd (rm_values R m)"
    and maximum_values: "rm_values R m \<noteq> [] \<Longrightarrow> rm_maximum R m = last (rm_values R m)"
    and from_range_empty: "b \<le> a \<Longrightarrow> rm_from_range R a b = None"
    and from_range_values: "a < b \<Longrightarrow> b \<le> 2 ^ 32 \<Longrightarrow>
      \<exists>m. rm_from_range R a b = Some m \<and> set (rm_values R m) = {x. unat a \<le> unat x \<and> unat x < unat b}"
    and and_values: "set (rm_values R (rm_and R m n)) = set (rm_values R m) \<inter> set (rm_values R n)"
    and run_optimize_values: "set (rm_values R (rm_run_optimize R m)) = set (rm_values R m)"
    and remove_values: "set (rm_values R (rm_remove R x m)) = set (rm_values R m) - {x}"
    and remove_range_values: "set (rm_values R (rm_remove_range_closed R x y m)) = set (rm_values R m) - {x..y}"
    and empty_values: "rm_values R (rm_empty R) = []"
begin

lemma in_range_values:
  assumes "a < b" "b \<le> 2 ^ 32"
  shows "\<exists>m. in_range R a b bm = Some m \<and> set (rm_values R m) = {x \<in> set (rm_values R bm). unat a \<le> unat x \<and> unat x < unat b}"
  using from_range_values [OF assms] by (auto simp: in_range_def run_optimize_values and_values)

lemma sorted_rm_values: "sorted (rm_values R m)" "distinct (rm_values R m)"
  using sorted_values [of m] by (simp_all add: strict_sorted_iff)

lemma values_bounds:
  assumes "x \<in> set (rm_values R m)"
  shows "rm_minimum R m \<le> x" "x \<le> rm_maximum R m"
proof -
  from assms obtain i where i: "i < length (rm_values R m)" "x = rm_values R m ! i" by (auto simp: in_set_conv_nth)
  then have ne: "rm_values R m \<noteq> []" by auto
  show "rm_minimum R m \<le> x"
    using sorted_nth_mono [OF sorted_rm_values(1), of 0 i] i ne by (simp add: minimum_values hd_conv_nth)
  show "x \<le> rm_maximum R m"
    using sorted_nth_mono [OF sorted_rm_values(1), of i "length (rm_values R m) - 1" m] i ne
    by (simp add: maximum_values last_conv_nth)
qed

lemma values_between: "set (rm_values R m) - {rm_minimum R m..rm_maximum R m} = {}"
  using values_bounds by fastforce

lemma values_eqI: "set (rm_values R m) = set xs \<Longrightarrow> sorted_wrt (<) xs \<Longrightarrow> rm_values R m = xs"
  using sorted_values [of m] by (metis strict_sorted_iff sorted_distinct_set_unique)

lemma search_cut_stops: "search_cut R bm limit start i 0 = Some i"
  by (subst search_cut.simps) simp

lemma butlast_values:
  assumes "rm_values R m \<noteq> []"
  shows "set (butlast (rm_values R m)) = {x \<in> set (rm_values R m). x < rm_maximum R m}"
proof -
  obtain xs x where xs: "rm_values R m = xs @ [x]" using assms by (metis append_butlast_last_id)
  then have "rm_maximum R m = x" using assms by (simp add: maximum_values)
  then show ?thesis using sorted_values [of m] by (auto simp: xs sorted_wrt_append)
qed

text \<open>The range from the minimum to the maximum, without the latter, holds all values but the last.\<close>

lemma in_range_butlast:
  assumes "rm_minimum R bm < rm_maximum R bm" "unat (rm_maximum R bm) < 2 ^ 32" "rm_values R bm \<noteq> []"
    and "unat start = unat (rm_minimum R bm)" "unat upper = unat (rm_maximum R bm)"
  shows "\<exists>res. in_range R start upper bm = Some res \<and> rm_values R res = butlast (rm_values R bm)"
proof -
  have "start < upper" "upper \<le> 2 ^ 32"
    using assms by (simp_all add: word_less_nat_alt word_le_nat_alt)
  then obtain res where res: "in_range R start upper bm = Some res"
    "set (rm_values R res) = {x \<in> set (rm_values R bm). unat start \<le> unat x \<and> unat x < unat upper}"
    using in_range_values by blast
  have "set (rm_values R res) = set (butlast (rm_values R bm))"
    unfolding res(2) butlast_values [OF assms(3)]
    using values_bounds assms(4,5) by (auto simp: word_less_nat_alt word_le_nat_alt)
  moreover have "sorted_wrt (<) (butlast (rm_values R bm))"
    using sorted_values [of bm] by (metis butlast_conv_take sorted_wrt_take)
  ultimately show ?thesis using res(1) values_eqI by blast
qed

lemma in_range_all:
  assumes "rm_values R bm \<noteq> []" "unat start = unat (rm_minimum R bm)" "unat upper = Suc (unat (rm_maximum R bm))"
    and "unat (rm_maximum R bm) < 2 ^ 32"
  shows "\<exists>res. in_range R start upper bm = Some res \<and> rm_values R res = rm_values R bm"
proof -
  have "rm_minimum R bm \<le> rm_maximum R bm"
    using values_bounds [of "hd (rm_values R bm)" bm] hd_in_set [OF assms(1)] by (metis order_trans)
  then have "start < upper" "upper \<le> 2 ^ 32"
    using assms by (simp_all add: word_less_nat_alt word_le_nat_alt)
  then obtain res where res: "in_range R start upper bm = Some res"
    "set (rm_values R res) = {x \<in> set (rm_values R bm). unat start \<le> unat x \<and> unat x < unat upper}"
    using in_range_values by blast
  have "set (rm_values R res) = set (rm_values R bm)"
    unfolding res(2) using values_bounds assms(2,3) by (auto simp: word_le_nat_alt less_Suc_eq_le)
  then show ?thesis using res(1) values_eqI sorted_values by blast
qed

end

section \<open>Removing and seeking\<close>

lemma remove_each_values:
  assumes "roaring R" and "upper < 2 ^ 64 - 1"
  shows "\<exists>m. remove_each R k upper bm = Some m \<and> set (rm_values R m) = set (rm_values R bm) - {k..upper}"
proof (induction "unat upper + 1 - unat k" arbitrary: k bm)
  case 0
  then have "\<not> k \<le> upper" by (simp add: word_le_nat_alt)
  then show ?case by (subst remove_each.simps) simp
next
  case (Suc n)
  then have le: "k \<le> upper" by (simp add: word_le_nat_alt)
  have "unat k < 2 ^ 64 - 1" using le assms(2) by (simp add: word_le_nat_alt word_less_nat_alt)
  then have k1: "unat (k + 1) = unat k + 1" by (simp add: unat_word_ariths)
  have "n = unat upper + 1 - unat (k + 1)" using k1 Suc(2) by arith
  then obtain m where "remove_each R (k + 1) upper (rm_remove R k bm) = Some m"
    "set (rm_values R m) = set (rm_values R (rm_remove R k bm)) - {k + 1..upper}"
    using Suc(1) [of "k + 1" "rm_remove R k bm"] by blast
  moreover have "insert k {k + 1..upper} = {k..upper}"
    using le k1 by (auto simp: word_le_nat_alt word_unat_eq_iff)
  ultimately show ?case using le roaring.remove_values [OF assms(1)] by (subst remove_each.simps) auto
qed

lemma find_sorted:
  "sorted xs \<Longrightarrow> find (\<lambda>v. n \<le> v) xs = Some v \<longleftrightarrow> v \<in> set xs \<and> n \<le> v \<and> (\<forall>w\<in>set xs. n \<le> w \<longrightarrow> v \<le> w)"
  by (induction xs) (auto intro: antisym)

lemma bitmap_seek_iff:
  assumes "roaring R"
  shows "bitmap_seek R bm n = Some v \<longleftrightarrow>
    v \<in> set (rm_values R bm) \<and> n \<le> v \<and> (\<forall>w\<in>set (rm_values R bm). n \<le> w \<longrightarrow> v \<le> w)"
  unfolding bitmap_seek_def by (rule find_sorted [OF roaring.sorted_rm_values(1) [OF assms]])

section \<open>An implementation\<close>

text \<open>Bitmaps as sorted lists of their values, eight bytes each.\<close>

definition range_list :: "u64 \<Rightarrow> u64 \<Rightarrow> 'a::len word list" where
  "range_list a b = map word_of_nat [unat a..<min (unat b) (min (2 ^ 32) (2 ^ LENGTH('a)))]"

definition list_roaring :: "('a::len word list, 'a word) roaring_ops" where
  "list_roaring =
     \<lparr>rm_read_safe = (\<lambda>bs. Some (sorted_list_of_set (set (map ucast bs)))), rm_values = sorted_list_of_set \<circ> set,
      rm_minimum = (\<lambda>m. hd (sorted_list_of_set (set m))), rm_maximum = (\<lambda>m. last (sorted_list_of_set (set m))),
      rm_size_in_bytes = (\<lambda>m. 8 * word_of_nat (length m)),
      rm_from_range = (\<lambda>a b. if a < b then Some (range_list a b) else None),
      rm_and = (\<lambda>m n. filter (\<lambda>x. x \<in> set n) m), rm_run_optimize = id,
      rm_remove = (\<lambda>x. filter (\<lambda>y. y \<noteq> x)), rm_remove_range_closed = (\<lambda>x y. filter (\<lambda>z. \<not> (x \<le> z \<and> z \<le> y))),
      rm_empty = []\<rparr>"

lemma set_range_list:
  "set (range_list a b :: 'a::len word list) = {x. unat a \<le> unat x \<and> unat x < min (unat b) (2 ^ 32)}"
proof (intro equalityI subsetI)
  fix x :: "'a word"
  assume "x \<in> {x. unat a \<le> unat x \<and> unat x < min (unat b) (2 ^ 32)}"
  then show "x \<in> set (range_list a b)"
    using unsigned_less [of x, where ?'a = nat] by (auto simp: range_list_def image_iff intro!: bexI [of _ "unat x"])
qed (auto simp: range_list_def unat_of_nat min_def split: if_splits)

interpretation list_roaring: roaring "list_roaring :: ('a::len word list, 'a word) roaring_ops"
proof
  fix a b :: u64
  assume "a < b" "b \<le> 2 ^ 32"
  then have "min (unat b) (2 ^ 32) = unat b" by (simp add: word_le_nat_alt)
  then show "\<exists>m. rm_from_range list_roaring a b = Some m \<and>
      set (rm_values list_roaring m) = {x :: 'a word. unat a \<le> unat x \<and> unat x < unat b}"
    using \<open>a < b\<close> by (simp add: list_roaring_def set_range_list)
qed (auto simp: list_roaring_def)

section \<open>Properties\<close>

text \<open>
  A bitmap that is too large is cut wrongly: the search for the cutting point never runs, the piece
  that is returned holds all values but the maximum, whatever its size, and the bitmap that is
  left is empty, so the maximum is lost.
\<close>

theorem cut_left_loses_maximum:
  assumes "roaring R" and "rm_minimum R bm < rm_maximum R bm" and "rm_values R bm \<noteq> []" and "rm_maximum R bm < 2 ^ 32"
    and "size_limit < rm_size_in_bytes R bm"
  shows "\<exists>res rest. cut_left64 R bm size_limit = Some (res, rest) \<and> rm_values R res = butlast (rm_values R bm) \<and>
    rm_values R rest = []"
proof -
  let ?lo = "rm_minimum R bm" and ?hi = "rm_maximum R bm"
  have hi: "unat ?hi < 2 ^ 32" using assms(4) by (simp add: word_less_nat_alt)
  obtain res where res: "in_range R ?lo ?hi bm = Some res" "rm_values R res = butlast (rm_values R bm)"
    using roaring.in_range_butlast [OF assms(1,2) hi assms(3)] by blast
  have "?hi < 2 ^ 64 - 1" using hi by (simp add: word_less_nat_alt)
  then obtain rest where rest: "remove_each R ?lo ?hi bm = Some rest"
    "set (rm_values R rest) = set (rm_values R bm) - {?lo..?hi}"
    using remove_each_values [OF assms(1)] by blast
  then have "rm_values R rest = []" using roaring.values_between [OF assms(1)] by simp
  moreover have "\<not> rm_size_in_bytes R bm \<le> size_limit" using assms(5) by simp
  ultimately show ?thesis
    using res rest roaring.search_cut_stops [OF assms(1)] by (simp add: cut_left64_def)
qed

theorem cut_left_loses_maximum_witness:
  "\<exists>res rest. cut_left64 list_roaring [3, 5, 9] 16 = Some (res, rest) \<and> rm_values list_roaring res = [3, 5] \<and>
    rm_values list_roaring rest = []"
  using cut_left_loses_maximum [OF list_roaring.roaring_axioms, of "[3, 5, 9]" 16] by (simp add: list_roaring_def)

text \<open>The 32-bit version cuts in the same way.\<close>

lemma cut_left32_loses_maximum:
  assumes "roaring R" and "rm_minimum R bm < rm_maximum R bm" and "rm_values R bm \<noteq> []"
    and "size_limit < rm_size_in_bytes R bm"
  shows "\<exists>res rest. cut_left32 R bm size_limit = Some (res, rest) \<and> rm_values R res = butlast (rm_values R bm) \<and>
    rm_values R rest = []"
proof -
  let ?lo = "rm_minimum R bm" and ?hi = "rm_maximum R bm"
  have hi: "unat ?hi < 2 ^ 32" using unsigned_less [of ?hi, where ?'a = nat] by simp
  have up: "unat (ucast ?lo :: u64) = unat ?lo" "unat (ucast ?hi :: u64) = unat ?hi" "unat (ucast (?hi - ?lo) :: u64) = unat ?hi - unat ?lo"
    using assms(2) hi by (simp_all add: unsigned_ucast_eq take_bit_eq_mod unat_sub word_less_nat_alt word_le_nat_alt)
  have sum: "ucast ?lo + ucast (?hi - ?lo) = (ucast ?hi :: u64)"
    using assms(2) up hi by (simp add: word_unat_eq_iff unat_word_ariths word_less_nat_alt)
  have narrow: "ucast (ucast ?hi :: u64) = ?hi" using hi up(2) by (simp add: word_unat_eq_iff unsigned_ucast_eq [of "ucast ?hi :: u64"] take_bit_eq_mod)
  obtain res where res: "in_range R (ucast ?lo) (ucast ?hi) bm = Some res" "rm_values R res = butlast (rm_values R bm)"
    using roaring.in_range_butlast [OF assms(1,2) hi assms(3) up(1,2)] by blast
  have "set (rm_values R (rm_remove_range_closed R ?lo ?hi bm)) = {}"
    using roaring.remove_range_values [OF assms(1)] roaring.values_between [OF assms(1)] by simp
  moreover have "\<not> rm_size_in_bytes R bm \<le> size_limit" using assms(4) by simp
  ultimately show ?thesis
    using res roaring.search_cut_stops [OF assms(1)] by (simp add: cut_left32_def sum narrow)
qed

text \<open>A bitmap within the limit is returned whole.\<close>

lemma cut_left64_whole:
  assumes "roaring R" and "rm_values R bm \<noteq> []" and "rm_maximum R bm < 2 ^ 32" and "rm_size_in_bytes R bm \<le> size_limit"
  shows "\<exists>res rest. cut_left64 R bm size_limit = Some (res, rest) \<and> rm_values R res = rm_values R bm \<and> rm_values R rest = []"
proof -
  have hi: "unat (rm_maximum R bm) < 2 ^ 32" using assms(3) by (simp add: word_less_nat_alt)
  then have "unat (rm_maximum R bm + 1) = Suc (unat (rm_maximum R bm))" by (simp add: unat_word_ariths)
  then show ?thesis
    using roaring.in_range_all [OF assms(1,2) refl _ hi] roaring.empty_values [OF assms(1)] assms(4)
    by (fastforce simp: cut_left64_def)
qed

end
