(* ===== verification/Access_Layer.thy ===== *)
theory Access_Layer
  imports Tables Stages Db_Util Bitmap Account
begin

text \<open>
  db/silkworm/db/access_layer.cpp: reading blocks, accounts, storage and change sets from the tables of a
  transaction, today's and those of an earlier block.

  A reader opens a cursor, uses it and drops it, so it does not change the transaction.  The loops over
  cursors end when LMDB reports that there is no further item; a loop without end is \<open>Db_stuck\<close>.
\<close>

section \<open>Helpers\<close>

text \<open>\<open>rlp::err_handler\<close>, and a decoder that reads outside its input.\<close>

fun rlp_err_handler :: "'a res \<Rightarrow> 'a db" where
  "rlp_err_handler (Ok x) = Inr x"
| "rlp_err_handler (Err e) = Inl (Rlp_exception e)"
| "rlp_err_handler Stuck = Inl Db_stuck"

text \<open>The value of a key in a table that is opened for this purpose.\<close>

definition get_in :: "'d lmdb_ops \<Rightarrow> 'd txn \<Rightarrow> table_config \<Rightarrow> bytes \<Rightarrow> bytes option db" where
  "get_in M t config key =
     db_bind (txn_open M config False t) (\<lambda>(d, _). db_bind (table_get M key d) (\<lambda>(val, _). Inr val))"

definition get_sub_in :: "'d lmdb_ops \<Rightarrow> 'd txn \<Rightarrow> table_config \<Rightarrow> bytes \<Rightarrow> bytes \<Rightarrow> bytes option db" where
  "get_sub_in M t config key sub_key =
     db_bind (txn_open M config False t) (\<lambda>(d, _). db_bind (table_get_sub M key sub_key d) (\<lambda>(val, _). Inr val))"

definition seek_in :: "'d lmdb_ops \<Rightarrow> 'd txn \<Rightarrow> table_config \<Rightarrow> bytes \<Rightarrow> (bytes \<times> bytes) option db" where
  "seek_in M t config lower_bound =
     db_bind (txn_open M config False t) (\<lambda>(d, _). db_bind (table_seek M lower_bound d) (\<lambda>(entry, _). Inr entry))"

fun db_option :: "'a option \<Rightarrow> 'b db \<Rightarrow> ('a \<Rightarrow> 'b db) \<Rightarrow> 'b db" where
  "db_option None n s = n"
| "db_option (Some x) n s = s x"

section \<open>Blocks\<close>

definition db_read_header :: "'d lmdb_ops \<Rightarrow> 'd txn \<Rightarrow> u64 \<Rightarrow> bytes32 \<Rightarrow> block_header option db" where
  "db_read_header M t block_number hash =
     db_bind (get_in M t kHeaders (block_hash_key block_number hash)) (\<lambda>rlp.
     db_option rlp (Inr None) (\<lambda>rlp.
     db_bind (rlp_err_handler (decode_block_header rlp)) (\<lambda>(header, _).
     Inr (Some header))))"

definition db_read_total_difficulty :: "'d lmdb_ops \<Rightarrow> 'd txn \<Rightarrow> u64 \<Rightarrow> bytes32 \<Rightarrow> u256 option db" where
  "db_read_total_difficulty M t block_number hash =
     db_bind (get_in M t kDifficulty (block_hash_key block_number hash)) (\<lambda>rlp.
     db_option rlp (Inr None) (\<lambda>rlp.
     db_bind (rlp_err_handler (decode_uint256 rlp)) (\<lambda>(td, _).
     Inr (Some td))))"

text \<open>The loop over transactions, given what the cursor returned last and how many are still to be read.\<close>

fun read_transactions_loop ::
    "'d lmdb_ops \<Rightarrow> nat \<Rightarrow> (mdb_rc \<times> bytes \<times> bytes) \<times> 'd \<Rightarrow> transaction list \<Rightarrow> transaction list db" where
  "read_transactions_loop M 0 r v = Inr v"
| "read_transactions_loop M (Suc n) ((rc, key, data), d) v =
     (if rc = MDB_NOTFOUND then Inr v
      else
        db_bind (err_handler rc) (\<lambda>_.
        db_bind (rlp_err_handler (decode_txn new_transaction data)) (\<lambda>(eth_txn, _).
        read_transactions_loop M n (mdb_cursor_get M d key data MDB_NEXT) (v @ [eth_txn]))))"

definition table_read_transactions :: "'d lmdb_ops \<Rightarrow> 'd \<Rightarrow> u64 \<Rightarrow> u64 \<Rightarrow> transaction list db" where
  "table_read_transactions M d base_id count =
     (if count = 0 then Inr []
      else read_transactions_loop M (unat count) (mdb_cursor_get M d (be_store 8 (unat base_id)) [] MDB_SET) [])"

definition db_read_transactions :: "'d lmdb_ops \<Rightarrow> 'd txn \<Rightarrow> u64 \<Rightarrow> u64 \<Rightarrow> transaction list db" where
  "db_read_transactions M t base_id count =
     (if count = 0 then Inr []
      else db_bind (txn_open M kEthTx False t) (\<lambda>(d, _). table_read_transactions M d base_id count))"

text \<open>An array of addresses; its bytes must be a multiple of 20.\<close>

fun split_addresses :: "bytes \<Rightarrow> address list" where
  "split_addresses bs = (if length bs < 20 then [] else word_of_nat (be_load (take 20 bs)) # split_addresses (drop 20 bs))"

declare split_addresses.simps [simp del]

definition db_read_senders :: "'d lmdb_ops \<Rightarrow> 'd txn \<Rightarrow> u64 \<Rightarrow> bytes32 \<Rightarrow> address list db" where
  "db_read_senders M t block_number hash =
     db_bind (get_in M t kSenders (block_hash_key block_number hash)) (\<lambda>data.
     db_option data (Inr []) (\<lambda>data.
     if length data mod 20 \<noteq> 0 then Inl Db_stuck else Inr (split_addresses data)))"

definition db_read_body :: "'d lmdb_ops \<Rightarrow> 'd txn \<Rightarrow> u64 \<Rightarrow> bytes32 \<Rightarrow> bool \<Rightarrow> block_body option db" where
  "db_read_body M t block_number hash read_senders =
     db_bind (get_in M t kBlockBodies (block_hash_key block_number hash)) (\<lambda>body_rlp.
     db_option body_rlp (Inr None) (\<lambda>body_rlp.
     db_bind (rlp_err_handler (decode_stored_block_body body_rlp)) (\<lambda>(body, _).
     db_bind (db_read_transactions M t (base_txn_id body) (txn_count body)) (\<lambda>txns.
     if read_senders then
       db_bind (db_read_senders M t block_number hash) (\<lambda>senders.
       if length senders \<noteq> length txns then Inl Missing_senders
       else Inr (Some \<lparr>transactions = map2 (\<lambda>txn sender. txn\<lparr>tx_from := Some sender\<rparr>) txns senders, ommers = stored_ommers body\<rparr>))
     else Inr (Some \<lparr>transactions = txns, ommers = stored_ommers body\<rparr>)))))"

record block_with_hash =
  bh_block :: block
  bh_hash :: bytes32

definition db_read_block :: "'d lmdb_ops \<Rightarrow> 'd txn \<Rightarrow> u64 \<Rightarrow> bool \<Rightarrow> block_with_hash option db" where
  "db_read_block M t block_number read_senders =
     db_bind (get_in M t kCanonicalHashes (block_key block_number)) (\<lambda>hash.
     db_option hash (Inr None) (\<lambda>hash.
     if length hash \<noteq> 32 then Inl Db_stuck
     else
       let hash = word_of_nat (be_load hash)
       in db_bind (get_in M t kHeaders (block_hash_key block_number hash)) (\<lambda>header_rlp.
          db_option header_rlp (Inr None) (\<lambda>header_rlp.
          db_bind (rlp_err_handler (decode_block_header header_rlp)) (\<lambda>(header, _).
          db_bind (db_read_body M t block_number hash read_senders) (\<lambda>body.
          db_option body (Inr None) (\<lambda>body.
          Inr (Some \<lparr>bh_block = \<lparr>transactions = transactions body, ommers = ommers body, blk_header = header\<rparr>, bh_hash = hash\<rparr>))))))))"

section \<open>The state\<close>

definition db_read_code :: "'d lmdb_ops \<Rightarrow> 'd txn \<Rightarrow> bytes32 \<Rightarrow> bytes option db" where
  "db_read_code M t code_hash = get_in M t kCode (full_view_bytes32 code_hash)"

definition historical_account ::
    "'d lmdb_ops \<Rightarrow> ('m, u64) roaring_ops \<Rightarrow> 'd txn \<Rightarrow> address \<Rightarrow> u64 \<Rightarrow> bytes option db" where
  "historical_account M R t address block_number =
     db_bind (seek_in M t kAccountHistory (account_history_key address block_number)) (\<lambda>entry.
     db_option entry (Inr None) (\<lambda>(key, val).
     if \<not> has_prefix key (full_view_address address) then Inr None
     else db_option (bitmap_read R val) (Inl Runtime_error) (\<lambda>bitmap.
     db_option (bitmap_seek R bitmap block_number) (Inr None) (\<lambda>change_block.
     get_sub_in M t kPlainAccountChangeSet (block_key change_block) (full_view_address address)))))"

definition historical_storage ::
    "'d lmdb_ops \<Rightarrow> ('m, u64) roaring_ops \<Rightarrow> 'd txn \<Rightarrow> address \<Rightarrow> u64 \<Rightarrow> bytes32 \<Rightarrow> u64 \<Rightarrow> bytes option db" where
  "historical_storage M R t address incarnation location block_number =
     db_bind (seek_in M t kStorageHistory (storage_history_key address location block_number)) (\<lambda>entry.
     db_option entry (Inr None) (\<lambda>(k, val).
     if take 20 k \<noteq> full_view_address address \<or> take 32 (drop 20 k) \<noteq> full_view_bytes32 location then Inr None
     else db_option (bitmap_read R val) (Inl Runtime_error) (\<lambda>bitmap.
     db_option (bitmap_seek R bitmap block_number) (Inr None) (\<lambda>change_block.
     get_sub_in M t kPlainStorageChangeSet (storage_change_key change_block address incarnation) (full_view_bytes32 location)))))"

definition db_read_account ::
    "'d lmdb_ops \<Rightarrow> ('m, u64) roaring_ops \<Rightarrow> 'd txn \<Rightarrow> address \<Rightarrow> u64 option \<Rightarrow> account option db" where
  "db_read_account M R t address block_num =
     db_bind (db_option block_num (Inr None) (historical_account M R t address)) (\<lambda>encoded.
     db_bind (db_option encoded (get_in M t kPlainState (full_view_address address)) (\<lambda>e. Inr (Some e))) (\<lambda>encoded.
     db_option encoded (Inr None) (\<lambda>encoded.
     if encoded = [] then Inr None
     else
       db_bind (rlp_err_handler (decode_account_from_storage encoded)) (\<lambda>acc.
       if acc_incarnation acc > 0 \<and> acc_code_hash acc = kEmptyHash then
         db_bind (get_in M t kPlainContractCode (storage_prefix (full_view_address address) (acc_incarnation acc))) (\<lambda>hash.
         db_option hash (Inr (Some acc)) (\<lambda>hash.
         if length hash = 32 then Inr (Some (acc\<lparr>acc_code_hash := word_of_nat (be_load hash)\<rparr>)) else Inr (Some acc)))
       else Inr (Some acc)))))"

definition db_read_storage ::
    "'d lmdb_ops \<Rightarrow> ('m, u64) roaring_ops \<Rightarrow> 'd txn \<Rightarrow> address \<Rightarrow> u64 \<Rightarrow> bytes32 \<Rightarrow> u64 option \<Rightarrow> bytes32 db" where
  "db_read_storage M R t address incarnation location block_num =
     db_bind (db_option block_num (Inr None) (historical_storage M R t address incarnation location)) (\<lambda>val.
     db_bind (db_option val
       (get_sub_in M t kPlainState (storage_prefix (full_view_address address) incarnation) (full_view_bytes32 location))
       (\<lambda>v. Inr (Some v))) (\<lambda>val.
     db_option val (Inr 0) (\<lambda>val.
     if length val > 32 then Inl Db_stuck else Inr (word_of_nat (be_load val)))))"

definition historical_previous_incarnation :: "u64 option" where
  "historical_previous_incarnation = None"

definition db_read_previous_incarnation :: "'d lmdb_ops \<Rightarrow> 'd txn \<Rightarrow> address \<Rightarrow> u64 option \<Rightarrow> u64 option db" where
  "db_read_previous_incarnation M t address block_num =
     (if block_num \<noteq> None then Inr historical_previous_incarnation
      else
        db_bind (get_in M t kIncarnationMap (full_view_address address)) (\<lambda>val.
        db_option val (Inr None) (\<lambda>val.
        if length val \<noteq> 8 then Inl Db_stuck else Inr (Some (word_of_nat (be_load val))))))"

section \<open>Change sets\<close>

type_synonym account_change_map = "(address \<times> bytes) list"
type_synonym storage_change_map = "(address \<times> (u64 \<times> (bytes32 \<times> bytes) list) list) list"

partial_function (option) account_changes_loop ::
    "'d lmdb_ops \<Rightarrow> (mdb_rc \<times> bytes \<times> bytes) \<times> 'd \<Rightarrow> account_change_map \<Rightarrow> account_change_map db option" where
  "account_changes_loop M r changes =
     (case r of
        ((rc, key, data), d) \<Rightarrow>
          if rc = MDB_NOTFOUND then Some (Inr changes)
          else if rc \<noteq> MDB_SUCCESS then Some (Inl (Lmdb_exception rc))
          else if length data < 20 then Some (Inl Db_stuck)
          else account_changes_loop M (mdb_cursor_get M d key data MDB_NEXT_DUP)
            (map_put (word_of_nat (be_load (take 20 data))) (drop 20 data) changes))"

definition ends :: "'a db option \<Rightarrow> 'a db" where
  "ends r = (case r of None \<Rightarrow> Inl Db_stuck | Some x \<Rightarrow> x)"

definition read_account_changes :: "'d lmdb_ops \<Rightarrow> 'd txn \<Rightarrow> u64 \<Rightarrow> account_change_map db" where
  "read_account_changes M t block_num =
     db_bind (txn_open M kPlainAccountChangeSet False t) (\<lambda>(d, _).
       ends (account_changes_loop M (mdb_cursor_get M d (block_key block_num) [] MDB_SET) []))"

definition put_storage_change :: "address \<Rightarrow> u64 \<Rightarrow> bytes32 \<Rightarrow> bytes \<Rightarrow> storage_change_map \<Rightarrow> storage_change_map" where
  "put_storage_change address incarnation location data changes =
     map_change address [] (map_change incarnation [] (map_put location data)) changes"

partial_function (option) storage_changes_loop ::
    "'d lmdb_ops \<Rightarrow> bytes \<Rightarrow> (mdb_rc \<times> bytes \<times> bytes) \<times> 'd \<Rightarrow> storage_change_map \<Rightarrow> storage_change_map db option" where
  "storage_changes_loop M prefix r changes =
     (case r of
        ((rc, key, data), d) \<Rightarrow>
          if rc = MDB_NOTFOUND then Some (Inr changes)
          else if rc \<noteq> MDB_SUCCESS then Some (Inl (Lmdb_exception rc))
          else if \<not> has_prefix key prefix then Some (Inr changes)
          else if length key \<noteq> length prefix + 28 \<or> length data < 32 then Some (Inl Db_stuck)
          else
            let k = drop (length prefix) key;
                address = word_of_nat (be_load (take 20 k));
                incarnation = word_of_nat (be_load (drop 20 k));
                location = word_of_nat (be_load (take 32 data))
            in storage_changes_loop M prefix (mdb_cursor_get M d key data MDB_NEXT)
                 (put_storage_change address incarnation location (drop 32 data) changes))"

definition read_storage_changes :: "'d lmdb_ops \<Rightarrow> 'd txn \<Rightarrow> u64 \<Rightarrow> storage_change_map db" where
  "read_storage_changes M t block_num =
     db_bind (txn_open M kPlainStorageChangeSet False t) (\<lambda>(d, _).
       ends (storage_changes_loop M (block_key block_num) (mdb_cursor_get M d (block_key block_num) [] MDB_SET_RANGE) []))"

section \<open>Settings\<close>

definition kStorageModeReceipts :: string where
  "kStorageModeReceipts = ''smReceipts''"

definition read_storage_mode_receipts :: "'d lmdb_ops \<Rightarrow> 'd txn \<Rightarrow> bool db" where
  "read_storage_mode_receipts M t =
     db_bind (get_in M t kDatabaseInfo (bytes_of_string kStorageModeReceipts)) (\<lambda>val. Inr (val = Some [1]))"

definition migration_happened :: "'d lmdb_ops \<Rightarrow> 'd txn \<Rightarrow> string \<Rightarrow> bool db" where
  "migration_happened M t name =
     db_bind (get_in M t kMigrations (bytes_of_string name)) (\<lambda>val. Inr (val \<noteq> None))"

end
