(* ===== verification/Merkle_Patricia.thy ===== *)
theory Merkle_Patricia
  imports Hash_Builder Util
begin

text \<open>
  The Modified Merkle Patricia Trie of the yellow paper (appendices B, C and D) as a function of a set of
  entries: RLP items, the hex-prefix encoding of paths, and the node of a trie by recursion on the
  paths.  The order of the entries does not matter here and nothing is incremental, so that the definitions
  serve as the specification of the hash builder.  At the end the encoders of Hash_Builder are shown
  to build these items.
\<close>

section \<open>RLP items\<close>

datatype rlp_item = Str bytes | Lst "rlp_item list"

definition length_prefix :: "u8 \<Rightarrow> nat \<Rightarrow> bytes" where
  "length_prefix off n =
     (if n < 56 then [off + word_of_nat n] else (off + 55 + word_of_nat (length (be_min n))) # be_min n)"

fun rlp :: "rlp_item \<Rightarrow> bytes" where
  "rlp (Str x) = (if length x = 1 \<and> hd x < 0x80 then x else length_prefix 0x80 (length x) @ x)"
| "rlp (Lst items) = (let payload = concat (map rlp items) in length_prefix 0xC0 (length payload) @ payload)"

section \<open>Paths\<close>

text \<open>Hex-prefix encoding: a flag nibble, one more nibble if the path has even length, and the path.\<close>

fun byte_pairs :: "bytes \<Rightarrow> bytes" where
  "byte_pairs (a # b # ps) = (16 * a + b) # byte_pairs ps"
| "byte_pairs _ = []"

definition hex_prefix :: "bytes \<Rightarrow> bool \<Rightarrow> bytes" where
  "hex_prefix path terminating =
     (let f = (if terminating then 2 else 0)
      in byte_pairs (if length path mod 2 = 0 then f # 0 # path else (f + 1) # path))"

fun lcp :: "'a list \<Rightarrow> 'a list \<Rightarrow> 'a list" where
  "lcp (x # xs) (y # ys) = (if x = y then x # lcp xs ys else [])"
| "lcp _ _ = []"

fun common_prefix :: "'a list list \<Rightarrow> 'a list" where
  "common_prefix [] = []"
| "common_prefix [p] = p"
| "common_prefix (p # q # ps) = lcp p (common_prefix (q # ps))"

section \<open>Tries\<close>

type_synonym entries = "(bytes \<times> bytes) list"

text \<open>The entries below a digit, and the entries with a number of nibbles removed.\<close>

definition below :: "u8 \<Rightarrow> entries \<Rightarrow> entries" where
  "below d es = map (\<lambda>(p, v). (tl p, v)) (filter (\<lambda>(p, v). p \<noteq> [] \<and> hd p = d) es)"

definition cut_path :: "nat \<Rightarrow> entries \<Rightarrow> entries" where
  "cut_path n es = map (\<lambda>(p, v). (drop n p, v)) es"

definition weight :: "entries \<Rightarrow> nat" where
  "weight es = (\<Sum>(p, v)\<leftarrow>es. Suc (length p))"

text \<open>The reference to a node that its parent holds: the node itself if it is short, else its hash.\<close>

definition embed :: "(bytes \<Rightarrow> bytes32) \<Rightarrow> rlp_item \<Rightarrow> rlp_item" where
  "embed k node = (if length (rlp node) < 32 then node else Str (full_view_bytes32 (k (rlp node))))"

definition branch_value :: "entries \<Rightarrow> bytes" where
  "branch_value es = (case map_of es [] of Some v \<Rightarrow> v | None \<Rightarrow> [])"

lemma weight_Cons [simp]: "weight (e # es) = Suc (length (fst e)) + weight es"
  by (simp add: weight_def case_prod_beta)

lemma weight_Nil [simp]: "weight [] = 0"
  by (simp add: weight_def)

lemma weight_below_le: "weight (below d es) + length (below d es) \<le> weight es"
  by (induction es) (auto simp: below_def neq_Nil_conv)

lemma weight_below: "es \<noteq> [] \<Longrightarrow> weight (below d es) < weight es"
  using weight_below_le [of d es] by (cases "below d es") (auto simp: neq_Nil_conv)

lemma length_lcp_le: "length (lcp xs ys) \<le> length xs"
  by (induction xs ys rule: lcp.induct) auto

lemma common_prefix_length: "p \<in> set ps \<Longrightarrow> length (common_prefix ps) \<le> length p"
proof (induction ps rule: common_prefix.induct)
  case (3 p' q ps)
  have "length (lcp xs ys) \<le> length ys" for xs ys :: "'a list"
    by (induction xs ys rule: lcp.induct) auto
  with 3 show ?case using length_lcp_le by (auto intro: order_trans)
qed auto

lemma weight_cut_le: "weight (cut_path n es) \<le> weight es"
  by (induction es) (auto simp: cut_path_def intro!: add_mono)

lemma weight_cut:
  assumes "common_prefix (map fst es) \<noteq> []"
  shows "weight (cut_path (length (common_prefix (map fst es))) es) < weight es"
proof (cases es)
  case (Cons e es')
  define n where "n = length (common_prefix (map fst es))"
  have "n \<le> length (fst e)" using common_prefix_length [of "fst e" "map fst es"] Cons by (simp add: n_def)
  moreover have "0 < n" using assms by (simp add: n_def)
  moreover have "weight (cut_path n es) = Suc (length (fst e) - n) + weight (cut_path n es')"
    using Cons by (simp add: cut_path_def case_prod_beta)
  ultimately have "weight (cut_path n es) < weight es"
    using weight_cut_le [of n es'] Cons by simp
  then show ?thesis by (simp add: n_def)
qed (use assms in simp)

function trie_item :: "(bytes \<Rightarrow> bytes32) \<Rightarrow> entries \<Rightarrow> rlp_item" where
  "trie_item k es =
     (if es = [] then Str []
      else if length es = 1 then Lst [Str (hex_prefix (fst (hd es)) True), Str (snd (hd es))]
      else let c = common_prefix (map fst es)
           in if c \<noteq> [] then Lst [Str (hex_prefix c False), embed k (trie_item k (cut_path (length c) es))]
              else Lst (map (\<lambda>d. embed k (trie_item k (below d es))) [0, 1, 2, 3, 4, 5, 6, 7, 8, 9, 10, 11, 12, 13, 14, 15] @
                        [Str (branch_value es)]))"
  by pat_completeness auto
termination
  by (relation "measure (\<lambda>(k, es). weight es)") (auto simp: weight_below weight_cut)

declare trie_item.simps [simp del]

definition mpt_root :: "(bytes \<Rightarrow> bytes32) \<Rightarrow> entries \<Rightarrow> bytes32" where
  "mpt_root k es = k (rlp (trie_item k es))"

section \<open>The encoders of the hash builder\<close>

lemma ucast_word_of_nat: "ucast (word_of_nat n :: u64) = (word_of_nat n :: u8)"
  by (rule bit_word_eqI) (simp add: bit_simps)

lemma encode_header_spec:
  assumes "n < 2 ^ 64"
  shows "encode_header \<lparr>is_list = l, payload_length = word_of_nat n\<rparr> = length_prefix (if l then 0xC0 else 0x80) n"
proof -
  have n: "unat (word_of_nat n :: u64) = n" using assms by (simp add: unat_of_nat)
  show ?thesis
  proof (cases "n < 56")
    case True
    then have "(word_of_nat n :: u64) < 56" using n by (simp add: word_less_nat_alt)
    then show ?thesis using True n by (simp add: encode_header_short length_prefix_def ucast_word_of_nat)
  next
    case False
    then have "56 \<le> (word_of_nat n :: u64)" using n by (simp add: word_le_nat_alt)
    then show ?thesis using False n by (simp add: encode_header_long length_prefix_def)
  qed
qed

lemma encode_bytes_spec:
  assumes "length x < 2 ^ 64"
  shows "encode_bytes x = rlp (Str x)"
  using encode_header_spec [OF assms, of False]
  by (cases x) (auto simp: encode_bytes_def kEmptyStringCode_def)

lemma length_rlp_Str: "length x < 2 ^ 64 \<Longrightarrow> length (rlp (Str x)) \<le> length x + 9"
  using length_be_min_le_iff [of "length x" 8] by (auto simp: length_prefix_def)

lemma pack_nibbles_eq: "pack_nibbles ps = byte_pairs ps"
  by (induction ps rule: pack_nibbles.induct) (auto simp: push_bit_eq_mult)

lemma length_byte_pairs: "length (byte_pairs ps) = length ps div 2"
  by (induction ps rule: byte_pairs.induct) auto

lemma length_hex_prefix: "length (hex_prefix path t) = length path div 2 + 1"
  by (auto simp: hex_prefix_def length_byte_pairs Let_def odd_iff_mod_2_eq_one)

definition nibbles :: "bytes \<Rightarrow> bool" where
  "nibbles p = list_all (\<lambda>d. d < 16) p"

lemma nibble_and: "d < 16 \<Longrightarrow> m AND 15 = 0 \<Longrightarrow> m OR d = m + d" for m d :: u8
proof -
  assume d: "d < 16" and m: "m AND 15 = 0"
  have "unat (take_bit 4 d) = unat d"
    using d by (simp add: unsigned_take_bit_eq take_bit_nat_eq_self_iff word_less_nat_alt)
  then have "d = d AND mask 4" by (simp add: take_bit_eq_mask unat_inj)
  then have "d = d AND 15" by (simp add: mask_eq_exp_minus_1)
  then have "m AND d = 0" using m by (metis and.assoc and.commute and_zero_eq)
  then show "m OR d = m + d" using word_plus_and_or [of m d] by simp
qed

lemma encode_path_eq:
  assumes "nibbles path"
  shows "encode_path path t = hex_prefix path t"
proof (cases "length path mod 2 = 0")
  case True
  then show ?thesis by (simp add: encode_path_def hex_prefix_def pack_nibbles_eq)
next
  case False
  then obtain d ps where path: "path = d # ps" by (cases path) auto
  then have d: "d < 16" using assms by (simp add: nibbles_def)
  have "(0x10 :: u8) OR d = 0x10 + d" "(0x30 :: u8) OR d = 0x30 + d"
    using d by (auto intro!: nibble_and)
  then show ?thesis using False path by (simp add: encode_path_def hex_prefix_def pack_nibbles_eq)
qed

lemma leaf_node_rlp_eq:
  assumes "nibbles path" and "length path + length value < 2 ^ 60"
  shows "leaf_node_rlp path value = rlp (Lst [Str (hex_prefix path True), Str value])"
proof -
  let ?p = "hex_prefix path True"
  have len: "length ?p < 2 ^ 60 + 1" "length value < 2 ^ 60"
    using assms(2) by (auto simp: length_hex_prefix)
  have enc: "encode_bytes ?p = rlp (Str ?p)" "encode_bytes value = rlp (Str value)"
    using len by (simp_all add: encode_bytes_spec del: rlp.simps)
  have "length (rlp (Str ?p)) + length (rlp (Str value)) < 2 ^ 64"
    using len length_rlp_Str [of ?p] length_rlp_Str [of "value"] by simp
  then have "encode_header \<lparr>is_list = True, payload_length = length_bytes ?p + length_bytes value\<rparr> =
      length_prefix 0xC0 (length (rlp (Str ?p)) + length (rlp (Str value)))"
    using encode_header_spec [of "length (rlp (Str ?p)) + length (rlp (Str value))" True]
    by (simp add: length_encode_bytes enc del: rlp.simps)
  then show ?thesis
    by (simp add: leaf_node_rlp_def encode_path_eq assms(1) enc Let_def del: rlp.simps(1))
qed

lemma extension_node_rlp_eq:
  assumes "nibbles path" and "length path + length (rlp child) < 2 ^ 60"
  shows "extension_node_rlp path (rlp child) = rlp (Lst [Str (hex_prefix path False), child])"
proof -
  let ?p = "hex_prefix path False"
  have len: "length ?p < 2 ^ 60 + 1" "length (rlp child) < 2 ^ 60"
    using assms(2) by (auto simp: length_hex_prefix)
  have enc: "encode_bytes ?p = rlp (Str ?p)"
    using len by (simp_all add: encode_bytes_spec del: rlp.simps)
  have "length (rlp (Str ?p)) + length (rlp child) < 2 ^ 64"
    using len length_rlp_Str [of ?p] by simp
  then have "encode_header \<lparr>is_list = True, payload_length = length_bytes ?p + word_of_nat (length (rlp child))\<rparr> =
      length_prefix 0xC0 (length (rlp (Str ?p)) + length (rlp child))"
    using encode_header_spec [of "length (rlp (Str ?p)) + length (rlp child)" True]
    by (simp add: length_encode_bytes enc del: rlp.simps)
  then show ?thesis
    by (simp add: extension_node_rlp_def encode_path_eq assms(1) enc Let_def del: rlp.simps(1))
qed

lemma branch_rlp_eq:
  assumes "branch_items m [0..<16] children = map rlp items" and "length (concat (map rlp items)) < 2 ^ 60"
  shows "branch_rlp m children = rlp (Lst (items @ [Str []]))"
proof -
  let ?n = "length (concat (map rlp items))"
  have "(\<Sum>x\<leftarrow>map rlp items. word_of_nat (length x)) = (word_of_nat ?n :: u64)"
    by (induction items) auto
  then have "1 + (\<Sum>x\<leftarrow>map rlp items. word_of_nat (length x)) = (word_of_nat (1 + ?n) :: u64)"
    by (simp only: of_nat_add of_nat_1)
  then show ?thesis
    using encode_header_spec [of "1 + ?n" True] assms
    by (simp add: branch_rlp_def length_prefix_def kEmptyStringCode_def Let_def)
qed

lemma node_ref_eq: "node_ref k (rlp node) = rlp (embed k node)"
  by (simp add: node_ref_def embed_def kHashLength_def kEmptyStringCode_def length_prefix_def)

lemma length_embed: "length (rlp (embed k node)) \<le> 33"
  by (simp add: embed_def length_prefix_def)

end
