(* ===== verification/Hash_Builder_Correct.thy ===== *)
theory Hash_Builder_Correct
  imports Merkle_Patricia
begin

text \<open>
  The hash builder computes the root of the Merkle Patricia Trie of Merkle_Patricia.

  While the builder works on a key, the entries before it are held in frames, one for each nibble of the
  key up to the longest prefix it shares with an earlier key.  The frame of a position holds the
  subtries that leave the key there, each with its digit; its digits are an element of \<open>groups_\<close>
  and the references to its subtries are on the stack.
\<close>

section \<open>References to tries\<close>

definition trie_ref :: "(bytes \<Rightarrow> bytes32) \<Rightarrow> entries \<Rightarrow> bytes" where
  "trie_ref k es = rlp (embed k (trie_item k es))"

definition pre :: "bytes \<Rightarrow> entries \<Rightarrow> entries" where
  "pre p es = map (\<lambda>(q, v). (p @ q, v)) es"

definition branching :: "entries \<Rightarrow> bool" where
  "branching es = (2 \<le> length es \<and> common_prefix (map fst es) = [])"

lemma pre_simps [simp]:
  "pre [] es = es" "pre p [] = []" "pre p (e # es) = (p @ fst e, snd e) # pre p es"
  "pre p (es @ fs) = pre p es @ pre p fs" "length (pre p es) = length es" "pre p es = [] \<longleftrightarrow> es = []"
  by (auto simp: pre_def case_prod_beta)

lemma pre_pre [simp]: "pre p (pre q es) = pre (p @ q) es"
  by (induction es) auto

lemma map_fst_pre: "map fst (pre p es) = map (append p) (map fst es)"
  by (induction es) auto

lemma lcp_append: "lcp (p @ xs) (p @ ys) = p @ lcp xs ys"
  by (induction p) auto

lemma common_prefix_append: "ps \<noteq> [] \<Longrightarrow> common_prefix (map (append p) ps) = p @ common_prefix ps"
  by (induction ps rule: common_prefix.induct) (auto simp: lcp_append)

lemma cut_path_pre: "cut_path (length p) (pre p es) = es"
  by (induction es) (auto simp: cut_path_def)

lemma lcp_hd: "lcp xs ys \<noteq> [] \<Longrightarrow> xs \<noteq> [] \<and> ys \<noteq> [] \<and> hd xs = hd (lcp xs ys) \<and> hd ys = hd (lcp xs ys)"
  by (cases "(xs, ys)" rule: lcp.cases) (auto split: if_splits)

lemma common_prefix_hd:
  "common_prefix ps \<noteq> [] \<Longrightarrow> p \<in> set ps \<Longrightarrow> p \<noteq> [] \<and> hd p = hd (common_prefix ps)"
proof (induction ps rule: common_prefix.induct)
  case (3 p' q ps)
  then show ?case using lcp_hd [of p' "common_prefix (q # ps)"] by auto
qed auto

lemma trie_ref_leaf:
  assumes "nibbles p" and "length p + length v < 2 ^ 60"
  shows "trie_ref k [(p, v)] = node_ref k (leaf_node_rlp p v)"
  by (simp add: trie_ref_def trie_item.simps [of k "[(p, v)]"] leaf_node_rlp_eq [OF assms] node_ref_eq del: rlp.simps)

lemma trie_ref_extension:
  assumes "branching es" and "p \<noteq> []" and "nibbles p" and "length p < 2 ^ 59"
  shows "trie_ref k (pre p es) = node_ref k (extension_node_rlp p (trie_ref k es))"
proof -
  have es: "es \<noteq> []" "length es \<noteq> 1" using assms(1) by (auto simp: branching_def)
  have "common_prefix (map fst (pre p es)) = p"
    using assms(1) es common_prefix_append [of "map fst es" p] by (simp add: map_fst_pre branching_def del: map_map)
  then have "trie_item k (pre p es) = Lst [Str (hex_prefix p False), embed k (trie_item k es)]"
    using es assms(2) trie_item.simps [of k "pre p es"] by (simp add: cut_path_pre)
  moreover have "length p + length (trie_ref k es) < 2 ^ 60"
    using length_embed [of k "trie_item k es"] assms(4) by (simp add: trie_ref_def)
  ultimately show ?thesis
    using extension_node_rlp_eq [OF assms(3), of "embed k (trie_item k es)"]
    by (simp add: trie_ref_def node_ref_eq del: rlp.simps)
qed

section \<open>Frames\<close>

type_synonym frame = "(u8 \<times> entries) list"

definition frame_entries :: "frame \<Rightarrow> entries" where
  "frame_entries fr = concat (map (\<lambda>(d, es). pre [d] es) fr)"

definition frame_ok :: "frame \<Rightarrow> bool" where
  "frame_ok fr = (sorted_wrt (<) (map fst fr) \<and> (\<forall>(d, es)\<in>set fr. d < 16 \<and> es \<noteq> []))"

definition group_of :: "frame \<Rightarrow> u16" where
  "group_of fr = foldl (\<lambda>m (d, es). set_bit (unat d) m) 0 fr"

lemma frame_entries_simps [simp]:
  "frame_entries [] = []" "frame_entries ((d, es) # fr) = pre [d] es @ frame_entries fr"
  "frame_entries (fr @ gr) = frame_entries fr @ frame_entries gr"
  by (auto simp: frame_entries_def)

lemma below_append: "below d (es @ fs) = below d es @ below d fs"
  by (simp add: below_def)

lemma below_pre: "below d (pre [c] es) = (if c = d then es else [])"
  by (induction es) (auto simp: below_def)

lemma below_frame_entries:
  "distinct (map fst fr) \<Longrightarrow> below d (frame_entries fr) = (case map_of fr d of Some es \<Rightarrow> es | None \<Rightarrow> [])"
proof (induction fr)
  case Nil
  show ?case by (simp add: below_def)
next
  case (Cons x fr)
  obtain c es where x: "x = (c, es)" by (cases x)
  have "below c (frame_entries fr) = []" if "d = c"
    using Cons that x by (simp add: map_of_eq_None_iff [THEN iffD2])
  then show ?case using Cons x by (auto simp: below_append below_pre)
qed

lemma frame_ok_distinct: "frame_ok fr \<Longrightarrow> distinct (map fst fr)"
  by (auto simp: frame_ok_def strict_sorted_iff)

lemma bit_group_of: "(\<forall>(d, es)\<in>set fr. d < 16) \<Longrightarrow> bit (group_of fr) i \<longleftrightarrow> i \<in> unat ` fst ` set fr"
proof (induction fr rule: rev_induct)
  case Nil
  show ?case by (simp add: group_of_def)
next
  case (snoc x fr)
  obtain d es where x: "x = (d, es)" by (cases x)
  then have "unat d < 16" using snoc.prems by (simp add: word_less_nat_alt)
  then have "bit (group_of (fr @ [x])) i \<longleftrightarrow> i = unat d \<or> bit (group_of fr) i"
    using x by (auto simp: group_of_def bit_set_bit_iff)
  then show ?case using snoc x by auto
qed

lemma popcount_group_of:
  assumes "frame_ok fr"
  shows "popcount (group_of fr) = length fr"
proof -
  have digits: "\<forall>(d, es)\<in>set fr. d < 16" using assms by (auto simp: frame_ok_def)
  have "set (filter (\<lambda>i. bit (group_of fr) i) [0..<16]) = unat ` fst ` set fr"
    using digits by (auto simp: bit_group_of [OF digits] word_less_nat_alt)
  then have "popcount (group_of fr) = card (unat ` fst ` set fr)"
    by (metis popcount_def distinct_card distinct_filter distinct_upt)
  also have "\<dots> = card (set (map fst fr))"
    by (simp add: card_image inj_on_def unat_inj)
  finally show ?thesis using distinct_card [OF frame_ok_distinct [OF assms]] by simp
qed

lemma branch_items_frame:
  fixes fr :: "(u8 \<times> 'e) list"
  assumes "sorted_wrt (<) ds" "sorted_wrt (<) (map fst fr)" "unat ` fst ` set fr \<subseteq> set ds"
    and "\<forall>d\<in>set ds. bit m d \<longleftrightarrow> d \<in> unat ` fst ` set fr" and "\<forall>d\<in>set ds. d < 256"
  shows "branch_items m ds (map (\<lambda>x. g (snd x)) fr) =
    map (\<lambda>d. case map_of fr (word_of_nat d) of Some es \<Rightarrow> g es | None \<Rightarrow> [kEmptyStringCode]) ds"
  using assms
proof (induction ds arbitrary: fr)
  case Nil
  show ?case by simp
next
  case (Cons d ds)
  have d: "unat (word_of_nat d :: u8) = d" using Cons.prems(5) by (simp add: unat_byte_of_nat)
  show ?case
  proof (cases "d \<in> unat ` fst ` set fr")
    case False
    then have "unat ` fst ` set fr \<subseteq> set ds" using Cons.prems(3) by auto
    moreover have "map_of fr (word_of_nat d) = None"
    proof (rule map_of_eq_None_iff [THEN iffD2], rule notI)
      assume "word_of_nat d \<in> fst ` set fr"
      then have "unat (word_of_nat d :: u8) \<in> unat ` fst ` set fr" by (rule imageI)
      then show False using False d by simp
    qed
    ultimately show ?thesis using Cons False by (simp add: Cons.IH)
  next
    case True
    then obtain c es fr' where fr: "fr = (c, es) # fr'" by (cases fr) auto
    have "unat c \<in> set (d # ds)" using Cons.prems(3) fr by auto
    then have "d \<le> unat c" using Cons.prems(1) by auto
    moreover have "unat c \<le> d"
      using True Cons.prems(2) fr by (auto simp: word_le_nat_alt word_less_nat_alt)
    ultimately have c: "unat c = d" by simp
    then have cd: "word_of_nat d = c" by auto
    have rest: "\<forall>x\<in>fst ` set fr'. d < unat x"
      using Cons.prems(2) fr c by (auto simp: word_less_nat_alt)
    then have "d \<notin> unat ` fst ` set fr'" by blast
    moreover have "unat ` fst ` set fr' \<subseteq> insert d (set ds)" using Cons.prems(3) fr by simp
    ultimately have "unat ` fst ` set fr' \<subseteq> set ds" by blast
    moreover have "\<forall>i\<in>set ds. bit m i \<longleftrightarrow> i \<in> unat ` fst ` set fr'"
      using Cons.prems(1,4) fr c by auto
    ultimately have IH: "branch_items m ds (map (\<lambda>x. g (snd x)) fr') =
        map (\<lambda>d. case map_of fr' (word_of_nat d) of Some es \<Rightarrow> g es | None \<Rightarrow> [kEmptyStringCode]) ds"
      using Cons.prems fr by (intro Cons.IH) auto
    have "(word_of_nat i :: u8) \<noteq> c" if "i \<in> set ds" for i
      using that Cons.prems(1,5) c by (auto simp: unat_byte_of_nat dest: arg_cong [where f = unat])
    then have "map (\<lambda>d. case map_of fr' (word_of_nat d) of Some es \<Rightarrow> g es | None \<Rightarrow> [kEmptyStringCode]) ds =
        map (\<lambda>d. case map_of fr (word_of_nat d) of Some es \<Rightarrow> g es | None \<Rightarrow> [kEmptyStringCode]) ds"
      by (auto simp: fr)
    then show ?thesis using IH True Cons.prems(4) fr cd by (simp del: map_eq_conv)
  qed
qed

lemma branching_frame:
  assumes "frame_ok fr" and "2 \<le> length fr"
  shows "branching (frame_entries fr)"
proof -
  obtain c es d fs gr where fr: "fr = (c, es) # (d, fs) # gr"
    using assms(2) by (cases fr rule: remdups_adj.cases; force)
  then have "c \<noteq> d" "es \<noteq> []" "fs \<noteq> []" using assms(1) by (auto simp: frame_ok_def)
  then obtain e es' f fs' where ef: "es = e # es'" "fs = f # fs'" by (auto simp: neq_Nil_conv)
  have "c # fst e \<in> set (map fst (frame_entries fr))" "d # fst f \<in> set (map fst (frame_entries fr))"
    using fr ef by auto
  then have "common_prefix (map fst (frame_entries fr)) = []"
    using common_prefix_hd [of "map fst (frame_entries fr)"] \<open>c \<noteq> d\<close> by (metis list.sel(1))
  then show ?thesis using fr ef by (simp add: branching_def)
qed

lemma branch_value_frame: "branch_value (frame_entries fr) = []"
proof -
  have "[] \<notin> fst ` set (frame_entries fr)"
    by (auto simp: frame_entries_def pre_def)
  then show ?thesis by (simp add: branch_value_def map_of_eq_None_iff [THEN iffD2])
qed

lemma trie_ref_Nil: "trie_ref k [] = [kEmptyStringCode]"
  by (simp add: trie_ref_def trie_item.simps [of k "[]"] embed_def length_prefix_def kEmptyStringCode_def)

lemma length_concat_le: "\<forall>x\<in>set xs. length x \<le> n \<Longrightarrow> length (concat xs) \<le> length xs * n"
  by (induction xs) auto

lemma trie_ref_branch:
  assumes "frame_ok fr" and "2 \<le> length fr"
  shows "trie_ref k (frame_entries fr) = node_ref k (branch_rlp (group_of fr) (map (\<lambda>x. trie_ref k (snd x)) fr))"
proof -
  let ?es = "frame_entries fr"
  let ?items = "map (\<lambda>d. embed k (trie_item k (below d ?es))) (map word_of_nat [0..<16])"
  have br: "?es \<noteq> []" "length ?es \<noteq> 1" "common_prefix (map fst ?es) = []"
    using branching_frame [OF assms] by (auto simp: branching_def)
  have digits: "\<forall>(d, es)\<in>set fr. d < 16" using assms(1) by (auto simp: frame_ok_def)
  have ds: "map word_of_nat [0..<16] = [0, 1, 2, 3, 4, 5, 6, 7, 8, 9, 10, 11, 12, 13, 14, 15 :: u8]"
    by (simp add: upt_rec numeral_nat)
  have node: "trie_item k ?es = Lst (?items @ [Str []])"
    using br trie_item.simps [of k ?es] by (simp add: branch_value_frame ds [symmetric] del: map_map)
  have "branch_items (group_of fr) [0..<16] (map (\<lambda>x. trie_ref k (snd x)) fr) =
      map (\<lambda>d. case map_of fr (word_of_nat d) of Some es \<Rightarrow> trie_ref k es | None \<Rightarrow> [kEmptyStringCode]) [0..<16]"
    using assms(1) digits
    by (intro branch_items_frame) (auto simp: frame_ok_def bit_group_of word_less_nat_alt)
  also have "\<dots> = map (\<lambda>d. trie_ref k (below (word_of_nat d) ?es)) [0..<16]"
    by (auto simp: below_frame_entries [OF frame_ok_distinct [OF assms(1)]] trie_ref_Nil split: option.split)
  also have "\<dots> = map rlp ?items" by (simp add: trie_ref_def comp_def)
  finally have items: "branch_items (group_of fr) [0..<16] (map (\<lambda>x. trie_ref k (snd x)) fr) = map rlp ?items" .
  have "length (concat (map rlp ?items)) \<le> length (map rlp ?items) * 33"
    by (rule length_concat_le) (auto simp: length_embed)
  then have "length (concat (map rlp ?items)) < 2 ^ 60" by simp
  then have "branch_rlp (group_of fr) (map (\<lambda>x. trie_ref k (snd x)) fr) = rlp (trie_item k ?es)"
    using branch_rlp_eq [OF items] node by (simp del: rlp.simps)
  then show ?thesis by (simp add: trie_ref_def node_ref_eq del: rlp.simps)
qed

section \<open>The frames of a key\<close>

fun path_entries :: "bytes \<Rightarrow> frame list \<Rightarrow> entries" where
  "path_entries key [] = []"
| "path_entries key (fr # F) = frame_entries fr @ pre [hd key] (path_entries (tl key) F)"

definition frames_ok :: "bytes \<Rightarrow> frame list \<Rightarrow> bool" where
  "frames_ok key F = (length F \<le> length key \<and> (\<forall>i<length F. frame_ok (F ! i) \<and> (\<forall>x\<in>set (F ! i). fst x < key ! i)))"

definition refs :: "(bytes \<Rightarrow> bytes32) \<Rightarrow> frame list \<Rightarrow> bytes list" where
  "refs k F = map (\<lambda>x. trie_ref k (snd x)) (concat F)"

lemma refs_Nil [simp]: "refs k [] = []"
  by (simp add: refs_def)

definition pad_frames :: "nat \<Rightarrow> frame list \<Rightarrow> frame list" where
  "pad_frames n F = F @ replicate (n - length F) []"

definition strip_frames :: "frame list \<Rightarrow> frame list" where
  "strip_frames F = rev (dropWhile (\<lambda>fr. fr = []) (rev F))"

lemma path_entries_snoc:
  "length F \<le> length key \<Longrightarrow>
    path_entries key (F @ [fr]) = path_entries key F @ pre (take (length F) key) (frame_entries fr)"
proof (induction F arbitrary: key)
  case (Cons fr' F)
  then obtain d ds where "key = d # ds" by (cases key) auto
  with Cons show ?case by simp
qed simp

lemma path_entries_take: "length F \<le> n \<Longrightarrow> n \<le> length key \<Longrightarrow> path_entries (take n key) F = path_entries key F"
proof (induction F arbitrary: key n)
  case (Cons fr F)
  then obtain d ds m where "key = d # ds" "n = Suc m" by (cases key; cases n) auto
  with Cons show ?case by simp
qed simp

lemma path_entries_pad: "path_entries key (F @ replicate m []) = path_entries key F"
proof (induction F arbitrary: key)
  case Nil
  show ?case by (induction m arbitrary: key) auto
qed simp

lemma frames_ok_prefix: "frames_ok key (F @ G) \<Longrightarrow> frames_ok key F"
  unfolding frames_ok_def
proof (intro conjI allI impI)
  fix i assume ok: "length (F @ G) \<le> length key \<and>
      (\<forall>i<length (F @ G). frame_ok ((F @ G) ! i) \<and> (\<forall>x\<in>set ((F @ G) ! i). fst x < key ! i))" and i: "i < length F"
  then show "frame_ok (F ! i)" "\<forall>x\<in>set (F ! i). fst x < key ! i"
    using spec [OF conjunct2 [OF ok], of i] by (auto simp: nth_append)
qed simp

lemma frames_ok_snoc:
  "frames_ok key (F @ [fr]) \<longleftrightarrow>
    frames_ok key F \<and> length F < length key \<and> frame_ok fr \<and> (\<forall>x\<in>set fr. fst x < key ! length F)"
  by (auto simp: frames_ok_def nth_append less_Suc_eq_le le_less)

lemma frames_ok_pad:
  "frames_ok key F \<Longrightarrow> n \<le> length key \<Longrightarrow> length F \<le> n \<Longrightarrow> frames_ok key (pad_frames n F)"
  by (auto simp: frames_ok_def pad_frames_def nth_append frame_ok_def)

lemma frames_ok_take: "frames_ok key F \<Longrightarrow> length F \<le> n \<Longrightarrow> n \<le> length key \<Longrightarrow> frames_ok (take n key) F"
  by (auto simp: frames_ok_def)

lemma pad_frames_simps [simp]:
  "refs k (pad_frames n F) = refs k F" "path_entries key (pad_frames n F) = path_entries key F"
  "length F \<le> n \<Longrightarrow> length (pad_frames n F) = n"
  by (auto simp: pad_frames_def refs_def path_entries_pad)

lemma strip_framesE:
  obtains m where "F = strip_frames F @ replicate m []"
proof
  let ?t = "takeWhile (\<lambda>fr. fr = []) (rev F)"
  have t: "rev ?t = replicate (length ?t) []"
    by (subst replicate_length_same [of "rev ?t", symmetric]) (auto dest: set_takeWhileD)
  have "F = rev (?t @ dropWhile (\<lambda>fr. fr = []) (rev F))"
    by (simp only: takeWhile_dropWhile_id rev_rev_ident)
  also have "\<dots> = strip_frames F @ replicate (length ?t) []"
    by (simp only: rev_append strip_frames_def t)
  finally show "F = strip_frames F @ replicate (length ?t) []" .
qed

lemma strip_frames_last: "strip_frames F = [] \<or> last (strip_frames F) \<noteq> []"
  using hd_dropWhile [of "\<lambda>fr. fr = []" "rev F"] by (auto simp: strip_frames_def last_rev)

lemma strip_frames_simps [simp]:
  "refs k (strip_frames F) = refs k F" "path_entries key (strip_frames F) = path_entries key F"
  "frames_ok key F \<Longrightarrow> frames_ok key (strip_frames F)" "length (strip_frames F) \<le> length F"
proof -
  obtain m where m: "F = strip_frames F @ replicate m []" by (rule strip_framesE)
  show "refs k (strip_frames F) = refs k F" by (subst (2) m) (simp add: refs_def)
  show "path_entries key (strip_frames F) = path_entries key F" by (subst (2) m) (simp add: path_entries_pad)
  show "frames_ok key F \<Longrightarrow> frames_ok key (strip_frames F)" by (metis m frames_ok_prefix)
  show "length (strip_frames F) \<le> length F" by (subst (2) m) simp
qed

lemma group_of_eq_0: "frame_ok fr \<Longrightarrow> group_of fr = 0 \<longleftrightarrow> fr = []"
proof
  assume fr: "frame_ok fr" and "group_of fr = 0"
  then have "i \<notin> unat ` fst ` set fr" for i
    using bit_group_of [of fr i] by (auto simp: frame_ok_def)
  then show "fr = []" by (cases fr) auto
qed (simp add: group_of_def)

lemma pop_zeros_groups:
  assumes "\<forall>fr\<in>set F. frame_ok fr"
  shows "pop_zeros (map group_of F) = map group_of (strip_frames F)"
proof -
  have "dropWhile (\<lambda>g. g = 0) (map group_of (rev F)) = map group_of (dropWhile (\<lambda>fr. fr = []) (rev F))"
    unfolding dropWhile_map using assms
    by (intro arg_cong [where f = "map group_of"] dropWhile_cong) (auto simp: group_of_eq_0)
  then show ?thesis by (simp add: pop_zeros_def strip_frames_def rev_map)
qed

section \<open>One iteration\<close>

text \<open>What is on the top of the stack at the start of an iteration: nothing before the leaf is built, else a branch.\<close>

definition pending :: "(bytes \<Rightarrow> bytes32) \<Rightarrow> bool \<Rightarrow> bytes \<Rightarrow> entries \<Rightarrow> bytes list \<Rightarrow> bool" where
  "pending k ext v E S = (if ext then branching E \<and> S = [trie_ref k E] else E = [([], v)] \<and> S = [])"

definition builds :: "(bytes \<Rightarrow> bytes32) \<Rightarrow> frame list \<Rightarrow> bytes list \<Rightarrow> hash_builder \<Rightarrow> bool" where
  "builds k F S hb = (hb_groups hb = map group_of F \<and> hb_stack hb = refs k F @ S)"

lemma stack_simps [simp]:
  "hb_stack (add_digit cur len hb) = hb_stack hb"
  "hb_stack (collect_node k cur len cs hb) = hb_stack hb"
  by (simp_all add: add_digit_def collect_node_def Let_def split: option.split)

lemma branch_ref_stack:
  "hb_stack (snd (branch_ref k m h hb)) =
    (let n = length (hb_stack hb) - popcount m
     in take n (hb_stack hb) @ [node_ref k (branch_rlp m (drop n (hb_stack hb)))])"
  by (simp add: branch_ref_def Let_def)

lemma push_node_stack:
  assumes "pending k ext v E S" and "hb_stack hb = R @ S" and "nibbles p" and "length p + length v < 2 ^ 59"
  shows "hb_stack (push_node k p v ext hb) = R @ [trie_ref k (pre p E)]"
proof (cases ext)
  case True
  then show ?thesis
    using assms trie_ref_extension [of E p k] by (auto simp: pending_def push_node_def butlast_append)
next
  case False
  then show ?thesis
    using assms trie_ref_leaf [of p v k] by (simp add: pending_def push_node_def)
qed

lemma group_of_snoc: "group_of (fr @ [(d, es)]) = set_bit (unat d) (group_of fr)"
  by (simp add: group_of_def)

lemma add_digit_groups:
  assumes "hb_groups hb = map group_of F" and "pad_frames (Suc len) F = F' @ [fr]" and "length F' = len"
  shows "hb_groups (add_digit cur len hb) = map group_of (F' @ [fr @ [(cur ! len, es)]])"
proof -
  let ?gs = "if length (hb_groups hb) \<le> len then resize (len + 1) 0 (hb_groups hb) else hb_groups hb"
  have "length F \<le> Suc len" using arg_cong [OF assms(2), of length] assms(3) by (simp add: pad_frames_def)
  then have "?gs = map group_of (pad_frames (Suc len) F)"
    using assms(1) by (auto simp: pad_frames_def resize_def group_of_def)
  then have "?gs = map group_of F' @ [group_of fr]" using assms(2) by simp
  then show ?thesis
    using assms(3) by (auto simp: add_digit_def Let_def group_of_snoc list_update_append nth_append)
qed

lemma frame_ok_snoc:
  assumes "frame_ok fr" "\<forall>x\<in>set fr. fst x < d" "d < 16" "es \<noteq> []"
  shows "frame_ok (fr @ [(d, es)])"
  using assms by (auto simp: frame_ok_def sorted_wrt_append)

text \<open>The successor leaves the key below all earlier keys: the subtrie of the key joins the frames.\<close>

lemma struct_step_open:
  assumes "builds k F S hb" and "pending k ext v E S"
    and "pad_frames (Suc len) F = F' @ [fr]" and "length F' = len"
    and "len = max (prec_length hb) (prefix_length nxt cur)" and "prec_length hb \<le> prefix_length nxt cur" and "nxt \<noteq> []"
    and "nibbles cur" and "length cur + length v < 2 ^ 59"
  shows "\<exists>hb'. struct_step k cur nxt v ext hb = (None, hb') \<and>
    builds k (F' @ [fr @ [(cur ! len, pre (drop (Suc len) cur) E)]]) [] hb'"
proof (intro exI conjI)
  let ?hb = "push_node k (drop (Suc len) cur) v ext (add_digit cur len hb)"
  show "struct_step k cur nxt v ext hb = (None, ?hb)"
    using assms(5,6,7) by (simp add: struct_step_def Let_def)
  have "hb_stack ?hb = refs k F @ [trie_ref k (pre (drop (Suc len) cur) E)]"
    using assms by (intro push_node_stack) (auto simp: builds_def nibbles_def list_all_iff dest: in_set_dropD)
  moreover have "refs k F = refs k (F' @ [fr])" by (metis assms(3) pad_frames_simps(1))
  ultimately show "builds k (F' @ [fr @ [(cur ! len, pre (drop (Suc len) cur) E)]]) [] ?hb"
    using add_digit_groups [OF _ assms(3,4)] assms(1) by (simp add: builds_def refs_def)
qed

text \<open>There is neither an earlier key nor a successor: the trie is done.\<close>

lemma struct_step_single:
  assumes "builds k [] S hb" and "pending k ext v E S" and "nibbles cur" and "length cur + length v < 2 ^ 59"
  shows "\<exists>hb'. struct_step k cur [] v ext hb = (None, hb') \<and> hb_stack hb' = [trie_ref k (pre cur E)]"
proof -
  have "hb_groups hb = []" "hb_stack hb = [] @ S" using assms(1) by (auto simp: builds_def refs_def)
  then show ?thesis
    using push_node_stack [OF assms(2) _ assms(3,4), of "add_digit cur 0 hb" "[]"]
    by (simp add: struct_step_def Let_def prec_length_def close_group_def)
qed

text \<open>Otherwise the last frame is closed.\<close>

lemma struct_step_close:
  assumes "builds k (F @ [fr]) S hb" and "pending k ext v E S" and "fr \<noteq> []" and "frames_ok cur (F @ [fr])"
    and "nxt = [] \<or> prefix_length nxt cur < length F"
    and "nibbles cur" and "length cur + length v < 2 ^ 59"
    and fr': "fr' = fr @ [(cur ! length F, pre (drop (Suc (length F)) cur) E)]"
  shows "\<exists>hb'. struct_step k cur nxt v ext hb = (if F = [] then None else Some (length F), hb') \<and>
    builds k (if F = [] then [] else strip_frames F) [trie_ref k (frame_entries fr')] hb'"
    and "frame_ok fr'" and "2 \<le> length fr'"
proof -
  let ?len = "length F"
  let ?hb = "push_node k (drop (Suc ?len) cur) v ext (add_digit cur ?len hb)"
  have len: "prec_length hb = ?len" "max ?len (prefix_length nxt cur) = ?len" "hb_groups hb \<noteq> []"
    using assms(1,5) by (auto simp: builds_def prec_length_def)
  have "E \<noteq> []" using assms(2) by (auto simp: pending_def branching_def split: if_splits)
  moreover have "cur ! ?len < 16" using assms(4,6) by (simp add: frames_ok_snoc nibbles_def list_all_length)
  ultimately show ok: "frame_ok fr'"
    using assms(4) frame_ok_snoc by (auto simp: frames_ok_snoc fr')
  show "2 \<le> length fr'" using assms(3) by (cases fr) (auto simp: fr')
  have "hb_stack ?hb = refs k (F @ [fr]) @ [trie_ref k (pre (drop (Suc ?len) cur) E)]"
    using assms by (intro push_node_stack) (auto simp: builds_def nibbles_def list_all_iff dest: in_set_dropD)
  then have stack: "hb_stack ?hb = refs k F @ map (\<lambda>x. trie_ref k (snd x)) fr'"
    by (simp add: refs_def fr')
  have groups: "hb_groups ?hb = map group_of F @ [group_of fr']"
    using add_digit_groups [of hb "F @ [fr]" ?len F fr cur] assms(1) by (simp add: builds_def pad_frames_def fr')
  let ?hb' = "close_group k cur ?len True ?hb"
  have n: "length (hb_stack ?hb) - popcount (group_of fr') = length (refs k F)"
    using popcount_group_of [OF ok] by (simp add: stack)
  have "hb_stack ?hb' = refs k F @ [node_ref k (branch_rlp (group_of fr') (map (\<lambda>x. trie_ref k (snd x)) fr'))]"
    using groups by (simp add: close_group_def case_prod_beta branch_ref_stack Let_def nth_append n, simp add: stack)
  then have stack': "hb_stack ?hb' = refs k F @ [trie_ref k (frame_entries fr')]"
    using trie_ref_branch [OF ok \<open>2 \<le> length fr'\<close>] by simp
  have groups': "hb_groups ?hb' = map group_of F" using groups by (simp add: resize_def)
  have frames: "\<forall>fr\<in>set F. frame_ok fr"
    using frames_ok_prefix [OF assms(4)] by (auto simp: frames_ok_def in_set_conv_nth)
  show "\<exists>hb'. struct_step k cur nxt v ext hb = (if F = [] then None else Some (length F), hb') \<and>
    builds k (if F = [] then [] else strip_frames F) [trie_ref k (frame_entries fr')] hb'"
    using len assms(5) stack' groups' pop_zeros_groups [OF frames]
    by (auto simp: struct_step_def Let_def builds_def)
qed

section \<open>The loop\<close>

lemma nibbles_take [simp]: "nibbles p \<Longrightarrow> nibbles (take n p)"
  by (auto simp: nibbles_def list_all_iff dest: in_set_takeD)

lemma pending_branch: "frame_ok fr \<Longrightarrow> 2 \<le> length fr \<Longrightarrow> pending k True v (frame_entries fr) [trie_ref k (frame_entries fr)]"
  by (simp add: pending_def branching_frame)

text \<open>Closing the last frame keeps the entries.\<close>

lemma path_entries_close:
  assumes "frames_ok cur (F @ [fr])"
    and "fr' = fr @ [(cur ! length F, pre (drop (Suc (length F)) cur) E)]"
  shows "path_entries (take (length F) cur) (strip_frames F) @ pre (take (length F) cur) (frame_entries fr') =
    path_entries cur (F @ [fr]) @ pre cur E"
proof -
  have len: "length F < length cur" using assms(1) by (simp add: frames_ok_snoc)
  then have "take (length F) cur @ cur ! length F # drop (Suc (length F)) cur = cur"
    by (simp add: id_take_nth_drop [symmetric])
  then show ?thesis using len by (simp add: assms(2) path_entries_take path_entries_snoc)
qed

lemma strip_frames_take:
  assumes "frames_ok cur (F @ [fr])"
  shows "frames_ok (take (length F) cur) (strip_frames F)"
  using assms strip_frames_simps(4) [of F] by (intro frames_ok_take) (auto simp: frames_ok_snoc)

lemma gen_struct_loop_end:
  assumes "builds k F S hb" and "pending k ext v E S" and "frames_ok cur F" and "F = [] \<or> last F \<noteq> []"
    and "nibbles cur" and "length cur + length v < 2 ^ 59"
  shows "hb_stack (gen_struct_loop k cur [] v ext hb) = [trie_ref k (path_entries cur F @ pre cur E)]"
  using assms
proof (induction "length F" arbitrary: F S hb ext E cur rule: less_induct)
  case less
  show ?case
  proof (cases F rule: rev_cases)
    case Nil
    then obtain hb' where "struct_step k cur [] v ext hb = (None, hb')" "hb_stack hb' = [trie_ref k (pre cur E)]"
      using less.prems struct_step_single [of k S hb ext v E cur] by auto
    then show ?thesis using Nil by (simp add: gen_struct_loop.simps [of k cur])
  next
    case (snoc F0 fr)
    define fr' where "fr' = fr @ [(cur ! length F0, pre (drop (Suc (length F0)) cur) E)]"
    have prems: "builds k (F0 @ [fr]) S hb" "pending k ext v E S" "fr \<noteq> []" "frames_ok cur (F0 @ [fr])"
      using less.prems snoc by auto
    note close = struct_step_close [OF prems _ less.prems(5,6) fr'_def, of "[]"]
    obtain hb' where step: "struct_step k cur [] v ext hb = (if F0 = [] then None else Some (length F0), hb')"
      and built: "builds k (if F0 = [] then [] else strip_frames F0) [trie_ref k (frame_entries fr')] hb'"
      using close(1) by auto
    note eq = path_entries_close [OF prems(4) fr'_def]
    show ?thesis
    proof (cases "F0 = []")
      case True
      then have "hb_stack hb' = [trie_ref k (frame_entries fr')]"
        using built by (simp add: builds_def refs_def)
      then show ?thesis using True step eq snoc by (simp add: gen_struct_loop.simps [of k cur] strip_frames_def)
    next
      case False
      let ?cur = "take (length F0) cur"
      have "length (strip_frames F0) < length F" using snoc by (simp add: less_Suc_eq_le)
      then have "hb_stack (gen_struct_loop k ?cur [] v True hb') =
          [trie_ref k (path_entries ?cur (strip_frames F0) @ pre ?cur (frame_entries fr'))]"
        using less.prems close(2,3) built False prems
        by (intro less.hyps [OF _ _ pending_branch strip_frames_take])
          (auto simp: strip_frames_last)
      then show ?thesis using False step eq snoc by (simp add: gen_struct_loop.simps [of k cur])
    qed
  qed
qed

lemma take_prefix_length: "take (prefix_length xs ys) xs = take (prefix_length xs ys) ys"
  by (induction xs ys rule: prefix_length.induct) auto

lemma prefix_length_take: "prefix_length xs (take n ys) = min n (prefix_length xs ys)"
proof (induction xs ys arbitrary: n rule: prefix_length.induct)
  case (1 a as b bs)
  then show ?case by (cases n) auto
qed auto

text \<open>The next key leaves the current one after a common prefix, with a greater nibble.\<close>

definition follows :: "bytes \<Rightarrow> bytes \<Rightarrow> bool" where
  "follows cur nxt =
     (let n = prefix_length nxt cur in n < length cur \<and> n < length nxt \<and> cur ! n < nxt ! n)"

lemma frames_ok_next:
  assumes "frames_ok cur (F @ [fr])" and "follows cur nxt" and "length F = prefix_length nxt cur"
    and "nibbles cur" and "E \<noteq> []"
  shows "frames_ok nxt (F @ [fr @ [(cur ! length F, pre (drop (Suc (length F)) cur) E)]])"
    and "path_entries nxt (F @ [fr @ [(cur ! length F, pre (drop (Suc (length F)) cur) E)]]) =
      path_entries cur (F @ [fr]) @ pre cur E"
proof -
  let ?n = "length F"
  have n: "?n < length cur" "?n < length nxt" "cur ! ?n < nxt ! ?n"
    using assms(2,3) by (auto simp: follows_def Let_def)
  have same: "take ?n nxt = take ?n cur" using take_prefix_length [of nxt cur] assms(3) by simp
  then have nth: "nxt ! i = cur ! i" if "i < ?n" for i by (metis that nth_take)
  have "frames_ok nxt F" using frames_ok_prefix [OF assms(1)] n nth by (auto simp: frames_ok_def)
  moreover have "frame_ok (fr @ [(cur ! ?n, pre (drop (Suc ?n) cur) E)])"
    using assms n by (intro frame_ok_snoc) (auto simp: frames_ok_snoc nibbles_def list_all_length)
  moreover have "\<forall>x\<in>set fr. fst x < nxt ! ?n" using assms(1) n(3) by (auto simp: frames_ok_snoc)
  ultimately show "frames_ok nxt (F @ [fr @ [(cur ! ?n, pre (drop (Suc ?n) cur) E)]])"
    using n by (simp add: frames_ok_snoc)
  have "path_entries nxt F = path_entries cur F"
    using path_entries_take [of F ?n nxt] path_entries_take [of F ?n cur] same n by simp
  moreover have "take ?n cur @ cur ! ?n # drop (Suc ?n) cur = cur" using n by (simp add: id_take_nth_drop [symmetric])
  ultimately show "path_entries nxt (F @ [fr @ [(cur ! ?n, pre (drop (Suc ?n) cur) E)]]) =
      path_entries cur (F @ [fr]) @ pre cur E"
    using n same by (simp add: path_entries_snoc)
qed

lemma gen_struct_loop_next:
  assumes "builds k F S hb" and "pending k ext v E S" and "frames_ok cur F" and "F = [] \<or> last F \<noteq> []"
    and "nibbles cur" and "length cur + length v < 2 ^ 59" and "follows cur nxt"
  shows "\<exists>F'. builds k F' [] (gen_struct_loop k cur nxt v ext hb) \<and> F' \<noteq> [] \<and> last F' \<noteq> [] \<and> frames_ok nxt F' \<and>
    path_entries nxt F' = path_entries cur F @ pre cur E"
  using assms
proof (induction "length F" arbitrary: F S hb ext E cur rule: less_induct)
  case less
  let ?s = "prefix_length nxt cur"
  have nxt: "nxt \<noteq> []" "?s < length cur" using less.prems(7) by (auto simp: follows_def Let_def)
  have E: "E \<noteq> []" using less.prems(2) by (auto simp: pending_def branching_def split: if_splits)
  have prec: "prec_length hb = length F - 1" using less.prems(1) by (simp add: builds_def prec_length_def)
  show ?case
  proof (cases "length F - 1 \<le> ?s")
    case True
    then have "length (pad_frames (Suc ?s) F) = Suc ?s" by simp
    then obtain F0 fr where pad: "pad_frames (Suc ?s) F = F0 @ [fr]" "length F0 = ?s"
      by (cases "pad_frames (Suc ?s) F" rule: rev_cases) auto
    obtain hb' where step: "struct_step k cur nxt v ext hb = (None, hb')"
      and built: "builds k (F0 @ [fr @ [(cur ! ?s, pre (drop (Suc ?s) cur) E)]]) [] hb'"
      using struct_step_open [OF less.prems(1,2) pad, of nxt cur] less.prems nxt prec True by auto
    have ok: "frames_ok cur (F0 @ [fr])"
      using frames_ok_pad [OF less.prems(3), of "Suc ?s"] nxt True pad(1) by simp
    have "path_entries cur (F0 @ [fr]) = path_entries cur F" by (metis pad(1) pad_frames_simps(2))
    then show ?thesis
      using frames_ok_next [OF ok less.prems(7) pad(2) less.prems(5) E] built step pad(2)
      by (intro exI [of _ "F0 @ [fr @ [(cur ! ?s, pre (drop (Suc ?s) cur) E)]]"])
        (simp add: gen_struct_loop.simps [of k cur])
  next
    case False
    then obtain F0 fr where snoc: "F = F0 @ [fr]" by (cases F rule: rev_cases) auto
    define fr' where "fr' = fr @ [(cur ! length F0, pre (drop (Suc (length F0)) cur) E)]"
    have s: "?s < length F0" and F0: "F0 \<noteq> []" using False snoc by auto
    have prems: "builds k (F0 @ [fr]) S hb" "pending k ext v E S" "fr \<noteq> []" "frames_ok cur (F0 @ [fr])"
      using less.prems snoc by auto
    note close = struct_step_close [OF prems _ less.prems(5,6) fr'_def, of nxt]
    obtain hb' where step: "struct_step k cur nxt v ext hb = (Some (length F0), hb')"
      and built: "builds k (strip_frames F0) [trie_ref k (frame_entries fr')] hb'"
      using close(1) s F0 by auto
    let ?cur = "take (length F0) cur"
    have n: "length F0 < length cur" using prems(4) by (simp add: frames_ok_snoc)
    have "follows ?cur nxt"
      using less.prems(7) s n by (simp add: follows_def prefix_length_take Let_def)
    moreover have "length (strip_frames F0) < length F" using snoc by (simp add: less_Suc_eq_le)
    ultimately have "\<exists>F'. builds k F' [] (gen_struct_loop k ?cur nxt v True hb') \<and> F' \<noteq> [] \<and> last F' \<noteq> [] \<and>
        frames_ok nxt F' \<and> path_entries nxt F' = path_entries ?cur (strip_frames F0) @ pre ?cur (frame_entries fr')"
      using less.prems close(2,3) s built prems
      by (intro less.hyps [OF _ _ pending_branch strip_frames_take]) (auto simp: strip_frames_last)
    then show ?thesis using step path_entries_close [OF prems(4) fr'_def] snoc by (simp add: gen_struct_loop.simps [of k cur])
  qed
qed

section \<open>Adding entries\<close>

text \<open>The order in which entries are added: lexicographic, and no key is a prefix of the next.\<close>

fun key_before :: "bytes \<Rightarrow> bytes \<Rightarrow> bool" where
  "key_before (a # as) (b # bs) = (a < b \<or> a = b \<and> key_before as bs)"
| "key_before _ _ = False"

lemma follows_Cons: "follows (a # as) (b # bs) \<longleftrightarrow> a < b \<or> a = b \<and> follows as bs"
  by (auto simp: follows_def Let_def)

lemma follows_key_before: "key_before cur nxt \<Longrightarrow> follows cur nxt"
  by (induction cur nxt rule: key_before.induct) (auto simp: follows_Cons)

lemma div_mod_less: "x < y \<Longrightarrow> x div m < y div m \<or> x div m = y div m \<and> x mod m < y mod m" for x y m :: nat
  using div_le_mono [of x y m] by (metis div_mult_mod_eq le_neq_implies_less less_imp_le_nat nat_add_left_cancel_less)

lemma nibbles_less:
  "a < b \<Longrightarrow> drop_bit 4 a < drop_bit 4 b \<or> drop_bit 4 a = drop_bit 4 b \<and> a AND 0xF < b AND 0xF" for a b :: u8
proof -
  assume "a < b"
  then have "unat a < unat b" by (simp add: word_less_nat_alt)
  then have "unat a div 16 < unat b div 16 \<or> unat a div 16 = unat b div 16 \<and> unat a mod 16 < unat b mod 16"
    by (rule div_mod_less)
  then show ?thesis
    unfolding word_less_nat_alt unat_inj [symmetric, of "drop_bit 4 a"] nibbles_of_byte .
qed

lemma unpack_key_before: "key_before a b \<Longrightarrow> key_before (unpack_nibbles a) (unpack_nibbles b)"
  by (induction a b rule: key_before.induct) (auto dest: nibbles_less)

lemma nibbles_unpack: "nibbles (unpack_nibbles p)"
proof (induction p)
  case (Cons a p)
  have "unat a < 256" by (rule unat_byte_less)
  then have "drop_bit 4 a < 16" "a AND 0xF < 16" by (simp_all add: word_less_nat_alt nibbles_of_byte)
  then show ?case using Cons by (simp add: nibbles_def)
qed (simp add: nibbles_def)

lemma length_unpack [simp]: "length (unpack_nibbles p) = 2 * length p"
  by (induction p) auto

lemma unpack_eq_Nil [simp]: "unpack_nibbles p = [] \<longleftrightarrow> p = []"
  by (cases p) auto

definition add_entries :: "(bytes \<Rightarrow> bytes32) \<Rightarrow> (bytes \<times> bytes) list \<Rightarrow> hash_builder \<Rightarrow> hash_builder" where
  "add_entries k es hb = foldl (\<lambda>hb (key, value). hb_add k key value hb) hb es"

definition unpacked :: "(bytes \<times> bytes) list \<Rightarrow> entries" where
  "unpacked es = map (\<lambda>(key, value). (unpack_nibbles key, value)) es"

definition entry_ok :: "bytes \<times> bytes \<Rightarrow> bool" where
  "entry_ok e = (fst e \<noteq> [] \<and> 2 * length (fst e) + length (snd e) < 2 ^ 59)"

text \<open>The state of the builder after some entries, the last of which is not in the trie yet.\<close>

definition holds_entries :: "(bytes \<Rightarrow> bytes32) \<Rightarrow> (bytes \<times> bytes) list \<Rightarrow> hash_builder \<Rightarrow> bool" where
  "holds_entries k es hb =
     (hb_key hb = unpack_nibbles (fst (last es)) \<and> hb_value hb = snd (last es) \<and>
      (\<exists>F. builds k F [] hb \<and> frames_ok (hb_key hb) F \<and> (F = [] \<or> last F \<noteq> []) \<and>
           path_entries (hb_key hb) F @ [(hb_key hb, hb_value hb)] = unpacked es))"

lemma builds_update [simp]: "builds k F S (hb\<lparr>hb_key := a, hb_value := b\<rparr>) = builds k F S hb"
  by (simp add: builds_def)

lemma hb_add_first:
  assumes "hb_key hb = []" and "hb_groups hb = []" and "hb_stack hb = []"
  shows "holds_entries k [(key, v)] (hb_add k key v hb)"
  using assms by (auto simp: holds_entries_def hb_add_def Let_def builds_def unpacked_def frames_ok_def
      intro!: exI [of _ "[]"])

lemma hb_add_next:
  assumes "holds_entries k (es @ [(key, v)]) hb" and "key_before key key'" and "entry_ok (key, v)"
  shows "holds_entries k (es @ [(key, v), (key', v')]) (hb_add k key' v' hb)"
proof -
  obtain F where F: "builds k F [] hb" "frames_ok (hb_key hb) F" "F = [] \<or> last F \<noteq> []"
      "path_entries (hb_key hb) F @ [(hb_key hb, hb_value hb)] = unpacked (es @ [(key, v)])"
    and hb: "hb_key hb = unpack_nibbles key" "hb_value hb = v"
    using assms(1) by (auto simp: holds_entries_def)
  have "follows (unpack_nibbles key) (unpack_nibbles key')"
    by (rule follows_key_before, rule unpack_key_before, rule assms(2))
  then obtain F' where F': "builds k F' [] (gen_struct_loop k (unpack_nibbles key) (unpack_nibbles key') v False hb)"
      "last F' \<noteq> []" "frames_ok (unpack_nibbles key') F'"
      "path_entries (unpack_nibbles key') F' = path_entries (unpack_nibbles key) F @ pre (unpack_nibbles key) [([], v)]"
    using gen_struct_loop_next [of k F "[]" hb False v "[([], v)]" "unpack_nibbles key" "unpack_nibbles key'"]
      F hb assms(3) by (auto simp: pending_def nibbles_unpack entry_ok_def)
  have "key \<noteq> []" using assms(3) by (simp add: entry_ok_def)
  then show ?thesis
    using F' F(4) hb
    by (auto simp: holds_entries_def hb_add_def gen_struct_step_def unpacked_def Let_def intro!: exI [of _ F'])
qed

lemma add_entries_holds:
  assumes "es \<noteq> []" and "sorted_wrt key_before (map fst es)" and "\<forall>e\<in>set es. entry_ok e"
    and "hb_key hb = []" and "hb_groups hb = []" and "hb_stack hb = []"
  shows "holds_entries k es (add_entries k es hb)"
  using assms(1-3)
proof (induction es rule: rev_induct)
  case (snoc e es)
  obtain key' v' where e: "e = (key', v')" by (cases e)
  show ?case
  proof (cases es rule: rev_cases)
    case Nil
    then show ?thesis using assms(4-6) e by (simp add: add_entries_def hb_add_first)
  next
    case (snoc es' f)
    obtain key v where f: "f = (key, v)" by (cases f)
    have "holds_entries k (es' @ [(key, v), (key', v')]) (hb_add k key' v' (add_entries k es hb))"
      using snoc.prems snoc.IH \<open>es = es' @ [f]\<close> f e by (intro hb_add_next) (auto simp: sorted_wrt_append)
    then show ?thesis using \<open>es = es' @ [f]\<close> e f by (simp add: add_entries_def)
  qed
qed simp

lemma stack_root_hash_ref:
  assumes "hb_stack hb = [trie_ref k es]"
  shows "stack_root_hash k hb = mpt_root k es"
  using assms by (auto simp: stack_root_hash_def trie_ref_def embed_def mpt_root_def kHashLength_def
      length_prefix_def full_view_bytes32_load)

lemma root_hash_correct:
  assumes "sorted_wrt key_before (map fst es)" and "\<forall>e\<in>set es. entry_ok e"
    and "hb_key hb = []" and "hb_groups hb = []" and "hb_stack hb = []"
  shows "fst (hb_root_hash k (add_entries k es hb)) = (if es = [] then kEmptyRoot else mpt_root k (unpacked es))"
proof (cases "es = []")
  case True
  then show ?thesis using assms by (simp add: add_entries_def hb_root_hash_def hb_finalize_def stack_root_hash_def)
next
  case False
  let ?hb = "add_entries k es hb"
  obtain key v where last: "last es = (key, v)" by (cases "last es")
  obtain F where F: "builds k F [] ?hb" "frames_ok (unpack_nibbles key) F" "F = [] \<or> last F \<noteq> []"
      "path_entries (unpack_nibbles key) F @ [(unpack_nibbles key, v)] = unpacked es"
    and hb: "hb_key ?hb = unpack_nibbles key" "hb_value ?hb = v"
    using add_entries_holds [OF False assms, of k] last by (auto simp: holds_entries_def)
  have "entry_ok (key, v)" using assms(2) last_in_set [OF False] last by simp
  then have "hb_stack (gen_struct_loop k (unpack_nibbles key) [] v False ?hb) = [trie_ref k (unpacked es)]"
    using gen_struct_loop_end [of k F "[]" ?hb False v "[([], v)]" "unpack_nibbles key"] F
    by (simp add: pending_def nibbles_unpack entry_ok_def)
  then show ?thesis
    using \<open>entry_ok (key, v)\<close> hb False
    by (simp add: hb_root_hash_def hb_finalize_def gen_struct_step_def Let_def stack_root_hash_ref entry_ok_def)
qed

end
