(* ===== verification/Vector_Root.thy ===== *)
theory Vector_Root
  imports Hash_Builder_Correct "HOL-Library.Sublist" "HOL-Library.Multiset"
begin

text \<open>
  The trie of a set of entries does not depend on the order in which they are listed, the keys of
  vector_root.hpp come in increasing order, and so the root of a vector is that of the trie from
  the RLP of each index to the element.
\<close>

section \<open>The order of the entries\<close>

lemma prefix_lcp: "prefix q (lcp xs ys) \<longleftrightarrow> prefix q xs \<and> prefix q ys"
proof (induction xs ys arbitrary: q rule: lcp.induct)
  case (1 x xs y ys)
  then show ?case by (cases q) auto
qed (auto simp: prefix_Cons)

lemma prefix_common_prefix: "ps \<noteq> [] \<Longrightarrow> prefix q (common_prefix ps) \<longleftrightarrow> (\<forall>p\<in>set ps. prefix q p)"
  by (induction ps rule: common_prefix.induct) (auto simp: prefix_lcp)

lemma common_prefix_cong:
  assumes "set ps = set qs"
  shows "common_prefix ps = common_prefix qs"
proof (cases "ps = []")
  case False
  then have "qs \<noteq> []" using assms by auto
  with False show ?thesis
    using prefix_common_prefix [of ps] prefix_common_prefix [of qs] assms
    by (metis prefix_order.antisym prefix_order.refl)
qed (use assms in auto)

lemma distinct_below:
  assumes "distinct (map fst es)"
  shows "distinct (map fst (below d es))"
proof -
  let ?es = "filter (\<lambda>(p, v). p \<noteq> [] \<and> hd p = d) es"
  have "distinct (map fst ?es)" using assms by (rule distinct_map_filter)
  moreover have "inj_on tl (set (map fst ?es))"
    by (rule inj_onI) (auto intro: list.expand)
  ultimately have "distinct (map tl (map fst ?es))" by (simp only: distinct_map)
  then show ?thesis by (simp add: below_def comp_def case_prod_beta)
qed

lemma distinct_cut_path:
  assumes "distinct (map fst es)"
  shows "distinct (map fst (cut_path (length (common_prefix (map fst es))) es))"
proof (cases "es = []")
  case False
  let ?c = "common_prefix (map fst es)"
  have "\<forall>p\<in>set (map fst es). prefix ?c p"
    using prefix_common_prefix [of "map fst es" ?c] False by simp
  then have "p = ?c @ drop (length ?c) p" if "p \<in> set (map fst es)" for p
    using that by (metis append_eq_conv_conj prefix_def)
  then have "inj_on (drop (length ?c)) (set (map fst es))"
    by (rule inj_on_inverseI [where g = "append ?c", OF sym])
  then have "distinct (map (drop (length ?c)) (map fst es))" using assms by (simp only: distinct_map)
  then show ?thesis by (simp add: cut_path_def comp_def case_prod_beta)
qed (simp add: cut_path_def)

lemma mset_below: "mset es = mset fs \<Longrightarrow> mset (below d es) = mset (below d fs)"
  by (simp add: below_def mset_map mset_filter)

lemma mset_cut_path: "mset es = mset fs \<Longrightarrow> mset (cut_path n es) = mset (cut_path n fs)"
  by (simp add: cut_path_def mset_map)

lemma trie_item_mset: "mset es = mset fs \<Longrightarrow> distinct (map fst es) \<Longrightarrow> trie_item k es = trie_item k fs"
proof (induction k es arbitrary: fs rule: trie_item.induct)
  case (1 k es)
  have len: "length fs = length es" using 1(3) by (metis size_mset)
  have "mset (map fst es) = mset (map fst fs)" using 1(3) by simp
  then have dfs: "distinct (map fst fs)" using 1(4) by (rule mset_eq_imp_distinct_iff [THEN iffD1])
  have c: "common_prefix (map fst es) = common_prefix (map fst fs)"
    using 1(3) by (intro common_prefix_cong) (metis list.set_map mset_eq_setD)
  have v: "branch_value es = branch_value fs"
    using map_of_inject_set [OF 1(4) dfs] mset_eq_setD [OF 1(3)] by (simp add: branch_value_def)
  consider "es = []" | "length es = 1" | "es \<noteq> []" "length es \<noteq> 1" by auto
  then show ?case
  proof cases
    case 1
    then show ?thesis using len by simp
  next
    case 2
    then obtain e where "es = [e]" by (auto simp: length_Suc_conv)
    then show ?thesis using 1(3) len by (auto simp: length_Suc_conv)
  next
    case 3
    then have fs: "fs \<noteq> []" "length fs \<noteq> 1" using len by auto
    show ?thesis
    proof (cases "common_prefix (map fst es) = []")
      case True
      have "trie_item k (below d es) = trie_item k (below d fs)" if "d \<in> set [0, 1, 2, 3, 4, 5, 6, 7, 8, 9, 10, 11, 12, 13, 14, 15]" for d
        using 1(2) [OF 3 refl _ that] True mset_below [OF 1(3)] distinct_below [OF 1(4)] by simp
      then show ?thesis
        using 3 fs True c v trie_item.simps [of k es] trie_item.simps [of k fs] by simp
    next
      case False
      have "trie_item k (cut_path (length (common_prefix (map fst es))) es) =
          trie_item k (cut_path (length (common_prefix (map fst es))) fs)"
        using 1(1) [OF 3 refl False mset_cut_path [OF 1(3)] distinct_cut_path [OF 1(4)]] .
      then show ?thesis
        using 3 fs False c trie_item.simps [of k es] trie_item.simps [of k fs] by simp
    qed
  qed
qed

section \<open>The keys of a vector\<close>

lemma key_before_be:
  "length xs = length ys \<Longrightarrow> be_load xs < be_load ys \<Longrightarrow> key_before xs ys"
proof (induction xs ys rule: list_induct2)
  case (Cons x xs y ys)
  have bound: "be_load xs < 256 ^ length xs" "be_load ys < 256 ^ length xs"
    using be_load_less [of xs] be_load_less [of ys] Cons.hyps by auto
  have lt: "unat x * 256 ^ length xs + be_load xs < unat y * 256 ^ length xs + be_load ys"
    using Cons.prems Cons.hyps by (simp add: be_load_Cons)
  have "unat x \<le> unat y"
  proof (rule ccontr)
    assume "\<not> unat x \<le> unat y"
    then have "(unat y + 1) * 256 ^ length xs \<le> unat x * 256 ^ length xs" by (intro mult_le_mono1) simp
    then show False using lt bound by simp
  qed
  then show ?case using lt Cons.IH by (auto simp: word_less_nat_alt unat_inj le_less)
qed simp

lemma key_before_append: "key_before as bs \<Longrightarrow> key_before (as @ cs) (bs @ ds)"
  by (induction as bs rule: key_before.induct) auto

lemma encode_index:
  "0 < n \<Longrightarrow> n < 128 \<Longrightarrow> encode_uint64 (word_of_nat n) = [word_of_nat n]"
  "encode_uint64 0 = [0x80]"
  "128 \<le> n \<Longrightarrow> n < 2 ^ 64 \<Longrightarrow>
    encode_uint64 (word_of_nat n) = (0x80 + word_of_nat (length (be_min n))) # be_min n"
proof -
  have n: "unat (word_of_nat n :: u64) = n" if "n < 2 ^ 64" for n using that by (simp add: unat_of_nat)
  have b: "unat (word_of_nat n :: u8) = n" if "n < 256" for n using that by (simp add: unat_byte_of_nat)
  show "encode_uint64 (word_of_nat n) = [word_of_nat n]" if "0 < n" "n < 128"
    using that n [of n] b [of n] encode_bytes_spec [of "be_min n"]
    by (simp add: encode_uint64_eq be_min_small word_less_nat_alt)
  show "encode_uint64 0 = [0x80]"
    using encode_bytes_spec [of "[]"] by (simp add: encode_uint64_eq length_prefix_def)
  assume big: "128 \<le> n" "n < 2 ^ 64"
  have len: "length (be_min n) \<le> 8" using big(2) length_be_min_le_iff [of n 8] by simp
  have "\<not> (length (be_min n) = 1 \<and> hd (be_min n) < 0x80)"
  proof
    assume one: "length (be_min n) = 1 \<and> hd (be_min n) < 0x80"
    then have "n < 256" using length_be_min_le_iff [of n 1] by simp
    then show False using one big b [of n] by (simp add: be_min_small word_less_nat_alt)
  qed
  then show "encode_uint64 (word_of_nat n) = (0x80 + word_of_nat (length (be_min n))) # be_min n"
    using n [OF big(2)] encode_bytes_spec [of "be_min n"] len by (auto simp: encode_uint64_eq length_prefix_def)
qed

lemma encode_index_before:
  assumes "128 \<le> i" "i < j" "j < 2 ^ 64"
  shows "key_before (encode_uint64 (word_of_nat i)) (encode_uint64 (word_of_nat j))"
proof -
  let ?l = "\<lambda>n. length (be_min n)"
  have l8: "?l i \<le> 8" "?l j \<le> 8" using assms length_be_min_le_iff [of _ 8] by auto
  have "?l i \<le> ?l j" using length_be_min_le_iff [of i "?l j"] length_be_min_le_iff [of j "?l j"] assms(2) by simp
  moreover have "key_before (be_min i) (be_min j)" if "?l i = ?l j"
    using key_before_be [OF that] assms(2) by (simp add: be_load_be_min)
  moreover have "unat (0x80 + word_of_nat (?l n) :: u8) = 128 + ?l n" if "?l n \<le> 8" for n
    using that by (simp add: unat_word_ariths unat_byte_of_nat)
  ultimately show ?thesis
    using assms l8 encode_index(3) [of i] encode_index(3) [of j] by (auto simp: word_less_nat_alt le_less)
qed

lemma encode_index_low:
  assumes "0 < i" "i < 128"
  shows "i < j \<Longrightarrow> j < 128 \<Longrightarrow> key_before (encode_uint64 (word_of_nat i)) (encode_uint64 (word_of_nat j))"
    and "key_before (encode_uint64 (word_of_nat i)) (encode_uint64 0)"
    and "128 \<le> j \<Longrightarrow> j < 2 ^ 64 \<Longrightarrow> key_before (encode_uint64 (word_of_nat i)) (encode_uint64 (word_of_nat j))"
    and "128 \<le> j \<Longrightarrow> j < 2 ^ 64 \<Longrightarrow> key_before (encode_uint64 0) (encode_uint64 (word_of_nat j))"
proof -
  have b: "unat (word_of_nat n :: u8) = n" if "n < 256" for n using that by (simp add: unat_byte_of_nat)
  have l: "0 < length (be_min j) \<and> length (be_min j) \<le> 8" if "128 \<le> j" "j < 2 ^ 64"
    using that length_be_min_le_iff [of j 8] by auto
  have c: "unat (0x80 + word_of_nat (length (be_min j)) :: u8) = 128 + length (be_min j)" if "128 \<le> j" "j < 2 ^ 64"
    using l [OF that] by (simp add: unat_word_ariths unat_byte_of_nat)
  show "i < j \<Longrightarrow> j < 128 \<Longrightarrow> key_before (encode_uint64 (word_of_nat i)) (encode_uint64 (word_of_nat j))"
    using assms by (simp add: encode_index word_less_nat_alt b)
  show "key_before (encode_uint64 (word_of_nat i)) (encode_uint64 0)"
    using assms by (simp add: encode_index word_less_nat_alt b)
  show "128 \<le> j \<Longrightarrow> j < 2 ^ 64 \<Longrightarrow> key_before (encode_uint64 (word_of_nat i)) (encode_uint64 (word_of_nat j))"
    using assms l c by (simp add: encode_index word_less_nat_alt b)
  show "128 \<le> j \<Longrightarrow> j < 2 ^ 64 \<Longrightarrow> key_before (encode_uint64 0) (encode_uint64 (word_of_nat j))"
    using assms l c by (simp add: encode_index word_less_nat_alt b)
qed

lemma adjusted_before:
  assumes "i < j" "j < n" "n < 2 ^ 64"
  shows "key_before (encode_uint64 (word_of_nat (adjust_index_for_rlp i n))) (encode_uint64 (word_of_nat (adjust_index_for_rlp j n)))"
  using assms encode_index_low [of "i + 1"] encode_index_low(1) [of "i + 1" "j + 1"] encode_index_low(4) [of 1 j]
    encode_index_before [of i j]
  by (auto simp: adjust_index_for_rlp_def)

lemma adjusted_permutes: "mset (map (\<lambda>i. adjust_index_for_rlp i n) [0..<n]) = mset [0..<n]"
proof -
  have inj: "inj_on (\<lambda>i. adjust_index_for_rlp i n) {0..<n}"
    by (auto simp: inj_on_def adjust_index_for_rlp_def split: if_splits)
  have "(\<lambda>i. adjust_index_for_rlp i n) ` {0..<n} \<subseteq> {0..<n}"
    by (auto simp: adjust_index_for_rlp_def)
  then have "(\<lambda>i. adjust_index_for_rlp i n) ` {0..<n} = {0..<n}"
    using inj by (intro card_subset_eq) (auto simp: card_image)
  moreover have "distinct (map (\<lambda>i. adjust_index_for_rlp i n) [0..<n])" using inj by (simp add: distinct_map)
  ultimately show ?thesis by (intro set_eq_iff_mset_eq_distinct [THEN iffD1]) auto
qed

lemma key_before_irrefl: "\<not> key_before a a"
  by (induction a) auto

lemma sorted_keys_distinct: "sorted_wrt key_before ks \<Longrightarrow> distinct ks"
  by (induction ks) (auto simp: key_before_irrefl)

lemma vector_entries_keys:
  "map fst (vector_entries enc v) =
    map (\<lambda>j. encode_uint64 (word_of_nat (adjust_index_for_rlp j (length v)))) [0..<length v]"
  by (simp add: vector_entries_def Let_def comp_def)

lemma vector_entries_sorted:
  assumes "length v < 2 ^ 64"
  shows "sorted_wrt key_before (map fst (vector_entries enc v))"
  using assms adjusted_before [of _ _ "length v"]
  by (auto simp: vector_entries_keys sorted_wrt_map sorted_wrt_iff_nth_less)

lemma vector_entries_mset:
  "mset (vector_entries enc v) = mset (map (\<lambda>i. (encode_uint64 (word_of_nat i), enc (v ! i))) [0..<length v])"
proof -
  let ?f = "\<lambda>i. (encode_uint64 (word_of_nat i), enc (v ! i))"
  have "mset (vector_entries enc v) = image_mset ?f (mset (map (\<lambda>i. adjust_index_for_rlp i (length v)) [0..<length v]))"
    by (simp add: vector_entries_def Let_def comp_def image_mset.compositionality flip: mset_map)
  then show ?thesis by (subst (asm) adjusted_permutes) simp
qed

lemma encode_uint64_bounds: "length (encode_uint64 n) \<le> 17" "encode_uint64 n \<noteq> []"
proof -
  have "length (be_min (unat n)) \<le> 8"
    using length_be_min_le_iff [of "unat n" 8] unsigned_less [of n, where ?'a = nat] by simp
  then show "length (encode_uint64 n) \<le> 17" "encode_uint64 n \<noteq> []"
    using encode_bytes_spec [of "be_min (unat n)"] length_rlp_Str [of "be_min (unat n)"]
    by (auto simp: encode_uint64_eq simp del: rlp.simps)
qed

lemma mset_unpacked: "mset es = mset fs \<Longrightarrow> mset (unpacked es) = mset (unpacked fs)"
  by (simp add: unpacked_def)

lemma distinct_unpack: "distinct (map fst es) \<Longrightarrow> distinct (map fst (unpacked es))"
proof -
  assume "distinct (map fst es)"
  moreover have "a = b" if "unpack_nibbles a = unpack_nibbles b" for a b
    using that
  proof (induction a arbitrary: b)
    case (Cons x a)
    then obtain y b' where b: "b = y # b'" by (cases b) auto
    then have "unat (drop_bit 4 x) = unat (drop_bit 4 y)" "unat (x AND 0xF) = unat (y AND 0xF)" using Cons.prems by auto
    then have "unat x = unat y" unfolding nibbles_of_byte by (metis div_mult_mod_eq)
    then show ?case using b Cons by (simp add: unat_inj)
  next
    case Nil
    then show ?case by (cases b) auto
  qed
  ultimately have "distinct (map unpack_nibbles (map fst es))" by (simp only: distinct_map inj_on_def) simp
  then show "distinct (map fst (unpacked es))" by (simp add: unpacked_def comp_def case_prod_beta)
qed

section \<open>Properties\<close>

text \<open>
  C8. The hash builder computes the root of the Modified Merkle Patricia Trie of the yellow paper: after any
  entries added in increasing order of their keys, none of which is a prefix of another, the root hash is
  the hash of the root node of the trie of these entries, with short nodes embedded in their parents; it
  is the empty root without entries.  A node collector does not change the root.
\<close>

theorem hash_builder_root_correct:
  assumes "sorted_wrt key_before (map fst es)" and "\<forall>e\<in>set es. entry_ok e"
  shows "fst (hb_root_hash k (add_entries k es (new_hash_builder\<lparr>hb_node_collector := collector\<rparr>))) =
    (if es = [] then kEmptyRoot else mpt_root k (unpacked es))"
  by (rule root_hash_correct [OF assms]) (simp_all add: new_hash_builder_def)

lemma hash_builder_root_correct_witness:
  "fst (hb_root_hash (\<lambda>x. 7) (add_entries (\<lambda>x. 7) [([1], [2]), ([1 + 1], [3])] (new_hash_builder\<lparr>hb_node_collector := None\<rparr>))) =
    mpt_root (\<lambda>x. 7) (unpacked [([1], [2]), ([1 + 1], [3])])"
  using hash_builder_root_correct [of "[([1], [2]), ([1 + 1], [3])]" "\<lambda>x. 7" None] by (simp add: entry_ok_def)

text \<open>
  C9. The root of a vector, which \<open>pre_validate_block\<close> compares with the transactions root and
  \<open>execute_block\<close> with the receipts root of the header, is the root of the trie that maps the RLP of each
  index to the encoding of the element: the order in which vector_root.hpp visits the indices is the order of their keys.
\<close>

theorem vector_root_correct:
  assumes "length v < 2 ^ 64" and "\<forall>x\<in>set v. length (enc x) < 2 ^ 58"
  shows "vector_root_hash k enc v =
    (if v = [] then kEmptyRoot
     else mpt_root k (map (\<lambda>i. (unpack_nibbles (encode_uint64 (word_of_nat i)), enc (v ! i))) [0..<length v]))"
proof -
  let ?es = "vector_entries enc v"
  let ?fs = "map (\<lambda>i. (encode_uint64 (word_of_nat i), enc (v ! i))) [0..<length v]"
  have "set ?es = set ?fs" using vector_entries_mset by (rule mset_eq_setD)
  have ok: "\<forall>e\<in>set ?es. entry_ok e"
  proof (intro ballI)
    fix e assume "e \<in> set ?es"
    then obtain i where i: "e = (encode_uint64 (word_of_nat i), enc (v ! i))" "i < length v"
      using \<open>set ?es = set ?fs\<close> by auto
    have "length (enc (v ! i)) < 2 ^ 58" using assms(2) i(2) by simp
    then show "entry_ok e"
      using encode_uint64_bounds [of "word_of_nat i"] i(1) by (simp add: entry_ok_def)
  qed
  have "vector_root_hash k enc v = (if ?es = [] then kEmptyRoot else mpt_root k (unpacked ?es))"
    using root_hash_correct [OF vector_entries_sorted [OF assms(1)] ok, of new_hash_builder]
    by (simp add: vector_root_hash_def add_entries_def new_hash_builder_def)
  moreover have "trie_item k (unpacked ?es) = trie_item k (unpacked ?fs)"
    by (rule trie_item_mset [OF mset_unpacked [OF vector_entries_mset]
          distinct_unpack [OF sorted_keys_distinct [OF vector_entries_sorted [OF assms(1)]]]])
  moreover have "?es = [] \<longleftrightarrow> v = []" by (simp add: vector_entries_def)
  ultimately show ?thesis by (simp add: mpt_root_def unpacked_def comp_def)
qed

lemma vector_root_correct_witness:
  "vector_root_hash (\<lambda>x. 7) (\<lambda>x. [x]) [5, 6] =
    (if [5, 6 :: u8] = [] then kEmptyRoot
     else mpt_root (\<lambda>x. 7) (map (\<lambda>i. (unpack_nibbles (encode_uint64 (word_of_nat i)), [[5, 6] ! i])) [0..<length [5, 6 :: u8]]))"
  by (rule vector_root_correct) simp_all

end
