(* ===== verification/State_Root.thy ===== *)
theory State_Root
  imports Vector_Root Memory_Buffer
begin

text \<open>
  The state root of memory_buffer.cpp: \<open>account_storage_root\<close> and \<open>state_root_hash\<close>.  Both fill a \<open>std::map\<close>
  from the hash of a key to the RLP of its value and feed it to a hash builder in the order of the
  hashes.  A \<open>std::map\<close> is a list of pairs sorted by its keys.  The order in which a hash map is
  walked is a parameter: \<open>addrs\<close> for the accounts, \<open>locs\<close> for the storage of an address and incarnation.
\<close>

section \<open>Ordered maps\<close>

definition fill_map :: "('a \<Rightarrow> 'k::linorder) \<Rightarrow> ('a \<Rightarrow> 'v) \<Rightarrow> 'a list \<Rightarrow> ('k \<times> 'v) list" where
  "fill_map key val xs = foldl (\<lambda>m x. map_put (key x) (val x) m) [] xs"

definition root_of_map :: "(bytes \<Rightarrow> bytes32) \<Rightarrow> (bytes32 \<times> bytes) list \<Rightarrow> bytes32" where
  "root_of_map k m =
     fst (hb_root_hash k (foldl (\<lambda>hb (hash, value_rlp). hb_add k (full_view_bytes32 hash) value_rlp hb) new_hash_builder m))"

section \<open>The roots\<close>

definition mb_account_storage_root ::
    "(bytes \<Rightarrow> bytes32) \<Rightarrow> (address \<Rightarrow> u64 \<Rightarrow> bytes32 list) \<Rightarrow> memory_buffer \<Rightarrow> address \<Rightarrow> u64 \<Rightarrow> bytes32" where
  "mb_account_storage_root k locs m address incarnation =
     (case mb_storage m address of
        None \<Rightarrow> kEmptyRoot
      | Some s1 \<Rightarrow>
          (case s1 incarnation of
             None \<Rightarrow> kEmptyRoot
           | Some st \<Rightarrow>
               if locs address incarnation = [] then kEmptyRoot
               else root_of_map k
                 (fill_map (\<lambda>location. k (full_view_bytes32 location))
                    (\<lambda>location. encode_bytes (zeroless_view (the (st location)))) (locs address incarnation))))"

definition mb_state_root_hash ::
    "(bytes \<Rightarrow> bytes32) \<Rightarrow> address list \<Rightarrow> (address \<Rightarrow> u64 \<Rightarrow> bytes32 list) \<Rightarrow> memory_buffer \<Rightarrow> bytes32" where
  "mb_state_root_hash k addrs locs m =
     (if addrs = [] then kEmptyRoot
      else root_of_map k
        (fill_map (\<lambda>address. k (full_view_address address))
           (\<lambda>address.
              let account = the (mb_accounts m address)
              in account_rlp account (mb_account_storage_root k locs m address (acc_incarnation account)))
           addrs))"

section \<open>Lemmas\<close>

lemma mset_map_put: "k \<notin> fst ` set m \<Longrightarrow> mset (map_put k v m) = add_mset (k, v) (mset m)"
  by (induction k v m rule: map_put.induct) auto

lemma sorted_fill_map: "sorted_wrt (<) (map fst (fill_map key val xs))"
  by (induction xs rule: rev_induct) (auto simp: fill_map_def sorted_map_put)

lemma keys_fill_map: "fst ` set (fill_map key val xs) = key ` set xs"
  by (induction xs rule: rev_induct) (auto simp: fill_map_def set_map_put)

lemma mset_fill_map:
  "distinct (map key xs) \<Longrightarrow> mset (fill_map key val xs) = mset (map (\<lambda>x. (key x, val x)) xs)"
proof (induction xs rule: rev_induct)
  case (snoc x xs)
  have "key x \<notin> fst ` set (fill_map key val xs)" using snoc.prems by (auto simp: keys_fill_map)
  then show ?case using snoc by (simp add: fill_map_def mset_map_put)
qed (simp add: fill_map_def)

lemma be_load_full_view: "be_load (full_view_bytes32 h) = unat h"
  using unat_word_of_be_load [where ?'a = 256, of 32 "full_view_bytes32 h"] by (simp add: full_view_bytes32_load)

lemma full_view_before: "g < h \<Longrightarrow> key_before (full_view_bytes32 g) (full_view_bytes32 h)"
  by (rule key_before_be) (simp_all add: be_load_full_view word_less_nat_alt)

definition hashed :: "('a \<Rightarrow> bytes32) \<Rightarrow> ('a \<Rightarrow> bytes) \<Rightarrow> 'a list \<Rightarrow> entries" where
  "hashed key val xs = map (\<lambda>x. (unpack_nibbles (full_view_bytes32 (key x)), val x)) xs"

lemma root_of_fill_map:
  assumes "distinct (map key xs)" and "\<forall>x\<in>set xs. length (val x) < 2 ^ 58" and "xs \<noteq> []"
  shows "root_of_map k (fill_map key val xs) = mpt_root k (hashed key val xs)"
proof -
  let ?m = "fill_map key val xs"
  let ?es = "map (\<lambda>(hash, v). (full_view_bytes32 hash, v)) ?m"
  let ?fs = "map (\<lambda>x. (full_view_bytes32 (key x), val x)) xs"
  have "mset ?es = image_mset (\<lambda>(hash, v). (full_view_bytes32 hash, v)) (mset (map (\<lambda>x. (key x, val x)) xs))"
    using mset_fill_map [OF assms(1), of val] by simp
  then have ms: "mset ?es = mset ?fs" by (simp add: comp_def flip: mset_map)
  have sorted: "sorted_wrt key_before (map fst ?es)"
    using sorted_fill_map [of key val xs]
    by (auto simp: sorted_wrt_map comp_def case_prod_beta intro: sorted_wrt_mono_rel [rotated] full_view_before)
  have ok: "\<forall>e\<in>set ?es. entry_ok e"
  proof
    fix e assume "e \<in> set ?es"
    then have "e \<in> set ?fs" using mset_eq_setD [OF ms] by blast
    then obtain x where x: "e = (full_view_bytes32 (key x), val x)" "x \<in> set xs" by auto
    then have "length (val x) < 2 ^ 58" using assms(2) by blast
    moreover have "full_view_bytes32 (key x) \<noteq> []"
      using length_full_view(1) [of "key x"] by (metis list.size(3) zero_neq_numeral)
    ultimately show "entry_ok e" using x(1) by (simp add: entry_ok_def)
  qed
  have "length ?es = length xs" using arg_cong [OF ms, of size] by simp
  then have "?es \<noteq> []" using assms(3) by (cases xs) auto
  then have "root_of_map k ?m = mpt_root k (unpacked ?es)"
    using root_hash_correct [OF sorted ok, of new_hash_builder k]
    by (simp add: root_of_map_def add_entries_def new_hash_builder_def foldl_map case_prod_unfold)
  also have "\<dots> = mpt_root k (unpacked ?fs)"
    using trie_item_mset [OF mset_unpacked [OF ms] distinct_unpack [OF sorted_keys_distinct [OF sorted]]]
    by (simp add: mpt_root_def)
  finally show ?thesis by (simp add: unpacked_def hashed_def comp_def)
qed

section \<open>Properties\<close>

text \<open>The account of the yellow paper: nonce, balance, storage root and code hash.\<close>

definition account_item :: "account \<Rightarrow> bytes32 \<Rightarrow> rlp_item" where
  "account_item a storage_root =
     Lst [Str (be_min (unat (acc_nonce a))), Str (be_min (unat (acc_balance a))),
          Str (full_view_bytes32 storage_root), Str (full_view_bytes32 (acc_code_hash a))]"

lemma encode_scalars:
  "encode_uint64 m = rlp (Str (be_min (unat m)))" "encode_uint256 n = rlp (Str (be_min (unat n)))"
  "encode_bytes32 h = rlp (Str (full_view_bytes32 h))"
proof -
  have "length (be_min (unat m)) \<le> 8" "length (be_min (unat n)) \<le> 32"
    using length_be_min_word [where ?'a = 64, of 8 m] length_be_min_word [where ?'a = 256, of 32 n] by simp_all
  then show "encode_uint64 m = rlp (Str (be_min (unat m)))" "encode_uint256 n = rlp (Str (be_min (unat n)))"
    by (simp_all add: encode_uint64_eq encode_uint256_eq encode_bytes_spec del: rlp.simps)
  show "encode_bytes32 h = rlp (Str (full_view_bytes32 h))"
    by (simp add: encode_bytes32_def length_prefix_def kEmptyStringCode_def)
qed

lemma length_scalars:
  "length (rlp (Str (be_min (unat (m :: u64))))) \<le> 17" "length (rlp (Str (be_min (unat (n :: u256))))) \<le> 41"
  "length (rlp (Str (full_view_bytes32 h))) = 33"
proof -
  have "length (be_min (unat m)) \<le> 8" "length (be_min (unat n)) \<le> 32"
    using length_be_min_word [where ?'a = 64, of 8 m] length_be_min_word [where ?'a = 256, of 32 n] by simp_all
  then show "length (rlp (Str (be_min (unat m)))) \<le> 17" "length (rlp (Str (be_min (unat n)))) \<le> 41"
    using length_rlp_Str [of "be_min (unat m)"] length_rlp_Str [of "be_min (unat n)"] by (simp_all del: rlp.simps)
  show "length (rlp (Str (full_view_bytes32 h))) = 33" by (simp add: length_prefix_def)
qed

lemma account_rlp_eq: "account_rlp a r = rlp (account_item a r)" and length_account_rlp: "length (account_rlp a r) < 2 ^ 58"
proof -
  let ?x = "rlp (Str (be_min (unat (acc_nonce a))))" and ?y = "rlp (Str (be_min (unat (acc_balance a))))"
  let ?n = "length ?x + length ?y + 33 + 33"
  have n: "?n \<le> 17 + 41 + 33 + 33" using length_scalars(1) [of "acc_nonce a"] length_scalars(2) [of "acc_balance a"] by simp
  have "length_uint64 (acc_nonce a) + length_uint256 (acc_balance a) + (32 + 1) + (32 + 1) = (word_of_nat ?n :: u64)"
    by (simp add: Rlp.length_encode_uint64 length_encode_uint256 encode_scalars del: rlp.simps)
  moreover have "?n < 2 ^ 64" using n by simp
  ultimately have "encode_header \<lparr>is_list = True,
      payload_length = length_uint64 (acc_nonce a) + length_uint256 (acc_balance a) + (32 + 1) + (32 + 1)\<rparr> = length_prefix 0xC0 ?n"
    using encode_header_spec [of ?n True] by simp
  then show eq: "account_rlp a r = rlp (account_item a r)"
    by (simp add: account_rlp_def account_item_def encode_scalars length_scalars(3) Let_def add.assoc del: rlp.simps(1))
  have "length (length_prefix 0xC0 ?n) \<le> 9"
    using length_be_min_le_iff [of ?n 8] n by (auto simp: length_prefix_def)
  then show "length (account_rlp a r) < 2 ^ 58"
    using n unfolding eq account_item_def by (simp add: length_scalars(3) Let_def add.assoc del: rlp.simps(1))
qed

definition storage_trie_root :: "(bytes \<Rightarrow> bytes32) \<Rightarrow> (bytes32 \<Rightarrow> bytes32) \<Rightarrow> bytes32 list \<Rightarrow> bytes32" where
  "storage_trie_root k value_of locations =
     (if locations = [] then kEmptyRoot
      else mpt_root k (hashed (\<lambda>l. k (full_view_bytes32 l)) (\<lambda>l. rlp (Str (be_min (unat (value_of l))))) locations))"

definition enumerates :: "'a list \<Rightarrow> ('a \<rightharpoonup> 'b) \<Rightarrow> bool" where
  "enumerates xs m \<longleftrightarrow> distinct xs \<and> set xs = dom m"

lemma mb_account_storage_root_eq:
  assumes "enumerates (locs a i) (storage_at (mb_storage m) a i)" and "inj_on (\<lambda>l. k (full_view_bytes32 l)) (set (locs a i))"
  shows "mb_account_storage_root k locs m a i = storage_trie_root k (mb_read_storage m a i) (locs a i)"
proof (cases "locs a i = []")
  case True
  then show ?thesis by (simp add: mb_account_storage_root_def storage_trie_root_def split: option.split)
next
  case False
  then have "hd (locs a i) \<in> dom (storage_at (mb_storage m) a i)"
    using assms(1) hd_in_set [OF False] by (simp add: enumerates_def)
  then obtain s1 st where st: "mb_storage m a = Some s1" "s1 i = Some st"
    by (auto simp: storage_at_def ensure_def split: option.splits)
  have "length (encode_bytes (zeroless_view v)) < 2 ^ 58" for v
    using length_scalars(2) [of v] length_zeroless_view [of v] by (simp add: zeroless_view_eq encode_bytes_spec del: rlp.simps)
  then have "mb_account_storage_root k locs m a i =
      mpt_root k (hashed (\<lambda>l. k (full_view_bytes32 l)) (\<lambda>l. encode_bytes (zeroless_view (the (st l)))) (locs a i))"
    using False st assms
    by (simp add: mb_account_storage_root_def enumerates_def distinct_map comp_def root_of_fill_map)
  moreover have "encode_bytes (zeroless_view (the (st l))) = rlp (Str (be_min (unat (mb_read_storage m a i l))))"
    if "l \<in> set (locs a i)" for l
  proof -
    have "mb_read_storage m a i l = the (st l)"
      using that st assms(1) by (auto simp: enumerates_def storage_at_def ensure_def mb_read_storage_def)
    then show ?thesis
      using length_zeroless_view [of "the (st l)"] by (simp add: zeroless_view_eq encode_bytes_spec del: rlp.simps)
  qed
  ultimately show ?thesis using False by (simp add: storage_trie_root_def hashed_def cong: map_cong del: rlp.simps)
qed

text \<open>
  C10. The state root of the memory buffer, which \<open>insert_block\<close> compares with the header, is the root of the
  trie that maps the hash of each address to the RLP of nonce, balance, storage root and code hash, where
  the storage root is that of the trie of the hashed locations of the account; whatever the order in
  which the hash maps are walked, as long as no two keys have the same hash.
\<close>

theorem state_root_correct:
  assumes "enumerates addrs (mb_accounts m)" and "\<And>a i. enumerates (locs a i) (storage_at (mb_storage m) a i)"
    and "inj_on (\<lambda>a. k (full_view_address a)) (set addrs)" and "\<And>a i. inj_on (\<lambda>l. k (full_view_bytes32 l)) (set (locs a i))"
  shows "mb_state_root_hash k addrs locs m =
    (if addrs = [] then kEmptyRoot
     else mpt_root k (hashed (\<lambda>a. k (full_view_address a))
       (\<lambda>a. let account = the (mb_read_account m a); i = acc_incarnation account
            in rlp (account_item account (storage_trie_root k (mb_read_storage m a i) (locs a i)))) addrs))"
proof (cases "addrs = []")
  case False
  have root: "mb_state_root_hash k addrs locs m =
      mpt_root k (hashed (\<lambda>a. k (full_view_address a))
       (\<lambda>a. let account = the (mb_accounts m a)
            in account_rlp account (mb_account_storage_root k locs m a (acc_incarnation account))) addrs)"
    using False assms(1,3) length_account_rlp
    by (simp add: mb_state_root_hash_def enumerates_def distinct_map root_of_fill_map Let_def comp_def)
  have roots: "mb_account_storage_root k locs m a i = storage_trie_root k (mb_read_storage m a i) (locs a i)" for a i
    by (rule mb_account_storage_root_eq [OF assms(2,4)])
  have "(\<lambda>a. let account = the (mb_accounts m a)
        in account_rlp account (mb_account_storage_root k locs m a (acc_incarnation account))) =
      (\<lambda>a. let account = the (mb_read_account m a); i = acc_incarnation account
        in rlp (account_item account (storage_trie_root k (mb_read_storage m a i) (locs a i))))"
    by (rule ext) (simp only: Let_def mb_read_account_def account_rlp_eq roots)
  then show ?thesis using root False by simp
qed (simp add: mb_state_root_hash_def)

lemma state_root_correct_witness:
  "mb_state_root_hash (\<lambda>x. 7) [] (\<lambda>a i. []) new_memory_buffer = kEmptyRoot \<and>
   mb_state_root_hash (\<lambda>x. word_of_nat (be_load x)) [3] (\<lambda>a i. []) (new_memory_buffer\<lparr>mb_accounts := [3 \<mapsto> new_account]\<rparr>) =
    mpt_root (\<lambda>x. word_of_nat (be_load x)) (hashed (\<lambda>a. word_of_nat (be_load (full_view_address a)))
       (\<lambda>a. rlp (account_item new_account kEmptyRoot)) [3])"
  using state_root_correct [of "[]" new_memory_buffer "\<lambda>a i. []" "\<lambda>x. 7"]
    state_root_correct [of "[3]" "new_memory_buffer\<lparr>mb_accounts := [3 \<mapsto> new_account]\<rparr>" "\<lambda>a i. []" "\<lambda>x. word_of_nat (be_load x)"]
  by (simp add: enumerates_def new_memory_buffer_def storage_at_def ensure_def mb_read_account_def storage_trie_root_def
      hashed_def del: rlp.simps)

end
