(* ===== verification/Db_Buffer.thy ===== *)
theory Db_Buffer
  imports Access_Layer State_Root Bloom
begin

text \<open>
  db/silkworm/db/buffer.hpp and buffer.cpp: the state buffer that keeps changes in memory until they are
  written to the database, and reads through to the database what it does not hold.

  All maps are lists sorted by their keys.  For the hash maps this fixes an order of iteration, which has no
  effect: the code walks them only to fill ordered containers.  Functions that throw, or that terminate the
  program because they are \<open>noexcept\<close>, return a value of \<open>db_error\<close>.  The CBOR encodings of receipts and logs are
  parameters.
\<close>

section \<open>The state\<close>

record 'd db_buffer =
  dbb_txn :: "'d txn option"
  dbb_historical_block :: "u64 option"
  dbb_headers :: "(bytes \<times> block_header) list"
  dbb_bodies :: "(bytes \<times> block_body) list"
  dbb_difficulty :: "(bytes \<times> u256) list"
  dbb_accounts :: "(address \<times> account option) list"
  dbb_storage :: "(address \<times> (u64 \<times> (bytes32 \<times> bytes32) list) list) list"
  dbb_account_changes :: "(u64 \<times> account_change_map) list"
  dbb_storage_changes :: "(u64 \<times> storage_change_map) list"
  dbb_incarnations :: "(address \<times> u64) list"
  dbb_hash_to_code :: "(bytes32 \<times> bytes) list"
  dbb_storage_prefix_to_code_hash :: "(bytes \<times> bytes32) list"
  dbb_receipts :: "(bytes \<times> bytes) list"
  dbb_logs :: "(bytes \<times> bytes) list"
  dbb_batch_size :: u64
  dbb_block_number :: u64
  dbb_changed_storage :: "address set"

definition new_db_buffer :: "'d txn option \<Rightarrow> u64 option \<Rightarrow> 'd db_buffer" where
  "new_db_buffer t historical_block =
     \<lparr>dbb_txn = t, dbb_historical_block = historical_block, dbb_headers = [], dbb_bodies = [], dbb_difficulty = [],
      dbb_accounts = [], dbb_storage = [], dbb_account_changes = [], dbb_storage_changes = [], dbb_incarnations = [],
      dbb_hash_to_code = [], dbb_storage_prefix_to_code_hash = [], dbb_receipts = [], dbb_logs = [],
      dbb_batch_size = 0, dbb_block_number = 0, dbb_changed_storage = {}\<rparr>"

section \<open>State changes\<close>

definition bump_batch_size :: "nat \<Rightarrow> nat \<Rightarrow> 'd db_buffer \<Rightarrow> 'd db_buffer" where
  "bump_batch_size key_len value_len b = b\<lparr>dbb_batch_size := dbb_batch_size b + (8 + word_of_nat key_len + word_of_nat value_len)\<rparr>"

text \<open>Account for an entry when \<open>insert_or_assign\<close> has inserted it.\<close>

definition bump_if :: "bool \<Rightarrow> nat \<Rightarrow> nat \<Rightarrow> 'd db_buffer \<Rightarrow> 'd db_buffer" where
  "bump_if inserted key_len value_len b = (if inserted then bump_batch_size key_len value_len b else b)"

definition dbb_begin_block :: "'d db_buffer \<Rightarrow> u64 \<Rightarrow> 'd db_buffer" where
  "dbb_begin_block b block_number = b\<lparr>dbb_block_number := block_number, dbb_changed_storage := {}\<rparr>"

definition put_account_change :: "address \<Rightarrow> bytes \<Rightarrow> 'd db_buffer \<Rightarrow> 'd db_buffer" where
  "put_account_change address encoded b =
     (let old = (case map_of (dbb_account_changes b) (dbb_block_number b) of None \<Rightarrow> [] | Some m \<Rightarrow> m)
      in bump_if (map_of old address = None) 8 (20 + length encoded)
           (b\<lparr>dbb_account_changes := map_put (dbb_block_number b) (map_put address encoded old) (dbb_account_changes b)\<rparr>))"

definition dbb_update_account :: "'d db_buffer \<Rightarrow> address \<Rightarrow> account option \<Rightarrow> account option \<Rightarrow> 'd db_buffer" where
  "dbb_update_account b address old current =
     (let equal = (current = old); account_deleted = (current = None)
      in if equal \<and> \<not> account_deleted \<and> address \<notin> dbb_changed_storage b then b
         else
           let encoded_initial = (case old of None \<Rightarrow> [] | Some a \<Rightarrow> encode_for_storage a (\<not> account_deleted));
               b = put_account_change address encoded_initial b
           in if equal then b
              else
                let b = bump_if (map_of (dbb_accounts b) address = None) 20
                          (case current of None \<Rightarrow> 0 | Some a \<Rightarrow> encoding_length_for_storage a)
                          (b\<lparr>dbb_accounts := map_put address current (dbb_accounts b)\<rparr>)
                in (case old of
                      Some a \<Rightarrow>
                        if account_deleted \<and> acc_incarnation a \<noteq> 0 then
                          bump_if (map_of (dbb_incarnations b) address = None) 20 8
                            (b\<lparr>dbb_incarnations := map_put address (acc_incarnation a) (dbb_incarnations b)\<rparr>)
                        else b
                    | None \<Rightarrow> b))"

definition dbb_update_account_code :: "'d db_buffer \<Rightarrow> address \<Rightarrow> u64 \<Rightarrow> bytes32 \<Rightarrow> bytes \<Rightarrow> 'd db_buffer" where
  "dbb_update_account_code b address incarnation code_hash code =
     (let b = bump_if (map_of (dbb_hash_to_code b) code_hash = None) 32 (length code)
                (b\<lparr>dbb_hash_to_code := map_put code_hash code (dbb_hash_to_code b)\<rparr>);
          key_prefix = storage_prefix (full_view_address address) incarnation
      in bump_if (map_of (dbb_storage_prefix_to_code_hash b) key_prefix = None) 28 32
           (b\<lparr>dbb_storage_prefix_to_code_hash := map_put key_prefix code_hash (dbb_storage_prefix_to_code_hash b)\<rparr>))"

text \<open>\<open>map[address][incarnation]\<close>, empty maps being created on the way.\<close>

definition inner :: "'k1 \<Rightarrow> 'k2 \<Rightarrow> ('k1 \<times> ('k2 \<times> ('k3 \<times> 'v) list) list) list \<Rightarrow> ('k3 \<times> 'v) list" where
  "inner a i m = (case map_of m a of None \<Rightarrow> [] | Some m1 \<Rightarrow> (case map_of m1 i of None \<Rightarrow> [] | Some m2 \<Rightarrow> m2))"

definition dbb_update_storage ::
    "'d db_buffer \<Rightarrow> address \<Rightarrow> u64 \<Rightarrow> bytes32 \<Rightarrow> bytes32 \<Rightarrow> bytes32 \<Rightarrow> 'd db_buffer" where
  "dbb_update_storage b address incarnation location old current =
     (if current = old then b
      else
        let b = b\<lparr>dbb_changed_storage := insert address (dbb_changed_storage b)\<rparr>;
            change_val = zeroless_view old;
            changes = (case map_of (dbb_storage_changes b) (dbb_block_number b) of None \<Rightarrow> [] | Some m \<Rightarrow> m);
            b = bump_if (map_of (inner address incarnation changes) location = None) (8 + 28) (32 + length change_val)
                  (b\<lparr>dbb_storage_changes :=
                      map_put (dbb_block_number b) (put_storage_change address incarnation location change_val changes)
                        (dbb_storage_changes b)\<rparr>)
        in bump_if (map_of (inner address incarnation (dbb_storage b)) location = None) 28 (32 + length (zeroless_view current))
             (b\<lparr>dbb_storage :=
                 map_change address [] (map_change incarnation [] (map_put location current)) (dbb_storage b)\<rparr>))"

section \<open>Roots\<close>

definition dbb_account_storage_root :: "(bytes \<Rightarrow> bytes32) \<Rightarrow> 'd db_buffer \<Rightarrow> address \<Rightarrow> u64 \<Rightarrow> bytes32" where
  "dbb_account_storage_root k b address incarnation =
     (let st = inner address incarnation (dbb_storage b)
      in if st = [] then kEmptyRoot
         else root_of_map k
           (fill_map (\<lambda>(location, _). k (full_view_bytes32 location)) (\<lambda>(_, v). encode_bytes (zeroless_view v)) st))"

definition dbb_state_root_hash :: "(bytes \<Rightarrow> bytes32) \<Rightarrow> 'd db_buffer \<Rightarrow> bytes32" where
  "dbb_state_root_hash k b =
     (if dbb_accounts b = [] then kEmptyRoot
      else root_of_map k
        (fill_map (\<lambda>(address, _). k (full_view_address address))
           (\<lambda>(address, account). account_rlp (the account) (dbb_account_storage_root k b address (acc_incarnation (the account))))
           (filter (\<lambda>(_, account). account \<noteq> None) (dbb_accounts b))))"

section \<open>Writing to the database\<close>

fun db_fold :: "('a \<Rightarrow> 's \<Rightarrow> 's db) \<Rightarrow> 'a list \<Rightarrow> 's \<Rightarrow> 's db" where
  "db_fold f [] s = Inr s"
| "db_fold f (x # xs) s = db_bind (f x s) (db_fold f xs)"

definition upsert_storage_value :: "'d lmdb_ops \<Rightarrow> bytes \<Rightarrow> bytes32 \<Rightarrow> bytes32 \<Rightarrow> 'd \<Rightarrow> 'd db" where
  "upsert_storage_value M key_prefix location val d =
     db_bind (table_del_sub M key_prefix (full_view_bytes32 location) d) (\<lambda>d.
     if val \<noteq> 0 then table_put M key_prefix (full_view_bytes32 location @ zeroless_view val) d else Inr d)"

definition write_account :: "'d lmdb_ops \<Rightarrow> address \<Rightarrow> account option \<Rightarrow> 'd \<Rightarrow> 'd db" where
  "write_account M address account d =
     db_bind (table_del M (full_view_address address) d) (\<lambda>d.
     db_option account (Inr d) (\<lambda>a. table_put M (full_view_address address) (encode_for_storage a False) d))"

definition write_contract :: "'d lmdb_ops \<Rightarrow> address \<Rightarrow> u64 \<times> (bytes32 \<times> bytes32) list \<Rightarrow> 'd \<Rightarrow> 'd db" where
  "write_contract M address contract d =
     (case contract of
        (incarnation, contract_storage) \<Rightarrow>
          let storage_keys = sort (map fst contract_storage)
          in db_fold (\<lambda>k. upsert_storage_value M (storage_prefix (full_view_address address) incarnation) k
               (the (map_of contract_storage k))) storage_keys d)"

definition write_address :: "'d lmdb_ops \<Rightarrow> 'd db_buffer \<Rightarrow> address \<Rightarrow> 'd \<Rightarrow> 'd db" where
  "write_address M b address d =
     db_bind (db_option (map_of (dbb_accounts b) address) (Inr d) (\<lambda>account. write_account M address account d)) (\<lambda>d.
     db_option (map_of (dbb_storage b) address) (Inr d) (\<lambda>contracts. db_fold (write_contract M address) contracts d))"

text \<open>Opening a table, changing it and keeping it.\<close>

definition in_table :: "'d lmdb_ops \<Rightarrow> table_config \<Rightarrow> ('d \<Rightarrow> 'd db) \<Rightarrow> 'd txn \<Rightarrow> 'd txn db" where
  "in_table M config f t =
     db_bind (txn_open M config False t) (\<lambda>(d, t). db_bind (f d) (\<lambda>d. Inr (txn_store config d t)))"

definition sorted_addresses :: "'d db_buffer \<Rightarrow> address list" where
  "sorted_addresses b = map fst (fill_map (\<lambda>a. a) (\<lambda>_. ()) (map fst (dbb_accounts b) @ map fst (dbb_storage b)))"

definition write_to_state_table :: "'d lmdb_ops \<Rightarrow> 'd db_buffer \<Rightarrow> 'd txn \<Rightarrow> 'd txn db" where
  "write_to_state_table M b t = in_table M kPlainState (db_fold (write_address M b) (sorted_addresses b)) t"

text \<open>The loops over change sets put one value per changed account or location.\<close>

definition account_change_rows :: "'d db_buffer \<Rightarrow> (bytes \<times> bytes) list" where
  "account_change_rows b =
     concat (map (\<lambda>(block_num, changes).
       map (\<lambda>(address, encoded). (block_key block_num, full_view_address address @ encoded)) changes) (dbb_account_changes b))"

definition storage_change_rows :: "'d db_buffer \<Rightarrow> (bytes \<times> bytes) list" where
  "storage_change_rows b =
     concat (map (\<lambda>(block_num, addresses).
       concat (map (\<lambda>(address, incarnations).
         concat (map (\<lambda>(incarnation, entries).
           map (\<lambda>(location, v). (storage_change_key block_num address incarnation, full_view_bytes32 location @ v)) entries)
           incarnations)) addresses)) (dbb_storage_changes b))"

definition put_rows :: "'d lmdb_ops \<Rightarrow> (bytes \<times> bytes) list \<Rightarrow> 'd \<Rightarrow> 'd db" where
  "put_rows M kvs d = db_fold (\<lambda>(k, v). table_put M k v) kvs d"

definition dbb_write_to_db :: "'d lmdb_ops \<Rightarrow> 'd db_buffer \<Rightarrow> 'd db_buffer db" where
  "dbb_write_to_db M b =
     (case dbb_txn b of
        None \<Rightarrow> Inr b
      | Some t \<Rightarrow>
          db_bind (write_to_state_table M b t) (\<lambda>t.
          db_bind (in_table M kIncarnationMap
            (put_rows M (map (\<lambda>(a, i). (full_view_address a, be_store 8 (unat i))) (dbb_incarnations b))) t) (\<lambda>t.
          db_bind (in_table M kCode (put_rows M (map (\<lambda>(h, c). (full_view_bytes32 h, c)) (dbb_hash_to_code b))) t) (\<lambda>t.
          db_bind (in_table M kPlainContractCode
            (put_rows M (map (\<lambda>(p, h). (p, full_view_bytes32 h)) (dbb_storage_prefix_to_code_hash b))) t) (\<lambda>t.
          db_bind (in_table M kPlainAccountChangeSet (put_rows M (account_change_rows b)) t) (\<lambda>t.
          db_bind (in_table M kPlainStorageChangeSet (put_rows M (storage_change_rows b)) t) (\<lambda>t.
          db_bind (in_table M kBlockReceipts (put_rows M (dbb_receipts b)) t) (\<lambda>t.
          db_bind (in_table M kLogs (put_rows M (dbb_logs b)) t) (\<lambda>t.
          Inr (b\<lparr>dbb_txn := Some t\<rparr>))))))))))"

section \<open>Receipts and blocks\<close>

record cbor_ops =
  cbor_encode_logs :: "log list \<Rightarrow> bytes"
  cbor_encode_receipts :: "receipt list \<Rightarrow> bytes"

fun insert_logs :: "cbor_ops \<Rightarrow> u64 \<Rightarrow> u32 \<Rightarrow> receipt list \<Rightarrow> 'd db_buffer \<Rightarrow> 'd db_buffer" where
  "insert_logs C block_number i [] b = b"
| "insert_logs C block_number i (r # rs) b =
     insert_logs C block_number (i + 1) rs
       (if rcpt_logs r = [] then b
        else
          let key = log_key block_number i; val = cbor_encode_logs C (rcpt_logs r)
          in bump_if (map_of (dbb_logs b) key = None) (length key) (length val) (b\<lparr>dbb_logs := map_put key val (dbb_logs b)\<rparr>))"

definition dbb_insert_receipts :: "cbor_ops \<Rightarrow> 'd db_buffer \<Rightarrow> u64 \<Rightarrow> receipt list \<Rightarrow> 'd db_buffer" where
  "dbb_insert_receipts C b block_number receipts =
     (let b = insert_logs C block_number 0 receipts b;
          key = block_key block_number;
          val = cbor_encode_receipts C receipts
      in bump_if (map_of (dbb_receipts b) key = None) (length key) (length val) (b\<lparr>dbb_receipts := map_put key val (dbb_receipts b)\<rparr>))"

definition dbb_total_difficulty :: "'d lmdb_ops \<Rightarrow> 'd db_buffer \<Rightarrow> u64 \<Rightarrow> bytes32 \<Rightarrow> u256 option db" where
  "dbb_total_difficulty M b block_number block_hash =
     db_option (map_of (dbb_difficulty b) (block_hash_key block_number block_hash))
       (db_option (dbb_txn b) (Inr None) (\<lambda>t. db_read_total_difficulty M t block_number block_hash))
       (\<lambda>td. Inr (Some td))"

definition dbb_insert_block :: "'d lmdb_ops \<Rightarrow> 'd db_buffer \<Rightarrow> block \<Rightarrow> bytes32 \<Rightarrow> 'd db_buffer db" where
  "dbb_insert_block M b block hash =
     (let header = blk_header block;
          block_number = number header;
          key = block_hash_key block_number hash;
          b = b\<lparr>dbb_headers := map_put key header (dbb_headers b),
                dbb_bodies := map_put key (body_of block) (dbb_bodies b)\<rparr>
      in db_bind (if block_number = 0 then Inr (Some 0) else dbb_total_difficulty M b (block_number - 1) (parent_hash header))
           (\<lambda>parent_difficulty.
              Inr (b\<lparr>dbb_difficulty :=
                map_put key ((case parent_difficulty of None \<Rightarrow> 0 | Some td \<Rightarrow> td) + difficulty header) (dbb_difficulty b)\<rparr>)))"

definition dbb_read_header :: "'d lmdb_ops \<Rightarrow> 'd db_buffer \<Rightarrow> u64 \<Rightarrow> bytes32 \<Rightarrow> block_header option db" where
  "dbb_read_header M b block_number block_hash =
     db_option (map_of (dbb_headers b) (block_hash_key block_number block_hash))
       (db_option (dbb_txn b) (Inr None) (\<lambda>t. db_read_header M t block_number block_hash))
       (\<lambda>header. Inr (Some header))"

definition dbb_read_body :: "'d lmdb_ops \<Rightarrow> 'd db_buffer \<Rightarrow> u64 \<Rightarrow> bytes32 \<Rightarrow> block_body option db" where
  "dbb_read_body M b block_number block_hash =
     db_option (map_of (dbb_bodies b) (block_hash_key block_number block_hash))
       (db_option (dbb_txn b) (Inr None) (\<lambda>t. db_read_body M t block_number block_hash False))
       (\<lambda>body. Inr (Some body))"

text \<open>Functions that are not implemented throw.\<close>

definition dbb_current_canonical_block :: "'d db_buffer \<Rightarrow> u64 db" where
  "dbb_current_canonical_block b = Inl Runtime_error"

definition dbb_canonical_hash :: "'d db_buffer \<Rightarrow> u64 \<Rightarrow> bytes32 option db" where
  "dbb_canonical_hash b block_number = Inl Runtime_error"

definition dbb_canonize_block :: "'d db_buffer \<Rightarrow> u64 \<Rightarrow> bytes32 \<Rightarrow> 'd db_buffer db" where
  "dbb_canonize_block b block_number block_hash = Inl Runtime_error"

definition dbb_decanonize_block :: "'d db_buffer \<Rightarrow> u64 \<Rightarrow> 'd db_buffer db" where
  "dbb_decanonize_block b block_number = Inl Runtime_error"

definition dbb_unwind_state_changes :: "'d db_buffer \<Rightarrow> u64 \<Rightarrow> 'd db_buffer db" where
  "dbb_unwind_state_changes b block_number = Inl Runtime_error"

section \<open>Readers\<close>

definition dbb_read_account :: "'d lmdb_ops \<Rightarrow> ('m, u64) roaring_ops \<Rightarrow> 'd db_buffer \<Rightarrow> address \<Rightarrow> account option db" where
  "dbb_read_account M R b address =
     db_option (map_of (dbb_accounts b) address)
       (db_option (dbb_txn b) (Inr None) (\<lambda>t. db_read_account M R t address (dbb_historical_block b)))
       Inr"

definition dbb_read_code :: "'d lmdb_ops \<Rightarrow> 'd db_buffer \<Rightarrow> bytes32 \<Rightarrow> bytes db" where
  "dbb_read_code M b code_hash =
     db_option (map_of (dbb_hash_to_code b) code_hash)
       (db_option (dbb_txn b) (Inr []) (\<lambda>t.
          db_bind (db_read_code M t code_hash) (\<lambda>c. Inr (case c of None \<Rightarrow> [] | Some c \<Rightarrow> c))))
       Inr"

definition dbb_read_storage ::
    "'d lmdb_ops \<Rightarrow> ('m, u64) roaring_ops \<Rightarrow> 'd db_buffer \<Rightarrow> address \<Rightarrow> u64 \<Rightarrow> bytes32 \<Rightarrow> bytes32 db" where
  "dbb_read_storage M R b address incarnation location =
     db_option (map_of (inner address incarnation (dbb_storage b)) location)
       (db_option (dbb_txn b) (Inr 0) (\<lambda>t. db_read_storage M R t address incarnation location (dbb_historical_block b)))
       Inr"

definition dbb_previous_incarnation :: "'d lmdb_ops \<Rightarrow> 'd db_buffer \<Rightarrow> address \<Rightarrow> u64 db" where
  "dbb_previous_incarnation M b address =
     db_option (map_of (dbb_incarnations b) address)
       (db_option (dbb_txn b) (Inr 0) (\<lambda>t.
          db_bind (db_read_previous_incarnation M t address (dbb_historical_block b)) (\<lambda>i.
            Inr (case i of None \<Rightarrow> 0 | Some i \<Rightarrow> i))))
       Inr"

end
