(* ===== verification/Db_Buffer_Correct.thy ===== *)
theory Db_Buffer_Correct
  imports Db_Buffer
begin

text \<open>
  Correctness of the database buffer: what is written to the tables is what a new buffer reads from them.

  \<open>lookup\<close> and \<open>lookup_sub\<close> are the values of a key, and of a sub-key, in a set of pairs.  The readers of the access layer
  and the writers of the buffer are described in terms of them, and the loops by the functions they
  compute on them.
\<close>

section \<open>Rows\<close>

definition single :: "(bytes \<times> bytes) set \<Rightarrow> bytes \<Rightarrow> bool" where
  "single S k \<longleftrightarrow> (\<forall>v w. (k, v) \<in> S \<longrightarrow> (k, w) \<in> S \<longrightarrow> v = w)"

definition single_sub :: "(bytes \<times> bytes) set \<Rightarrow> bytes \<Rightarrow> bytes \<Rightarrow> bool" where
  "single_sub S k s \<longleftrightarrow> (\<forall>v w. (k, s @ v) \<in> S \<longrightarrow> (k, s @ w) \<in> S \<longrightarrow> v = w)"

definition lookup :: "(bytes \<times> bytes) set \<Rightarrow> bytes \<Rightarrow> bytes option" where
  "lookup S k = (if \<exists>v. (k, v) \<in> S then Some (THE v. (k, v) \<in> S) else None)"

definition lookup_sub :: "(bytes \<times> bytes) set \<Rightarrow> bytes \<Rightarrow> bytes \<Rightarrow> bytes option" where
  "lookup_sub S k s = (if \<exists>v. (k, s @ v) \<in> S then Some (THE v. (k, s @ v) \<in> S) else None)"

lemma lookup_Some: "single S k \<Longrightarrow> (k, v) \<in> S \<Longrightarrow> lookup S k = Some v"
  unfolding lookup_def single_def by (auto intro: the_equality)

lemma lookup_None: "(\<And>v. (k, v) \<notin> S) \<Longrightarrow> lookup S k = None"
  by (simp add: lookup_def)

lemma lookup_sub_Some: "single_sub S k s \<Longrightarrow> (k, s @ v) \<in> S \<Longrightarrow> lookup_sub S k s = Some v"
  unfolding lookup_sub_def single_sub_def by (auto intro: the_equality)

lemma lookup_sub_None: "(\<And>v. (k, s @ v) \<notin> S) \<Longrightarrow> lookup_sub S k s = None"
  by (simp add: lookup_sub_def)

lemma lookup_cong:
  assumes "\<And>v. (k, v) \<in> S \<longleftrightarrow> (k, v) \<in> T"
  shows "lookup S k = lookup T k" "single S k = single T k"
  using assms by (simp_all add: lookup_def single_def)

lemma lookup_sub_cong:
  assumes "\<And>v. (k, s @ v) \<in> S \<longleftrightarrow> (k, s @ v) \<in> T"
  shows "lookup_sub S k s = lookup_sub T k s" "single_sub S k s = single_sub T k s"
  using assms by (simp_all add: lookup_sub_def single_sub_def)

text \<open>The rows after a value has been put in a table without duplicates.\<close>

lemma lookup_put:
  "lookup (insert (k, v) {p \<in> S. fst p \<noteq> k}) k' = (if k' = k then Some v else lookup S k')"
  "single (insert (k, v) {p \<in> S. fst p \<noteq> k}) k' \<longleftrightarrow> k' = k \<or> single S k'"
proof -
  let ?T = "insert (k, v) {p \<in> S. fst p \<noteq> k}"
  have k: "single ?T k" by (auto simp: single_def)
  have *: "(k', w) \<in> ?T \<longleftrightarrow> (k', w) \<in> S" if "k' \<noteq> k" for w using that by simp
  show "lookup ?T k' = (if k' = k then Some v else lookup S k')"
    using lookup_Some [OF k, of v] lookup_cong(1) [OF *] by auto
  show "single ?T k' \<longleftrightarrow> k' = k \<or> single S k'"
    using k lookup_cong(2) [OF *] by auto
qed

lemma map_of_map_key:
  "inj_on key (insert k (fst ` set xs)) \<Longrightarrow> map_of (map (\<lambda>(k, v). (key k, g v)) xs) (key k) = map_option g (map_of xs k)"
  by (induction xs) (auto simp: inj_on_def)

lemma map_of_rev_distinct: "distinct (map fst xs) \<Longrightarrow> map_of (rev xs) = map_of xs"
proof (induction xs)
  case (Cons x xs)
  have "map_of xs (fst x) = None" using Cons.prems by (simp add: map_of_eq_None_iff)
  then show ?case using Cons by (cases x) (auto simp: map_add_def fun_eq_iff split: option.split)
qed simp

context lmdb
begin

lemma get_in_rows:
  assumes "has_table dups t c" "k \<noteq> []" "single (rows items t c) k"
  shows "get_in M t c k = Inr (lookup (rows items t c) k)"
proof -
  obtain d where d: "txn_open M c False t = Inr (d, t)" "items d = rows items t c" using txn_open_table [OF assms(1)] by blast
  show ?thesis
  proof (cases "\<exists>v. (k, v) \<in> items d")
    case True
    then obtain v where v: "(k, v) \<in> items d" by blast
    have "w = v" if "(k, w) \<in> items d" for w using assms(3) v that unfolding d(2) single_def by blast
    then obtain d' where "table_get M k d = Inr (Some v, d')" using table_get_some [OF assms(2) v] by blast
    then show ?thesis using d lookup_Some [OF assms(3)] v by (simp add: get_in_def)
  next
    case False
    then obtain d' where "table_get M k d = Inr (None, d')" using table_get_none [OF assms(2)] by blast
    then show ?thesis using d lookup_None False by (simp add: get_in_def)
  qed
qed

lemma get_sub_in_rows:
  assumes "has_table dups t c" "tc_dupsort c" "k \<noteq> []" "single_sub (rows items t c) k s"
  shows "get_sub_in M t c k s = Inr (lookup_sub (rows items t c) k s)"
proof -
  obtain d where d: "txn_open M c False t = Inr (d, t)" "items d = rows items t c" "dups d"
    using txn_open_table [OF assms(1)] assms(2) by blast
  show ?thesis
  proof (cases "\<exists>v. (k, s @ v) \<in> items d")
    case True
    then obtain v where v: "(k, s @ v) \<in> items d" by blast
    have "w = v" if "(k, s @ w) \<in> items d" for w using assms(4) v that unfolding d(2) single_sub_def by blast
    then obtain d' where "table_get_sub M k s d = Inr (Some v, d')" using table_get_sub_some [OF d(3) assms(3) v] by blast
    then show ?thesis using d lookup_sub_Some [OF assms(4)] v by (simp add: get_sub_in_def)
  next
    case False
    then obtain d' where "table_get_sub M k s d = Inr (None, d')" using table_get_sub_none [OF d(3) assms(3)] by blast
    then show ?thesis using d lookup_sub_None False by (simp add: get_sub_in_def)
  qed
qed

text \<open>Putting rows in a table, without and with duplicates.\<close>

lemma put_rows_plain:
  assumes "\<forall>(k, v)\<in>set kvs. storable False k v" "\<not> dups d"
  shows "\<exists>d'. put_rows M kvs d = Inr d' \<and> \<not> dups d' \<and>
    (\<forall>k. lookup (items d') k = (case map_of (rev kvs) k of None \<Rightarrow> lookup (items d) k | Some v \<Rightarrow> Some v)) \<and>
    (\<forall>k. single (items d) k \<longrightarrow> single (items d') k)"
  using assms
proof (induction kvs arbitrary: d)
  case (Cons kv kvs)
  obtain k v where kv: "kv = (k, v)" by fastforce
  obtain d1 where d1: "table_put M k v d = Inr d1" "\<not> dups d1" "items d1 = insert (k, v) {p \<in> items d. fst p \<noteq> k}"
    using table_put_items [of d k v] Cons.prems kv by auto
  obtain d' where d': "put_rows M kvs d1 = Inr d'" "\<not> dups d'"
    "\<forall>k. lookup (items d') k = (case map_of (rev kvs) k of None \<Rightarrow> lookup (items d1) k | Some v \<Rightarrow> Some v)"
    "\<forall>k. single (items d1) k \<longrightarrow> single (items d') k"
    using Cons.IH [OF _ d1(2)] Cons.prems(1) by auto
  show ?case
    using d1 d' by (auto simp: kv put_rows_def lookup_put map_add_def split: option.split)
qed (simp add: put_rows_def)

lemma put_rows_dups:
  assumes "\<forall>(k, v)\<in>set kvs. storable True k v" "dups d"
  shows "\<exists>d'. put_rows M kvs d = Inr d' \<and> dups d' \<and> items d' = items d \<union> set kvs"
  using assms
proof (induction kvs arbitrary: d)
  case (Cons kv kvs)
  obtain k v where kv: "kv = (k, v)" by fastforce
  obtain d1 where d1: "table_put M k v d = Inr d1" "dups d1" "items d1 = insert (k, v) (items d)"
    using table_put_items [of d k v] Cons.prems kv by auto
  obtain d' where "put_rows M kvs d1 = Inr d'" "dups d'" "items d' = items d1 \<union> set kvs"
    using Cons.IH [OF _ d1(2)] Cons.prems(1) by auto
  then show ?case using d1 by (simp add: kv put_rows_def)
qed (simp add: put_rows_def)

lemma in_table_rows:
  assumes "has_table dups t c"
    and "\<And>d. items d = rows items t c \<Longrightarrow> dups d = tc_dupsort c \<Longrightarrow> \<exists>d'. f d = Inr d' \<and> dups d' = tc_dupsort c \<and> P (items d')"
  shows "\<exists>t'. in_table M c f t = Inr t' \<and> P (rows items t' c) \<and> txn_ro t' = txn_ro t \<and>
    (\<forall>c'. tc_name c' \<noteq> tc_name c \<longrightarrow> rows items t' c' = rows items t c') \<and>
    (\<forall>c'. tc_name c' = tc_name c \<longrightarrow> tc_dupsort c' = tc_dupsort c \<longrightarrow> has_table dups t' c') \<and>
    (\<forall>c'. tc_name c' \<noteq> tc_name c \<longrightarrow> has_table dups t' c' = has_table dups t c')"
proof -
  obtain d where d: "txn_open M c False t = Inr (d, t)" "items d = rows items t c" "dups d = tc_dupsort c"
    using txn_open_table [OF assms(1)] by blast
  then obtain d' where d': "f d = Inr d'" "dups d' = tc_dupsort c" "P (items d')" using assms(2) by blast
  have "tc_name c \<noteq> None" using assms(1) by (auto simp: has_table_def)
  then have "has_table dups (txn_store c d' t) c' \<longleftrightarrow>
      (if tc_name c' = tc_name c then tc_dupsort c' = tc_dupsort c else has_table dups t c')" for c'
    using d'(2) by (simp add: has_table_store)
  then show ?thesis using d d' by (auto simp: in_table_def rows_store)
qed

end

section \<open>The state table\<close>

text \<open>The accounts and the storage slots in the rows of the state table.\<close>

abbreviation state_prefix :: "address \<Rightarrow> u64 \<Rightarrow> bytes" where
  "state_prefix a i \<equiv> storage_prefix (full_view_address a) i"

definition acct :: "(bytes \<times> bytes) set \<Rightarrow> address \<Rightarrow> bytes option" where
  "acct S a = lookup S (full_view_address a)"

definition slots :: "(bytes \<times> bytes) set \<Rightarrow> address \<times> u64 \<times> bytes32 \<Rightarrow> bytes option" where
  "slots S = (\<lambda>(a, i, l). lookup_sub S (state_prefix a i) (full_view_bytes32 l))"

definition state_rows :: "(bytes \<times> bytes) set \<Rightarrow> bool" where
  "state_rows S \<longleftrightarrow> (\<forall>a. single S (full_view_address a)) \<and> (\<forall>a i l. single_sub S (state_prefix a i) (full_view_bytes32 l))"

lemma has_prefix_iff: "has_prefix x s \<longleftrightarrow> (\<exists>w. x = s @ w)"
  unfolding has_prefix_def by (metis append_take_drop_id append_eq_conv_conj)

lemma address_not_prefix [simp]: "full_view_address a \<noteq> state_prefix b i" "state_prefix b i \<noteq> full_view_address a"
proof -
  have "length (full_view_address a) \<noteq> length (state_prefix b i)" by simp
  then show "full_view_address a \<noteq> state_prefix b i" "state_prefix b i \<noteq> full_view_address a" by metis+
qed

lemma nonempty_keys [simp]: "full_view_address a \<noteq> []" "full_view_bytes32 h \<noteq> []" "state_prefix a i \<noteq> []"
  "block_key n \<noteq> []" "storage_change_key n a i \<noteq> []" "log_key n t \<noteq> []" "block_hash_key n h \<noteq> []"
  using length_full_view length_keys by (metis list.size(3) zero_neq_numeral)+

text \<open>Replacing the value of an account, and of a slot.\<close>

lemma account_replaced:
  assumes "state_rows S" and T: "T = {p \<in> S. fst p \<noteq> full_view_address a} \<union> {(full_view_address a, v) | v. x = Some v}"
  shows "state_rows T" "acct T = (acct S)(a := x)" "slots T = slots S"
proof -
  have sub: "(state_prefix b i, w) \<in> T \<longleftrightarrow> (state_prefix b i, w) \<in> S" for b i w by (auto simp: T)
  have other: "(full_view_address b, w) \<in> T \<longleftrightarrow> (if b = a then x = Some w else (full_view_address b, w) \<in> S)" for b w
    by (auto simp: T)
  have s: "single T (full_view_address b)" for b
    using assms(1) unfolding single_def state_rows_def other by auto
  show "state_rows T"
    using assms(1) s unfolding state_rows_def single_sub_def sub by blast
  show "slots T = slots S" unfolding slots_def lookup_sub_def sub ..
  have "acct T b = ((acct S)(a := x)) b" for b
  proof (cases "b = a")
    case True
    then show ?thesis
      using lookup_Some [OF s] lookup_None [of "full_view_address a" T] by (cases x) (auto simp: acct_def other)
  next
    case False
    then show ?thesis by (simp add: acct_def lookup_def other)
  qed
  then show "acct T = (acct S)(a := x)" by blast
qed

lemma slot_replaced:
  assumes "state_rows S" and T: "T = {p \<in> S. \<not> (fst p = state_prefix a i \<and> has_prefix (snd p) (full_view_bytes32 l))} \<union>
    {(state_prefix a i, full_view_bytes32 l @ v) | v. x = Some v}"
  shows "state_rows T" "slots T = (slots S)((a, i, l) := x)" "acct T = acct S"
proof -
  have account: "(full_view_address b, w) \<in> T \<longleftrightarrow> (full_view_address b, w) \<in> S" for b w by (auto simp: T)
  have other: "(state_prefix b j, full_view_bytes32 k @ w) \<in> T \<longleftrightarrow>
      (if (b, j, k) = (a, i, l) then x = Some w else (state_prefix b j, full_view_bytes32 k @ w) \<in> S)" for b j k w
    by (auto simp: T has_prefix_iff)
  have s: "single_sub T (state_prefix b j) (full_view_bytes32 k)" for b j k
    using assms(1) unfolding single_sub_def state_rows_def other by auto
  show "state_rows T"
    using assms(1) s unfolding state_rows_def single_def account by blast
  show "acct T = acct S" by (simp add: acct_def lookup_def account fun_eq_iff)
  have "slots T (b, j, k) = ((slots S)((a, i, l) := x)) (b, j, k)" for b j k
  proof (cases "(b, j, k) = (a, i, l)")
    case True
    then show ?thesis
      using lookup_sub_Some [OF s] lookup_sub_None [of "state_prefix a i" "full_view_bytes32 l" T]
      by (cases x) (auto simp: slots_def other)
  next
    case False
    then show ?thesis by (auto simp: slots_def lookup_sub_def other)
  qed
  then show "slots T = (slots S)((a, i, l) := x)" by (auto simp: fun_eq_iff)
qed

definition stored_account :: "account option \<Rightarrow> bytes option" where
  "stored_account acc = map_option (\<lambda>a. encode_for_storage a False) acc"

definition stored_slot :: "bytes32 \<Rightarrow> bytes option" where
  "stored_slot v = (if v = 0 then None else Some (zeroless_view v))"

definition state_db :: "('d \<Rightarrow> (bytes \<times> bytes) set) \<Rightarrow> ('d \<Rightarrow> bool) \<Rightarrow> 'd \<Rightarrow> bool" where
  "state_db items dups d \<longleftrightarrow> dups d \<and> state_rows (items d)"

lemma length_encode_for_storage: "length (encode_for_storage a omit) \<le> 85"
proof -
  have "length (be_min (unat (acc_nonce a))) \<le> 8" "length (be_min (unat (acc_incarnation a))) \<le> 8"
    "length (be_min (unat (acc_balance a))) \<le> 32"
    using length_be_min_word [where ?'a = 64, of 8] length_be_min_word [where ?'a = 256, of 32] by simp_all
  then show ?thesis
    by (simp add: encode_for_storage_def Let_def big_endian_uint64_eq big_endian_uint256_eq split: prod.split)
qed

lemma storable_state:
  "storable True (full_view_address a) (encode_for_storage acc omit)"
  "storable True (state_prefix a i) (full_view_bytes32 l @ zeroless_view v)"
  using length_encode_for_storage [of acc omit] length_zeroless_view [of v] by (simp_all add: storable_def)

context lmdb
begin

lemma write_account_rows:
  assumes "state_db items dups d"
  shows "\<exists>d'. write_account M a acc d = Inr d' \<and> state_db items dups d' \<and> acct (items d') = (acct (items d))(a := stored_account acc) \<and>
    slots (items d') = slots (items d)"
proof -
  let ?k = "full_view_address a"
  have one: "v = w" if "(?k, v) \<in> items d" "(?k, w) \<in> items d" for v w
    using assms that unfolding state_db_def state_rows_def single_def by blast
  obtain d1 where d1: "table_del M ?k d = Inr d1" "items d1 = {p \<in> items d. fst p \<noteq> ?k}" "dups d1"
    using table_del_items [of ?k d, OF _ one] assms by (auto simp: state_db_def)
  have "\<exists>d'. write_account M a acc d = Inr d' \<and> dups d' \<and>
      items d' = {p \<in> items d. fst p \<noteq> ?k} \<union> {(?k, v) | v. stored_account acc = Some v}"
  proof (cases acc)
    case None
    then show ?thesis using d1 by (simp add: write_account_def stored_account_def)
  next
    case (Some x)
    then show ?thesis
      using d1 table_put_items [of d1 ?k "encode_for_storage x False"] storable_state(1) [of a x False]
      by (auto simp: write_account_def stored_account_def)
  qed
  then obtain d' where d': "write_account M a acc d = Inr d'" "dups d'"
    "items d' = {p \<in> items d. fst p \<noteq> ?k} \<union> {(?k, v) | v. stored_account acc = Some v}" by blast
  show ?thesis using account_replaced [OF _ d'(3)] assms d'(1,2) by (simp add: state_db_def)
qed

lemma upsert_storage_value_rows:
  assumes "state_db items dups d"
  shows "\<exists>d'. upsert_storage_value M (state_prefix a i) l v d = Inr d' \<and> state_db items dups d' \<and> acct (items d') = acct (items d) \<and>
    slots (items d') = (slots (items d))((a, i, l) := stored_slot v)"
proof -
  let ?k = "state_prefix a i" and ?s = "full_view_bytes32 l"
  have one: "v = w" if "(?k, ?s @ v) \<in> items d" "(?k, ?s @ w) \<in> items d" for v w
    using assms that unfolding state_db_def state_rows_def single_sub_def by blast
  obtain d1 where d1: "table_del_sub M ?k ?s d = Inr d1" "items d1 = {p \<in> items d. \<not> (fst p = ?k \<and> has_prefix (snd p) ?s)}" "dups d1"
    using table_del_sub_items [of d ?k ?s, OF _ _ one] assms by (auto simp: state_db_def)
  have "\<exists>d'. upsert_storage_value M ?k l v d = Inr d' \<and> dups d' \<and>
      items d' = {p \<in> items d. \<not> (fst p = ?k \<and> has_prefix (snd p) ?s)} \<union> {(?k, ?s @ x) | x. stored_slot v = Some x}"
  proof (cases "v = 0")
    case True
    then show ?thesis using d1 by (simp add: upsert_storage_value_def stored_slot_def)
  next
    case False
    then show ?thesis
      using d1 table_put_items [of d1 ?k "?s @ zeroless_view v"] storable_state(2) [of a i l v]
      by (auto simp: upsert_storage_value_def stored_slot_def)
  qed
  then obtain d' where d': "upsert_storage_value M ?k l v d = Inr d'" "dups d'"
    "items d' = {p \<in> items d. \<not> (fst p = ?k \<and> has_prefix (snd p) ?s)} \<union> {(?k, ?s @ x) | x. stored_slot v = Some x}" by blast
  show ?thesis using slot_replaced [OF _ d'(3)] assms d'(1,2) by (simp add: state_db_def)
qed

lemma upsert_storage_values_rows:
  assumes "state_db items dups d"
  shows "\<exists>d'. db_fold (\<lambda>l. upsert_storage_value M (state_prefix a i) l (val l)) ls d = Inr d' \<and> state_db items dups d' \<and>
    acct (items d') = acct (items d) \<and>
    (\<forall>a' i' l. slots (items d') (a', i', l) =
      (if a' = a \<and> i' = i \<and> l \<in> set ls then stored_slot (val l) else slots (items d) (a', i', l)))"
  using assms
proof (induction ls arbitrary: d)
  case (Cons l ls)
  obtain d1 where d1: "upsert_storage_value M (state_prefix a i) l (val l) d = Inr d1" "state_db items dups d1"
    "acct (items d1) = acct (items d)" "slots (items d1) = (slots (items d))((a, i, l) := stored_slot (val l))"
    using upsert_storage_value_rows [OF Cons.prems] by blast
  obtain d' where "db_fold (\<lambda>l. upsert_storage_value M (state_prefix a i) l (val l)) ls d1 = Inr d'" "state_db items dups d'"
    "acct (items d') = acct (items d1)" "\<forall>a' i' l. slots (items d') (a', i', l) =
      (if a' = a \<and> i' = i \<and> l \<in> set ls then stored_slot (val l) else slots (items d1) (a', i', l))"
    using Cons.IH [OF d1(2)] by blast
  then show ?case using d1 by auto
qed simp

text \<open>The storage that a buffer holds, over that of the table.\<close>

lemma write_contracts_rows:
  assumes "state_db items dups d" and "distinct (map fst contracts)"
  shows "\<exists>d'. db_fold (write_contract M a) contracts d = Inr d' \<and> state_db items dups d' \<and> acct (items d') = acct (items d) \<and>
    (\<forall>a' i l. slots (items d') (a', i, l) = (if a' = a then
      (case map_of contracts i of None \<Rightarrow> slots (items d) (a', i, l)
       | Some cs \<Rightarrow> (case map_of cs l of None \<Rightarrow> slots (items d) (a', i, l) | Some v \<Rightarrow> stored_slot v)) else slots (items d) (a', i, l)))"
  using assms
proof (induction contracts arbitrary: d)
  case (Cons x contracts)
  obtain i cs where x: "x = (i, cs)" by fastforce
  have mem: "l \<in> fst ` set cs \<longleftrightarrow> map_of cs l \<noteq> None" for l by (simp add: map_of_eq_None_iff)
  obtain d1 where d1: "write_contract M a (i, cs) d = Inr d1" "state_db items dups d1" "acct (items d1) = acct (items d)"
    "\<forall>a' i' l. slots (items d1) (a', i', l) =
      (if a' = a \<and> i' = i \<and> map_of cs l \<noteq> None then stored_slot (the (map_of cs l)) else slots (items d) (a', i', l))"
    using upsert_storage_values_rows [OF Cons.prems(1), of a i "\<lambda>l. the (map_of cs l)" "sort (map fst cs)"]
    by (auto simp: write_contract_def mem)
  have i: "map_of contracts i = None" using Cons.prems(2) by (auto simp: x map_of_eq_None_iff)
  obtain d' where "db_fold (write_contract M a) contracts d1 = Inr d'" "state_db items dups d'" "acct (items d') = acct (items d1)"
    "\<forall>a' i l. slots (items d') (a', i, l) = (if a' = a then
      (case map_of contracts i of None \<Rightarrow> slots (items d1) (a', i, l)
       | Some cs \<Rightarrow> (case map_of cs l of None \<Rightarrow> slots (items d1) (a', i, l) | Some v \<Rightarrow> stored_slot v)) else slots (items d1) (a', i, l))"
    using Cons.IH [OF d1(2)] Cons.prems(2) by auto
  then show ?case using d1 i by (auto simp: x split: option.splits)
qed simp

lemma write_address_rows:
  assumes "state_db items dups d" and "\<forall>a cs. map_of (dbb_storage b) a = Some cs \<longrightarrow> distinct (map fst cs)"
  shows "\<exists>d'. write_address M b a d = Inr d' \<and> state_db items dups d' \<and>
    (\<forall>a'. acct (items d') a' = (if a' = a then (case map_of (dbb_accounts b) a of None \<Rightarrow> acct (items d) a | Some x \<Rightarrow> stored_account x)
      else acct (items d) a')) \<and>
    (\<forall>a' i l. slots (items d') (a', i, l) = (if a' = a then
      (case map_of (inner a i (dbb_storage b)) l of None \<Rightarrow> slots (items d) (a', i, l) | Some v \<Rightarrow> stored_slot v)
      else slots (items d) (a', i, l)))"
proof -
  let ?w = "db_option (map_of (dbb_accounts b) a) (Inr d) (\<lambda>account. write_account M a account d)"
  obtain d1 where d1: "?w = Inr d1" "state_db items dups d1" "slots (items d1) = slots (items d)"
    "\<forall>a'. acct (items d1) a' = (if a' = a then (case map_of (dbb_accounts b) a of None \<Rightarrow> acct (items d) a | Some x \<Rightarrow> stored_account x)
      else acct (items d) a')"
    using write_account_rows [OF assms(1), of a] assms(1) by (cases "map_of (dbb_accounts b) a") fastforce+
  show ?thesis
  proof (cases "map_of (dbb_storage b) a")
    case None
    then show ?thesis using d1 by (auto simp: write_address_def inner_def)
  next
    case (Some cs)
    then have "distinct (map fst cs)" using assms(2) by blast
    then show ?thesis
      using Some d1 write_contracts_rows [OF d1(2), of cs a]
      by (fastforce simp: write_address_def inner_def split: option.split)
  qed
qed

lemma write_addresses_rows:
  assumes "state_db items dups d" and "\<forall>a cs. map_of (dbb_storage b) a = Some cs \<longrightarrow> distinct (map fst cs)"
  shows "\<exists>d'. db_fold (write_address M b) as d = Inr d' \<and> state_db items dups d' \<and>
    (\<forall>a. acct (items d') a = (if a \<in> set as then (case map_of (dbb_accounts b) a of None \<Rightarrow> acct (items d) a | Some x \<Rightarrow> stored_account x)
      else acct (items d) a)) \<and>
    (\<forall>a i l. slots (items d') (a, i, l) = (if a \<in> set as then
      (case map_of (inner a i (dbb_storage b)) l of None \<Rightarrow> slots (items d) (a, i, l) | Some v \<Rightarrow> stored_slot v)
      else slots (items d) (a, i, l)))"
  using assms(1)
proof (induction as arbitrary: d)
  case (Cons a as)
  obtain d1 where d1: "write_address M b a d = Inr d1" "state_db items dups d1"
    "\<forall>a'. acct (items d1) a' = (if a' = a then (case map_of (dbb_accounts b) a of None \<Rightarrow> acct (items d) a | Some x \<Rightarrow> stored_account x)
      else acct (items d) a')"
    "\<forall>a' i l. slots (items d1) (a', i, l) = (if a' = a then
      (case map_of (inner a i (dbb_storage b)) l of None \<Rightarrow> slots (items d) (a', i, l) | Some v \<Rightarrow> stored_slot v)
      else slots (items d) (a', i, l))"
    using write_address_rows [OF Cons.prems assms(2)] by blast
  obtain d' where "db_fold (write_address M b) as d1 = Inr d'" "state_db items dups d'"
    "\<forall>a. acct (items d') a = (if a \<in> set as then (case map_of (dbb_accounts b) a of None \<Rightarrow> acct (items d1) a | Some x \<Rightarrow> stored_account x)
      else acct (items d1) a)"
    "\<forall>a i l. slots (items d') (a, i, l) = (if a \<in> set as then
      (case map_of (inner a i (dbb_storage b)) l of None \<Rightarrow> slots (items d1) (a, i, l) | Some v \<Rightarrow> stored_slot v)
      else slots (items d1) (a, i, l))"
    using Cons.IH [OF d1(2)] by blast
  then show ?case using d1 by (auto split: option.split)
qed simp

end

section \<open>Well-formed buffers\<close>

definition ordered :: "('k::linorder \<times> 'v) list \<Rightarrow> bool" where
  "ordered m \<longleftrightarrow> sorted_wrt (<) (map fst m)"

definition all_vals :: "('v \<Rightarrow> bool) \<Rightarrow> ('k \<times> 'v) list \<Rightarrow> bool" where
  "all_vals P m \<longleftrightarrow> (\<forall>x\<in>set m. P (snd x))"

lemma ordered_simps [simp]:
  "ordered []" "ordered m \<Longrightarrow> ordered (map_put k v m)" "ordered m \<Longrightarrow> ordered (map_change k dflt f m)"
  by (simp_all add: ordered_def sorted_map_put map_change_def)

lemma ordered_distinct: "ordered m \<Longrightarrow> distinct (map fst m)"
  by (simp add: ordered_def strict_sorted_iff)

lemma set_map_put_subset: "set (map_put k v m) \<subseteq> insert (k, v) (set m)"
  by (induction k v m rule: map_put.induct) auto

lemma all_vals_put [simp]: "all_vals P m \<Longrightarrow> P v \<Longrightarrow> all_vals P (map_put k v m)"
  using set_map_put_subset [of k v m] by (fastforce simp: all_vals_def)

lemma all_vals_Nil [simp]: "all_vals P []"
  by (simp add: all_vals_def)

lemma all_vals_map_of: "all_vals P m \<Longrightarrow> map_of m k = Some v \<Longrightarrow> P v"
  using map_of_SomeD [of m k v] by (fastforce simp: all_vals_def)

lemma all_vals_change:
  "all_vals P m \<Longrightarrow> P dflt \<Longrightarrow> (\<And>v. P v \<Longrightarrow> P (f v)) \<Longrightarrow> all_vals P (map_change k dflt f m)"
  using all_vals_map_of [of P m k] by (cases "map_of m k") (simp_all add: map_change_def)

definition storage_ok :: "(u64 \<times> (bytes32 \<times> bytes32) list) list \<Rightarrow> bool" where
  "storage_ok m \<longleftrightarrow> ordered m \<and> all_vals ordered m"

definition account_changes_ok :: "account_change_map \<Rightarrow> bool" where
  "account_changes_ok m \<longleftrightarrow> ordered m \<and> all_vals (\<lambda>v. length v \<le> 85) m"

definition storage_changes_ok :: "storage_change_map \<Rightarrow> bool" where
  "storage_changes_ok m \<longleftrightarrow> all_vals (all_vals (all_vals (\<lambda>v. length v \<le> 32))) m"

lemma changes_ok_put:
  "account_changes_ok m \<Longrightarrow> length e \<le> 85 \<Longrightarrow> account_changes_ok (map_put a e m)" "account_changes_ok []"
  "storage_changes_ok m' \<Longrightarrow> length v \<le> 32 \<Longrightarrow> storage_changes_ok (put_storage_change a' i l v m')" "storage_changes_ok []"
  unfolding account_changes_ok_def storage_changes_ok_def put_storage_change_def
  by (auto intro!: all_vals_change all_vals_put)

definition dbb_wf :: "'d db_buffer \<Rightarrow> bool" where
  "dbb_wf b \<longleftrightarrow>
     ordered (dbb_accounts b) \<and> ordered (dbb_storage b) \<and> all_vals storage_ok (dbb_storage b) \<and>
     ordered (dbb_incarnations b) \<and> ordered (dbb_hash_to_code b) \<and> ordered (dbb_storage_prefix_to_code_hash b) \<and>
     (\<forall>p\<in>fst ` set (dbb_storage_prefix_to_code_hash b). \<exists>a i. p = state_prefix a i) \<and>
     ordered (dbb_account_changes b) \<and> all_vals account_changes_ok (dbb_account_changes b) \<and>
     ordered (dbb_storage_changes b) \<and>
     all_vals storage_changes_ok (dbb_storage_changes b) \<and>
     (\<forall>p\<in>fst ` set (dbb_receipts b) \<union> fst ` set (dbb_logs b). p \<noteq> [] \<and> length p \<le> 12)"

lemma dbb_wf_bump [simp]: "dbb_wf (bump_if c k v b) = dbb_wf b"
  by (simp add: bump_if_def bump_batch_size_def dbb_wf_def)

lemma dbb_wf_new: "dbb_wf (new_db_buffer t n)"
  by (simp add: dbb_wf_def new_db_buffer_def)

lemma dbb_wf_begin_block: "dbb_wf b \<Longrightarrow> dbb_wf (dbb_begin_block b n)"
  by (simp add: dbb_wf_def dbb_begin_block_def)

lemma dbb_wf_put_account_change:
  assumes "dbb_wf b" "length e \<le> 85" shows "dbb_wf (put_account_change a e b)"
proof -
  have "account_changes_ok (map_put a e (case map_of (dbb_account_changes b) n of None \<Rightarrow> [] | Some m \<Rightarrow> m))" for n
    using assms by (intro changes_ok_put) (auto simp: dbb_wf_def intro: changes_ok_put all_vals_map_of split: option.split)
  then show ?thesis using assms unfolding put_account_change_def Let_def dbb_wf_bump by (simp add: dbb_wf_def)
qed

lemma dbb_wf_update_account:
  assumes "dbb_wf b" shows "dbb_wf (dbb_update_account b a old cur)"
proof -
  have "dbb_wf (put_account_change a (case old of None \<Rightarrow> [] | Some x \<Rightarrow> encode_for_storage x (cur \<noteq> None)) b)"
    using assms length_encode_for_storage by (intro dbb_wf_put_account_change) (auto split: option.split)
  moreover have "dbb_wf b \<Longrightarrow> dbb_wf (b\<lparr>dbb_accounts := map_put a cur (dbb_accounts b)\<rparr>)"
    "dbb_wf b \<Longrightarrow> dbb_wf (b\<lparr>dbb_incarnations := map_put a i (dbb_incarnations b)\<rparr>)" for b :: "'a db_buffer" and i
    by (simp_all add: dbb_wf_def)
  ultimately show ?thesis using assms by (auto simp: dbb_update_account_def Let_def split: option.split)
qed

lemma dbb_wf_update_account_code: "dbb_wf b \<Longrightarrow> dbb_wf (dbb_update_account_code b a i h c)"
  unfolding dbb_update_account_code_def Let_def dbb_wf_bump
  by (auto simp: dbb_wf_def bump_if_def bump_batch_size_def set_map_put)

lemma dbb_wf_update_storage:
  assumes "dbb_wf b" shows "dbb_wf (dbb_update_storage b a i l old cur)"
proof -
  have "storage_changes_ok (put_storage_change a i l (zeroless_view old)
      (case map_of (dbb_storage_changes b) n of None \<Rightarrow> [] | Some m \<Rightarrow> m))" for n
    using assms length_zeroless_view [of old]
    by (auto simp: dbb_wf_def intro!: changes_ok_put intro: all_vals_map_of split: option.split)
  moreover have "all_vals storage_ok (map_change a [] (map_change i [] (map_put l cur)) m)" if "all_vals storage_ok m" for m
    using that by (intro all_vals_change) (auto simp: storage_ok_def intro: all_vals_change)
  ultimately show ?thesis
    using assms unfolding dbb_update_storage_def Let_def
    by (simp add: dbb_wf_def bump_if_def bump_batch_size_def)
qed

lemma dbb_wf_insert_logs: "dbb_wf b \<Longrightarrow> dbb_wf (insert_logs C n i rs b)"
proof (induction rs arbitrary: i b)
  case (Cons r rs)
  have "dbb_wf (b\<lparr>dbb_logs := map_put (log_key n i) v (dbb_logs b)\<rparr>)" for v
    using Cons.prems by (auto simp: dbb_wf_def set_map_put)
  then show ?case using Cons by (simp add: Let_def)
qed simp

lemma dbb_wf_insert_receipts: "dbb_wf b \<Longrightarrow> dbb_wf (dbb_insert_receipts C b n rs)"
proof -
  assume b: "dbb_wf b"
  have "dbb_wf (b\<lparr>dbb_receipts := map_put (block_key n) v (dbb_receipts b)\<rparr>)" if "dbb_wf b" for b :: "'a db_buffer" and v
    using that by (auto simp: dbb_wf_def set_map_put)
  then show ?thesis using dbb_wf_insert_logs [OF b] by (simp add: dbb_insert_receipts_def Let_def)
qed

section \<open>Writing the buffer\<close>

definition buffer_tables :: "table_config list" where
  "buffer_tables =
     [kPlainState, kIncarnationMap, kCode, kPlainContractCode, kPlainAccountChangeSet, kPlainStorageChangeSet,
      kBlockReceipts, kLogs]"

lemmas buffer_table_defs =
  buffer_tables_def kPlainState_def kIncarnationMap_def kCode_def kPlainContractCode_def kPlainAccountChangeSet_def
  kPlainStorageChangeSet_def kBlockReceipts_def kLogs_def plain_table_def dupsort_table_def

definition has_tables :: "('d \<Rightarrow> bool) \<Rightarrow> 'd txn \<Rightarrow> bool" where
  "has_tables dups t \<longleftrightarrow> (\<forall>c\<in>set buffer_tables. has_table dups t c)"

definition db_ok :: "('d \<Rightarrow> (bytes \<times> bytes) set) \<Rightarrow> ('d \<Rightarrow> bool) \<Rightarrow> 'd txn \<Rightarrow> bool" where
  "db_ok items dups t \<longleftrightarrow> has_tables dups t \<and> state_rows (rows items t kPlainState) \<and>
     (\<forall>c\<in>{kIncarnationMap, kCode, kPlainContractCode}. \<forall>k. single (rows items t c) k)"

lemma buffer_tables_names: "inj_on tc_name (set buffer_tables)"
  by (simp add: buffer_table_defs inj_on_def)

text \<open>The values of a key after rows with different keys were put in a plain table.\<close>

definition overlay :: "(bytes \<times> bytes) list \<Rightarrow> (bytes \<times> bytes) set \<Rightarrow> (bytes \<times> bytes) set \<Rightarrow> bool" where
  "overlay kvs S T \<longleftrightarrow>
     (\<forall>k. lookup T k = (case map_of kvs k of None \<Rightarrow> lookup S k | Some v \<Rightarrow> Some v)) \<and> (\<forall>k. single S k \<longrightarrow> single T k)"

definition state_written :: "'d db_buffer \<Rightarrow> (bytes \<times> bytes) set \<Rightarrow> (bytes \<times> bytes) set \<Rightarrow> bool" where
  "state_written b S T \<longleftrightarrow> state_rows T \<and>
     (\<forall>a. acct T a = (case map_of (dbb_accounts b) a of None \<Rightarrow> acct S a | Some x \<Rightarrow> stored_account x)) \<and>
     (\<forall>a i l. slots T (a, i, l) = (case map_of (inner a i (dbb_storage b)) l of None \<Rightarrow> slots S (a, i, l) | Some v \<Rightarrow> stored_slot v))"

definition incarnation_rows :: "'d db_buffer \<Rightarrow> (bytes \<times> bytes) list" where
  "incarnation_rows b = map (\<lambda>(a, i). (full_view_address a, be_store 8 (unat i))) (dbb_incarnations b)"

definition code_rows :: "'d db_buffer \<Rightarrow> (bytes \<times> bytes) list" where
  "code_rows b = map (\<lambda>(h, c). (full_view_bytes32 h, c)) (dbb_hash_to_code b)"

definition code_hash_rows :: "'d db_buffer \<Rightarrow> (bytes \<times> bytes) list" where
  "code_hash_rows b = map (\<lambda>(p, h). (p, full_view_bytes32 h)) (dbb_storage_prefix_to_code_hash b)"

lemma buffer_table_simps:
  "kPlainState \<in> set buffer_tables" "kIncarnationMap \<in> set buffer_tables" "kCode \<in> set buffer_tables"
  "kPlainContractCode \<in> set buffer_tables" "kPlainAccountChangeSet \<in> set buffer_tables"
  "kPlainStorageChangeSet \<in> set buffer_tables" "kBlockReceipts \<in> set buffer_tables" "kLogs \<in> set buffer_tables"
  "tc_dupsort kPlainState" "\<not> tc_dupsort kIncarnationMap" "\<not> tc_dupsort kCode" "\<not> tc_dupsort kPlainContractCode"
  "tc_dupsort kPlainAccountChangeSet" "tc_dupsort kPlainStorageChangeSet" "\<not> tc_dupsort kBlockReceipts" "\<not> tc_dupsort kLogs"
  by (simp_all add: buffer_table_defs)

lemma distinct_map_keys: "distinct (map fst xs) \<Longrightarrow> inj_on key (fst ` set xs) \<Longrightarrow> distinct (map fst (map (\<lambda>(k, v). (key k, g v)) xs))"
  by (induction xs) (auto simp: inj_on_def)

lemma row_facts:
  assumes "dbb_wf b"
  shows "\<forall>(k, v)\<in>set (incarnation_rows b). storable False k v" "distinct (map fst (incarnation_rows b))"
    "\<forall>(k, v)\<in>set (code_rows b). storable False k v" "distinct (map fst (code_rows b))"
    "\<forall>(k, v)\<in>set (code_hash_rows b). storable False k v" "distinct (map fst (code_hash_rows b))"
    "\<forall>(k, v)\<in>set (account_change_rows b). storable True k v"
    "\<forall>(k, v)\<in>set (storage_change_rows b). storable True k v"
    "\<forall>(k, v)\<in>set (dbb_receipts b). storable False k v" "\<forall>(k, v)\<in>set (dbb_logs b). storable False k v"
proof -
  have d: "distinct (map fst (dbb_incarnations b))" "distinct (map fst (dbb_hash_to_code b))"
    "distinct (map fst (dbb_storage_prefix_to_code_hash b))"
    using assms by (simp_all add: dbb_wf_def ordered_distinct)
  show "distinct (map fst (incarnation_rows b))" "distinct (map fst (code_rows b))" "distinct (map fst (code_hash_rows b))"
    unfolding incarnation_rows_def code_rows_def code_hash_rows_def
    using distinct_map_keys [OF d(1), of full_view_address "\<lambda>i. be_store 8 (unat i)"]
      distinct_map_keys [OF d(2), of full_view_bytes32 "\<lambda>c. c"] distinct_map_keys [OF d(3), of "\<lambda>p. p" full_view_bytes32]
    by (simp_all add: inj_on_def)
  show "\<forall>(k, v)\<in>set (incarnation_rows b). storable False k v" "\<forall>(k, v)\<in>set (code_rows b). storable False k v"
    by (auto simp: incarnation_rows_def code_rows_def storable_def)
  show "\<forall>(k, v)\<in>set (code_hash_rows b). storable False k v"
  proof
    fix x assume "x \<in> set (code_hash_rows b)"
    then obtain p h where x: "x = (p, full_view_bytes32 h)" "p \<in> fst ` set (dbb_storage_prefix_to_code_hash b)"
      by (force simp: code_hash_rows_def)
    then obtain a i where "p = state_prefix a i" using assms unfolding dbb_wf_def by blast
    then show "case x of (k, v) \<Rightarrow> storable False k v" by (simp add: x(1) storable_def)
  qed
  have "length e \<le> 85" if "(n, m) \<in> set (dbb_account_changes b)" "(a, e) \<in> set m" for n m a e
    using assms that unfolding dbb_wf_def all_vals_def account_changes_ok_def by fastforce
  then show "\<forall>(k, v)\<in>set (account_change_rows b). storable True k v"
    by (fastforce simp: account_change_rows_def storable_def)
  have "length v \<le> 32" if "(n, m) \<in> set (dbb_storage_changes b)" "(a, m1) \<in> set m" "(i, m2) \<in> set m1" "(l, v) \<in> set m2"
    for n m a m1 i m2 l v
    using assms that unfolding dbb_wf_def all_vals_def storage_changes_ok_def by fastforce
  then show "\<forall>(k, v)\<in>set (storage_change_rows b). storable True k v"
    by (fastforce simp: storage_change_rows_def storable_def)
  show "\<forall>(k, v)\<in>set (dbb_receipts b). storable False k v" "\<forall>(k, v)\<in>set (dbb_logs b). storable False k v"
  proof -
    have "\<forall>p\<in>fst ` set (dbb_receipts b) \<union> fst ` set (dbb_logs b). p \<noteq> [] \<and> length p \<le> 12"
      using assms by (simp add: dbb_wf_def)
    then show "\<forall>(k, v)\<in>set (dbb_receipts b). storable False k v" "\<forall>(k, v)\<in>set (dbb_logs b). storable False k v"
      unfolding storable_def by (auto dest!: bspec)
  qed
qed

definition restored :: "bytes option \<Rightarrow> account \<Rightarrow> account" where
  "restored h acc =
     (case h of None \<Rightarrow> acc | Some h \<Rightarrow> if length h = 32 then acc\<lparr>acc_code_hash := word_of_nat (be_load h)\<rparr> else acc)"

definition account_read :: "bytes option \<Rightarrow> (u64 \<Rightarrow> bytes option) \<Rightarrow> account option db" where
  "account_read e h =
     (case e of
        None \<Rightarrow> Inr None
      | Some e \<Rightarrow>
          if e = [] then Inr None
          else db_bind (rlp_err_handler (decode_account_from_storage e)) (\<lambda>acc.
            Inr (Some (if acc_incarnation acc > 0 \<and> acc_code_hash acc = kEmptyHash then restored (h (acc_incarnation acc)) acc else acc))))"

definition slot_read :: "bytes option \<Rightarrow> bytes32 db" where
  "slot_read v = (case v of None \<Rightarrow> Inr 0 | Some v \<Rightarrow> if length v > 32 then Inl Db_stuck else Inr (word_of_nat (be_load v)))"

context lmdb
begin

lemma in_table_step:
  assumes "has_tables dups t" and "c \<in> set buffer_tables"
    and "\<And>d. items d = rows items t c \<Longrightarrow> dups d = tc_dupsort c \<Longrightarrow> \<exists>d'. f d = Inr d' \<and> dups d' = tc_dupsort c \<and> P (items d')"
  shows "\<exists>t'. in_table M c f t = Inr t' \<and> has_tables dups t' \<and> P (rows items t' c) \<and>
    (\<forall>c'\<in>set buffer_tables. c' \<noteq> c \<longrightarrow> rows items t' c' = rows items t c')"
proof -
  have "has_table dups t c" using assms(1,2) by (simp add: has_tables_def)
  then obtain t' where t': "in_table M c f t = Inr t'" "P (rows items t' c)"
    "\<forall>c'. tc_name c' \<noteq> tc_name c \<longrightarrow> rows items t' c' = rows items t c'"
    "\<forall>c'. tc_name c' = tc_name c \<longrightarrow> tc_dupsort c' = tc_dupsort c \<longrightarrow> has_table dups t' c'"
    "\<forall>c'. tc_name c' \<noteq> tc_name c \<longrightarrow> has_table dups t' c' = has_table dups t c'"
    using in_table_rows [of t c f P] assms(3) by blast
  have other: "tc_name c' \<noteq> tc_name c" if "c' \<in> set buffer_tables" "c' \<noteq> c" for c'
    using inj_onD [OF buffer_tables_names _ that(1) assms(2)] that(2) by blast
  have "has_tables dups t'" using assms(1) t'(4,5) other unfolding has_tables_def by metis
  then show ?thesis using t' other by blast
qed

lemma put_plain_step:
  assumes "has_tables dups t" and "c \<in> set buffer_tables" and "\<not> tc_dupsort c"
    and "\<forall>(k, v)\<in>set kvs. storable False k v" and "distinct (map fst kvs)"
  shows "\<exists>t'. in_table M c (put_rows M kvs) t = Inr t' \<and> has_tables dups t' \<and> overlay kvs (rows items t c) (rows items t' c) \<and>
    (\<forall>c'\<in>set buffer_tables. c' \<noteq> c \<longrightarrow> rows items t' c' = rows items t c')"
proof (rule in_table_step [OF assms(1,2)])
  fix d assume d: "items d = rows items t c" "dups d = tc_dupsort c"
  obtain d' where "put_rows M kvs d = Inr d'" "\<not> dups d'"
    "\<forall>k. lookup (items d') k = (case map_of kvs k of None \<Rightarrow> lookup (items d) k | Some v \<Rightarrow> Some v)"
    "\<forall>k. single (items d) k \<longrightarrow> single (items d') k"
    using put_rows_plain [OF assms(4), of d] d assms(3) unfolding map_of_rev_distinct [OF assms(5)] by blast
  then show "\<exists>d'. put_rows M kvs d = Inr d' \<and> dups d' = tc_dupsort c \<and> overlay kvs (rows items t c) (items d')"
    using assms(3) unfolding d(1) overlay_def by auto
qed

lemma put_plain_keeps:
  assumes "has_tables dups t" and "c \<in> set buffer_tables" and "\<not> tc_dupsort c"
    and "\<forall>(k, v)\<in>set kvs. storable False k v"
  shows "\<exists>t'. in_table M c (put_rows M kvs) t = Inr t' \<and> has_tables dups t' \<and> True \<and>
    (\<forall>c'\<in>set buffer_tables. c' \<noteq> c \<longrightarrow> rows items t' c' = rows items t c')"
proof (rule in_table_step [OF assms(1,2)])
  fix d assume "items d = rows items t c" "dups d = tc_dupsort c"
  then show "\<exists>d'. put_rows M kvs d = Inr d' \<and> dups d' = tc_dupsort c \<and> True"
    using put_rows_plain [OF assms(4), of d] assms(3) by auto
qed

lemma put_dups_step:
  assumes "has_tables dups t" and "c \<in> set buffer_tables" and "tc_dupsort c" and "\<forall>(k, v)\<in>set kvs. storable True k v"
  shows "\<exists>t'. in_table M c (put_rows M kvs) t = Inr t' \<and> has_tables dups t' \<and> rows items t' c = rows items t c \<union> set kvs \<and>
    (\<forall>c'\<in>set buffer_tables. c' \<noteq> c \<longrightarrow> rows items t' c' = rows items t c')"
proof (rule in_table_step [OF assms(1,2)])
  fix d assume "items d = rows items t c" "dups d = tc_dupsort c"
  then show "\<exists>d'. put_rows M kvs d = Inr d' \<and> dups d' = tc_dupsort c \<and> items d' = rows items t c \<union> set kvs"
    using put_rows_dups [OF assms(4), of d] assms(3) by simp
qed

lemma write_to_state_table_rows:
  assumes "dbb_wf b" and "has_tables dups t" and "state_rows (rows items t kPlainState)"
  shows "\<exists>t'. write_to_state_table M b t = Inr t' \<and> has_tables dups t' \<and> state_written b (rows items t kPlainState) (rows items t' kPlainState) \<and>
    (\<forall>c'\<in>set buffer_tables. c' \<noteq> kPlainState \<longrightarrow> rows items t' c' = rows items t c')"
  unfolding write_to_state_table_def
proof (rule in_table_step [OF assms(2)])
  show "kPlainState \<in> set buffer_tables" by (simp add: buffer_tables_def)
  fix d assume d: "items d = rows items t kPlainState" "dups d = tc_dupsort kPlainState"
  have dup: "tc_dupsort kPlainState" by (simp add: buffer_table_defs)
  have db: "state_db items dups d" using d dup assms(3) by (simp add: state_db_def)
  have dist: "\<forall>a cs. map_of (dbb_storage b) a = Some cs \<longrightarrow> distinct (map fst cs)"
  proof (intro allI impI)
    fix a cs assume "map_of (dbb_storage b) a = Some cs"
    moreover have "all_vals storage_ok (dbb_storage b)" using assms(1) by (simp add: dbb_wf_def)
    ultimately have "storage_ok cs" by (rule all_vals_map_of [rotated])
    then show "distinct (map fst cs)" by (simp add: storage_ok_def ordered_distinct)
  qed
  have mem: "a \<in> set (sorted_addresses b) \<longleftrightarrow> map_of (dbb_accounts b) a \<noteq> None \<or> map_of (dbb_storage b) a \<noteq> None" for a
    using keys_fill_map [of "\<lambda>a. a" "\<lambda>_. ()" "map fst (dbb_accounts b) @ map fst (dbb_storage b)"]
    by (auto simp: sorted_addresses_def map_of_eq_None_iff image_Un)
  have none: "map_of (inner a i (dbb_storage b)) l = None" if "map_of (dbb_storage b) a = None" for a i l
    using that by (simp add: inner_def)
  obtain d' where d': "db_fold (write_address M b) (sorted_addresses b) d = Inr d'" "state_db items dups d'"
    "\<forall>a. acct (items d') a = (if a \<in> set (sorted_addresses b)
      then (case map_of (dbb_accounts b) a of None \<Rightarrow> acct (items d) a | Some x \<Rightarrow> stored_account x) else acct (items d) a)"
    "\<forall>a i l. slots (items d') (a, i, l) = (if a \<in> set (sorted_addresses b) then
      (case map_of (inner a i (dbb_storage b)) l of None \<Rightarrow> slots (items d) (a, i, l) | Some v \<Rightarrow> stored_slot v)
      else slots (items d) (a, i, l))"
    using write_addresses_rows [OF db dist] by blast
  have "state_written b (items d) (items d')"
    unfolding state_written_def
  proof (intro conjI allI)
    show "state_rows (items d')" using d'(2) by (simp add: state_db_def)
    show "acct (items d') a = (case map_of (dbb_accounts b) a of None \<Rightarrow> acct (items d) a | Some x \<Rightarrow> stored_account x)" for a
      using d'(3) mem [of a] by (simp split: option.split)
    show "slots (items d') (a, i, l) =
        (case map_of (inner a i (dbb_storage b)) l of None \<Rightarrow> slots (items d) (a, i, l) | Some v \<Rightarrow> stored_slot v)" for a i l
      using d'(4) mem [of a] none [of a i l] by (simp split: option.split)
  qed
  then show "\<exists>d'. db_fold (write_address M b) (sorted_addresses b) d = Inr d' \<and> dups d' = tc_dupsort kPlainState \<and>
      state_written b (rows items t kPlainState) (items d')"
    using d'(1,2) dup unfolding d(1) by (auto simp: state_db_def)
qed

lemma write_to_db_rows:
  assumes "dbb_wf b" and "dbb_txn b = Some t" and "has_tables dups t" and "state_rows (rows items t kPlainState)"
  shows "\<exists>t'. dbb_write_to_db M b = Inr (b\<lparr>dbb_txn := Some t'\<rparr>) \<and> has_tables dups t' \<and>
    state_written b (rows items t kPlainState) (rows items t' kPlainState) \<and>
    overlay (incarnation_rows b) (rows items t kIncarnationMap) (rows items t' kIncarnationMap) \<and>
    overlay (code_rows b) (rows items t kCode) (rows items t' kCode) \<and>
    overlay (code_hash_rows b) (rows items t kPlainContractCode) (rows items t' kPlainContractCode) \<and>
    rows items t' kPlainAccountChangeSet = rows items t kPlainAccountChangeSet \<union> set (account_change_rows b) \<and>
    rows items t' kPlainStorageChangeSet = rows items t kPlainStorageChangeSet \<union> set (storage_change_rows b)"
proof -
  obtain t1 where t1: "write_to_state_table M b t = Inr t1" "has_tables dups t1"
    "state_written b (rows items t kPlainState) (rows items t1 kPlainState)"
    "\<forall>c'\<in>set buffer_tables. c' \<noteq> kPlainState \<longrightarrow> rows items t1 c' = rows items t c'"
    using write_to_state_table_rows [OF assms(1,3,4)] by blast
  obtain t2 where t2: "in_table M kIncarnationMap (put_rows M (incarnation_rows b)) t1 = Inr t2" "has_tables dups t2"
    "overlay (incarnation_rows b) (rows items t1 kIncarnationMap) (rows items t2 kIncarnationMap)"
    "\<forall>c'\<in>set buffer_tables. c' \<noteq> kIncarnationMap \<longrightarrow> rows items t2 c' = rows items t1 c'"
    using put_plain_step [OF t1(2) buffer_table_simps(2,10) row_facts(1,2) [OF assms(1)]] by blast
  obtain t3 where t3: "in_table M kCode (put_rows M (code_rows b)) t2 = Inr t3" "has_tables dups t3"
    "overlay (code_rows b) (rows items t2 kCode) (rows items t3 kCode)"
    "\<forall>c'\<in>set buffer_tables. c' \<noteq> kCode \<longrightarrow> rows items t3 c' = rows items t2 c'"
    using put_plain_step [OF t2(2) buffer_table_simps(3,11) row_facts(3,4) [OF assms(1)]] by blast
  obtain t4 where t4: "in_table M kPlainContractCode (put_rows M (code_hash_rows b)) t3 = Inr t4" "has_tables dups t4"
    "overlay (code_hash_rows b) (rows items t3 kPlainContractCode) (rows items t4 kPlainContractCode)"
    "\<forall>c'\<in>set buffer_tables. c' \<noteq> kPlainContractCode \<longrightarrow> rows items t4 c' = rows items t3 c'"
    using put_plain_step [OF t3(2) buffer_table_simps(4,12) row_facts(5,6) [OF assms(1)]] by blast
  obtain t5 where t5: "in_table M kPlainAccountChangeSet (put_rows M (account_change_rows b)) t4 = Inr t5" "has_tables dups t5"
    "rows items t5 kPlainAccountChangeSet = rows items t4 kPlainAccountChangeSet \<union> set (account_change_rows b)"
    "\<forall>c'\<in>set buffer_tables. c' \<noteq> kPlainAccountChangeSet \<longrightarrow> rows items t5 c' = rows items t4 c'"
    using put_dups_step [OF t4(2) buffer_table_simps(5,13) row_facts(7) [OF assms(1)]] by blast
  obtain t6 where t6: "in_table M kPlainStorageChangeSet (put_rows M (storage_change_rows b)) t5 = Inr t6" "has_tables dups t6"
    "rows items t6 kPlainStorageChangeSet = rows items t5 kPlainStorageChangeSet \<union> set (storage_change_rows b)"
    "\<forall>c'\<in>set buffer_tables. c' \<noteq> kPlainStorageChangeSet \<longrightarrow> rows items t6 c' = rows items t5 c'"
    using put_dups_step [OF t5(2) buffer_table_simps(6,14) row_facts(8) [OF assms(1)]] by blast
  obtain t7 where t7: "in_table M kBlockReceipts (put_rows M (dbb_receipts b)) t6 = Inr t7" "has_tables dups t7"
    "\<forall>c'\<in>set buffer_tables. c' \<noteq> kBlockReceipts \<longrightarrow> rows items t7 c' = rows items t6 c'"
    using put_plain_keeps [OF t6(2) buffer_table_simps(7,15) row_facts(9) [OF assms(1)]] by blast
  obtain t8 where t8: "in_table M kLogs (put_rows M (dbb_logs b)) t7 = Inr t8" "has_tables dups t8"
    "\<forall>c'\<in>set buffer_tables. c' \<noteq> kLogs \<longrightarrow> rows items t8 c' = rows items t7 c'"
    using put_plain_keeps [OF t7(2) buffer_table_simps(8,16) row_facts(10) [OF assms(1)]] by blast
  note keeps = t1(4) t2(4) t3(4) t4(4) t5(4) t6(4) t7(3) t8(3)
  have r: "rows items t8 kPlainState = rows items t1 kPlainState"
    "rows items t8 kIncarnationMap = rows items t2 kIncarnationMap" "rows items t1 kIncarnationMap = rows items t kIncarnationMap"
    "rows items t8 kCode = rows items t3 kCode" "rows items t2 kCode = rows items t kCode"
    "rows items t8 kPlainContractCode = rows items t4 kPlainContractCode" "rows items t3 kPlainContractCode = rows items t kPlainContractCode"
    "rows items t8 kPlainAccountChangeSet = rows items t5 kPlainAccountChangeSet"
    "rows items t4 kPlainAccountChangeSet = rows items t kPlainAccountChangeSet"
    "rows items t8 kPlainStorageChangeSet = rows items t6 kPlainStorageChangeSet"
    "rows items t5 kPlainStorageChangeSet = rows items t kPlainStorageChangeSet"
    using keeps by (simp_all add: buffer_table_defs)
  have "dbb_write_to_db M b = Inr (b\<lparr>dbb_txn := Some t8\<rparr>)"
    using assms(2) t1(1) t2(1) t3(1) t4(1) t5(1) t6(1) t7(1) t8(1)
    by (simp add: dbb_write_to_db_def incarnation_rows_def code_rows_def code_hash_rows_def)
  then show ?thesis
    using t8(2) t1(3) t2(3) t3(3) t4(3) t5(3) t6(3) by (intro exI [of _ t8]) (simp add: r)
qed

text \<open>The readers of the access layer, without history.\<close>

lemma db_read_account_rows:
  assumes "db_ok items dups t"
  shows "db_read_account M R t a None =
    account_read (acct (rows items t kPlainState) a) (\<lambda>i. lookup (rows items t kPlainContractCode) (state_prefix a i))"
proof -
  have "get_in M t kPlainState (full_view_address a) = Inr (acct (rows items t kPlainState) a)"
    using assms get_in_rows [of t kPlainState "full_view_address a"]
    by (simp add: db_ok_def has_tables_def buffer_table_simps state_rows_def acct_def)
  moreover have "get_in M t kPlainContractCode (state_prefix a i) = Inr (lookup (rows items t kPlainContractCode) (state_prefix a i))" for i
    using assms get_in_rows [of t kPlainContractCode "state_prefix a i"] by (simp add: db_ok_def has_tables_def buffer_table_simps)
  ultimately show ?thesis
    by (cases "acct (rows items t kPlainState) a")
      (auto simp: db_read_account_def account_read_def restored_def fun_eq_iff split: option.split
        intro!: arg_cong [where f = "db_bind _"])
qed

lemma db_read_storage_rows:
  assumes "db_ok items dups t"
  shows "db_read_storage M R t a i l None = slot_read (slots (rows items t kPlainState) (a, i, l))"
proof -
  have "get_sub_in M t kPlainState (state_prefix a i) (full_view_bytes32 l) = Inr (slots (rows items t kPlainState) (a, i, l))"
    using assms get_sub_in_rows [of t kPlainState "state_prefix a i" "full_view_bytes32 l"]
    by (simp add: db_ok_def has_tables_def buffer_table_simps state_rows_def slots_def)
  then show ?thesis
    by (cases "slots (rows items t kPlainState) (a, i, l)") (simp_all add: db_read_storage_def slot_read_def)
qed

lemma get_plain_rows:
  assumes "db_ok items dups t"
  shows "get_in M t kCode (full_view_bytes32 h) = Inr (lookup (rows items t kCode) (full_view_bytes32 h))"
    "get_in M t kIncarnationMap (full_view_address a) = Inr (lookup (rows items t kIncarnationMap) (full_view_address a))"
  using assms get_in_rows [of t kCode "full_view_bytes32 h"] get_in_rows [of t kIncarnationMap "full_view_address a"]
  by (simp_all add: db_ok_def has_tables_def buffer_table_simps)

end

section \<open>Properties\<close>

text \<open>
  Accounts whose code hash is the hash of the empty code although they have an incarnation: no other hash is
  stored or pending for them, and code is pending only for accounts that are pending too.
\<close>

definition code_hashes_ok :: "('d \<Rightarrow> (bytes \<times> bytes) set) \<Rightarrow> 'd txn \<Rightarrow> 'd db_buffer \<Rightarrow> bool" where
  "code_hashes_ok items t b \<longleftrightarrow>
     (\<forall>a acc. map_of (dbb_accounts b) a = Some (Some acc) \<longrightarrow> acc_incarnation acc \<noteq> 0 \<longrightarrow> acc_code_hash acc = kEmptyHash \<longrightarrow>
        map_of (dbb_storage_prefix_to_code_hash b) (state_prefix a (acc_incarnation acc)) = None \<and>
        lookup (rows items t kPlainContractCode) (state_prefix a (acc_incarnation acc)) = None) \<and>
     (\<forall>a i. map_of (dbb_storage_prefix_to_code_hash b) (state_prefix a i) \<noteq> None \<longrightarrow> map_of (dbb_accounts b) a \<noteq> None)"

lemma encode_for_storage_not_Nil: "encode_for_storage a omit \<noteq> []"
  by (simp add: encode_for_storage_def Let_def split: prod.split)

lemma map_of_rows:
  "map_of (incarnation_rows b) (full_view_address a) = map_option (\<lambda>i. be_store 8 (unat i)) (map_of (dbb_incarnations b) a)"
  "map_of (code_rows b) (full_view_bytes32 h) = map_of (dbb_hash_to_code b) h"
  "map_of (code_hash_rows b) p = map_option full_view_bytes32 (map_of (dbb_storage_prefix_to_code_hash b) p)"
  using map_of_map_key [of full_view_address a "dbb_incarnations b" "\<lambda>i. be_store 8 (unat i)"]
    map_of_map_key [of full_view_bytes32 h "dbb_hash_to_code b" "\<lambda>c. c"]
    map_of_map_key [of "\<lambda>p. p" p "dbb_storage_prefix_to_code_hash b" full_view_bytes32]
  by (simp_all add: incarnation_rows_def code_rows_def code_hash_rows_def inj_on_def option.map_ident)

lemma account_read_written:
  assumes "acc_incarnation acc \<noteq> 0 \<Longrightarrow> acc_code_hash acc = kEmptyHash \<Longrightarrow> h (acc_incarnation acc) = None"
  shows "account_read (stored_account (Some acc)) h = Inr (Some acc)"
  using assms decode_encode_account [of acc False] encode_for_storage_not_Nil [of acc False]
  by (auto simp: account_read_def stored_account_def restored_def word_gt_0)

lemma slot_read_written: "slot_read (stored_slot v) = Inr v"
  using to_bytes32_zeroless_view [of v] length_zeroless_view [of v] be_load_be_min [of "unat v"]
  by (auto simp: slot_read_def stored_slot_def zeroless_view_eq)

text \<open>
  C22. Writing a buffer to the database succeeds, and a new buffer on the database then reads what the written one
  read: every account, present or deleted, every storage slot of every incarnation, the code of every
  hash and the previous incarnation of every address.
\<close>

theorem write_to_db_reads_back:
  assumes "lmdb M items at dups" and "dbb_wf b" and "dbb_txn b = Some t" and "dbb_historical_block b = None"
    and "db_ok items dups t" and "code_hashes_ok items t b"
  shows "\<exists>t'. dbb_write_to_db M b = Inr (b\<lparr>dbb_txn := Some t'\<rparr>) \<and> db_ok items dups t' \<and>
    (let b' = new_db_buffer (Some t') None
     in (\<forall>a. dbb_read_account M R b' a = dbb_read_account M R b a) \<and>
        (\<forall>a i l. dbb_read_storage M R b' a i l = dbb_read_storage M R b a i l) \<and>
        (\<forall>h. dbb_read_code M b' h = dbb_read_code M b h) \<and>
        (\<forall>a. dbb_previous_incarnation M b' a = dbb_previous_incarnation M b a))"
proof -
  have ok: "has_tables dups t" "state_rows (rows items t kPlainState)" using assms(5) by (simp_all add: db_ok_def)
  obtain t' where t': "dbb_write_to_db M b = Inr (b\<lparr>dbb_txn := Some t'\<rparr>)" "has_tables dups t'"
    "state_written b (rows items t kPlainState) (rows items t' kPlainState)"
    "overlay (incarnation_rows b) (rows items t kIncarnationMap) (rows items t' kIncarnationMap)"
    "overlay (code_rows b) (rows items t kCode) (rows items t' kCode)"
    "overlay (code_hash_rows b) (rows items t kPlainContractCode) (rows items t' kPlainContractCode)"
    using lmdb.write_to_db_rows [OF assms(1-3) ok] by blast
  have ok': "db_ok items dups t'" using t'(2-6) assms(5) unfolding db_ok_def state_written_def overlay_def by blast
  let ?b = "new_db_buffer (Some t') None"
  have "dbb_read_account M R ?b a = dbb_read_account M R b a" for a
  proof -
    have *: "dbb_read_account M R ?b a = account_read (acct (rows items t' kPlainState) a)
        (\<lambda>i. lookup (rows items t' kPlainContractCode) (state_prefix a i))"
      using lmdb.db_read_account_rows [OF assms(1) ok', of R a] by (simp add: dbb_read_account_def new_db_buffer_def)
    show ?thesis
    proof (cases "map_of (dbb_accounts b) a")
      case None
      then have "map_of (dbb_storage_prefix_to_code_hash b) (state_prefix a i) = None" for i
        using assms(6) unfolding code_hashes_ok_def by blast
      then show ?thesis
        using None * t'(3,6) lmdb.db_read_account_rows [OF assms(1,5), of R a] assms(3,4)
        by (simp add: dbb_read_account_def [of M R b] state_written_def overlay_def map_of_rows)
    next
      case (Some x)
      show ?thesis
      proof (cases x)
        case None
        then show ?thesis using Some * t'(3) by (simp add: dbb_read_account_def state_written_def stored_account_def account_read_def)
      next
        case (Some acc)
        have "lookup (rows items t' kPlainContractCode) (state_prefix a (acc_incarnation acc)) = None"
          if "acc_incarnation acc \<noteq> 0" "acc_code_hash acc = kEmptyHash"
          using t'(6) assms(6) that Some \<open>map_of (dbb_accounts b) a = Some x\<close>
          by (simp add: code_hashes_ok_def overlay_def map_of_rows)
        then show ?thesis
          using Some \<open>map_of (dbb_accounts b) a = Some x\<close> * t'(3)
            account_read_written [of acc "\<lambda>i. lookup (rows items t' kPlainContractCode) (state_prefix a i)"]
          by (simp add: dbb_read_account_def state_written_def)
      qed
    qed
  qed
  moreover have "dbb_read_storage M R ?b a i l = dbb_read_storage M R b a i l" for a i l
    using lmdb.db_read_storage_rows [OF assms(1) ok', of R a i l] lmdb.db_read_storage_rows [OF assms(1,5), of R a i l] t'(3) assms(3,4)
    by (cases "map_of (inner a i (dbb_storage b)) l")
      (simp_all add: dbb_read_storage_def new_db_buffer_def inner_def state_written_def slot_read_written)
  moreover have "dbb_read_code M ?b h = dbb_read_code M b h" for h
    using lmdb.get_plain_rows(1) [OF assms(1) ok'] lmdb.get_plain_rows(1) [OF assms(1,5)] t'(5) assms(3)
    by (cases "map_of (dbb_hash_to_code b) h")
      (simp_all add: dbb_read_code_def db_read_code_def new_db_buffer_def overlay_def map_of_rows)
  moreover have "dbb_previous_incarnation M ?b a = dbb_previous_incarnation M b a" for a
    using lmdb.get_plain_rows(2) [OF assms(1) ok'] lmdb.get_plain_rows(2) [OF assms(1,5)] t'(4) assms(3,4)
    by (cases "map_of (dbb_incarnations b) a")
      (simp_all add: dbb_previous_incarnation_def db_read_previous_incarnation_def new_db_buffer_def overlay_def map_of_rows)
  ultimately show ?thesis using t'(1) ok' by (intro exI [of _ t']) (simp add: Let_def)
qed

definition sample_txn :: "list_db txn" where
  "sample_txn =
     \<lparr>txn_ro = False, txn_main = empty_list_db False,
      txn_tables = map_of (map (\<lambda>c. (the (tc_name c), empty_list_db (tc_dupsort c))) buffer_tables)\<rparr>"

lemma sample_txn_ok: "db_ok (\<lambda>d. set (ld_items d)) ld_dups sample_txn"
proof -
  have "rows (\<lambda>d. set (ld_items d)) sample_txn c = {}" if "c \<in> set buffer_tables" for c
    using that by (auto simp: rows_def sample_txn_def empty_list_db_def split: option.split dest!: map_of_SomeD)
  moreover have "has_tables ld_dups sample_txn"
    by (simp add: has_tables_def has_table_def sample_txn_def buffer_table_defs empty_list_db_def)
  ultimately show ?thesis
    by (simp add: db_ok_def state_rows_def single_def single_sub_def buffer_table_simps)
qed

theorem write_to_db_reads_back_witness:
  "\<exists>t'. dbb_write_to_db list_lmdb
      (dbb_update_storage (dbb_update_account (new_db_buffer (Some sample_txn) None) 7 None (Some (new_account\<lparr>acc_nonce := 3\<rparr>))) 7 0 1 0 9) =
      Inr ((dbb_update_storage (dbb_update_account (new_db_buffer (Some sample_txn) None) 7 None (Some (new_account\<lparr>acc_nonce := 3\<rparr>))) 7 0 1 0 9)
        \<lparr>dbb_txn := Some t'\<rparr>) \<and>
    dbb_read_account list_lmdb (list_roaring :: (u64 list, u64) roaring_ops) (new_db_buffer (Some t') None) 7 =
      Inr (Some (new_account\<lparr>acc_nonce := 3\<rparr>)) \<and>
    dbb_read_storage list_lmdb (list_roaring :: (u64 list, u64) roaring_ops) (new_db_buffer (Some t') None) 7 0 1 = Inr 9"
proof -
  let ?acc = "new_account\<lparr>acc_nonce := 3\<rparr>"
  let ?b = "dbb_update_storage (dbb_update_account (new_db_buffer (Some sample_txn) None) 7 None (Some ?acc)) 7 0 1 0 9"
  have wf: "dbb_wf ?b" by (intro dbb_wf_update_storage dbb_wf_update_account dbb_wf_new)
  have b: "dbb_txn ?b = Some sample_txn" "dbb_historical_block ?b = None" "dbb_accounts ?b = [(7, Some ?acc)]"
    "dbb_storage ?b = [(7, [(0, [(1, 9)])])]" "dbb_storage_prefix_to_code_hash ?b = []"
    by (simp_all add: dbb_update_storage_def dbb_update_account_def new_db_buffer_def Let_def bump_if_def bump_batch_size_def
        put_account_change_def map_change_def)
  have "code_hashes_ok (\<lambda>d. set (ld_items d)) sample_txn ?b" unfolding code_hashes_ok_def b by (simp add: new_account_def)
  then obtain t' where "dbb_write_to_db list_lmdb ?b = Inr (?b\<lparr>dbb_txn := Some t'\<rparr>)"
    "\<And>a. dbb_read_account list_lmdb (list_roaring :: (u64 list, u64) roaring_ops) (new_db_buffer (Some t') None) a =
      dbb_read_account list_lmdb list_roaring ?b a"
    "\<And>a i l. dbb_read_storage list_lmdb (list_roaring :: (u64 list, u64) roaring_ops) (new_db_buffer (Some t') None) a i l =
      dbb_read_storage list_lmdb list_roaring ?b a i l"
    using write_to_db_reads_back [OF list_lmdb.lmdb_axioms wf b(1,2) sample_txn_ok, of "list_roaring :: (u64 list, u64) roaring_ops"]
    unfolding Let_def by blast
  then show ?thesis by (intro exI [of _ t']) (simp add: dbb_read_account_def [of _ _ ?b] dbb_read_storage_def [of _ _ ?b] b inner_def)
qed

end
