(* ===== verification/Sha256.thy ===== *)
theory Sha256
  imports Prelude
begin

text \<open>
  core/silkworm/crypto/sha-256.c, and its equality with SHA-256 of FIPS 180-4: padding of the message, the message
  schedule of 64 words and the 64 rounds.

  The code keeps 16 words of the schedule in an array that is declared inside the loop over groups of 16 rounds,
  so its contents are indeterminate, by the C standard, when a group starts.  What the array holds then is a
  parameter, a function of what it held before.
\<close>

unbundle bit_operations_syntax

section \<open>The code\<close>

definition sha_k :: "u32 list" where
  "sha_k = concat
     [[0x428a2f98, 0x71374491, 0xb5c0fbcf, 0xe9b5dba5, 0x3956c25b, 0x59f111f1, 0x923f82a4, 0xab1c5ed5],
      [0xd807aa98, 0x12835b01, 0x243185be, 0x550c7dc3, 0x72be5d74, 0x80deb1fe, 0x9bdc06a7, 0xc19bf174],
      [0xe49b69c1, 0xefbe4786, 0x0fc19dc6, 0x240ca1cc, 0x2de92c6f, 0x4a7484aa, 0x5cb0a9dc, 0x76f988da],
      [0x983e5152, 0xa831c66d, 0xb00327c8, 0xbf597fc7, 0xc6e00bf3, 0xd5a79147, 0x06ca6351, 0x14292967],
      [0x27b70a85, 0x2e1b2138, 0x4d2c6dfc, 0x53380d13, 0x650a7354, 0x766a0abb, 0x81c2c92e, 0x92722c85],
      [0xa2bfe8a1, 0xa81a664b, 0xc24b8b70, 0xc76c51a3, 0xd192e819, 0xd6990624, 0xf40e3585, 0x106aa070],
      [0x19a4c116, 0x1e376c08, 0x2748774c, 0x34b0bcb5, 0x391c0cb3, 0x4ed8aa4a, 0x5b9cca4f, 0x682e6ff3],
      [0x748f82ee, 0x78a5636f, 0x84c87814, 0x8cc70208, 0x90befffa, 0xa4506ceb, 0xbef9a3f7, 0xc67178f2]]"

definition sha_h :: "u32 list" where
  "sha_h = [0x6a09e667, 0xbb67ae85, 0x3c6ef372, 0xa54ff53a, 0x510e527f, 0x9b05688c, 0x1f83d9ab, 0x5be0cd19]"

record sha_buffer =
  sb_p :: bytes
  sb_len :: u64
  sb_total_len :: u64
  sb_single_one_delivered :: bool
  sb_total_len_delivered :: bool

definition right_rot :: "u32 \<Rightarrow> nat \<Rightarrow> u32" where
  "right_rot v c = drop_bit c v OR push_bit (32 - c) v"

definition init_buf_state :: "bytes \<Rightarrow> sha_buffer" where
  "init_buf_state input =
     \<lparr>sb_p = input, sb_len = word_of_nat (length input), sb_total_len = word_of_nat (length input),
      sb_single_one_delivered = False, sb_total_len_delivered = False\<rparr>"

text \<open>The loop that stores \<open>len\<close> into \<open>chunk[n - 1]\<close> down to \<open>chunk[0]\<close>.\<close>

fun store_len :: "nat \<Rightarrow> u64 \<Rightarrow> bytes" where
  "store_len 0 len = []"
| "store_len (Suc n) len = store_len n (drop_bit 8 len) @ [ucast len]"

definition calc_chunk :: "sha_buffer \<Rightarrow> (bytes \<times> sha_buffer) option" where
  "calc_chunk st =
     (if sb_total_len_delivered st then None
      else if sb_len st \<ge> 64 then
        Some (take 64 (sb_p st), st\<lparr>sb_p := drop 64 (sb_p st), sb_len := sb_len st - 64\<rparr>)
      else
        let chunk = take (unat (sb_len st)) (sb_p st);
            space_in_chunk = 64 - sb_len st;
            st = st\<lparr>sb_p := drop (unat (sb_len st)) (sb_p st), sb_len := 0\<rparr>;
            (chunk, space_in_chunk, st) =
              (if \<not> sb_single_one_delivered st then
                 (chunk @ [0x80], space_in_chunk - 1, st\<lparr>sb_single_one_delivered := True\<rparr>)
               else (chunk, space_in_chunk, st))
        in if space_in_chunk \<ge> 8 then
             let left = space_in_chunk - 8;
                 len = sb_total_len st
             in Some (chunk @ replicate (unat left) 0 @ store_len 7 (drop_bit 5 len) @ [ucast (push_bit 3 len)],
                  st\<lparr>sb_total_len_delivered := True\<rparr>)
           else Some (chunk @ replicate (unat space_in_chunk) 0, st))"

definition sha_load :: "bytes \<Rightarrow> u32" where
  "sha_load p = push_bit 24 (ucast (p ! 0)) OR push_bit 16 (ucast (p ! 1)) OR push_bit 8 (ucast (p ! 2)) OR ucast (p ! 3)"

definition sha_extend :: "nat \<Rightarrow> u32 list \<Rightarrow> u32" where
  "sha_extend j w =
     (let x = w ! ((j + 1) mod 16);
          s0 = right_rot x 7 XOR right_rot x 18 XOR drop_bit 3 x;
          y = w ! ((j + 14) mod 16);
          s1 = right_rot y 17 XOR right_rot y 19 XOR drop_bit 10 y
      in w ! j + s0 + w ! ((j + 9) mod 16) + s1)"

text \<open>One pass of the inner loop, on the schedule and the working variables.\<close>

definition sha_step :: "bytes \<Rightarrow> nat \<Rightarrow> nat \<Rightarrow> u32 list \<times> u32 list \<Rightarrow> u32 list \<times> u32 list" where
  "sha_step chunk i j = (\<lambda>(w, ah).
     let w = w[j := if i = 0 then sha_load (drop (4 * j) chunk) else sha_extend j w];
         s1 = right_rot (ah ! 4) 6 XOR right_rot (ah ! 4) 11 XOR right_rot (ah ! 4) 25;
         ch = (ah ! 4 AND ah ! 5) XOR (NOT (ah ! 4) AND ah ! 6);
         temp1 = ah ! 7 + s1 + ch + sha_k ! (16 * i + j) + w ! j;
         s0 = right_rot (ah ! 0) 2 XOR right_rot (ah ! 0) 13 XOR right_rot (ah ! 0) 22;
         maj = (ah ! 0 AND ah ! 1) XOR (ah ! 0 AND ah ! 2) XOR (ah ! 1 AND ah ! 2);
         temp2 = s0 + maj
     in (w, [temp1 + temp2, ah ! 0, ah ! 1, ah ! 2, ah ! 3 + temp1, ah ! 4, ah ! 5, ah ! 6]))"

definition sha_group :: "(u32 list \<Rightarrow> u32 list) \<Rightarrow> bytes \<Rightarrow> nat \<Rightarrow> u32 list \<times> u32 list \<Rightarrow> u32 list \<times> u32 list" where
  "sha_group stack chunk i s = (case s of (w, ah) \<Rightarrow> fold (sha_step chunk i) [0..<16] (stack w, ah))"

definition sha_chunk :: "(u32 list \<Rightarrow> u32 list) \<Rightarrow> bytes \<Rightarrow> u32 list \<Rightarrow> u32 list" where
  "sha_chunk stack chunk h = map2 (+) h (snd (fold (sha_group stack chunk) [0..<4] (replicate 16 0, h)))"

function (sequential) sha_loop :: "(u32 list \<Rightarrow> u32 list) \<Rightarrow> sha_buffer \<Rightarrow> u32 list \<Rightarrow> u32 list" where
  "sha_loop stack st h =
     (case calc_chunk st of None \<Rightarrow> h | Some (chunk, st) \<Rightarrow> sha_loop stack st (sha_chunk stack chunk h))"
  by pat_completeness auto

lemma calc_chunk_progress:
  assumes "calc_chunk st = Some (chunk, st')"
  shows "(if sb_total_len_delivered st' then 0 else if sb_single_one_delivered st' then 1 + unat (sb_len st') else 2 + unat (sb_len st'))
    < (if sb_total_len_delivered st then 0 else if sb_single_one_delivered st then 1 + unat (sb_len st) else 2 + unat (sb_len st))"
proof (cases "sb_len st \<ge> 64")
  case True
  then have "unat (sb_len st - 64) < unat (sb_len st)" by (simp add: unat_sub word_le_nat_alt)
  then show ?thesis using assms True by (auto simp: calc_chunk_def split: if_splits)
next
  case False
  have "\<not> 8 \<le> 64 - sb_len st \<Longrightarrow> 0 < unat (sb_len st)" by (cases "sb_len st = 0") (simp_all add: unat_gt_0)
  then show ?thesis using assms False by (auto simp: calc_chunk_def Let_def split: if_splits)
qed

termination sha_loop
  by (relation "measure (\<lambda>(stack, st, h). if sb_total_len_delivered st then 0
        else if sb_single_one_delivered st then 1 + unat (sb_len st) else 2 + unat (sb_len st))")
    (use calc_chunk_progress in fastforce)+

declare sha_loop.simps [simp del]

definition sha_store :: "u32 \<Rightarrow> bytes" where
  "sha_store v = [ucast (drop_bit 24 v), ucast (drop_bit 16 v), ucast (drop_bit 8 v), ucast v]"

definition calc_sha_256 :: "(u32 list \<Rightarrow> u32 list) \<Rightarrow> bytes \<Rightarrow> bytes" where
  "calc_sha_256 stack input = concat (map sha_store (sha_loop stack (init_buf_state input) sha_h))"

section \<open>FIPS 180-4\<close>

text \<open>Padding: a one bit, zeros, and the number of bits of the message in 64 bits.\<close>

definition sha_pad :: "bytes \<Rightarrow> bytes" where
  "sha_pad m = m @ [0x80] @ replicate ((119 - length m mod 64) mod 64) 0 @ be_store 8 (8 * length m)"

fun blocks :: "bytes \<Rightarrow> bytes list" where
  "blocks bs = (if bs = [] then [] else take 64 bs # blocks (drop 64 bs))"

declare blocks.simps [simp del]

fun schedule :: "bytes \<Rightarrow> nat \<Rightarrow> u32" where
  "schedule block t =
     (if t < 16 then word_of_nat (be_load (take 4 (drop (4 * t) block)))
      else
        let x = schedule block (t - 15); y = schedule block (t - 2)
        in (word_rotr 17 y XOR word_rotr 19 y XOR drop_bit 10 y) + schedule block (t - 7) +
           (word_rotr 7 x XOR word_rotr 18 x XOR drop_bit 3 x) + schedule block (t - 16))"

declare schedule.simps [simp del]

type_synonym sha_vars = "u32 \<times> u32 \<times> u32 \<times> u32 \<times> u32 \<times> u32 \<times> u32 \<times> u32"

definition sha_round :: "bytes \<Rightarrow> nat \<Rightarrow> sha_vars \<Rightarrow> sha_vars" where
  "sha_round block t = (\<lambda>(a, b, c, d, e, f, g, h).
     let t1 = h + (word_rotr 6 e XOR word_rotr 11 e XOR word_rotr 25 e) + ((e AND f) XOR (NOT e AND g)) +
              sha_k ! t + schedule block t;
         t2 = (word_rotr 2 a XOR word_rotr 13 a XOR word_rotr 22 a) + ((a AND b) XOR (a AND c) XOR (b AND c))
     in (t1 + t2, a, b, c, d + t1, e, f, g))"

definition vars_list :: "sha_vars \<Rightarrow> u32 list" where
  "vars_list = (\<lambda>(a, b, c, d, e, f, g, h). [a, b, c, d, e, f, g, h])"

definition list_vars :: "u32 list \<Rightarrow> sha_vars" where
  "list_vars l = (l ! 0, l ! 1, l ! 2, l ! 3, l ! 4, l ! 5, l ! 6, l ! 7)"

definition sha_compress :: "u32 list \<Rightarrow> bytes \<Rightarrow> u32 list" where
  "sha_compress h block = map2 (+) h (vars_list (fold (sha_round block) [0..<64] (list_vars h)))"

definition sha256_spec :: "bytes \<Rightarrow> bytes" where
  "sha256_spec m = concat (map (\<lambda>w. be_store 4 (unat w)) (foldl sha_compress sha_h (blocks (sha_pad m))))"

section \<open>Equality of the rounds\<close>

lemma right_rot_eq:
  assumes "0 < c" "c < 32"
  shows "right_rot v c = word_rotr c v"
proof (rule bit_word_eqI)
  fix n assume n: "n < LENGTH(32)"
  have "bit (word_rotr c v) n \<longleftrightarrow> bit v (if n + c < 32 then n + c else n + c - 32)"
    using n assms by (simp add: bit_word_rotr_iff le_mod_geq)
  moreover have "bit (right_rot v c) n \<longleftrightarrow> bit v (c + n) \<or> 32 - c \<le> n \<and> bit v (n - (32 - c))"
    using n by (simp add: right_rot_def bit_or_iff bit_drop_bit_eq bit_push_bit_iff)
  moreover have "bit v (c + n) \<Longrightarrow> c + n < 32" using bit_imp_le_length [of v "c + n"] by simp
  ultimately show "bit (right_rot v c) n = bit (word_rotr c v) n"
    using assms by (cases "n + c < 32") (auto simp: add.commute)
qed

lemma or_add: "x AND y = 0 \<Longrightarrow> x OR y = x + y" for x y :: u32
  using word_plus_and_or [of x y] by simp

lemma sha_load_eq:
  assumes "4 \<le> length p"
  shows "sha_load p = word_of_nat (be_load (take 4 p))"
proof -
  obtain a b c d q where p: "p = a # b # c # d # q"
    using assms by (auto simp: numeral_eq_Suc Suc_le_length_iff)
  have w: "word_of_nat (unat x) = (ucast x :: u32)" for x :: u8 by (simp add: of_nat_unat)
  let ?A = "push_bit 24 (ucast a) :: u32" and ?B = "push_bit 16 (ucast b) :: u32" and ?C = "push_bit 8 (ucast c) :: u32"
  have "?C OR ucast d = ?C + ucast d" "?B OR (?C OR ucast d) = ?B + (?C OR ucast d)"
    "?A OR (?B OR (?C OR ucast d)) = ?A + (?B OR (?C OR ucast d))"
    by (rule or_add; rule bit_word_eqI; auto simp: bit_simps dest!: bit_imp_le_length)+
  then show ?thesis by (simp add: p sha_load_def be_load_Cons w push_bit_eq_mult algebra_simps)
qed

lemma fold_groups: "fold f [0..<m * k] = fold (\<lambda>i. fold (\<lambda>j. f (m * i + j)) [0..<m]) [0..<k]"
proof (induction k)
  case (Suc k)
  have "[0..<m * Suc k] = [0..<m * k] @ map (\<lambda>j. m * k + j) [0..<m]"
    using upt_add_eq_append [of 0 "m * k" m] by (simp add: map_add_upt add.commute)
  then show ?case using Suc by (simp add: fold_map comp_def)
qed simp

lemma sha_extend_eq:
  assumes "16 \<le> n" and "\<forall>m. m < n \<longrightarrow> n \<le> m + 16 \<longrightarrow> w ! (m mod 16) = schedule chunk m"
  shows "sha_extend (n mod 16) w = schedule chunk n"
proof -
  have m: "(n mod 16 + k) mod 16 = (n - (16 - k)) mod 16" if "k < 16" for k
    using assms(1) that by (metis (no_types, lifting) le_add_diff_inverse2 mod_add_left_eq mod_add_self2 add.commute add_diff_assoc2 diff_diff_right le_eq_less_or_eq less_imp_le_nat)
  have "w ! ((n mod 16 + k) mod 16) = schedule chunk (n - (16 - k))" if "k < 16" for k
    using assms that m [OF that] by simp
  from this [of 0] this [of 1] this [of 14] this [of 9] show ?thesis
    using assms(1) by (subst schedule.simps) (simp add: sha_extend_def Let_def right_rot_eq algebra_simps)
qed

lemma sha_steps:
  fixes chunk :: bytes and h :: "u32 list"
  assumes "length chunk = 64" and "length h = 8" and "length w = 16" and "n \<le> 64"
  shows "\<exists>w'. fold (\<lambda>n. sha_step chunk (n div 16) (n mod 16)) [0..<n] (w, h) =
      (w', vars_list (fold (sha_round chunk) [0..<n] (list_vars h))) \<and>
    length w' = 16 \<and> (\<forall>m. m < n \<longrightarrow> n \<le> m + 16 \<longrightarrow> w' ! (m mod 16) = schedule chunk m)"
  using assms(4)
proof (induction n)
  case 0
  have "h = vars_list (list_vars h)"
    using assms(2) by (auto simp: vars_list_def list_vars_def list_eq_iff_nth_eq less_Suc_eq numeral_eq_Suc)
  then show ?case using assms(3) by simp
next
  case (Suc n)
  then obtain w' where w': "fold (\<lambda>n. sha_step chunk (n div 16) (n mod 16)) [0..<n] (w, h) =
      (w', vars_list (fold (sha_round chunk) [0..<n] (list_vars h)))" "length w' = 16"
    "\<forall>m. m < n \<longrightarrow> n \<le> m + 16 \<longrightarrow> w' ! (m mod 16) = schedule chunk m" by auto
  let ?v = "if n div 16 = 0 then sha_load (drop (4 * (n mod 16)) chunk) else sha_extend (n mod 16) w'"
  have v: "?v = schedule chunk n"
  proof (cases "n < 16")
    case True
    then show ?thesis using assms(1) by (subst schedule.simps) (simp add: sha_load_eq)
  next
    case False
    then have "n div 16 \<noteq> 0" by (simp add: div_eq_0_iff)
    then show ?thesis using sha_extend_eq [OF _ w'(3)] False by simp
  qed
  obtain a b c d e f g z where vars: "fold (sha_round chunk) [0..<n] (list_vars h) = (a, b, c, d, e, f, g, z)"
    by (metis prod.exhaust)
  have "16 * (n div 16) + n mod 16 = n" by simp
  then have "fold (\<lambda>n. sha_step chunk (n div 16) (n mod 16)) [0..<Suc n] (w, h) =
      (w'[n mod 16 := schedule chunk n], vars_list (fold (sha_round chunk) [0..<Suc n] (list_vars h)))"
    using w'(1,2) vars v
    by (simp add: sha_step_def sha_round_def vars_list_def right_rot_eq Let_def del: mod_less)
  moreover have "w'[n mod 16 := schedule chunk n] ! (m mod 16) = schedule chunk m" if "m < Suc n" "Suc n \<le> m + 16" for m
  proof (cases "m = n")
    case True
    then show ?thesis using w'(2) by simp
  next
    case False
    then have "m < n" "n < m + 16" using that by auto
    then have "\<not> 16 dvd n - m" by (auto dest: dvd_imp_le)
    then have "m mod 16 \<noteq> n mod 16" using mod_eq_dvd_iff_nat [of m n 16] \<open>m < n\<close> by auto
    then show ?thesis using w'(3) \<open>m < n\<close> \<open>n < m + 16\<close> by simp
  qed
  ultimately show ?case using w'(2) by auto
qed

lemma sha_chunk_eq:
  assumes "length chunk = 64" and "length h = 8" and "\<forall>w. stack w = w"
  shows "sha_chunk stack chunk h = sha_compress h chunk"
proof -
  have "fold (sha_step chunk i) [0..<16] s = fold (\<lambda>j. sha_step chunk ((16 * i + j) div 16) ((16 * i + j) mod 16)) [0..<16] s" for i s
    by (rule fold_cong) simp_all
  then have "sha_group stack chunk = (\<lambda>i. fold (\<lambda>j. sha_step chunk ((16 * i + j) div 16) ((16 * i + j) mod 16)) [0..<16])"
    using assms(3) by (intro ext) (auto simp: sha_group_def split: prod.split)
  then have "fold (sha_group stack chunk) [0..<4] = fold (\<lambda>n. sha_step chunk (n div 16) (n mod 16)) [0..<64]"
    using fold_groups [of "\<lambda>n. sha_step chunk (n div 16) (n mod 16)" 16 4] by simp
  moreover have "\<exists>w'. fold (\<lambda>n. sha_step chunk (n div 16) (n mod 16)) [0..<64] (replicate 16 0, h) =
      (w', vars_list (fold (sha_round chunk) [0..<64] (list_vars h)))"
    using sha_steps [OF assms(1,2), of "replicate 16 0" 64] by auto
  ultimately show ?thesis by (auto simp: sha_chunk_def sha_compress_def)
qed

section \<open>Equality of the padding\<close>

lemma store_len_eq: "store_len n len = be_store n (unat len)"
  by (induction n arbitrary: len) (simp_all add: drop_bit_eq_div unat_div_distrib of_nat_unat)

lemma total_len_eq: "store_len 7 (drop_bit 5 len) @ [ucast (push_bit 3 len)] = be_store 8 (8 * unat len)"
proof -
  have "ucast (push_bit 3 len) = (word_of_nat (8 * unat len) :: u8)"
    by (simp add: word_unat_eq_iff unsigned_ucast_eq push_bit_eq_mult unat_word_ariths(2) take_bit_eq_mod mod_mod_cancel mod_mult_right_eq)
      (simp add: mult.commute mod_mult_right_eq)
  moreover have "be_store 8 (8 * unat len) = be_store (7 + 1) (8 * unat len)" by simp
  moreover have "unat (drop_bit 5 len) = 8 * unat len div 256 ^ 1"
    by (simp add: drop_bit_eq_div unat_div_distrib)
  ultimately show ?thesis unfolding store_len_eq be_store_split by simp
qed

lemma blocks_step: "64 \<le> length bs \<Longrightarrow> blocks bs = take 64 bs # blocks (drop 64 bs)"
  by (subst blocks.simps) auto

lemma blocks_append: "length bs = 64 \<Longrightarrow> blocks (bs @ cs) = bs # blocks cs"
  by (simp add: blocks_step)

lemma blocks_one: "length bs = 64 \<Longrightarrow> blocks bs = [bs]"
  by (simp add: blocks_step) (simp add: blocks.simps)

lemma length_sha_compress [simp]: "length h = 8 \<Longrightarrow> length (sha_compress h block) = 8"
  by (simp add: sha_compress_def vars_list_def split: prod.split)

text \<open>A message that ends with \<open>p\<close>, a one bit, zeros and eight bytes of its length.\<close>

definition padded :: "bytes \<Rightarrow> bytes \<Rightarrow> bytes" where
  "padded len p = p @ [0x80] @ replicate ((119 - length p mod 64) mod 64) 0 @ len"

lemma padded_drop: "64 \<le> length p \<Longrightarrow> blocks (padded len p) = take 64 p # blocks (padded len (drop 64 p))"
  by (subst blocks_step) (simp_all add: padded_def le_mod_geq [of 64 "length p", symmetric])

lemma padded_short:
  assumes "length p < 56" "length len = 8"
  shows "padded len p = p @ [0x80] @ replicate (55 - length p) 0 @ len" "length (padded len p) = 64"
proof -
  have "(119 - length p) mod 64 = 55 - length p" using assms by (simp add: le_mod_geq)
  then show "padded len p = p @ [0x80] @ replicate (55 - length p) 0 @ len" "length (padded len p) = 64"
    using assms by (simp_all add: padded_def)
qed

lemma padded_long:
  assumes "56 \<le> length p" "length p < 64" "length len = 8"
  shows "blocks (padded len p) = [p @ [0x80] @ replicate (63 - length p) 0, replicate 56 0 @ len]"
proof -
  have "(119 - length p) mod 64 = (63 - length p) + 56" using assms by simp
  then have "replicate ((119 - length p) mod 64) (0 :: u8) = replicate (63 - length p) 0 @ replicate 56 0"
    by (simp only: replicate_add)
  then have "padded len p = (p @ [0x80] @ replicate (63 - length p) 0) @ replicate 56 0 @ len"
    using assms by (simp add: padded_def)
  then show ?thesis using assms by (simp only:) (subst blocks_append, simp_all add: blocks_one)
qed

lemma unat_word_of_nat_u64: "n < 2 ^ 64 \<Longrightarrow> unat (word_of_nat n :: u64) = n"
  by (simp add: unsigned_of_nat take_bit_nat_eq_self)

lemma sha_loop_blocks:
  assumes "\<forall>w. stack w = w" and "n < 2 ^ 64"
  shows "length p < 2 ^ 64 \<Longrightarrow> length h = 8 \<Longrightarrow>
    sha_loop stack \<lparr>sb_p = p, sb_len = word_of_nat (length p), sb_total_len = word_of_nat n,
      sb_single_one_delivered = False, sb_total_len_delivered = False\<rparr> h = foldl sha_compress h (blocks (padded (be_store 8 (8 * n)) p))"
proof (induction p arbitrary: h rule: length_induct)
  case (1 p)
  let ?st = "\<lparr>sb_p = p, sb_len = word_of_nat (length p), sb_total_len = word_of_nat n,
    sb_single_one_delivered = False, sb_total_len_delivered = False\<rparr>"
  have u: "unat (word_of_nat (length p) :: u64) = length p" "unat (word_of_nat n :: u64) = n"
    using 1(2) assms(2) by (simp_all add: unsigned_of_nat take_bit_nat_eq_self)
  have ge: "(64 :: u64) \<le> word_of_nat (length p) \<longleftrightarrow> 64 \<le> length p" using u by (simp add: word_le_nat_alt)
  note total = total_len_eq [of "word_of_nat n", unfolded u]
  consider "64 \<le> length p" | "length p < 56" | "56 \<le> length p" "length p < 64" by linarith
  then show ?case
  proof cases
    case 1
    have "sha_loop stack \<lparr>sb_p = drop 64 p, sb_len = word_of_nat (length p) - 64, sb_total_len = word_of_nat n,
        sb_single_one_delivered = False, sb_total_len_delivered = False\<rparr> h' = foldl sha_compress h' (blocks (padded (be_store 8 (8 * n)) (drop 64 p)))"
      if "length h' = 8" for h'
      using "1.IH" [rule_format, of "drop 64 p" h'] "1.prems" 1 that by (simp add: of_nat_diff)
    moreover have "blocks (padded (be_store 8 (8 * n)) p) = take 64 p # blocks (padded (be_store 8 (8 * n)) (drop 64 p))"
      using 1 by (rule padded_drop)
    ultimately show ?thesis
      using "1.prems" 1 ge sha_chunk_eq [OF _ _ assms(1), of "take 64 p" h]
      by (subst sha_loop.simps) (simp add: calc_chunk_def)
  next
    case 2
    have s: "(64 :: u64) - word_of_nat (length p) - 1 = word_of_nat (63 - length p)" using 2 by (simp add: of_nat_diff)
    moreover have "word_of_nat (63 - length p) - 8 = (word_of_nat (55 - length p) :: u64)" using 2 by (simp add: of_nat_diff)
    moreover have "unat (word_of_nat (63 - length p) :: u64) = 63 - length p" "unat (word_of_nat (55 - length p) :: u64) = 55 - length p"
      by (rule unat_word_of_nat_u64; simp)+
    moreover from this(1) have "(8 :: u64) \<le> word_of_nat (63 - length p)" unfolding word_le_nat_alt using 2 by simp
    ultimately have "calc_chunk ?st = Some (padded (be_store 8 (8 * n)) p, ?st\<lparr>sb_p := [], sb_len := 0, sb_single_one_delivered := True, sb_total_len_delivered := True\<rparr>)"
      using 2 ge u total by (simp add: calc_chunk_def Let_def padded_short)
    then show ?thesis
      using sha_chunk_eq [OF _ _ assms(1)] "1.prems" padded_short(2) [OF 2, of "be_store 8 (8 * n)"]
      by (subst sha_loop.simps) (simp add: blocks_one, subst sha_loop.simps, simp add: calc_chunk_def)
  next
    case 3
    let ?c = "p @ [0x80] @ replicate (63 - length p) 0" and ?d = "replicate 56 0 @ be_store 8 (8 * n)"
    let ?st' = "?st\<lparr>sb_p := [], sb_len := 0, sb_single_one_delivered := True\<rparr>"
    have s: "(64 :: u64) - word_of_nat (length p) - 1 = word_of_nat (63 - length p)" using 3 by (simp add: of_nat_diff)
    moreover have "unat (word_of_nat (63 - length p) :: u64) = 63 - length p" by (rule unat_word_of_nat_u64) simp
    moreover from this have "\<not> (8 :: u64) \<le> word_of_nat (63 - length p)" unfolding word_le_nat_alt using 3 by simp
    ultimately have c: "calc_chunk ?st = Some (?c, ?st')"
      using 3 ge u by (simp add: calc_chunk_def Let_def)
    have d: "calc_chunk ?st' = Some (?d, ?st'\<lparr>sb_total_len_delivered := True\<rparr>)"
      using total by (simp add: calc_chunk_def Let_def)
    have "blocks (padded (be_store 8 (8 * n)) p) = [?c, ?d]"
      using 3 by (simp add: padded_long)
    then show ?thesis
      using sha_chunk_eq [OF _ _ assms(1), of ?c h] sha_chunk_eq [OF _ _ assms(1), of ?d "sha_compress h ?c"] "1.prems" 3 c d
      by (subst sha_loop.simps, simp, subst sha_loop.simps, simp, subst sha_loop.simps, simp add: calc_chunk_def)
  qed
qed

lemma be_store_4: "be_store 4 n = [word_of_nat (n div 2 ^ 24), word_of_nat (n div 2 ^ 16), word_of_nat (n div 2 ^ 8), word_of_nat n]"
proof -
  have "(4 :: nat) = Suc (Suc (Suc (Suc 0)))" by simp
  then have "be_store 4 n = be_store (Suc (Suc (Suc (Suc 0)))) n" by (rule arg_cong)
  then show ?thesis by (simp only: be_store.simps) (simp flip: div_mult2_eq)
qed

lemma sha_store_eq: "sha_store v = be_store 4 (unat v)"
proof -
  have "ucast (drop_bit k v) = (word_of_nat (unat v div 2 ^ k) :: u8)" for k
    using unsigned_less [where ?'a = nat, of v]
    by (simp add: word_unat_eq_iff unsigned_ucast_eq unsigned_drop_bit_eq unsigned_of_nat take_bit_nat_eq_self flip: drop_bit_eq_div)
  from this [of 24] this [of 16] this [of 8] show ?thesis
    by (simp add: sha_store_def be_store_4 of_nat_unat)
qed

section \<open>The constants\<close>

text \<open>\<open>w\<close> is the first 32 bits of the fractional part of the \<open>q\<close>-th root of \<open>p\<close>.\<close>

definition root_fraction :: "nat \<Rightarrow> nat \<Rightarrow> u32 \<Rightarrow> bool" where
  "root_fraction q p w \<longleftrightarrow>
     (\<exists>c. (c * 2 ^ 32 + unat w) ^ q \<le> p * 2 ^ (32 * q) \<and> p * 2 ^ (32 * q) < (c * 2 ^ 32 + unat w + 1) ^ q)"

definition first_primes :: "nat list" where
  "first_primes =
     [2, 3, 5, 7, 11, 13, 17, 19, 23, 29, 31, 37, 41, 43, 47, 53, 59, 61, 67, 71, 73, 79, 83, 89, 97, 101, 103,
      107, 109, 113, 127, 131, 137, 139, 149, 151, 157, 163, 167, 173, 179, 181, 191, 193, 197, 199, 211, 223,
      227, 229, 233, 239, 241, 251, 257, 263, 269, 271, 277, 281, 283, 293, 307, 311]"

lemma root_fractions:
  assumes "list_all2 (\<lambda>p w. (f p * 2 ^ 32 + unat w) ^ q \<le> p * 2 ^ (32 * q) \<and> p * 2 ^ (32 * q) < (f p * 2 ^ 32 + unat w + 1) ^ q) ps ws"
  shows "list_all2 (root_fraction q) ps ws"
  using assms by (rule list_all2_mono) (auto simp: root_fraction_def)

lemma sha_constants: "list_all2 (root_fraction 3) first_primes sha_k" "list_all2 (root_fraction 2) (take 8 first_primes) sha_h"
proof -
  show "list_all2 (root_fraction 3) first_primes sha_k"
    by (rule root_fractions [where f = "\<lambda>p. if p < 8 then 1 else if p < 27 then 2 else if p < 64 then 3 else if p < 125 then 4
          else if p < 216 then 5 else 6"]) (simp add: first_primes_def sha_k_def)
  show "list_all2 (root_fraction 2) (take 8 first_primes) sha_h"
    by (rule root_fractions [where f = "\<lambda>p. if p < 4 then 1 else if p < 9 then 2 else if p < 16 then 3 else 4"])
      (simp add: first_primes_def sha_h_def)
qed

lemma calc_sha_256_eq:
  assumes "\<forall>w. stack w = w" and "length m < 2 ^ 61"
  shows "calc_sha_256 stack m = sha256_spec m"
proof -
  have "sha_loop stack (init_buf_state m) sha_h = foldl sha_compress sha_h (blocks (padded (be_store 8 (8 * length m)) m))"
    unfolding init_buf_state_def by (rule sha_loop_blocks [OF assms(1)]) (use assms(2) in \<open>simp_all add: sha_h_def\<close>)
  then show ?thesis by (simp add: calc_sha_256_def sha256_spec_def padded_def sha_pad_def sha_store_eq [abs_def])
qed

section \<open>Properties\<close>

text \<open>
  C34. \<open>calc_sha_256\<close> computes SHA-256 of FIPS 180-4, provided that its array of 16 words keeps its contents from
  one group of rounds to the next: it pads the message with a one bit, zeros and the length, although it does so
  chunk by chunk, and its sliding window of 16 words yields the schedule of 64 words.  The constants
  are the first 32 bits of the fractional parts of the roots of primes.
\<close>

theorem calc_sha_256_correct:
  assumes "\<forall>w. stack w = w" and "length m < 2 ^ 61"
  shows "calc_sha_256 stack m = sha256_spec m \<and> list_all2 (root_fraction 3) first_primes sha_k \<and>
    list_all2 (root_fraction 2) (take 8 first_primes) sha_h"
  using calc_sha_256_eq [OF assms] sha_constants by simp

theorem calc_sha_256_correct_witness: "calc_sha_256 (\<lambda>w. w) [0x61, 0x62, 0x63] = sha256_spec [0x61, 0x62, 0x63]"
  using calc_sha_256_correct [of "\<lambda>w. w" "[0x61, 0x62, 0x63]"] by simp

end
