(* ===== verification/Ripemd160.thy ===== *)
theory Ripemd160
  imports Sha256
begin

text \<open>
  core/silkworm/crypto/rmd160.c and rmd160.cpp, and their equality with RIPEMD-160 as its authors define it: five
  rounds in two lines, whose order of message words is generated by two permutations.

  The macros of the code change two of five variables; here they return the new values of both.
\<close>

unbundle bit_operations_syntax

section \<open>The code\<close>

definition rmd_ROL :: "u32 \<Rightarrow> nat \<Rightarrow> u32" where
  "rmd_ROL x n = push_bit n x OR drop_bit (32 - n) x"

definition rmd_F :: "u32 \<Rightarrow> u32 \<Rightarrow> u32 \<Rightarrow> u32" where
  "rmd_F x y z = x XOR y XOR z"

definition rmd_G :: "u32 \<Rightarrow> u32 \<Rightarrow> u32 \<Rightarrow> u32" where
  "rmd_G x y z = x AND y OR NOT x AND z"

definition rmd_H :: "u32 \<Rightarrow> u32 \<Rightarrow> u32 \<Rightarrow> u32" where
  "rmd_H x y z = (x OR NOT y) XOR z"

definition rmd_I :: "u32 \<Rightarrow> u32 \<Rightarrow> u32 \<Rightarrow> u32" where
  "rmd_I x y z = x AND z OR y AND NOT z"

definition rmd_J :: "u32 \<Rightarrow> u32 \<Rightarrow> u32 \<Rightarrow> u32" where
  "rmd_J x y z = x XOR (y OR NOT z)"

definition rmd_FF :: "u32 \<Rightarrow> u32 \<Rightarrow> u32 \<Rightarrow> u32 \<Rightarrow> u32 \<Rightarrow> u32 \<Rightarrow> nat \<Rightarrow> u32 \<times> u32" where
  "rmd_FF a b c d e x s = (rmd_ROL (a + (rmd_F b c d + x)) s + e, rmd_ROL c 10)"

definition rmd_GG :: "u32 \<Rightarrow> u32 \<Rightarrow> u32 \<Rightarrow> u32 \<Rightarrow> u32 \<Rightarrow> u32 \<Rightarrow> nat \<Rightarrow> u32 \<times> u32" where
  "rmd_GG a b c d e x s = (rmd_ROL (a + (rmd_G b c d + x + 0x5a827999)) s + e, rmd_ROL c 10)"

definition rmd_HH :: "u32 \<Rightarrow> u32 \<Rightarrow> u32 \<Rightarrow> u32 \<Rightarrow> u32 \<Rightarrow> u32 \<Rightarrow> nat \<Rightarrow> u32 \<times> u32" where
  "rmd_HH a b c d e x s = (rmd_ROL (a + (rmd_H b c d + x + 0x6ed9eba1)) s + e, rmd_ROL c 10)"

definition rmd_II :: "u32 \<Rightarrow> u32 \<Rightarrow> u32 \<Rightarrow> u32 \<Rightarrow> u32 \<Rightarrow> u32 \<Rightarrow> nat \<Rightarrow> u32 \<times> u32" where
  "rmd_II a b c d e x s = (rmd_ROL (a + (rmd_I b c d + x + 0x8f1bbcdc)) s + e, rmd_ROL c 10)"

definition rmd_JJ :: "u32 \<Rightarrow> u32 \<Rightarrow> u32 \<Rightarrow> u32 \<Rightarrow> u32 \<Rightarrow> u32 \<Rightarrow> nat \<Rightarrow> u32 \<times> u32" where
  "rmd_JJ a b c d e x s = (rmd_ROL (a + (rmd_J b c d + x + 0xa953fd4e)) s + e, rmd_ROL c 10)"

definition rmd_FFF :: "u32 \<Rightarrow> u32 \<Rightarrow> u32 \<Rightarrow> u32 \<Rightarrow> u32 \<Rightarrow> u32 \<Rightarrow> nat \<Rightarrow> u32 \<times> u32" where
  "rmd_FFF a b c d e x s = (rmd_ROL (a + (rmd_F b c d + x)) s + e, rmd_ROL c 10)"

definition rmd_GGG :: "u32 \<Rightarrow> u32 \<Rightarrow> u32 \<Rightarrow> u32 \<Rightarrow> u32 \<Rightarrow> u32 \<Rightarrow> nat \<Rightarrow> u32 \<times> u32" where
  "rmd_GGG a b c d e x s = (rmd_ROL (a + (rmd_G b c d + x + 0x7a6d76e9)) s + e, rmd_ROL c 10)"

definition rmd_HHH :: "u32 \<Rightarrow> u32 \<Rightarrow> u32 \<Rightarrow> u32 \<Rightarrow> u32 \<Rightarrow> u32 \<Rightarrow> nat \<Rightarrow> u32 \<times> u32" where
  "rmd_HHH a b c d e x s = (rmd_ROL (a + (rmd_H b c d + x + 0x6d703ef3)) s + e, rmd_ROL c 10)"

definition rmd_III :: "u32 \<Rightarrow> u32 \<Rightarrow> u32 \<Rightarrow> u32 \<Rightarrow> u32 \<Rightarrow> u32 \<Rightarrow> nat \<Rightarrow> u32 \<times> u32" where
  "rmd_III a b c d e x s = (rmd_ROL (a + (rmd_I b c d + x + 0x5c4dd124)) s + e, rmd_ROL c 10)"

definition rmd_JJJ :: "u32 \<Rightarrow> u32 \<Rightarrow> u32 \<Rightarrow> u32 \<Rightarrow> u32 \<Rightarrow> u32 \<Rightarrow> nat \<Rightarrow> u32 \<times> u32" where
  "rmd_JJJ a b c d e x s = (rmd_ROL (a + (rmd_J b c d + x + 0x50a28be6)) s + e, rmd_ROL c 10)"

definition rmd160_init :: "u32 list" where
  "rmd160_init = [0x67452301, 0xefcdab89, 0x98badcfe, 0x10325476, 0xc3d2e1f0]"

type_synonym rmd_vars = "u32 \<times> u32 \<times> u32 \<times> u32 \<times> u32"

definition rmd_round1 :: "u32 list \<Rightarrow> rmd_vars \<Rightarrow> rmd_vars" where
  "rmd_round1 X = (\<lambda>(aa, bb, cc, dd, ee).
     let (aa, cc) = rmd_FF aa bb cc dd ee (X ! 0) 11;
         (ee, bb) = rmd_FF ee aa bb cc dd (X ! 1) 14;
         (dd, aa) = rmd_FF dd ee aa bb cc (X ! 2) 15;
         (cc, ee) = rmd_FF cc dd ee aa bb (X ! 3) 12;
         (bb, dd) = rmd_FF bb cc dd ee aa (X ! 4) 5;
         (aa, cc) = rmd_FF aa bb cc dd ee (X ! 5) 8;
         (ee, bb) = rmd_FF ee aa bb cc dd (X ! 6) 7;
         (dd, aa) = rmd_FF dd ee aa bb cc (X ! 7) 9;
         (cc, ee) = rmd_FF cc dd ee aa bb (X ! 8) 11;
         (bb, dd) = rmd_FF bb cc dd ee aa (X ! 9) 13;
         (aa, cc) = rmd_FF aa bb cc dd ee (X ! 10) 14;
         (ee, bb) = rmd_FF ee aa bb cc dd (X ! 11) 15;
         (dd, aa) = rmd_FF dd ee aa bb cc (X ! 12) 6;
         (cc, ee) = rmd_FF cc dd ee aa bb (X ! 13) 7;
         (bb, dd) = rmd_FF bb cc dd ee aa (X ! 14) 9;
         (aa, cc) = rmd_FF aa bb cc dd ee (X ! 15) 8
     in (aa, bb, cc, dd, ee))"

definition rmd_round2 :: "u32 list \<Rightarrow> rmd_vars \<Rightarrow> rmd_vars" where
  "rmd_round2 X = (\<lambda>(aa, bb, cc, dd, ee).
     let (ee, bb) = rmd_GG ee aa bb cc dd (X ! 7) 7;
         (dd, aa) = rmd_GG dd ee aa bb cc (X ! 4) 6;
         (cc, ee) = rmd_GG cc dd ee aa bb (X ! 13) 8;
         (bb, dd) = rmd_GG bb cc dd ee aa (X ! 1) 13;
         (aa, cc) = rmd_GG aa bb cc dd ee (X ! 10) 11;
         (ee, bb) = rmd_GG ee aa bb cc dd (X ! 6) 9;
         (dd, aa) = rmd_GG dd ee aa bb cc (X ! 15) 7;
         (cc, ee) = rmd_GG cc dd ee aa bb (X ! 3) 15;
         (bb, dd) = rmd_GG bb cc dd ee aa (X ! 12) 7;
         (aa, cc) = rmd_GG aa bb cc dd ee (X ! 0) 12;
         (ee, bb) = rmd_GG ee aa bb cc dd (X ! 9) 15;
         (dd, aa) = rmd_GG dd ee aa bb cc (X ! 5) 9;
         (cc, ee) = rmd_GG cc dd ee aa bb (X ! 2) 11;
         (bb, dd) = rmd_GG bb cc dd ee aa (X ! 14) 7;
         (aa, cc) = rmd_GG aa bb cc dd ee (X ! 11) 13;
         (ee, bb) = rmd_GG ee aa bb cc dd (X ! 8) 12
     in (aa, bb, cc, dd, ee))"

definition rmd_round3 :: "u32 list \<Rightarrow> rmd_vars \<Rightarrow> rmd_vars" where
  "rmd_round3 X = (\<lambda>(aa, bb, cc, dd, ee).
     let (dd, aa) = rmd_HH dd ee aa bb cc (X ! 3) 11;
         (cc, ee) = rmd_HH cc dd ee aa bb (X ! 10) 13;
         (bb, dd) = rmd_HH bb cc dd ee aa (X ! 14) 6;
         (aa, cc) = rmd_HH aa bb cc dd ee (X ! 4) 7;
         (ee, bb) = rmd_HH ee aa bb cc dd (X ! 9) 14;
         (dd, aa) = rmd_HH dd ee aa bb cc (X ! 15) 9;
         (cc, ee) = rmd_HH cc dd ee aa bb (X ! 8) 13;
         (bb, dd) = rmd_HH bb cc dd ee aa (X ! 1) 15;
         (aa, cc) = rmd_HH aa bb cc dd ee (X ! 2) 14;
         (ee, bb) = rmd_HH ee aa bb cc dd (X ! 7) 8;
         (dd, aa) = rmd_HH dd ee aa bb cc (X ! 0) 13;
         (cc, ee) = rmd_HH cc dd ee aa bb (X ! 6) 6;
         (bb, dd) = rmd_HH bb cc dd ee aa (X ! 13) 5;
         (aa, cc) = rmd_HH aa bb cc dd ee (X ! 11) 12;
         (ee, bb) = rmd_HH ee aa bb cc dd (X ! 5) 7;
         (dd, aa) = rmd_HH dd ee aa bb cc (X ! 12) 5
     in (aa, bb, cc, dd, ee))"

definition rmd_round4 :: "u32 list \<Rightarrow> rmd_vars \<Rightarrow> rmd_vars" where
  "rmd_round4 X = (\<lambda>(aa, bb, cc, dd, ee).
     let (cc, ee) = rmd_II cc dd ee aa bb (X ! 1) 11;
         (bb, dd) = rmd_II bb cc dd ee aa (X ! 9) 12;
         (aa, cc) = rmd_II aa bb cc dd ee (X ! 11) 14;
         (ee, bb) = rmd_II ee aa bb cc dd (X ! 10) 15;
         (dd, aa) = rmd_II dd ee aa bb cc (X ! 0) 14;
         (cc, ee) = rmd_II cc dd ee aa bb (X ! 8) 15;
         (bb, dd) = rmd_II bb cc dd ee aa (X ! 12) 9;
         (aa, cc) = rmd_II aa bb cc dd ee (X ! 4) 8;
         (ee, bb) = rmd_II ee aa bb cc dd (X ! 13) 9;
         (dd, aa) = rmd_II dd ee aa bb cc (X ! 3) 14;
         (cc, ee) = rmd_II cc dd ee aa bb (X ! 7) 5;
         (bb, dd) = rmd_II bb cc dd ee aa (X ! 15) 6;
         (aa, cc) = rmd_II aa bb cc dd ee (X ! 14) 8;
         (ee, bb) = rmd_II ee aa bb cc dd (X ! 5) 6;
         (dd, aa) = rmd_II dd ee aa bb cc (X ! 6) 5;
         (cc, ee) = rmd_II cc dd ee aa bb (X ! 2) 12
     in (aa, bb, cc, dd, ee))"

definition rmd_round5 :: "u32 list \<Rightarrow> rmd_vars \<Rightarrow> rmd_vars" where
  "rmd_round5 X = (\<lambda>(aa, bb, cc, dd, ee).
     let (bb, dd) = rmd_JJ bb cc dd ee aa (X ! 4) 9;
         (aa, cc) = rmd_JJ aa bb cc dd ee (X ! 0) 15;
         (ee, bb) = rmd_JJ ee aa bb cc dd (X ! 5) 5;
         (dd, aa) = rmd_JJ dd ee aa bb cc (X ! 9) 11;
         (cc, ee) = rmd_JJ cc dd ee aa bb (X ! 7) 6;
         (bb, dd) = rmd_JJ bb cc dd ee aa (X ! 12) 8;
         (aa, cc) = rmd_JJ aa bb cc dd ee (X ! 2) 13;
         (ee, bb) = rmd_JJ ee aa bb cc dd (X ! 10) 12;
         (dd, aa) = rmd_JJ dd ee aa bb cc (X ! 14) 5;
         (cc, ee) = rmd_JJ cc dd ee aa bb (X ! 1) 12;
         (bb, dd) = rmd_JJ bb cc dd ee aa (X ! 3) 13;
         (aa, cc) = rmd_JJ aa bb cc dd ee (X ! 8) 14;
         (ee, bb) = rmd_JJ ee aa bb cc dd (X ! 11) 11;
         (dd, aa) = rmd_JJ dd ee aa bb cc (X ! 6) 8;
         (cc, ee) = rmd_JJ cc dd ee aa bb (X ! 15) 5;
         (bb, dd) = rmd_JJ bb cc dd ee aa (X ! 13) 6
     in (aa, bb, cc, dd, ee))"

definition rmd_parallel1 :: "u32 list \<Rightarrow> rmd_vars \<Rightarrow> rmd_vars" where
  "rmd_parallel1 X = (\<lambda>(aaa, bbb, ccc, ddd, eee).
     let (aaa, ccc) = rmd_JJJ aaa bbb ccc ddd eee (X ! 5) 8;
         (eee, bbb) = rmd_JJJ eee aaa bbb ccc ddd (X ! 14) 9;
         (ddd, aaa) = rmd_JJJ ddd eee aaa bbb ccc (X ! 7) 9;
         (ccc, eee) = rmd_JJJ ccc ddd eee aaa bbb (X ! 0) 11;
         (bbb, ddd) = rmd_JJJ bbb ccc ddd eee aaa (X ! 9) 13;
         (aaa, ccc) = rmd_JJJ aaa bbb ccc ddd eee (X ! 2) 15;
         (eee, bbb) = rmd_JJJ eee aaa bbb ccc ddd (X ! 11) 15;
         (ddd, aaa) = rmd_JJJ ddd eee aaa bbb ccc (X ! 4) 5;
         (ccc, eee) = rmd_JJJ ccc ddd eee aaa bbb (X ! 13) 7;
         (bbb, ddd) = rmd_JJJ bbb ccc ddd eee aaa (X ! 6) 7;
         (aaa, ccc) = rmd_JJJ aaa bbb ccc ddd eee (X ! 15) 8;
         (eee, bbb) = rmd_JJJ eee aaa bbb ccc ddd (X ! 8) 11;
         (ddd, aaa) = rmd_JJJ ddd eee aaa bbb ccc (X ! 1) 14;
         (ccc, eee) = rmd_JJJ ccc ddd eee aaa bbb (X ! 10) 14;
         (bbb, ddd) = rmd_JJJ bbb ccc ddd eee aaa (X ! 3) 12;
         (aaa, ccc) = rmd_JJJ aaa bbb ccc ddd eee (X ! 12) 6
     in (aaa, bbb, ccc, ddd, eee))"

definition rmd_parallel2 :: "u32 list \<Rightarrow> rmd_vars \<Rightarrow> rmd_vars" where
  "rmd_parallel2 X = (\<lambda>(aaa, bbb, ccc, ddd, eee).
     let (eee, bbb) = rmd_III eee aaa bbb ccc ddd (X ! 6) 9;
         (ddd, aaa) = rmd_III ddd eee aaa bbb ccc (X ! 11) 13;
         (ccc, eee) = rmd_III ccc ddd eee aaa bbb (X ! 3) 15;
         (bbb, ddd) = rmd_III bbb ccc ddd eee aaa (X ! 7) 7;
         (aaa, ccc) = rmd_III aaa bbb ccc ddd eee (X ! 0) 12;
         (eee, bbb) = rmd_III eee aaa bbb ccc ddd (X ! 13) 8;
         (ddd, aaa) = rmd_III ddd eee aaa bbb ccc (X ! 5) 9;
         (ccc, eee) = rmd_III ccc ddd eee aaa bbb (X ! 10) 11;
         (bbb, ddd) = rmd_III bbb ccc ddd eee aaa (X ! 14) 7;
         (aaa, ccc) = rmd_III aaa bbb ccc ddd eee (X ! 15) 7;
         (eee, bbb) = rmd_III eee aaa bbb ccc ddd (X ! 8) 12;
         (ddd, aaa) = rmd_III ddd eee aaa bbb ccc (X ! 12) 7;
         (ccc, eee) = rmd_III ccc ddd eee aaa bbb (X ! 4) 6;
         (bbb, ddd) = rmd_III bbb ccc ddd eee aaa (X ! 9) 15;
         (aaa, ccc) = rmd_III aaa bbb ccc ddd eee (X ! 1) 13;
         (eee, bbb) = rmd_III eee aaa bbb ccc ddd (X ! 2) 11
     in (aaa, bbb, ccc, ddd, eee))"

definition rmd_parallel3 :: "u32 list \<Rightarrow> rmd_vars \<Rightarrow> rmd_vars" where
  "rmd_parallel3 X = (\<lambda>(aaa, bbb, ccc, ddd, eee).
     let (ddd, aaa) = rmd_HHH ddd eee aaa bbb ccc (X ! 15) 9;
         (ccc, eee) = rmd_HHH ccc ddd eee aaa bbb (X ! 5) 7;
         (bbb, ddd) = rmd_HHH bbb ccc ddd eee aaa (X ! 1) 15;
         (aaa, ccc) = rmd_HHH aaa bbb ccc ddd eee (X ! 3) 11;
         (eee, bbb) = rmd_HHH eee aaa bbb ccc ddd (X ! 7) 8;
         (ddd, aaa) = rmd_HHH ddd eee aaa bbb ccc (X ! 14) 6;
         (ccc, eee) = rmd_HHH ccc ddd eee aaa bbb (X ! 6) 6;
         (bbb, ddd) = rmd_HHH bbb ccc ddd eee aaa (X ! 9) 14;
         (aaa, ccc) = rmd_HHH aaa bbb ccc ddd eee (X ! 11) 12;
         (eee, bbb) = rmd_HHH eee aaa bbb ccc ddd (X ! 8) 13;
         (ddd, aaa) = rmd_HHH ddd eee aaa bbb ccc (X ! 12) 5;
         (ccc, eee) = rmd_HHH ccc ddd eee aaa bbb (X ! 2) 14;
         (bbb, ddd) = rmd_HHH bbb ccc ddd eee aaa (X ! 10) 13;
         (aaa, ccc) = rmd_HHH aaa bbb ccc ddd eee (X ! 0) 13;
         (eee, bbb) = rmd_HHH eee aaa bbb ccc ddd (X ! 4) 7;
         (ddd, aaa) = rmd_HHH ddd eee aaa bbb ccc (X ! 13) 5
     in (aaa, bbb, ccc, ddd, eee))"

definition rmd_parallel4 :: "u32 list \<Rightarrow> rmd_vars \<Rightarrow> rmd_vars" where
  "rmd_parallel4 X = (\<lambda>(aaa, bbb, ccc, ddd, eee).
     let (ccc, eee) = rmd_GGG ccc ddd eee aaa bbb (X ! 8) 15;
         (bbb, ddd) = rmd_GGG bbb ccc ddd eee aaa (X ! 6) 5;
         (aaa, ccc) = rmd_GGG aaa bbb ccc ddd eee (X ! 4) 8;
         (eee, bbb) = rmd_GGG eee aaa bbb ccc ddd (X ! 1) 11;
         (ddd, aaa) = rmd_GGG ddd eee aaa bbb ccc (X ! 3) 14;
         (ccc, eee) = rmd_GGG ccc ddd eee aaa bbb (X ! 11) 14;
         (bbb, ddd) = rmd_GGG bbb ccc ddd eee aaa (X ! 15) 6;
         (aaa, ccc) = rmd_GGG aaa bbb ccc ddd eee (X ! 0) 14;
         (eee, bbb) = rmd_GGG eee aaa bbb ccc ddd (X ! 5) 6;
         (ddd, aaa) = rmd_GGG ddd eee aaa bbb ccc (X ! 12) 9;
         (ccc, eee) = rmd_GGG ccc ddd eee aaa bbb (X ! 2) 12;
         (bbb, ddd) = rmd_GGG bbb ccc ddd eee aaa (X ! 13) 9;
         (aaa, ccc) = rmd_GGG aaa bbb ccc ddd eee (X ! 9) 12;
         (eee, bbb) = rmd_GGG eee aaa bbb ccc ddd (X ! 7) 5;
         (ddd, aaa) = rmd_GGG ddd eee aaa bbb ccc (X ! 10) 15;
         (ccc, eee) = rmd_GGG ccc ddd eee aaa bbb (X ! 14) 8
     in (aaa, bbb, ccc, ddd, eee))"

definition rmd_parallel5 :: "u32 list \<Rightarrow> rmd_vars \<Rightarrow> rmd_vars" where
  "rmd_parallel5 X = (\<lambda>(aaa, bbb, ccc, ddd, eee).
     let (bbb, ddd) = rmd_FFF bbb ccc ddd eee aaa (X ! 12) 8;
         (aaa, ccc) = rmd_FFF aaa bbb ccc ddd eee (X ! 15) 5;
         (eee, bbb) = rmd_FFF eee aaa bbb ccc ddd (X ! 10) 12;
         (ddd, aaa) = rmd_FFF ddd eee aaa bbb ccc (X ! 4) 9;
         (ccc, eee) = rmd_FFF ccc ddd eee aaa bbb (X ! 1) 12;
         (bbb, ddd) = rmd_FFF bbb ccc ddd eee aaa (X ! 5) 5;
         (aaa, ccc) = rmd_FFF aaa bbb ccc ddd eee (X ! 8) 14;
         (eee, bbb) = rmd_FFF eee aaa bbb ccc ddd (X ! 7) 6;
         (ddd, aaa) = rmd_FFF ddd eee aaa bbb ccc (X ! 6) 8;
         (ccc, eee) = rmd_FFF ccc ddd eee aaa bbb (X ! 2) 13;
         (bbb, ddd) = rmd_FFF bbb ccc ddd eee aaa (X ! 13) 6;
         (aaa, ccc) = rmd_FFF aaa bbb ccc ddd eee (X ! 14) 5;
         (eee, bbb) = rmd_FFF eee aaa bbb ccc ddd (X ! 0) 15;
         (ddd, aaa) = rmd_FFF ddd eee aaa bbb ccc (X ! 3) 13;
         (ccc, eee) = rmd_FFF ccc ddd eee aaa bbb (X ! 9) 11;
         (bbb, ddd) = rmd_FFF bbb ccc ddd eee aaa (X ! 11) 11
     in (aaa, bbb, ccc, ddd, eee))"

definition rmd160_compress :: "u32 list \<Rightarrow> u32 list \<Rightarrow> u32 list" where
  "rmd160_compress MDbuf X =
     (let v = (MDbuf ! 0, MDbuf ! 1, MDbuf ! 2, MDbuf ! 3, MDbuf ! 4);
          (aa, bb, cc, dd, ee) = rmd_round5 X (rmd_round4 X (rmd_round3 X (rmd_round2 X (rmd_round1 X v))));
          (aaa, bbb, ccc, ddd, eee) =
            rmd_parallel5 X (rmd_parallel4 X (rmd_parallel3 X (rmd_parallel2 X (rmd_parallel1 X v))));
          ddd = ddd + (cc + MDbuf ! 1)
      in [ddd, MDbuf ! 2 + dd + eee, MDbuf ! 3 + ee + aaa, MDbuf ! 4 + aa + bbb, MDbuf ! 0 + bb + ccc])"

text \<open>\<open>X[i >> 2] ^= byte << (8 * (i & 3))\<close>\<close>

definition put_byte :: "nat \<Rightarrow> u8 \<Rightarrow> u32 list \<Rightarrow> u32 list" where
  "put_byte i b X = X[i div 4 := X ! (i div 4) XOR push_bit (8 * (i mod 4)) (ucast b)]"

definition rmd160_finish :: "u32 list \<Rightarrow> bytes \<Rightarrow> u32 \<Rightarrow> u32 \<Rightarrow> u32 list" where
  "rmd160_finish MDbuf strptr lswlen mswlen =
     (let X = fold (\<lambda>i. put_byte i (strptr ! i)) [0..<unat (lswlen AND 63)] (replicate 16 0);
          k = unat (drop_bit 2 lswlen AND 15);
          X = X[k := X ! k XOR push_bit (unat (8 * (lswlen AND 3) + 7)) 1];
          (MDbuf, X) = (if lswlen AND 63 > 55 then (rmd160_compress MDbuf X, replicate 16 0) else (MDbuf, X));
          X = X[14 := push_bit 3 lswlen];
          X = X[15 := drop_bit 29 lswlen OR push_bit 3 mswlen]
      in rmd160_compress MDbuf X)"

definition load_little_u32 :: "bytes \<Rightarrow> u32" where
  "load_little_u32 bs = word_of_nat (le_load (take 4 bs))"

text \<open>The loop over whole blocks, which also yields where the pointer stands after it.\<close>

fun ripemd_blocks :: "u32 list \<Rightarrow> bytes \<Rightarrow> u32 list \<times> bytes" where
  "ripemd_blocks buf ptr =
     (if length ptr \<ge> 64 then
        ripemd_blocks (rmd160_compress buf (map (\<lambda>i. load_little_u32 (drop (4 * i) ptr)) [0..<16])) (drop 64 ptr)
      else (buf, ptr))"

declare ripemd_blocks.simps [simp del]

definition ripemd_store :: "u32 \<Rightarrow> bytes" where
  "ripemd_store v = [ucast v, ucast (drop_bit 8 v), ucast (drop_bit 16 v), ucast (drop_bit 24 v)]"

definition calculate_ripemd_160 :: "bytes \<Rightarrow> bytes" where
  "calculate_ripemd_160 input =
     (case ripemd_blocks rmd160_init input of
        (buf, ptr) \<Rightarrow> concat (map ripemd_store (rmd160_finish buf ptr (word_of_nat (length input)) 0)))"

section \<open>The reference\<close>

text \<open>The order of the message words is generated by two permutations.\<close>

definition rmd_rho :: "nat \<Rightarrow> nat" where
  "rmd_rho i = [7, 4, 13, 1, 10, 6, 15, 3, 12, 0, 9, 5, 2, 14, 11, 8] ! i"

definition rmd_pi :: "nat \<Rightarrow> nat" where
  "rmd_pi i = (9 * i + 5) mod 16"

text \<open>In each round a message word has its own shift, the same in both lines.\<close>

definition rmd_shift :: "nat \<Rightarrow> nat \<Rightarrow> nat" where
  "rmd_shift j x =
     [[11, 14, 15, 12, 5, 8, 7, 9, 11, 13, 14, 15, 6, 7, 9, 8],
      [12, 13, 11, 15, 6, 9, 9, 7, 12, 15, 11, 13, 7, 8, 7, 7],
      [13, 15, 14, 11, 7, 7, 6, 8, 13, 14, 13, 12, 5, 5, 6, 9],
      [14, 11, 12, 14, 8, 6, 5, 5, 15, 12, 15, 14, 9, 9, 8, 6],
      [15, 12, 13, 13, 9, 5, 8, 6, 14, 11, 12, 11, 8, 6, 5, 5]] ! j ! x"

definition rmd_fun :: "nat \<Rightarrow> u32 \<Rightarrow> u32 \<Rightarrow> u32 \<Rightarrow> u32" where
  "rmd_fun j = [\<lambda>x y z. x XOR y XOR z, \<lambda>x y z. x AND y OR NOT x AND z, \<lambda>x y z. (x OR NOT y) XOR z,
     \<lambda>x y z. x AND z OR y AND NOT z, \<lambda>x y z. x XOR (y OR NOT z)] ! j"

definition rmd_left :: "nat \<Rightarrow> u32" where
  "rmd_left j = [0, 0x5a827999, 0x6ed9eba1, 0x8f1bbcdc, 0xa953fd4e] ! j"

definition rmd_right :: "nat \<Rightarrow> u32" where
  "rmd_right j = [0x50a28be6, 0x5c4dd124, 0x6d703ef3, 0x7a6d76e9, 0] ! j"

definition rmd_mix :: "(u32 \<Rightarrow> u32 \<Rightarrow> u32 \<Rightarrow> u32) \<Rightarrow> u32 \<Rightarrow> nat \<Rightarrow> u32 \<Rightarrow> rmd_vars \<Rightarrow> rmd_vars" where
  "rmd_mix f k n x = (\<lambda>(a, b, c, d, e). (e, word_rotl n (a + f b c d + x + k) + e, b, word_rotl 10 c, d))"

text \<open>Step \<open>i\<close> of round \<open>j\<close> in the left and in the right line.\<close>

definition rmd_left_step :: "u32 list \<Rightarrow> nat \<Rightarrow> nat \<Rightarrow> rmd_vars \<Rightarrow> rmd_vars" where
  "rmd_left_step X j i = (let x = (rmd_rho ^^ j) i in rmd_mix (rmd_fun j) (rmd_left j) (rmd_shift j x) (X ! x))"

definition rmd_right_step :: "u32 list \<Rightarrow> nat \<Rightarrow> nat \<Rightarrow> rmd_vars \<Rightarrow> rmd_vars" where
  "rmd_right_step X j i =
     (let x = (rmd_rho ^^ j) (rmd_pi i) in rmd_mix (rmd_fun (4 - j)) (rmd_right j) (rmd_shift j x) (X ! x))"

definition rmd_line :: "(nat \<Rightarrow> nat \<Rightarrow> rmd_vars \<Rightarrow> rmd_vars) \<Rightarrow> rmd_vars \<Rightarrow> rmd_vars" where
  "rmd_line step = fold (\<lambda>j. fold (step j) [0..<16]) [0..<5]"

definition rmd_words :: "bytes \<Rightarrow> u32 list" where
  "rmd_words block = map (\<lambda>i. word_of_nat (le_load (take 4 (drop (4 * i) block)))) [0..<16]"

definition rmd_compress :: "u32 list \<Rightarrow> bytes \<Rightarrow> u32 list" where
  "rmd_compress h block =
     (let X = rmd_words block; v = (h ! 0, h ! 1, h ! 2, h ! 3, h ! 4);
          (a, b, c, d, e) = rmd_line (rmd_left_step X) v;
          (a', b', c', d', e') = rmd_line (rmd_right_step X) v
      in [h ! 1 + c + d', h ! 2 + d + e', h ! 3 + e + a', h ! 4 + a + b', h ! 0 + b + c'])"

definition ripemd160_spec :: "bytes \<Rightarrow> bytes" where
  "ripemd160_spec m =
     concat (map (\<lambda>w. le_store 4 (unat w)) (foldl rmd_compress rmd160_init (blocks (padded (le_store 8 (8 * length m)) m))))"

section \<open>Equality of the rounds\<close>

lemma rmd_ROL_eq:
  assumes "0 < c" "c < 32"
  shows "rmd_ROL v c = word_rotl c v"
  using right_rot_eq [of "32 - c" v] assms by (simp add: rmd_ROL_def right_rot_def word_rotl_eq_word_rotr or.commute)

text \<open>A macro of the code, with its new values named, is a step of the reference on rotated variables.\<close>

lemmas macro_defs = rmd_FF_def rmd_GG_def rmd_HH_def rmd_II_def rmd_JJ_def rmd_FFF_def rmd_GGG_def rmd_HHH_def rmd_III_def rmd_JJJ_def
  rmd_F_def rmd_G_def rmd_H_def rmd_I_def rmd_J_def

lemma left_macros:
  assumes "0 < s" "s < 32"
  shows "rmd_mix (rmd_fun 0) (rmd_left 0) s x (a, b, c, d, e) = (case rmd_FF a b c d e x s of (a, c) \<Rightarrow> (e, a, b, c, d))"
    "rmd_mix (rmd_fun 1) (rmd_left 1) s x (a, b, c, d, e) = (case rmd_GG a b c d e x s of (a, c) \<Rightarrow> (e, a, b, c, d))"
    "rmd_mix (rmd_fun 2) (rmd_left 2) s x (a, b, c, d, e) = (case rmd_HH a b c d e x s of (a, c) \<Rightarrow> (e, a, b, c, d))"
    "rmd_mix (rmd_fun 3) (rmd_left 3) s x (a, b, c, d, e) = (case rmd_II a b c d e x s of (a, c) \<Rightarrow> (e, a, b, c, d))"
    "rmd_mix (rmd_fun 4) (rmd_left 4) s x (a, b, c, d, e) = (case rmd_JJ a b c d e x s of (a, c) \<Rightarrow> (e, a, b, c, d))"
  using assms by (simp_all add: rmd_mix_def rmd_fun_def rmd_left_def macro_defs rmd_ROL_eq add.assoc)

lemma right_macros:
  assumes "0 < s" "s < 32"
  shows "rmd_mix (rmd_fun 4) (rmd_right 0) s x (a, b, c, d, e) = (case rmd_JJJ a b c d e x s of (a, c) \<Rightarrow> (e, a, b, c, d))"
    "rmd_mix (rmd_fun 3) (rmd_right 1) s x (a, b, c, d, e) = (case rmd_III a b c d e x s of (a, c) \<Rightarrow> (e, a, b, c, d))"
    "rmd_mix (rmd_fun 2) (rmd_right 2) s x (a, b, c, d, e) = (case rmd_HHH a b c d e x s of (a, c) \<Rightarrow> (e, a, b, c, d))"
    "rmd_mix (rmd_fun 1) (rmd_right 3) s x (a, b, c, d, e) = (case rmd_GGG a b c d e x s of (a, c) \<Rightarrow> (e, a, b, c, d))"
    "rmd_mix (rmd_fun 0) (rmd_right 4) s x (a, b, c, d, e) = (case rmd_FFF a b c d e x s of (a, c) \<Rightarrow> (e, a, b, c, d))"
  using assms by (simp_all add: rmd_mix_def rmd_fun_def rmd_right_def macro_defs rmd_ROL_eq add.assoc)

lemma upt_16: "[0..<16] = [0, 1, 2, 3, 4, 5, 6, 7, 8, 9, 10, 11, 12, 13, 14, 15]"
  by (simp add: upt_rec)

lemma rho_powers: "(rmd_rho ^^ 0) x = x" "(rmd_rho ^^ 1) x = rmd_rho x" "(rmd_rho ^^ 2) x = rmd_rho (rmd_rho x)"
  "(rmd_rho ^^ 3) x = rmd_rho (rmd_rho (rmd_rho x))" "(rmd_rho ^^ 4) x = rmd_rho (rmd_rho (rmd_rho (rmd_rho x)))"
  by (simp_all add: numeral_eq_Suc)

lemmas rounds_simps = upt_16 rmd_left_step_def rmd_right_step_def rho_powers rho_powers(2) [unfolded One_nat_def]
  rmd_rho_def rmd_pi_def rmd_shift_def left_macros left_macros(2) [unfolded One_nat_def] right_macros
  right_macros(2,4) [unfolded One_nat_def]

lemma left_rounds:
  "fold (rmd_left_step X 0) [0..<16] (aa, bb, cc, dd, ee) =
    (case rmd_round1 X (aa, bb, cc, dd, ee) of (aa, bb, cc, dd, ee) \<Rightarrow> (ee, aa, bb, cc, dd))"
  "fold (rmd_left_step X 1) [0..<16] (ee, aa, bb, cc, dd) =
    (case rmd_round2 X (aa, bb, cc, dd, ee) of (aa, bb, cc, dd, ee) \<Rightarrow> (dd, ee, aa, bb, cc))"
  "fold (rmd_left_step X 2) [0..<16] (dd, ee, aa, bb, cc) =
    (case rmd_round3 X (aa, bb, cc, dd, ee) of (aa, bb, cc, dd, ee) \<Rightarrow> (cc, dd, ee, aa, bb))"
  "fold (rmd_left_step X 3) [0..<16] (cc, dd, ee, aa, bb) =
    (case rmd_round4 X (aa, bb, cc, dd, ee) of (aa, bb, cc, dd, ee) \<Rightarrow> (bb, cc, dd, ee, aa))"
  "fold (rmd_left_step X 4) [0..<16] (bb, cc, dd, ee, aa) =
    (case rmd_round5 X (aa, bb, cc, dd, ee) of (aa, bb, cc, dd, ee) \<Rightarrow> (aa, bb, cc, dd, ee))"
proof -
  show "fold (rmd_left_step X 0) [0..<16] (aa, bb, cc, dd, ee) =
    (case rmd_round1 X (aa, bb, cc, dd, ee) of (aa, bb, cc, dd, ee) \<Rightarrow> (ee, aa, bb, cc, dd))"
    by (simp add: rounds_simps rmd_round1_def split: prod.split)
  show "fold (rmd_left_step X 1) [0..<16] (ee, aa, bb, cc, dd) =
    (case rmd_round2 X (aa, bb, cc, dd, ee) of (aa, bb, cc, dd, ee) \<Rightarrow> (dd, ee, aa, bb, cc))"
    by (simp add: rounds_simps rmd_round2_def split: prod.split)
  show "fold (rmd_left_step X 2) [0..<16] (dd, ee, aa, bb, cc) =
    (case rmd_round3 X (aa, bb, cc, dd, ee) of (aa, bb, cc, dd, ee) \<Rightarrow> (cc, dd, ee, aa, bb))"
    by (simp add: rounds_simps rmd_round3_def split: prod.split)
  show "fold (rmd_left_step X 3) [0..<16] (cc, dd, ee, aa, bb) =
    (case rmd_round4 X (aa, bb, cc, dd, ee) of (aa, bb, cc, dd, ee) \<Rightarrow> (bb, cc, dd, ee, aa))"
    by (simp add: rounds_simps rmd_round4_def split: prod.split)
  show "fold (rmd_left_step X 4) [0..<16] (bb, cc, dd, ee, aa) =
    (case rmd_round5 X (aa, bb, cc, dd, ee) of (aa, bb, cc, dd, ee) \<Rightarrow> (aa, bb, cc, dd, ee))"
    by (simp add: rounds_simps rmd_round5_def split: prod.split)
qed

lemma right_rounds:
  "fold (rmd_right_step X 0) [0..<16] (aaa, bbb, ccc, ddd, eee) =
    (case rmd_parallel1 X (aaa, bbb, ccc, ddd, eee) of (aaa, bbb, ccc, ddd, eee) \<Rightarrow> (eee, aaa, bbb, ccc, ddd))"
  "fold (rmd_right_step X 1) [0..<16] (eee, aaa, bbb, ccc, ddd) =
    (case rmd_parallel2 X (aaa, bbb, ccc, ddd, eee) of (aaa, bbb, ccc, ddd, eee) \<Rightarrow> (ddd, eee, aaa, bbb, ccc))"
  "fold (rmd_right_step X 2) [0..<16] (ddd, eee, aaa, bbb, ccc) =
    (case rmd_parallel3 X (aaa, bbb, ccc, ddd, eee) of (aaa, bbb, ccc, ddd, eee) \<Rightarrow> (ccc, ddd, eee, aaa, bbb))"
  "fold (rmd_right_step X 3) [0..<16] (ccc, ddd, eee, aaa, bbb) =
    (case rmd_parallel4 X (aaa, bbb, ccc, ddd, eee) of (aaa, bbb, ccc, ddd, eee) \<Rightarrow> (bbb, ccc, ddd, eee, aaa))"
  "fold (rmd_right_step X 4) [0..<16] (bbb, ccc, ddd, eee, aaa) =
    (case rmd_parallel5 X (aaa, bbb, ccc, ddd, eee) of (aaa, bbb, ccc, ddd, eee) \<Rightarrow> (aaa, bbb, ccc, ddd, eee))"
proof -
  show "fold (rmd_right_step X 0) [0..<16] (aaa, bbb, ccc, ddd, eee) =
    (case rmd_parallel1 X (aaa, bbb, ccc, ddd, eee) of (aaa, bbb, ccc, ddd, eee) \<Rightarrow> (eee, aaa, bbb, ccc, ddd))"
    by (simp add: rounds_simps rmd_parallel1_def split: prod.split)
  show "fold (rmd_right_step X 1) [0..<16] (eee, aaa, bbb, ccc, ddd) =
    (case rmd_parallel2 X (aaa, bbb, ccc, ddd, eee) of (aaa, bbb, ccc, ddd, eee) \<Rightarrow> (ddd, eee, aaa, bbb, ccc))"
    by (simp add: rounds_simps rmd_parallel2_def split: prod.split)
  show "fold (rmd_right_step X 2) [0..<16] (ddd, eee, aaa, bbb, ccc) =
    (case rmd_parallel3 X (aaa, bbb, ccc, ddd, eee) of (aaa, bbb, ccc, ddd, eee) \<Rightarrow> (ccc, ddd, eee, aaa, bbb))"
    by (simp add: rounds_simps rmd_parallel3_def split: prod.split)
  show "fold (rmd_right_step X 3) [0..<16] (ccc, ddd, eee, aaa, bbb) =
    (case rmd_parallel4 X (aaa, bbb, ccc, ddd, eee) of (aaa, bbb, ccc, ddd, eee) \<Rightarrow> (bbb, ccc, ddd, eee, aaa))"
    by (simp add: rounds_simps rmd_parallel4_def split: prod.split)
  show "fold (rmd_right_step X 4) [0..<16] (bbb, ccc, ddd, eee, aaa) =
    (case rmd_parallel5 X (aaa, bbb, ccc, ddd, eee) of (aaa, bbb, ccc, ddd, eee) \<Rightarrow> (aaa, bbb, ccc, ddd, eee))"
    by (simp add: rounds_simps rmd_parallel5_def split: prod.split)
qed

lemma upt_5: "[0..<5] = [0, 1, 2, 3, 4]"
  by (simp add: upt_rec)

lemma line_left: "rmd_line (rmd_left_step X) v = rmd_round5 X (rmd_round4 X (rmd_round3 X (rmd_round2 X (rmd_round1 X v))))"
  by (cases v) (simp add: rmd_line_def upt_5 left_rounds left_rounds(2) [unfolded One_nat_def] split: prod.split)

lemma line_right:
  "rmd_line (rmd_right_step X) v = rmd_parallel5 X (rmd_parallel4 X (rmd_parallel3 X (rmd_parallel2 X (rmd_parallel1 X v))))"
  by (cases v) (simp add: rmd_line_def upt_5 right_rounds right_rounds(2) [unfolded One_nat_def] split: prod.split)

lemma rmd160_compress_eq: "rmd160_compress h (rmd_words block) = rmd_compress h block"
  by (simp add: rmd160_compress_def rmd_compress_def line_left line_right Let_def ac_simps split: prod.split)

section \<open>Equality of the padding\<close>

lemma length_rmd_words [simp]: "length (rmd_words b) = 16"
  by (simp add: rmd_words_def)

lemma le_load_4:
  "word_of_nat (le_load [a, b, c, d]) =
    (ucast a OR push_bit 8 (ucast b) OR push_bit 16 (ucast c) OR push_bit 24 (ucast d) :: u32)"
  using sha_load_eq [of "[d, c, b, a]"] by (simp add: sha_load_def be_load_def or.commute or.left_commute)

lemma take_4_drop: "n + 4 \<le> length b \<Longrightarrow> take 4 (drop n b) = [b ! n, b ! (n + 1), b ! (n + 2), b ! (n + 3)]"
  by (rule nth_equalityI) (auto simp: less_Suc_eq numeral_eq_Suc)

lemma nth_rmd_words:
  assumes "j < 16" "length b = 64"
  shows "rmd_words b ! j = ucast (b ! (4 * j)) OR push_bit 8 (ucast (b ! (4 * j + 1))) OR push_bit 16 (ucast (b ! (4 * j + 2))) OR
    push_bit 24 (ucast (b ! (4 * j + 3)))"
  using assms by (simp add: rmd_words_def take_4_drop le_load_4 del: le_load.simps)

lemma xor_or: "x AND y = 0 \<Longrightarrow> x XOR y = x OR y" for x y :: u32
  by (auto simp: bit_eq_iff bit_simps)

lemma xor_byte:
  fixes a b c d v :: u8
  shows "(push_bit 8 (ucast b) OR push_bit 16 (ucast c) OR push_bit 24 (ucast d)) XOR ucast v =
      (ucast v OR push_bit 8 (ucast b) OR push_bit 16 (ucast c) OR push_bit 24 (ucast d) :: u32)"
    "(ucast a OR push_bit 16 (ucast c) OR push_bit 24 (ucast d)) XOR push_bit 8 (ucast v) =
      (ucast a OR push_bit 8 (ucast v) OR push_bit 16 (ucast c) OR push_bit 24 (ucast d) :: u32)"
    "(ucast a OR push_bit 8 (ucast b) OR push_bit 24 (ucast d)) XOR push_bit 16 (ucast v) =
      (ucast a OR push_bit 8 (ucast b) OR push_bit 16 (ucast v) OR push_bit 24 (ucast d) :: u32)"
    "(ucast a OR push_bit 8 (ucast b) OR push_bit 16 (ucast c)) XOR push_bit 24 (ucast v) =
      (ucast a OR push_bit 8 (ucast b) OR push_bit 16 (ucast c) OR push_bit 24 (ucast v) :: u32)"
  by (subst xor_or, (rule bit_word_eqI; auto simp: bit_simps dest!: bit_imp_le_length), simp add: ac_simps)+

text \<open>Filling in a byte that is still zero.\<close>

lemma put_byte_words:
  assumes "length b = 64" "i < 64" "b ! i = 0"
  shows "put_byte i v (rmd_words b) = rmd_words (b[i := v])"
proof (rule nth_equalityI)
  fix j assume "j < length (put_byte i v (rmd_words b))"
  then have j: "j < 16" by (simp add: put_byte_def)
  show "put_byte i v (rmd_words b) ! j = rmd_words (b[i := v]) ! j"
  proof (cases "j = i div 4")
    case True
    have i: "i = 4 * j + i mod 4" using True by simp
    have "i mod 4 < 4" by simp
    then consider "i mod 4 = 0" | "i mod 4 = 1" | "i mod 4 = 2" | "i mod 4 = 3" by linarith
    then show ?thesis
      using i j assms True by cases (simp_all add: put_byte_def nth_rmd_words xor_byte)
  next
    case False
    then have "i \<noteq> 4 * j" "i \<noteq> 4 * j + 1" "i \<noteq> 4 * j + 2" "i \<noteq> 4 * j + 3" by auto
    then show ?thesis using False j assms by (simp add: put_byte_def nth_rmd_words)
  qed
qed (simp add: put_byte_def)

lemma put_bytes:
  assumes "length p < 64"
  shows "k \<le> length p \<Longrightarrow> fold (\<lambda>i. put_byte i (p ! i)) [0..<k] (replicate 16 0) = rmd_words (take k p @ replicate (64 - k) 0)"
proof (induction k)
  case 0
  have "replicate 16 0 = rmd_words (replicate 64 0)"
    by (rule nth_equalityI) (simp_all add: nth_rmd_words)
  then show ?case by simp
next
  case (Suc k)
  then have "(take k p @ replicate (64 - k) 0)[k := p ! k] = take (Suc k) p @ replicate (64 - Suc k) 0"
    using assms by (simp add: list_update_append take_Suc_conv_app_nth Suc_diff_Suc [symmetric] del: replicate.simps)
      (simp add: Suc_diff_Suc)
  then show ?case using Suc assms by (simp add: put_byte_words nth_append)
qed

lemma le_store_split: "le_store (j + k) n = le_store j n @ le_store k (n div 256 ^ j)"
  by (induction j arbitrary: n) (simp_all add: div_mult2_eq)

lemma rmd_words_length:
  assumes "length q = 56" "n < 2 ^ 32"
  shows "(rmd_words (q @ replicate 8 0))[14 := push_bit 3 (word_of_nat n), 15 := drop_bit 29 (word_of_nat n)] =
    rmd_words (q @ le_store 8 (8 * n))"
proof (rule nth_equalityI)
  fix j assume "j < length ((rmd_words (q @ replicate 8 0))[14 := push_bit 3 (word_of_nat n), 15 := drop_bit 29 (word_of_nat n)])"
  then have "j < 16" by simp
  then consider "j < 14" | "j = 14" | "j = 15" by linarith
  then show "(rmd_words (q @ replicate 8 0))[14 := push_bit 3 (word_of_nat n), 15 := drop_bit 29 (word_of_nat n)] ! j =
    rmd_words (q @ le_store 8 (8 * n)) ! j"
  proof cases
    case 1
    then show ?thesis using assms by (simp add: nth_rmd_words nth_append)
  next
    case 2
    have "le_store 8 (8 * n) = le_store 4 (8 * n) @ le_store 4 (8 * n div 256 ^ 4)" using le_store_split [of 4 4 "8 * n"] by simp
    moreover have "word_of_nat (8 * n mod 4294967296) = (word_of_nat (8 * n) :: u32)"
      by (simp only: word_of_nat_eq_iff) (simp add: take_bit_eq_mod)
    ultimately show ?thesis using 2 assms by (simp add: rmd_words_def le_load_store push_bit_eq_mult)
  next
    case 3
    have "le_store 8 (8 * n) = le_store 4 (8 * n) @ le_store 4 (8 * n div 256 ^ 4)" using le_store_split [of 4 4 "8 * n"] by simp
    moreover have "drop_bit 29 (word_of_nat n) = (word_of_nat (8 * n div 256 ^ 4) :: u32)"
      using assms(2) by (simp add: word_unat_eq_iff drop_bit_eq_div unat_div_distrib unsigned_of_nat take_bit_nat_eq_self less_imp_diff_less)
    ultimately show ?thesis using 3 assms by (simp add: rmd_words_def le_load_store)
  qed
qed simp

lemma unat_and_mask: "unat (w AND 63) = unat w mod 64" "unat (w AND 15) = unat w mod 16" "unat (w AND 3) = unat w mod 4" for w :: u32
proof -
  have "w AND 63 = take_bit 6 w" "w AND 15 = take_bit 4 w" "w AND 3 = take_bit 2 w"
    by (simp_all add: take_bit_eq_mask mask_eq_exp_minus_1)
  then show "unat (w AND 63) = unat w mod 64" "unat (w AND 15) = unat w mod 16" "unat (w AND 3) = unat w mod 4"
    by (simp_all add: take_bit_eq_mod unat_mod_distrib)
qed

lemma rmd160_finish_eq:
  assumes "length p = n mod 64" and "n < 2 ^ 32"
  shows "rmd160_finish buf p (word_of_nat n) 0 = foldl rmd_compress buf (blocks (padded (le_store 8 (8 * n)) p))"
proof -
  let ?w = "word_of_nat n :: u32"
  have u: "unat ?w = n" using assms(2) by (simp add: unsigned_of_nat take_bit_nat_eq_self)
  have p: "length p < 64" using assms(1) by simp
  have low: "unat (?w AND 63) = length p" using u assms(1) by (simp add: unat_and_mask)
  have k: "unat (drop_bit 2 ?w AND 15) = length p div 4"
    using u assms(1) mod_mult2_eq [of n 4 16] by (simp add: unat_and_mask drop_bit_eq_div unat_div_distrib)
  have bit: "push_bit (unat (8 * (?w AND 3) + 7)) 1 = (push_bit (8 * (length p mod 4)) (ucast (0x80 :: u8)) :: u32)"
  proof -
    have "unat (8 * (?w AND 3) + 7) = 8 * (length p mod 4) + 7"
      using u assms(1) by (simp add: unat_word_ariths unat_and_mask mod_mod_cancel)
    moreover have "(ucast (0x80 :: u8) :: u32) = push_bit 7 1" by simp
    ultimately show ?thesis by (simp only: push_bit_push_bit)
  qed
  let ?b = "p @ [0x80] @ replicate (63 - length p) 0"
  have X: "(fold (\<lambda>i. put_byte i (p ! i)) [0..<length p] (replicate 16 0))[length p div 4 :=
      fold (\<lambda>i. put_byte i (p ! i)) [0..<length p] (replicate 16 0) ! (length p div 4) XOR
      push_bit (8 * (length p mod 4)) (ucast (0x80 :: u8))] = rmd_words ?b"
  proof -
    have "replicate (64 - length p) (0 :: u8) = 0 # replicate (63 - length p) 0"
      using p by (simp add: Suc_diff_Suc flip: replicate_Suc)
    then have "(p @ replicate (64 - length p) 0)[length p := 0x80] = ?b" by (simp add: list_update_append)
    then show ?thesis
      using put_byte_words [of "p @ replicate (64 - length p) 0" "length p" 128] put_bytes [OF p order_refl] p
      by (simp add: put_byte_def nth_append)
  qed
  have gt: "?w AND 63 > 55 \<longleftrightarrow> length p > 55" using low by (simp add: word_less_nat_alt)
  show ?thesis
  proof (cases "length p < 56")
    case True
    have "?b = (p @ [0x80] @ replicate (55 - length p) 0) @ replicate 8 0" using True by (simp flip: replicate_add)
    then show ?thesis
      using True X gt low k bit rmd_words_length [of "p @ [0x80] @ replicate (55 - length p) 0" n] assms(2)
      by (simp add: rmd160_finish_def blocks_one padded_short rmd160_compress_eq)
  next
    case False
    have "replicate 16 0 = rmd_words (replicate 56 0 @ replicate 8 0)"
      using put_bytes [of "[]" 0] by (simp flip: replicate_add)
    then show ?thesis
      using False p X gt low k bit rmd_words_length [of "replicate 56 0" n] assms(2)
      by (simp add: rmd160_finish_def padded_long rmd160_compress_eq)
  qed
qed

lemma load_words: "64 \<le> length ptr \<Longrightarrow> map (\<lambda>i. load_little_u32 (drop (4 * i) ptr)) [0..<16] = rmd_words (take 64 ptr)"
  by (auto simp: rmd_words_def load_little_u32_def drop_take min_def)

lemma ripemd_blocks_eq:
  "ripemd_blocks buf ptr = (buf', q) \<Longrightarrow> length q = length ptr mod 64 \<and>
    foldl rmd_compress buf (blocks (padded len ptr)) = foldl rmd_compress buf' (blocks (padded len q))"
proof (induction buf ptr rule: ripemd_blocks.induct)
  case (1 buf ptr)
  show ?case
  proof (cases "64 \<le> length ptr")
    case True
    then have "ripemd_blocks (rmd160_compress buf (map (\<lambda>i. load_little_u32 (drop (4 * i) ptr)) [0..<16])) (drop 64 ptr) = (buf', q)"
      using "1.prems" by (simp add: ripemd_blocks.simps [of buf ptr])
    then show ?thesis using "1.IH" True by (simp add: load_words rmd160_compress_eq padded_drop le_mod_geq)
  next
    case False
    then show ?thesis using "1.prems" by (simp add: ripemd_blocks.simps [of buf ptr])
  qed
qed

lemma ripemd_store_eq: "ripemd_store v = le_store 4 (unat v)"
  using arg_cong [OF sha_store_eq [of v], of rev] by (simp add: ripemd_store_def sha_store_def be_store_eq_rev_le)

text \<open>The added constants are the integer parts of \<open>2\<^sup>3\<^sup>0\<close> times square and cube roots of primes.\<close>

definition root_part :: "nat \<Rightarrow> nat \<Rightarrow> u32 \<Rightarrow> bool" where
  "root_part q p k \<longleftrightarrow> unat k ^ q \<le> p * 2 ^ (30 * q) \<and> p * 2 ^ (30 * q) < (unat k + 1) ^ q"

lemma rmd_constants:
  "list_all2 (root_part 2) [2, 3, 5, 7] (map rmd_left [1, 2, 3, 4])" "list_all2 (root_part 3) [2, 3, 5, 7] (map rmd_right [0, 1, 2, 3])"
  by (simp_all add: rmd_left_def rmd_right_def root_part_def)

lemma calculate_ripemd_160_eq:
  assumes "length m < 2 ^ 32"
  shows "calculate_ripemd_160 m = ripemd160_spec m"
proof -
  obtain buf q where bq: "ripemd_blocks rmd160_init m = (buf, q)" by fastforce
  then have "rmd160_finish buf q (word_of_nat (length m)) 0 =
      foldl rmd_compress rmd160_init (blocks (padded (le_store 8 (8 * length m)) m))"
    using ripemd_blocks_eq [OF bq, of "le_store 8 (8 * length m)"] rmd160_finish_eq [of q "length m" buf] assms by simp
  then show ?thesis using bq by (simp add: calculate_ripemd_160_def ripemd160_spec_def ripemd_store_eq [abs_def])
qed

section \<open>Properties\<close>

text \<open>
  C35. On inputs of less than \<open>2\<^sup>3\<^sup>2\<close> bytes \<open>calculate_ripemd_160\<close> is RIPEMD-160: the 160 unrolled steps of the code
  are the two lines of five rounds of the reference, with the message order generated by the permutations
  \<open>rho\<close> and \<open>pi\<close>, and the words that \<open>rmd160_finish\<close> assembles are those of the padded message.
\<close>

theorem calculate_ripemd_160_correct:
  assumes "length m < 2 ^ 32"
  shows "calculate_ripemd_160 m = ripemd160_spec m \<and> list_all2 (root_part 2) [2, 3, 5, 7] (map rmd_left [1, 2, 3, 4]) \<and>
    list_all2 (root_part 3) [2, 3, 5, 7] (map rmd_right [0, 1, 2, 3])"
  using calculate_ripemd_160_eq [OF assms] rmd_constants by simp

theorem calculate_ripemd_160_correct_witness: "calculate_ripemd_160 [0x61, 0x62, 0x63] = ripemd160_spec [0x61, 0x62, 0x63]"
  using calculate_ripemd_160_correct [of "[0x61, 0x62, 0x63]"] by simp

end
