(* ===== verification/Precompiled.thy ===== *)
theory Precompiled
  imports Util Ecdsa Config Ripemd160
begin

text \<open>
  core/silkworm/execution/precompiled.hpp and precompiled.cpp, crypto/snark.cpp and crypto/blake2b-ref.c: gas and
  results of the precompiled contracts.

  The libraries are parameters: secp256k1, GMP (\<open>gmp_ops\<close>) and libff (\<open>libff_ops\<close>), and so are Keccak and what the
  stack holds for SHA-256.  A result \<open>Some (Some out)\<close> is the output of a contract and \<open>Some None\<close> its
  failure; \<open>None\<close> is a read outside the input, or the exception of \<open>substr\<close> or \<open>at\<close>, which ends the program
  since the functions are \<open>noexcept\<close>.  The assertions on lengths in snark.cpp are those of debug builds and left out.
\<close>

unbundle bit_operations_syntax

section \<open>Gas and results of the simple contracts\<close>

text \<open>Reading \<open>n\<close> bytes of memory from a position on, and \<open>substr\<close>, which cuts its length at the end of the view.\<close>

definition read_at :: "bytes \<Rightarrow> nat \<Rightarrow> nat \<Rightarrow> bytes option" where
  "read_at mem pos n = (if pos + n \<le> length mem then Some (take n (drop pos mem)) else None)"

definition substr :: "bytes \<Rightarrow> nat \<Rightarrow> nat \<Rightarrow> bytes option" where
  "substr view pos n = (if pos \<le> length view then Some (take n (drop pos view)) else None)"

definition load_be :: "bytes \<Rightarrow> u256" where
  "load_be bs = word_of_nat (be_load (take 32 bs))"

definition ecrec_gas :: "bytes \<Rightarrow> evmc_revision \<Rightarrow> u64" where
  "ecrec_gas input rv = 3000"

definition ecrec_run :: "(bytes \<Rightarrow> bytes32) \<Rightarrow> ('sig, 'key) secp256k1 \<Rightarrow> bytes \<Rightarrow> bytes option option" where
  "ecrec_run keccak lib input =
     (let d = (if length input < 128 then resize 128 0 input else input)
      in Option.bind (read_at d 32 32) (\<lambda>v.
         Option.bind (read_at d 64 32) (\<lambda>r.
         Option.bind (read_at d 96 32) (\<lambda>s.
         if \<not> is_valid_signature (load_be r) (load_be s) False then Some (Some [])
         else
           let y = v_to_y_parity_and_chain_id (load_be v)
           in if y_chain_id y \<noteq> None then Some (Some [])
              else
                Option.bind (substr d 0 32) (\<lambda>message.
                Option.bind (substr d 64 64) (\<lambda>signature.
                case recover lib message signature (odd_parity y) of
                  None \<Rightarrow> Some (Some [])
                | Some [] \<Rightarrow> None
                | Some (b # key) \<Rightarrow>
                    if b \<noteq> 4 then Some (Some [])
                    else Some (Some (replicate 12 0 @ drop 12 (full_view_bytes32 (keccak key))))))))))"

definition words_of :: "bytes \<Rightarrow> u64" where
  "words_of input = (word_of_nat (length input) + 31) div 32"

definition sha256_gas :: "bytes \<Rightarrow> evmc_revision \<Rightarrow> u64" where
  "sha256_gas input rv = 60 + 12 * words_of input"

definition sha256_run :: "(u32 list \<Rightarrow> u32 list) \<Rightarrow> bytes \<Rightarrow> bytes option option" where
  "sha256_run stack input = Some (Some (calc_sha_256 stack input))"

definition rip160_gas :: "bytes \<Rightarrow> evmc_revision \<Rightarrow> u64" where
  "rip160_gas input rv = 600 + 120 * words_of input"

definition rip160_run :: "bytes \<Rightarrow> bytes option option" where
  "rip160_run input = Some (Some (replicate 12 0 @ calculate_ripemd_160 input))"

definition id_gas :: "bytes \<Rightarrow> evmc_revision \<Rightarrow> u64" where
  "id_gas input rv = 15 + 3 * words_of input"

definition id_run :: "bytes \<Rightarrow> bytes option option" where
  "id_run input = Some (Some input)"

section \<open>Modular exponentiation\<close>

definition mult_complexity_eip198 :: "u256 \<Rightarrow> u256" where
  "mult_complexity_eip198 x =
     (if x \<le> 64 then x * x
      else if x \<le> 1024 then drop_bit 2 (x * x) + 96 * x - 3072
      else drop_bit 4 (x * x) + 480 * x - 199680)"

definition mult_complexity_eip2565 :: "u256 \<Rightarrow> u256" where
  "mult_complexity_eip2565 max_length = (let words = drop_bit 3 (max_length + 7) in words * words)"

text \<open>\<open>count_significant_words<uint64_t>(x) > 1\<close>\<close>

definition exceeds_word :: "u256 \<Rightarrow> bool" where
  "exceeds_word x \<longleftrightarrow> x \<ge> 2 ^ 64"

text \<open>The first 32 bytes of the exponent, from the input after the three lengths.\<close>

definition exp_head_of :: "bytes \<Rightarrow> u64 \<Rightarrow> u64 \<Rightarrow> u256" where
  "exp_head_of input base_len64 exp_len64 =
     (if length input > unat base_len64 then
        let exp_input = right_pad (drop (unat base_len64) input) 32;
            exp_input = (if exp_len64 < 32 then left_pad (take (unat exp_len64) exp_input) 32 else exp_input)
        in load_be exp_input
      else 0)"

definition adjusted_exponent_len :: "u256 \<Rightarrow> u256 \<Rightarrow> u256" where
  "adjusted_exponent_len exp_len256 exp_head =
     (let bit_length = 256 - clz exp_head;
          adjusted = (if exp_len256 > 32 then 8 * (exp_len256 - 32) else 0);
          adjusted = (if bit_length > 1 then adjusted + word_of_nat (bit_length - 1) else adjusted)
      in if adjusted < 1 then 1 else adjusted)"

definition expmod_gas256 :: "evmc_revision \<Rightarrow> u256 \<Rightarrow> u256 \<Rightarrow> u256" where
  "expmod_gas256 rv max_length adjusted =
     (if rv < EVMC_BERLIN then mult_complexity_eip198 max_length * adjusted div ucast kGQuadDivisorByzantium
      else mult_complexity_eip2565 max_length * adjusted div ucast kGQuadDivisorBerlin)"

definition expmod_gas :: "bytes \<Rightarrow> evmc_revision \<Rightarrow> u64" where
  "expmod_gas input rv =
     (let min_gas = (if rv < EVMC_BERLIN then 0 else 200 :: u64);
          input = right_pad input (3 * 32);
          base_len256 = load_be input;
          exp_len256 = load_be (drop 32 input);
          mod_len256 = load_be (drop 64 input)
      in if base_len256 = 0 \<and> mod_len256 = 0 then min_gas
         else if exceeds_word base_len256 \<or> exceeds_word exp_len256 \<or> exceeds_word mod_len256 then - 1
         else
           let exp_head = exp_head_of (drop (3 * 32) input) (ucast base_len256) (ucast exp_len256);
               gas = expmod_gas256 rv (max mod_len256 base_len256) (adjusted_exponent_len exp_len256 exp_head)
           in if exceeds_word gas then - 1 else max min_gas (ucast gas))"

record gmp_ops =
  mpz_import :: "bytes \<Rightarrow> nat"
  mpz_powm :: "nat \<Rightarrow> nat \<Rightarrow> nat \<Rightarrow> nat"
  mpz_export :: "nat \<Rightarrow> bytes"

definition load_big_u64 :: "bytes \<Rightarrow> u64" where
  "load_big_u64 bs = word_of_nat (be_load (take 8 bs))"

definition expmod_run :: "gmp_ops \<Rightarrow> bytes \<Rightarrow> bytes option option" where
  "expmod_run G input =
     (let input = right_pad input (3 * 32);
          base_len = load_big_u64 (drop 24 input);
          input = drop 32 input;
          exponent_len = load_big_u64 (drop 24 input);
          input = drop 32 input;
          modulus_len = load_big_u64 (drop 24 input);
          input = drop 32 input
      in if modulus_len = 0 then Some (Some [])
         else
           let input = right_pad input (unat (base_len + exponent_len + modulus_len))
           in if length input < unat base_len + unat exponent_len + unat modulus_len then None
              else
                let base = (if base_len \<noteq> 0 then mpz_import G (take (unat base_len) input) else 0);
                    input = drop (unat base_len) input;
                    exponent = (if exponent_len \<noteq> 0 then mpz_import G (take (unat exponent_len) input) else 0);
                    input = drop (unat exponent_len) input;
                    modulus = mpz_import G (take (unat modulus_len) input)
                in if modulus = 0 then Some (Some (replicate (unat modulus_len) 0))
                   else
                     let result = mpz_powm G base exponent modulus
                     in Some (Some (rev (resize (unat modulus_len) 0 (mpz_export G result)))))"

section \<open>The curve alt_bn128\<close>

record ('g1, 'g2, 'f) libff_ops =
  alt_bn128_modulus_q :: nat
  g1_zero :: 'g1
  g1_point :: "nat \<Rightarrow> nat \<Rightarrow> 'g1"
  g1_is_well_formed :: "'g1 \<Rightarrow> bool"
  g1_is_zero :: "'g1 \<Rightarrow> bool"
  g1_add :: "'g1 \<Rightarrow> 'g1 \<Rightarrow> 'g1"
  g1_mul :: "nat \<Rightarrow> 'g1 \<Rightarrow> 'g1"
  g1_affine :: "'g1 \<Rightarrow> nat \<times> nat"
  g2_zero :: 'g2
  g2_point :: "nat \<times> nat \<Rightarrow> nat \<times> nat \<Rightarrow> 'g2"
  g2_is_well_formed :: "'g2 \<Rightarrow> bool"
  g2_is_zero :: "'g2 \<Rightarrow> bool"
  g2_order_mul :: "'g2 \<Rightarrow> 'g2"
  fq12_one :: 'f
  fq12_mul :: "'f \<Rightarrow> 'f \<Rightarrow> 'f"
  miller_loop :: "'g1 \<Rightarrow> 'g2 \<Rightarrow> 'f"
  final_exponentiation :: "'f \<Rightarrow> 'f"

text \<open>\<open>&be[0]\<close> needs a byte.\<close>

definition to_scalar :: "bytes \<Rightarrow> nat option" where
  "to_scalar be = (if be = [] then None else Some (be_load be))"

definition valid_element_of_fp :: "('g1, 'g2, 'f) libff_ops \<Rightarrow> nat \<Rightarrow> bool" where
  "valid_element_of_fp L x \<longleftrightarrow> x < alt_bn128_modulus_q L"

definition decode_g1_element :: "('g1, 'g2, 'f) libff_ops \<Rightarrow> bytes \<Rightarrow> 'g1 option option" where
  "decode_g1_element L bytes64_be =
     Option.bind (Option.bind (substr bytes64_be 0 32) to_scalar) (\<lambda>x.
     if \<not> valid_element_of_fp L x then Some None
     else
       Option.bind (Option.bind (substr bytes64_be 32 32) to_scalar) (\<lambda>y.
       if \<not> valid_element_of_fp L y then Some None
       else if x = 0 \<and> y = 0 then Some (Some (g1_zero L))
       else
         let point = g1_point L x y
         in if \<not> g1_is_well_formed L point then Some None else Some (Some point)))"

definition decode_fp2_element :: "('g1, 'g2, 'f) libff_ops \<Rightarrow> bytes \<Rightarrow> (nat \<times> nat) option option" where
  "decode_fp2_element L bytes64_be =
     Option.bind (Option.bind (substr bytes64_be 32 32) to_scalar) (\<lambda>c0.
     Option.bind (Option.bind (substr bytes64_be 0 32) to_scalar) (\<lambda>c1.
     if \<not> valid_element_of_fp L c0 \<or> \<not> valid_element_of_fp L c1 then Some None else Some (Some (c0, c1))))"

definition decode_g2_element :: "('g1, 'g2, 'f) libff_ops \<Rightarrow> bytes \<Rightarrow> 'g2 option option" where
  "decode_g2_element L bytes128_be =
     Option.bind (Option.bind (substr bytes128_be 0 64) (decode_fp2_element L)) (\<lambda>x.
     case x of
       None \<Rightarrow> Some None
     | Some x \<Rightarrow>
         Option.bind (Option.bind (substr bytes128_be 64 64) (decode_fp2_element L)) (\<lambda>y.
         case y of
           None \<Rightarrow> Some None
         | Some y \<Rightarrow>
             if x = (0, 0) \<and> y = (0, 0) then Some (Some (g2_zero L))
             else
               let point = g2_point L x y
               in if \<not> g2_is_well_formed L point then Some None
                  else if \<not> g2_is_zero L (g2_order_mul L point) then Some None
                  else Some (Some point)))"

definition encode_g1_element :: "('g1, 'g2, 'f) libff_ops \<Rightarrow> 'g1 \<Rightarrow> bytes" where
  "encode_g1_element L p =
     (if g1_is_zero L p then replicate 64 0
      else case g1_affine L p of (x, y) \<Rightarrow> rev (le_store 32 y @ le_store 32 x))"

definition bn_add_gas :: "bytes \<Rightarrow> evmc_revision \<Rightarrow> u64" where
  "bn_add_gas input rv = (if rv \<ge> EVMC_ISTANBUL then 150 else 500)"

definition bn_add_run :: "('g1, 'g2, 'f) libff_ops \<Rightarrow> bytes \<Rightarrow> bytes option option" where
  "bn_add_run L input =
     (let input = right_pad input 128
      in Option.bind (Option.bind (substr input 0 64) (decode_g1_element L)) (\<lambda>x.
         case x of
           None \<Rightarrow> Some None
         | Some x \<Rightarrow>
             Option.bind (Option.bind (substr input 64 64) (decode_g1_element L)) (\<lambda>y.
             case y of
               None \<Rightarrow> Some None
             | Some y \<Rightarrow> Some (Some (encode_g1_element L (g1_add L x y))))))"

definition bn_mul_gas :: "bytes \<Rightarrow> evmc_revision \<Rightarrow> u64" where
  "bn_mul_gas input rv = (if rv \<ge> EVMC_ISTANBUL then 6000 else 40000)"

definition bn_mul_run :: "('g1, 'g2, 'f) libff_ops \<Rightarrow> bytes \<Rightarrow> bytes option option" where
  "bn_mul_run L input =
     (let input = right_pad input 96
      in Option.bind (Option.bind (substr input 0 64) (decode_g1_element L)) (\<lambda>x.
         case x of
           None \<Rightarrow> Some None
         | Some x \<Rightarrow>
             Option.bind (Option.bind (substr input 64 32) to_scalar) (\<lambda>n.
             Some (Some (encode_g1_element L (g1_mul L n x))))))"

definition kSnarkvStride :: nat where
  "kSnarkvStride = 192"

definition snarkv_gas :: "bytes \<Rightarrow> evmc_revision \<Rightarrow> u64" where
  "snarkv_gas input rv =
     (let k = word_of_nat (length input) div word_of_nat kSnarkvStride
      in if rv \<ge> EVMC_ISTANBUL then 34000 * k + 45000 else 80000 * k + 100000)"

fun snarkv_loop :: "('g1, 'g2, 'f) libff_ops \<Rightarrow> bytes \<Rightarrow> nat \<Rightarrow> nat \<Rightarrow> 'f \<Rightarrow> 'f option option" where
  "snarkv_loop L input i 0 accumulator = Some (Some accumulator)"
| "snarkv_loop L input i (Suc n) accumulator =
     Option.bind (Option.bind (substr input (i * kSnarkvStride) 64) (decode_g1_element L)) (\<lambda>a.
     case a of
       None \<Rightarrow> Some None
     | Some a \<Rightarrow>
         Option.bind (Option.bind (substr input (i * kSnarkvStride + 64) 128) (decode_g2_element L)) (\<lambda>b.
         case b of
           None \<Rightarrow> Some None
         | Some b \<Rightarrow>
             snarkv_loop L input (i + 1) n
               (if g1_is_zero L a \<or> g2_is_zero L b then accumulator
                else fq12_mul L accumulator (miller_loop L a b))))"

definition snarkv_run :: "('g1, 'g2, 'f) libff_ops \<Rightarrow> bytes \<Rightarrow> bytes option option" where
  "snarkv_run L input =
     (if length input mod kSnarkvStride \<noteq> 0 then Some None
      else
        map_option (map_option (\<lambda>accumulator.
            replicate 31 0 @ [if final_exponentiation L accumulator = fq12_one L then 1 else 0]))
          (snarkv_loop L input 0 (length input div kSnarkvStride) (fq12_one L)))"

section \<open>The compression function of BLAKE2b\<close>

record blake2b_state =
  b2_h :: "u64 list"
  b2_t :: "u64 list"
  b2_f :: "u64 list"

definition blake2b_IV :: "u64 list" where
  "blake2b_IV =
     [0x6a09e667f3bcc908, 0xbb67ae8584caa73b, 0x3c6ef372fe94f82b, 0xa54ff53a5f1d36f1,
      0x510e527fade682d1, 0x9b05688c2b3e6c1f, 0x1f83d9abfb41bd6b, 0x5be0cd19137e2179]"

definition blake2b_sigma :: "nat list list" where
  "blake2b_sigma =
     [[0, 1, 2, 3, 4, 5, 6, 7, 8, 9, 10, 11, 12, 13, 14, 15], [14, 10, 4, 8, 9, 15, 13, 6, 1, 12, 0, 2, 11, 7, 5, 3],
      [11, 8, 12, 0, 5, 2, 15, 13, 10, 14, 3, 6, 7, 1, 9, 4], [7, 9, 3, 1, 13, 12, 11, 14, 2, 6, 5, 10, 4, 0, 15, 8],
      [9, 0, 5, 7, 2, 4, 10, 15, 14, 1, 11, 12, 6, 8, 3, 13], [2, 12, 6, 10, 0, 11, 8, 3, 4, 13, 7, 5, 15, 14, 1, 9],
      [12, 5, 1, 15, 14, 13, 4, 10, 0, 7, 6, 3, 9, 2, 8, 11], [13, 11, 7, 14, 12, 1, 3, 9, 5, 0, 15, 4, 8, 6, 2, 10],
      [6, 15, 14, 9, 11, 3, 0, 8, 12, 2, 13, 7, 1, 4, 10, 5], [10, 2, 8, 4, 7, 6, 1, 5, 15, 11, 9, 14, 3, 12, 13, 0],
      [0, 1, 2, 3, 4, 5, 6, 7, 8, 9, 10, 11, 12, 13, 14, 15], [14, 10, 4, 8, 9, 15, 13, 6, 1, 12, 0, 2, 11, 7, 5, 3]]"

definition load64 :: "bytes \<Rightarrow> u64" where
  "load64 src = word_of_nat (le_load (take 8 src))"

definition rotr64 :: "u64 \<Rightarrow> nat \<Rightarrow> u64" where
  "rotr64 w c = drop_bit c w OR push_bit (64 - c) w"

text \<open>The macro \<open>G\<close> on the words at four indices of the working vector.\<close>

definition blake2b_G :: "u64 list \<Rightarrow> nat \<Rightarrow> nat \<Rightarrow> nat \<Rightarrow> nat \<Rightarrow> nat \<Rightarrow> nat \<Rightarrow> u64 list \<Rightarrow> u64 list" where
  "blake2b_G m r i ia ib ic jd v =
     (let a = v ! ia; b = v ! ib; c = v ! ic; d = v ! jd;
          a = a + b + m ! (blake2b_sigma ! r ! (2 * i + 0));
          d = rotr64 (d XOR a) 32;
          c = c + d;
          b = rotr64 (b XOR c) 24;
          a = a + b + m ! (blake2b_sigma ! r ! (2 * i + 1));
          d = rotr64 (d XOR a) 16;
          c = c + d;
          b = rotr64 (b XOR c) 63
      in v[ia := a, ib := b, ic := c, jd := d])"

definition blake2b_ROUND :: "u64 list \<Rightarrow> nat \<Rightarrow> u64 list \<Rightarrow> u64 list" where
  "blake2b_ROUND m r v =
     blake2b_G m r 7 3 4 9 14 (blake2b_G m r 6 2 7 8 13 (blake2b_G m r 5 1 6 11 12 (blake2b_G m r 4 0 5 10 15
       (blake2b_G m r 3 3 7 11 15 (blake2b_G m r 2 2 6 10 14 (blake2b_G m r 1 1 5 9 13 (blake2b_G m r 0 0 4 8 12 v)))))))"

fun blake2b_rounds :: "u64 list \<Rightarrow> nat \<Rightarrow> nat \<Rightarrow> u64 list \<Rightarrow> u64 list" where
  "blake2b_rounds m i 0 v = v"
| "blake2b_rounds m i (Suc n) v = blake2b_rounds m (i + 1) n (blake2b_ROUND m (i mod 10) v)"

definition blake2b_compress :: "blake2b_state \<Rightarrow> bytes \<Rightarrow> nat \<Rightarrow> blake2b_state" where
  "blake2b_compress S block r =
     (let m = map (\<lambda>i. load64 (drop (i * 8) block)) [0..<16];
          v = take 8 (b2_h S) @
            [blake2b_IV ! 0, blake2b_IV ! 1, blake2b_IV ! 2, blake2b_IV ! 3,
             blake2b_IV ! 4 XOR b2_t S ! 0, blake2b_IV ! 5 XOR b2_t S ! 1,
             blake2b_IV ! 6 XOR b2_f S ! 0, blake2b_IV ! 7 XOR b2_f S ! 1];
          v = blake2b_rounds m 0 r v
      in S\<lparr>b2_h := map (\<lambda>i. b2_h S ! i XOR v ! i XOR v ! (i + 8)) [0..<8]\<rparr>)"

definition load_big_u32 :: "bytes \<Rightarrow> u32" where
  "load_big_u32 bs = word_of_nat (be_load (take 4 bs))"

definition blake2_f_gas :: "bytes \<Rightarrow> evmc_revision \<Rightarrow> u64" where
  "blake2_f_gas input rv = (if length input < 4 then 0 else ucast (load_big_u32 input))"

text \<open>The words that \<open>memcpy\<close> leaves in an array.\<close>

definition words64 :: "bytes \<Rightarrow> u64 list" where
  "words64 bs = map (\<lambda>i. load64 (drop (i * 8) bs)) [0..<length bs div 8]"

definition blake2_f_run :: "bytes \<Rightarrow> bytes option option" where
  "blake2_f_run input =
     (if length input \<noteq> 213 then Some None
      else
        Option.bind (read_at input 212 1) (\<lambda>f.
        if hd f \<noteq> 0 \<and> hd f \<noteq> 1 then Some None
        else
          Option.bind (read_at input 4 64) (\<lambda>h.
          Option.bind (read_at input 68 128) (\<lambda>block.
          Option.bind (read_at input 196 16) (\<lambda>t.
          Option.bind (read_at input 0 4) (\<lambda>r.
          let state = \<lparr>b2_h = words64 h, b2_t = words64 t, b2_f = [if hd f \<noteq> 0 then - 1 else 0, 0]\<rparr>;
              state = blake2b_compress state block (unat (load_big_u32 r))
          in Some (Some (concat (map (\<lambda>w. le_store 8 (unat w)) (b2_h state))))))))))"

section \<open>The table of contracts\<close>

record ('sig, 'key, 'g1, 'g2, 'f) precompile_libs =
  pl_keccak256 :: "bytes \<Rightarrow> bytes32"
  pl_secp256k1 :: "('sig, 'key) secp256k1"
  pl_stack :: "u32 list \<Rightarrow> u32 list"
  pl_gmp :: gmp_ops
  pl_libff :: "('g1, 'g2, 'f) libff_ops"

definition kContracts ::
    "('sig, 'key, 'g1, 'g2, 'f) precompile_libs \<Rightarrow> ((bytes \<Rightarrow> evmc_revision \<Rightarrow> u64) \<times> (bytes \<Rightarrow> bytes option option)) list" where
  "kContracts P =
     [(ecrec_gas, ecrec_run (pl_keccak256 P) (pl_secp256k1 P)), (sha256_gas, sha256_run (pl_stack P)),
      (rip160_gas, rip160_run), (id_gas, id_run), (expmod_gas, expmod_run (pl_gmp P)),
      (bn_add_gas, bn_add_run (pl_libff P)), (bn_mul_gas, bn_mul_run (pl_libff P)), (snarkv_gas, snarkv_run (pl_libff P)),
      (blake2_f_gas, blake2_f_run)]"

end
