(* ===== verification/Precompiled_Correct.thy ===== *)
theory Precompiled_Correct
  imports Precompiled
begin

text \<open>
  Modular exponentiation: the gas is that of EIP-198 and EIP-2565 computed without bounds, and whenever it can
  be paid the contract reads inside its input and returns the power.
\<close>

section \<open>Reading an input that is padded with zeros\<close>

definition bytes_at :: "bytes \<Rightarrow> nat \<Rightarrow> nat \<Rightarrow> bytes" where
  "bytes_at input off n = take n (drop off input @ replicate n 0)"

lemma length_bytes_at [simp]: "length (bytes_at input off n) = n"
  by (simp add: bytes_at_def)

lemma nth_bytes_at: "i < n \<Longrightarrow> bytes_at input off n ! i = (if off + i < length input then input ! (off + i) else 0)"
  by (auto simp: bytes_at_def nth_append)

lemma right_pad_eq: "right_pad b n = b @ replicate (n - length b) 0"
  by (simp add: right_pad_def resize_def)

lemma take_drop_right_pad:
  "off + k \<le> max n (length b) \<Longrightarrow> take k (drop off (right_pad b n)) = bytes_at b off k"
  by (rule nth_equalityI) (auto simp: right_pad_eq nth_bytes_at nth_append)

lemma bytes_at_drop: "bytes_at (drop m input) off n = bytes_at input (m + off) n"
  by (rule nth_equalityI) (auto simp: nth_bytes_at add.assoc)

lemma bytes_at_right_pad: "bytes_at (right_pad b m) off n = bytes_at b off n"
  by (rule nth_equalityI) (auto simp: nth_bytes_at right_pad_eq nth_append)

lemma take_bytes_at: "k \<le> n \<Longrightarrow> take k (bytes_at input off n) = bytes_at input off k"
  by (rule nth_equalityI) (auto simp: nth_bytes_at)

lemma drop_bytes_at: "drop k (bytes_at input off n) = bytes_at input (off + k) (n - k)"
  by (rule nth_equalityI) (auto simp: nth_bytes_at add.assoc add.left_commute)

section \<open>Words and numbers\<close>

lemma drop_bit_word_of_nat: "n < 2 ^ LENGTH('a) \<Longrightarrow> drop_bit k (word_of_nat n :: 'a::len word) = word_of_nat (n div 2 ^ k)"
proof -
  assume n: "n < 2 ^ LENGTH('a)"
  then have "n div 2 ^ k < 2 ^ LENGTH('a)" by (meson div_le_dividend le_less_trans)
  with n show ?thesis by (simp add: word_unat_eq_iff unsigned_drop_bit_eq unsigned_of_nat take_bit_nat_eq_self flip: drop_bit_eq_div)
qed

lemma div_word_of_nat:
  "n < 2 ^ LENGTH('a) \<Longrightarrow> m < 2 ^ LENGTH('a) \<Longrightarrow> (word_of_nat n :: 'a::len word) div word_of_nat m = word_of_nat (n div m)"
proof -
  assume n: "n < 2 ^ LENGTH('a)" and m: "m < 2 ^ LENGTH('a)"
  then have "n div m < 2 ^ LENGTH('a)" by (meson div_le_dividend le_less_trans)
  with n m show ?thesis by (simp add: word_unat_eq_iff unat_div unsigned_of_nat take_bit_nat_eq_self)
qed

lemma word_of_nat_less:
  "m < 2 ^ LENGTH('a) \<Longrightarrow> n < 2 ^ LENGTH('a) \<Longrightarrow> (word_of_nat m :: 'a::len word) < word_of_nat n \<longleftrightarrow> m < n"
  "m < 2 ^ LENGTH('a) \<Longrightarrow> n < 2 ^ LENGTH('a) \<Longrightarrow> (word_of_nat m :: 'a::len word) \<le> word_of_nat n \<longleftrightarrow> m \<le> n"
  "m < 2 ^ LENGTH('a) \<Longrightarrow> n < 2 ^ LENGTH('a) \<Longrightarrow> (word_of_nat m :: 'a::len word) = word_of_nat n \<longleftrightarrow> m = n"
  by (simp_all add: word_less_nat_alt word_le_nat_alt word_unat_eq_iff unsigned_of_nat take_bit_nat_eq_self)

section \<open>The price\<close>

definition mult_complexity :: "evmc_revision \<Rightarrow> nat \<Rightarrow> nat" where
  "mult_complexity rv x =
     (if rv < EVMC_BERLIN then
        if x \<le> 64 then x ^ 2 else if x \<le> 1024 then x ^ 2 div 4 + 96 * x - 3072 else x ^ 2 div 16 + 480 * x - 199680
      else ((x + 7) div 8) ^ 2)"

definition adjusted_exponent_length :: "nat \<Rightarrow> nat \<Rightarrow> nat" where
  "adjusted_exponent_length len head = (if len \<le> 32 then 0 else 8 * (len - 32)) + (bit_len head - 1)"

text \<open>The three lengths, and base, exponent and modulus, of an input.\<close>

definition em_length :: "bytes \<Rightarrow> nat \<Rightarrow> nat" where
  "em_length input i = be_load (bytes_at input (32 * i) 32)"

definition em_base :: "bytes \<Rightarrow> nat" where
  "em_base input = be_load (bytes_at input 96 (em_length input 0))"

definition em_exponent :: "bytes \<Rightarrow> nat" where
  "em_exponent input = be_load (bytes_at input (96 + em_length input 0) (em_length input 1))"

definition em_head :: "bytes \<Rightarrow> nat" where
  "em_head input = be_load (bytes_at input (96 + em_length input 0) (min 32 (em_length input 1)))"

definition em_modulus :: "bytes \<Rightarrow> nat" where
  "em_modulus input = be_load (bytes_at input (96 + em_length input 0 + em_length input 1) (em_length input 2))"

definition expmod_price :: "bytes \<Rightarrow> evmc_revision \<Rightarrow> nat" where
  "expmod_price input rv =
     max (if rv < EVMC_BERLIN then 0 else 200)
       (mult_complexity rv (max (em_length input 2) (em_length input 0)) *
        max 1 (adjusted_exponent_length (em_length input 1) (em_head input)) div (if rv < EVMC_BERLIN then 20 else 3))"

lemma mult_complexity_word:
  assumes "x < 2 ^ 64"
  shows "(if rv < EVMC_BERLIN then mult_complexity_eip198 (word_of_nat x) else mult_complexity_eip2565 (word_of_nat x)) =
    word_of_nat (mult_complexity rv x)" "mult_complexity rv x < 2 ^ 129"
proof -
  have sq: "x ^ 2 < 2 ^ 128" using power_strict_mono [OF assms, of 2] by simp
  have eight: "((x + 7) div 8) ^ 2 \<le> (2 ^ 64) ^ 2" using assms by (intro power_mono) simp_all
  show bound: "mult_complexity rv x < 2 ^ 129" using sq assms eight by (auto simp: mult_complexity_def)
  have cmp: "(word_of_nat x :: u256) \<le> 64 \<longleftrightarrow> x \<le> 64" "(word_of_nat x :: u256) \<le> 1024 \<longleftrightarrow> x \<le> 1024"
    using word_of_nat_less(2) [where ?'a = 256, of x 64] word_of_nat_less(2) [where ?'a = 256, of x 1024] assms by simp_all
  have shift: "drop_bit k (word_of_nat x * word_of_nat x :: u256) = word_of_nat (x ^ 2 div 2 ^ k)" for k
    using drop_bit_word_of_nat [where ?'a = 256, of "x ^ 2" k] sq by (simp add: power2_eq_square)
  have mid: "(drop_bit 2 (word_of_nat x * word_of_nat x) + 96 * word_of_nat x - 3072 :: u256) = word_of_nat (x ^ 2 div 4 + 96 * x - 3072)"
    if "\<not> x \<le> 64"
    using that of_nat_diff [of 3072 "x ^ 2 div 4 + 96 * x", where ?'a = u256] unfolding shift by simp
  have high: "(drop_bit 4 (word_of_nat x * word_of_nat x) + 480 * word_of_nat x - 199680 :: u256) = word_of_nat (x ^ 2 div 16 + 480 * x - 199680)"
    if "\<not> x \<le> 1024"
    using that of_nat_diff [of 199680 "x ^ 2 div 16 + 480 * x", where ?'a = u256] unfolding shift by simp
  have "drop_bit 3 (word_of_nat x + 7 :: u256) = word_of_nat ((x + 7) div 8)"
    using drop_bit_word_of_nat [where ?'a = 256, of "x + 7" 3] assms by simp
  then show "(if rv < EVMC_BERLIN then mult_complexity_eip198 (word_of_nat x) else mult_complexity_eip2565 (word_of_nat x)) =
    word_of_nat (mult_complexity rv x)"
    using mid high cmp
    by (simp add: mult_complexity_def mult_complexity_eip198_def mult_complexity_eip2565_def power2_eq_square Let_def)
qed

lemma be_load_take_32: "load_be bs = word_of_nat (be_load (take 32 bs))"
  by (simp add: load_be_def)

lemma exp_head_correct:
  assumes "em_length input 0 < 2 ^ 64" "em_length input 1 < 2 ^ 64"
  shows "exp_head_of (drop 96 (right_pad input 96)) (word_of_nat (em_length input 0)) (word_of_nat (em_length input 1)) =
    word_of_nat (em_head input)"
proof -
  let ?B = "em_length input 0" and ?E = "em_length input 1" and ?in = "drop 96 (right_pad input 96)"
  have u: "unat (word_of_nat ?B :: u64) = ?B" "unat (word_of_nat ?E :: u64) = ?E"
    using assms by (simp_all add: unsigned_of_nat take_bit_nat_eq_self)
  have at: "bytes_at ?in ?B n = bytes_at input (96 + ?B) n" for n by (simp add: bytes_at_drop bytes_at_right_pad add.commute)
  have t: "take k (right_pad (drop ?B ?in) 32) = bytes_at input (96 + ?B) k" if "k \<le> 32" for k
    using take_drop_right_pad [of 0 k 32 "drop ?B ?in"] that by (simp add: bytes_at_drop bytes_at_right_pad add.commute)
  show ?thesis
  proof (cases "length ?in > ?B")
    case True
    show ?thesis
    proof (cases "?E < 32")
      case True
      then have "(word_of_nat ?E :: u64) < 32" using u(2) by (simp add: word_less_nat_alt)
      moreover have "length (left_pad (bytes_at input (96 + ?B) ?E) 32) = 32" using True by (simp add: left_pad_def)
      moreover have "be_load (left_pad (bytes_at input (96 + ?B) ?E) 32) = be_load (bytes_at input (96 + ?B) ?E)"
        by (simp add: left_pad_def)
      ultimately show ?thesis
        using \<open>length ?in > ?B\<close> True u t [of ?E] by (simp add: exp_head_of_def load_be_def em_head_def min_def)
    next
      case False
      then have "\<not> (word_of_nat ?E :: u64) < 32" using u(2) by (simp add: word_less_nat_alt)
      then show ?thesis
        using \<open>length ?in > ?B\<close> False u t [of 32] by (simp add: exp_head_of_def load_be_def em_head_def min_def)
    qed
  next
    case False
    then have "bytes_at ?in ?B n = replicate n 0" for n by (simp add: bytes_at_def)
    then have "be_load (bytes_at input (96 + ?B) n) = 0" for n using at [of n] be_load_zeros [of n "[]"] by simp
    then show ?thesis using False u by (simp add: exp_head_of_def em_head_def)
  qed
qed

lemma load_lengths:
  "load_be (right_pad input 96) = word_of_nat (em_length input 0)"
  "load_be (drop 32 (right_pad input 96)) = word_of_nat (em_length input 1)"
  "load_be (drop 64 (right_pad input 96)) = word_of_nat (em_length input 2)"
  using take_drop_right_pad [of 0 32 96 input] take_drop_right_pad [of 32 32 96 input] take_drop_right_pad [of 64 32 96 input]
  by (simp_all add: load_be_def em_length_def)

lemma em_head_bound: "em_head input < 2 ^ 256" "bit_len (em_head input) \<le> 256"
proof -
  show "em_head input < 2 ^ 256"
    using be_load_bound [of "bytes_at input (96 + em_length input 0) (min 32 (em_length input 1))" 32] by (simp add: em_head_def)
  then show "bit_len (em_head input) \<le> 256" by (simp add: bit_len_le_iff)
qed

text \<open>The adjusted length of the exponent as the code computes it.\<close>

lemma adjusted_word:
  assumes "len < 2 ^ 64" "head < 2 ^ 256"
  shows "adjusted_exponent_len (word_of_nat len) (word_of_nat head) = word_of_nat (max 1 (adjusted_exponent_length len head))"
    "max 1 (adjusted_exponent_length len head) < 2 ^ 68"
proof -
  have "bit_len head \<le> 256" using assms(2) by (simp add: bit_len_le_iff)
  moreover have "unat (word_of_nat head :: u256) = head" using assms(2) by (simp add: unsigned_of_nat take_bit_nat_eq_self)
  ultimately have bl: "256 - clz (word_of_nat head :: u256) = bit_len head" "bit_len head \<le> 256" by (simp_all add: clz_def)
  have gt: "(word_of_nat len :: u256) > 32 \<longleftrightarrow> len > 32"
    using word_of_nat_less(1) [where ?'a = 256, of 32 len] assms(1) by simp
  have a1: "(if (word_of_nat len :: u256) > 32 then 8 * (word_of_nat len - 32) else 0) =
      (word_of_nat (if len \<le> 32 then 0 else 8 * (len - 32)) :: u256)"
    unfolding gt by (auto simp: not_le of_nat_diff)
  show bound: "max 1 (adjusted_exponent_length len head) < 2 ^ 68"
    using assms(1) bl(2) by (auto simp: adjusted_exponent_length_def)
  let ?a = "word_of_nat (adjusted_exponent_length len head) :: u256"
  have "adjusted_exponent_len (word_of_nat len) (word_of_nat head) = (if ?a < 1 then 1 else ?a)"
    unfolding adjusted_exponent_len_def Let_def bl(1) a1 adjusted_exponent_length_def of_nat_add by simp
  moreover have "?a < 1 \<longleftrightarrow> adjusted_exponent_length len head < 1"
    using word_of_nat_less(1) [where ?'a = 256, of "adjusted_exponent_length len head" 1] bound by simp
  ultimately show "adjusted_exponent_len (word_of_nat len) (word_of_nat head) = word_of_nat (max 1 (adjusted_exponent_length len head))"
    by (cases "adjusted_exponent_length len head < 1") (simp_all add: max_def)
qed

lemma unat_max: "unat (max a b) = max (unat a) (unat b)" for a b :: "'a::len word"
  by (simp add: max_def word_le_nat_alt)

lemma capped:
  "x = (if e then 2 ^ 64 - 1 else max m u) \<Longrightarrow> (e \<longleftrightarrow> g \<ge> 2 ^ 64) \<Longrightarrow> (g < 2 ^ 64 \<Longrightarrow> u = g) \<Longrightarrow> m \<le> 200 \<Longrightarrow>
    x = min (2 ^ 64 - 1) (max m g)" for x m u g :: nat
  by auto

lemma expmod_gas_price:
  assumes "em_length input 0 < 2 ^ 64" "em_length input 1 < 2 ^ 64" "em_length input 2 < 2 ^ 64"
  shows "unat (expmod_gas input rv) = min (2 ^ 64 - 1) (expmod_price input rv)"
proof (cases "em_length input 0 = 0 \<and> em_length input 2 = 0")
  case True
  then show ?thesis
    by (simp add: expmod_gas_def Let_def load_lengths expmod_price_def mult_complexity_def)
next
  case False
  let ?B = "em_length input 0" and ?E = "em_length input 1" and ?M = "em_length input 2" and ?h = "em_head input"
  let ?x = "max ?M ?B" and ?D = "if rv < EVMC_BERLIN then 20 else 3 :: nat" and ?m = "if rv < EVMC_BERLIN then 0 else 200 :: nat"
  let ?C = "mult_complexity rv ?x" and ?A = "max 1 (adjusted_exponent_length ?E ?h)"
  have x: "?x < 2 ^ 64" using assms by simp
  have zero: "\<not> ((word_of_nat ?B :: u256) = 0 \<and> (word_of_nat ?M :: u256) = 0)"
    using False word_of_nat_less(3) [where ?'a = 256, of ?B 0] word_of_nat_less(3) [where ?'a = 256, of ?M 0] assms by simp
  have fits: "\<not> exceeds_word (word_of_nat ?B)" "\<not> exceeds_word (word_of_nat ?E)" "\<not> exceeds_word (word_of_nat ?M)"
    using assms word_of_nat_less(2) [where ?'a = 256, of "2 ^ 64"] by (simp_all add: exceeds_word_def)
  have three_words: "3 * 32 = (96 :: nat)" by simp
  have maxw: "max (word_of_nat ?M) (word_of_nat ?B) = (word_of_nat ?x :: u256)"
    using assms word_of_nat_less(2) [where ?'a = 256, of ?M ?B] by (auto simp: max_def)
  have narrow: "ucast (word_of_nat n :: u256) = (word_of_nat n :: u64)" if "n < 2 ^ 64" for n
    using that by (simp add: word_unat_eq_iff unsigned_ucast_eq unsigned_of_nat take_bit_nat_eq_self)
  have head: "exp_head_of (drop 96 (right_pad input 96)) (ucast (word_of_nat ?B :: u256)) (ucast (word_of_nat ?E :: u256)) = word_of_nat ?h"
    using exp_head_correct [OF assms(1,2)] narrow [OF assms(1)] narrow [OF assms(2)] by simp
  have C: "?C < 2 ^ 129" by (rule mult_complexity_word(2) [OF x])
  have A: "?A < 2 ^ 68" by (rule adjusted_word(2) [OF assms(2) em_head_bound(1)])
  have CA: "?C * ?A < 2 ^ 197" using mult_strict_mono [OF C A] by simp
  then have q: "?C * ?A div ?D < 2 ^ 197" by (meson div_le_dividend le_less_trans)
  have gas: "expmod_gas256 rv (word_of_nat ?x) (word_of_nat ?A) = word_of_nat (?C * ?A div ?D)"
    using mult_complexity_word(1) [OF x, of rv] div_word_of_nat [where ?'a = 256, of "?C * ?A" ?D] CA
    by (simp add: expmod_gas256_def kGQuadDivisorByzantium_def kGQuadDivisorBerlin_def split: if_splits)
  let ?g = "?C * ?A div ?D"
  have all_ones: "unat (- 1 :: u64) = 2 ^ 64 - 1" by (simp add: unsigned_minus_1_eq_mask mask_eq_exp_minus_1)
  have "expmod_gas input rv = (if exceeds_word (word_of_nat ?g) then - 1
      else max (if rv < EVMC_BERLIN then 0 else 200) (ucast (word_of_nat ?g :: u256)))"
    unfolding expmod_gas_def Let_def three_words load_lengths head maxw adjusted_word(1) [OF assms(2) em_head_bound(1) [of input]] gas
    using zero fits by (simp only: if_False simp_thms)
  then have "unat (expmod_gas input rv) = (if exceeds_word (word_of_nat ?g) then 2 ^ 64 - 1
      else max ?m (unat (ucast (word_of_nat ?g :: u256) :: u64)))"
    using all_ones by (simp add: unat_max)
  moreover have "exceeds_word (word_of_nat ?g) \<longleftrightarrow> ?g \<ge> 2 ^ 64"
    using q word_of_nat_less(2) [where ?'a = 256, of "2 ^ 64" ?g] by (simp add: exceeds_word_def)
  moreover have "unat (ucast (word_of_nat ?g :: u256) :: u64) = ?g" if "?g < 2 ^ 64"
    using that by (simp add: unsigned_ucast_eq unsigned_of_nat take_bit_nat_eq_self)
  moreover have "?m \<le> 200" by (cases "rv < EVMC_BERLIN") simp_all
  ultimately show ?thesis unfolding expmod_price_def by (rule capped)
qed

section \<open>The result\<close>

text \<open>The documented behaviour of GMP: import, modular power, and export without leading zeros.\<close>

locale gmp =
  fixes G :: gmp_ops
  assumes import: "mpz_import G bs = be_load bs"
    and powm: "m \<noteq> 0 \<Longrightarrow> mpz_powm G b e m = b ^ e mod m"
    and export: "mpz_export G n = rev (be_min n)"
begin

lemma export_padded: "n < 256 ^ k \<Longrightarrow> rev (resize k 0 (mpz_export G n)) = be_store k n"
proof -
  assume n: "n < 256 ^ k"
  then have len: "length (be_min n) \<le> k" by (simp add: length_be_min_le_iff)
  have "rev (resize k 0 (mpz_export G n)) = replicate (k - length (be_min n)) 0 @ be_min n"
    using len by (auto simp: export resize_def)
  also have "\<dots> = be_store k n"
    using be_store_load [of "replicate (k - length (be_min n)) 0 @ be_min n"] len by (simp add: be_load_be_min)
  finally show ?thesis .
qed

lemma expmod_run_value:
  assumes "em_length input 0 < 2 ^ 64" "em_length input 1 < 2 ^ 64" "em_length input 2 < 2 ^ 64"
    and "em_length input 2 = 0 \<or> em_length input 0 + em_length input 1 + em_length input 2 < 2 ^ 64"
  shows "expmod_run G input = Some (Some (be_store (em_length input 2)
    (if em_modulus input = 0 then 0 else em_base input ^ em_exponent input mod em_modulus input)))"
proof -
  let ?B = "em_length input 0" and ?E = "em_length input 1" and ?M = "em_length input 2"
  let ?in = "right_pad input 96"
  have len: "load_big_u64 (drop 24 (drop (32 * i) ?in)) = word_of_nat (em_length input i)" if "i < 3" "em_length input i < 2 ^ 64" for i
  proof -
    have "take 8 (drop 24 (drop (32 * i) ?in)) = bytes_at input (32 * i + 24) 8"
      using take_drop_right_pad [of "32 * i + 24" 8 96 input] that by (simp add: add.commute)
    moreover have "bytes_at input (32 * i) 32 = bytes_at input (32 * i) 24 @ bytes_at input (32 * i + 24) 8"
      using append_take_drop_id [of 24 "bytes_at input (32 * i) 32"] by (simp add: take_bytes_at drop_bytes_at)
    then have "em_length input i = be_load (bytes_at input (32 * i) 24) * 256 ^ 8 + be_load (bytes_at input (32 * i + 24) 8)"
      by (simp add: em_length_def be_load_append)
    moreover have "be_load (bytes_at input (32 * i) 24) = 0" using calculation(2) that(2) by (cases "be_load (bytes_at input (32 * i) 24)") simp_all
    ultimately show ?thesis by (simp add: load_big_u64_def)
  qed
  have lens: "load_big_u64 (drop 24 ?in) = word_of_nat ?B" "load_big_u64 (drop 24 (drop 32 ?in)) = word_of_nat ?E"
    "load_big_u64 (drop 24 (drop 32 (drop 32 ?in))) = word_of_nat ?M"
    using len [of 0] len [of 1] len [of 2] assms(1-3) by simp_all
  have u: "unat (word_of_nat ?B :: u64) = ?B" "unat (word_of_nat ?E :: u64) = ?E" "unat (word_of_nat ?M :: u64) = ?M"
    using assms(1-3) by (simp_all add: unsigned_of_nat take_bit_nat_eq_self)
  have z: "(word_of_nat ?B :: u64) = 0 \<longleftrightarrow> ?B = 0" "(word_of_nat ?E :: u64) = 0 \<longleftrightarrow> ?E = 0" "(word_of_nat ?M :: u64) = 0 \<longleftrightarrow> ?M = 0"
    using u by (simp_all add: word_unat_eq_iff)
  show ?thesis
  proof (cases "?M = 0")
    case True
    then show ?thesis using lens(3) by (simp add: expmod_run_def Let_def)
  next
    case False
    then have sum: "unat (word_of_nat ?B + word_of_nat ?E + word_of_nat ?M :: u64) = ?B + ?E + ?M"
      using assms(4) by (simp add: unsigned_of_nat take_bit_nat_eq_self flip: of_nat_add)
    let ?p = "right_pad (drop 32 (drop 32 (drop 32 ?in))) (?B + ?E + ?M)"
    have at: "take n (drop off ?p) = bytes_at input (96 + off) n" if "off + n \<le> ?B + ?E + ?M" for off n
      using take_drop_right_pad [of off n "?B + ?E + ?M" "drop 96 ?in"] that
      by (simp add: bytes_at_drop bytes_at_right_pad)
    have long: "\<not> length ?p < ?B + ?E + ?M" by (simp add: right_pad_eq)
    have b: "(if ?B \<noteq> 0 then mpz_import G (take ?B ?p) else 0) = em_base input"
      using at [of 0 ?B] by (auto simp: import em_base_def)
    have e: "(if ?E \<noteq> 0 then mpz_import G (take ?E (drop ?B ?p)) else 0) = em_exponent input"
      using at [of ?B ?E] by (auto simp: import em_exponent_def)
    have m: "mpz_import G (take ?M (drop ?E (drop ?B ?p))) = em_modulus input"
      using at [of "?B + ?E" ?M] by (simp add: import em_modulus_def add.assoc add.commute add.left_commute)
    have "em_modulus input < 256 ^ ?M"
      using be_load_less [of "bytes_at input (96 + ?B + ?E) ?M"] by (simp add: em_modulus_def)
    then have small: "em_modulus input \<noteq> 0 \<Longrightarrow> em_base input ^ em_exponent input mod em_modulus input < 256 ^ ?M"
      by (meson less_trans mod_less_divisor neq0_conv)
    have zeros: "replicate ?M 0 = be_store ?M 0" using be_store_load [of "replicate ?M 0"] be_load_zeros [of ?M "[]"] by simp
    have three_words: "3 * 32 = (96 :: nat)" by simp
    show ?thesis
      unfolding expmod_run_def Let_def three_words lens z u sum b e m
      using False long small by (cases "em_modulus input = 0") (simp_all only: powm export_padded zeros if_True if_False simp_thms)
  qed
qed

end

definition gmp_arithmetic :: gmp_ops where
  "gmp_arithmetic = \<lparr>mpz_import = be_load, mpz_powm = (\<lambda>b e m. b ^ e mod m), mpz_export = (\<lambda>n. rev (be_min n))\<rparr>"

text \<open>Lengths whose sum is \<open>2\<^sup>6\<^sup>4 + 1\<close>.\<close>

definition overflowing_lengths :: bytes where
  "overflowing_lengths = be_store 32 1 @ be_store 32 (2 ^ 64 - 1) @ be_store 32 1"

interpretation gmp_arithmetic: gmp gmp_arithmetic
  by unfold_locales (simp_all add: gmp_arithmetic_def)

section \<open>Properties\<close>

lemma mult_complexity_bounds:
  "x \<noteq> 0 \<Longrightarrow> mult_complexity rv x \<ge> 1" "mult_complexity rv x < 2 ^ 67 \<Longrightarrow> x < 2 ^ 37"
proof -
  show "mult_complexity rv x \<ge> 1" if "x \<noteq> 0"
  proof (cases "rv < EVMC_BERLIN")
    case True
    then show ?thesis using that by (auto simp: mult_complexity_def power2_eq_square Suc_le_eq)
  next
    case False
    have "1 \<le> (x + 7) div 8" using that by simp
    then have "1 ^ 2 \<le> ((x + 7) div 8) ^ 2" by (rule power_mono) simp
    then show ?thesis using False by (simp add: mult_complexity_def)
  qed
  show "x < 2 ^ 37" if "mult_complexity rv x < 2 ^ 67"
  proof (rule ccontr)
    assume "\<not> x < 2 ^ 37"
    then have x: "2 ^ 37 \<le> x" by simp
    then have "(2 ^ 37) ^ 2 \<le> x ^ 2" by (rule power_mono) simp
    then have 1: "2 ^ 70 \<le> x ^ 2 div 16" by simp
    have "2 ^ 34 \<le> (x + 7) div 8" using x by simp
    then have "(2 ^ 34) ^ 2 \<le> ((x + 7) div 8) ^ 2" by (rule power_mono) simp
    then show False using that 1 x by (auto simp: mult_complexity_def split: if_splits)
  qed
qed

lemma expmod_gas_exceeds:
  assumes "\<not> (em_length input 0 = 0 \<and> em_length input 2 = 0)" and "i < 3" and "em_length input i \<ge> 2 ^ 64"
  shows "expmod_gas input rv = - 1"
proof -
  have bound: "em_length input j < 2 ^ 256" for j
    using be_load_bound [of "bytes_at input (32 * j) 32" 32] by (simp add: em_length_def)
  have nz: "(word_of_nat (em_length input j) :: u256) = 0 \<longleftrightarrow> em_length input j = 0" for j
    using word_of_nat_less(3) [where ?'a = 256, of "em_length input j" 0] bound [of j] by simp
  have ex: "exceeds_word (word_of_nat (em_length input j)) \<longleftrightarrow> em_length input j \<ge> 2 ^ 64" for j
    using word_of_nat_less(2) [where ?'a = 256, of "2 ^ 64" "em_length input j"] bound [of j] by (simp add: exceeds_word_def)
  have "i = 0 \<or> i = 1 \<or> i = 2" using assms(2) by auto
  moreover have three_words: "3 * 32 = (96 :: nat)" by simp
  ultimately show ?thesis
    unfolding expmod_gas_def Let_def three_words load_lengths nz ex using assms(1,3) by auto
qed

text \<open>When the price is at most \<open>2\<^sup>6\<^sup>2\<close>, the lengths are small, and they add up without overflow.\<close>

lemma expmod_price_lengths:
  assumes "expmod_price input rv \<le> 2 ^ 62" and "\<not> (em_length input 0 = 0 \<and> em_length input 2 = 0)"
  shows "em_length input 0 < 2 ^ 37" "em_length input 1 < 2 ^ 64 - 2 ^ 40" "em_length input 2 < 2 ^ 37"
proof -
  let ?B = "em_length input 0" and ?E = "em_length input 1" and ?M = "em_length input 2"
  let ?C = "mult_complexity rv (max ?M ?B)" and ?A = "max 1 (adjusted_exponent_length ?E (em_head input))"
  let ?D = "if rv < EVMC_BERLIN then 20 else 3 :: nat"
  have "?C * ?A div ?D \<le> 2 ^ 62" using assms(1) unfolding expmod_price_def by simp
  then have "?C * ?A div ?D < 2 ^ 62 + 1" by simp
  then have CA: "?C * ?A < 20 * (2 ^ 62 + 1)" by (simp add: div_less_iff_less_mult split: if_splits)
  have "max ?M ?B \<noteq> 0" using assms(2) by auto
  then have C: "?C \<ge> 1" using mult_complexity_bounds(1) [of "max ?M ?B" rv] by simp
  have "?A \<le> ?C * ?A" using C by (metis mult_le_mono1 mult_1)
  then have "?A < 20 * (2 ^ 62 + 1)" using CA by linarith
  then show "?E < 2 ^ 64 - 2 ^ 40" by (auto simp: adjusted_exponent_length_def split: if_splits)
  have "?C \<le> ?C * ?A" by simp
  also note CA
  also have "20 * (2 ^ 62 + 1) < (2 :: nat) ^ 67" by simp
  finally have "?C < 2 ^ 67" .
  then have "max ?M ?B < 2 ^ 37" by (rule mult_complexity_bounds(2))
  then show "?B < 2 ^ 37" "?M < 2 ^ 37" by simp_all
qed

lemma expmod_lengths:
  assumes "unat (expmod_gas input rv) \<le> 2 ^ 62" and "\<not> (em_length input 0 = 0 \<and> em_length input 2 = 0)"
  shows "em_length input 0 < 2 ^ 64" "em_length input 1 < 2 ^ 64" "em_length input 2 < 2 ^ 64"
    "em_length input 0 + em_length input 1 + em_length input 2 < 2 ^ 64"
proof -
  let ?B = "em_length input 0" and ?E = "em_length input 1" and ?M = "em_length input 2"
  have "unat (- 1 :: u64) = 2 ^ 64 - 1" by (simp add: unsigned_minus_1_eq_mask mask_eq_exp_minus_1)
  then have ne: "expmod_gas input rv \<noteq> - 1" using assms(1) by auto
  show lens: "?B < 2 ^ 64" "?E < 2 ^ 64" "?M < 2 ^ 64"
    using expmod_gas_exceeds [OF assms(2), of 0] expmod_gas_exceeds [OF assms(2), of 1] expmod_gas_exceeds [OF assms(2), of 2] ne
    by (simp_all add: not_less [symmetric]) blast+
  have "expmod_price input rv \<le> 2 ^ 62" using assms(1) expmod_gas_price [OF lens, of rv] by (simp add: min_def split: if_splits)
  from expmod_price_lengths [OF this assms(2)] show "?B + ?E + ?M < 2 ^ 64" by simp
qed

text \<open>The gas is the price, or both are out of reach.\<close>

lemma expmod_gas_or_exceeds:
  "unat (expmod_gas input rv) = expmod_price input rv \<or> 2 ^ 62 < unat (expmod_gas input rv) \<and> 2 ^ 62 < expmod_price input rv"
proof (cases "em_length input 0 = 0 \<and> em_length input 2 = 0")
  case True
  then show ?thesis by (simp add: expmod_gas_def Let_def load_lengths expmod_price_def mult_complexity_def)
next
  case False
  show ?thesis
  proof (cases "\<exists>i < 3. em_length input i \<ge> 2 ^ 64")
    case True
    then have "expmod_gas input rv = - 1" using expmod_gas_exceeds [OF False] by blast
    moreover have "2 ^ 62 < expmod_price input rv"
    proof (rule ccontr)
      assume "\<not> 2 ^ 62 < expmod_price input rv"
      then have "em_length input 0 < 2 ^ 64" "em_length input 1 < 2 ^ 64" "em_length input 2 < 2 ^ 64"
        using expmod_price_lengths [OF _ False, of rv] by simp_all
      then show False using True by (auto simp: less_Suc_eq numeral_3_eq_3 numeral_2_eq_2)
    qed
    ultimately show ?thesis by (simp add: unsigned_minus_1_eq_mask mask_eq_exp_minus_1)
  next
    case lens: False
    then have "em_length input 0 < 2 ^ 64" "em_length input 1 < 2 ^ 64" "em_length input 2 < 2 ^ 64" by (simp_all add: not_le)
    from expmod_gas_price [OF this, of rv] show ?thesis by (auto simp: min_def)
  qed
qed

text \<open>
  Modular exponentiation costs what EIP-198, and from Berlin on EIP-2565, prescribes: the price that the
  specification computes with unbounded numbers from the three lengths and the first bytes of the exponent, or
  the greatest 64-bit number when the price is greater than that.
\<close>

theorem expmod_gas_correct:
  assumes "em_length input 0 < 2 ^ 64" "em_length input 1 < 2 ^ 64" "em_length input 2 < 2 ^ 64"
  shows "unat (expmod_gas input rv) = min (2 ^ 64 - 1) (expmod_price input rv)"
  using assms by (rule expmod_gas_price)

theorem expmod_gas_correct_witness:
  "unat (expmod_gas (be_store 32 1 @ be_store 32 1 @ be_store 32 1 @ [3, 5, 7]) EVMC_BYZANTIUM) =
    min (2 ^ 64 - 1) (expmod_price (be_store 32 1 @ be_store 32 1 @ be_store 32 1 @ [3, 5, 7]) EVMC_BYZANTIUM)"
proof -
  let ?i = "be_store 32 1 @ be_store 32 1 @ be_store 32 1 @ [3, 5, 7]"
  have "em_length ?i 0 = 1" "em_length ?i 1 = 1" "em_length ?i 2 = 1"
    by (simp_all add: em_length_def bytes_at_def be_load_store)
  then show ?thesis by (intro expmod_gas_correct) simp_all
qed

lemma expmod_run_gas:
  assumes "gmp G" and "unat (expmod_gas input rv) \<le> 2 ^ 62"
  shows "expmod_run G input = Some (Some (be_store (em_length input 2)
    (if em_modulus input = 0 then 0 else em_base input ^ em_exponent input mod em_modulus input)))"
proof (cases "em_length input 0 = 0 \<and> em_length input 2 = 0")
  case True
  have "load_big_u64 (drop 24 (drop 32 (drop 32 (right_pad input 96)))) = 0"
  proof -
    have "take 8 (drop 88 (right_pad input 96)) = bytes_at input (64 + 24) 8"
      using take_drop_right_pad [of 88 8 96 input] by simp
    moreover have "bytes_at input 64 32 = bytes_at input 64 24 @ bytes_at input (64 + 24) 8"
      using append_take_drop_id [of 24 "bytes_at input 64 32"] by (simp add: take_bytes_at drop_bytes_at)
    then have "be_load (bytes_at input (64 + 24) 8) = 0" using True by (simp add: em_length_def be_load_append)
    ultimately show ?thesis by (simp add: load_big_u64_def)
  qed
  then show ?thesis using True by (simp add: expmod_run_def Let_def)
next
  case False
  show ?thesis by (rule gmp.expmod_run_value [OF assms(1)]) (use expmod_lengths [OF assms(2) False] in simp_all)
qed

text \<open>
  C36. Whenever modular exponentiation costs at most \<open>2\<^sup>6\<^sup>2\<close> gas, it reads inside its input, extended by zeros, and
  returns base to the power of exponent modulo the modulus, as a big-endian number of the length of the
  modulus; zero when the modulus is zero.
\<close>

theorem expmod_run_correct:
  assumes "gmp G" and "unat (expmod_gas input rv) \<le> 2 ^ 62"
  shows "expmod_run G input = Some (Some (be_store (em_length input 2)
    (if em_modulus input = 0 then 0 else em_base input ^ em_exponent input mod em_modulus input)))"
  using assms by (rule expmod_run_gas)

theorem expmod_run_correct_witness:
  "expmod_run gmp_arithmetic (be_store 32 1 @ be_store 32 1 @ be_store 32 1 @ [3, 5, 7]) = Some (Some [5])"
proof -
  let ?i = "be_store 32 1 @ be_store 32 1 @ be_store 32 1 @ [3, 5, 7]"
  have l: "em_length ?i 0 = 1" "em_length ?i 1 = 1" "em_length ?i 2 = 1"
    by (simp_all add: em_length_def bytes_at_def be_load_store)
  have v: "em_base ?i = 3" "em_exponent ?i = 5" "em_modulus ?i = 7" "em_head ?i = 5"
    by (simp_all add: em_base_def em_exponent_def em_modulus_def em_head_def l [unfolded One_nat_def] bytes_at_def be_load_def)
  have "bit_len 5 = 3" by (simp add: bit_len.simps)
  then have "expmod_price ?i EVMC_BYZANTIUM = 0"
    using l v by (simp add: expmod_price_def mult_complexity_def adjusted_exponent_length_def less_evmc_revision_def)
  then have "unat (expmod_gas ?i EVMC_BYZANTIUM) = 0" using expmod_gas_price [of ?i EVMC_BYZANTIUM] l by simp
  then show ?thesis
    using expmod_run_correct [OF gmp_arithmetic.gmp_axioms, of ?i EVMC_BYZANTIUM] l v by simp
qed

text \<open>
  The bound on the gas is needed: before Berlin an input of one byte of base, one byte of modulus and
  \<open>2\<^sup>6\<^sup>4 - 1\<close> bytes of exponent costs less than \<open>2\<^sup>6\<^sup>3\<close> gas, but the sum of its lengths wraps around and the
  contract reads outside its padded input.
\<close>

theorem expmod_run_overflow:
  "unat (expmod_gas overflowing_lengths EVMC_BYZANTIUM) < 2 ^ 63 \<and> expmod_run G overflowing_lengths = None"
proof
  let ?input = overflowing_lengths
  have l: "em_length ?input 0 = 1" "em_length ?input 1 = 2 ^ 64 - 1" "em_length ?input 2 = 1"
    by (simp_all add: overflowing_lengths_def em_length_def bytes_at_def be_load_store)
  have "bytes_at ?input (96 + em_length ?input 0) (min 32 (em_length ?input 1)) = replicate 32 0"
    unfolding l by (simp add: overflowing_lengths_def bytes_at_def)
  then have "em_head ?input = 0" using be_load_zeros [of 32 "[]"] by (simp add: em_head_def)
  then have "expmod_price ?input EVMC_BYZANTIUM < 2 ^ 63"
    using l by (simp add: expmod_price_def mult_complexity_def adjusted_exponent_length_def less_evmc_revision_def bit_len.simps)
  then show "unat (expmod_gas ?input EVMC_BYZANTIUM) < 2 ^ 63" using expmod_gas_price [of ?input EVMC_BYZANTIUM] l by simp
  have w: "load_big_u64 (drop 24 (be_store 32 n @ xs)) = word_of_nat n" if "n < 2 ^ 64" for n xs
    using that be_store_split [of 24 8 n] by (simp add: load_big_u64_def be_load_store del: be_store.simps)
  show "expmod_run G ?input = None"
    using w [of 1] w [of 1 "[]"] w [of "2 ^ 64 - 1" "be_store 32 1"]
    by (simp add: expmod_run_def Let_def overflowing_lengths_def right_pad_eq)
qed

end
