(* ===== verification/Precompiled_Spec.thy ===== *)
theory Precompiled_Spec
  imports Precompiled_Correct
begin

text \<open>
  What the nine precompiled contracts are to cost and to return, after appendix E of the yellow paper and the EIPs 198,
  2565, 196, 197 and 152, on inputs extended by zeros, and that the contracts of Precompiled do so without a
  read outside their input.
\<close>

unbundle bit_operations_syntax

section \<open>Prices\<close>

definition contract_price :: "nat \<Rightarrow> bytes \<Rightarrow> evmc_revision \<Rightarrow> nat" where
  "contract_price i input rv =
     (let words = (length input + 31) div 32; pairs = length input div 192; istanbul = (rv \<ge> EVMC_ISTANBUL)
      in [3000, 60 + 12 * words, 600 + 120 * words, 15 + 3 * words, expmod_price input rv,
          if istanbul then 150 else 500, if istanbul then 6000 else 40000,
          if istanbul then 45000 + 34000 * pairs else 100000 + 80000 * pairs,
          if length input < 4 then 0 else be_load (take 4 input)] ! i)"

section \<open>Results\<close>

definition input_word :: "bytes \<Rightarrow> nat \<Rightarrow> nat" where
  "input_word input k = be_load (bytes_at input (32 * k) 32)"

text \<open>The address of the signer, for the two values of \<open>v\<close> without a chain.\<close>

definition ecrec_spec :: "(bytes \<Rightarrow> bytes32) \<Rightarrow> ('sig, 'key) secp256k1 \<Rightarrow> bytes \<Rightarrow> bytes" where
  "ecrec_spec keccak lib input =
     (let v = input_word input 1
      in if (v = 27 \<or> v = 28) \<and> is_valid_signature (word_of_nat (input_word input 2)) (word_of_nat (input_word input 3)) False
         then case recover lib (bytes_at input 0 32) (bytes_at input 64 64) (v = 28) of
                Some (b # key) \<Rightarrow> if b = 4 then replicate 12 0 @ drop 12 (full_view_bytes32 (keccak key)) else []
              | _ \<Rightarrow> []
         else [])"

text \<open>Points of the curve and of its twist, with their coordinates as numbers; the point at infinity is zero.\<close>

definition curve_point :: "('g1, 'g2, 'f) libff_ops \<Rightarrow> nat \<Rightarrow> nat \<Rightarrow> 'g1 option" where
  "curve_point L x y =
     (if x < alt_bn128_modulus_q L \<and> y < alt_bn128_modulus_q L \<and> (x = 0 \<and> y = 0 \<or> g1_is_well_formed L (g1_point L x y))
      then Some (if x = 0 \<and> y = 0 then g1_zero L else g1_point L x y) else None)"

definition twist_point :: "('g1, 'g2, 'f) libff_ops \<Rightarrow> nat \<times> nat \<Rightarrow> nat \<times> nat \<Rightarrow> 'g2 option" where
  "twist_point L x y =
     (if (\<forall>c \<in> {fst x, snd x, fst y, snd y}. c < alt_bn128_modulus_q L) \<and>
         (x = (0, 0) \<and> y = (0, 0) \<or> g2_is_well_formed L (g2_point L x y) \<and> g2_is_zero L (g2_order_mul L (g2_point L x y)))
      then Some (if x = (0, 0) \<and> y = (0, 0) then g2_zero L else g2_point L x y) else None)"

definition point_bytes :: "('g1, 'g2, 'f) libff_ops \<Rightarrow> 'g1 \<Rightarrow> bytes" where
  "point_bytes L p = (if g1_is_zero L p then replicate 64 0 else case g1_affine L p of (x, y) \<Rightarrow> be_store 32 x @ be_store 32 y)"

definition bn_add_spec :: "('g1, 'g2, 'f) libff_ops \<Rightarrow> bytes \<Rightarrow> bytes option" where
  "bn_add_spec L input =
     (let w = input_word input
      in case (curve_point L (w 0) (w 1), curve_point L (w 2) (w 3)) of
           (Some x, Some y) \<Rightarrow> Some (point_bytes L (g1_add L x y)) | _ \<Rightarrow> None)"

definition bn_mul_spec :: "('g1, 'g2, 'f) libff_ops \<Rightarrow> bytes \<Rightarrow> bytes option" where
  "bn_mul_spec L input =
     (let w = input_word input in map_option (\<lambda>x. point_bytes L (g1_mul L (w 2) x)) (curve_point L (w 0) (w 1)))"

text \<open>The pairs of points, and the product of their pairings.\<close>

definition pair_at :: "('g1, 'g2, 'f) libff_ops \<Rightarrow> bytes \<Rightarrow> nat \<Rightarrow> 'g1 option \<times> 'g2 option" where
  "pair_at L input j =
     (let w = (\<lambda>k. input_word input (6 * j + k)) in (curve_point L (w 0) (w 1), twist_point L (w 3, w 2) (w 5, w 4)))"

definition pairing_product :: "('g1, 'g2, 'f) libff_ops \<Rightarrow> 'f \<Rightarrow> ('g1 option \<times> 'g2 option) list \<Rightarrow> 'f" where
  "pairing_product L acc ps =
     foldl (fq12_mul L) acc (map (\<lambda>(a, b). miller_loop L (the a) (the b))
       (filter (\<lambda>(a, b). \<not> g1_is_zero L (the a) \<and> \<not> g2_is_zero L (the b)) ps))"

definition snarkv_spec :: "('g1, 'g2, 'f) libff_ops \<Rightarrow> bytes \<Rightarrow> bytes option" where
  "snarkv_spec L input =
     (let ps = map (pair_at L input) [0..<length input div 192]
      in if length input mod 192 = 0 \<and> (\<forall>(a, b) \<in> set ps. a \<noteq> None \<and> b \<noteq> None)
         then Some (be_store 32 (if final_exponentiation L (pairing_product L (fq12_one L) ps) = fq12_one L then 1 else 0))
         else None)"

text \<open>The function \<open>F\<close> of RFC 7693, with the number of rounds as an argument.\<close>

definition mix_columns :: "(nat \<times> nat \<times> nat \<times> nat) list" where
  "mix_columns = [(0, 4, 8, 12), (1, 5, 9, 13), (2, 6, 10, 14), (3, 7, 11, 15), (0, 5, 10, 15), (1, 6, 11, 12), (2, 7, 8, 13), (3, 4, 9, 14)]"

definition mix :: "nat \<times> nat \<times> nat \<times> nat \<Rightarrow> u64 \<Rightarrow> u64 \<Rightarrow> u64 list \<Rightarrow> u64 list" where
  "mix = (\<lambda>(ia, ib, ic, id) x y v.
     let a = v ! ia + v ! ib + x;
         d = word_rotr 32 (v ! id XOR a);
         c = v ! ic + d;
         b = word_rotr 24 (v ! ib XOR c);
         a = a + b + y;
         d = word_rotr 16 (d XOR a);
         c = c + d;
         b = word_rotr 63 (b XOR c)
     in v[ia := a, ib := b, ic := c, id := d])"

definition mix_round :: "u64 list \<Rightarrow> nat \<Rightarrow> u64 list \<Rightarrow> u64 list" where
  "mix_round m r =
     fold (\<lambda>i. mix (mix_columns ! i) (m ! (blake2b_sigma ! (r mod 10) ! (2 * i))) (m ! (blake2b_sigma ! (r mod 10) ! (2 * i + 1)))) [0..<8]"

definition initial_vector :: "u64 list \<Rightarrow> u64 \<Rightarrow> u64 \<Rightarrow> bool \<Rightarrow> u64 list" where
  "initial_vector h t0 t1 final_block =
     (let v = h @ blake2b_IV
      in v[12 := v ! 12 XOR t0, 13 := v ! 13 XOR t1, 14 := if final_block then NOT (v ! 14) else v ! 14])"

definition blake2_F :: "nat \<Rightarrow> u64 list \<Rightarrow> u64 list \<Rightarrow> u64 \<Rightarrow> u64 \<Rightarrow> bool \<Rightarrow> u64 list" where
  "blake2_F rounds h m t0 t1 final_block =
     (let v = fold (mix_round m) [0..<rounds] (initial_vector h t0 t1 final_block)
      in map (\<lambda>i. h ! i XOR v ! i XOR v ! (i + 8)) [0..<8])"

definition input_le :: "bytes \<Rightarrow> nat \<Rightarrow> u64" where
  "input_le input off = word_of_nat (le_load (take 8 (drop off input)))"

definition blake2_f_spec :: "bytes \<Rightarrow> bytes option" where
  "blake2_f_spec input =
     (if length input = 213 \<and> input ! 212 \<in> {0, 1}
      then Some (concat (map (\<lambda>w. le_store 8 (unat w))
        (blake2_F (be_load (take 4 input)) (map (\<lambda>i. input_le input (4 + 8 * i)) [0..<8])
          (map (\<lambda>i. input_le input (68 + 8 * i)) [0..<16]) (input_le input 196) (input_le input 204) (input ! 212 = 1))))
      else None)"

definition contract_spec :: "('sig, 'key, 'g1, 'g2, 'f) precompile_libs \<Rightarrow> nat \<Rightarrow> bytes \<Rightarrow> bytes option" where
  "contract_spec P i input =
     [Some (ecrec_spec (pl_keccak256 P) (pl_secp256k1 P) input), Some (sha256_spec input),
      Some (replicate 12 0 @ ripemd160_spec input), Some input,
      Some (be_store (em_length input 2) (if em_modulus input = 0 then 0 else em_base input ^ em_exponent input mod em_modulus input)),
      bn_add_spec (pl_libff P) input, bn_mul_spec (pl_libff P) input, snarkv_spec (pl_libff P) input, blake2_f_spec input] ! i"

section \<open>Reading inputs\<close>

lemma take_drop_bytes_at: "off + n \<le> length b \<Longrightarrow> take n (drop off b) = bytes_at b off n"
  by (rule nth_equalityI) (auto simp: nth_bytes_at)

lemma read_pad:
  assumes "off + n \<le> max k (length b)"
  shows "read_at (right_pad b k) off n = Some (bytes_at b off n)" "substr (right_pad b k) off n = Some (bytes_at b off n)"
  using assms take_drop_right_pad [OF assms] by (auto simp: read_at_def substr_def right_pad_eq)

lemma substr_input: "off + n \<le> length b \<Longrightarrow> substr b off n = Some (bytes_at b off n)"
  by (simp add: substr_def take_drop_bytes_at)

lemma substr_bytes_at: "off + n \<le> m \<Longrightarrow> substr (bytes_at b p m) off n = Some (bytes_at b (p + off) n)"
  by (simp add: substr_def drop_bytes_at take_bytes_at)

lemma to_scalar_bytes_at: "0 < n \<Longrightarrow> to_scalar (bytes_at b off n) = Some (be_load (bytes_at b off n))"
  by (auto simp: to_scalar_def dest: arg_cong [of _ "[]" length])

lemma word_scalar:
  "Option.bind (substr (bytes_at b (32 * k) m) (32 * j) 32) to_scalar = Some (input_word b (k + j))" if "32 * j + 32 \<le> m"
  using that by (simp add: substr_bytes_at to_scalar_bytes_at input_word_def algebra_simps)

section \<open>The curve\<close>

lemma decode_g1: "decode_g1_element L (bytes_at b (32 * k) 64) = Some (curve_point L (input_word b k) (input_word b (k + 1)))"
  using word_scalar [of 0 64 b k] word_scalar [of 1 64 b k]
  by (simp add: decode_g1_element_def valid_element_of_fp_def curve_point_def Let_def)

lemma decode_fp2:
  "decode_fp2_element L (bytes_at b (32 * k) 64) =
     Some (if input_word b (k + 1) < alt_bn128_modulus_q L \<and> input_word b k < alt_bn128_modulus_q L
           then Some (input_word b (k + 1), input_word b k) else None)"
  using word_scalar [of 0 64 b k] word_scalar [of 1 64 b k]
  by (simp add: decode_fp2_element_def valid_element_of_fp_def)

lemma decode_g2:
  "decode_g2_element L (bytes_at b (32 * k) 128) =
     Some (twist_point L (input_word b (k + 1), input_word b k) (input_word b (k + 3), input_word b (k + 2)))"
proof -
  have "substr (bytes_at b (32 * k) 128) 0 64 = Some (bytes_at b (32 * k) 64)"
    "substr (bytes_at b (32 * k) 128) 64 64 = Some (bytes_at b (32 * (k + 2)) 64)"
    by (simp_all add: substr_bytes_at algebra_simps)
  then show ?thesis
    using decode_fp2 [of L b k] decode_fp2 [of L b "k + 2"]
    by (simp add: decode_g2_element_def twist_point_def Let_def numeral_3_eq_3)
qed

lemma encode_g1: "encode_g1_element L p = point_bytes L p"
  by (simp add: encode_g1_element_def point_bytes_def be_store_eq_rev_le split: prod.split)

lemma bn_add_run_eq: "bn_add_run L input = Some (bn_add_spec L input)"
  using decode_g1 [of L input 0] decode_g1 [of L input 2]
  by (simp add: bn_add_run_def bn_add_spec_def read_pad encode_g1 Let_def numeral_3_eq_3 split: option.split)

lemma bn_mul_run_eq: "bn_mul_run L input = Some (bn_mul_spec L input)"
  using decode_g1 [of L input 0] to_scalar_bytes_at [of 32 input 64]
  by (simp add: bn_mul_run_def bn_mul_spec_def read_pad encode_g1 input_word_def Let_def split: option.split)

lemma snarkv_loop_eq:
  "192 * (i + n) \<le> length input \<Longrightarrow> snarkv_loop L input i n acc =
     Some (if \<forall>(a, b) \<in> set (map (pair_at L input) [i..<i + n]). a \<noteq> None \<and> b \<noteq> None
           then Some (pairing_product L acc (map (pair_at L input) [i..<i + n])) else None)"
proof (induction n arbitrary: i acc)
  case (Suc n)
  have "substr input (i * kSnarkvStride) 64 = Some (bytes_at input (32 * (6 * i)) 64)"
    "substr input (i * kSnarkvStride + 64) 128 = Some (bytes_at input (32 * (6 * i + 2)) 128)"
    using Suc.prems by (simp_all add: substr_input kSnarkvStride_def algebra_simps)
  moreover obtain a b where ab: "pair_at L input i = (a, b)" by (cases "pair_at L input i")
  ultimately have "snarkv_loop L input i (Suc n) acc =
      (case a of None \<Rightarrow> Some None | Some x \<Rightarrow>
       case b of None \<Rightarrow> Some None | Some y \<Rightarrow>
         snarkv_loop L input (i + 1) n (if g1_is_zero L x \<or> g2_is_zero L y then acc else fq12_mul L acc (miller_loop L x y)))"
    using decode_g1 [of L input "6 * i"] decode_g2 [of L input "6 * i + 2"]
    by (auto simp: pair_at_def Let_def eval_nat_numeral split: option.split)
  moreover define ps where "ps = map (pair_at L input) [i + 1..<i + 1 + n]"
  have all: "map (pair_at L input) [i..<i + Suc n] = (a, b) # ps"
    unfolding ps_def using ab by (subst upt_conv_Cons) simp_all
  have "snarkv_loop L input (i + 1) n c =
      Some (if \<forall>(a, b) \<in> set ps. a \<noteq> None \<and> b \<noteq> None then Some (pairing_product L c ps) else None)" for c
    unfolding ps_def by (rule Suc.IH) (use Suc.prems in simp)
  ultimately show ?case
    unfolding all by (cases a; cases b) (simp_all add: pairing_product_def)
qed (simp add: pairing_product_def)

lemma snarkv_run_eq: "snarkv_run L input = Some (snarkv_spec L input)"
proof -
  have bit: "be_store 32 (if c then 1 else 0) = replicate 31 0 @ [if c then 1 else 0]" for c
  proof -
    have zeros: "be_store k 0 = replicate k 0" for k by (induction k) (simp_all add: replicate_append_same)
    have "be_store 32 n = be_store 31 (n div 256) @ [word_of_nat n]" for n using be_store.simps(2) [of 31 n] by simp
    then show ?thesis by (simp add: zeros)
  qed
  have "192 * (length input div 192) \<le> length input" by simp
  from snarkv_loop_eq [of 0 "length input div 192" input L "fq12_one L"] this show ?thesis
    by (simp add: snarkv_run_def snarkv_spec_def kSnarkvStride_def bit Let_def)
qed

section \<open>BLAKE2\<close>

lemma rotr64_eq:
  assumes "0 < c" "c < 64"
  shows "rotr64 w c = word_rotr c w"
proof (rule bit_word_eqI)
  fix n assume n: "n < LENGTH(64)"
  have "bit (rotr64 w c) n \<longleftrightarrow> bit w (c + n) \<or> 64 - c \<le> n \<and> bit w (n - (64 - c))"
    using n by (auto simp: rotr64_def bit_or_iff bit_drop_bit_eq bit_push_bit_iff)
  moreover have "bit (word_rotr c w) n \<longleftrightarrow> bit w ((n + c) mod 64)"
    using n by (simp add: bit_word_rotr_iff)
  moreover have "\<not> bit w (c + n)" if "64 \<le> n + c" using that bit_imp_le_length [of w "c + n"] by auto
  moreover have "(n + c) mod 64 = (if n + c < 64 then n + c else n - (64 - c))" using n assms by (simp add: mod_if)
  ultimately show "bit (rotr64 w c) n = bit (word_rotr c w) n" by (auto simp: add.commute)
qed

lemma blake2b_G_eq:
  "blake2b_G m r i ia ib ic jd v = mix (ia, ib, ic, jd) (m ! (blake2b_sigma ! r ! (2 * i))) (m ! (blake2b_sigma ! r ! (2 * i + 1))) v"
  by (simp add: blake2b_G_def mix_def rotr64_eq Let_def)

lemma blake2b_ROUND_eq: "blake2b_ROUND m (r mod 10) v = mix_round m r v"
  by (simp add: blake2b_ROUND_def mix_round_def blake2b_G_eq mix_columns_def upt_rec)

lemma blake2b_rounds_eq: "blake2b_rounds m i n v = fold (mix_round m) [i..<i + n] v"
proof (induction n arbitrary: i v)
  case (Suc n)
  have "[i..<i + Suc n] = i # [i + 1..<i + 1 + n]" by (subst upt_conv_Cons) simp_all
  then show ?case using Suc by (simp add: blake2b_ROUND_eq)
qed simp

lemma words64_eq: "words64 (take (8 * n) (drop off input)) = map (\<lambda>i. input_le input (off + 8 * i)) [0..<n]" if "off + 8 * n \<le> length input"
proof -
  have "take 8 (drop (i * 8) (take (8 * n) (drop off input))) = take 8 (drop (off + 8 * i) input)" if "i < n" for i
  proof -
    have "8 \<le> 8 * n - i * 8" using that by simp
    then show ?thesis by (simp add: drop_take min_absorb1 add.commute mult.commute)
  qed
  then show ?thesis using that by (simp add: words64_def load64_def input_le_def)
qed

lemma initial_vector_eq:
  assumes "length h = 8"
  shows "initial_vector h t0 t1 final_block = take 8 h @ [blake2b_IV ! 0, blake2b_IV ! 1, blake2b_IV ! 2, blake2b_IV ! 3,
    blake2b_IV ! 4 XOR t0, blake2b_IV ! 5 XOR t1, blake2b_IV ! 6 XOR (if final_block then - 1 else 0), blake2b_IV ! 7 XOR 0]"
  using assms by (simp add: initial_vector_def blake2b_IV_def nth_append list_update_append Let_def)

lemma blake2_f_run_eq: "blake2_f_run input = Some (blake2_f_spec input)"
proof (cases "length input = 213")
  case True
  let ?h = "map (\<lambda>i. input_le input (4 + 8 * i)) [0..<8]" and ?m = "map (\<lambda>i. input_le input (68 + 8 * i)) [0..<16]"
    and ?t = "map (\<lambda>i. input_le input (196 + 8 * i)) [0..<2]" and ?f = "input ! 212"
  have f: "read_at input 212 1 = Some [?f]"
    using True Cons_nth_drop_Suc [of 212 input] by (simp add: read_at_def)
  have reads: "read_at input 4 64 = Some (take 64 (drop 4 input))" "read_at input 68 128 = Some (take 128 (drop 68 input))"
    "read_at input 196 16 = Some (take 16 (drop 196 input))" "read_at input 0 4 = Some (take 4 input)"
    using True by (simp_all add: read_at_def)
  have w: "words64 (take 64 (drop 4 input)) = ?h" "words64 (take 16 (drop 196 input)) = ?t"
    using words64_eq [of 4 8 input] words64_eq [of 196 2 input] True by simp_all
  have m: "map (\<lambda>i. load64 (drop (i * 8) (take 128 (drop 68 input)))) [0..<16] = ?m"
    using words64_eq [of 68 16 input] True by (simp add: words64_def)
  have r: "unat (load_big_u32 (take 4 input)) = be_load (take 4 input)"
    using be_load_less [of "take 4 input"] True by (simp add: load_big_u32_def unat_of_nat take_bit_nat_eq_self)
  have F: "b2_h (blake2b_compress \<lparr>b2_h = ?h, b2_t = ?t, b2_f = [if ?f \<noteq> 0 then - 1 else 0, 0]\<rparr> (take 128 (drop 68 input)) n) =
      blake2_F n ?h ?m (input_le input 196) (input_le input 204) (?f = 1)" if "?f = 0 \<or> ?f = 1" for n
  proof -
    have t: "?t ! 0 = input_le input 196" "?t ! 1 = input_le input 204" by (simp_all add: upt_rec)
    have "(if ?f \<noteq> 0 then - 1 else 0 :: u64) = (if ?f = 1 then - 1 else 0)" using that by auto
    then have v: "take 8 ?h @ [blake2b_IV ! 0, blake2b_IV ! 1, blake2b_IV ! 2, blake2b_IV ! 3,
        blake2b_IV ! 4 XOR ?t ! 0, blake2b_IV ! 5 XOR ?t ! 1,
        blake2b_IV ! 6 XOR [if ?f \<noteq> 0 then - 1 else 0, 0] ! 0, blake2b_IV ! 7 XOR [if ?f \<noteq> 0 then - 1 else 0, 0] ! 1] =
      initial_vector ?h (input_le input 196) (input_le input 204) (?f = 1)"
      unfolding t by (subst initial_vector_eq) simp_all
    show ?thesis
      unfolding blake2b_compress_def m Let_def blake2b_rounds_eq blake2_F_def
      by (simp only: v blake2b_state.simps add_0)
  qed
  show ?thesis
    unfolding blake2_f_run_def blake2_f_spec_def f reads Option.bind.bind_lunit list.sel w r Let_def
    using True by (simp add: F)
qed (simp add: blake2_f_run_def blake2_f_spec_def)

section \<open>Recovery of the signer\<close>

lemma input_word_bound: "input_word input k < 2 ^ 256"
  using be_load_bound [of "bytes_at input (32 * k) 32" 32] by (simp add: input_word_def)

lemma ecrec_run_eq:
  assumes "\<forall>k. length (pubkey_serialize lib k) = 65"
  shows "ecrec_run keccak lib input = Some (Some (ecrec_spec keccak lib input))"
proof -
  have d: "(if length input < 128 then resize 128 0 input else input) = right_pad input 128" by (simp add: right_pad_def)
  have w: "load_be (bytes_at input (32 * k) 32) = word_of_nat (input_word input k)" for k by (simp add: load_be_def input_word_def)
  have v: "(word_of_nat (input_word input 1) :: u256) = word_of_nat n \<longleftrightarrow> input_word input 1 = n" if "n < 2 ^ 256" for n
    using word_of_nat_less(3) [where ?'a = 256, of "input_word input 1" n] input_word_bound that by simp
  have "pubkey_serialize lib k \<noteq> []" for k using assms by (metis list.size(3) zero_neq_numeral)
  then have key: "key \<noteq> []" if "recover lib m s y = Some key" for m s y key
    using that by (auto simp: recover_def split: if_splits option.splits)
  show ?thesis
    unfolding ecrec_run_def d Let_def ecrec_spec_def
    using w [of 1] w [of 2] w [of 3] v [of 27] v [of 28] key
    by (auto simp: read_pad v_to_y_parity_and_chain_id_def Let_def split: option.split list.split)
qed

section \<open>All contracts\<close>

lemma less_9: "i < 9 \<longleftrightarrow> i = 0 \<or> i = 1 \<or> i = 2 \<or> i = 3 \<or> i = 4 \<or> i = 5 \<or> i = 6 \<or> i = 7 \<or> i = 8" for i :: nat
  by auto

lemma contract_runs:
  assumes "gmp (pl_gmp P)" and "\<forall>k. length (pubkey_serialize (pl_secp256k1 P) k) = 65" and "\<forall>w. pl_stack P w = w"
    and "i < 9" and "length input < 2 ^ 32" and "unat (fst (kContracts P ! i) input rv) \<le> 2 ^ 62"
  shows "snd (kContracts P ! i) input = Some (contract_spec P i input)"
  using assms(4) unfolding less_9
proof (elim disjE)
  assume "i = 4"
  then show ?thesis using expmod_run_gas [OF assms(1), of input rv] assms(6) by (simp add: kContracts_def contract_spec_def)
qed (use ecrec_run_eq [OF assms(2)] calc_sha_256_eq [OF assms(3), of input] calculate_ripemd_160_eq [of input] assms(5) in
    \<open>simp_all add: kContracts_def contract_spec_def sha256_run_def rip160_run_def id_run_def bn_add_run_eq bn_mul_run_eq
      snarkv_run_eq blake2_f_run_eq\<close>)

lemma contract_gas:
  assumes "i < 9" and "length input < 2 ^ 32"
  shows "unat (fst (kContracts P ! i) input rv) = contract_price i input rv \<or>
    2 ^ 62 < unat (fst (kContracts P ! i) input rv) \<and> 2 ^ 62 < contract_price i input rv"
proof -
  have w: "words_of input = word_of_nat ((length input + 31) div 32)"
    using div_word_of_nat [where ?'a = 64, of "length input + 31" 32] assms(2) by (simp add: words_of_def)
  have k: "(word_of_nat (length input) :: u64) div word_of_nat kSnarkvStride = word_of_nat (length input div 192)"
    using div_word_of_nat [where ?'a = 64, of "length input" 192] assms(2) by (simp add: kSnarkvStride_def)
  have small: "unat (word_of_nat n :: u64) = n" if "n < 2 ^ 64" for n using that by (simp add: unat_of_nat take_bit_nat_eq_self)
  have lin: "unat (word_of_nat a + word_of_nat b * word_of_nat n :: u64) = a + b * n" if "a + b * n < 2 ^ 64" for a b n
    using small [OF that] by simp
  have n: "(length input + 31) div 32 < 2 ^ 32" "length input div 192 < 2 ^ 32" using assms(2) by simp_all
  have "unat (sha256_gas input rv) = 60 + 12 * ((length input + 31) div 32)"
    "unat (rip160_gas input rv) = 600 + 120 * ((length input + 31) div 32)"
    "unat (id_gas input rv) = 15 + 3 * ((length input + 31) div 32)"
    using lin [of 60 12 "(length input + 31) div 32"] lin [of 600 120 "(length input + 31) div 32"] lin [of 15 3 "(length input + 31) div 32"] n
    by (simp_all add: sha256_gas_def rip160_gas_def id_gas_def w)
  moreover have "unat (snarkv_gas input rv) =
      (if rv \<ge> EVMC_ISTANBUL then 45000 + 34000 * (length input div 192) else 100000 + 80000 * (length input div 192))"
    using lin [of 45000 34000 "length input div 192"] lin [of 100000 80000 "length input div 192"] n
    by (simp add: snarkv_gas_def k Let_def add.commute)
  moreover have "unat (blake2_f_gas input rv) = (if length input < 4 then 0 else be_load (take 4 input))"
    using be_load_bound [of "take 4 input" 4] by (simp add: blake2_f_gas_def load_big_u32_def unsigned_ucast_eq unat_of_nat take_bit_nat_eq_self)
  ultimately show ?thesis
    using assms(1) expmod_gas_or_exceeds [of input rv] unfolding less_9
    by (elim disjE) (simp_all add: kContracts_def contract_price_def ecrec_gas_def bn_add_gas_def bn_mul_gas_def Let_def)
qed

end
