(* ===== verification/Contracts.thy ===== *)
theory Contracts
  imports Evm_Gas Precompiled_Spec
begin

text \<open>
  The machine of Evm with the contracts of Precompiled in the place of its parameters.  A contract whose run reads
  outside its input has no result; the machine is given a failure instead, and the theorem says that this never
  happens for calls with at most \<open>2\<^sup>6\<^sup>2\<close> gas and inputs below \<open>2\<^sup>3\<^sup>2\<close> bytes.
\<close>

definition with_contracts :: "('sig, 'key, 'g1, 'g2, 'f) precompile_libs \<Rightarrow> 'b evm_env \<Rightarrow> 'b evm_env" where
  "with_contracts P E =
     E\<lparr>env_precompiled_gas := \<lambda>i. fst (kContracts P ! i),
       env_precompiled_run := \<lambda>i input. case snd (kContracts P ! i) input of None \<Rightarrow> None | Some r \<Rightarrow> r\<rparr>"

lemma is_precompiled_number:
  assumes "is_precompiled E a"
  shows "unat (ucast a :: u8) = unat a" "unat a - 1 < 9"
proof -
  have "number_of_precompiles E \<le> 9"
    by (simp add: number_of_precompiles_def Let_def kNumOfFrontierContracts_def kNumOfByzantiumContracts_def kNumOfIstanbulContracts_def)
  then have "a \<le> 9" using assms by (auto simp: is_precompiled_def)
  then have "unat a \<le> 9" by (simp add: word_le_nat_alt)
  moreover have "unat a \<noteq> 0" using assms by (simp add: is_precompiled_def unat_zero)
  ultimately show "unat (ucast a :: u8) = unat a" "unat a - 1 < 9"
    by (simp_all add: unsigned_ucast_eq take_bit_nat_eq_self)
qed

lemma is_precompiled_with: "env_precompiled_gas (with_contracts P E) = (\<lambda>i. fst (kContracts P ! i))"
  "env_precompiled_run (with_contracts P E) = (\<lambda>i input. case snd (kContracts P ! i) input of None \<Rightarrow> None | Some r \<Rightarrow> r)"
  "is_precompiled (with_contracts P E) a = is_precompiled E a" "evm_revision (with_contracts P E) = evm_revision E"
  by (simp_all add: with_contracts_def is_precompiled_def number_of_precompiles_def evm_revision_def)

text \<open>The comparison of the cost with the gas as signed numbers.\<close>

lemma signed_gas_check:
  fixes gas cost :: u64
  assumes "unat gas \<le> 2 ^ 62"
  shows "(sint cost < 0 \<or> sint cost > sint gas) = (unat cost > unat gas)"
proof -
  have lt: "unat gas < unat cost \<longleftrightarrow> uint gas < uint cost" by (simp only: word_less_def [symmetric] word_less_nat_alt [symmetric])
  have gas: "uint gas \<le> 2 ^ 62" using assms by (metis of_nat_le_iff of_nat_numeral of_nat_power uint_nat)
  then have g: "sint gas = uint gas" using sint_small [of gas] by simp
  show ?thesis
  proof (cases "sint cost < 0")
    case True
    then have "\<not> uint cost < 2 ^ 63" using sint_small [of cost] by linarith
    then have "uint gas < uint cost" using gas by simp
    then show ?thesis using True lt by blast
  next
    case False
    then have "sint cost = uint cost" using sint_nonneg [of cost] by linarith
    then show ?thesis using False g lt by auto
  qed
qed

text \<open>
  C4. A call of a precompiled contract with at most \<open>2\<^sup>6\<^sup>2\<close> gas and an input below \<open>2\<^sup>3\<^sup>2\<close> bytes fails for lack of gas exactly
  when the contract costs more than that; otherwise the contract reads nothing outside its input, and the call takes
  the price and returns the result, or the failure, of the specification: the recovered signer, SHA-256,
  RIPEMD-160, the input, the modular power, sum, product and pairing check on alt\_bn128 and BLAKE2's \<open>F\<close>, all on the input
  extended by zeros where the contract extends it.  Libraries are what their documentation says: GMP computes
  with integers and secp256k1 writes keys of 65 bytes; the array of SHA-256 keeps its contents.
\<close>

theorem precompiled_call_correct:
  assumes "gmp (pl_gmp P)" and "\<forall>k. length (pubkey_serialize (pl_secp256k1 P) k) = 65" and "\<forall>w. pl_stack P w = w"
    and "is_precompiled E (msg_destination m)" and "unat (msg_gas m) \<le> 2 ^ 62" and "length (msg_input m) < 2 ^ 32"
  shows "let i = unat (msg_destination m) - 1; price = contract_price i (msg_input m) (evm_revision E);
             res = precompiled_result (with_contracts P E) m
         in if price > unat (msg_gas m) then res = new_result EVMC_OUT_OF_GAS (msg_gas m) []
            else snd (kContracts P ! i) (msg_input m) = Some (contract_spec P i (msg_input m)) \<and>
                 res = (case contract_spec P i (msg_input m) of
                          Some out \<Rightarrow> new_result EVMC_SUCCESS (msg_gas m - word_of_nat price) out
                        | None \<Rightarrow> new_result EVMC_PRECOMPILE_FAILURE (msg_gas m) [])"
proof -
  let ?i = "unat (msg_destination m) - 1"
  let ?cost = "fst (kContracts P ! ?i) (msg_input m) (evm_revision E)"
  let ?price = "contract_price ?i (msg_input m) (evm_revision E)"
  have num: "unat (ucast (msg_destination m) :: u8) = unat (msg_destination m)" "?i < 9"
    by (rule is_precompiled_number [OF assms(4)])+
  note price = contract_gas [OF num(2) assms(6), of P "evm_revision E"]
  have res: "precompiled_result (with_contracts P E) m =
      (if unat ?cost > unat (msg_gas m) then new_result EVMC_OUT_OF_GAS (msg_gas m) []
       else case (case snd (kContracts P ! ?i) (msg_input m) of None \<Rightarrow> None | Some r \<Rightarrow> r) of
              Some out \<Rightarrow> new_result EVMC_SUCCESS (msg_gas m - ?cost) out
            | None \<Rightarrow> new_result EVMC_PRECOMPILE_FAILURE (msg_gas m) [])"
    unfolding precompiled_result_def Let_def is_precompiled_with num signed_gas_check [OF assms(5)] by simp
  show ?thesis
  proof (cases "unat ?cost > unat (msg_gas m)")
    case True
    then show ?thesis using res price assms(5) by (auto simp: Let_def)
  next
    case False
    then have cost: "unat ?cost = ?price" using price assms(5) by auto
    have "?cost = word_of_nat ?price" unfolding cost [symmetric] by simp
    moreover have "snd (kContracts P ! ?i) (msg_input m) = Some (contract_spec P ?i (msg_input m))"
      using contract_runs [OF assms(1-3) num(2) assms(6), of "evm_revision E"] False assms(5) by auto
    ultimately show ?thesis using res False cost by (cases "contract_spec P ?i (msg_input m)") (simp_all add: Let_def)
  qed
qed

theorem precompiled_call_correct_witness:
  "precompiled_result
     (with_contracts \<lparr>pl_keccak256 = (\<lambda>_. 0), pl_secp256k1 = \<lparr>parse_compact = (\<lambda>_ _. None), ecdsa_recover = (\<lambda>s _. None :: bytes option),
          pubkey_serialize = (\<lambda>_. replicate 65 4)\<rparr>, pl_stack = (\<lambda>w. w), pl_gmp = gmp_arithmetic,
        pl_libff = \<lparr>alt_bn128_modulus_q = 7, g1_zero = (), g1_point = (\<lambda>_ _. ()), g1_is_well_formed = (\<lambda>_. True),
          g1_is_zero = (\<lambda>_. True), g1_add = (\<lambda>_ _. ()), g1_mul = (\<lambda>_ _. ()), g1_affine = (\<lambda>_. (0, 0)), g2_zero = (),
          g2_point = (\<lambda>_ _. ()), g2_is_well_formed = (\<lambda>_. True), g2_is_zero = (\<lambda>_. True), g2_order_mul = (\<lambda>_. ()),
          fq12_one = (), fq12_mul = (\<lambda>_ _. ()), miller_loop = (\<lambda>_ _. ()), final_exponentiation = (\<lambda>_. ())\<rparr>\<rparr>
       \<lparr>env_ops = memory_buffer_ops (\<lambda>_. 0), env_keccak256 = (\<lambda>_. 0), env_interpreter = (\<lambda>_ _ _. Done (new_result EVMC_SUCCESS 0 [])),
        env_precompiled_gas = (\<lambda>_ _ _. 0), env_precompiled_run = (\<lambda>_ _. None),
        env_block = \<lparr>transactions = [], ommers = [], blk_header = undefined\<rparr>, env_config = kMainnetConfig, env_txn = new_transaction\<rparr>)
     \<lparr>msg_kind = EVMC_CALL, msg_flags = 0, msg_depth = 0, msg_gas = 100, msg_destination = 2, msg_sender = 0, msg_input = [1, 2, 3],
      msg_value = 0, msg_create2_salt = 0\<rparr> = new_result EVMC_SUCCESS 28 (sha256_spec [1, 2, 3])"
  (is "precompiled_result (with_contracts ?P ?E) ?m = _")
proof -
  have gmp: "gmp (pl_gmp ?P)" by (simp add: gmp_arithmetic.gmp_axioms)
  have key: "\<forall>k. length (pubkey_serialize (pl_secp256k1 ?P) k) = 65" by simp
  have dest: "is_precompiled ?E (msg_destination ?m)"
    by (simp add: is_precompiled_def number_of_precompiles_def Let_def kNumOfFrontierContracts_def kNumOfByzantiumContracts_def
        kNumOfIstanbulContracts_def)
  have stack: "\<forall>w. pl_stack ?P w = w" by simp
  have "contract_price 1 [1, 2, 3] rv = 72" for rv by (simp add: contract_price_def Let_def)
  then show ?thesis
    using precompiled_call_correct [OF gmp key stack dest] by (simp add: Let_def contract_spec_def)
qed

end
