(* ===== verification/Environment.thy ===== *)
theory Environment
  imports Tables
begin

text \<open>
  db/silkworm/db/chaindb.hpp and chaindb.cpp: environments, the counts of open transactions of each thread, the
  life of a transaction, and the cache of environments of \<open>get_env\<close>.

  What the file system and LMDB answer are arguments of the operations: the data file, the page size of
  the host, and the return codes.  A thread is a number.  The counts are unbounded: the \<open>int\<close> of the code would
  overflow only with \<open>2\<^sup>3\<^sup>1\<close> open transactions of one thread.  The state machine at the end has one step for each
  operation that some thread performs on an environment.
\<close>

unbundle bit_operations_syntax

section \<open>Flags and configurations\<close>

definition MDB_NOSUBDIR :: u32 where "MDB_NOSUBDIR = 0x4000"
definition MDB_RDONLY :: u32 where "MDB_RDONLY = 0x20000"
definition MDB_NOTLS :: u32 where "MDB_NOTLS = 0x200000"
definition MDB_NORDAHEAD :: u32 where "MDB_NORDAHEAD = 0x800000"

definition MDB_MAP_RESIZED :: mdb_rc where "MDB_MAP_RESIZED = MDB_OTHER (- 30785)"
definition MDB_INCOMPATIBLE :: mdb_rc where "MDB_INCOMPATIBLE = MDB_OTHER (- 30784)"
definition EINVAL :: mdb_rc where "EINVAL = MDB_OTHER 22"
definition ENOENT :: mdb_rc where "ENOENT = MDB_OTHER 2"

record database_config =
  dc_path :: string
  dc_map_size :: u64
  dc_flags :: u32
  dc_max_tables :: u32
  dc_mode :: u32

definition kDefaultMapSize :: u64 where
  "kDefaultMapSize = 2 * 2 ^ 40"

definition new_database_config :: "string \<Rightarrow> database_config" where
  "new_database_config path =
     \<lparr>dc_path = path, dc_map_size = kDefaultMapSize, dc_flags = MDB_NOTLS OR MDB_NORDAHEAD OR MDB_RDONLY,
        dc_max_tables = 128, dc_mode = 0x1A4\<rparr>"

definition set_readonly :: "bool \<Rightarrow> database_config \<Rightarrow> database_config" where
  "set_readonly v config =
     config\<lparr>dc_flags := if v then dc_flags config OR MDB_RDONLY else dc_flags config AND NOT MDB_RDONLY\<rparr>"

section \<open>Environments\<close>

type_synonym thread = nat

record environment =
  en_open :: bool
  en_path :: string
  en_flags :: u32
  en_ro_txns :: "thread \<Rightarrow> int"
  en_rw_txns :: "thread \<Rightarrow> int"

datatype data_file = No_file | Regular_file u64 | Special_file

definition round_to_page :: "u64 \<Rightarrow> u64 \<Rightarrow> u64" where
  "round_to_page page sz = (sz + page - 1) div page * page"

text \<open>\<open>std::filesystem::path\<close>: \<open>operator/\<close> adds a separator unless there is one, \<open>parent_path\<close> drops the separators it leaves.\<close>

definition path_append :: "string \<Rightarrow> string \<Rightarrow> string" where
  "path_append p q = (if p \<noteq> [] \<and> List.last p \<noteq> CHR ''/'' then p @ ''/'' @ q else p @ q)"

definition parent_path :: "string \<Rightarrow> string" where
  "parent_path p =
     (let dir = rev (dropWhile (\<lambda>c. c \<noteq> CHR ''/'') (rev p));
          trimmed = rev (dropWhile (\<lambda>c. c = CHR ''/'') (rev dir))
      in if trimmed = [] then dir else trimmed)"

text \<open>
  \<open>lmdb_env\<close> holds the functions of LMDB that open an environment: what they return for the arguments they are
  called with.
\<close>

record lmdb_env =
  mdb_env_create :: mdb_rc
  mdb_env_set_mapsize :: "u64 \<Rightarrow> mdb_rc"
  mdb_env_set_maxdbs :: "u32 \<Rightarrow> mdb_rc"
  mdb_env_open :: "string \<Rightarrow> u32 \<Rightarrow> u32 \<Rightarrow> mdb_rc"

definition new_environment :: "(string \<Rightarrow> data_file) \<Rightarrow> u64 \<Rightarrow> lmdb_env \<Rightarrow> database_config \<Rightarrow> environment db" where
  "new_environment files page mdb config =
     (if dc_path config = [] then Inl Invalid_argument
      else
        let nosubdir = (dc_flags config AND MDB_NOSUBDIR = MDB_NOSUBDIR);
            data_path = (if nosubdir then dc_path config else path_append (dc_path config) ''data.mdb'')
        in case files data_path of
             Special_file \<Rightarrow> Inl Runtime_error
           | f \<Rightarrow>
               let data_file_size = (case f of Regular_file n \<Rightarrow> n | _ \<Rightarrow> 0);
                   data_map_size = max data_file_size (dc_map_size config);
                   data_map_size = (if data_map_size \<noteq> 0 then round_to_page page data_map_size else data_map_size);
                   path = (if nosubdir then data_path else parent_path data_path)
               in db_bind (err_handler (mdb_env_create mdb)) (\<lambda>_.
                  db_bind (err_handler (mdb_env_set_mapsize mdb data_map_size)) (\<lambda>_.
                  db_bind (err_handler (mdb_env_set_maxdbs mdb (dc_max_tables config))) (\<lambda>_.
                  db_bind (err_handler (mdb_env_open mdb path (dc_flags config) (dc_mode config))) (\<lambda>_.
                  Inr \<lparr>en_open = True, en_path = path, en_flags = dc_flags config,
                    en_ro_txns = (\<lambda>_. 0), en_rw_txns = (\<lambda>_. 0)\<rparr>)))))"

definition en_close :: "environment \<Rightarrow> environment" where
  "en_close e = e\<lparr>en_open := False\<rparr>"

text \<open>LMDB refuses a null handle.\<close>

definition en_get_flags :: "environment \<Rightarrow> mdb_rc \<times> u32" where
  "en_get_flags e = (if en_open e then (MDB_SUCCESS, en_flags e) else (EINVAL, 0))"

definition en_is_ro :: "environment \<Rightarrow> bool db" where
  "en_is_ro e =
     (case en_get_flags e of (rc, flags) \<Rightarrow> db_bind (err_handler rc) (\<lambda>_. Inr (flags AND MDB_RDONLY = MDB_RDONLY)))"

text \<open>\<open>info\<close> is the map size that \<open>mdb_env_info\<close> reports, which only LMDB knows.\<close>

definition en_get_mapsize :: "u64 \<Rightarrow> environment \<Rightarrow> mdb_rc \<times> u64" where
  "en_get_mapsize info e = (if en_open e then (MDB_SUCCESS, info) else (EINVAL, 0))"

definition en_get_filesize :: "(string \<Rightarrow> data_file) \<Rightarrow> environment \<Rightarrow> mdb_rc \<times> u64" where
  "en_get_filesize files e =
     (if en_path e = [] then (ENOENT, 0)
      else
        case en_get_flags e of
          (rc, flags) \<Rightarrow>
            if rc \<noteq> MDB_SUCCESS then (rc, 0)
            else
              let nosubdir = (flags AND MDB_NOSUBDIR = MDB_NOSUBDIR);
                  data_path = (if nosubdir then en_path e else path_append (en_path e) ''data.mdb'')
              in case files data_path of Regular_file n \<Rightarrow> (MDB_SUCCESS, n) | _ \<Rightarrow> (ENOENT, 0))"

definition en_set_mapsize :: "u64 \<Rightarrow> u64 \<Rightarrow> lmdb_env \<Rightarrow> u64 \<Rightarrow> environment \<Rightarrow> mdb_rc db" where
  "en_set_mapsize page info mdb sz e =
     (if sz \<noteq> 0 then
        case en_get_mapsize info e of
          (rc, actual_map_size) \<Rightarrow>
            if rc \<noteq> MDB_SUCCESS then Inr rc
            else if sz < actual_map_size then Inl Runtime_error
            else Inr (mdb_env_set_mapsize mdb (round_to_page page sz))
      else Inr (mdb_env_set_mapsize mdb 0))"

definition get_ro_txns :: "thread \<Rightarrow> environment \<Rightarrow> int" where
  "get_ro_txns th e = en_ro_txns e th"

definition get_rw_txns :: "thread \<Rightarrow> environment \<Rightarrow> int" where
  "get_rw_txns th e = en_rw_txns e th"

definition touch_ro_txns :: "thread \<Rightarrow> int \<Rightarrow> environment \<Rightarrow> environment" where
  "touch_ro_txns th count e = e\<lparr>en_ro_txns := (en_ro_txns e)(th := en_ro_txns e th + count)\<rparr>"

definition touch_rw_txns :: "thread \<Rightarrow> int \<Rightarrow> environment \<Rightarrow> environment" where
  "touch_rw_txns th count e = e\<lparr>en_rw_txns := (en_rw_txns e)(th := en_rw_txns e th + count)\<rparr>"

section \<open>Transactions\<close>

text \<open>The attempts of \<open>mdb_txn_begin\<close>, with what it and \<open>set_mapsize(0)\<close> return in attempt \<open>i\<close>.\<close>

fun begin_loop :: "(nat \<Rightarrow> mdb_rc \<times> mdb_rc) \<Rightarrow> nat \<Rightarrow> nat \<Rightarrow> unit db" where
  "begin_loop outcome i 0 = Inr ()"
| "begin_loop outcome i (Suc maxtries) =
     (case outcome i of
        (rc, resize_rc) \<Rightarrow>
          if rc = MDB_SUCCESS then Inr ()
          else
            db_bind (if rc = MDB_MAP_RESIZED then err_handler resize_rc else Inr ()) (\<lambda>_.
            if maxtries > 0 then begin_loop outcome (i + 1) maxtries else err_handler rc))"

definition open_transaction :: "(nat \<Rightarrow> mdb_rc \<times> mdb_rc) \<Rightarrow> thread \<Rightarrow> u32 \<Rightarrow> environment \<Rightarrow> environment db" where
  "open_transaction outcome th flags parent_env =
     (if get_rw_txns th parent_env \<noteq> 0 then Inl Runtime_error
      else
        case en_get_flags parent_env of
          (rc, env_flags) \<Rightarrow>
            db_bind (err_handler rc) (\<lambda>_.
            let env_ro = (env_flags AND MDB_RDONLY = MDB_RDONLY);
                txn_ro = (flags AND MDB_RDONLY = MDB_RDONLY)
            in if env_ro \<and> \<not> txn_ro then Inl Runtime_error
               else
                 let env_notls = (env_flags AND MDB_NOTLS = MDB_NOTLS)
                 in if txn_ro \<and> \<not> env_notls \<and> get_ro_txns th parent_env \<noteq> 0 then Inl Runtime_error
                    else db_bind (begin_loop outcome 0 3) (\<lambda>_.
                         Inr (if txn_ro then touch_ro_txns th 1 parent_env else touch_rw_txns th 1 parent_env))))"

record transaction_object =
  to_handle :: bool
  to_flags :: u32

definition to_is_ro :: "transaction_object \<Rightarrow> bool" where
  "to_is_ro t \<longleftrightarrow> to_flags t AND MDB_RDONLY = MDB_RDONLY"

definition begin_transaction ::
    "(nat \<Rightarrow> mdb_rc \<times> mdb_rc) \<Rightarrow> thread \<Rightarrow> u32 \<Rightarrow> environment \<Rightarrow> (transaction_object \<times> environment) db" where
  "begin_transaction outcome th flags e =
     db_bind (en_is_ro e) (\<lambda>ro.
     let flags = (if ro then flags OR MDB_RDONLY else flags)
     in db_bind (open_transaction outcome th flags e) (\<lambda>e. Inr (\<lparr>to_handle = True, to_flags = flags\<rparr>, e)))"

definition begin_ro_transaction ::
    "(nat \<Rightarrow> mdb_rc \<times> mdb_rc) \<Rightarrow> thread \<Rightarrow> u32 \<Rightarrow> environment \<Rightarrow> (transaction_object \<times> environment) db" where
  "begin_ro_transaction outcome th flags e = begin_transaction outcome th (flags OR MDB_RDONLY) e"

definition begin_rw_transaction ::
    "(nat \<Rightarrow> mdb_rc \<times> mdb_rc) \<Rightarrow> thread \<Rightarrow> u32 \<Rightarrow> environment \<Rightarrow> (transaction_object \<times> environment) db" where
  "begin_rw_transaction outcome th flags e = begin_transaction outcome th (flags AND NOT MDB_RDONLY) e"

text \<open>\<open>th\<close> is the thread that ends the transaction.\<close>

definition to_abort :: "thread \<Rightarrow> transaction_object \<Rightarrow> environment \<Rightarrow> transaction_object \<times> environment" where
  "to_abort th t e =
     (if to_handle t then
        (t\<lparr>to_handle := False\<rparr>, if to_is_ro t then touch_ro_txns th (- 1) e else touch_rw_txns th (- 1) e)
      else (t, e))"

definition to_commit :: "mdb_rc \<Rightarrow> thread \<Rightarrow> transaction_object \<Rightarrow> environment \<Rightarrow> mdb_rc \<times> transaction_object \<times> environment" where
  "to_commit rc th t e =
     (if \<not> to_handle t then (MDB_BAD_TXN, t, e)
      else (rc, t\<lparr>to_handle := False\<rparr>, if to_is_ro t then touch_ro_txns th (- 1) e else touch_rw_txns th (- 1) e))"

section \<open>The cache of environments\<close>

text \<open>
  The static map from the hash of a lower-case path to a weak pointer with flags.  A weak pointer is the number
  of an environment in \<open>live\<close>, the environments some owner still holds.
\<close>

record env_cache =
  ec_envs :: "u64 \<rightharpoonup> nat \<times> u32"
  ec_live :: "nat \<rightharpoonup> environment"
  ec_next :: nat

definition to_lower_copy :: "string \<Rightarrow> string" where
  "to_lower_copy = map (\<lambda>c. let n = of_char c :: nat in if 65 \<le> n \<and> n \<le> 90 then char_of (n + 32) else c)"

definition get_env ::
    "(string \<Rightarrow> u64) \<Rightarrow> (database_config \<Rightarrow> environment db) \<Rightarrow> database_config \<Rightarrow> env_cache \<Rightarrow> nat db \<times> env_cache" where
  "get_env path_hash mk config c =
     (let config = (if dc_flags config \<noteq> 0 then config\<lparr>dc_flags := dc_flags config AND NOT MDB_RDONLY\<rparr> else config);
          compare_flags = dc_flags config;
          envkey = path_hash (to_lower_copy (dc_path config));
          create = (\<lambda>c.
            case mk config of
              Inl err \<Rightarrow> (Inl err, c)
            | Inr newitem \<Rightarrow>
                (Inr (ec_next c), c\<lparr>ec_envs := (ec_envs c)(envkey \<mapsto> (ec_next c, compare_flags)),
                   ec_live := (ec_live c)(ec_next c \<mapsto> newitem), ec_next := ec_next c + 1\<rparr>))
      in case ec_envs c envkey of
           None \<Rightarrow> create c
         | Some (i, flags) \<Rightarrow>
             if flags \<noteq> compare_flags then (Inl (Lmdb_exception MDB_INCOMPATIBLE), c)
             else
               let erased = c\<lparr>ec_envs := (ec_envs c)(envkey := None)\<rparr>
               in case ec_live c i of
                    Some item \<Rightarrow> if en_open item then (Inr i, c) else create erased
                  | None \<Rightarrow> create erased)"

section \<open>The state machine\<close>

text \<open>
  An environment with its transactions.  Each transaction remembers the thread that opened it, which the code
  does not: it counts a transaction out for the thread that ends it.
\<close>

record env_state =
  es_env :: environment
  es_txns :: "(transaction_object \<times> thread) list"

datatype env_label =
    Began thread u32
  | Refused thread u32 db_error
  | Ended thread nat

inductive env_step :: "env_state \<Rightarrow> env_label \<Rightarrow> env_state \<Rightarrow> bool" where
  begins: "begin_transaction outcome th flags (es_env s) = Inr (t, e) \<Longrightarrow>
    env_step s (Began th flags) \<lparr>es_env = e, es_txns = es_txns s @ [(t, th)]\<rparr>"
| refuses: "begin_transaction outcome th flags (es_env s) = Inl err \<Longrightarrow> env_step s (Refused th flags err) s"
| commits: "i < length (es_txns s) \<Longrightarrow> es_txns s ! i = (t, owner) \<Longrightarrow> to_commit rc th t (es_env s) = (rc', t', e) \<Longrightarrow>
    env_step s (Ended th i) \<lparr>es_env = e, es_txns = (es_txns s)[i := (t', owner)]\<rparr>"
| aborts: "i < length (es_txns s) \<Longrightarrow> es_txns s ! i = (t, owner) \<Longrightarrow> to_abort th t (es_env s) = (t', e) \<Longrightarrow>
    env_step s (Ended th i) \<lparr>es_env = e, es_txns = (es_txns s)[i := (t', owner)]\<rparr>"

inductive_cases env_stepE: "env_step s l s'"

text \<open>A run in which every transaction is ended by the thread that opened it.\<close>

inductive disciplined :: "environment \<Rightarrow> env_state \<Rightarrow> bool" where
  start: "en_open e \<Longrightarrow> en_ro_txns e = (\<lambda>_. 0) \<Longrightarrow> en_rw_txns e = (\<lambda>_. 0) \<Longrightarrow> disciplined e \<lparr>es_env = e, es_txns = []\<rparr>"
| step: "disciplined e s \<Longrightarrow> env_step s l s' \<Longrightarrow> (\<forall>th i. l = Ended th i \<longrightarrow> th = snd (es_txns s ! i)) \<Longrightarrow> disciplined e s'"

definition live :: "bool \<Rightarrow> thread \<Rightarrow> env_state \<Rightarrow> nat" where
  "live ro th s = length (filter (\<lambda>(t, owner). to_handle t \<and> to_is_ro t = ro \<and> owner = th) (es_txns s))"

text \<open>The counts are those of the live transactions, and LMDB's limits on them hold.\<close>

definition env_inv :: "environment \<Rightarrow> env_state \<Rightarrow> bool" where
  "env_inv e0 s \<longleftrightarrow>
     en_open (es_env s) \<and> en_flags (es_env s) = en_flags e0 \<and>
     (\<forall>th. get_ro_txns th (es_env s) = int (live True th s) \<and> get_rw_txns th (es_env s) = int (live False th s) \<and>
       live False th s \<le> 1 \<and>
       (en_flags e0 AND MDB_RDONLY = MDB_RDONLY \<longrightarrow> live False th s = 0) \<and>
       (en_flags e0 AND MDB_NOTLS \<noteq> MDB_NOTLS \<longrightarrow> live True th s \<le> 1))"

lemma length_filter_update:
  "i < length xs \<Longrightarrow> length (filter P (xs[i := y])) + (if P (xs ! i) then 1 else 0) = length (filter P xs) + (if P y then 1 else 0)"
proof (induction xs arbitrary: i)
  case (Cons x xs)
  then show ?case by (cases i) auto
qed simp

lemma begin_transaction_Inr:
  assumes "begin_transaction outcome th flags e = Inr (t, e')"
  shows "en_open e" "to_handle t" "get_rw_txns th e = 0" "en_flags e AND MDB_RDONLY = MDB_RDONLY \<Longrightarrow> to_is_ro t"
    "to_is_ro t \<Longrightarrow> en_flags e AND MDB_NOTLS \<noteq> MDB_NOTLS \<Longrightarrow> get_ro_txns th e = 0"
    "e' = (if to_is_ro t then touch_ro_txns th 1 e else touch_rw_txns th 1 e)"
proof -
  have op: "en_open e"
    using assms by (cases "en_open e") (auto simp: begin_transaction_def en_is_ro_def en_get_flags_def err_handler_def EINVAL_def)
  define f where "f = (if en_flags e AND MDB_RDONLY = MDB_RDONLY then flags OR MDB_RDONLY else flags)"
  have b: "begin_transaction outcome th flags e =
      db_bind (open_transaction outcome th f e) (\<lambda>e. Inr (\<lparr>to_handle = True, to_flags = f\<rparr>, e))"
    using op by (simp add: begin_transaction_def en_is_ro_def en_get_flags_def err_handler_def f_def Let_def)
  then obtain o: "open_transaction outcome th f e = Inr e'" and t: "t = \<lparr>to_handle = True, to_flags = f\<rparr>"
    using assms by (cases "open_transaction outcome th f e") auto
  have ro: "to_is_ro t \<longleftrightarrow> f AND MDB_RDONLY = MDB_RDONLY" by (simp add: to_is_ro_def t)
  show "en_open e" "to_handle t" using op t by simp_all
  have cs: "get_rw_txns th e = 0" "\<not> (en_flags e AND MDB_RDONLY = MDB_RDONLY \<and> \<not> to_is_ro t)"
    "\<not> (to_is_ro t \<and> en_flags e AND MDB_NOTLS \<noteq> MDB_NOTLS \<and> get_ro_txns th e \<noteq> 0)"
    using o op by (auto simp: open_transaction_def en_get_flags_def err_handler_def ro Let_def split: if_splits)
  then show "get_rw_txns th e = 0" "en_flags e AND MDB_RDONLY = MDB_RDONLY \<Longrightarrow> to_is_ro t"
    "to_is_ro t \<Longrightarrow> en_flags e AND MDB_NOTLS \<noteq> MDB_NOTLS \<Longrightarrow> get_ro_txns th e = 0" by auto
  have "db_bind (begin_loop outcome 0 3) (\<lambda>_. Inr (if to_is_ro t then touch_ro_txns th 1 e else touch_rw_txns th 1 e)) = Inr e'"
    using o op cs by (auto simp: open_transaction_def en_get_flags_def err_handler_def ro Let_def split: if_splits)
  then show "e' = (if to_is_ro t then touch_ro_txns th 1 e else touch_rw_txns th 1 e)"
    by (cases "begin_loop outcome 0 3") auto
qed

lemma touch_simps [simp]:
  "get_ro_txns th (touch_ro_txns th' n e) = get_ro_txns th e + (if th = th' then n else 0)"
  "get_rw_txns th (touch_ro_txns th' n e) = get_rw_txns th e"
  "get_rw_txns th (touch_rw_txns th' n e) = get_rw_txns th e + (if th = th' then n else 0)"
  "get_ro_txns th (touch_rw_txns th' n e) = get_ro_txns th e"
  "en_open (touch_ro_txns th' n e) = en_open e" "en_open (touch_rw_txns th' n e) = en_open e"
  "en_flags (touch_ro_txns th' n e) = en_flags e" "en_flags (touch_rw_txns th' n e) = en_flags e"
  by (auto simp: get_ro_txns_def get_rw_txns_def touch_ro_txns_def touch_rw_txns_def)

lemma live_append: "live ro th \<lparr>es_env = e, es_txns = ts @ [(t, owner)]\<rparr> =
    live ro th \<lparr>es_env = e', es_txns = ts\<rparr> + (if to_handle t \<and> to_is_ro t = ro \<and> owner = th then 1 else 0)"
  by (simp add: live_def)

lemma live_end:
  assumes "i < length (es_txns s)" "es_txns s ! i = (t, owner)"
  shows "live ro th \<lparr>es_env = e, es_txns = (es_txns s)[i := (t\<lparr>to_handle := False\<rparr>, owner)]\<rparr> +
    (if to_handle t \<and> to_is_ro t = ro \<and> owner = th then 1 else 0) = live ro th s"
  using length_filter_update [OF assms(1), of "\<lambda>(t, owner). to_handle t \<and> to_is_ro t = ro \<and> owner = th" "(t\<lparr>to_handle := False\<rparr>, owner)"]
    assms(2) by (simp add: live_def)

lemma env_inv_begin:
  assumes "env_inv e0 s" "begin_transaction outcome th flags (es_env s) = Inr (t, e)"
  shows "env_inv e0 \<lparr>es_env = e, es_txns = es_txns s @ [(t, th)]\<rparr>"
proof -
  note b = begin_transaction_Inr [OF assms(2)]
  have l: "live ro th' \<lparr>es_env = e, es_txns = es_txns s @ [(t, th)]\<rparr> = live ro th' s + (if to_is_ro t = ro \<and> th = th' then 1 else 0)"
    for ro th' using b(2) by (simp add: live_def)
  show ?thesis using assms(1) b(1,3-6) unfolding env_inv_def l by (auto split: if_splits)
qed

lemma env_inv_end:
  assumes "env_inv e0 s" "i < length (es_txns s)" "es_txns s ! i = (t, th)" "to_handle t"
  shows "env_inv e0 \<lparr>es_env = (if to_is_ro t then touch_ro_txns th (- 1) (es_env s) else touch_rw_txns th (- 1) (es_env s)),
    es_txns = (es_txns s)[i := (t\<lparr>to_handle := False\<rparr>, th)]\<rparr>" (is "env_inv e0 ?s'")
proof -
  have l: "live ro th' ?s' + (if to_is_ro t = ro \<and> th = th' then 1 else 0) = live ro th' s" for ro th'
    using live_end [OF assms(2,3), of ro th'] assms(4) by simp
  have "get_ro_txns th' (es_env ?s') = int (live True th' ?s') \<and> get_rw_txns th' (es_env ?s') = int (live False th' ?s') \<and>
       live False th' ?s' \<le> 1 \<and>
       (en_flags e0 AND MDB_RDONLY = MDB_RDONLY \<longrightarrow> live False th' ?s' = 0) \<and>
       (en_flags e0 AND MDB_NOTLS \<noteq> MDB_NOTLS \<longrightarrow> live True th' ?s' \<le> 1)" for th'
  proof -
    have "get_ro_txns th' (es_env s) = int (live True th' s)" "get_rw_txns th' (es_env s) = int (live False th' s)" "live False th' s \<le> 1"
      "en_flags e0 AND MDB_RDONLY = MDB_RDONLY \<longrightarrow> live False th' s = 0" "en_flags e0 AND MDB_NOTLS \<noteq> MDB_NOTLS \<longrightarrow> live True th' s \<le> 1"
      using assms(1) by (simp_all add: env_inv_def)
    moreover have "get_ro_txns th' (es_env ?s') = get_ro_txns th' (es_env s) - (if to_is_ro t \<and> th = th' then 1 else 0)"
      "get_rw_txns th' (es_env ?s') = get_rw_txns th' (es_env s) - (if \<not> to_is_ro t \<and> th = th' then 1 else 0)" by auto
    ultimately show ?thesis using l [of True th'] l [of False th'] by (auto simp del: env_state.simps split: if_splits)
  qed
  moreover have "en_open (es_env ?s')" "en_flags (es_env ?s') = en_flags e0" using assms(1) by (simp_all add: env_inv_def)
  ultimately show ?thesis unfolding env_inv_def by blast
qed

lemma same_state_update: "es_txns s ! i = x \<Longrightarrow> \<lparr>es_env = es_env s, es_txns = (es_txns s)[i := x]\<rparr> = s"
  by (cases s) auto

lemma disciplined_inv: "disciplined e s \<Longrightarrow> env_inv e s"
proof (induction rule: disciplined.induct)
  case (start e)
  then show ?case by (simp add: env_inv_def live_def get_ro_txns_def get_rw_txns_def)
next
  case (step e s l s')
  from step(2) show ?case
  proof (cases rule: env_step.cases)
    case (begins outcome th flags t e')
    then show ?thesis using env_inv_begin [OF step.IH] by simp
  next
    case (refuses outcome th flags err)
    then show ?thesis using step.IH by simp
  next
    case (commits i t owner rc th rc' t' e')
    then have "th = owner" using step(3) by simp
    then show ?thesis using commits env_inv_end [OF step.IH] step.IH by (cases "to_handle t") (auto simp: to_commit_def same_state_update)
  next
    case (aborts i t owner th t' e')
    then have "th = owner" using step(3) by simp
    then show ?thesis using aborts env_inv_end [OF step.IH] step.IH by (cases "to_handle t") (auto simp: to_abort_def same_state_update)
  qed
qed

lemma begin_loop_succeeds:
  assumes "k < n" "\<forall>j < k. fst (outcome (i + j)) = MDB_MAP_RESIZED \<longrightarrow> snd (outcome (i + j)) = MDB_SUCCESS" "fst (outcome (i + k)) = MDB_SUCCESS"
  shows "begin_loop outcome i n = Inr ()"
  using assms
proof (induction n arbitrary: i k)
  case (Suc n)
  show ?case
  proof (cases k)
    case 0
    then show ?thesis using Suc.prems by (cases "outcome i") simp
  next
    case (Suc k')
    have "fst (outcome i) = MDB_MAP_RESIZED \<longrightarrow> snd (outcome i) = MDB_SUCCESS" using Suc.prems(2) Suc by force
    moreover have "begin_loop outcome (i + 1) n = Inr ()"
      using Suc.prems Suc by (intro Suc.IH [of k']) (auto simp: add.commute add.left_commute)
    moreover have "n > 0" using Suc.prems(1) Suc by simp
    ultimately show ?thesis by (cases "outcome i") (auto simp: err_handler_def)
  qed
qed simp

lemma db_bind_err_handler: "db_bind (err_handler rc) f = Inr x \<longleftrightarrow> rc = MDB_SUCCESS \<and> f () = Inr x"
  by (simp add: err_handler_def)

lemma new_environment_flags:
  "new_environment files page mdb config = Inr e \<Longrightarrow> en_open e \<and> en_flags e = dc_flags config"
  unfolding new_environment_def Let_def
  by (auto simp: db_bind_err_handler split: if_splits data_file.splits prod.splits)

definition sample_environment :: "u32 \<Rightarrow> environment" where
  "sample_environment flags =
     \<lparr>en_open = True, en_path = ''db'', en_flags = flags, en_ro_txns = (\<lambda>_. 0), en_rw_txns = (\<lambda>_. 0)\<rparr>"

section \<open>Properties\<close>

text \<open>
  C23. As long as every transaction is ended by the thread that opened it, the counts of an environment are the numbers
  of the live read-only and read-write transactions of each thread, no thread has two read-write transactions, none has
  one in a read-only environment, and without \<open>MDB_NOTLS\<close> none has two read-only transactions, in whatever order
  the threads act and whatever LMDB answers.
\<close>

theorem transaction_counts_correct:
  assumes "disciplined e s"
  shows "\<forall>th. get_ro_txns th (es_env s) = int (live True th s) \<and> get_rw_txns th (es_env s) = int (live False th s) \<and>
    live False th s \<le> 1 \<and>
    (en_flags e AND MDB_RDONLY = MDB_RDONLY \<longrightarrow> live False th s = 0) \<and>
    (en_flags e AND MDB_NOTLS \<noteq> MDB_NOTLS \<longrightarrow> live True th s \<le> 1)"
  using disciplined_inv [OF assms] by (simp add: env_inv_def)

theorem transaction_counts_correct_witness:
  "\<exists>s. disciplined (sample_environment 0) s \<and> live False 1 s = 1 \<and> get_rw_txns 1 (es_env s) = 1"
proof -
  let ?e = "sample_environment 0"
  have "begin_transaction (\<lambda>_. (MDB_SUCCESS, MDB_SUCCESS)) 1 0 ?e = Inr (\<lparr>to_handle = True, to_flags = 0\<rparr>, touch_rw_txns 1 1 ?e)"
    by (simp add: begin_transaction_def en_is_ro_def en_get_flags_def err_handler_def open_transaction_def sample_environment_def
        get_rw_txns_def MDB_RDONLY_def numeral_3_eq_3)
  then have d: "disciplined ?e \<lparr>es_env = touch_rw_txns 1 1 ?e, es_txns = [(\<lparr>to_handle = True, to_flags = 0\<rparr>, 1)]\<rparr>" (is "disciplined _ ?s")
    using env_step.begins [of _ 1 0 "\<lparr>es_env = ?e, es_txns = []\<rparr>"]
    by (intro disciplined.step [OF disciplined.start, of ?e "Began 1 0"]) (auto simp: sample_environment_def)
  have l: "live False 1 ?s = 1" by (simp add: live_def to_is_ro_def MDB_RDONLY_def)
  have "get_rw_txns 1 (es_env ?s) = int (live False 1 ?s)" using transaction_counts_correct [OF d] by blast
  then have "get_rw_txns 1 (es_env ?s) = 1" by (simp only: l of_nat_1)
  then show ?thesis using d l by blast
qed

text \<open>
  C24. A thread that may begin a read-write transaction on a writable environment can: one that has no open
  transaction, or under \<open>MDB_NOTLS\<close> only read-only ones.  It suffices that LMDB begins the transaction in one of three
  attempts, whatever it answered before, as long as the adaption to a resized map succeeds.  In every disciplined
  run the step is then enabled, so after a thread has ended its transaction it can begin the next.
\<close>

theorem rw_transaction_enabled:
  assumes "disciplined e s" and "en_flags e AND MDB_RDONLY \<noteq> MDB_RDONLY" and "live False th s = 0"
    and "live True th s = 0 \<or> en_flags e AND MDB_NOTLS = MDB_NOTLS"
    and "k < 3" and "\<forall>j < k. fst (outcome j) = MDB_MAP_RESIZED \<longrightarrow> snd (outcome j) = MDB_SUCCESS" and "fst (outcome k) = MDB_SUCCESS"
  shows "\<exists>t e'. begin_rw_transaction outcome th flags (es_env s) = Inr (t, e') \<and> \<not> to_is_ro t \<and> to_handle t \<and>
    env_step s (Began th (flags AND NOT MDB_RDONLY)) \<lparr>es_env = e', es_txns = es_txns s @ [(t, th)]\<rparr>"
proof -
  have inv: "en_open (es_env s)" "en_flags (es_env s) = en_flags e" "get_rw_txns th (es_env s) = 0"
    using disciplined_inv [OF assms(1)] assms(3) by (simp_all add: env_inv_def)
  let ?f = "flags AND NOT MDB_RDONLY"
  have f: "?f AND MDB_RDONLY \<noteq> MDB_RDONLY" by (simp add: and.assoc) (simp add: MDB_RDONLY_def)
  have "begin_loop outcome 0 3 = Inr ()" using begin_loop_succeeds [of k 3 outcome 0] assms(5-7) by simp
  then have b: "begin_transaction outcome th ?f (es_env s) = Inr (\<lparr>to_handle = True, to_flags = ?f\<rparr>, touch_rw_txns th 1 (es_env s))"
    using inv assms(2) f by (simp add: begin_transaction_def en_is_ro_def en_get_flags_def err_handler_def open_transaction_def)
  then show ?thesis
    using env_step.begins [OF b] f by (simp add: begin_rw_transaction_def to_is_ro_def)
qed

theorem rw_transaction_enabled_witness:
  "\<exists>t e'. begin_rw_transaction (\<lambda>j. if j = 0 then (MDB_MAP_RESIZED, MDB_SUCCESS) else (MDB_SUCCESS, MDB_SUCCESS)) 1 0
     (sample_environment 0) = Inr (t, e') \<and> to_handle t"
proof -
  have "disciplined (sample_environment 0) \<lparr>es_env = sample_environment 0, es_txns = []\<rparr>"
    by (rule disciplined.start) (simp_all add: sample_environment_def)
  from rw_transaction_enabled [OF this, of 1 1 "\<lambda>j. if j = 0 then (MDB_MAP_RESIZED, MDB_SUCCESS) else (MDB_SUCCESS, MDB_SUCCESS)" 0]
  show ?thesis by (auto simp: sample_environment_def MDB_RDONLY_def live_def)
qed

definition willing_lmdb :: lmdb_env where
  "willing_lmdb =
     \<lparr>mdb_env_create = MDB_SUCCESS, mdb_env_set_mapsize = (\<lambda>_. MDB_SUCCESS), mdb_env_set_maxdbs = (\<lambda>_. MDB_SUCCESS),
      mdb_env_open = (\<lambda>_ _ _. MDB_SUCCESS)\<rparr>"

lemma new_environment_opens:
  "dc_path config \<noteq> [] \<Longrightarrow>
   \<exists>e. new_environment (\<lambda>_. No_file) page willing_lmdb config = Inr e"
  by (simp add: new_environment_def willing_lmdb_def err_handler_def Let_def)

lemma get_env_fresh:
  assumes "ec_envs c (path_hash (to_lower_copy (dc_path config))) = None"
    and mk: "\<And>f. \<exists>e. mk (config\<lparr>dc_flags := f\<rparr>) = Inr e"
  shows "\<exists>c'. get_env path_hash mk config c = (Inr (ec_next c), c')"
proof -
  let ?config = "if dc_flags config \<noteq> 0 then config\<lparr>dc_flags := dc_flags config AND NOT MDB_RDONLY\<rparr> else config"
  have same: "config\<lparr>dc_flags := dc_flags config\<rparr> = config" by simp
  obtain e where "mk ?config = Inr e"
    using mk [of "dc_flags config AND NOT MDB_RDONLY"] mk [of "dc_flags config"] unfolding same by (cases "dc_flags config = 0") auto
  with assms(1) show ?thesis unfolding get_env_def Let_def by (cases "dc_flags config = 0") simp_all
qed

text \<open>
  C25. An environment that \<open>get_env\<close> opens for a path it has none for is never read-only, even if the configuration asks for it: the flag is
  cleared in the configuration itself and not only in the flags that are compared.
\<close>

theorem get_env_drops_readonly:
  assumes "ec_envs c (path_hash (to_lower_copy (dc_path config))) = None"
    and "get_env path_hash (new_environment files page mdb) config c = (Inr i, c')"
  shows "\<exists>e. ec_live c' i = Some e \<and> en_is_ro e = Inr False"
proof -
  let ?f = "if dc_flags config \<noteq> 0 then dc_flags config AND NOT MDB_RDONLY else dc_flags config"
  let ?config = "if dc_flags config \<noteq> 0 then config\<lparr>dc_flags := dc_flags config AND NOT MDB_RDONLY\<rparr> else config"
  obtain e where e: "new_environment files page mdb ?config = Inr e" "ec_live c' i = Some e"
    using assms by (auto simp: get_env_def Let_def split: sum.splits if_splits)
  have "en_open e \<and> en_flags e = dc_flags ?config" by (rule new_environment_flags [OF e(1)])
  moreover have "dc_flags ?config AND MDB_RDONLY \<noteq> MDB_RDONLY" by (simp add: and.assoc) (simp add: MDB_RDONLY_def)
  ultimately show ?thesis using e(2) by (simp add: en_is_ro_def en_get_flags_def err_handler_def)
qed

theorem get_env_drops_readonly_witness:
  "\<exists>i c' e. get_env (\<lambda>_. 0) (new_environment (\<lambda>_. No_file) 4096 willing_lmdb)
     (set_readonly True (new_database_config ''db'')) \<lparr>ec_envs = Map.empty, ec_live = Map.empty, ec_next = 0\<rparr> = (Inr i, c') \<and>
   ec_live c' i = Some e \<and> en_is_ro e = Inr False"
proof -
  let ?config = "set_readonly True (new_database_config ''db'')"
  let ?c = "\<lparr>ec_envs = Map.empty, ec_live = Map.empty, ec_next = 0\<rparr>"
  have "\<exists>e. new_environment (\<lambda>_. No_file) 4096 willing_lmdb (?config\<lparr>dc_flags := f\<rparr>) = Inr e" for f
    by (rule new_environment_opens) (simp add: set_readonly_def new_database_config_def)
  then obtain c' where g: "get_env (\<lambda>_. 0) (new_environment (\<lambda>_. No_file) 4096 willing_lmdb) ?config ?c =
      (Inr 0, c')"
    using get_env_fresh [of ?c "\<lambda>_. 0" ?config] by auto
  show ?thesis using get_env_drops_readonly [OF _ g] g by fastforce
qed

end
