(* ===== verification/Caches.thy ===== *)
theory Caches
  imports Config "HOL-Library.AList"
begin

text \<open>
  core/silkworm/common/lru\_cache.hpp, core/silkworm/execution/analysis\_cache.cpp and state\_pool.cpp: the caches of the
  interpreter, and the part of execution/evm.cpp that asks them.

  A \<open>std::list\<close> is a list of nodes with an identity, which an iterator names; following the iterator of an
  erased node is undefined behaviour, \<open>None\<close>.  The hash map from keys to iterators is never iterated.
\<close>

section \<open>The cache of least recent use\<close>

type_synonym ('k, 'v) lru_node = "nat \<times> 'k \<times> 'v"

record ('k, 'v) lru_cache =
  cache_items_list :: "('k, 'v) lru_node list"
  cache_items_map :: "('k \<times> nat) list"
  cache_max_size :: u64
  cache_fresh :: nat

definition new_lru_cache :: "u64 \<Rightarrow> ('k, 'v) lru_cache" where
  "new_lru_cache max_size = \<lparr>cache_items_list = [], cache_items_map = [], cache_max_size = max_size, cache_fresh = 0\<rparr>"

definition list_erase :: "nat \<Rightarrow> ('k, 'v) lru_node list \<Rightarrow> ('k, 'v) lru_node list option" where
  "list_erase i xs = (if i \<in> fst ` set xs then Some (filter (\<lambda>n. fst n \<noteq> i) xs) else None)"

text \<open>The list and the map after the new node is linked and a previous one of the key unlinked.\<close>

definition lru_link :: "'k \<Rightarrow> 'v \<Rightarrow> ('k, 'v) lru_cache \<Rightarrow> (('k, 'v) lru_node list \<times> ('k \<times> nat) list) option" where
  "lru_link key v c =
     (let it = map_of (cache_items_map c) key;
          items = (cache_fresh c, key, v) # cache_items_list c
      in map_option (\<lambda>(items, m). (items, AList.update key (cache_fresh c) m))
           (case it of
              None \<Rightarrow> Some (items, cache_items_map c)
            | Some i \<Rightarrow> map_option (\<lambda>items. (items, AList.delete key (cache_items_map c))) (list_erase i items)))"

definition lru_put :: "'k \<Rightarrow> 'v \<Rightarrow> ('k, 'v) lru_cache \<Rightarrow> ('k, 'v) lru_cache option" where
  "lru_put key v c =
     (case lru_link key v c of
        None \<Rightarrow> None
      | Some (items, m) \<Rightarrow>
          let c = c\<lparr>cache_items_list := items, cache_items_map := m, cache_fresh := cache_fresh c + 1\<rparr>
          in Some (if length m > unat (cache_max_size c)
                   then c\<lparr>cache_items_map := AList.delete (fst (snd (List.last items))) m, cache_items_list := butlast items\<rparr>
                   else c))"

definition lru_get :: "'k \<Rightarrow> ('k, 'v) lru_cache \<Rightarrow> ('v option \<times> ('k, 'v) lru_cache) option" where
  "lru_get key c =
     (case map_of (cache_items_map c) key of
        None \<Rightarrow> Some (None, c)
      | Some i \<Rightarrow>
          (case find (\<lambda>n. fst n = i) (cache_items_list c) of
             None \<Rightarrow> None
           | Some n \<Rightarrow> Some (Some (snd (snd n)), c\<lparr>cache_items_list := n # filter (\<lambda>n. fst n \<noteq> i) (cache_items_list c)\<rparr>)))"

definition lru_size :: "('k, 'v) lru_cache \<Rightarrow> nat" where
  "lru_size c = length (cache_items_map c)"

definition lru_clear :: "('k, 'v) lru_cache \<Rightarrow> ('k, 'v) lru_cache" where
  "lru_clear c = c\<lparr>cache_items_list := [], cache_items_map := []\<rparr>"

section \<open>The cache of analyses and the pool of states\<close>

record 'a analysis_cache =
  ac_cache :: "(bytes32, 'a) lru_cache"
  ac_revision :: evmc_revision

definition kDefaultMaxSize :: u64 where
  "kDefaultMaxSize = 5000"

definition new_analysis_cache :: "u64 \<Rightarrow> 'a analysis_cache" where
  "new_analysis_cache maxSize = \<lparr>ac_cache = new_lru_cache maxSize, ac_revision = rev_of kMaxRevision\<rparr>"

definition analysis_get :: "bytes32 \<Rightarrow> evmc_revision \<Rightarrow> 'a analysis_cache \<Rightarrow> ('a option \<times> 'a analysis_cache) option" where
  "analysis_get key rv c =
     (if ac_revision c = rv
      then map_option (\<lambda>(r, cache). (r, c\<lparr>ac_cache := cache\<rparr>)) (lru_get key (ac_cache c))
      else Some (None, c))"

definition analysis_put :: "bytes32 \<Rightarrow> 'a \<Rightarrow> evmc_revision \<Rightarrow> 'a analysis_cache \<Rightarrow> 'a analysis_cache option" where
  "analysis_put key analysis rv c =
     (let cache = (if ac_revision c \<noteq> rv then lru_clear (ac_cache c) else ac_cache c)
      in map_option (\<lambda>cache. c\<lparr>ac_cache := cache, ac_revision := rv\<rparr>) (lru_put key analysis cache))"

text \<open>The analysis that the default interpreter runs, with a cache or none; \<open>analyze\<close> is that of evmone.\<close>

definition analysis_for ::
    "(evmc_revision \<Rightarrow> bytes \<Rightarrow> 'a) \<Rightarrow> evmc_revision \<Rightarrow> bytes \<Rightarrow> bytes32 option \<Rightarrow> 'a analysis_cache option \<Rightarrow>
     ('a \<times> 'a analysis_cache option) option" where
  "analysis_for analyze rv code code_hash analysis_cache =
     (case (code_hash, analysis_cache) of
        (Some h, Some c) \<Rightarrow>
          (case analysis_get h rv c of
             None \<Rightarrow> None
           | Some (Some analysis, c) \<Rightarrow> Some (analysis, Some c)
           | Some (None, c) \<Rightarrow>
               let analysis = analyze rv code
               in map_option (\<lambda>c. (analysis, Some c)) (analysis_put h analysis rv c))
      | _ \<Rightarrow> Some (analyze rv code, analysis_cache))"

text \<open>States are made by \<open>fresh\<close>; a state is put back as the execution left it and reset before its next use.\<close>

definition pool_acquire :: "'s \<Rightarrow> 's list \<Rightarrow> 's \<times> 's list" where
  "pool_acquire fresh pool = (case pool of [] \<Rightarrow> (fresh, []) | s # pool \<Rightarrow> (s, pool))"

definition pool_release :: "'s \<Rightarrow> 's list \<Rightarrow> 's list" where
  "pool_release s pool = s # pool"

section \<open>The cache as a list of keys by recency\<close>

text \<open>The specification: distinct keys with their values, the last used first, cut to the size of the cache.\<close>

definition recent_put :: "nat \<Rightarrow> 'k \<Rightarrow> 'v \<Rightarrow> ('k \<times> 'v) list \<Rightarrow> ('k \<times> 'v) list" where
  "recent_put n key v xs = take n ((key, v) # filter (\<lambda>p. fst p \<noteq> key) xs)"

definition recent_get :: "'k \<Rightarrow> ('k \<times> 'v) list \<Rightarrow> 'v option \<times> ('k \<times> 'v) list" where
  "recent_get key xs =
     (case map_of xs key of None \<Rightarrow> (None, xs) | Some v \<Rightarrow> (Some v, (key, v) # filter (\<lambda>p. fst p \<noteq> key) xs))"

definition lru_abs :: "('k, 'v) lru_cache \<Rightarrow> ('k \<times> 'v) list" where
  "lru_abs c = map snd (cache_items_list c)"

text \<open>The map points to exactly the nodes of the list.\<close>

definition lru_links :: "('k, 'v) lru_cache \<Rightarrow> bool" where
  "lru_links c \<longleftrightarrow>
     distinct (map fst (cache_items_list c)) \<and> distinct (map fst (lru_abs c)) \<and>
     distinct (map fst (cache_items_map c)) \<and>
     set (cache_items_map c) = (\<lambda>(i, k, v). (k, i)) ` set (cache_items_list c) \<and>
     (\<forall>i \<in> fst ` set (cache_items_list c). i < cache_fresh c)"

definition lru_wf :: "('k, 'v) lru_cache \<Rightarrow> bool" where
  "lru_wf c \<longleftrightarrow> lru_links c \<and> length (cache_items_list c) \<le> unat (cache_max_size c)"

lemma lru_linksD:
  assumes "lru_links c"
  shows "length (cache_items_map c) = length (cache_items_list c)"
    and "map_of (cache_items_map c) k = Some i \<longleftrightarrow> (\<exists>v. (i, k, v) \<in> set (cache_items_list c))"
    and "map_of (cache_items_map c) k = None \<longleftrightarrow> k \<notin> fst ` set (lru_abs c)"
proof -
  have d: "distinct (map fst (cache_items_map c))" and ds: "distinct (map fst (cache_items_list c))"
    and da: "distinct (map fst (lru_abs c))"
    and s: "set (cache_items_map c) = (\<lambda>(i, k, v). (k, i)) ` set (cache_items_list c)"
    using assms by (simp_all add: lru_links_def)
  have "inj_on (\<lambda>(i, k, v). (k, i)) (set (cache_items_list c))"
    using ds unfolding distinct_map inj_on_def by fastforce
  then have "card (set (cache_items_map c)) = card (set (cache_items_list c))" using s by (simp add: card_image)
  then show "length (cache_items_map c) = length (cache_items_list c)"
    using d ds by (simp add: distinct_map distinct_card)
  show m: "map_of (cache_items_map c) k = Some i \<longleftrightarrow> (\<exists>v. (i, k, v) \<in> set (cache_items_list c))" for k i
    using map_of_eq_Some_iff [OF d, of k i] s by force
  show "map_of (cache_items_map c) k = None \<longleftrightarrow> k \<notin> fst ` set (lru_abs c)"
    using s by (force simp: map_of_eq_None_iff lru_abs_def)
qed

lemma lru_links_node:
  assumes "lru_links c" and "(i, k, v) \<in> set (cache_items_list c)"
  shows "(j, k', v') \<in> set (cache_items_list c) \<Longrightarrow> j = i \<longleftrightarrow> k' = k"
    and "filter (\<lambda>p. fst p \<noteq> k) (lru_abs c) = map snd (filter (\<lambda>n. fst n \<noteq> i) (cache_items_list c))"
    and "find (\<lambda>n. fst n = i) (cache_items_list c) = Some (i, k, v)" and "map_of (lru_abs c) k = Some v"
proof -
  have ds: "distinct (map fst (cache_items_list c))" and da: "distinct (map (fst \<circ> snd) (cache_items_list c))"
    using assms(1) by (simp_all add: lru_links_def lru_abs_def)
  show same: "j = i \<longleftrightarrow> k' = k" if "(j, k', v') \<in> set (cache_items_list c)" for j k' v'
    using that assms(2) ds da unfolding distinct_map inj_on_def by force
  show "filter (\<lambda>p. fst p \<noteq> k) (lru_abs c) = map snd (filter (\<lambda>n. fst n \<noteq> i) (cache_items_list c))"
    unfolding lru_abs_def filter_map by (rule arg_cong [of _ _ "map snd"], rule filter_cong [OF refl]) (use same in force)
  show "find (\<lambda>n. fst n = i) (cache_items_list c) = Some (i, k, v)"
  proof -
    have "find (\<lambda>n. fst n = i) xs = Some (i, k, v)" if "(i, k, v) \<in> set xs" "distinct (map fst xs)" for xs
      using that by (induction xs) force+
    then show ?thesis using assms(2) ds by blast
  qed
  show "map_of (lru_abs c) k = Some v"
    using assms by (auto simp: lru_links_def lru_abs_def intro!: map_of_is_SomeI) force
qed

lemma lru_get_abs:
  assumes "lru_wf c"
  shows "\<exists>c'. lru_get k c = Some (fst (recent_get k (lru_abs c)), c') \<and> lru_wf c' \<and>
    lru_abs c' = snd (recent_get k (lru_abs c)) \<and> cache_max_size c' = cache_max_size c"
proof -
  have links: "lru_links c" using assms by (simp add: lru_wf_def)
  show ?thesis
  proof (cases "map_of (cache_items_map c) k")
    case None
    then have "map_of (lru_abs c) k = None" using lru_linksD(3) [OF links] by (simp add: map_of_eq_None_iff)
    then show ?thesis using None assms by (simp add: lru_get_def recent_get_def)
  next
    case (Some i)
    then obtain v where v: "(i, k, v) \<in> set (cache_items_list c)" using lru_linksD(2) [OF links] by blast
    note node = lru_links_node [OF links v]
    let ?c' = "c\<lparr>cache_items_list := (i, k, v) # filter (\<lambda>n. fst n \<noteq> i) (cache_items_list c)\<rparr>"
    have abs: "lru_abs ?c' = (k, v) # filter (\<lambda>p. fst p \<noteq> k) (lru_abs c)" unfolding node(2) by (simp add: lru_abs_def)
    have ds: "distinct (map fst (cache_items_list c))" and da: "distinct (map fst (lru_abs c))"
      using links by (simp_all add: lru_links_def)
    have "n = (i, k, v)" if "n \<in> set (cache_items_list c)" "fst n = i" for n
      using that v inj_onD [of fst "set (cache_items_list c)" n "(i, k, v)"] ds by (simp add: distinct_map)
    then have "insert (i, k, v) {n \<in> set (cache_items_list c). fst n \<noteq> i} = set (cache_items_list c)" using v by blast
    then have st: "set (cache_items_list ?c') = set (cache_items_list c)" by simp
    have "length (cache_items_list ?c') \<le> length (cache_items_list c)"
      using v length_filter_less [of "(i, k, v)" "cache_items_list c" "\<lambda>n. fst n \<noteq> i"] by simp
    moreover have "distinct (map fst (cache_items_list ?c'))" using ds by (auto simp: distinct_map_filter)
    moreover have "distinct (map fst (lru_abs ?c'))" unfolding abs using da by (auto simp: distinct_map_filter)
    ultimately have "lru_wf ?c'" using assms unfolding lru_wf_def lru_links_def st by simp
    then show ?thesis using Some node(3,4) abs by (simp add: lru_get_def recent_get_def)
  qed
qed

lemma set_delete: "set (AList.delete k xs) = {p \<in> set xs. fst p \<noteq> k}"
  by (auto simp: AList.delete_eq)

lemma set_update_delete: "set (AList.update k i (AList.delete k xs)) = insert (k, i) {p \<in> set xs. fst p \<noteq> k}"
proof -
  have "k \<notin> fst ` set ys \<Longrightarrow> AList.update k i ys = ys @ [(k, i)]" for ys :: "('a \<times> 'b) list" by (induction ys) auto
  moreover have "k \<notin> fst ` set (AList.delete k xs)" by (auto simp: set_delete)
  ultimately have "AList.update k i (AList.delete k xs) = AList.delete k xs @ [(k, i)]" by blast
  then show ?thesis by (auto simp: set_delete)
qed

lemma lru_link_links:
  assumes "lru_links c"
  shows "\<exists>items m. lru_link k v c = Some (items, m) \<and>
    lru_links (c\<lparr>cache_items_list := items, cache_items_map := m, cache_fresh := cache_fresh c + 1\<rparr>) \<and>
    map snd items = (k, v) # filter (\<lambda>p. fst p \<noteq> k) (lru_abs c)"
proof -
  let ?rest = "filter (\<lambda>n. fst (snd n) \<noteq> k) (cache_items_list c)"
  let ?m = "AList.update k (cache_fresh c) (AList.delete k (cache_items_map c))"
  have fresh: "cache_fresh c \<notin> fst ` set (cache_items_list c)" using assms by (auto simp: lru_links_def)
  have link: "lru_link k v c = Some ((cache_fresh c, k, v) # ?rest, ?m)"
  proof (cases "map_of (cache_items_map c) k")
    case None
    then have "k \<notin> fst ` set (lru_abs c)" using lru_linksD(3) [OF assms] by blast
    then have "?rest = cache_items_list c" by (force simp: filter_id_conv lru_abs_def)
    moreover have "AList.delete k (cache_items_map c) = cache_items_map c"
      using None by (metis delete_id map_of_eq_None_iff)
    ultimately show ?thesis using None by (simp add: lru_link_def)
  next
    case (Some i)
    then obtain w where w: "(i, k, w) \<in> set (cache_items_list c)" using lru_linksD(2) [OF assms] by blast
    have "filter (\<lambda>n. fst n \<noteq> i) (cache_items_list c) = ?rest"
      by (rule filter_cong [OF refl]) (use lru_links_node(1) [OF assms w] in force)
    moreover have "cache_fresh c \<noteq> i" using fresh w by force
    ultimately show ?thesis using Some w by (force simp: lru_link_def list_erase_def)
  qed
  have abs: "map snd ((cache_fresh c, k, v) # ?rest) = (k, v) # filter (\<lambda>p. fst p \<noteq> k) (lru_abs c)"
    by (simp add: lru_abs_def filter_map comp_def)
  have l: "distinct (map fst (cache_items_list c))" "distinct (map fst (lru_abs c))" "distinct (map fst (cache_items_map c))"
    "set (cache_items_map c) = (\<lambda>(i, k, v). (k, i)) ` set (cache_items_list c)"
    "\<forall>i \<in> fst ` set (cache_items_list c). i < cache_fresh c"
    using assms by (simp_all add: lru_links_def)
  let ?c' = "c\<lparr>cache_items_list := (cache_fresh c, k, v) # ?rest, cache_items_map := ?m, cache_fresh := cache_fresh c + 1\<rparr>"
  have "distinct (map fst (cache_items_list ?c'))" using l(1) fresh by (auto simp: distinct_map_filter)
  moreover have "distinct (map fst (lru_abs ?c'))"
  proof -
    have "lru_abs ?c' = (k, v) # filter (\<lambda>p. fst p \<noteq> k) (lru_abs c)" by (simp add: lru_abs_def filter_map comp_def)
    then show ?thesis using l(2) by (auto simp: distinct_map_filter)
  qed
  moreover have "distinct (map fst (cache_items_map ?c'))" using l(3) by (simp add: distinct_update distinct_delete)
  moreover have "set (cache_items_map ?c') = (\<lambda>(i, k, v). (k, i)) ` set (cache_items_list ?c')"
  proof -
    have "set ?m = insert (k, cache_fresh c) {p \<in> set (cache_items_map c). fst p \<noteq> k}" by (rule set_update_delete)
    also have "\<dots> = (\<lambda>(i, k, v). (k, i)) ` insert (cache_fresh c, k, v) (set ?rest)" unfolding l(4) by force
    finally show ?thesis by simp
  qed
  moreover have "\<forall>i \<in> fst ` set (cache_items_list ?c'). i < cache_fresh ?c'" using l(5) by force
  ultimately have "lru_links ?c'" unfolding lru_links_def by blast
  show ?thesis by (intro exI conjI) fact+
qed

lemma lru_links_drop:
  assumes "lru_links c" and "cache_items_list c \<noteq> []"
  shows "lru_links (c\<lparr>cache_items_map := AList.delete (fst (snd (List.last (cache_items_list c)))) (cache_items_map c),
    cache_items_list := butlast (cache_items_list c)\<rparr>)"
proof -
  obtain xs n where xs: "cache_items_list c = xs @ [n]" using assms(2) by (metis append_butlast_last_id)
  let ?m = "AList.delete (fst (snd n)) (cache_items_map c)"
  have l: "distinct (map fst (xs @ [n]))" "distinct (map (fst \<circ> snd) (xs @ [n]))" "distinct (map fst (cache_items_map c))"
    "set (cache_items_map c) = (\<lambda>(i, k, v). (k, i)) ` set (xs @ [n])" "\<forall>i \<in> fst ` set (xs @ [n]). i < cache_fresh c"
    using assms(1) by (simp_all add: lru_links_def lru_abs_def xs)
  have "set ?m = (\<lambda>(i, k, v). (k, i)) ` set xs"
  proof -
    have "set ?m = {p \<in> set (cache_items_map c). fst p \<noteq> fst (snd n)}" by (rule set_delete)
    also have "\<dots> = (\<lambda>(i, k, v). (k, i)) ` {q \<in> set (xs @ [n]). fst (snd q) \<noteq> fst (snd n)}"
      unfolding l(4) by (force simp del: set_append)
    also have "{q \<in> set (xs @ [n]). fst (snd q) \<noteq> fst (snd n)} = set xs"
      using l(2) by (auto simp: image_iff)
    finally show ?thesis .
  qed
  then show ?thesis using l by (simp add: lru_links_def lru_abs_def xs distinct_delete)
qed

lemma lru_put_abs:
  assumes "lru_wf c"
  shows "\<exists>c'. lru_put k v c = Some c' \<and> lru_wf c' \<and> lru_abs c' = recent_put (unat (cache_max_size c)) k v (lru_abs c) \<and>
    cache_max_size c' = cache_max_size c"
proof -
  have links: "lru_links c" and len: "length (cache_items_list c) \<le> unat (cache_max_size c)" using assms by (simp_all add: lru_wf_def)
  obtain items m where lk: "lru_link k v c = Some (items, m)"
    and links': "lru_links (c\<lparr>cache_items_list := items, cache_items_map := m, cache_fresh := cache_fresh c + 1\<rparr>)" (is "lru_links ?c'")
    and abs: "map snd items = (k, v) # filter (\<lambda>p. fst p \<noteq> k) (lru_abs c)"
    using lru_link_links [OF links, of k v] by metis
  have m: "length m = length items" using lru_linksD(1) [OF links'] by simp
  have ne: "items \<noteq> []" using abs by auto
  have "length items = Suc (length (filter (\<lambda>p. fst p \<noteq> k) (lru_abs c)))" using arg_cong [OF abs, of length] by simp
  also have "\<dots> \<le> Suc (unat (cache_max_size c))"
    using len le_trans [OF length_filter_le] by (simp add: lru_abs_def)
  finally have small: "length items \<le> Suc (unat (cache_max_size c))" .
  show ?thesis
  proof (cases "length m > unat (cache_max_size c)")
    case True
    then have "length items - 1 = unat (cache_max_size c)" using small m by simp
    then have "butlast items = take (unat (cache_max_size c)) items" by (metis butlast_conv_take)
    then have "map snd (butlast items) = recent_put (unat (cache_max_size c)) k v (lru_abs c)"
      using abs by (simp add: recent_put_def take_map [symmetric])
    moreover have "length (butlast items) \<le> unat (cache_max_size c)" using small by simp
    ultimately show ?thesis
      using lru_links_drop [OF links'] True lk ne by (simp add: lru_put_def lru_wf_def lru_abs_def Let_def)
  next
    case False
    then have "map snd items = recent_put (unat (cache_max_size c)) k v (lru_abs c)"
      using m unfolding recent_put_def abs [symmetric] by simp
    then show ?thesis using False lk links' m by (simp add: lru_put_def lru_wf_def lru_abs_def Let_def)
  qed
qed

section \<open>Caches as partial lookups\<close>

lemma map_of_filter_other: "j \<noteq> k \<Longrightarrow> map_of (filter (\<lambda>p. fst p \<noteq> k) xs) j = map_of xs j"
  by (induction xs) auto

lemma map_of_take_le: "distinct (map fst xs) \<Longrightarrow> map_of (take n xs) \<subseteq>\<^sub>m map_of xs"
  by (metis append_take_drop_id map_le_def map_of_append map_add_dom_app_simps(1) map_add_comm)


text \<open>
  What a client relies on: a cache answers only with values that were put under that key, though it may forget.
  Then a property of all that is put holds of all that is found.
\<close>

locale lookup_cache =
  fixes inv :: "'c \<Rightarrow> bool" and content :: "'c \<Rightarrow> 'k \<Rightarrow> 'v option"
    and cget :: "'k \<Rightarrow> 'c \<Rightarrow> ('v option \<times> 'c) option" and cput :: "'k \<Rightarrow> 'v \<Rightarrow> 'c \<Rightarrow> 'c option" and cclear :: "'c \<Rightarrow> 'c"
  assumes get_law: "inv c \<Longrightarrow> \<exists>c'. cget k c = Some (content c k, c') \<and> inv c' \<and> content c' \<subseteq>\<^sub>m content c"
    and put_law: "inv c \<Longrightarrow> \<exists>c'. cput k v c = Some c' \<and> inv c' \<and> content c' \<subseteq>\<^sub>m (content c)(k \<mapsto> v)"
    and clear_law: "inv c \<Longrightarrow> inv (cclear c) \<and> content (cclear c) = Map.empty"
begin

definition sound :: "('k \<Rightarrow> 'v \<Rightarrow> bool) \<Rightarrow> 'c \<Rightarrow> bool" where
  "sound P c \<longleftrightarrow> inv c \<and> (\<forall>k v. content c k = Some v \<longrightarrow> P k v)"

lemma get_sound: "sound P c \<Longrightarrow> \<exists>r c'. cget k c = Some (r, c') \<and> sound P c' \<and> (\<forall>v. r = Some v \<longrightarrow> P k v)"
  using get_law [of c k] by (fastforce simp: sound_def map_le_def dom_def)

lemma put_sound: "sound P c \<Longrightarrow> P k v \<Longrightarrow> \<exists>c'. cput k v c = Some c' \<and> sound P c'"
proof -
  assume c: "sound P c" and v: "P k v"
  obtain c' where c': "cput k v c = Some c'" "inv c'" "content c' \<subseteq>\<^sub>m (content c)(k \<mapsto> v)"
    using put_law [of c k v] c by (auto simp: sound_def)
  have "P j w" if "content c' j = Some w" for j w
  proof -
    have "((content c)(k \<mapsto> v)) j = Some w" using c'(3) that by (metis domI map_le_def)
    then show ?thesis using c v by (auto simp: sound_def split: if_splits)
  qed
  then show ?thesis using c' by (auto simp: sound_def)
qed

lemma clear_sound: "sound P c \<Longrightarrow> sound Q (cclear c)"
  using clear_law [of c] by (simp add: sound_def)

end

interpretation lru: lookup_cache lru_wf "\<lambda>c. map_of (lru_abs c)" lru_get lru_put lru_clear
proof
  fix c :: "('k, 'v) lru_cache" and k v
  assume c: "lru_wf c"
  then have d: "distinct (map fst (lru_abs c))" by (simp add: lru_wf_def lru_links_def)
  have "map_of (snd (recent_get k (lru_abs c))) = map_of (lru_abs c)" "fst (recent_get k (lru_abs c)) = map_of (lru_abs c) k"
    by (auto simp: recent_get_def fun_eq_iff map_of_filter_other split: option.split)
  then show "\<exists>c'. lru_get k c = Some (map_of (lru_abs c) k, c') \<and> lru_wf c' \<and> map_of (lru_abs c') \<subseteq>\<^sub>m map_of (lru_abs c)"
    using lru_get_abs [OF c, of k] by fastforce
  have "map_of (recent_put n k v (lru_abs c)) \<subseteq>\<^sub>m (map_of (lru_abs c))(k \<mapsto> v)" for n
    unfolding recent_put_def
    by (rule map_le_trans [OF map_of_take_le]) (use d in \<open>auto simp: distinct_map_filter map_le_def map_of_filter_other\<close>)
  then show "\<exists>c'. lru_put k v c = Some c' \<and> lru_wf c' \<and> map_of (lru_abs c') \<subseteq>\<^sub>m (map_of (lru_abs c))(k \<mapsto> v)"
    using lru_put_abs [OF c, of k v] by fastforce
  show "lru_wf (lru_clear c) \<and> map_of (lru_abs (lru_clear c)) = Map.empty"
    using c by (simp add: lru_wf_def lru_links_def lru_abs_def lru_clear_def)
qed

section \<open>Runs\<close>

datatype ('k, 'v) lru_op = Put 'k 'v | Get 'k | Clear

fun lru_run :: "('k, 'v) lru_op list \<Rightarrow> ('k, 'v) lru_cache \<Rightarrow> ('v option list \<times> ('k, 'v) lru_cache) option" where
  "lru_run [] c = Some ([], c)"
| "lru_run (Put k v # ops) c = Option.bind (lru_put k v c) (lru_run ops)"
| "lru_run (Get k # ops) c = Option.bind (lru_get k c) (\<lambda>(r, c). map_option (map_prod ((#) r) (\<lambda>c. c)) (lru_run ops c))"
| "lru_run (Clear # ops) c = lru_run ops (lru_clear c)"

fun recent_run :: "nat \<Rightarrow> ('k, 'v) lru_op list \<Rightarrow> ('k \<times> 'v) list \<Rightarrow> 'v option list \<times> ('k \<times> 'v) list" where
  "recent_run n [] xs = ([], xs)"
| "recent_run n (Put k v # ops) xs = recent_run n ops (recent_put n k v xs)"
| "recent_run n (Get k # ops) xs = map_prod ((#) (fst (recent_get k xs))) (\<lambda>xs. xs) (recent_run n ops (snd (recent_get k xs)))"
| "recent_run n (Clear # ops) xs = recent_run n ops []"

fun analysis_run ::
    "(evmc_revision \<Rightarrow> bytes \<Rightarrow> 'a) \<Rightarrow> (evmc_revision \<times> bytes \<times> bytes32 option) list \<Rightarrow> 'a analysis_cache option \<Rightarrow>
     ('a list \<times> 'a analysis_cache option) option" where
  "analysis_run analyze [] c = Some ([], c)"
| "analysis_run analyze ((rv, code, h) # reqs) c =
     Option.bind (analysis_for analyze rv code h c) (\<lambda>(a, c). map_option (map_prod ((#) a) (\<lambda>c. c)) (analysis_run analyze reqs c))"

lemma lru_run_refines:
  "lru_wf c \<Longrightarrow> \<exists>c'. lru_run ops c = Some (fst (recent_run (unat (cache_max_size c)) ops (lru_abs c)), c') \<and> lru_wf c' \<and>
     lru_abs c' = snd (recent_run (unat (cache_max_size c)) ops (lru_abs c)) \<and> cache_max_size c' = cache_max_size c"
proof (induction ops arbitrary: c)
  case (Cons op ops)
  show ?case
  proof (cases op)
    case (Put k v)
    obtain c1 where "lru_put k v c = Some c1" "lru_wf c1" "lru_abs c1 = recent_put (unat (cache_max_size c)) k v (lru_abs c)"
      "cache_max_size c1 = cache_max_size c" using lru_put_abs [OF Cons.prems] by blast
    then show ?thesis using Cons.IH [of c1] Put by simp
  next
    case (Get k)
    obtain c1 where "lru_get k c = Some (fst (recent_get k (lru_abs c)), c1)" "lru_wf c1"
      "lru_abs c1 = snd (recent_get k (lru_abs c))" "cache_max_size c1 = cache_max_size c"
      using lru_get_abs [OF Cons.prems] by blast
    then show ?thesis using Cons.IH [of c1] Get by (auto simp: case_prod_beta)
  next
    case Clear
    have "lru_wf (lru_clear c)" "lru_abs (lru_clear c) = []" "cache_max_size (lru_clear c) = cache_max_size c"
      using Cons.prems by (simp_all add: lru_wf_def lru_links_def lru_abs_def lru_clear_def)
    then show ?thesis using Cons.IH [of "lru_clear c"] Clear by simp
  qed
qed simp

lemma lru_wf_new: "lru_wf (new_lru_cache n)" "lru_abs (new_lru_cache n) = []" "cache_max_size (new_lru_cache n) = n"
  by (simp_all add: new_lru_cache_def lru_wf_def lru_links_def lru_abs_def)

text \<open>The state of an analysis cache: what it holds for a hash is the analysis of that code for its revision.\<close>

definition analyses_ok :: "(evmc_revision \<Rightarrow> bytes \<Rightarrow> 'a) \<Rightarrow> (bytes32 \<Rightarrow> bytes) \<Rightarrow> 'a analysis_cache \<Rightarrow> bool" where
  "analyses_ok analyze preimage c \<longleftrightarrow> lru.sound (\<lambda>h a. a = analyze (ac_revision c) (preimage h)) (ac_cache c)"

lemma analysis_for_ok:
  assumes "analyses_ok analyze preimage c" and "\<forall>k. h = Some k \<longrightarrow> preimage k = code"
  shows "\<exists>c'. analysis_for analyze rv code h (Some c) = Some (analyze rv code, Some c') \<and> analyses_ok analyze preimage c'"
proof (cases h)
  case None
  then show ?thesis using assms(1) by (simp add: analysis_for_def)
next
  case (Some k)
  have k: "preimage k = code" using assms(2) Some by simp
  let ?P = "\<lambda>h a. a = analyze rv (preimage h)"
  have put: "\<exists>c'. analysis_put k (analyze rv code) rv c1 = Some c' \<and> analyses_ok analyze preimage c'"
    if "lru.sound ?P (if ac_revision c1 \<noteq> rv then lru_clear (ac_cache c1) else ac_cache c1)" for c1
    using lru.put_sound [OF that, where k = k and v = "analyze rv code"] k by (auto simp: analysis_put_def analyses_ok_def)
  show ?thesis
  proof (cases "ac_revision c = rv")
    case True
    then obtain r cache where g: "lru_get k (ac_cache c) = Some (r, cache)" "lru.sound ?P cache"
      "\<forall>a. r = Some a \<longrightarrow> a = analyze rv (preimage k)"
      using assms(1) lru.get_sound [of ?P "ac_cache c" k] by (auto simp: analyses_ok_def)
    then have "analysis_get k rv c = Some (r, c\<lparr>ac_cache := cache\<rparr>)" using True by (simp add: analysis_get_def)
    then show ?thesis using g Some True k put [of "c\<lparr>ac_cache := cache\<rparr>"]
      by (cases r) (auto simp: analysis_for_def analyses_ok_def Let_def)
  next
    case False
    then have "lru.sound ?P (lru_clear (ac_cache c))" using assms(1) lru.clear_sound by (auto simp: analyses_ok_def)
    then show ?thesis using put [of c] False Some by (auto simp: analysis_for_def analysis_get_def Let_def)
  qed
qed

lemma analysis_run_ok:
  "analyses_ok analyze preimage c \<Longrightarrow> \<forall>(rv, code, h) \<in> set reqs. \<forall>k. h = Some k \<longrightarrow> preimage k = code \<Longrightarrow>
   \<exists>c'. analysis_run analyze reqs (Some c) = Some (map (\<lambda>(rv, code, h). analyze rv code) reqs, Some c') \<and> analyses_ok analyze preimage c'"
proof (induction reqs arbitrary: c)
  case (Cons req reqs)
  obtain rv code h where req: "req = (rv, code, h)" by (cases req)
  obtain c1 where "analysis_for analyze rv code h (Some c) = Some (analyze rv code, Some c1)" "analyses_ok analyze preimage c1"
    using analysis_for_ok [OF Cons.prems(1), of h code rv] Cons.prems(2) req by auto
  then show ?case using Cons.IH [of c1] Cons.prems(2) req by auto
qed simp

lemma analysis_run_uncached: "analysis_run analyze reqs None = Some (map (\<lambda>(rv, code, h). analyze rv code) reqs, None)"
  by (induction reqs) (auto simp: analysis_for_def split: option.split)

section \<open>Properties\<close>

text \<open>
  C39. However a cache is used, it never follows an iterator of an erased node, it answers as a list of its keys in the
  order of their last use that is cut to the maximum size, and it never holds more entries than that.
\<close>

theorem lru_cache_refines:
  "\<exists>c. lru_run ops (new_lru_cache n) = Some (fst (recent_run (unat n) ops []), c) \<and>
     lru_abs c = snd (recent_run (unat n) ops []) \<and> lru_size c = length (lru_abs c) \<and> lru_size c \<le> unat n"
proof -
  obtain c where c: "lru_run ops (new_lru_cache n) = Some (fst (recent_run (unat n) ops []), c)" "lru_wf c"
    "lru_abs c = snd (recent_run (unat n) ops [])" "cache_max_size c = n"
    using lru_run_refines [of "new_lru_cache n" ops] by (auto simp: lru_wf_new)
  have "lru_size c = length (lru_abs c)" "lru_size c \<le> unat n"
    using c(2,4) lru_linksD(1) [of c] by (simp_all add: lru_wf_def lru_size_def lru_abs_def)
  then show ?thesis using c by blast
qed

text \<open>
  C40. The interpreter always runs the analysis of the code it is given for the revision it is given, whether the cache
  answers or not, in any order of requests and changes of revision, as long as no two codes have the same hash; and
  also when there is no cache.
\<close>

theorem analysis_cache_transparent:
  assumes "\<forall>(rv, code, h) \<in> set reqs. \<forall>(rv', code', h') \<in> set reqs. h = h' \<and> h \<noteq> None \<longrightarrow> code = code'"
  shows "(\<exists>c. analysis_run analyze reqs (Some (new_analysis_cache n)) = Some (map (\<lambda>(rv, code, h). analyze rv code) reqs, c)) \<and>
    analysis_run analyze reqs None = Some (map (\<lambda>(rv, code, h). analyze rv code) reqs, None)"
proof -
  define preimage where "preimage k = (fst (snd (hd (filter (\<lambda>(rv, code, h). h = Some k) reqs))))" for k
  have "analyses_ok analyze preimage (new_analysis_cache n)"
    by (simp add: analyses_ok_def new_analysis_cache_def lru.sound_def lru_wf_new)
  moreover have "preimage k = code" if "(rv, code, Some k) \<in> set reqs" for rv code k
  proof -
    let ?xs = "filter (\<lambda>(rv, code, h). h = Some k) reqs"
    have "hd ?xs \<in> set ?xs" using that by (intro hd_in_set) (auto simp: filter_empty_conv)
    then obtain rv' code' where x: "hd ?xs = (rv', code', Some k)" "hd ?xs \<in> set reqs" by auto
    have "\<forall>(rv'', code'', h') \<in> set reqs. Some k = h' \<and> Some k \<noteq> None \<longrightarrow> code' = code''"
      using bspec [OF assms x(2)] unfolding x(1) by simp
    from bspec [OF this that] have "code' = code" by simp
    then show ?thesis by (simp add: preimage_def x(1))
  qed
  ultimately show ?thesis using analysis_run_ok [of analyze preimage "new_analysis_cache n" reqs] analysis_run_uncached by fastforce
qed

theorem analysis_cache_transparent_witness:
  "\<exists>c. analysis_run (\<lambda>rv code. (rv, length code))
     [(EVMC_BERLIN, [1], Some 5), (EVMC_BERLIN, [1], Some 5), (EVMC_ISTANBUL, [1], Some 5), (EVMC_BERLIN, [], None)] (Some (new_analysis_cache 1)) =
     Some ([(EVMC_BERLIN, 1), (EVMC_BERLIN, 1), (EVMC_ISTANBUL, 1), (EVMC_BERLIN, 0)], c)"
  using analysis_cache_transparent [of "[(EVMC_BERLIN, [1], Some 5), (EVMC_BERLIN, [1], Some 5), (EVMC_ISTANBUL, [1], Some 5), (EVMC_BERLIN, [], None)]"
      "\<lambda>rv code. (rv, length code)" 1] by (simp del: analysis_run.simps)

end
