(* ===== verification/Db_Trie.thy ===== *)
theory Db_Trie
  imports Access_Layer Etl State_Root
begin

text \<open>
  db/silkworm/trie/db\_trie.hpp and db\_trie.cpp: the state root computed from the hashed tables of the database,
  the nodes of the tries that it collects on the way, and their form on disk.

  The cursors over stored tries are stubs in the source: they have no key and skip nothing, so that the loops
  over them are run once.  A node collector is the list of the nodes it was called with; they reach the ETL
  collectors in this order.
\<close>

section \<open>Nodes on disk\<close>

definition marshal_node :: "trie_node \<Rightarrow> bytes" where
  "marshal_node n =
     be_store 2 (unat (state_mask n)) @ be_store 2 (unat (tree_mask n)) @ be_store 2 (unat (hash_mask n)) @
     (case node_root_hash n of None \<Rightarrow> [] | Some h \<Rightarrow> full_view_bytes32 h) @
     concat (map full_view_bytes32 (node_hashes n))"

text \<open>A view of less than six bytes is read outside its bounds.\<close>

fun split_hashes :: "nat \<Rightarrow> bytes \<Rightarrow> bytes32 list" where
  "split_hashes 0 v = []"
| "split_hashes (Suc n) v = word_of_nat (be_load (take 32 v)) # split_hashes n (drop 32 v)"

definition unmarshal_node :: "bytes \<Rightarrow> trie_node option" where
  "unmarshal_node v =
     (if length v < 6 then None
      else
        let smask = word_of_nat (be_load (take 2 v)); v = drop 2 v;
            tmask = word_of_nat (be_load (take 2 v)); v = drop 2 v;
            hmask = word_of_nat (be_load (take 2 v)); v = drop 2 v;
            (root_hash, v) =
              (if popcount hmask + 1 = length v div unat kHashLength
               then (Some (word_of_nat (be_load (take 32 v))), drop 32 v) else (None, v))
        in Some \<lparr>state_mask = smask, tree_mask = tmask, hash_mask = hmask,
                 node_hashes = split_hashes (length v div unat kHashLength) v, node_root_hash = root_hash\<rparr>)"

section \<open>The trie cursors\<close>

definition account_trie_key :: "bytes option" where "account_trie_key = None"
definition account_trie_can_skip_state :: bool where "account_trie_can_skip_state = False"
definition account_trie_first_uncovered_prefix :: bytes where "account_trie_first_uncovered_prefix = []"
definition storage_trie_key :: "bytes option" where "storage_trie_key = None"
definition storage_trie_can_skip_state :: bool where "storage_trie_can_skip_state = False"
definition storage_trie_first_uncovered_prefix :: bytes where "storage_trie_first_uncovered_prefix = [0]"

text \<open>\<open>key && key < x\<close>: the cursor has a key before \<open>x\<close>.\<close>

definition cursor_before :: "bytes option \<Rightarrow> bytes \<Rightarrow> bool" where
  "cursor_before key x = (case key of None \<Rightarrow> False | Some key \<Rightarrow> key < x)"

section \<open>The loader\<close>

definition collecting_hash_builder :: hash_builder where
  "collecting_hash_builder = new_hash_builder\<lparr>hb_node_collector := Some []\<rparr>"

definition collected_nodes :: "hash_builder \<Rightarrow> (bytes \<times> trie_node) list" where
  "collected_nodes hb = (case hb_node_collector hb of None \<Rightarrow> [] | Some nodes \<Rightarrow> nodes)"

definition account_node_entries :: "(bytes \<times> trie_node) list \<Rightarrow> etl_entry list" where
  "account_node_entries nodes =
     map (\<lambda>(unpacked_key, node). Entry unpacked_key (marshal_node node)) (filter (\<lambda>(unpacked_key, _). unpacked_key \<noteq> []) nodes)"

definition storage_node_entries :: "bytes \<Rightarrow> (bytes \<times> trie_node) list \<Rightarrow> etl_entry list" where
  "storage_node_entries acc_with_inc nodes =
     map (\<lambda>(unpacked_key, node). Entry (acc_with_inc @ unpacked_key) (marshal_node node)) nodes"

text \<open>The loop over the storage of an account, given what the cursor returned last.\<close>

partial_function (option) storage_loop ::
    "'d lmdb_ops \<Rightarrow> (bytes \<Rightarrow> bytes32) \<Rightarrow> bytes option \<Rightarrow> 'd \<Rightarrow> hash_builder \<Rightarrow> (hash_builder \<times> 'd) db option" where
  "storage_loop M keccak256 s d hb =
     (case s of
        None \<Rightarrow> Some (Inr (hb, d))
      | Some s \<Rightarrow>
          if length s < unat kHashLength then Some (Inl Out_of_range)
          else
            let packed_loc = take (unat kHashLength) s;
                val = drop (unat kHashLength) s
            in if cursor_before storage_trie_key (unpack_nibbles packed_loc) then Some (Inr (hb, d))
               else
                 let hb = hb_add keccak256 packed_loc (encode_bytes val) hb
                 in case table_get_next_dup M d of
                      Inl e \<Rightarrow> Some (Inl e)
                    | Inr (s, d) \<Rightarrow> storage_loop M keccak256 s d hb)"

definition loader_storage_root ::
    "'d lmdb_ops \<Rightarrow> (bytes \<Rightarrow> bytes32) \<Rightarrow> bytes \<Rightarrow> 'd \<Rightarrow> (bytes32 \<times> etl_entry list \<times> 'd) db" where
  "loader_storage_root M keccak256 acc_with_inc storage_state =
     (let storage_hb = collecting_hash_builder
      in db_bind
           (if storage_trie_can_skip_state then Inr (storage_hb, storage_state)
            else
              db_bind (table_seek_dup M acc_with_inc storage_trie_first_uncovered_prefix storage_state) (\<lambda>(s, storage_state).
              ends (storage_loop M keccak256 s storage_state storage_hb)))
           (\<lambda>(storage_hb, storage_state).
              case hb_root_hash keccak256 storage_hb of
                (root, storage_hb) \<Rightarrow>
                  Inr (root, storage_node_entries acc_with_inc (collected_nodes storage_hb), storage_state)))"

text \<open>The loop over accounts.\<close>

partial_function (option) account_loop ::
    "'d lmdb_ops \<Rightarrow> (bytes \<Rightarrow> bytes32) \<Rightarrow> (bytes \<times> bytes) option \<Rightarrow> 'd \<Rightarrow> 'd \<Rightarrow> hash_builder \<Rightarrow> collector \<Rightarrow>
     (hash_builder \<times> collector) db option" where
  "account_loop M keccak256 a acc_state storage_state hb storage_collector =
     (case a of
        None \<Rightarrow> Some (Inr (hb, storage_collector))
      | Some (key, val) \<Rightarrow>
          if cursor_before account_trie_key (unpack_nibbles key) then Some (Inr (hb, storage_collector))
          else
            case db_bind (rlp_err_handler (decode_account_from_storage val)) (\<lambda>account.
                 db_bind
                   (if acc_incarnation account \<noteq> 0
                    then loader_storage_root M keccak256 (storage_prefix key (acc_incarnation account)) storage_state
                    else Inr (kEmptyRoot, [], storage_state))
                   (\<lambda>(storage_root, entries, storage_state).
                 db_bind (table_get_next M acc_state) (\<lambda>(a, acc_state).
                 Inr (a, acc_state, storage_state, hb_add keccak256 key (account_rlp account storage_root) hb,
                      foldl (\<lambda>c e. collect e c) storage_collector entries)))) of
              Inl e \<Rightarrow> Some (Inl e)
            | Inr (a, acc_state, storage_state, hb, storage_collector) \<Rightarrow>
                account_loop M keccak256 a acc_state storage_state hb storage_collector)"

definition calculate_root ::
    "'d lmdb_ops \<Rightarrow> (bytes \<Rightarrow> bytes32) \<Rightarrow> 'd txn \<Rightarrow> collector \<Rightarrow> collector \<Rightarrow> (bytes32 \<times> collector \<times> collector) db" where
  "calculate_root M keccak256 t account_collector storage_collector =
     db_bind (txn_open M kHashedAccounts False t) (\<lambda>(acc_state, _).
     db_bind (txn_open M kHashedStorage False t) (\<lambda>(storage_state, _).
     db_bind
       (if account_trie_can_skip_state then Inr (collecting_hash_builder, storage_collector)
        else
          db_bind (table_seek M account_trie_first_uncovered_prefix acc_state) (\<lambda>(a, acc_state).
          ends (account_loop M keccak256 a acc_state storage_state collecting_hash_builder storage_collector)))
       (\<lambda>(hb, storage_collector).
          case hb_root_hash keccak256 hb of
            (root, hb) \<Rightarrow>
              Inr (root, foldl (\<lambda>c e. collect e c) account_collector (account_node_entries (collected_nodes hb)), storage_collector))))"

definition kOptimalBufferSize :: u64 where
  "kOptimalBufferSize = 256 * 2 ^ 20"

text \<open>Loading a collector into a table; an exception of \<open>put\<close> ends it.\<close>

definition load_table ::
    "'d lmdb_ops \<Rightarrow> ((etl_entry \<times> nat) list \<Rightarrow> nat) \<Rightarrow> table_config \<Rightarrow> collector \<Rightarrow> 'd txn \<Rightarrow> 'd txn db" where
  "load_table M pick config c t =
     db_bind (txn_open M config False t) (\<lambda>(d, t).
     case load pick (\<lambda>e d. Some (db_bind d (table_put M (entry_key e) (entry_value e)))) c (Inr d) of
       None \<Rightarrow> Inl Db_stuck
     | Some (_, d) \<Rightarrow> db_bind d (\<lambda>d. Inr (txn_store config d t)))"

definition regenerate_db_tries ::
    "'d lmdb_ops \<Rightarrow> (bytes \<Rightarrow> bytes32) \<Rightarrow> ((etl_entry \<times> nat) list \<Rightarrow> nat) \<Rightarrow> bytes32 option \<Rightarrow> 'd txn \<Rightarrow> 'd txn db" where
  "regenerate_db_tries M keccak256 pick expected_root t =
     db_bind (calculate_root M keccak256 t (new_collector kOptimalBufferSize) (new_collector kOptimalBufferSize))
       (\<lambda>(root, account_collector, storage_collector).
          if expected_root \<noteq> None \<and> Some root \<noteq> expected_root then Inl Runtime_error
          else
            db_bind (load_table M pick kTrieOfAccounts account_collector t) (\<lambda>t.
            load_table M pick kTrieOfStorage storage_collector t))"

section \<open>Walking over a table\<close>

text \<open>
  \<open>cursor_on d a xs\<close>: the cursor of \<open>d\<close> is on \<open>a\<close>, and \<open>xs\<close> are the pairs from there on in order; likewise
  for the values of one key.
\<close>

definition ascending :: "'a::linorder list \<Rightarrow> bool" where
  "ascending xs \<longleftrightarrow> sorted_wrt (<) xs"

lemma ascending_Min: "ascending (x # xs) \<Longrightarrow> Min (set (x # xs)) = x" for x :: "'a::linorder"
  by (rule Min_eqI) (auto simp: ascending_def)

lemma ascending_sorted_list: "ascending (sorted_list_of_set S)"
  unfolding ascending_def by (rule strict_sorted_list_of_set)

context lmdb
begin

definition cursor_on :: "'d \<Rightarrow> (bytes \<times> bytes) option \<Rightarrow> (bytes \<times> bytes) list \<Rightarrow> bool" where
  "cursor_on d a xs \<longleftrightarrow>
     (case xs of [] \<Rightarrow> a = None | p # ps \<Rightarrow> a = Some p \<and> at d = Some p \<and> ascending xs \<and> set ps = {q \<in> items d. p < q})"

definition dup_cursor_on :: "bytes \<Rightarrow> 'd \<Rightarrow> bytes option \<Rightarrow> bytes list \<Rightarrow> bool" where
  "dup_cursor_on k d a vs \<longleftrightarrow> dups d \<and>
     (case vs of
        [] \<Rightarrow> a = None
      | v # ws \<Rightarrow> a = Some v \<and> at d = Some (k, v) \<and> ascending vs \<and> set ws = {w. (k, w) \<in> items d \<and> v < w})"

lemma found_list:
  assumes "found items at (set xs) (mdb_cursor_get M d k v op)" and "ascending xs"
  shows "\<exists>d'. unless_not_found (mdb_cursor_get M d k v op) f = Inr (case xs of [] \<Rightarrow> None | p # _ \<Rightarrow> f p, d') \<and>
    items d' = items d \<and> dups d' = dups d \<and> (xs \<noteq> [] \<longrightarrow> at d' = Some (hd xs))"
proof (cases xs)
  case Nil
  then show ?thesis using get_none [OF assms(1)] by simp
next
  case (Cons p ps)
  then have "Min (set xs) = p" using ascending_Min assms(2) by blast
  then show ?thesis using get_some [OF assms(1), of f] Cons by auto
qed

lemma seek_cursor:
  "\<exists>a d'. table_seek M [] d = Inr (a, d') \<and> items d' = items d \<and> dups d' = dups d \<and>
     cursor_on d' a (sorted_list_of_set (items d))"
proof -
  let ?xs = "sorted_list_of_set (items d)"
  have st: "set ?xs = items d" using finite_items by simp
  obtain d' where d': "unless_not_found (mdb_cursor_get M d [] [] MDB_FIRST) Some = Inr (case ?xs of [] \<Rightarrow> None | p # _ \<Rightarrow> Some p, d')"
    "items d' = items d" "dups d' = dups d" "?xs \<noteq> [] \<longrightarrow> at d' = Some (hd ?xs)"
    using found_list [OF _ ascending_sorted_list, of "items d" d "[]" "[]" MDB_FIRST Some] get_first st by auto
  have "cursor_on d' (case ?xs of [] \<Rightarrow> None | p # _ \<Rightarrow> Some p) ?xs"
  proof (cases ?xs)
    case (Cons p ps)
    then have "ascending (p # ps)" by (metis ascending_sorted_list)
    moreover have "set ps = {q \<in> items d. p < q}" using calculation st Cons by (auto simp: ascending_def)
    ultimately show ?thesis using d' Cons by (simp add: cursor_on_def)
  qed (simp add: cursor_on_def)
  then show ?thesis using d' by (auto simp: table_seek_def)
qed

lemma next_cursor:
  assumes "cursor_on d (Some p) (p # ps)"
  shows "\<exists>a d'. table_get_next M d = Inr (a, d') \<and> items d' = items d \<and> dups d' = dups d \<and> cursor_on d' a ps"
proof -
  have c: "at d = Some p" "ascending (p # ps)" "set ps = {q \<in> items d. p < q}" using assms by (simp_all add: cursor_on_def)
  then have asc: "ascending ps" by (simp add: ascending_def)
  obtain d' where d': "unless_not_found (mdb_cursor_get M d [] [] MDB_NEXT) Some = Inr (case ps of [] \<Rightarrow> None | p # _ \<Rightarrow> Some p, d')"
    "items d' = items d" "dups d' = dups d" "ps \<noteq> [] \<longrightarrow> at d' = Some (hd ps)"
    using found_list [OF _ asc, of d "[]" "[]" MDB_NEXT Some] get_next [OF c(1), of "[]" "[]"] c(3) by auto
  have "cursor_on d' (case ps of [] \<Rightarrow> None | p # _ \<Rightarrow> Some p) ps"
  proof (cases ps)
    case (Cons q qs)
    then have "set qs = {r \<in> items d. q < r}" using c by (auto simp: ascending_def)
    then show ?thesis using d' asc Cons by (simp add: cursor_on_def)
  qed (simp add: cursor_on_def)
  then show ?thesis using d' by (auto simp: table_get_next_def)
qed

lemma Pair_set: "{q \<in> items d. fst q = k \<and> P (snd q)} = Pair k ` {w. (k, w) \<in> items d \<and> P w}"
  by force

lemma found_dups:
  assumes "found items at {q \<in> items d. fst q = k \<and> P (snd q)} (mdb_cursor_get M d k' v' op)"
    and "set vs = {w. (k, w) \<in> items d \<and> P w}" and "ascending vs"
  shows "\<exists>d'. unless_not_found (mdb_cursor_get M d k' v' op) (\<lambda>(_, data). Some data) = Inr (case vs of [] \<Rightarrow> None | w # _ \<Rightarrow> Some w, d') \<and>
    items d' = items d \<and> dups d' = dups d \<and> (vs \<noteq> [] \<longrightarrow> at d' = Some (k, hd vs))"
proof -
  have "found items at (set (map (Pair k) vs)) (mdb_cursor_get M d k' v' op)"
    using assms(1,2) by (simp add: Pair_set)
  moreover have "ascending (map (Pair k) vs)" using assms(3) by (simp add: ascending_def sorted_wrt_map)
  ultimately show ?thesis using found_list [of "map (Pair k) vs" d k' v' op "\<lambda>(_, data). Some data"] by (cases vs) auto
qed

lemma dup_cursor_from:
  assumes "set vs = {w. (k, w) \<in> items d \<and> P w}" and "ascending vs" and "\<And>v w. P v \<Longrightarrow> v < w \<Longrightarrow> P w"
    and "items d' = items d" and "vs \<noteq> [] \<longrightarrow> at d' = Some (k, hd vs)" and "dups d'"
  shows "dup_cursor_on k d' (case vs of [] \<Rightarrow> None | w # _ \<Rightarrow> Some w) vs"
proof (cases vs)
  case (Cons v ws)
  have st: "insert v (set ws) = {w. (k, w) \<in> items d \<and> P w}" and asc: "\<forall>w \<in> set ws. v < w"
    using assms(1,2) Cons by (simp_all add: ascending_def)
  then have "P v" by blast
  have "set ws = {w. (k, w) \<in> items d \<and> v < w}"
  proof (intro equalityI subsetI)
    fix w assume "w \<in> set ws"
    then show "w \<in> {w. (k, w) \<in> items d \<and> v < w}" using st asc by blast
  next
    fix w assume w: "w \<in> {w. (k, w) \<in> items d \<and> v < w}"
    then have "P w" using assms(3) \<open>P v\<close> by blast
    then have "w \<in> insert v (set ws)" using st w by blast
    then show "w \<in> set ws" using w by auto
  qed
  then show ?thesis using assms(2,4-6) Cons by (simp add: dup_cursor_on_def)
qed (use assms(6) in \<open>simp add: dup_cursor_on_def\<close>)

lemma seek_dup_cursor:
  assumes "dups d" and "k \<noteq> []" and "\<And>v. (k, v) \<in> items d \<Longrightarrow> low \<le> v"
  shows "\<exists>a d'. table_seek_dup M k low d = Inr (a, d') \<and> items d' = items d \<and> dups d' = dups d \<and>
     dup_cursor_on k d' a (sorted_list_of_set {v. (k, v) \<in> items d})"
proof -
  let ?vs = "sorted_list_of_set {v. (k, v) \<in> items d}"
  have "{v. (k, v) \<in> items d} \<subseteq> snd ` items d" by force
  then have "finite {v. (k, v) \<in> items d}" using finite_items by (rule finite_subset [OF _ finite_imageI])
  then have st: "set ?vs = {w. (k, w) \<in> items d \<and> low \<le> w}" using assms(3) by auto
  obtain d' where d': "table_seek_dup M k low d = Inr (case ?vs of [] \<Rightarrow> None | w # _ \<Rightarrow> Some w, d')"
    "items d' = items d" "dups d' = dups d" "?vs \<noteq> [] \<longrightarrow> at d' = Some (k, hd ?vs)"
    using found_dups [OF get_both_range [OF assms(1,2)] st ascending_sorted_list] by (auto simp: table_seek_dup_def)
  have "dup_cursor_on k d' (case ?vs of [] \<Rightarrow> None | w # _ \<Rightarrow> Some w) ?vs"
    by (rule dup_cursor_from [OF st ascending_sorted_list _ d'(2,4)]) (use d'(3) assms(1) in simp_all)
  then show ?thesis using d' by blast
qed

lemma next_dup_cursor:
  assumes "dup_cursor_on k d (Some v) (v # vs)"
  shows "\<exists>a d'. table_get_next_dup M d = Inr (a, d') \<and> items d' = items d \<and> dups d' = dups d \<and> dup_cursor_on k d' a vs"
proof -
  have c: "at d = Some (k, v)" "ascending (v # vs)" "set vs = {w. (k, w) \<in> items d \<and> v < w}" "dups d"
    using assms by (simp_all add: dup_cursor_on_def)
  then have asc: "ascending vs" by (simp add: ascending_def)
  obtain d' where d': "table_get_next_dup M d = Inr (case vs of [] \<Rightarrow> None | w # _ \<Rightarrow> Some w, d')"
    "items d' = items d" "dups d' = dups d" "vs \<noteq> [] \<longrightarrow> at d' = Some (k, hd vs)"
    using found_dups [OF _ c(3) asc, of "[]" "[]" MDB_NEXT_DUP] get_next_dup [OF c(4,1), of "[]" "[]"]
    by (auto simp: table_get_next_dup_def)
  have "dup_cursor_on k d' (case vs of [] \<Rightarrow> None | w # _ \<Rightarrow> Some w) vs"
    by (rule dup_cursor_from [OF c(3) asc _ d'(2,4)]) (use d'(3) c(4) in simp_all)
  then show ?thesis using d' by blast
qed

end

section \<open>Roots\<close>

lemma lex_key_before: "length a = length b \<Longrightarrow> a < b \<Longrightarrow> key_before a b"
  by (induction a b rule: key_before.induct) auto

lemma lex_take: "a < b \<Longrightarrow> take n a \<le> take n b" for a b :: bytes
proof (induction n arbitrary: a b)
  case (Suc n)
  then show ?case by (cases a; cases b) auto
qed simp

text \<open>The root of a builder that was fed the rows of a table in their order.\<close>

lemma builder_root:
  assumes "sorted_wrt (<) (map fst es)" and "set es = (\<lambda>x. (full_view_bytes32 (key x), val x)) ` set xs" and "distinct (map key xs)"
    and "\<forall>x \<in> set xs. length (val x) < 2 ^ 58"
  shows "fst (hb_root_hash k (add_entries k es collecting_hash_builder)) = (if xs = [] then kEmptyRoot else mpt_root k (hashed key val xs))"
proof -
  let ?fs = "map (\<lambda>x. (full_view_bytes32 (key x), val x)) xs"
  have len: "\<forall>e \<in> set es. length (fst e) = 32" using assms(2) by auto
  have sorted: "sorted_wrt key_before (map fst es)"
    using assms(1) len unfolding sorted_wrt_map
    by (auto intro!: lex_key_before elim!: sorted_wrt_mono_rel [rotated]) (metis fst_conv)
  have ok: "\<forall>e\<in>set es. entry_ok e"
  proof
    fix e assume "e \<in> set es"
    then obtain x where x: "e = (full_view_bytes32 (key x), val x)" "x \<in> set xs" using assms(2) by auto
    then have "length (val x) < 2 ^ 58" "full_view_bytes32 (key x) \<noteq> []"
      using assms(4) length_full_view(1) [of "key x"] by (auto simp del: length_full_view)
    then show "entry_ok e" using x(1) by (simp add: entry_ok_def)
  qed
  have distinct: "distinct (map fst es)" using assms(1) by (simp add: strict_sorted_iff)
  moreover have "distinct (map fst ?fs)" using assms(3) by (simp add: distinct_map comp_def inj_on_def full_view_inj)
  ultimately have "mset es = mset ?fs"
    using assms(2) distinct_map [of fst es] distinct_map [of fst ?fs]
    by (intro set_eq_iff_mset_eq_distinct [THEN iffD1]) (simp_all only: set_map)
  then have "trie_item k (unpacked es) = trie_item k (unpacked ?fs)"
    by (rule trie_item_mset [OF mset_unpacked distinct_unpack [OF distinct]])
  moreover have "es = [] \<longleftrightarrow> xs = []" using assms(2) by auto
  ultimately show ?thesis
    using root_hash_correct [OF sorted ok, of collecting_hash_builder k]
    by (simp add: collecting_hash_builder_def new_hash_builder_def mpt_root_def unpacked_def hashed_def comp_def)
qed

text \<open>The entry of a storage row, and the state that the hashed tables hold.\<close>

definition slot_entry :: "bytes \<Rightarrow> bytes \<times> bytes" where
  "slot_entry v = (take 32 v, encode_bytes (drop 32 v))"

definition hashed_account_rows :: "(bytes \<Rightarrow> bytes32) \<Rightarrow> (address \<rightharpoonup> account) \<Rightarrow> (bytes \<times> bytes) set" where
  "hashed_account_rows k accounts =
     {(full_view_bytes32 (k (full_view_address a)), encode_for_storage acc False) | a acc. accounts a = Some acc}"

definition hashed_storage_rows :: "(bytes \<Rightarrow> bytes32) \<Rightarrow> (address \<Rightarrow> u64 \<Rightarrow> bytes32 \<rightharpoonup> bytes32) \<Rightarrow> (bytes \<times> bytes) set" where
  "hashed_storage_rows k storage =
     {(storage_prefix (full_view_bytes32 (k (full_view_address a))) i, full_view_bytes32 (k (full_view_bytes32 l)) @ zeroless_view v)
      | a i l v. storage a i l = Some v}"

definition stored_root :: "(bytes \<Rightarrow> bytes32) \<Rightarrow> (bytes \<times> bytes) set \<Rightarrow> bytes \<Rightarrow> u64 \<Rightarrow> bytes32" where
  "stored_root k S key incarnation =
     (if incarnation = 0 then kEmptyRoot
      else fst (hb_root_hash k (add_entries k
        (map slot_entry (sorted_list_of_set {v. (storage_prefix key incarnation, v) \<in> S})) collecting_hash_builder)))"

definition account_entry :: "(bytes \<Rightarrow> bytes32) \<Rightarrow> (bytes \<times> bytes) set \<Rightarrow> bytes \<times> bytes \<Rightarrow> bytes \<times> bytes" where
  "account_entry k S p =
     (case decode_account_from_storage (snd p) of
        Ok acc \<Rightarrow> (fst p, account_rlp acc (stored_root k S (fst p) (acc_incarnation acc))) | _ \<Rightarrow> ([], []))"

context lmdb
begin

lemma storage_loop_run:
  "dup_cursor_on key d a vs \<Longrightarrow> \<forall>v \<in> set vs. 32 \<le> length v \<Longrightarrow>
   \<exists>d'. storage_loop M k a d hb = Some (Inr (add_entries k (map slot_entry vs) hb, d')) \<and> items d' = items d \<and> dups d' = dups d"
proof (induction vs arbitrary: a d hb)
  case Nil
  then show ?case by (subst storage_loop.simps) (simp add: dup_cursor_on_def add_entries_def)
next
  case (Cons v vs)
  then have a: "a = Some v" "dup_cursor_on key d (Some v) (v # vs)" by (simp_all add: dup_cursor_on_def)
  obtain a' d1 where d1: "table_get_next_dup M d = Inr (a', d1)" "items d1 = items d" "dups d1 = dups d" "dup_cursor_on key d1 a' vs"
    using next_dup_cursor [OF a(2)] by blast
  have "storage_loop M k a d hb = storage_loop M k a' d1 (hb_add k (take 32 v) (encode_bytes (drop 32 v)) hb)"
    using a(1) d1(1) Cons.prems(2)
    by (subst storage_loop.simps) (simp add: cursor_before_def storage_trie_key_def kHashLength_def Let_def)
  then show ?case
    using Cons.IH [OF d1(4)] Cons.prems(2) d1(2,3) by (auto simp: add_entries_def slot_entry_def)
qed

lemma loader_storage_root_run:
  assumes "dups d" and "key \<noteq> []" and "\<And>v. (key, v) \<in> items d \<Longrightarrow> 32 \<le> length v"
  shows "\<exists>entries d'. loader_storage_root M k key d =
      Inr (fst (hb_root_hash k (add_entries k (map slot_entry (sorted_list_of_set {v. (key, v) \<in> items d})) collecting_hash_builder)), entries, d') \<and>
    items d' = items d \<and> dups d' = dups d"
proof -
  have "[0] \<le> v" if "(key, v) \<in> items d" for v
    using assms(3) [OF that] by (cases v) (auto simp: word_gt_0)
  then obtain a d1 where d1: "table_seek_dup M key [0] d = Inr (a, d1)" "items d1 = items d" "dups d1 = dups d"
    "dup_cursor_on key d1 a (sorted_list_of_set {v. (key, v) \<in> items d})" (is "dup_cursor_on _ _ _ ?vs")
    using seek_dup_cursor [OF assms(1,2)] by blast
  have "\<forall>v \<in> set ?vs. 32 \<le> length v"
  proof
    fix v assume "v \<in> set ?vs"
    then have "(key, v) \<in> items d" by (cases "finite {v. (key, v) \<in> items d}") auto
    then show "32 \<le> length v" by (rule assms(3))
  qed
  from storage_loop_run [OF d1(4) this, of k collecting_hash_builder] obtain d2 where
    "storage_loop M k a d1 collecting_hash_builder = Some (Inr (add_entries k (map slot_entry ?vs) collecting_hash_builder, d2))"
    "items d2 = items d1" "dups d2 = dups d1" by blast
  then show ?thesis
    using d1 by (simp add: loader_storage_root_def storage_trie_can_skip_state_def storage_trie_first_uncovered_prefix_def
        ends_def case_prod_unfold)
qed

lemma account_loop_run:
  assumes "\<And>key val acc v. (key, val) \<in> set ps \<Longrightarrow> decode_account_from_storage val = Ok acc \<Longrightarrow> acc_incarnation acc \<noteq> 0 \<Longrightarrow>
      (storage_prefix key (acc_incarnation acc), v) \<in> S \<Longrightarrow> 32 \<le> length v"
    and "\<And>key val. (key, val) \<in> set ps \<Longrightarrow> \<exists>acc. decode_account_from_storage val = Ok acc"
  shows "cursor_on d a ps \<Longrightarrow> items sd = S \<Longrightarrow> dups sd \<Longrightarrow>
    \<exists>c'. account_loop M k a d sd hb c = Some (Inr (add_entries k (map (account_entry k S) ps) hb, c'))"
  using assms
proof (induction ps arbitrary: a d sd hb c)
  case Nil
  then show ?case by (subst account_loop.simps) (simp add: cursor_on_def add_entries_def)
next
  case (Cons p ps)
  obtain key val where p: "p = (key, val)" by (cases p)
  obtain acc where acc: "decode_account_from_storage val = Ok acc" using Cons.prems(5) p by auto
  have a: "a = Some p" "cursor_on d (Some p) (p # ps)" using Cons.prems(1) by (simp_all add: cursor_on_def)
  obtain a' d1 where d1: "table_get_next M d = Inr (a', d1)" "items d1 = items d" "cursor_on d1 a' ps"
    using next_cursor [OF a(2)] by blast
  obtain entries sd1 where sr: "(if acc_incarnation acc \<noteq> 0 then loader_storage_root M k (storage_prefix key (acc_incarnation acc)) sd
      else Inr (kEmptyRoot, [], sd)) = Inr (stored_root k S key (acc_incarnation acc), entries, sd1)" "items sd1 = S" "dups sd1"
  proof (cases "acc_incarnation acc = 0")
    case False
    have "storage_prefix key (acc_incarnation acc) \<noteq> []"
      by (auto simp: storage_prefix_def kIncarnationLength_def simp flip: length_0_conv)
    then show thesis
      using loader_storage_root_run [of sd "storage_prefix key (acc_incarnation acc)" k] that False
        Cons.prems(4) [of key val acc] Cons.prems(2,3) p acc by (auto simp: stored_root_def)
  qed (use that Cons.prems(2,3) in \<open>simp add: stored_root_def\<close>)
  have "account_loop M k a d sd hb c =
      account_loop M k a' d1 sd1 (hb_add k key (account_rlp acc (stored_root k S key (acc_incarnation acc))) hb)
        (foldl (\<lambda>c e. collect e c) c entries)"
    using a(1) p acc d1(1) sr(1)
    by (subst account_loop.simps) (simp add: cursor_before_def account_trie_key_def)
  moreover have "account_entry k S p = (key, account_rlp acc (stored_root k S key (acc_incarnation acc)))"
    using p acc by (simp add: account_entry_def)
  ultimately show ?case
    using Cons.IH [OF d1(3) sr(2,3)] Cons.prems(4,5) by (simp add: add_entries_def) (meson list.set_intros(2))
qed

end

lemma storage_prefix_inj:
  "storage_prefix (full_view_bytes32 x) i = storage_prefix (full_view_bytes32 y) j \<longleftrightarrow> x = y \<and> i = j"
  by (auto simp: storage_prefix_def kIncarnationLength_def)

lemma sorted_wrt_on: "sorted_wrt R xs \<Longrightarrow> (\<And>x y. x \<in> set xs \<Longrightarrow> y \<in> set xs \<Longrightarrow> R x y \<Longrightarrow> Q (f x) (f y)) \<Longrightarrow> sorted_wrt Q (map f xs)"
  unfolding sorted_wrt_map by (rule sorted_wrt_mono_rel)

text \<open>No two of the keys that are hashed have the same hash.\<close>

definition collision_free :: "(bytes \<Rightarrow> bytes32) \<Rightarrow> (address \<rightharpoonup> account) \<Rightarrow> (address \<Rightarrow> u64 \<Rightarrow> bytes32 \<rightharpoonup> bytes32) \<Rightarrow> bool" where
  "collision_free k accounts storage \<longleftrightarrow>
     inj_on (\<lambda>a. k (full_view_address a)) (dom accounts \<union> {a. \<exists>i. dom (storage a i) \<noteq> {}}) \<and>
     (\<forall>a i. inj_on (\<lambda>l. k (full_view_bytes32 l)) (dom (storage a i)))"

lemma stored_values:
  assumes "collision_free k accounts storage" and "a \<in> dom accounts"
  shows "{v. (storage_prefix (full_view_bytes32 (k (full_view_address a))) i, v) \<in> hashed_storage_rows k storage} =
    (\<lambda>l. full_view_bytes32 (k (full_view_bytes32 l)) @ zeroless_view (the (storage a i l))) ` dom (storage a i)"
proof -
  have "b = a" if "k (full_view_address b) = k (full_view_address a)" "storage b i l = Some v" for b l v
    using assms that unfolding collision_free_def inj_on_def by blast
  then show ?thesis by (force simp: hashed_storage_rows_def storage_prefix_inj)
qed

lemma stored_root_eq:
  assumes "collision_free k accounts storage" and "a \<in> dom accounts" and "enumerates locations (storage a i)"
  shows "stored_root k (hashed_storage_rows k storage) (full_view_bytes32 (k (full_view_address a))) i =
    (if i = 0 then kEmptyRoot else storage_trie_root k (\<lambda>l. the (storage a i l)) locations)"
proof -
  let ?V = "{v. (storage_prefix (full_view_bytes32 (k (full_view_address a))) i, v) \<in> hashed_storage_rows k storage}"
  let ?es = "map slot_entry (sorted_list_of_set ?V)"
  let ?val = "\<lambda>l. rlp (Str (be_min (unat (the (storage a i l)))))"
  have V: "?V = (\<lambda>l. full_view_bytes32 (k (full_view_bytes32 l)) @ zeroless_view (the (storage a i l))) ` set locations"
    using stored_values [OF assms(1,2)] assms(3) by (simp add: enumerates_def)
  have inj: "inj_on (\<lambda>l. k (full_view_bytes32 l)) (set locations)"
    using assms(1,3) by (simp add: collision_free_def enumerates_def)
  have fin: "finite ?V" unfolding V by simp
  have "sorted_wrt (<) (map fst ?es)"
    unfolding map_map
  proof (rule sorted_wrt_on [OF strict_sorted_list_of_set])
    fix v w assume "v \<in> set (sorted_list_of_set ?V)" "w \<in> set (sorted_list_of_set ?V)" "v < w"
    then have vw: "v \<in> ?V" "w \<in> ?V" "v \<noteq> w" using fin by simp_all
    then obtain l l' where l: "l \<in> set locations" "v = full_view_bytes32 (k (full_view_bytes32 l)) @ zeroless_view (the (storage a i l))"
      and l': "l' \<in> set locations" "w = full_view_bytes32 (k (full_view_bytes32 l')) @ zeroless_view (the (storage a i l'))"
      unfolding V by blast
    have "k (full_view_bytes32 l) \<noteq> k (full_view_bytes32 l')" using vw(3) l l' inj_onD [OF inj, of l l'] by auto
    then have "take 32 v \<noteq> take 32 w" by (simp add: l(2) l'(2))
    then show "(fst \<circ> slot_entry) v < (fst \<circ> slot_entry) w" using lex_take [OF \<open>v < w\<close>, of 32] by (simp add: slot_entry_def)
  qed
  moreover have "set ?es = (\<lambda>l. (full_view_bytes32 (k (full_view_bytes32 l)), ?val l)) ` set locations"
  proof -
    have "slot_entry (full_view_bytes32 (k (full_view_bytes32 l)) @ zeroless_view v) =
        (full_view_bytes32 (k (full_view_bytes32 l)), rlp (Str (be_min (unat v))))" for l v
      using length_zeroless_view [of v] by (simp add: slot_entry_def zeroless_view_eq encode_bytes_spec del: rlp.simps)
    then show ?thesis using fin V by (simp add: image_image del: rlp.simps)
  qed
  moreover have "distinct (map (\<lambda>l. k (full_view_bytes32 l)) locations)" using inj assms(3) by (simp add: distinct_map enumerates_def)
  moreover have "\<forall>l \<in> set locations. length (?val l) < 2 ^ 58"
    using le_less_trans [OF length_scalars(2)] by (simp del: rlp.simps)
  ultimately show ?thesis
    using builder_root [of ?es "\<lambda>l. k (full_view_bytes32 l)" ?val locations k]
    by (simp add: stored_root_def storage_trie_root_def del: rlp.simps)
qed

lemma account_entry_row:
  assumes "collision_free k accounts storage" and "accounts a = Some acc" and "enumerates (locs a (acc_incarnation acc)) (storage a (acc_incarnation acc))"
  shows "account_entry k (hashed_storage_rows k storage) (full_view_bytes32 (k (full_view_address a)), encode_for_storage acc False) =
    (full_view_bytes32 (k (full_view_address a)),
     rlp (account_item acc (if acc_incarnation acc = 0 then kEmptyRoot
       else storage_trie_root k (\<lambda>l. the (storage a (acc_incarnation acc) l)) (locs a (acc_incarnation acc)))))"
  using stored_root_eq [OF assms(1) domI assms(3), OF assms(2)] decode_encode_account [of acc False]
  by (simp add: account_entry_def account_rlp_eq del: rlp.simps)

lemma account_rows_root:
  assumes "collision_free k accounts storage" and "enumerates addrs accounts" and "\<And>a i. enumerates (locs a i) (storage a i)"
  shows "fst (hb_root_hash k (add_entries k
      (map (account_entry k (hashed_storage_rows k storage)) (sorted_list_of_set (hashed_account_rows k accounts))) collecting_hash_builder)) =
    (if addrs = [] then kEmptyRoot
     else mpt_root k (hashed (\<lambda>a. k (full_view_address a))
       (\<lambda>a. let account = the (accounts a); i = acc_incarnation account
            in rlp (account_item account (if i = 0 then kEmptyRoot else storage_trie_root k (\<lambda>l. the (storage a i l)) (locs a i)))) addrs))"
proof -
  let ?A = "hashed_account_rows k accounts"
  let ?row = "\<lambda>a. (full_view_bytes32 (k (full_view_address a)), encode_for_storage (the (accounts a)) False)"
  let ?entry = "account_entry k (hashed_storage_rows k storage)"
  let ?val = "\<lambda>a. let account = the (accounts a); i = acc_incarnation account
    in rlp (account_item account (if i = 0 then kEmptyRoot else storage_trie_root k (\<lambda>l. the (storage a i l)) (locs a i)))"
  have addrs: "set addrs = dom accounts" "distinct addrs" using assms(2) by (simp_all add: enumerates_def)
  have A: "?A = ?row ` set addrs" unfolding addrs(1) by (force simp: hashed_account_rows_def)
  have inj: "inj_on (\<lambda>a. k (full_view_address a)) (set addrs)"
    using assms(1) unfolding collision_free_def addrs(1) by (meson inj_on_subset sup_ge1)
  have entry: "?entry (?row a) = (full_view_bytes32 (k (full_view_address a)), ?val a)" if mem: "a \<in> set addrs" for a
  proof -
    obtain acc where "accounts a = Some acc" using mem unfolding addrs(1) by blast
    then show ?thesis using account_entry_row [where locs = locs, OF assms(1) _ assms(3)] by (simp add: Let_def del: rlp.simps)
  qed
  have st: "set (sorted_list_of_set ?A) = ?row ` set addrs" unfolding A by simp
  have "sorted_wrt (<) (map fst (map ?entry (sorted_list_of_set ?A)))"
    unfolding map_map
  proof (rule sorted_wrt_on [OF strict_sorted_list_of_set])
    fix p q assume "p \<in> set (sorted_list_of_set ?A)" "q \<in> set (sorted_list_of_set ?A)" "p < q"
    then obtain a b where p: "p = ?row a" "a \<in> set addrs" and q: "q = ?row b" "b \<in> set addrs" unfolding st by blast
    have "a \<noteq> b" using \<open>p < q\<close> p q by blast
    then have "k (full_view_address a) \<noteq> k (full_view_address b)" using inj_onD [OF inj] p(2) q(2) by blast
    then have "fst p < fst q" using \<open>p < q\<close> p(1) q(1) by (auto simp: order_le_less)
    then show "(fst \<circ> ?entry) p < (fst \<circ> ?entry) q" using entry [OF p(2)] entry [OF q(2)] p(1) q(1) by simp
  qed
  moreover have "set (map ?entry (sorted_list_of_set ?A)) = (\<lambda>a. (full_view_bytes32 (k (full_view_address a)), ?val a)) ` set addrs"
    unfolding set_map st image_image by (rule image_cong [OF refl entry])
  moreover have "distinct (map (\<lambda>a. k (full_view_address a)) addrs)" using inj addrs(2) by (simp add: distinct_map)
  moreover have "\<forall>a \<in> set addrs. length (?val a) < 2 ^ 58"
    unfolding Let_def account_rlp_eq [symmetric] using length_account_rlp by blast
  ultimately show ?thesis by (rule builder_root)
qed

context lmdb
begin

lemma calculate_root_run:
  assumes "has_table dups t kHashedAccounts" and "has_table dups t kHashedStorage"
    and "rows items t kHashedAccounts = hashed_account_rows k accounts"
    and "\<And>key i v. (storage_prefix key i, v) \<in> rows items t kHashedStorage \<Longrightarrow> 32 \<le> length v"
  shows "\<exists>ac' sc'. calculate_root M k t ac sc = Inr
    (fst (hb_root_hash k (add_entries k
      (map (account_entry k (rows items t kHashedStorage)) (sorted_list_of_set (hashed_account_rows k accounts))) collecting_hash_builder)),
     ac', sc')"
proof -
  let ?ps = "sorted_list_of_set (hashed_account_rows k accounts)"
  obtain d where d: "txn_open M kHashedAccounts False t = Inr (d, t)" "items d = hashed_account_rows k accounts"
    using txn_open_table [OF assms(1), of False] assms(3) by auto
  obtain sd where sd: "txn_open M kHashedStorage False t = Inr (sd, t)" "items sd = rows items t kHashedStorage" "dups sd"
    using txn_open_table [OF assms(2), of False] by (auto simp: kHashedStorage_def dupsort_table_def)
  obtain a d1 where d1: "table_seek M [] d = Inr (a, d1)" "cursor_on d1 a ?ps"
    using seek_cursor [of d] d(2) by auto
  have ps: "\<exists>acc. decode_account_from_storage val = Ok acc" if "(key, val) \<in> set ?ps" for key val
    using that finite_items [of d] d(2) decode_encode_account [of _ False] by (auto simp: hashed_account_rows_def)
  have "\<exists>c'. account_loop M k a d1 sd collecting_hash_builder sc =
      Some (Inr (add_entries k (map (account_entry k (rows items t kHashedStorage)) ?ps) collecting_hash_builder, c'))"
    by (rule account_loop_run) (use ps d1(2) sd(2,3) assms(4) in auto)
  then obtain c' where "account_loop M k a d1 sd collecting_hash_builder sc =
      Some (Inr (add_entries k (map (account_entry k (rows items t kHashedStorage)) ?ps) collecting_hash_builder, c'))" ..
  then show ?thesis
    using d(1) sd(1) d1(1)
    by (simp add: calculate_root_def account_trie_can_skip_state_def account_trie_first_uncovered_prefix_def ends_def case_prod_unfold)
qed

end

section \<open>Properties\<close>

text \<open>
  C11. From tables that hold the hashed accounts and storage of a state, the loader computes the state root of the
  yellow paper, for every LMDB that keeps its promises: the walk over both tables ends, decodes every account,
  and feeds the builders in the order of the hashes.  Tries are never regenerated under another expected root.
\<close>

theorem calculate_root_correct:
  assumes "lmdb M items at dups" and "has_table dups t kHashedAccounts" and "has_table dups t kHashedStorage"
    and "rows items t kHashedAccounts = hashed_account_rows k accounts"
    and "rows items t kHashedStorage = hashed_storage_rows k storage"
    and "collision_free k accounts storage" and "enumerates addrs accounts" and "\<forall>a i. enumerates (locs a i) (storage a i)"
  shows "let root = (if addrs = [] then kEmptyRoot
       else mpt_root k (hashed (\<lambda>a. k (full_view_address a))
         (\<lambda>a. let account = the (accounts a); i = acc_incarnation account
              in rlp (account_item account (if i = 0 then kEmptyRoot else storage_trie_root k (\<lambda>l. the (storage a i l)) (locs a i)))) addrs))
     in (\<exists>ac' sc'. calculate_root M k t ac sc = Inr (root, ac', sc')) \<and>
        (\<forall>r. r \<noteq> root \<longrightarrow> regenerate_db_tries M k pick (Some r) t = Inl Runtime_error)"
proof -
  let ?R = "fst (hb_root_hash k (add_entries k (map (account_entry k (hashed_storage_rows k storage))
      (sorted_list_of_set (hashed_account_rows k accounts))) collecting_hash_builder))"
  have run: "\<exists>ac' sc'. calculate_root M k t ac sc = Inr (?R, ac', sc')" for ac sc
  proof -
    have "32 \<le> length v" if "(storage_prefix key i, v) \<in> rows items t kHashedStorage" for key i v
      using that unfolding assms(5) by (auto simp: hashed_storage_rows_def)
    then show ?thesis using lmdb.calculate_root_run [OF assms(1-4), of ac sc] unfolding assms(5) by blast
  qed
  have "regenerate_db_tries M k pick (Some r) t = Inl Runtime_error" if "r \<noteq> ?R" for r
    using run [of "new_collector kOptimalBufferSize" "new_collector kOptimalBufferSize"] that by (auto simp: regenerate_db_tries_def)
  then have *: "(\<exists>ac' sc'. calculate_root M k t ac sc = Inr (?R, ac', sc')) \<and>
      (\<forall>r. r \<noteq> ?R \<longrightarrow> regenerate_db_tries M k pick (Some r) t = Inl Runtime_error)" using run by blast
  have "\<And>a i. enumerates (locs a i) (storage a i)" using assms(8) by blast
  from account_rows_root [OF assms(6,7) this] show ?thesis unfolding Let_def by (rule subst) (rule *)
qed

definition sample_hash :: "bytes \<Rightarrow> bytes32" where
  "sample_hash x = word_of_nat (be_load x)"

definition sample_accounts :: "address \<rightharpoonup> account" where
  "sample_accounts = [3 \<mapsto> new_account\<lparr>acc_incarnation := 1\<rparr>]"

definition sample_storage :: "address \<Rightarrow> u64 \<Rightarrow> bytes32 \<rightharpoonup> bytes32" where
  "sample_storage a i = (if a = 3 \<and> i = 1 then [5 \<mapsto> 7] else Map.empty)"

definition sample_hashed_txn :: "list_db txn" where
  "sample_hashed_txn =
     \<lparr>txn_ro = False, txn_main = empty_list_db False,
      txn_tables =
        [''hashed_accounts'' \<mapsto> (empty_list_db False)\<lparr>ld_items := [(full_view_bytes32 (sample_hash (full_view_address 3)),
           encode_for_storage (new_account\<lparr>acc_incarnation := 1\<rparr>) False)]\<rparr>,
         ''hashed_storage'' \<mapsto> (empty_list_db True)\<lparr>ld_items := [(storage_prefix (full_view_bytes32 (sample_hash (full_view_address 3))) 1,
           full_view_bytes32 (sample_hash (full_view_bytes32 5)) @ zeroless_view 7)]\<rparr>]\<rparr>"

theorem calculate_root_correct_witness:
  "\<exists>ac' sc'. calculate_root list_lmdb sample_hash sample_hashed_txn (new_collector 9) (new_collector 9) = Inr
     (mpt_root sample_hash (hashed (\<lambda>a. sample_hash (full_view_address a))
       (\<lambda>a. rlp (account_item (new_account\<lparr>acc_incarnation := 1\<rparr>) (storage_trie_root sample_hash (\<lambda>l. 7) [5]))) [3]), ac', sc')"
proof -
  let ?I = "\<lambda>d. set (ld_items d)"
  have tables: "has_table ld_dups sample_hashed_txn kHashedAccounts" "has_table ld_dups sample_hashed_txn kHashedStorage"
    by (simp_all add: has_table_def sample_hashed_txn_def kHashedAccounts_def kHashedStorage_def plain_table_def dupsort_table_def
        empty_list_db_def)
  have rows: "rows ?I sample_hashed_txn kHashedAccounts = hashed_account_rows sample_hash sample_accounts"
    "rows ?I sample_hashed_txn kHashedStorage = hashed_storage_rows sample_hash sample_storage"
    by (auto simp: rows_def sample_hashed_txn_def kHashedAccounts_def kHashedStorage_def plain_table_def dupsort_table_def
        hashed_account_rows_def hashed_storage_rows_def sample_accounts_def sample_storage_def split: if_splits)
  have free: "collision_free sample_hash sample_accounts sample_storage"
    by (auto simp: collision_free_def sample_storage_def sample_accounts_def inj_on_def split: if_splits)
  have "enumerates [3] sample_accounts" "\<forall>a i. enumerates (if a = 3 \<and> i = 1 then [5] else []) (sample_storage a i)"
    by (simp_all add: enumerates_def sample_accounts_def sample_storage_def)
  from calculate_root_correct [OF list_lmdb.lmdb_axioms tables rows free this, of "new_collector 9" "new_collector 9"]
  show ?thesis
    by (simp add: Let_def hashed_def sample_accounts_def sample_storage_def storage_trie_root_def del: rlp.simps)
qed

text \<open>
  Every node whose hash mask counts its hashes is read back from its form on disk, with or without a root hash.
\<close>

theorem node_roundtrip:
  assumes "length (node_hashes n) = popcount (hash_mask n)"
  shows "unmarshal_node (marshal_node n) = Some n"
proof -
  have split: "length hs = m \<Longrightarrow> split_hashes m (concat (map full_view_bytes32 hs)) = hs" for hs m
    by (induction hs arbitrary: m) (auto simp: full_view_bytes32_load)
  have len: "length (concat (map full_view_bytes32 hs)) = 32 * length hs" for hs by (induction hs) simp_all
  have mask: "word_of_nat (be_load (be_store 2 (unat m))) = m" for m :: u16
    using unsigned_less [of m, where ?'a = nat] by (simp add: be_load_store)
  show ?thesis
    using assms by (cases n; cases "node_root_hash n")
      (simp_all add: unmarshal_node_def marshal_node_def Let_def mask kHashLength_def len split full_view_bytes32_load)
qed

theorem node_roundtrip_witness:
  "unmarshal_node (marshal_node \<lparr>state_mask = 7, tree_mask = 0, hash_mask = 5, node_hashes = [1, 2], node_root_hash = Some 3\<rparr>) =
     Some \<lparr>state_mask = 7, tree_mask = 0, hash_mask = 5, node_hashes = [1, 2], node_root_hash = Some 3\<rparr>"
  by (rule node_roundtrip) (simp add: popcount_def upt_rec bit_numeral_rec)

lemmas builder_steps = hb_add_def gen_struct_step_def struct_step_def prec_length_def add_digit_def push_node_def close_group_def
  pop_zeros_def resize_def Let_def branch_ref_def collect_node_def

definition stray_entries :: "(bytes \<times> bytes) list" where
  "stray_entries = [([0x00, 0x00], [1]), ([0x00, 0x01], [1]), ([0x10, 0x10], [1]), ([0x10, 0x20], [1])]"

lemma stray_start:
  "\<exists>s. hb_add k [0x10, 0x10] [1] (hb_add k [0x00, 0x01] [1] (hb_add k [0x00, 0x00] [1] collecting_hash_builder)) =
     \<lparr>hb_key = [1, 0, 1, 0], hb_value = [1], hb_groups = [1], hb_tree_masks = [0, 0, 0], hb_hash_masks = [0, 0, 1], hb_stack = s,
      hb_node_collector = Some []\<rparr>"
  by (simp add: collecting_hash_builder_def new_hash_builder_def builder_steps gen_struct_loop.simps)

lemma stray_last:
  "\<exists>s'. hb_add k [0x10, 0x20] [1] \<lparr>hb_key = [1, 0, 1, 0], hb_value = [1], hb_groups = [1], hb_tree_masks = [0, 0, 0],
       hb_hash_masks = [0, 0, 1], hb_stack = s, hb_node_collector = Some []\<rparr> =
     \<lparr>hb_key = [1, 0, 2, 0], hb_value = [1], hb_groups = [1, 0, 2], hb_tree_masks = [0, 0, 0, 0],
      hb_hash_masks = [0, 0, 1, 0], hb_stack = s', hb_node_collector = Some []\<rparr>"
  by (simp add: builder_steps gen_struct_loop.simps)

lemma stray_close:
  "\<exists>s'. struct_step k [1, 0, 2, 0] [] [1] False \<lparr>hb_key = [1, 0, 2, 0], hb_value = [1], hb_groups = [1, 0, 2],
       hb_tree_masks = [0, 0, 0, 0], hb_hash_masks = [0, 0, 1, 0], hb_stack = s, hb_node_collector = Some []\<rparr> =
     (Some 2, \<lparr>hb_key = [1, 0, 2, 0], hb_value = [1], hb_groups = [1], hb_tree_masks = [0, 1], hb_hash_masks = [0, 1],
      hb_stack = s', hb_node_collector = Some [([1, 0],
        \<lparr>state_mask = 6, tree_mask = 0, hash_mask = 1, node_hashes = [], node_root_hash = None\<rparr>)]\<rparr>)"
  by (simp add: builder_steps upt_rec bit_numeral_rec)

lemma stray_end:
  assumes "hb_groups hb = [1]" and "hb_tree_masks hb = [0, 1]" and "hb_hash_masks hb = [0, 1]" and "hb_node_collector hb = Some nodes"
  shows "\<exists>nodes'. hb_node_collector (gen_struct_loop k [1, 0] [] [1] True hb) = Some (nodes @ nodes')"
  using assms by (simp add: builder_steps gen_struct_loop.simps)

text \<open>
  C12. In a release build the builder can tell its node collector about a node whose hash mask names a child that the node does not
  have, contrary to the invariant of the table of tries: a bit of the hash mask below an extension node survives until
  another group of the same depth is closed.  A debug build stops at the assertion of \<open>branch_ref\<close> instead.
\<close>

theorem collector_stray_hash:
  "\<exists>p n. sorted_wrt key_before (map fst stray_entries) \<and>
     (p, n) \<in> set (collected_nodes (snd (hb_root_hash k (add_entries k stray_entries collecting_hash_builder)))) \<and>
     hash_mask n AND NOT (state_mask n) \<noteq> 0 \<and> length (node_hashes n) \<noteq> popcount (hash_mask n)"
proof -
  let ?n = "\<lparr>state_mask = 6, tree_mask = 0, hash_mask = 1, node_hashes = [], node_root_hash = None\<rparr>"
  obtain s where s: "add_entries k stray_entries collecting_hash_builder =
     \<lparr>hb_key = [1, 0, 2, 0], hb_value = [1], hb_groups = [1, 0, 2], hb_tree_masks = [0, 0, 0, 0],
      hb_hash_masks = [0, 0, 1, 0], hb_stack = s, hb_node_collector = Some []\<rparr>" (is "_ = ?hb")
  proof -
    obtain s0 where "hb_add k [0x10, 0x10] [1] (hb_add k [0x00, 0x01] [1] (hb_add k [0x00, 0x00] [1] collecting_hash_builder)) =
      \<lparr>hb_key = [1, 0, 1, 0], hb_value = [1], hb_groups = [1], hb_tree_masks = [0, 0, 0], hb_hash_masks = [0, 0, 1], hb_stack = s0,
       hb_node_collector = Some []\<rparr>" using stray_start [of k] by blast
    then show thesis using stray_last [of k s0] that by (auto simp: add_entries_def stray_entries_def)
  qed
  obtain s' where s': "struct_step k [1, 0, 2, 0] [] [1] False ?hb =
     (Some 2, \<lparr>hb_key = [1, 0, 2, 0], hb_value = [1], hb_groups = [1], hb_tree_masks = [0, 1], hb_hash_masks = [0, 1],
      hb_stack = s', hb_node_collector = Some [([1, 0], ?n)]\<rparr>)" (is "_ = (_, ?hb')")
    using stray_close by blast
  obtain nodes where "hb_node_collector (gen_struct_loop k [1, 0] [] [1] True ?hb') = Some (([1, 0], ?n) # nodes)"
    using stray_end [of ?hb' "[([1, 0], ?n)]" k] by auto
  then have "collected_nodes (snd (hb_root_hash k ?hb)) = ([1, 0], ?n) # nodes"
    using s' by (simp add: hb_root_hash_def hb_finalize_def gen_struct_step_def gen_struct_loop.simps [of k "[1, 0, 2, 0]"]
        collected_nodes_def Let_def)
  moreover have "sorted_wrt key_before (map fst stray_entries)" by (simp add: stray_entries_def)
  moreover have "popcount 1 \<noteq> 0" by (simp add: popcount_def upt_rec)
  ultimately show ?thesis unfolding s by (intro exI [of _ "[1, 0]"] exI [of _ ?n]) simp
qed

end
