(* ===== verification/Bulk.thy ===== *)
theory Bulk
  imports Db_Trie Etl_Correct
begin

text \<open>
  Loading a collector into a table with the flags of LMDB for sorted data, \<open>MDB_APPEND\<close> and \<open>MDB_APPENDDUP\<close>, as the
  tools of src/cmd do, and walking over a table with the return codes of its cursor.

  The further functions of LMDB are a record of their own, and what their documentation promises extends the
  locale of the tables: appending is like putting, provided that the data come in order.
\<close>

section \<open>Flags\<close>

datatype put_flags = No_flags | MDB_APPEND | MDB_APPENDDUP

record 'd bulk_ops =
  mdb_put_append :: "'d \<Rightarrow> bytes \<Rightarrow> bytes \<Rightarrow> mdb_rc \<times> 'd"
  mdb_put_append_dup :: "'d \<Rightarrow> bytes \<Rightarrow> bytes \<Rightarrow> mdb_rc \<times> 'd"
  mdb_stat_entries :: "'d \<Rightarrow> mdb_rc \<times> u64"

definition table_put_flags :: "'d lmdb_ops \<Rightarrow> 'd bulk_ops \<Rightarrow> put_flags \<Rightarrow> bytes \<Rightarrow> bytes \<Rightarrow> 'd \<Rightarrow> 'd db" where
  "table_put_flags M B flags key data d =
     (case (case flags of
              No_flags \<Rightarrow> mdb_cursor_put M d key data
            | MDB_APPEND \<Rightarrow> mdb_put_append B d key data
            | MDB_APPENDDUP \<Rightarrow> mdb_put_append_dup B d key data) of
        (rc, d) \<Rightarrow> db_bind (err_handler rc) (\<lambda>_. Inr d))"

definition put_entry :: "'d lmdb_ops \<Rightarrow> 'd bulk_ops \<Rightarrow> put_flags \<Rightarrow> etl_entry \<Rightarrow> 'd db \<Rightarrow> 'd db option" where
  "put_entry M B flags e d = Some (db_bind d (table_put_flags M B flags (entry_key e) (entry_value e)))"

text \<open>\<open>collector.load(txn->open(config, MDB_CREATE).get(), nullptr, flags)\<close>\<close>

definition load_into ::
    "'d lmdb_ops \<Rightarrow> 'd bulk_ops \<Rightarrow> ((etl_entry \<times> nat) list \<Rightarrow> nat) \<Rightarrow> table_config \<Rightarrow> put_flags \<Rightarrow> collector \<Rightarrow> 'd txn \<Rightarrow> 'd txn db" where
  "load_into M B pick config flags c t =
     db_bind (txn_open M config True t) (\<lambda>(d, t).
     case load pick (put_entry M B flags) c (Inr d) of
       None \<Rightarrow> Inl Db_stuck
     | Some (_, d) \<Rightarrow> db_bind d (\<lambda>d. Inr (txn_store config d t)))"

section \<open>What LMDB promises\<close>

locale lmdb_bulk = lmdb M items at dups
  for M :: "'d lmdb_ops" and items :: "'d \<Rightarrow> (bytes \<times> bytes) set" and at :: "'d \<Rightarrow> (bytes \<times> bytes) option" and dups :: "'d \<Rightarrow> bool" +
  fixes B :: "'d bulk_ops"
  assumes append_law: "storable (dups d) k v \<Longrightarrow> (\<And>p. p \<in> items d \<Longrightarrow> fst p < k) \<Longrightarrow>
      fst (mdb_put_append B d k v) = MDB_SUCCESS \<and> items (snd (mdb_put_append B d k v)) = insert (k, v) (items d) \<and>
      dups (snd (mdb_put_append B d k v)) = dups d"
    and append_dup_law: "dups d \<Longrightarrow> storable True k v \<Longrightarrow> (\<And>w. (k, w) \<in> items d \<Longrightarrow> w < v) \<Longrightarrow>
      fst (mdb_put_append_dup B d k v) = MDB_SUCCESS \<and> items (snd (mdb_put_append_dup B d k v)) = insert (k, v) (items d) \<and>
      dups (snd (mdb_put_append_dup B d k v)) = True"
    and stat_law: "mdb_stat_entries B d = (MDB_SUCCESS, word_of_nat (card (items d)))"
begin

lemma feed_append:
  assumes "sorted_wrt (<) (map entry_key es)" and "\<And>e. e \<in> set es \<Longrightarrow> storable (dups d) (entry_key e) (entry_value e)"
    and "\<And>p e. p \<in> items d \<Longrightarrow> e \<in> set es \<Longrightarrow> fst p < entry_key e"
  shows "\<exists>d'. feed (put_entry M B MDB_APPEND) es (Inr d) = Some (Inr d') \<and> dups d' = dups d \<and>
    items d' = items d \<union> (\<lambda>e. (entry_key e, entry_value e)) ` set es"
  using assms
proof (induction es arbitrary: d)
  case (Cons e es)
  obtain rc d1 where put: "mdb_put_append B d (entry_key e) (entry_value e) = (rc, d1)" by fastforce
  have d1: "rc = MDB_SUCCESS" "items d1 = insert (entry_key e, entry_value e) (items d)" "dups d1 = dups d"
    using append_law [of d "entry_key e" "entry_value e"] Cons.prems put by auto
  have put1: "put_entry M B MDB_APPEND e (Inr d) = Some (Inr d1)"
    using put d1(1) by (simp add: put_entry_def table_put_flags_def err_handler_def)
  have "\<exists>d'. feed (put_entry M B MDB_APPEND) es (Inr d1) = Some (Inr d') \<and> dups d' = dups d1 \<and>
      items d' = items d1 \<union> (\<lambda>e. (entry_key e, entry_value e)) ` set es"
    using Cons.prems d1 by (intro Cons.IH) auto
  then show ?case using put1 d1 by auto
qed simp

lemma feed_append_dup:
  assumes "sorted_wrt (<) es" and "\<And>e. e \<in> set es \<Longrightarrow> storable True (entry_key e) (entry_value e)" and "dups d"
    and "\<And>e w. e \<in> set es \<Longrightarrow> (entry_key e, w) \<in> items d \<Longrightarrow> w < entry_value e"
  shows "\<exists>d'. feed (put_entry M B MDB_APPENDDUP) es (Inr d) = Some (Inr d') \<and> dups d' \<and>
    items d' = items d \<union> (\<lambda>e. (entry_key e, entry_value e)) ` set es"
  using assms
proof (induction es arbitrary: d)
  case (Cons e es)
  obtain rc d1 where put: "mdb_put_append_dup B d (entry_key e) (entry_value e) = (rc, d1)" by fastforce
  have d1: "rc = MDB_SUCCESS" "items d1 = insert (entry_key e, entry_value e) (items d)" "dups d1"
    using append_dup_law [of d "entry_key e" "entry_value e"] Cons.prems put by auto
  have less: "entry_value e < entry_value f" if "f \<in> set es" "entry_key f = entry_key e" for f
    using Cons.prems(1) that by (auto simp: less_etl_entry_def entry_less_def)
  have put1: "put_entry M B MDB_APPENDDUP e (Inr d) = Some (Inr d1)"
    using put d1(1) by (simp add: put_entry_def table_put_flags_def err_handler_def)
  have "\<exists>d'. feed (put_entry M B MDB_APPENDDUP) es (Inr d1) = Some (Inr d') \<and> dups d' \<and>
      items d' = items d1 \<union> (\<lambda>e. (entry_key e, entry_value e)) ` set es"
    using Cons.prems d1 less by (intro Cons.IH) auto
  then show ?case using put1 d1 by auto
qed simp

end

text \<open>Lists with appending: a key, or a value of a key, out of order is refused (error -30799).\<close>

definition list_bulk :: "list_db bulk_ops" where
  "list_bulk =
     \<lparr>mdb_put_append = (\<lambda>d k v. if \<forall>p \<in> set (ld_items d). fst p < k then ld_put d k v else (MDB_OTHER (- 30799), d)),
      mdb_put_append_dup = (\<lambda>d k v. if \<forall>p \<in> set (ld_items d). fst p = k \<longrightarrow> snd p < v then ld_put d k v else (MDB_OTHER (- 30799), d)),
      mdb_stat_entries = (\<lambda>d. (MDB_SUCCESS, word_of_nat (card (set (ld_items d)))))\<rparr>"

interpretation list_bulk: lmdb_bulk list_lmdb "\<lambda>d. set (ld_items d)" ld_at ld_dups list_bulk
proof unfold_locales
  fix d :: list_db and k v
  show "fst (mdb_put_append list_bulk d k v) = MDB_SUCCESS \<and> set (ld_items (snd (mdb_put_append list_bulk d k v))) = insert (k, v) (set (ld_items d)) \<and>
      ld_dups (snd (mdb_put_append list_bulk d k v)) = ld_dups d"
    if "storable (ld_dups d) k v" "\<And>p. p \<in> set (ld_items d) \<Longrightarrow> fst p < k"
    using that by (force simp: list_bulk_def ld_put_def)
  show "fst (mdb_put_append_dup list_bulk d k v) = MDB_SUCCESS \<and>
      set (ld_items (snd (mdb_put_append_dup list_bulk d k v))) = insert (k, v) (set (ld_items d)) \<and>
      ld_dups (snd (mdb_put_append_dup list_bulk d k v)) = True"
    if "ld_dups d" "storable True k v" "\<And>w. (k, w) \<in> set (ld_items d) \<Longrightarrow> w < v"
    using that by (auto simp: list_bulk_def ld_put_def)
  show "mdb_stat_entries list_bulk d = (MDB_SUCCESS, word_of_nat (card (set (ld_items d))))" by (simp add: list_bulk_def)
qed

section \<open>Walking with return codes\<close>

context lmdb
begin

text \<open>What the cursor returned, and the pairs from there on.\<close>

definition reads :: "(mdb_rc \<times> bytes \<times> bytes) \<times> 'd \<Rightarrow> (bytes \<times> bytes) set \<Rightarrow> (bytes \<times> bytes) list \<Rightarrow> bool" where
  "reads r I xs \<longleftrightarrow> items (snd r) = I \<and>
     (case xs of
        [] \<Rightarrow> fst (fst r) = MDB_NOTFOUND
      | p # ps \<Rightarrow> fst r = (MDB_SUCCESS, p) \<and> at (snd r) = Some p \<and> ascending xs \<and> set ps = {q \<in> I. p < q})"

lemma reads_found:
  assumes "found items at (set xs) (mdb_cursor_get M d k v op)" and "ascending xs"
    and "\<And>p ps. xs = p # ps \<Longrightarrow> set ps = {q \<in> items d. p < q}"
  shows "reads (mdb_cursor_get M d k v op) (items d) xs"
proof (cases xs)
  case Nil
  then show ?thesis using assms(1) get_keeps(1) [of d k v op] by (simp add: reads_def found_def)
next
  case (Cons p ps)
  then have "Min (set xs) = p" using ascending_Min assms(2) by blast
  then show ?thesis using assms Cons get_keeps(1) [of d k v op] by (simp add: reads_def found_def)
qed

lemma reads_from:
  assumes "k \<noteq> []"
  shows "reads (mdb_cursor_get M d k v MDB_SET_RANGE) (items d) (sorted_list_of_set {p \<in> items d. k \<le> fst p})"
proof (rule reads_found)
  have fin: "finite {p \<in> items d. k \<le> fst p}" using finite_items by simp
  then show "found items at (set (sorted_list_of_set {p \<in> items d. k \<le> fst p})) (mdb_cursor_get M d k v MDB_SET_RANGE)"
    using get_set_range [OF assms, of d v] by simp
  fix p ps assume xs: "sorted_list_of_set {p \<in> items d. k \<le> fst p} = p # ps"
  have "ascending (sorted_list_of_set {p \<in> items d. k \<le> fst p})" by (rule ascending_sorted_list)
  then have asc: "ascending (p # ps)" unfolding xs .
  have st: "insert p (set ps) = {p \<in> items d. k \<le> fst p}" using arg_cong [OF xs, of set] fin by simp
  show "set ps = {q \<in> items d. p < q}"
  proof (intro equalityI subsetI)
    fix q assume "q \<in> set ps"
    then show "q \<in> {q \<in> items d. p < q}" using asc st by (auto simp: ascending_def)
  next
    fix q assume q: "q \<in> {q \<in> items d. p < q}"
    have "k \<le> fst p" using st by blast
    also have "fst p \<le> fst q" using q by (auto simp: less_prod_def)
    finally have "q \<in> insert p (set ps)" using st q by blast
    then show "q \<in> set ps" using q by auto
  qed
qed (rule ascending_sorted_list)

lemma reads_next:
  assumes "reads r I (p # ps)"
  shows "reads (mdb_cursor_get M (snd r) k v MDB_NEXT) I ps"
proof -
  have r: "items (snd r) = I" "at (snd r) = Some p" "ascending (p # ps)" "set ps = {q \<in> I. p < q}"
    using assms by (simp_all add: reads_def)
  have "reads (mdb_cursor_get M (snd r) k v MDB_NEXT) (items (snd r)) ps"
  proof (rule reads_found)
    show "found items at (set ps) (mdb_cursor_get M (snd r) k v MDB_NEXT)" using get_next [OF r(2)] r(1,4) by simp
    show "ascending ps" using r(3) by (simp add: ascending_def)
    show "set qs = {x \<in> items (snd r). q < x}" if "ps = q # qs" for q qs
      using r that by (auto simp: ascending_def)
  qed
  then show ?thesis using r(1) by simp
qed

end

section \<open>Loading\<close>

definition fits :: "etl_entry list \<Rightarrow> bool" where
  "fits es \<longleftrightarrow> (\<forall>e\<in>set es. small e \<and> entry_size e \<noteq> 0) \<and> (\<Sum>e\<leftarrow>es. entry_size e + 8) < 2 ^ 64"

definition entry_rows :: "etl_entry list \<Rightarrow> (bytes \<times> bytes) set" where
  "entry_rows es = (\<lambda>e. (entry_key e, entry_value e)) ` set es"

lemma sort_keys_strict:
  assumes "distinct (map entry_key es)"
  shows "sorted_wrt (<) (map entry_key (sort es))"
proof -
  have "sorted (map entry_key (sort es))"
    unfolding sorted_wrt_map [of "(\<le>)" entry_key]
    by (rule sorted_wrt_mono_rel [OF _ sorted_sort]) (auto simp: less_eq_etl_entry_def entry_less_def split: if_splits)
  moreover have "mset (map entry_key (sort es)) = mset (map entry_key es)" by simp
  then have "distinct (map entry_key (sort es))" using assms mset_eq_imp_distinct_iff by blast
  ultimately show ?thesis by (simp add: strict_sorted_iff)
qed

lemma sort_strict: "distinct es \<Longrightarrow> sorted_wrt (<) (sort es)" for es :: "etl_entry list"
  by (simp add: strict_sorted_iff)

context lmdb_bulk
begin

lemma load_into_rows:
  assumes "picks_min pick" and "fits es" and "flags_ok dups t config" and "\<not> txn_ro t"
    and "\<And>d. items d = rows items t config \<Longrightarrow> dups d = tc_dupsort config \<Longrightarrow>
      \<exists>d'. feed (put_entry M B flags) (sort es) (Inr d) = Some (Inr d') \<and> dups d' = dups d \<and> items d' = R"
  shows "\<exists>t'. load_into M B pick config flags (collect_all es (new_collector n)) t = Inr t' \<and> rows items t' config = R \<and>
    has_table dups t' config \<and> txn_ro t' = txn_ro t \<and> (\<forall>c. tc_name c \<noteq> tc_name config \<longrightarrow> rows items t' c = rows items t c) \<and>
    (\<forall>c. tc_name c \<noteq> tc_name config \<longrightarrow> has_table dups t' c = has_table dups t c) \<and>
    (\<forall>c. tc_name c \<noteq> tc_name config \<longrightarrow> flags_ok dups t' c = flags_ok dups t c)"
proof -
  obtain d t1 where t1: "txn_open M config True t = Inr (d, t1)" "items d = rows items t config" "dups d = tc_dupsort config"
    "has_table dups t1 config" "txn_ro t1 = txn_ro t" "rows items t1 = rows items t"
    "\<forall>n. tc_name config \<noteq> Some n \<longrightarrow> txn_tables t1 n = txn_tables t n"
    using txn_open_create [OF assms(3,4)] by blast
  obtain d' where d': "feed (put_entry M B flags) (sort es) (Inr d) = Some (Inr d')" "dups d' = dups d" "items d' = R"
    using assms(5) [OF t1(2,3)] by blast
  have "map_option snd (load pick (put_entry M B flags) (collect_all es (new_collector n)) (Inr d)) = Some (Inr d')"
    using load_feeds [OF assms(1), where es = es and sink = "put_entry M B flags" and optimal_size = n and t = "Inr d"] assms(2) d'(1)
    unfolding fits_def by presburger
  then obtain c where ld: "load pick (put_entry M B flags) (collect_all es (new_collector n)) (Inr d) = Some (c, Inr d')" by auto
  have name: "tc_name config \<noteq> None" using assms(3) by (auto simp: flags_ok_def)
  have other: "has_table dups t1 c = has_table dups t c" "flags_ok dups (txn_store config d' t1) c = flags_ok dups t c"
    if "tc_name c \<noteq> tc_name config" for c
    using t1(7) that name by (auto simp: has_table_def flags_ok_def txn_store_def)
  show ?thesis
    using t1 d' ld other has_table_store [of config dups d', OF name] by (simp add: load_into_def rows_store)
qed

text \<open>Into an empty table, with distinct keys; or with duplicates, distinct entries.\<close>

lemma load_into_append:
  assumes "picks_min pick" and "fits es" and "flags_ok dups t config" and "\<not> txn_ro t" and "rows items t config = {}"
    and "distinct (map entry_key es)" and "\<And>e. e \<in> set es \<Longrightarrow> storable (tc_dupsort config) (entry_key e) (entry_value e)"
  shows "\<exists>t'. load_into M B pick config MDB_APPEND (collect_all es (new_collector n)) t = Inr t' \<and> rows items t' config = entry_rows es \<and>
    has_table dups t' config \<and> txn_ro t' = txn_ro t \<and> (\<forall>c. tc_name c \<noteq> tc_name config \<longrightarrow> rows items t' c = rows items t c) \<and>
    (\<forall>c. tc_name c \<noteq> tc_name config \<longrightarrow> has_table dups t' c = has_table dups t c) \<and>
    (\<forall>c. tc_name c \<noteq> tc_name config \<longrightarrow> flags_ok dups t' c = flags_ok dups t c)"
proof (rule load_into_rows [OF assms(1-4)])
  fix d assume "items d = rows items t config" "dups d = tc_dupsort config"
  then show "\<exists>d'. feed (put_entry M B MDB_APPEND) (sort es) (Inr d) = Some (Inr d') \<and> dups d' = dups d \<and> items d' = entry_rows es"
    using feed_append [OF sort_keys_strict [OF assms(6)], of d] assms(5,7) by (auto simp: entry_rows_def)
qed

lemma load_into_append_dup:
  assumes "picks_min pick" and "fits es" and "flags_ok dups t config" and "\<not> txn_ro t" and "rows items t config = {}"
    and "distinct es" and "tc_dupsort config" and "\<And>e. e \<in> set es \<Longrightarrow> storable True (entry_key e) (entry_value e)"
  shows "\<exists>t'. load_into M B pick config MDB_APPENDDUP (collect_all es (new_collector n)) t = Inr t' \<and> rows items t' config = entry_rows es \<and>
    has_table dups t' config \<and> txn_ro t' = txn_ro t \<and> (\<forall>c. tc_name c \<noteq> tc_name config \<longrightarrow> rows items t' c = rows items t c) \<and>
    (\<forall>c. tc_name c \<noteq> tc_name config \<longrightarrow> has_table dups t' c = has_table dups t c) \<and>
    (\<forall>c. tc_name c \<noteq> tc_name config \<longrightarrow> flags_ok dups t' c = flags_ok dups t c)"
proof (rule load_into_rows [OF assms(1-4)])
  fix d assume "items d = rows items t config" "dups d = tc_dupsort config"
  then show "\<exists>d'. feed (put_entry M B MDB_APPENDDUP) (sort es) (Inr d) = Some (Inr d') \<and> dups d' = dups d \<and> items d' = entry_rows es"
    using feed_append_dup [OF sort_strict [OF assms(6)], of d] assms(5,7,8) by (auto simp: entry_rows_def)
qed

end

end
