(* ===== verification/Hash_State.thy ===== *)
theory Hash_State
  imports Bulk Db_Buffer_Correct
begin

text \<open>
  cmd/hashstate.cpp: the stage that hashes the keys of the plain state, of contract code and of what has changed
  since the last run.

  The start of the clean promotion is a temporary that is gone when the cursor reads it; \<open>start\<close> is what its memory
  holds then.  Progress messages, the options of the command line and the commit at the end are
  left out.
\<close>

unbundle bit_operations_syntax

section \<open>The tool\<close>

datatype operation = HashAccount | HashStorage | Code

text \<open>Reads outside the key or the value of a change are undefined.\<close>

definition convert_to_db_format :: "bytes \<Rightarrow> bytes \<Rightarrow> bytes db" where
  "convert_to_db_format key val =
     (if length key = 8 then Inr (take 20 val)
      else if length key < 36 \<or> length val < 32 then Inl Db_stuck
      else Inr (take 28 (drop 8 key) @ take 32 val))"

definition get_tables_for_promote :: "operation \<Rightarrow> table_config \<times> table_config" where
  "get_tables_for_promote op =
     (case op of
        HashAccount \<Rightarrow> (kPlainAccountChangeSet, kHashedAccounts)
      | HashStorage \<Rightarrow> (kPlainStorageChangeSet, kHashedStorage)
      | Code \<Rightarrow> (kPlainAccountChangeSet, kContractCode))"

text \<open>The key of a row that is not an account: the hash of the address, the incarnation and the hash of the rest.\<close>

definition hashed_storage_key :: "(bytes \<Rightarrow> bytes32) \<Rightarrow> bytes \<Rightarrow> bytes" where
  "hashed_storage_key keccak256 key =
     full_view_bytes32 (keccak256 (take 20 key)) @ take 8 (drop 20 key) @ full_view_bytes32 (keccak256 (drop 28 key))"

definition hashed_code_key :: "(bytes \<Rightarrow> bytes32) \<Rightarrow> bytes \<Rightarrow> bytes" where
  "hashed_code_key keccak256 key = full_view_bytes32 (keccak256 (take 20 key)) @ take 8 (drop 20 key)"

partial_function (option) clean_state_loop ::
    "'d lmdb_ops \<Rightarrow> (bytes \<Rightarrow> bytes32) \<Rightarrow> (mdb_rc \<times> bytes \<times> bytes) \<times> 'd \<Rightarrow> collector \<Rightarrow> collector \<Rightarrow>
     (mdb_rc \<times> collector \<times> collector) db option" where
  "clean_state_loop M keccak256 r collector_account collector_storage =
     (case r of
        ((rc, key, val), d) \<Rightarrow>
          if rc \<noteq> MDB_SUCCESS then Some (Inr (rc, collector_account, collector_storage))
          else if key = [] then Some (Inl Out_of_range)
          else if length key = 20 then
            clean_state_loop M keccak256 (mdb_cursor_get M d key val MDB_NEXT)
              (collect (Entry (full_view_bytes32 (keccak256 key)) val) collector_account) collector_storage
          else if length key < 28 then Some (Inl Db_stuck)
          else
            clean_state_loop M keccak256 (mdb_cursor_get M d key val MDB_NEXT)
              collector_account (collect (Entry (hashed_storage_key keccak256 key) val) collector_storage))"

definition promote_clean_state ::
    "'d lmdb_ops \<Rightarrow> 'd bulk_ops \<Rightarrow> (bytes \<Rightarrow> bytes32) \<Rightarrow> ((etl_entry \<times> nat) list \<Rightarrow> nat) \<Rightarrow> bytes \<Rightarrow> 'd txn \<Rightarrow> 'd txn db" where
  "promote_clean_state M B keccak256 pick start t =
     db_bind (txn_open M kPlainState False t) (\<lambda>(d, t).
     db_bind (ends (clean_state_loop M keccak256 (mdb_cursor_get M d start [] MDB_SET_RANGE)
         (new_collector (512 * 2 ^ 20)) (new_collector (512 * 2 ^ 20)))) (\<lambda>(rc, collector_account, collector_storage).
     db_bind (if rc \<noteq> MDB_NOTFOUND then err_handler rc else Inr ()) (\<lambda>_.
     db_bind (load_into M B pick kHashedAccounts MDB_APPEND collector_account t) (\<lambda>t.
     load_into M B pick kHashedStorage MDB_APPENDDUP collector_storage t))))"

partial_function (option) clean_code_loop ::
    "'d lmdb_ops \<Rightarrow> (bytes \<Rightarrow> bytes32) \<Rightarrow> (mdb_rc \<times> bytes \<times> bytes) \<times> 'd \<Rightarrow> collector \<Rightarrow> (mdb_rc \<times> collector) db option" where
  "clean_code_loop M keccak256 r c =
     (case r of
        ((rc, key, val), d) \<Rightarrow>
          if rc \<noteq> MDB_SUCCESS then Some (Inr (rc, c))
          else if length key < 28 then Some (Inl Db_stuck)
          else clean_code_loop M keccak256 (mdb_cursor_get M d key val MDB_NEXT) (collect (Entry (hashed_code_key keccak256 key) val) c))"

definition promote_clean_code ::
    "'d lmdb_ops \<Rightarrow> 'd bulk_ops \<Rightarrow> (bytes \<Rightarrow> bytes32) \<Rightarrow> ((etl_entry \<times> nat) list \<Rightarrow> nat) \<Rightarrow> bytes \<Rightarrow> 'd txn \<Rightarrow> 'd txn db" where
  "promote_clean_code M B keccak256 pick start t =
     db_bind (txn_open M kPlainContractCode False t) (\<lambda>(d, t).
     db_bind (ends (clean_code_loop M keccak256 (mdb_cursor_get M d start [] MDB_SET_RANGE) (new_collector (512 * 2 ^ 20)))) (\<lambda>(rc, c).
     db_bind (if rc \<noteq> MDB_NOTFOUND then err_handler rc else Inr ()) (\<lambda>_.
     load_into M B pick kContractCode MDB_APPEND c t)))"

text \<open>Skipping a field that may be present, given the bit of the field set.\<close>

definition skip_field :: "bool \<Rightarrow> bytes \<Rightarrow> nat \<Rightarrow> nat db" where
  "skip_field present encoded pos =
     (if \<not> present then Inr pos
      else if pos \<ge> length encoded then Inl Db_stuck
      else Inr (pos + 1 + unat (encoded ! pos)))"

definition extract_incarnation :: "bytes \<Rightarrow> u64 db" where
  "extract_incarnation encoded =
     (if encoded = [] then Inl Db_stuck
      else
        let field_set = encoded ! 0
        in db_bind (skip_field (field_set AND 1 \<noteq> 0) encoded 1) (\<lambda>pos.
           db_bind (skip_field (field_set AND 2 \<noteq> 0) encoded pos) (\<lambda>pos.
           if field_set AND 4 \<noteq> 0 then
             if pos \<ge> length encoded then Inl Db_stuck
             else
               let len = unat (encoded ! pos); pos = pos + 1
               in rlp_err_handler (read_uint64 (take len (drop pos encoded)) False)
           else Inr 0)))"

text \<open>What one change contributes to the target table, given the plain state and the table of code hashes.\<close>

definition promote_change ::
    "'d lmdb_ops \<Rightarrow> (bytes \<Rightarrow> bytes32) \<Rightarrow> operation \<Rightarrow> bytes \<Rightarrow> 'd \<Rightarrow> 'd \<Rightarrow> ((bytes \<times> bytes) option \<times> 'd \<times> 'd) db" where
  "promote_change M keccak256 op db_key plainstate codehash =
     db_bind (table_get M db_key plainstate) (\<lambda>(val, plainstate).
     case val of
       None \<Rightarrow> Inr (None, plainstate, codehash)
     | Some val \<Rightarrow>
         (case op of
            HashAccount \<Rightarrow> Inr (Some (full_view_bytes32 (keccak256 db_key), val), plainstate, codehash)
          | HashStorage \<Rightarrow>
              if length db_key < 28 then Inl Db_stuck
              else Inr (Some (hashed_storage_key keccak256 db_key, val), plainstate, codehash)
          | Code \<Rightarrow>
              db_bind (extract_incarnation val) (\<lambda>incarnation.
              if incarnation = 0 then Inr (None, plainstate, codehash)
              else if length db_key < 20 then Inl Db_stuck
              else
                let plain_key = storage_prefix (take 20 db_key) incarnation
                in db_bind (table_get M plain_key codehash) (\<lambda>(code_hash, codehash).
                   case code_hash of
                     None \<Rightarrow> Inr (None, plainstate, codehash)
                   | Some code_hash \<Rightarrow> Inr (Some (hashed_code_key keccak256 plain_key, code_hash), plainstate, codehash)))))"

partial_function (option) promote_loop ::
    "'d lmdb_ops \<Rightarrow> (bytes \<Rightarrow> bytes32) \<Rightarrow> operation \<Rightarrow> (mdb_rc \<times> bytes \<times> bytes) \<times> 'd \<Rightarrow> 'd \<Rightarrow> 'd \<Rightarrow> 'd \<Rightarrow> 'd db option" where
  "promote_loop M keccak256 op r plainstate codehash target =
     (case r of
        ((rc, key, val), d) \<Rightarrow>
          if rc \<noteq> MDB_SUCCESS then Some (Inr target)
          else
            case db_bind (convert_to_db_format key val) (\<lambda>db_key.
                 db_bind (promote_change M keccak256 op db_key plainstate codehash) (\<lambda>(row, plainstate, codehash).
                 case row of
                   None \<Rightarrow> Inr (plainstate, codehash, target)
                 | Some (k, v) \<Rightarrow> db_bind (table_put M k v target) (\<lambda>target. Inr (plainstate, codehash, target)))) of
              Inl e \<Rightarrow> Some (Inl e)
            | Inr (plainstate, codehash, target) \<Rightarrow>
                promote_loop M keccak256 op (mdb_cursor_get M d key val MDB_NEXT) plainstate codehash target)"

definition promote :: "'d lmdb_ops \<Rightarrow> (bytes \<Rightarrow> bytes32) \<Rightarrow> operation \<Rightarrow> 'd txn \<Rightarrow> 'd txn db" where
  "promote M keccak256 op t =
     (case get_tables_for_promote op of
        (changeset_config, target_config) \<Rightarrow>
          db_bind (txn_open M changeset_config False t) (\<lambda>(changeset, t).
          db_bind (txn_open M kPlainState False t) (\<lambda>(plainstate, t).
          db_bind (txn_open M kPlainContractCode False t) (\<lambda>(codehash, t).
          db_bind (txn_open M target_config False t) (\<lambda>(target, t).
          db_bind (get_stage_progress M t kHashStateKey) (\<lambda>(progress, t).
          db_bind (ends (promote_loop M keccak256 op (mdb_cursor_get M changeset (block_key (progress + 1)) [] MDB_SET_RANGE)
              plainstate codehash target)) (\<lambda>target.
          Inr (txn_store target_config target t))))))))"

text \<open>\<open>clear\<close> empties a table that exists.\<close>

definition clear_table :: "'d lmdb_ops \<Rightarrow> table_config \<Rightarrow> 'd txn \<Rightarrow> 'd txn db" where
  "clear_table M config t =
     db_bind (txn_open M config False t) (\<lambda>(_, t). Inr (txn_store config (mdb_dbi_new M (tc_dupsort config)) t))"

definition hashstate_main ::
    "'d lmdb_ops \<Rightarrow> 'd bulk_ops \<Rightarrow> (bytes \<Rightarrow> bytes32) \<Rightarrow> ((etl_entry \<times> nat) list \<Rightarrow> nat) \<Rightarrow> bytes \<Rightarrow> bytes \<Rightarrow>
     bool \<Rightarrow> bool \<Rightarrow> bool \<Rightarrow> 'd txn \<Rightarrow> 'd txn db" where
  "hashstate_main M B keccak256 pick start_state start_code full incrementally reset t =
     db_bind
       (if full \<or> reset then
          db_bind (clear_table M kHashedAccounts t) (\<lambda>t.
          db_bind (clear_table M kHashedStorage t) (\<lambda>t.
          db_bind (clear_table M kContractCode t) (\<lambda>t.
          set_stage_progress M t kHashStateKey 0)))
        else Inr t)
       (\<lambda>t.
          if reset then Inr t
          else
            db_bind (get_stage_progress M t kHashStateKey) (\<lambda>(last_processed_block_number, t).
            db_bind
              (if last_processed_block_number \<noteq> 0 \<or> incrementally then
                 db_bind (promote M keccak256 HashAccount t) (\<lambda>t.
                 db_bind (promote M keccak256 HashStorage t) (\<lambda>t.
                 promote M keccak256 Code t))
               else
                 db_bind (promote_clean_state M B keccak256 pick start_state t) (\<lambda>t.
                 promote_clean_code M B keccak256 pick start_code t))
              (\<lambda>t.
            db_bind (get_stage_progress M t kExecutionKey) (\<lambda>(executed, t).
            set_stage_progress M t kHashStateKey executed))))"

section \<open>The clean promotion\<close>

definition account_row_entry :: "(bytes \<Rightarrow> bytes32) \<Rightarrow> bytes \<times> bytes \<Rightarrow> etl_entry" where
  "account_row_entry k p = Entry (full_view_bytes32 (k (fst p))) (snd p)"

definition storage_row_entry :: "(bytes \<Rightarrow> bytes32) \<Rightarrow> bytes \<times> bytes \<Rightarrow> etl_entry" where
  "storage_row_entry k p = Entry (hashed_storage_key k (fst p)) (snd p)"

text \<open>The rows of the plain state: accounts under addresses and values of storage under addresses with incarnations.\<close>

definition plain_rows :: "(bytes \<times> bytes) set \<Rightarrow> bool" where
  "plain_rows P \<longleftrightarrow> (\<forall>p \<in> P. (length (fst p) = 20 \<or> length (fst p) = 28) \<and> length (snd p) \<le> 511) \<and>
     (\<forall>x v w. length x = 20 \<and> (x, v) \<in> P \<and> (x, w) \<in> P \<longrightarrow> v = w)"

abbreviation is_account_row :: "bytes \<times> bytes \<Rightarrow> bool" where
  "is_account_row p \<equiv> length (fst p) = 20"

lemma zeros_le: "n \<le> length x \<Longrightarrow> replicate n 0 \<le> x" for x :: bytes
proof (induction n arbitrary: x)
  case (Suc n)
  then show ?case by (cases x) (auto simp: word_gt_0)
qed simp

context lmdb
begin

lemma clean_state_loop_run:
  "reads r I xs \<Longrightarrow> \<forall>p \<in> set xs. length (fst p) = 20 \<or> length (fst p) = 28 \<Longrightarrow>
   clean_state_loop M k r ca cs = Some (Inr (MDB_NOTFOUND, collect_all (map (account_row_entry k) (filter is_account_row xs)) ca,
     collect_all (map (storage_row_entry k) (filter (\<lambda>p. \<not> is_account_row p) xs)) cs))"
proof (induction xs arbitrary: r ca cs)
  case Nil
  then show ?case by (cases r) (subst clean_state_loop.simps, auto simp: reads_def collect_all_def)
next
  case (Cons p xs)
  obtain key val where p: "p = (key, val)" by (cases p)
  obtain d where r: "r = ((MDB_SUCCESS, key, val), d)" using Cons.prems(1) p by (cases r) (auto simp: reads_def)
  have "reads (mdb_cursor_get M d key val MDB_NEXT) I xs" using reads_next [OF Cons.prems(1), of key val] r by simp
  note IH = Cons.IH [OF this]
  show ?case
  proof (cases "length key = 20")
    case True
    then have "clean_state_loop M k r ca cs =
        clean_state_loop M k (mdb_cursor_get M d key val MDB_NEXT) (collect (account_row_entry k p) ca) cs"
      using r p by (subst clean_state_loop.simps) (auto simp: account_row_entry_def)
    then show ?thesis using IH Cons.prems(2) True p by (simp add: collect_all_def)
  next
    case False
    then have "clean_state_loop M k r ca cs =
        clean_state_loop M k (mdb_cursor_get M d key val MDB_NEXT) ca (collect (storage_row_entry k p) cs)"
      using r p Cons.prems(2) by (subst clean_state_loop.simps) (auto simp: storage_row_entry_def)
    then show ?thesis using IH Cons.prems(2) False p by (simp add: collect_all_def)
  qed
qed

end

lemma fits_small:
  assumes "\<forall>e \<in> set es. entry_size e \<noteq> 0 \<and> entry_size e < 1016" and "length es < 2 ^ 54"
  shows "fits es"
proof -
  have "(\<Sum>e\<leftarrow>es. entry_size e + 8) \<le> 1024 * length es" using assms(1) by (induction es) auto
  also have "\<dots> < 2 ^ 64" using assms(2) by simp
  finally show ?thesis using assms(1) by (auto simp: fits_def small_def entry_size_def)
qed

lemma clean_entries:
  assumes "plain_rows P" and "finite P" and "card P < 2 ^ 54" and "inj_on k ((\<lambda>p. take 20 (fst p)) ` P)"
  defines "xs \<equiv> sorted_list_of_set P"
  defines "as \<equiv> map (account_row_entry k) (filter is_account_row xs)"
    and "ss \<equiv> map (storage_row_entry k) (filter (\<lambda>p. \<not> is_account_row p) xs)"
  shows "fits as" "fits ss" "distinct (map entry_key as)" "distinct ss"
    "\<forall>e \<in> set as. storable False (entry_key e) (entry_value e)" "\<forall>e \<in> set ss. storable True (entry_key e) (entry_value e)"
    "entry_rows as = (\<lambda>p. (full_view_bytes32 (k (fst p)), snd p)) ` {p \<in> P. is_account_row p}"
    "entry_rows ss = (\<lambda>p. (hashed_storage_key k (fst p), snd p)) ` {p \<in> P. \<not> is_account_row p}"
proof -
  have xs: "set xs = P" "distinct xs" "length xs < 2 ^ 54" using assms(2,3) by (simp_all add: xs_def)
  have P: "length (fst p) = 20 \<or> length (fst p) = 28" "length (snd p) \<le> 511" if "p \<in> P" for p
    using assms(1) that by (auto simp: plain_rows_def)
  have len: "length (hashed_storage_key k x) = 64 + min 8 (length x - 20)" for x by (simp add: hashed_storage_key_def)
  have "entry_size (account_row_entry k p) = 32 + length (snd p)"
    "entry_size (storage_row_entry k p) = 64 + min 8 (length (fst p) - 20) + length (snd p)" for p
    by (simp_all add: entry_size_def account_row_entry_def storage_row_entry_def len)
  then have sizes: "entry_size (account_row_entry k p) \<noteq> 0 \<and> entry_size (account_row_entry k p) < 1016"
    "entry_size (storage_row_entry k p) \<noteq> 0 \<and> entry_size (storage_row_entry k p) < 1016" if "p \<in> P" for p
    using P(2) [OF that] by simp_all
  show "fits as" "fits ss"
    unfolding as_def ss_def
    by (rule fits_small; use sizes xs(1) le_less_trans [OF length_filter_le xs(3)] in auto)+
  show "distinct ss"
  proof -
    have "p = q" if "p \<in> P" "q \<in> P" "\<not> is_account_row p" "\<not> is_account_row q" "storage_row_entry k p = storage_row_entry k q" for p q
    proof -
      have l: "length (fst p) = 28" "length (fst q) = 28" using P(1) [OF that(1)] P(1) [OF that(2)] that by simp_all
      have "k (take 20 (fst p)) = k (take 20 (fst q))" "drop 20 (fst p) = drop 20 (fst q)" "snd p = snd q"
        using that(5) l by (auto simp: storage_row_entry_def hashed_storage_key_def)
      moreover have "take 20 (fst p) = take 20 (fst q)" using inj_onD [OF assms(4) calculation(1)] that by blast
      ultimately show ?thesis by (metis append_take_drop_id prod.expand)
    qed
    then show ?thesis using xs by (auto simp: ss_def distinct_map inj_on_def)
  qed
  show "distinct (map entry_key as)"
  proof -
    have "p = q" if "p \<in> P" "q \<in> P" "is_account_row p" "is_account_row q" "k (fst p) = k (fst q)" for p q
    proof -
      have "k (take 20 (fst p)) = k (take 20 (fst q))" using that by simp
      then have "take 20 (fst p) = take 20 (fst q)" by (rule inj_onD [OF assms(4)]) (use that in blast)+
      then have "fst p = fst q" using that by simp
      then show ?thesis using assms(1) that by (cases p; cases q) (auto simp: plain_rows_def)
    qed
    then show ?thesis using xs by (auto simp: as_def distinct_map inj_on_def account_row_entry_def comp_def)
  qed
  have "full_view_bytes32 h \<noteq> []" for h using length_full_view(1) [of h] by (metis list.size(3) zero_neq_numeral)
  then have stor: "storable False (entry_key (account_row_entry k p)) (entry_value (account_row_entry k p))"
    "storable True (entry_key (storage_row_entry k p)) (entry_value (storage_row_entry k p))" if "p \<in> P" for p
    using P [OF that] by (auto simp: account_row_entry_def storage_row_entry_def storable_def len hashed_storage_key_def)
  show "\<forall>e \<in> set as. storable False (entry_key e) (entry_value e)" "\<forall>e \<in> set ss. storable True (entry_key e) (entry_value e)"
    using xs(1) stor by (simp_all add: as_def ss_def)
  show "entry_rows as = (\<lambda>p. (full_view_bytes32 (k (fst p)), snd p)) ` {p \<in> P. is_account_row p}"
    "entry_rows ss = (\<lambda>p. (hashed_storage_key k (fst p), snd p)) ` {p \<in> P. \<not> is_account_row p}"
    by (simp_all add: entry_rows_def as_def ss_def image_image account_row_entry_def storage_row_entry_def xs(1))
qed

context lmdb_bulk
begin

lemma promote_clean_state_rows:
  assumes "picks_min pick" and "has_table dups t kPlainState" and "flags_ok dups t kHashedAccounts" and "flags_ok dups t kHashedStorage"
    and "\<not> txn_ro t" and "rows items t kHashedAccounts = {}" and "rows items t kHashedStorage = {}"
    and "plain_rows (rows items t kPlainState)" and "card (rows items t kPlainState) < 2 ^ 54"
    and "inj_on k ((\<lambda>p. take 20 (fst p)) ` rows items t kPlainState)"
  shows "\<exists>t'. promote_clean_state M B k pick (replicate 8 0) t = Inr t' \<and>
    has_table dups t' kHashedAccounts \<and> has_table dups t' kHashedStorage \<and>
    rows items t' kHashedAccounts = (\<lambda>p. (full_view_bytes32 (k (fst p)), snd p)) ` {p \<in> rows items t kPlainState. is_account_row p} \<and>
    rows items t' kHashedStorage = (\<lambda>p. (hashed_storage_key k (fst p), snd p)) ` {p \<in> rows items t kPlainState. \<not> is_account_row p}"
proof -
  let ?P = "rows items t kPlainState"
  let ?as = "map (account_row_entry k) (filter is_account_row (sorted_list_of_set ?P))"
  let ?ss = "map (storage_row_entry k) (filter (\<lambda>p. \<not> is_account_row p) (sorted_list_of_set ?P))"
  have names: "tc_name kHashedStorage \<noteq> tc_name kHashedAccounts" "tc_name kHashedAccounts \<noteq> tc_name kHashedStorage"
    "\<not> tc_dupsort kHashedAccounts" "tc_dupsort kHashedStorage"
    by (simp_all add: kHashedStorage_def kHashedAccounts_def plain_table_def dupsort_table_def)
  obtain d where d: "txn_open M kPlainState False t = Inr (d, t)" "items d = ?P" using txn_open_table [OF assms(2), of False] by blast
  have fin: "finite ?P" using finite_items [of d] d(2) by simp
  note entries = clean_entries [OF assms(8) fin assms(9,10)]
  have "{p \<in> items d. replicate 8 0 \<le> fst p} = ?P" using assms(8) d(2) by (auto simp: plain_rows_def intro!: zeros_le)
  then have "reads (mdb_cursor_get M d (replicate 8 0) [] MDB_SET_RANGE) ?P (sorted_list_of_set ?P)"
    using reads_from [of "replicate 8 0" d "[]"] d(2) by simp
  from clean_state_loop_run [OF this] have loop: "clean_state_loop M k (mdb_cursor_get M d (replicate 8 0) [] MDB_SET_RANGE) ca cs =
      Some (Inr (MDB_NOTFOUND, collect_all ?as ca, collect_all ?ss cs))" for ca cs
    using assms(8) fin by (auto simp: plain_rows_def)
  obtain t1 where t1: "load_into M B pick kHashedAccounts MDB_APPEND (collect_all ?as (new_collector (512 * 2 ^ 20))) t = Inr t1"
    "rows items t1 kHashedAccounts = entry_rows ?as" "has_table dups t1 kHashedAccounts" "txn_ro t1 = txn_ro t"
    "rows items t1 kHashedStorage = {}" "flags_ok dups t1 kHashedStorage"
    using load_into_append [OF assms(1) entries(1) assms(3,5,6) entries(3), where n = "512 * 2 ^ 20"] entries(5) names assms(4,7) by auto
  obtain t2 where t2: "load_into M B pick kHashedStorage MDB_APPENDDUP (collect_all ?ss (new_collector (512 * 2 ^ 20))) t1 = Inr t2"
    "rows items t2 kHashedStorage = entry_rows ?ss" "has_table dups t2 kHashedStorage"
    "rows items t2 kHashedAccounts = rows items t1 kHashedAccounts" "has_table dups t2 kHashedAccounts"
    using load_into_append_dup [OF assms(1) entries(2) t1(6) _ t1(5) entries(4) names(4), where n = "512 * 2 ^ 20"] entries(6) names t1(3,4) assms(5) by auto
  show ?thesis
    using d(1) loop t1(1,2) t2 entries(7,8) by (simp add: promote_clean_state_def ends_def)
qed

end

text \<open>The plain state of accounts and storage.\<close>

definition plain_account_rows :: "(address \<rightharpoonup> account) \<Rightarrow> (bytes \<times> bytes) set" where
  "plain_account_rows accounts = {(full_view_address a, encode_for_storage acc False) | a acc. accounts a = Some acc}"

definition plain_storage_rows :: "(address \<Rightarrow> u64 \<Rightarrow> bytes32 \<rightharpoonup> bytes32) \<Rightarrow> (bytes \<times> bytes) set" where
  "plain_storage_rows storage =
     {(storage_prefix (full_view_address a) i, full_view_bytes32 l @ zeroless_view v) | a i l v. storage a i l = Some v}"

lemma length_encoded_account: "length (encode_for_storage acc False) \<le> 511"
proof -
  have "length (be_min (unat (acc_nonce acc))) \<le> 8" "length (be_min (unat (acc_incarnation acc))) \<le> 8"
    "length (be_min (unat (acc_balance acc))) \<le> 32"
    using length_be_min_word [where ?'a = 64, of 8] length_be_min_word [where ?'a = 256, of 32 "acc_balance acc"] by simp_all
  then show ?thesis by (simp add: encode_for_storage_def big_endian_uint64_eq big_endian_uint256_eq Let_def)
qed

lemma plain_state_rows:
  "plain_rows (plain_account_rows accounts \<union> plain_storage_rows storage)"
  "{p \<in> plain_account_rows accounts \<union> plain_storage_rows storage. is_account_row p} = plain_account_rows accounts"
  "{p \<in> plain_account_rows accounts \<union> plain_storage_rows storage. \<not> is_account_row p} = plain_storage_rows storage"
proof -
  have len: "is_account_row p" "length (snd p) \<le> 511" if "p \<in> plain_account_rows accounts" for p
    using that length_encoded_account by (auto simp: plain_account_rows_def)
  have len': "length (fst p) = 28" "length (snd p) \<le> 511" if "p \<in> plain_storage_rows storage" for p
    using that le_trans [OF length_zeroless_view] by (auto simp: plain_storage_rows_def)
  show "{p \<in> plain_account_rows accounts \<union> plain_storage_rows storage. is_account_row p} = plain_account_rows accounts"
    "{p \<in> plain_account_rows accounts \<union> plain_storage_rows storage. \<not> is_account_row p} = plain_storage_rows storage"
    using len(1) len'(1) by force+
  have "v = w" if "length x = 20" "(x, v) \<in> plain_account_rows accounts \<union> plain_storage_rows storage"
    "(x, w) \<in> plain_account_rows accounts \<union> plain_storage_rows storage" for x v w
    using that len'(1) [of "(x, v)"] len'(1) [of "(x, w)"] by (auto simp: plain_account_rows_def)
  then show "plain_rows (plain_account_rows accounts \<union> plain_storage_rows storage)"
    using len len' by (auto simp: plain_rows_def)
qed

lemma no_stored_root:
  assumes "\<And>v. (storage_prefix key i, v) \<notin> S"
  shows "stored_root k S key i = stored_root k {} key i"
  using assms by (simp add: stored_root_def)

text \<open>No account finds storage among rows with keys of 72 bytes.\<close>

lemma lost_entries:
  assumes "\<And>x v. (x, v) \<in> S \<Longrightarrow> length x = 72"
  shows "map (account_entry k S) (sorted_list_of_set (hashed_account_rows k accounts)) =
    map (account_entry k {}) (sorted_list_of_set (hashed_account_rows k accounts))"
proof (rule map_cong [OF refl])
  fix p assume "p \<in> set (sorted_list_of_set (hashed_account_rows k accounts))"
  then have "p \<in> hashed_account_rows k accounts" by (cases "finite (hashed_account_rows k accounts)") auto
  then have "length (fst p) = 32" by (auto simp: hashed_account_rows_def)
  then have "(storage_prefix (fst p) i, v) \<notin> S" for i v
    using assms by (fastforce simp: storage_prefix_def kIncarnationLength_def)
  then have "stored_root k S (fst p) i = stored_root k {} (fst p) i" for i by (rule no_stored_root)
  then show "account_entry k S p = account_entry k {} p" unfolding account_entry_def by (simp only:)
qed

section \<open>The incremental promotion\<close>

lemma extract_incarnation_encoded: "extract_incarnation (encode_for_storage acc omit) = Inr (acc_incarnation acc)"
proof -
  have len: "length (be_min (unat (acc_nonce acc))) \<le> 8" "length (be_min (unat (acc_incarnation acc))) \<le> 8"
    "length (be_min (unat (acc_balance acc))) \<le> 32"
    using length_be_min_word [where ?'a = 64, of 8] length_be_min_word [where ?'a = 256, of 32 "acc_balance acc"] by simp_all
  have byte: "unat (word_of_nat n :: u8) = n" if "n \<le> 32" for n using that by (simp add: unat_of_nat take_bit_nat_eq_self)
  have "read_uint64 (be_min (unat (acc_incarnation acc))) False = Ok (acc_incarnation acc)" by (simp add: read_uint64_Ok_iff)
  then show ?thesis
    using len
    by (auto simp: encode_for_storage_def extract_incarnation_def skip_field_def big_endian_uint64_eq big_endian_uint256_eq Let_def
        byte nth_append nth_Cons' take_append)
qed

text \<open>The addresses that the change sets name from a block on.\<close>

definition changed_since :: "(bytes \<times> bytes) set \<Rightarrow> u64 \<Rightarrow> bytes set" where
  "changed_since S n = (\<lambda>p. take 20 (snd p)) ` {p \<in> S. block_key n \<le> fst p}"

definition promoted_accounts :: "(bytes \<Rightarrow> bytes32) \<Rightarrow> (bytes \<times> bytes) set \<Rightarrow> bytes list \<Rightarrow> (bytes \<times> bytes) list" where
  "promoted_accounts k P xs = map (\<lambda>x. (full_view_bytes32 (k x), the (lookup P x))) (filter (\<lambda>x. \<exists>v. (x, v) \<in> P) xs)"

lemma map_of_rev_graph:
  assumes "inj_on f (insert x (set xs))"
  shows "map_of (rev (map (\<lambda>x. (f x, g x)) xs)) (f x) = (if x \<in> set xs then Some (g x) else None)"
proof -
  have "map_of (map (\<lambda>x. (f x, g x)) ys) (f x) = (if x \<in> set ys then Some (g x) else None)" if "inj_on f (insert x (set ys))" for ys
    using that by (induction ys) (auto simp: inj_on_def)
  from this [of "rev xs"] show ?thesis using assms by (simp add: rev_map)
qed

definition stage_number :: "('d \<Rightarrow> (bytes \<times> bytes) set) \<Rightarrow> 'd txn \<Rightarrow> string \<Rightarrow> u64" where
  "stage_number items t s = (case stage_of (rows items t kSyncStageProgress) s of None \<Rightarrow> 0 | Some n \<Rightarrow> n)"

context lmdb
begin

lemma promote_loop_accounts:
  "reads r I xs \<Longrightarrow> \<forall>p \<in> set xs. length (fst p) = 8 \<and> 20 \<le> length (snd p) \<Longrightarrow> \<forall>x. length x = 20 \<longrightarrow> single (items plainstate) x \<Longrightarrow>
   promote_loop M k HashAccount r plainstate codehash target =
     Some (put_rows M (promoted_accounts k (items plainstate) (map (\<lambda>p. take 20 (snd p)) xs)) target)"
proof (induction xs arbitrary: r plainstate target)
  case Nil
  then show ?case by (cases r) (subst promote_loop.simps, auto simp: reads_def promoted_accounts_def put_rows_def)
next
  case (Cons p xs)
  obtain key val where p: "p = (key, val)" by (cases p)
  obtain d where r: "r = ((MDB_SUCCESS, key, val), d)" using Cons.prems(1) p by (cases r) (auto simp: reads_def)
  let ?x = "take 20 val" and ?next = "mdb_cursor_get M d key val MDB_NEXT"
  have x: "length ?x = 20" "?x \<noteq> []" "length key = 8" using Cons.prems(2) p by auto
  have "reads ?next I xs" using reads_next [OF Cons.prems(1), of key val] r by simp
  note IH = Cons.IH [OF this]
  show ?case
  proof (cases "\<exists>v. (?x, v) \<in> items plainstate")
    case True
    then obtain v where v: "(?x, v) \<in> items plainstate" by blast
    have one: "single (items plainstate) ?x" using Cons.prems(3) x(1) by blast
    then have "\<And>w. (?x, w) \<in> items plainstate \<Longrightarrow> w = v" using v unfolding single_def by blast
    then obtain ps where ps: "table_get M ?x plainstate = Inr (Some v, ps)" "items ps = items plainstate"
      using table_get_some [OF x(2) v] by blast
    have "promote_loop M k HashAccount r plainstate codehash target =
        (case table_put M (full_view_bytes32 (k ?x)) v target of
           Inl e \<Rightarrow> Some (Inl e) | Inr target \<Rightarrow> promote_loop M k HashAccount ?next ps codehash target)"
      using r ps x(3) by (subst promote_loop.simps) (auto simp: convert_to_db_format_def promote_change_def split: sum.split)
    also have "\<dots> = Some (put_rows M (promoted_accounts k (items plainstate) (map (\<lambda>p. take 20 (snd p)) (p # xs))) target)"
      using IH [of ps] Cons.prems(2,3) ps(2) v p lookup_Some [OF one v]
      by (auto simp: promoted_accounts_def put_rows_def split: sum.split)
    finally show ?thesis .
  next
    case False
    then obtain ps where ps: "table_get M ?x plainstate = Inr (None, ps)" "items ps = items plainstate"
      using table_get_none [OF x(2)] by blast
    have "promote_loop M k HashAccount r plainstate codehash target = promote_loop M k HashAccount ?next ps codehash target"
      using r ps x(3) by (subst promote_loop.simps) (auto simp: convert_to_db_format_def promote_change_def)
    then show ?thesis using IH [of ps target] Cons.prems(2,3) ps(2) False p by (simp add: promoted_accounts_def)
  qed
qed

lemma promote_loop_storage:
  "reads r I xs \<Longrightarrow> \<forall>p \<in> set xs. length (fst p) = 36 \<and> 32 \<le> length (snd p) \<Longrightarrow> \<forall>p \<in> items plainstate. length (fst p) \<noteq> 60 \<Longrightarrow>
   promote_loop M k HashStorage r plainstate codehash target = Some (Inr target)"
proof (induction xs arbitrary: r plainstate)
  case Nil
  then show ?case by (cases r) (subst promote_loop.simps, auto simp: reads_def)
next
  case (Cons p xs)
  obtain key val where p: "p = (key, val)" by (cases p)
  obtain d where r: "r = ((MDB_SUCCESS, key, val), d)" using Cons.prems(1) p by (cases r) (auto simp: reads_def)
  let ?x = "take 28 (drop 8 key) @ take 32 val" and ?next = "mdb_cursor_get M d key val MDB_NEXT"
  have x: "length ?x = 60" "?x \<noteq> []" "length key = 36" "32 \<le> length val" using Cons.prems(2) p by auto
  have "reads ?next I xs" using reads_next [OF Cons.prems(1), of key val] r by simp
  note IH = Cons.IH [OF this]
  have "(?x, v) \<notin> items plainstate" for v using Cons.prems(3) x(1) by force
  then obtain ps where ps: "table_get M ?x plainstate = Inr (None, ps)" "items ps = items plainstate"
    using table_get_none [OF x(2)] by blast
  have "promote_loop M k HashStorage r plainstate codehash target = promote_loop M k HashStorage ?next ps codehash target"
    using r ps x(3,4) by (subst promote_loop.simps) (auto simp: convert_to_db_format_def promote_change_def)
  then show ?case using IH [of ps] Cons.prems(2,3) ps(2) by simp
qed

text \<open>What \<open>promote\<close> does before and after its loop, when the tables exist.\<close>

lemma promote_run:
  assumes "get_tables_for_promote op = (changes, config)" and "has_table dups t changes" and "has_table dups t kPlainState"
    and "has_table dups t kPlainContractCode" and "has_table dups t config"
    and "has_table dups t kSyncStageProgress" and "stage_rows (rows items t kSyncStageProgress)"
  obtains changeset plainstate codehash target where
    "promote M k op t = db_bind (ends (promote_loop M k op
       (mdb_cursor_get M changeset (block_key (stage_number items t kHashStateKey + 1)) [] MDB_SET_RANGE) plainstate codehash target))
       (\<lambda>target. Inr (txn_store config target t))"
    "items changeset = rows items t changes" "items plainstate = rows items t kPlainState" "items target = rows items t config"
    "dups target = tc_dupsort config"
proof -
  obtain changeset where c: "txn_open M changes False t = Inr (changeset, t)" "items changeset = rows items t changes"
    using txn_open_table [OF assms(2), of False] by blast
  obtain plainstate where p: "txn_open M kPlainState False t = Inr (plainstate, t)" "items plainstate = rows items t kPlainState"
    using txn_open_table [OF assms(3), of False] by blast
  obtain codehash where h: "txn_open M kPlainContractCode False t = Inr (codehash, t)"
    using txn_open_table [OF assms(4), of False] by blast
  obtain target where g: "txn_open M config False t = Inr (target, t)" "items target = rows items t config" "dups target = tc_dupsort config"
    using txn_open_table [OF assms(5), of False] by blast
  have "is_known_stage kHashStateKey" by (simp add: is_known_stage_def stage_defs)
  from get_stage_data_rows [OF this assms(6,7)] have "get_stage_progress M t kHashStateKey = Inr (stage_number items t kHashStateKey, t)"
    by (simp add: get_stage_progress_def stage_number_def)
  then show ?thesis using that [OF _ c(2) p(2) g(2,3)] assms(1) c(1) p(1) h g(1) by (simp add: promote_def)
qed

end

section \<open>Properties\<close>

text \<open>
  C14. The clean promotion hashes all accounts, but it loses all storage: the rows of storage have their locations
  in the values, the tool hashes what follows the incarnation in the key, which is nothing, and the trie loader, which
  looks for keys of 40 bytes, then computes the root of the state without any storage.
\<close>

theorem promote_clean_state_loses_storage:
  assumes "lmdb_bulk M items at dups B" and "picks_min pick" and "has_table dups t kPlainState"
    and "flags_ok dups t kHashedAccounts" and "flags_ok dups t kHashedStorage" and "\<not> txn_ro t"
    and "rows items t kHashedAccounts = {}" and "rows items t kHashedStorage = {}"
    and "rows items t kPlainState = plain_account_rows accounts \<union> plain_storage_rows storage"
    and "inj_on (\<lambda>a. k (full_view_address a)) (dom accounts \<union> {a. \<exists>i. dom (storage a i) \<noteq> {}})"
    and "enumerates addrs accounts" and "card (rows items t kPlainState) < 2 ^ 54"
  shows "\<exists>t' ac' sc'. promote_clean_state M B k pick (replicate 8 0) t = Inr t' \<and>
    rows items t' kHashedAccounts = hashed_account_rows k accounts \<and>
    calculate_root M k t' ac sc = Inr
      (if addrs = [] then kEmptyRoot
       else mpt_root k (hashed (\<lambda>a. k (full_view_address a)) (\<lambda>a. rlp (account_item (the (accounts a)) kEmptyRoot)) addrs), ac', sc')"
proof -
  let ?P = "rows items t kPlainState"
  have inj: "inj_on k ((\<lambda>p. take 20 (fst p)) ` ?P)"
  proof -
    have "(\<lambda>p. take 20 (fst p)) ` ?P \<subseteq> full_view_address ` (dom accounts \<union> {a. \<exists>i. dom (storage a i) \<noteq> {}})"
      unfolding assms(9) by (force simp: plain_account_rows_def plain_storage_rows_def storage_prefix_def)
    moreover have "inj_on k (full_view_address ` (dom accounts \<union> {a. \<exists>i. dom (storage a i) \<noteq> {}}))"
      using assms(10) unfolding inj_on_def by blast
    ultimately show ?thesis by (rule inj_on_subset [rotated])
  qed
  have plain: "plain_rows ?P" unfolding assms(9) by (rule plain_state_rows)
  obtain t' where t': "promote_clean_state M B k pick (replicate 8 0) t = Inr t'"
    "has_table dups t' kHashedAccounts" "has_table dups t' kHashedStorage"
    "rows items t' kHashedAccounts = (\<lambda>p. (full_view_bytes32 (k (fst p)), snd p)) ` plain_account_rows accounts"
    "rows items t' kHashedStorage = (\<lambda>p. (hashed_storage_key k (fst p), snd p)) ` plain_storage_rows storage"
    using lmdb_bulk.promote_clean_state_rows [OF assms(1-8) plain assms(12) inj] unfolding assms(9) plain_state_rows by blast
  have accs: "rows items t' kHashedAccounts = hashed_account_rows k accounts"
    unfolding t'(4) by (force simp: plain_account_rows_def hashed_account_rows_def)
  have len: "length x = 72 \<and> 32 \<le> length v" if "(x, v) \<in> rows items t' kHashedStorage" for x v
    using that unfolding t'(5) by (auto simp: plain_storage_rows_def hashed_storage_key_def storage_prefix_def kIncarnationLength_def)
  have entries: "map (account_entry k (rows items t' kHashedStorage)) (sorted_list_of_set (hashed_account_rows k accounts)) =
      map (account_entry k {}) (sorted_list_of_set (hashed_account_rows k accounts))"
    using len by (blast intro: lost_entries)
  have lmdb: "lmdb M items at dups" using assms(1) by (simp add: lmdb_bulk_def)
  have none: "hashed_storage_rows k (\<lambda>a i. Map.empty) = {}" by (simp add: hashed_storage_rows_def)
  have "collision_free k accounts (\<lambda>a i. Map.empty)"
    using assms(10) by (auto simp: collision_free_def intro: inj_on_subset)
  from account_rows_root [OF this assms(11), of "\<lambda>a i. []"]
  have root: "fst (hb_root_hash k (add_entries k (map (account_entry k {}) (sorted_list_of_set (hashed_account_rows k accounts)))
      collecting_hash_builder)) = (if addrs = [] then kEmptyRoot
       else mpt_root k (hashed (\<lambda>a. k (full_view_address a)) (\<lambda>a. rlp (account_item (the (accounts a)) kEmptyRoot)) addrs))"
    unfolding none by (simp add: enumerates_def storage_trie_root_def Let_def del: rlp.simps cong: if_cong)
  obtain ac' sc' where "calculate_root M k t' ac sc = Inr (fst (hb_root_hash k (add_entries k
      (map (account_entry k {}) (sorted_list_of_set (hashed_account_rows k accounts))) collecting_hash_builder)), ac', sc')"
    using lmdb.calculate_root_run [OF lmdb t'(2,3) accs, of ac sc] len unfolding entries by blast
  then show ?thesis using t'(1) accs root by auto
qed

definition sample_plain_txn :: "list_db txn" where
  "sample_plain_txn =
     \<lparr>txn_ro = False, txn_main = empty_list_db False,
      txn_tables =
        [''PLAIN-CST2'' \<mapsto> (empty_list_db True)\<lparr>ld_items :=
           [(full_view_address 3, encode_for_storage (new_account\<lparr>acc_incarnation := 1\<rparr>) False),
            (storage_prefix (full_view_address 3) 1, full_view_bytes32 5 @ zeroless_view 7)]\<rparr>]\<rparr>"

theorem promote_clean_state_loses_storage_witness:
  "\<exists>t' ac' sc'. promote_clean_state list_lmdb list_bulk sample_hash first_min (replicate 8 0) sample_plain_txn = Inr t' \<and>
     calculate_root list_lmdb sample_hash t' (new_collector 9) (new_collector 9) = Inr
       (mpt_root sample_hash (hashed (\<lambda>a. sample_hash (full_view_address a))
          (\<lambda>a. rlp (account_item (new_account\<lparr>acc_incarnation := 1\<rparr>) kEmptyRoot)) [3]), ac', sc')"
proof -
  let ?I = "\<lambda>d. set (ld_items d)"
  note defs = sample_plain_txn_def kHashedAccounts_def kHashedStorage_def kPlainState_def plain_table_def dupsort_table_def empty_list_db_def
  have tables: "has_table ld_dups sample_plain_txn kPlainState" "flags_ok ld_dups sample_plain_txn kHashedAccounts"
    "flags_ok ld_dups sample_plain_txn kHashedStorage" "\<not> txn_ro sample_plain_txn"
    by (simp_all add: has_table_def flags_ok_def defs)
  have rows: "rows ?I sample_plain_txn kHashedAccounts = {}" "rows ?I sample_plain_txn kHashedStorage = {}"
    by (simp_all add: rows_def defs)
  have plain: "rows ?I sample_plain_txn kPlainState = plain_account_rows sample_accounts \<union> plain_storage_rows sample_storage"
    by (auto simp: rows_def defs plain_account_rows_def plain_storage_rows_def sample_accounts_def sample_storage_def split: if_splits)
  have inj: "inj_on (\<lambda>a. sample_hash (full_view_address a)) (dom sample_accounts \<union> {a. \<exists>i. dom (sample_storage a i) \<noteq> {}})"
    by (auto simp: sample_storage_def sample_accounts_def inj_on_def split: if_splits)
  have enum: "enumerates [3] sample_accounts" by (simp add: enumerates_def sample_accounts_def)
  have "rows ?I sample_plain_txn kPlainState = ?I (the (txn_tables sample_plain_txn ''PLAIN-CST2''))"
    by (simp add: rows_def defs)
  then have "card (rows ?I sample_plain_txn kPlainState) \<le> 2"
    using card_length [of "ld_items (the (txn_tables sample_plain_txn ''PLAIN-CST2''))"] by (simp add: defs)
  then have card: "card (rows ?I sample_plain_txn kPlainState) < 2 ^ 54" by simp
  from promote_clean_state_loses_storage [OF list_bulk.lmdb_bulk_axioms first_min_picks_min tables rows plain inj enum card,
      of "new_collector 9" "new_collector 9"]
  show ?thesis by (auto simp: hashed_def sample_accounts_def simp del: rlp.simps)
qed

text \<open>Account 3 has changed and account 4 is gone, both in block 5, and slots of account 3 have changed too.\<close>

definition sample_changes_txn :: "list_db txn" where
  "sample_changes_txn =
     \<lparr>txn_ro = False, txn_main = empty_list_db False,
      txn_tables =
        [''PLAIN-CST2'' \<mapsto> (empty_list_db True)\<lparr>ld_items :=
           [(full_view_address 3, encode_for_storage (new_account\<lparr>acc_incarnation := 1\<rparr>) False),
            (storage_prefix (full_view_address 3) 1, full_view_bytes32 5 @ zeroless_view 7)]\<rparr>,
         ''PLAIN-ACS'' \<mapsto> (empty_list_db True)\<lparr>ld_items :=
           [(block_key 5, full_view_address 3), (block_key 5, full_view_address 4 @ encode_for_storage new_account False)]\<rparr>,
         ''PLAIN-SCS'' \<mapsto> (empty_list_db True)\<lparr>ld_items := [(storage_change_key 5 3 1, full_view_bytes32 5)]\<rparr>,
         ''PLAIN-contractCode'' \<mapsto> empty_list_db False,
         ''hashed_accounts'' \<mapsto> (empty_list_db False)\<lparr>ld_items :=
           [(full_view_bytes32 (sample_hash (full_view_address 4)), encode_for_storage new_account False)]\<rparr>,
         ''hashed_storage'' \<mapsto> empty_list_db True,
         ''SSP2'' \<mapsto> empty_list_db False]\<rparr>"

lemmas sample_changes_defs =
  sample_changes_txn_def kHashedAccounts_def kHashedStorage_def kPlainState_def kPlainAccountChangeSet_def kPlainStorageChangeSet_def
  kPlainContractCode_def kSyncStageProgress_def plain_table_def dupsort_table_def empty_list_db_def

lemma sample_changes:
  "has_table ld_dups sample_changes_txn kPlainAccountChangeSet" "has_table ld_dups sample_changes_txn kPlainStorageChangeSet"
  "has_table ld_dups sample_changes_txn kPlainState" "has_table ld_dups sample_changes_txn kPlainContractCode"
  "has_table ld_dups sample_changes_txn kHashedAccounts" "has_table ld_dups sample_changes_txn kHashedStorage"
  "has_table ld_dups sample_changes_txn kSyncStageProgress"
  "rows (\<lambda>d. set (ld_items d)) sample_changes_txn kSyncStageProgress = {}"
  "rows (\<lambda>d. set (ld_items d)) sample_changes_txn kPlainAccountChangeSet =
     {(block_key 5, full_view_address 3), (block_key 5, full_view_address 4 @ encode_for_storage new_account False)}"
  "rows (\<lambda>d. set (ld_items d)) sample_changes_txn kPlainStorageChangeSet = {(storage_change_key 5 3 1, full_view_bytes32 5)}"
  "rows (\<lambda>d. set (ld_items d)) sample_changes_txn kHashedAccounts =
     {(full_view_bytes32 (sample_hash (full_view_address 4)), encode_for_storage new_account False)}"
  by (simp_all add: has_table_def rows_def sample_changes_defs)

lemma sample_changes_plain:
  "rows (\<lambda>d. set (ld_items d)) sample_changes_txn kPlainState = plain_account_rows sample_accounts \<union> plain_storage_rows sample_storage"
  by (auto simp: rows_def sample_changes_defs plain_account_rows_def plain_storage_rows_def sample_accounts_def sample_storage_def
      split: if_splits)

text \<open>
  C13. The incremental promotion gives every account that a change set after the last run names its current row, and no
  other account another row.  An account that is gone keeps the row it had: nothing is ever removed from the
  hashed accounts.
\<close>

theorem promote_accounts_correct:
  assumes "lmdb M items at dups" and "has_table dups t kPlainAccountChangeSet" and "has_table dups t kPlainState"
    and "has_table dups t kPlainContractCode" and "has_table dups t kHashedAccounts"
    and "has_table dups t kSyncStageProgress" and "stage_rows (rows items t kSyncStageProgress)"
    and "\<forall>p \<in> rows items t kPlainAccountChangeSet. length (fst p) = 8 \<and> 20 \<le> length (snd p)"
    and "\<forall>x. length x = 20 \<longrightarrow> single (rows items t kPlainState) x"
    and "C = changed_since (rows items t kPlainAccountChangeSet) (stage_number items t kHashStateKey + 1)"
  shows "\<exists>t'. promote M k HashAccount t = Inr t' \<and> (\<forall>c. tc_name c \<noteq> tc_name kHashedAccounts \<longrightarrow> rows items t' c = rows items t c) \<and>
    (\<forall>x. inj_on k (insert x C) \<longrightarrow> lookup (rows items t' kHashedAccounts) (full_view_bytes32 (k x)) =
      (if x \<in> C \<and> lookup (rows items t kPlainState) x \<noteq> None then lookup (rows items t kPlainState) x
       else lookup (rows items t kHashedAccounts) (full_view_bytes32 (k x))))"
proof -
  let ?P = "rows items t kPlainState" and ?n = "stage_number items t kHashStateKey + 1" and ?S = "rows items t kPlainAccountChangeSet"
  have op: "get_tables_for_promote HashAccount = (kPlainAccountChangeSet, kHashedAccounts)" by (simp add: get_tables_for_promote_def)
  obtain changeset plainstate codehash target where run:
    "promote M k HashAccount t = db_bind (ends (promote_loop M k HashAccount
       (mdb_cursor_get M changeset (block_key ?n) [] MDB_SET_RANGE) plainstate codehash target))
       (\<lambda>target. Inr (txn_store kHashedAccounts target t))"
    and tabs: "items changeset = ?S" "items plainstate = ?P" "items target = rows items t kHashedAccounts"
      "dups target = tc_dupsort kHashedAccounts"
    by (rule lmdb.promote_run [OF assms(1) op assms(2-7), of k])
  let ?X = "sorted_list_of_set {p \<in> ?S. block_key ?n \<le> fst p}"
  let ?xs = "map (\<lambda>p. take 20 (snd p)) ?X" and ?live = "filter (\<lambda>x. \<exists>v. (x, v) \<in> ?P)"
  have fin: "finite {p \<in> ?S. block_key ?n \<le> fst p}" using lmdb.finite_items [OF assms(1), of changeset] tabs(1) by simp
  have C: "set ?xs = C" using fin by (simp add: assms(10) changed_since_def)
  have rd: "lmdb.reads items at (mdb_cursor_get M changeset (block_key ?n) [] MDB_SET_RANGE) ?S ?X"
    using lmdb.reads_from [OF assms(1), of "block_key ?n" changeset "[]"] tabs(1) by simp
  have loop: "promote_loop M k HashAccount (mdb_cursor_get M changeset (block_key ?n) [] MDB_SET_RANGE) plainstate codehash target =
      Some (put_rows M (promoted_accounts k ?P ?xs) target)"
    using lmdb.promote_loop_accounts [OF assms(1) rd, of plainstate k codehash target] assms(8,9) tabs(2) fin by simp
  have "\<forall>(x, v) \<in> set (promoted_accounts k ?P ?xs). storable False x v" by (auto simp: promoted_accounts_def storable_def)
  then obtain d where d: "put_rows M (promoted_accounts k ?P ?xs) target = Inr d"
    "\<And>x. lookup (items d) x = (case map_of (rev (promoted_accounts k ?P ?xs)) x of None \<Rightarrow> lookup (items target) x | Some v \<Rightarrow> Some v)"
    using lmdb.put_rows_plain [OF assms(1), of "promoted_accounts k ?P ?xs" target] tabs(4) by (auto simp: kHashedAccounts_def plain_table_def)
  have look: "lookup (items d) (full_view_bytes32 (k x)) =
      (if x \<in> C \<and> lookup ?P x \<noteq> None then lookup ?P x else lookup (rows items t kHashedAccounts) (full_view_bytes32 (k x)))"
    if "inj_on k (insert x C)" for x
  proof -
    have "inj_on (\<lambda>x. full_view_bytes32 (k x)) (insert x (set (?live ?xs)))" using that C by (auto simp: inj_on_def)
    from map_of_rev_graph [OF this, of "\<lambda>x. the (lookup ?P x)"] show ?thesis
      using d(2) [of "full_view_bytes32 (k x)"] C tabs(3) by (auto simp: promoted_accounts_def lookup_def)
  qed
  have "promote M k HashAccount t = Inr (txn_store kHashedAccounts d t)" using run loop d(1) by (simp add: ends_def)
  then show ?thesis using look by (auto simp: rows_store)
qed

theorem promote_accounts_correct_witness:
  "\<exists>t'. promote list_lmdb sample_hash HashAccount sample_changes_txn = Inr t' \<and>
     lookup (rows (\<lambda>d. set (ld_items d)) t' kHashedAccounts) (full_view_bytes32 (sample_hash (full_view_address 3))) =
       Some (encode_for_storage (new_account\<lparr>acc_incarnation := 1\<rparr>) False) \<and>
     lookup (rows (\<lambda>d. set (ld_items d)) t' kHashedAccounts) (full_view_bytes32 (sample_hash (full_view_address 4))) =
       Some (encode_for_storage new_account False)"
proof -
  let ?I = "\<lambda>d. set (ld_items d)" and ?t = sample_changes_txn
  let ?P = "rows ?I ?t kPlainState"
  have rows: "stage_rows (rows ?I ?t kSyncStageProgress)" by (simp add: sample_changes stage_rows_def)
  have shape: "\<forall>p \<in> rows ?I ?t kPlainAccountChangeSet. length (fst p) = 8 \<and> 20 \<le> length (snd p)" by (simp add: sample_changes)
  have one: "\<forall>x. length x = 20 \<longrightarrow> single ?P x"
    using plain_state_rows(1) [of sample_accounts sample_storage]
    unfolding sample_changes_plain plain_rows_def single_def by blast
  have n: "stage_number ?I ?t kHashStateKey = 0" by (simp add: stage_number_def stage_of_def sample_changes)
  have le: "block_key 1 \<le> block_key 5" by code_simp
  have C: "{full_view_address 3, full_view_address 4} = changed_since (rows ?I ?t kPlainAccountChangeSet) (stage_number ?I ?t kHashStateKey + 1)"
  proof -
    have "{p \<in> rows ?I ?t kPlainAccountChangeSet. block_key 1 \<le> fst p} = rows ?I ?t kPlainAccountChangeSet"
      using le by (auto simp: sample_changes)
    then show ?thesis by (simp add: n changed_since_def) (simp add: sample_changes)
  qed
  have inj: "inj_on sample_hash {full_view_address 3, full_view_address 4}" by (auto simp: sample_hash_def full_view_address_def be_load_store)
  have look: "lookup ?P (full_view_address 3) = Some (encode_for_storage (new_account\<lparr>acc_incarnation := 1\<rparr>) False)"
    by (rule lookup_Some) (use one in simp, simp add: sample_changes_plain plain_account_rows_def sample_accounts_def)
  have gone: "lookup ?P (full_view_address 4) = None"
    by (rule lookup_None) (auto simp: sample_changes_plain plain_account_rows_def plain_storage_rows_def sample_accounts_def split: if_splits)
  have old: "lookup (rows ?I ?t kHashedAccounts) (full_view_bytes32 (sample_hash (full_view_address 4))) =
      Some (encode_for_storage new_account False)"
    by (rule lookup_Some) (simp_all add: sample_changes single_def)
  from promote_accounts_correct [OF list_lmdb.lmdb_axioms sample_changes(1,3,4,5,7) rows shape one C, of sample_hash]
  obtain t' where t': "promote list_lmdb sample_hash HashAccount ?t = Inr t'"
    "\<forall>x. inj_on sample_hash (insert x {full_view_address 3, full_view_address 4}) \<longrightarrow>
      lookup (rows ?I t' kHashedAccounts) (full_view_bytes32 (sample_hash x)) =
      (if x \<in> {full_view_address 3, full_view_address 4} \<and> lookup ?P x \<noteq> None then lookup ?P x
       else lookup (rows ?I ?t kHashedAccounts) (full_view_bytes32 (sample_hash x)))" by blast
  show ?thesis
    using t'(1) t'(2) [THEN spec [of _ "full_view_address 3"]] t'(2) [THEN spec [of _ "full_view_address 4"]] inj look gone old
    by (simp add: insert_commute)
qed

text \<open>
  The incremental promotion of storage does nothing at all: it looks changed slots up in the plain state under keys
  of 60 bytes, address, incarnation and location, but the keys of the plain state are addresses and, for storage,
  addresses with incarnations.
\<close>

theorem promote_storage_noop:
  assumes "lmdb M items at dups" and "has_table dups t kPlainStorageChangeSet" and "has_table dups t kPlainState"
    and "has_table dups t kPlainContractCode" and "has_table dups t kHashedStorage"
    and "has_table dups t kSyncStageProgress" and "stage_rows (rows items t kSyncStageProgress)"
    and "\<forall>p \<in> rows items t kPlainStorageChangeSet. length (fst p) = 36 \<and> 32 \<le> length (snd p)"
    and "rows items t kPlainState = plain_account_rows accounts \<union> plain_storage_rows storage"
  shows "\<exists>t'. promote M k HashStorage t = Inr t' \<and> (\<forall>c. rows items t' c = rows items t c)"
proof -
  let ?n = "stage_number items t kHashStateKey + 1" and ?S = "rows items t kPlainStorageChangeSet"
  have op: "get_tables_for_promote HashStorage = (kPlainStorageChangeSet, kHashedStorage)" by (simp add: get_tables_for_promote_def)
  obtain changeset plainstate codehash target where run:
    "promote M k HashStorage t = db_bind (ends (promote_loop M k HashStorage
       (mdb_cursor_get M changeset (block_key ?n) [] MDB_SET_RANGE) plainstate codehash target))
       (\<lambda>target. Inr (txn_store kHashedStorage target t))"
    and tabs: "items changeset = ?S" "items plainstate = rows items t kPlainState" "items target = rows items t kHashedStorage"
      "dups target = tc_dupsort kHashedStorage"
    by (rule lmdb.promote_run [OF assms(1) op assms(2-7), of k])
  let ?X = "sorted_list_of_set {p \<in> ?S. block_key ?n \<le> fst p}"
  have fin: "finite {p \<in> ?S. block_key ?n \<le> fst p}" using lmdb.finite_items [OF assms(1), of changeset] tabs(1) by simp
  have rd: "lmdb.reads items at (mdb_cursor_get M changeset (block_key ?n) [] MDB_SET_RANGE) ?S ?X"
    using lmdb.reads_from [OF assms(1), of "block_key ?n" changeset "[]"] tabs(1) by simp
  have "\<forall>p \<in> items plainstate. length (fst p) = 20 \<or> length (fst p) = 28"
    using plain_state_rows(1) [of accounts storage] unfolding tabs(2) assms(9) plain_rows_def by blast
  then have "\<forall>p \<in> items plainstate. length (fst p) \<noteq> 60" by fastforce
  then have "promote_loop M k HashStorage (mdb_cursor_get M changeset (block_key ?n) [] MDB_SET_RANGE) plainstate codehash target =
      Some (Inr target)"
    using lmdb.promote_loop_storage [OF assms(1) rd] assms(8) fin by simp
  then have "promote M k HashStorage t = Inr (txn_store kHashedStorage target t)" using run by (simp add: ends_def)
  moreover have "rows items t c = items target" if "tc_name c = tc_name kHashedStorage" for c
    using that tabs(3) by (simp add: rows_def)
  ultimately show ?thesis by (auto simp: rows_store)
qed

theorem promote_storage_noop_witness:
  "\<exists>t'. promote list_lmdb sample_hash HashStorage sample_changes_txn = Inr t' \<and>
     (\<forall>c. rows (\<lambda>d. set (ld_items d)) t' c = rows (\<lambda>d. set (ld_items d)) sample_changes_txn c)"
  by (rule promote_storage_noop [OF list_lmdb.lmdb_axioms sample_changes(2,3,4,6,7) _ _ sample_changes_plain])
     (simp_all add: sample_changes stage_rows_def)

end
