(* ===== verification/Spec2Isabelle.thy ===== *)
theory Spec2Isabelle
  imports Blockchain_Correct Keccak_Correct Seal Etl_Correct Db_Buffer_Correct Contracts Environment Caches Hash_State
begin

text \<open>
  Silkworm: a verification library for the core of an Ethereum client.

  \<^bold>\<open>The program.\<close>  Silkworm executes Ethereum blocks.  A block arrives as RLP (core/silkworm/rlp, types), is
  checked before execution (chain/validity.cpp), its transactions run one after the other against an
  intra-block state (state/intra\_block\_state.cpp) through the EVM host (execution/evm.cpp), rewards are
  credited, gas, receipts and the state root are compared with the header (execution/processor.cpp), and
  the changes are written to a state buffer (state/buffer.hpp; state/memory\_buffer.cpp or the database).
  chain/blockchain.cpp strings these steps together and chooses between branches.  The seal of a header is
  verified by ethash (ethash/ethash), hashes are Keccak, and roots of tries come from trie/hash\_builder.cpp.
  On disk the data live in LMDB tables (db/silkworm/db), filled in bulk by the ETL (db/silkworm/etl).

  \<^bold>\<open>Conventions.\<close>  Integers keep their width as words; \<open>size_t\<close> is \<open>u64\<close> where it may wrap.  A hash map is
  a partial map, and where the code iterates over one the order is an explicit argument (\<open>iter\<close>, \<open>addrs\<close>,
  \<open>locs\<close>), so that a theorem holds for every order.  \<open>std::map\<close> is an association list sorted by key.  An
  exception or an error code is a value of a sum or option type; \<open>None\<close> is also what undefined behaviour and
  loops without end evaluate to, so a statement that a result is \<open>Some\<close> or \<open>Inr\<close> excludes them.  Assertions are
  those of debug builds and left out; memory allocations succeed.  Code outside
  the repository is a parameter: secp256k1 (\<open>secp256k1\<close>), the interpreter (\<open>vm\<close>, a tree of host requests),
  LMDB (\<open>lmdb_ops\<close>), Roaring bitmaps (\<open>roaring_ops\<close>), GMP (\<open>gmp_ops\<close>), libff (\<open>libff_ops\<close>), CBOR
  (\<open>cbor_ops\<close>).  Where the laws of such a library are needed they are the assumptions of a locale, which is
  interpreted on a concrete instance.  Hashing and seal verification are parameters where the client only calls
  them (\<open>chain_crypto\<close>); Seal instantiates them with the Keccak and Ethash of this library.

  \<^bold>\<open>The theories.\<close>
  \<^item> Prelude: word and byte-string lemmas, big- and little-endian numbers, results.  Util: common/util.cpp.
  \<^item> Rlp, Account, Ecdsa, Transaction, Bloom, Block: the codecs of rlp/ and types/, crypto/ecdsa.cpp.  Encoding
    then decoding gives back the value, and decoders accept only canonical input, except where the code is lax.
  \<^item> Config, Difficulty, Intrinsic\_Gas, Dao: the files of the same name under chain/, each with its specification.
  \<^item> State\_Buffer, Memory\_Buffer: the interface of a state buffer as a record of operations, its laws as a locale,
    and the buffer in memory as an interpretation; unwinding a block restores the state before it.
  \<^item> Intra\_Block\_State, Ibs\_Revert: objects, journal, snapshots; reverting restores every observation, and writing
    back leaves the buffer in the state that was observed.
  \<^item> Evm, Evm\_Correct, Evm\_Gas: calls, creations, host interface.  The recursion between calls and interpreter is
    driven by fuel; 1025 levels are enough since the code refuses calls deeper than 1024, and termination is
    proved for every interpreter that ends between requests and keeps the depth of its calls.  Failed calls
    restore the state, gas only decreases.
  \<^item> Balances, Conservation: calls and transactions conserve ether up to self-destruction.
  \<^item> Validity, Validity\_Correct: the checks before execution, equal to their conditions.
  \<^item> Processor, Processor\_Correct, Block\_Execution: transactions and blocks; gas, receipts, rewards and the supply.
  \<^item> Blockchain, Blockchain\_Correct: insertion of blocks returns, keeps the canonical chain linked and follows the
    branch of greater total difficulty.
  \<^item> Hash\_Builder, Merkle\_Patricia, Hash\_Builder\_Correct, Vector\_Root, State\_Root: the incremental builder of trie
    roots computes the root function of the yellow paper on every strictly sorted list of entries; receipts,
    transactions and the accounts of the memory buffer are instances.
  \<^item> Keccak, Keccak\_Correct, Ethash, Ethash\_Correct, Seal: the unrolled permutation equals the Keccak reference,
    hashing is the sponge, seeds and caches have their specified shape, and verification accepts exactly the
    seals whose mix and final hash agree.
  \<^item> Db\_Trie: the state root computed from the hashed tables of the database, and the nodes collected on the way.
  \<^item> Bulk, Hash\_State: collectors loaded into tables in order (the locale \<open>lmdb_bulk\<close> extends \<open>lmdb\<close> with the flags of
    LMDB for sorted data), and the stage that hashes the keys of the state.  Accounts are promoted; storage is lost
    by the clean promotion and not touched by the incremental one.  The clean promotion starts where the
    memory of a temporary leads it: this start is an argument, and its theorem takes the intended eight zero bytes.
  \<^item> Caches: the cache of least recent use refines a list ordered by use, and caching analyses does not change what
    the interpreter runs.
  \<^item> Etl, Etl\_Correct: the collector is an external merge sort.
  \<^item> Lmdb: tables over the cursors of LMDB.  The locale \<open>lmdb\<close> holds the documented laws of a database with one
    cursor, and \<open>list_lmdb\<close> shows that they can be satisfied.
  \<^item> Db\_Util, Tables, Stages, Bitmap, Access\_Layer: keys, tables and transactions, progress of stages, bitmaps of
    the history, and the readers of blocks, accounts and change sets.
  \<^item> Db\_Buffer, Db\_Buffer\_Correct: the state buffer on a database; after its contents are written, the database
    answers as the buffer did.
  \<^item> Environment: environments and transactions of LMDB, used by many threads, as a state machine whose steps are
    the operations; the counts of each thread are right in every state that is reached.
  \<^item> Sha256, Ripemd160: the two hash functions in C equal the published algorithms.
  \<^item> Precompiled, Precompiled\_Correct, Precompiled\_Spec, Contracts: the precompiled contracts.  Price and result of all
    nine are specified on inputs extended by zeros, and calls charge that price, return that result and read nothing
    outside their input.

  \<^bold>\<open>Not modelled.\<close>  The command line tools (cmd) except for the hashing stage, logging, threads and temporary
  directories (db/silkworm/common), bindings (tg\_api, wasm), code taken from elsewhere (magic\_enum), and conversions to JSON and CBOR.
\<close>

end
